(* ===== verification/Prelude.thy ===== *)
theory Prelude
  imports Main
begin

text \<open>
  Shared ground of the development: the types every component uses (identifiers, instants,
  JSON values), the result type of fallible operations with its sequencing combinator, the
  queries and updates of the relational store (a table is the list of its rows, in insertion
  order), and the generic lemmas about them.

  Conventions of the whole development:
  \<^item> a UUID is a natural number; \<open>uuid4()\<close>/\<open>uuid_v7()\<close> draw a fresh one from a supply that is
    part of the state;
  \<^item> an instant (\<open>datetime\<close>, UTC) is the number of microseconds since the Unix epoch;
  \<^item> an operation that may raise returns \<open>Inl\<close> of the exception or \<open>Inr\<close> of its result and
    the new state; after \<open>Inl\<close> the request's transaction is rolled back, so no state is given;
  \<^item> the human-readable message of an exception is not modelled, its class and its \<open>extras\<close> are.
\<close>

section \<open>Basic types\<close>

type_synonym uuid = nat
type_synonym datetime = int

text \<open>
  JSON values as the code builds them. \<open>JUuid\<close>, \<open>JTime\<close> and \<open>JDate\<close> stand for the text that
  \<open>str(uuid)\<close> and \<open>isoformat()\<close> give, kept symbolic.
\<close>

datatype json =
    JNull
  | JBool bool
  | JInt int
  | JFloat int nat  \<comment> \<open>the binary fraction \<open>m / 2 ^ k\<close>\<close>
  | JStr string
  | JUuid uuid
  | JTime datetime
  | JDate int int int
  | JList "json list"
  | JObj "(string \<times> json) list"

type_synonym json_object = "(string \<times> json) list"

definition seconds :: "int \<Rightarrow> int" where
  "seconds n = n * 1000000"

definition days :: "int \<Rightarrow> int" where
  "days n = seconds (n * 86400)"

section \<open>Results\<close>

definition bind_r :: "'e + 'a \<Rightarrow> ('a \<Rightarrow> 'e + 'b) \<Rightarrow> 'e + 'b" where
  "bind_r m f = (case m of Inl e \<Rightarrow> Inl e | Inr x \<Rightarrow> f x)"

definition guard_r :: "bool \<Rightarrow> 'e \<Rightarrow> 'e + unit" where
  "guard_r b e = (if b then Inr () else Inl e)"

named_theorems result_simps \<open>sequencing of fallible operations\<close>

lemma bind_r_simps [simp, result_simps]:
  "bind_r (Inl e) f = Inl e"
  "bind_r (Inr x) f = f x"
  by (simp_all add: bind_r_def)

lemma bind_r_eq_Inr [result_simps]:
  "bind_r m f = Inr y \<longleftrightarrow> (\<exists>x. m = Inr x \<and> f x = Inr y)"
  by (auto simp: bind_r_def split: sum.splits)

lemma bind_r_eq_Inl [result_simps]:
  "bind_r m f = Inl e \<longleftrightarrow> m = Inl e \<or> (\<exists>x. m = Inr x \<and> f x = Inl e)"
  by (auto simp: bind_r_def split: sum.splits)

lemma guard_r_eq_Inr [simp, result_simps]: "guard_r b e = Inr u \<longleftrightarrow> b"
  by (simp add: guard_r_def)

lemma guard_r_eq_Inl [simp, result_simps]: "guard_r b e = Inl e' \<longleftrightarrow> \<not> b \<and> e' = e"
  by (auto simp: guard_r_def)

lemma guard_r_True [simp]: "guard_r True e = Inr ()"
  by (simp add: guard_r_def)

lemma guard_r_False [simp]: "guard_r False e = Inl e"
  by (simp add: guard_r_def)

text \<open>A loop over a list whose body may raise: the first exception ends it.\<close>

fun fold_r :: "('a \<Rightarrow> 's \<Rightarrow> 'e + 's) \<Rightarrow> 'a list \<Rightarrow> 's \<Rightarrow> 'e + 's" where
  "fold_r f [] s = Inr s"
| "fold_r f (x # xs) s = bind_r (f x s) (fold_r f xs)"

lemma fold_r_append:
  "fold_r f (xs @ ys) s = bind_r (fold_r f xs s) (fold_r f ys)"
  by (induction xs arbitrary: s) (auto simp: bind_r_def split: sum.splits)

lemma fold_r_invariant:
  assumes "fold_r f xs s = Inr s'" and "P s"
    and "\<And>x s s'. x \<in> set xs \<Longrightarrow> P s \<Longrightarrow> f x s = Inr s' \<Longrightarrow> P s'"
  shows "P s'"
  using assms
proof (induction xs arbitrary: s)
  case Nil
  then show ?case by simp
next
  case (Cons x xs)
  from Cons.prems(1) obtain t where "f x s = Inr t" and rest: "fold_r f xs t = Inr s'"
    by (auto simp: bind_r_eq_Inr)
  with Cons.prems(2) have "P t" by (auto intro: Cons.prems(3) [of x s t])
  with rest show ?case by (rule Cons.IH) (auto intro: Cons.prems(3))
qed

text \<open>The same with the part of the list already done.\<close>

lemma fold_r_prefix_invariant:
  assumes "fold_r f xs s = Inr s'" and "P [] s"
    and "\<And>pre x s s'. x \<in> set xs \<Longrightarrow> (\<exists>suf. xs = pre @ x # suf) \<Longrightarrow> P pre s \<Longrightarrow> f x s = Inr s'
      \<Longrightarrow> P (pre @ [x]) s'"
  shows "P xs s'"
proof -
  have "P (pre @ ys) s'" if "fold_r f ys t = Inr s'" "P pre t" "xs = pre @ ys" for pre ys t
    using that
  proof (induction ys arbitrary: pre t)
    case Nil
    then show ?case by simp
  next
    case (Cons y ys)
    from Cons.prems(1) obtain u where u: "f y t = Inr u" "fold_r f ys u = Inr s'"
      by (auto simp: bind_r_eq_Inr)
    have "P (pre @ [y]) u"
      using Cons.prems u(1) by (intro assms(3) [of y pre t u]) auto
    with Cons.IH [OF u(2), of "pre @ [y]"] Cons.prems(3) show ?case by simp
  qed
  from this [of xs s "[]"] assms(1,2) show ?thesis by simp
qed

section \<open>Tables\<close>

text \<open>
  \<open>first_row\<close> is \<open>session.get\<close> or \<open>.limit(1)\<close>/\<open>.first()\<close> over a table;
  \<open>rows_where\<close> a \<open>SELECT ... WHERE\<close>; \<open>update_where\<close> an \<open>UPDATE ... WHERE\<close> or the flush of an
  object's changed attributes; \<open>one_or_none\<close> is \<open>Result.scalar_one_or_none\<close>, which raises
  (here: the given exception) on a second row.
\<close>

definition rows_where :: "('r \<Rightarrow> bool) \<Rightarrow> 'r list \<Rightarrow> 'r list" where
  "rows_where P rows = filter P rows"

definition first_row :: "('r \<Rightarrow> bool) \<Rightarrow> 'r list \<Rightarrow> 'r option" where
  "first_row P rows = List.find P rows"

definition last_row :: "('r \<Rightarrow> bool) \<Rightarrow> 'r list \<Rightarrow> 'r option" where
  "last_row P rows = List.find P (rev rows)"

definition update_where :: "('r \<Rightarrow> bool) \<Rightarrow> ('r \<Rightarrow> 'r) \<Rightarrow> 'r list \<Rightarrow> 'r list" where
  "update_where P f rows = map (\<lambda>r. if P r then f r else r) rows"

definition delete_where :: "('r \<Rightarrow> bool) \<Rightarrow> 'r list \<Rightarrow> 'r list" where
  "delete_where P rows = filter (\<lambda>r. \<not> P r) rows"

definition one_or_none :: "'e \<Rightarrow> ('r \<Rightarrow> bool) \<Rightarrow> 'r list \<Rightarrow> 'e + 'r option" where
  "one_or_none multiple P rows =
     (case filter P rows of [] \<Rightarrow> Inr None | [r] \<Rightarrow> Inr (Some r) | _ \<Rightarrow> Inl multiple)"

text \<open>\<open>ORDER BY key DESC LIMIT 1\<close>.\<close>

definition latest :: "('r \<Rightarrow> int) \<Rightarrow> 'r list \<Rightarrow> 'r option" where
  "latest key rows =
     (case rows of [] \<Rightarrow> None | r # rs \<Rightarrow> Some (foldl (\<lambda>b x. if key b < key x then x else b) r rs))"

lemma latest_None [simp]: "latest key rows = None \<longleftrightarrow> rows = []"
  by (simp add: latest_def split: list.split)

lemma foldl_later_member: "foldl (\<lambda>b x. if key b < key x then x else b) r rs \<in> set (r # rs)"
proof (induction rs arbitrary: r)
  case Nil
  then show ?case by simp
next
  case (Cons x rs)
  from Cons [of "if key r < key x then x else r"] show ?case by (auto split: if_splits)
qed

lemma latest_SomeD: "latest key rows = Some r \<Longrightarrow> r \<in> set rows"
  by (cases rows) (use foldl_later_member in \<open>fastforce simp: latest_def\<close>)+

lemma latest_singleton [simp]: "latest key [r] = Some r"
  by (simp add: latest_def)

named_theorems table_simps \<open>queries and updates of tables\<close>

lemma find_Some_member: "List.find P xs = Some x \<Longrightarrow> x \<in> set xs \<and> P x"
  by (induction xs) (auto split: if_splits)

lemma first_row_SomeD: "first_row P rows = Some r \<Longrightarrow> r \<in> set rows \<and> P r"
  by (simp add: first_row_def find_Some_member)

lemma first_row_None: "first_row P rows = None \<longleftrightarrow> (\<forall>r\<in>set rows. \<not> P r)"
  by (induction rows) (auto simp: first_row_def)

lemma last_row_SomeD: "last_row P rows = Some r \<Longrightarrow> r \<in> set rows \<and> P r"
  using find_Some_member [of P "rev rows" r] by (simp add: last_row_def)

lemma last_row_None: "last_row P rows = None \<longleftrightarrow> (\<forall>r\<in>set rows. \<not> P r)"
  using first_row_None [of P "rev rows"] by (simp add: last_row_def first_row_def)

lemma last_row_snoc [simp, table_simps]:
  "last_row P (rows @ [r]) = (if P r then Some r else last_row P rows)"
  by (simp add: last_row_def)

lemma first_row_snoc [table_simps]:
  "first_row P (rows @ [r]) =
     (case first_row P rows of Some x \<Rightarrow> Some x | None \<Rightarrow> if P r then Some r else None)"
  by (induction rows) (auto simp: first_row_def)

lemma set_update_where:
  "set (update_where P f rows) = f ` {r \<in> set rows. P r} \<union> {r \<in> set rows. \<not> P r}"
  by (auto simp: update_where_def)

lemma update_where_id [simp, table_simps]: "update_where P (\<lambda>r. r) rows = rows"
  by (induction rows) (auto simp: update_where_def)

lemma length_update_where [simp, table_simps]: "length (update_where P f rows) = length rows"
  by (simp add: update_where_def)

lemma update_where_none [table_simps]:
  "\<forall>r\<in>set rows. \<not> P r \<Longrightarrow> update_where P f rows = rows"
  by (induction rows) (auto simp: update_where_def)

lemma map_update_where:
  "(\<And>r. P r \<Longrightarrow> g (f r) = g r) \<Longrightarrow> map g (update_where P f rows) = map g rows"
  by (induction rows) (auto simp: update_where_def)

lemma update_where_same:
  "(\<And>r. r \<in> set rows \<Longrightarrow> P r \<Longrightarrow> f r = r) \<Longrightarrow> update_where P f rows = rows"
  by (induction rows) (auto simp: update_where_def)

lemma one_or_none_SomeD:
  "one_or_none e P rows = Inr (Some r) \<Longrightarrow> r \<in> set rows \<and> P r"
proof -
  assume "one_or_none e P rows = Inr (Some r)"
  then have "filter P rows = [r]"
    by (auto simp: one_or_none_def split: list.splits)
  then have "r \<in> set (filter P rows)" by simp
  then show ?thesis by simp
qed

lemma one_or_none_None: "one_or_none e P rows = Inr None \<longleftrightarrow> (\<forall>r\<in>set rows. \<not> P r)"
  by (auto simp: one_or_none_def filter_empty_conv [symmetric] split: list.splits)

text \<open>A key that is unique in a table makes the query return at most one row.\<close>

lemma distinct_key_filter:
  assumes "distinct (map key rows)" and "r \<in> set rows" and "key r = k"
  shows "filter (\<lambda>x. key x = k) rows = [r]"
  using assms
proof (induction rows)
  case Nil
  then show ?case by simp
next
  case (Cons a rows)
  show ?case
  proof (cases "a = r")
    case True
    with Cons.prems have "\<forall>x\<in>set rows. key x \<noteq> k" by (auto simp: image_iff)
    then have "filter (\<lambda>x. key x = k) rows = []" by (simp add: filter_empty_conv)
    with True Cons.prems show ?thesis by simp
  next
    case False
    with Cons.prems have "r \<in> set rows" by simp
    with Cons.prems have "key a \<noteq> k" by (auto simp: image_iff)
    with Cons \<open>r \<in> set rows\<close> show ?thesis by simp
  qed
qed

lemma distinct_key_find:
  assumes "distinct (map key rows)" and "r \<in> set rows" and "key r = k"
  shows "first_row (\<lambda>x. key x = k) rows = Some r"
  using assms by (induction rows) (auto simp: first_row_def image_iff)

lemma distinct_key_unique:
  "distinct (map key rows) \<Longrightarrow> r \<in> set rows \<Longrightarrow> r' \<in> set rows \<Longrightarrow> key r = key r' \<Longrightarrow> r = r'"
  by (induction rows) (auto simp: image_iff)

lemma replace_row_set:
  assumes "distinct (map key rows)" and "p \<in> set rows"
  shows "set (update_where (\<lambda>r. key r = key p) (\<lambda>_. q) rows) = insert q (set rows - {p})"
proof -
  have "key r = key p \<longleftrightarrow> r = p" if "r \<in> set rows" for r
    using that assms distinct_key_unique by metis
  then show ?thesis using assms(2) by (auto simp: set_update_where)
qed

lemma replace_row_map:
  assumes "distinct (map key rows)" and "p \<in> set rows" and "g q = g p"
  shows "map g (update_where (\<lambda>r. key r = key p) (\<lambda>_. q) rows) = map g rows"
proof -
  have "key r = key p \<longleftrightarrow> r = p" if "r \<in> set rows" for r
    using that assms distinct_key_unique by metis
  then show ?thesis using assms(3) by (auto simp: update_where_def)
qed

text \<open>Replacing the row of a primary key, seen as a list.\<close>

lemma replace_row_split:
  assumes "distinct (map key rows)" and "p \<in> set rows" and "key q = key p"
  shows "\<exists>a b. rows = a @ p # b \<and> update_where (\<lambda>r. key r = key q) (\<lambda>_. q) rows = a @ q # b"
proof -
  obtain a b where rows: "rows = a @ p # b" using assms(2) by (auto simp: in_set_conv_decomp)
  have "\<forall>r\<in>set a \<union> set b. key r \<noteq> key q"
    using assms(1,3) unfolding rows by (auto simp: image_iff)
  then have "update_where (\<lambda>r. key r = key q) (\<lambda>_. q) rows = a @ q # b"
    unfolding rows update_where_def by (simp add: map_idI assms(3) [symmetric])
  with rows show ?thesis by blast
qed

section \<open>Association lists as Python dictionaries\<close>

text \<open>\<open>d[k] = v\<close> replaces the value in place or appends the key; \<open>d.get(k)\<close> is \<open>map_of d k\<close>.\<close>

fun dict_set :: "'k \<Rightarrow> 'v \<Rightarrow> ('k \<times> 'v) list \<Rightarrow> ('k \<times> 'v) list" where
  "dict_set k v [] = [(k, v)]"
| "dict_set k v ((k', v') # kvs) =
     (if k = k' then (k, v) # kvs else (k', v') # dict_set k v kvs)"

lemma map_of_dict_set [simp]: "map_of (dict_set k v d) = (map_of d)(k \<mapsto> v)"
  by (induction k v d rule: dict_set.induct) (auto simp: fun_eq_iff)

lemma keys_dict_set [simp]: "fst ` set (dict_set k v d) = insert k (fst ` set d)"
  by (induction k v d rule: dict_set.induct) auto

lemma distinct_dict_set: "distinct (map fst d) \<Longrightarrow> distinct (map fst (dict_set k v d))"
proof (induction k v d rule: dict_set.induct)
  case (1 k v)
  then show ?case by simp
next
  case (2 k v k' v' kvs)
  have "k' \<notin> fst ` set (dict_set k v kvs)" if "k \<noteq> k'"
    using "2.prems" that by (simp only: keys_dict_set) simp
  with 2 show ?case by auto
qed

text \<open>Truncating and rounding quotients of integers, as Python and its \<open>decimal\<close> module do.\<close>

definition ceil_div :: "int \<Rightarrow> int \<Rightarrow> int" where
  "ceil_div a b = - ((- a) div b)"

lemma ceil_div_bounds:
  assumes "0 < b"
  shows "a \<le> ceil_div a b * b" and "ceil_div a b * b < a + b"
proof -
  have eq: "(- a) div b * b + (- a) mod b = - a" by (rule div_mult_mod_eq)
  have bounds: "0 \<le> (- a) mod b" "(- a) mod b < b" using assms by simp_all
  have c: "ceil_div a b * b = - ((- a) div b * b)" by (simp add: ceil_div_def)
  show "a \<le> ceil_div a b * b" "ceil_div a b * b < a + b"
    unfolding c using eq bounds by linarith+
qed

lemma ceil_div_least: "0 < b \<Longrightarrow> a \<le> q * b \<Longrightarrow> ceil_div a b \<le> q"
proof -
  assume "0 < b" "a \<le> q * b"
  then have "ceil_div a b * b < (q + 1) * b"
    using ceil_div_bounds(2) [of b a] by (simp add: algebra_simps)
  with \<open>0 < b\<close> show ?thesis by simp
qed

end
