(* ===== verification/Errors.thy ===== *)
theory Errors
  imports Prelude
begin

text \<open>
  \<open>core/errors.py\<close>: the hierarchy of domain errors with the HTTP status and the title each
  class carries, and the RFC 7807 problem document built from one. Exceptions that are not
  domain errors (they come from the database driver or from Python itself) are the other
  constructors of \<open>error\<close>.
\<close>

datatype (plugins only: code size) error_kind =
    DomainError
  | TenantContextMissingError | TenantViolationError | TenantNotResolvedError
  | AuthenticationError | InvalidCredentialsError | TokenReuseError
  | EmailAlreadyRegisteredError | WeakPasswordError | UserNotFoundError
  | OrganizationNotFoundError | SlugUnavailableError | OrganizationSuspendedError
  | MembershipLimitReachedError | NotAMemberError | InviteNotFoundError
  | InviteAlreadyUsedError
  | PermissionDeniedError | RoleNotFoundError | SystemRoleImmutableError
  | PlanNotFoundError | PlanNotPublicError | CatalogInvalidError | BrandingInvalidError
  | SubscriptionNotFoundError | SubscriptionStateError | TrialNotAllowedError
  | FeatureNotEntitledError | EntitlementNotFoundError
  | UsageLimitExceededError | UnknownMetricError
  | BillingProviderError | BillingProviderNotConfiguredError
  | WebhookSignatureInvalidError | InvoiceNotFoundError
  | FeatureFlagNotFoundError
  | StorageError | PresignUnsupportedError | UploadIncompleteError
  | ApiKeyNotFoundError
  | WebhookEndpointNotFoundError | WebhookDeliveryNotFoundError
  | ValidationFailedError | NotFoundError | ConflictError | MethodNotAllowedError
  | HttpError | RateLimitedError | CheckoutConfirmNotAllowedError | CheckoutRequiredError

datatype (plugins only: code size) error =
    Domain error_kind json_object
  | MultipleResultsFound
  | NoResultFound
  | IntegrityError
  | ValueError
  | NotImplementedError
  | AttributeError
  | OtherException string

abbreviation raise_error :: "error_kind \<Rightarrow> error + 'a" where
  "raise_error k \<equiv> Inl (Domain k [])"

abbreviation is_domain_error :: "error \<Rightarrow> bool" where
  "is_domain_error e \<equiv> (\<exists>k x. e = Domain k x)"

text \<open>\<open>except SomeError\<close>: the exception is of that class.\<close>

definition is_error :: "error_kind \<Rightarrow> error \<Rightarrow> bool" where
  "is_error k e = (case e of Domain k' x \<Rightarrow> k' = k | _ \<Rightarrow> False)"

primrec error_status :: "error_kind \<Rightarrow> int" where
  "error_status DomainError = 400"
| "error_status TenantContextMissingError = 400"
| "error_status TenantViolationError = 403"
| "error_status TenantNotResolvedError = 404"
| "error_status AuthenticationError = 401"
| "error_status InvalidCredentialsError = 401"
| "error_status TokenReuseError = 401"
| "error_status EmailAlreadyRegisteredError = 409"
| "error_status WeakPasswordError = 400"
| "error_status UserNotFoundError = 404"
| "error_status OrganizationNotFoundError = 404"
| "error_status SlugUnavailableError = 409"
| "error_status OrganizationSuspendedError = 403"
| "error_status MembershipLimitReachedError = 402"
| "error_status NotAMemberError = 404"
| "error_status InviteNotFoundError = 404"
| "error_status InviteAlreadyUsedError = 409"
| "error_status PermissionDeniedError = 403"
| "error_status RoleNotFoundError = 404"
| "error_status SystemRoleImmutableError = 409"
| "error_status PlanNotFoundError = 404"
| "error_status PlanNotPublicError = 404"
| "error_status CatalogInvalidError = 400"
| "error_status BrandingInvalidError = 400"
| "error_status SubscriptionNotFoundError = 404"
| "error_status SubscriptionStateError = 409"
| "error_status TrialNotAllowedError = 409"
| "error_status FeatureNotEntitledError = 403"
| "error_status EntitlementNotFoundError = 404"
| "error_status UsageLimitExceededError = 402"
| "error_status UnknownMetricError = 422"
| "error_status BillingProviderError = 502"
| "error_status BillingProviderNotConfiguredError = 409"
| "error_status WebhookSignatureInvalidError = 400"
| "error_status InvoiceNotFoundError = 404"
| "error_status FeatureFlagNotFoundError = 404"
| "error_status StorageError = 400"
| "error_status PresignUnsupportedError = 409"
| "error_status UploadIncompleteError = 409"
| "error_status ApiKeyNotFoundError = 404"
| "error_status WebhookEndpointNotFoundError = 404"
| "error_status WebhookDeliveryNotFoundError = 404"
| "error_status ValidationFailedError = 422"
| "error_status NotFoundError = 404"
| "error_status ConflictError = 409"
| "error_status MethodNotAllowedError = 405"
| "error_status HttpError = 400"
| "error_status RateLimitedError = 429"
| "error_status CheckoutConfirmNotAllowedError = 409"
| "error_status CheckoutRequiredError = 409"

primrec error_title :: "error_kind \<Rightarrow> string" where
  "error_title DomainError = ''domain_error''"
| "error_title TenantContextMissingError = ''tenant_context_missing''"
| "error_title TenantViolationError = ''tenant_violation''"
| "error_title TenantNotResolvedError = ''not_found''"
| "error_title AuthenticationError = ''unauthorized''"
| "error_title InvalidCredentialsError = ''invalid_credentials''"
| "error_title TokenReuseError = ''token_reuse_detected''"
| "error_title EmailAlreadyRegisteredError = ''email_already_registered''"
| "error_title WeakPasswordError = ''weak_password''"
| "error_title UserNotFoundError = ''user_not_found''"
| "error_title OrganizationNotFoundError = ''not_found''"
| "error_title SlugUnavailableError = ''slug_unavailable''"
| "error_title OrganizationSuspendedError = ''organization_suspended''"
| "error_title MembershipLimitReachedError = ''usage_limit_exceeded''"
| "error_title NotAMemberError = ''not_found''"
| "error_title InviteNotFoundError = ''invite_not_found''"
| "error_title InviteAlreadyUsedError = ''invite_already_used''"
| "error_title PermissionDeniedError = ''permission_denied''"
| "error_title RoleNotFoundError = ''role_not_found''"
| "error_title SystemRoleImmutableError = ''system_role_immutable''"
| "error_title PlanNotFoundError = ''plan_not_found''"
| "error_title PlanNotPublicError = ''plan_not_found''"
| "error_title CatalogInvalidError = ''plan_catalog_invalid''"
| "error_title BrandingInvalidError = ''branding_invalid''"
| "error_title SubscriptionNotFoundError = ''subscription_not_found''"
| "error_title SubscriptionStateError = ''invalid_subscription_transition''"
| "error_title TrialNotAllowedError = ''trial_not_allowed''"
| "error_title FeatureNotEntitledError = ''feature_not_entitled''"
| "error_title EntitlementNotFoundError = ''entitlement_not_found''"
| "error_title UsageLimitExceededError = ''usage_limit_exceeded''"
| "error_title UnknownMetricError = ''unknown_metric''"
| "error_title BillingProviderError = ''billing_provider_error''"
| "error_title BillingProviderNotConfiguredError = ''billing_provider_not_configured''"
| "error_title WebhookSignatureInvalidError = ''webhook_signature_invalid''"
| "error_title InvoiceNotFoundError = ''invoice_not_found''"
| "error_title FeatureFlagNotFoundError = ''feature_flag_not_found''"
| "error_title StorageError = ''storage_error''"
| "error_title PresignUnsupportedError = ''presign_unsupported''"
| "error_title UploadIncompleteError = ''upload_incomplete''"
| "error_title ApiKeyNotFoundError = ''api_key_not_found''"
| "error_title WebhookEndpointNotFoundError = ''webhook_endpoint_not_found''"
| "error_title WebhookDeliveryNotFoundError = ''webhook_delivery_not_found''"
| "error_title ValidationFailedError = ''validation_failed''"
| "error_title NotFoundError = ''not_found''"
| "error_title ConflictError = ''conflict''"
| "error_title MethodNotAllowedError = ''method_not_allowed''"
| "error_title HttpError = ''http_error''"
| "error_title RateLimitedError = ''rate_limited''"
| "error_title CheckoutConfirmNotAllowedError = ''checkout_confirm_not_allowed''"
| "error_title CheckoutRequiredError = ''checkout_required''"

definition BASE_PROBLEM_URI :: string where
  "BASE_PROBLEM_URI = ''https://synapse-saas.dev/problems''"

definition problem_type :: "error_kind \<Rightarrow> string" where
  "problem_type k = BASE_PROBLEM_URI @ ''/'' @ error_title k"

definition replace_underscores :: "string \<Rightarrow> string" where
  "replace_underscores t = map (\<lambda>c. if c = CHR ''_'' then CHR '' '' else c) t"

definition opt_member :: "string \<Rightarrow> string option \<Rightarrow> json_object \<Rightarrow> json_object" where
  "opt_member k v doc = (case v of None \<Rightarrow> doc | Some x \<Rightarrow> dict_set k (JStr x) doc)"

text \<open>\<open>DomainError.to_problem\<close>: the extras first, then the standard members over them.\<close>

definition to_problem ::
  "error_kind \<Rightarrow> string \<Rightarrow> json_object \<Rightarrow> string option \<Rightarrow> string option \<Rightarrow> json_object"
where
  "to_problem k message extras instance_path request_id =
     opt_member ''request_id'' request_id (opt_member ''instance'' instance_path
       (dict_set ''detail'' (JStr message) (dict_set ''status'' (JInt (error_status k))
         (dict_set ''title'' (JStr (replace_underscores (error_title k)))
           (dict_set ''type'' (JStr (problem_type k)) extras)))))"

lemma map_of_opt_member:
  "map_of (opt_member k v doc) =
     (case v of None \<Rightarrow> map_of doc | Some x \<Rightarrow> (map_of doc)(k \<mapsto> JStr x))"
  by (simp add: opt_member_def split: option.split)

lemma error_status_4xx_or_502: "400 \<le> error_status k \<and> (error_status k < 500 \<or> error_status k = 502)"
  by (cases k) simp_all

text \<open>
  Whatever extension members an error carries, the problem document's \<open>type\<close>, \<open>title\<close>,
  \<open>status\<close> and \<open>detail\<close> are the error's own, as are \<open>instance\<close> and \<open>request_id\<close> when they
  are given, and every other extension member is kept.
\<close>

theorem to_problem_standard_members_win:
  "map_of (to_problem k message extras inst rid) key =
     (if key = ''type'' then Some (JStr (problem_type k))
      else if key = ''title'' then Some (JStr (replace_underscores (error_title k)))
      else if key = ''status'' then Some (JInt (error_status k))
      else if key = ''detail'' then Some (JStr message)
      else if key = ''instance'' \<and> inst \<noteq> None then Some (JStr (the inst))
      else if key = ''request_id'' \<and> rid \<noteq> None then Some (JStr (the rid))
      else map_of extras key)"
  unfolding to_problem_def by (auto simp: map_of_opt_member split: option.split)

end
