(* ===== verification/Calendar.thy ===== *)
theory Calendar
  imports Prelude
begin

text \<open>
  The part of Python's \<open>datetime\<close> module the program uses: proleptic Gregorian dates, the
  conversion between an instant and its UTC date, and \<open>replace(day=1)\<close>. The conversion follows
  the cycles of 400, 100, 4 and 1 years; it is shown to be inverse to counting days, which is
  what the billing periods rest on.
\<close>

datatype date = Date (d_year: int) (d_month: int) (d_day: int)

definition is_leap :: "int \<Rightarrow> bool" where
  "is_leap y \<longleftrightarrow> y mod 4 = 0 \<and> (y mod 100 \<noteq> 0 \<or> y mod 400 = 0)"

text \<open>Days before the year \<open>y\<close>, and days before the month \<open>m\<close> of a (leap) year.\<close>

definition days_before_year :: "int \<Rightarrow> int" where
  "days_before_year y = (let z = y - 1 in z * 365 + z div 4 - z div 100 + z div 400)"

definition days_before_month :: "bool \<Rightarrow> int \<Rightarrow> int" where
  "days_before_month leap m =
     (if m \<le> 1 then 0 else if m = 2 then 31
      else (if leap then 1 else 0) +
        (if m = 3 then 59 else if m = 4 then 90 else if m = 5 then 120 else if m = 6 then 151
         else if m = 7 then 181 else if m = 8 then 212 else if m = 9 then 243
         else if m = 10 then 273 else if m = 11 then 304 else 334))"

definition to_ordinal :: "date \<Rightarrow> int" where
  "to_ordinal d =
     days_before_year (d_year d) + days_before_month (is_leap (d_year d)) (d_month d) + d_day d"

text \<open>The month that the zero-based day \<open>n\<close> of a year falls in.\<close>

definition month_of_day :: "bool \<Rightarrow> int \<Rightarrow> int" where
  "month_of_day leap n =
     (let b = days_before_month leap in
      if n < b 2 then 1 else if n < b 3 then 2 else if n < b 4 then 3 else if n < b 5 then 4
      else if n < b 6 then 5 else if n < b 7 then 6 else if n < b 8 then 7 else if n < b 9 then 8
      else if n < b 10 then 9 else if n < b 11 then 10 else if n < b 12 then 11 else 12)"

definition from_ordinal :: "int \<Rightarrow> date" where
  "from_ordinal ordinal =
     (let n = ordinal - 1; n400 = n div 146097; r400 = n mod 146097;
          n100 = r400 div 36524; r100 = r400 mod 36524;
          n4 = r100 div 1461; r4 = r100 mod 1461;
          n1 = r4 div 365; r1 = r4 mod 365;
          year = n400 * 400 + n100 * 100 + n4 * 4 + n1 + 1
      in if n1 = 4 \<or> n100 = 4 then Date (year - 1) 12 31
         else let leap = is_leap year; m = month_of_day leap r1
              in Date year m (r1 - days_before_month leap m + 1))"

text \<open>1970-01-01 is day 719163.\<close>

definition date_of :: "datetime \<Rightarrow> date" where
  "date_of t = from_ordinal (t div 86400000000 + 719163)"

definition midnight :: "date \<Rightarrow> datetime" where
  "midnight d = days (to_ordinal d - 719163)"

definition date_add_days :: "date \<Rightarrow> int \<Rightarrow> date" where
  "date_add_days d n = from_ordinal (to_ordinal d + n)"

definition first_of_month :: "date \<Rightarrow> date" where
  "first_of_month d = Date (d_year d) (d_month d) 1"

section \<open>The conversion is inverse to counting days\<close>

lemma month_of_day_range: "1 \<le> month_of_day leap n \<and> month_of_day leap n \<le> 12"
  by (simp add: month_of_day_def Let_def)

lemma month_of_day_start:
  "0 \<le> n \<Longrightarrow> days_before_month leap (month_of_day leap n) \<le> n"
  by (cases leap) (simp_all add: month_of_day_def days_before_month_def Let_def)

lemma days_before_year_cycles:
  assumes "0 \<le> a" "a < 4" "0 \<le> b" "b < 25" "0 \<le> c" "c < 4"
  shows "days_before_year (q * 400 + a * 100 + b * 4 + c + 1)
    = q * 146097 + a * 36524 + b * 1461 + c * 365"
proof -
  let ?z = "q * 400 + a * 100 + b * 4 + c"
  have "?z div 4 = q * 100 + a * 25 + b" using assms by linarith
  moreover have "?z div 100 = q * 4 + a" using assms by linarith
  moreover have "?z div 400 = q" using assms by linarith
  ultimately show ?thesis by (simp add: days_before_year_def)
qed

lemma days_before_year_end:
  assumes "0 \<le> a" "a < 4" "0 \<le> b" "b < 25"
  shows "days_before_year (q * 400 + a * 100 + b * 4 + 4)
    = q * 146097 + a * 36524 + b * 1461 + 3 * 365"
  using days_before_year_cycles [of a b 3 q] assms by (simp add: algebra_simps)

lemma from_ordinal_round_trip: "to_ordinal (from_ordinal k) = k"
proof -
  define n r400 r100 r4 where "n = k - 1" and "r400 = n mod 146097"
    and "r100 = r400 mod 36524" and "r4 = r100 mod 1461"
  define q a b c r where "q = n div 146097" and "a = r400 div 36524"
    and "b = r100 div 1461" and "c = r4 div 365" and "r = r4 mod 365"
  have n: "n = q * 146097 + a * 36524 + b * 1461 + c * 365 + r"
    by (simp add: q_def a_def b_def c_def r_def r400_def r100_def r4_def)
  have r400: "0 \<le> r400" "r400 < 146097" by (simp_all add: r400_def)
  have r100: "0 \<le> r100" "r100 < 36524" by (simp_all add: r100_def)
  have r4: "0 \<le> r4" "r4 < 1461" by (simp_all add: r4_def)
  have r: "0 \<le> r" "r < 365" by (simp_all add: r_def)
  have a: "0 \<le> a" "a \<le> 4" using r400 unfolding a_def by linarith+
  have b: "0 \<le> b" "b < 25" using r100 unfolding b_def by linarith+
  have c: "0 \<le> c" "c \<le> 4" using r4 unfolding c_def by linarith+
  have eq: "from_ordinal k =
    (if c = 4 \<or> a = 4 then Date (q * 400 + a * 100 + b * 4 + c) 12 31
     else let y = q * 400 + a * 100 + b * 4 + c + 1; m = month_of_day (is_leap y) r
       in Date y m (r - days_before_month (is_leap y) m + 1))"
    by (simp add: from_ordinal_def Let_def n_def [symmetric] r400_def [symmetric]
        r100_def [symmetric] r4_def [symmetric] q_def [symmetric] a_def [symmetric]
        b_def [symmetric] c_def [symmetric] r_def [symmetric])
  show ?thesis
  proof (cases "c = 4 \<or> a = 4")
    case False
    with a b c have "days_before_year (q * 400 + a * 100 + b * 4 + c + 1) = n - r"
      by (subst days_before_year_cycles) (auto simp: n)
    with False show ?thesis by (simp add: eq to_ordinal_def Let_def n_def)
  next
    case True
    show ?thesis
    proof (cases "a = 4")
      case a4: True
      have r100_eq: "r400 = 4 * 36524 + r100"
        using div_mult_mod_eq [of r400 36524] a4 by (simp add: a_def [symmetric] r100_def [symmetric])
      with r400 r100 have "r100 = 0" by linarith
      then have z: "b = 0" "c = 0" "r = 0" by (simp_all add: b_def c_def r_def r4_def)
      have "is_leap (q * 400 + 400)" by (simp add: is_leap_def)
      moreover have "days_before_year (q * 400 + 400) = q * 146097 + 3 * 36524 + 24 * 1461 + 3 * 365"
        using days_before_year_end [of 3 24 q] by (simp add: add.commute)
      moreover have "from_ordinal k = Date (q * 400 + 400) 12 31"
        unfolding eq using a4 z by simp
      ultimately show ?thesis
        using a4 z n unfolding n_def by (simp add: to_ordinal_def days_before_month_def)
    next
      case False
      with True have c4: "c = 4" by simp
      have "r4 = 4 * 365 + r"
        using div_mult_mod_eq [of r4 365] c4 by (simp add: c_def [symmetric] r_def [symmetric])
      with r4 r have r0: "r = 0" by linarith
      have a3: "a < 4" using a False by simp
      let ?y = "q * 400 + a * 100 + b * 4 + 4"
      have leap: "is_leap ?y"
      proof (cases "b = 24")
        case True
        have "r100 = 24 * 1461 + r4"
          using div_mult_mod_eq [of r100 1461] True
          by (simp add: b_def [symmetric] r4_def [symmetric])
        with r100 have "r4 < 1460" by linarith
        with c4 show ?thesis by (simp add: c_def)
      next
        case False
        have "?y = (q * 100 + a * 25 + b + 1) * 4" by simp
        then have "?y mod 4 = 0" by (metis mod_mult_self2_is_0)
        moreover have "?y = (b * 4 + 4) + (q * 4 + a) * 100" by simp
        then have "?y mod 100 = (b * 4 + 4) mod 100" by (metis mod_mult_self1)
        then have "?y mod 100 \<noteq> 0" using b False by simp
        ultimately show ?thesis by (simp add: is_leap_def)
      qed
      have "days_before_year ?y = q * 146097 + a * 36524 + b * 1461 + 3 * 365"
        using days_before_year_end [of a b q] a a3 b by simp
      moreover have "from_ordinal k = Date ?y 12 31"
        unfolding eq using c4 by simp
      ultimately show ?thesis
        using leap c4 r0 n unfolding n_def by (simp add: to_ordinal_def days_before_month_def)
    qed
  qed
qed

lemma from_ordinal_month: "1 \<le> d_month (from_ordinal k) \<and> d_month (from_ordinal k) \<le> 12"
  by (simp add: from_ordinal_def Let_def month_of_day_range)

lemma from_ordinal_day: "1 \<le> d_day (from_ordinal k)"
proof -
  have "0 \<le> (k - 1) mod 146097 mod 36524 mod 1461 mod 365" by simp
  from month_of_day_start [OF this] show ?thesis by (simp add: from_ordinal_def Let_def)
qed

lemma first_of_month_idem [simp]: "first_of_month (first_of_month d) = first_of_month d"
  by (simp add: first_of_month_def)

lemma to_ordinal_first_of_month: "to_ordinal (first_of_month d) = to_ordinal d - (d_day d - 1)"
  by (simp add: to_ordinal_def first_of_month_def)

text \<open>The instant's own month starts no later than the instant.\<close>

lemma month_start_le: "midnight (first_of_month (date_of t)) \<le> t"
proof -
  have "midnight (first_of_month (date_of t)) \<le> days (t div 86400000000)"
    using from_ordinal_day [of "t div 86400000000 + 719163"]
    by (simp add: midnight_def to_ordinal_first_of_month date_of_def from_ordinal_round_trip
        days_def seconds_def)
  also have "\<dots> \<le> t" by (simp add: days_def seconds_def) 
  finally show ?thesis .
qed

end
