(* ===== verification/Cache.thy ===== *)
theory Cache
  imports Prelude
begin

text \<open>
  \<open>core/cache.py\<close>: the versioned cache. A \<open>CacheBackend\<close> (the Protocol of that name) is a
  record of operations; \<open>ttl_backend\<close> is the in-process \<open>TTLDictBackend\<close> at one reading of the
  clock. The other backend, a Redis client, is not part of the program: what the cache relies
  on is the locale \<open>cache_backend_laws\<close>. Cached texts are JSON values, a counter's text is the
  number.
\<close>

section \<open>Decimal text of a natural number\<close>

definition digit_char :: "nat \<Rightarrow> char" where
  "digit_char d = (if d = 0 then CHR ''0'' else if d = 1 then CHR ''1'' else if d = 2 then CHR ''2''
     else if d = 3 then CHR ''3'' else if d = 4 then CHR ''4'' else if d = 5 then CHR ''5''
     else if d = 6 then CHR ''6'' else if d = 7 then CHR ''7'' else if d = 8 then CHR ''8''
     else CHR ''9'')"

fun nat_str :: "nat \<Rightarrow> string" where
  "nat_str n = (if n < 10 then [digit_char n] else nat_str (n div 10) @ [digit_char (n mod 10)])"

declare nat_str.simps [simp del]

definition digit_val :: "char \<Rightarrow> nat" where
  "digit_val c = of_char c - 48"

definition str_nat :: "string \<Rightarrow> nat" where
  "str_nat s = foldl (\<lambda>acc c. 10 * acc + digit_val c) 0 s"

lemma digit_val_char: "d < 10 \<Longrightarrow> digit_val (digit_char d) = d"
  by (auto simp: digit_char_def digit_val_def)

lemma str_nat_nat_str [simp]: "str_nat (nat_str n) = n"
proof (induction n rule: nat_str.induct)
  case (1 n)
  show ?case
  proof (cases "n < 10")
    case True
    then show ?thesis by (subst nat_str.simps) (simp add: str_nat_def digit_val_char)
  next
    case False
    with "1.IH" show ?thesis
      by (subst nat_str.simps) (simp add: str_nat_def digit_val_char)
  qed
qed

lemma nat_str_inject [simp]: "nat_str m = nat_str n \<longleftrightarrow> m = n"
  by (metis str_nat_nat_str)

lemma nat_str_digits: "c \<in> set (nat_str n) \<Longrightarrow> c \<in> set ''0123456789''"
proof (induction n rule: nat_str.induct)
  case (1 n)
  have digit: "digit_char k \<in> set ''0123456789''" for k by (simp add: digit_char_def)
  show ?case
  proof (cases "n < 10")
    case True
    with "1.prems" digit show ?thesis by (subst (asm) nat_str.simps) auto
  next
    case False
    with 1 digit show ?thesis by (subst (asm) nat_str.simps) auto
  qed
qed

lemma nat_str_nonempty [simp]: "nat_str n \<noteq> []"
  by (subst nat_str.simps) simp

section \<open>Backends\<close>

record 'st cache_backend =
  b_get :: "'st \<Rightarrow> string \<Rightarrow> json option \<times> 'st"
  b_set :: "'st \<Rightarrow> string \<Rightarrow> json \<Rightarrow> int \<Rightarrow> 'st"
  b_incr :: "'st \<Rightarrow> string \<Rightarrow> (int \<times> 'st) option"  \<comment> \<open>\<open>None\<close>: the backend raised\<close>

type_synonym ttl_store = "string \<rightharpoonup> (int \<times> json)"

definition DEFAULT_TTL_SECONDS :: int where "DEFAULT_TTL_SECONDS = 60"
definition VERSION_TTL_SECONDS :: int where "VERSION_TTL_SECONDS = 3600"

definition ttl_get :: "int \<Rightarrow> ttl_store \<Rightarrow> string \<Rightarrow> json option \<times> ttl_store" where
  "ttl_get now st key =
     (case st key of
        None \<Rightarrow> (None, st)
      | Some (expires, value) \<Rightarrow>
          if expires < now then (None, st(key := None)) else (Some value, st))"

definition ttl_set :: "int \<Rightarrow> ttl_store \<Rightarrow> string \<Rightarrow> json \<Rightarrow> int \<Rightarrow> ttl_store" where
  "ttl_set now st key value ex = st(key \<mapsto> (now + seconds ex, value))"

definition ttl_delete :: "ttl_store \<Rightarrow> string list \<Rightarrow> ttl_store" where
  "ttl_delete st ks = st |` (- set ks)"

definition json_int :: "json option \<Rightarrow> int" where
  "json_int v = (case v of Some (JInt n) \<Rightarrow> n | _ \<Rightarrow> 0)"

definition ttl_incr :: "int \<Rightarrow> ttl_store \<Rightarrow> string \<Rightarrow> int \<times> ttl_store" where
  "ttl_incr now st key =
     (let (current, st') = ttl_get now st key; value = json_int current + 1
      in (value, st'(key \<mapsto> (now + seconds VERSION_TTL_SECONDS, JInt value))))"

definition ttl_backend :: "int \<Rightarrow> ttl_store cache_backend" where
  "ttl_backend now = \<lparr>b_get = ttl_get now, b_set = ttl_set now,
     b_incr = (\<lambda>st key. Some (ttl_incr now st key))\<rparr>"

section \<open>The versioned cache\<close>

text \<open>\<open>vc_object\<close> tells the Python objects apart: two caches may share a namespace.\<close>

record versioned_cache =
  vc_object :: string
  vc_namespace :: string
  vc_ttl :: int

definition version_key :: "versioned_cache \<Rightarrow> string \<Rightarrow> string" where
  "version_key c key = vc_namespace c @ '':ver:'' @ key"

definition body_key :: "versioned_cache \<Rightarrow> string \<Rightarrow> nat \<Rightarrow> string" where
  "body_key c key version = vc_namespace c @ '':v'' @ nat_str version @ '':'' @ key"

definition scoped_key :: "versioned_cache \<Rightarrow> string \<Rightarrow> string \<Rightarrow> string" where
  "scoped_key c key token = vc_namespace c @ '':s['' @ token @ '']:'' @ key"

definition current_version ::
  "'st cache_backend \<Rightarrow> versioned_cache \<Rightarrow> 'st \<Rightarrow> string \<Rightarrow> nat \<times> 'st" where
  "current_version B c st key =
     (let (raw, st') = b_get B st (version_key c key) in (nat (json_int raw), st'))"

definition get_versioned ::
  "'st cache_backend \<Rightarrow> versioned_cache \<Rightarrow> 'st \<Rightarrow> string \<Rightarrow> (json option \<times> nat) \<times> 'st" where
  "get_versioned B c st key =
     (let (version, st') = current_version B c st key;
          (body, st'') = b_get B st' (body_key c key version)
      in ((body, version), st''))"

definition cache_set ::
  "'st cache_backend \<Rightarrow> versioned_cache \<Rightarrow> 'st \<Rightarrow> string \<Rightarrow> json \<Rightarrow> nat option \<Rightarrow> 'st" where
  "cache_set B c st key value version =
     (let (v, st') = (case version of Some v \<Rightarrow> (v, st) | None \<Rightarrow> current_version B c st key)
      in b_set B st' (body_key c key v) value (vc_ttl c))"

definition bump :: "'st cache_backend \<Rightarrow> versioned_cache \<Rightarrow> 'st \<Rightarrow> string \<Rightarrow> int \<times> 'st" where
  "bump B c st key =
     (case b_incr B st (version_key c key) of Some r \<Rightarrow> r | None \<Rightarrow> (-1, st))"

definition cache_delete :: "'st cache_backend \<Rightarrow> versioned_cache \<Rightarrow> 'st \<Rightarrow> string \<Rightarrow> 'st" where
  "cache_delete B c st key = snd (bump B c st key)"

text \<open>\<open>get_scoped\<close>: the versions of all scopes, joined into the token of the body's key.\<close>

fun scope_parts ::
  "'st cache_backend \<Rightarrow> versioned_cache \<Rightarrow> 'st \<Rightarrow> string list \<Rightarrow> string list \<times> 'st" where
  "scope_parts B c st [] = ([], st)"
| "scope_parts B c st (scope # scopes) =
     (let (v, st1) = current_version B c st scope;
          (parts, st2) = scope_parts B c st1 scopes
      in ((scope @ ''='' @ nat_str v) # parts, st2))"

fun join_comma :: "string list \<Rightarrow> string" where
  "join_comma [] = []"
| "join_comma [p] = p"
| "join_comma (p # ps) = p @ '','' @ join_comma ps"

text \<open>\<open>str.split(",")\<close>.\<close>

fun split_commas :: "string \<Rightarrow> string list" where
  "split_commas [] = [[]]"
| "split_commas (c # cs) =
     (if c = CHR '','' then [] # split_commas cs
      else case split_commas cs of p # ps \<Rightarrow> (c # p) # ps | [] \<Rightarrow> [[c]])"

definition get_scoped ::
  "'st cache_backend \<Rightarrow> versioned_cache \<Rightarrow> 'st \<Rightarrow> string \<Rightarrow> string list
    \<Rightarrow> (json option \<times> string) \<times> 'st" where
  "get_scoped B c st key scopes =
     (let (parts, st1) = scope_parts B c st scopes; token = join_comma parts;
          (body, st2) = b_get B st1 (scoped_key c key token)
      in ((body, token), st2))"

definition set_scoped ::
  "'st cache_backend \<Rightarrow> versioned_cache \<Rightarrow> 'st \<Rightarrow> string \<Rightarrow> json \<Rightarrow> string \<Rightarrow> 'st" where
  "set_scoped B c st key value token = b_set B st (scoped_key c key token) value (vc_ttl c)"

section \<open>Deferred invalidation\<close>

definition defer_bump ::
  "(versioned_cache \<times> string) list \<Rightarrow> versioned_cache \<Rightarrow> string \<Rightarrow> (versioned_cache \<times> string) list"
where
  "defer_bump pending c key =
     (if (c, key) \<in> set pending then pending else pending @ [(c, key)])"

fun flush_deferred_bumps ::
  "'st cache_backend \<Rightarrow> (versioned_cache \<times> string) list \<Rightarrow> 'st \<Rightarrow> nat \<times> 'st" where
  "flush_deferred_bumps B [] st = (0, st)"
| "flush_deferred_bumps B ((c, key) # pending) st =
     (let (n, st') = flush_deferred_bumps B pending (snd (bump B c st key)) in (Suc n, st'))"

section \<open>What the cache relies on in a backend\<close>

text \<open>
  A backend is read at an instant: \<open>B t\<close>. \<open>view t st k\<close> is what \<open>k\<close> holds at \<open>t\<close>. An entry
  lives at least as long as it was asked to; afterwards it is gone or still there (a Redis
  counter does not expire, the in-process one does).
\<close>

locale cache_backend_laws =
  fixes B :: "int \<Rightarrow> 'st cache_backend" and view :: "int \<Rightarrow> 'st \<Rightarrow> string \<Rightarrow> json option"
  assumes get_value: "fst (b_get (B t) st k) = view t st k"
    and get_frame: "t \<le> t' \<Longrightarrow> view t' (snd (b_get (B t) st k)) k' = view t' st k'"
    and set_live: "t \<le> t' \<Longrightarrow> t' \<le> t + seconds ex \<Longrightarrow> view t' (b_set (B t) st k v ex) k = Some v"
    and set_late: "t \<le> t' \<Longrightarrow> view t' (b_set (B t) st k v ex) k \<in> {None, Some v}"
    and set_frame: "t \<le> t' \<Longrightarrow> k' \<noteq> k \<Longrightarrow> view t' (b_set (B t) st k v ex) k' = view t' st k'"
    and incr_value: "\<exists>st'. b_incr (B t) st k = Some (json_int (view t st k) + 1, st')"
    and incr_live: "b_incr (B t) st k = Some (n, st') \<Longrightarrow> t \<le> t'
      \<Longrightarrow> t' \<le> t + seconds VERSION_TTL_SECONDS \<Longrightarrow> view t' st' k = Some (JInt n)"
    and incr_frame: "b_incr (B t) st k = Some (n, st') \<Longrightarrow> t \<le> t' \<Longrightarrow> k' \<noteq> k
      \<Longrightarrow> view t' st' k' = view t' st k'"

definition ttl_view :: "int \<Rightarrow> ttl_store \<Rightarrow> string \<Rightarrow> json option" where
  "ttl_view now st k =
     (case st k of None \<Rightarrow> None | Some (expires, v) \<Rightarrow> if expires < now then None else Some v)"

interpretation ttl: cache_backend_laws ttl_backend ttl_view
  by unfold_locales
    (auto simp: ttl_backend_def ttl_get_def ttl_set_def ttl_incr_def ttl_view_def Let_def
      split: option.splits prod.splits if_splits)

section \<open>Keys do not collide\<close>

lemma digits_prefix_eq:
  assumes "xs @ c # ys = xs' @ c # ys'" "c \<notin> set xs" "c \<notin> set xs'"
  shows "xs = xs' \<and> ys = ys'"
  using assms by (induction xs arbitrary: xs') (auto simp: Cons_eq_append_conv)

lemma nat_str_no_sep: "CHR '':'' \<notin> set (nat_str n)" "CHR '','' \<notin> set (nat_str n)"
  using nat_str_digits [of "CHR '':''" n] nat_str_digits [of "CHR '',''" n] by auto

lemma body_key_inject [simp]: "body_key c k v = body_key c k' v' \<longleftrightarrow> k = k' \<and> v = v'"
  using digits_prefix_eq [of "nat_str v" "CHR '':''" k "nat_str v'" k'] nat_str_no_sep
  by (auto simp: body_key_def)

lemma version_key_inject [simp]: "version_key c k = version_key c k' \<longleftrightarrow> k = k'"
  by (simp add: version_key_def)

lemma version_key_neq_body_key [simp]:
  "version_key c k \<noteq> body_key c k' v" "body_key c k' v \<noteq> version_key c k"
proof -
  obtain d ds where nat_str: "nat_str v = d # ds" by (cases "nat_str v") auto
  with nat_str_digits [of d v] have "d \<noteq> CHR ''e''" by auto
  with nat_str show "version_key c k \<noteq> body_key c k' v" "body_key c k' v \<noteq> version_key c k"
    by (auto simp: version_key_def body_key_def)
qed

lemma version_key_neq_scoped_key [simp]: "version_key c k \<noteq> scoped_key c k' tok"
  by (simp add: version_key_def scoped_key_def)

text \<open>The token of a scoped read names the version of every scope.\<close>

definition scope_texts :: "string list \<Rightarrow> nat list \<Rightarrow> string list" where
  "scope_texts scopes vs = map2 (\<lambda>s v. s @ ''='' @ nat_str v) scopes vs"

lemma join_comma_nonempty: "ps \<noteq> [] \<Longrightarrow> join_comma (p # ps) = p @ '','' @ join_comma ps"
  by (cases ps) simp_all

lemma split_commas_nonempty: "split_commas t \<noteq> []"
  by (cases t) (auto split: list.split)

lemma split_commas_append:
  "split_commas (a @ CHR '','' # b) = split_commas a @ split_commas b"
proof (induction a)
  case (Cons c a)
  then show ?case using split_commas_nonempty [of a] by (auto split: list.split)
qed simp

lemma split_commas_plain: "CHR '','' \<notin> set h \<Longrightarrow> split_commas h = [h]"
  by (induction h) auto

lemma split_join_commas:
  "ps \<noteq> [] \<Longrightarrow> \<forall>p\<in>set ps. CHR '','' \<notin> set p \<Longrightarrow> split_commas (join_comma ps) = ps"
proof (induction ps rule: join_comma.induct)
  case (3 p q ps)
  then show ?case using split_commas_append [of p "join_comma (q # ps)"] by (simp add: split_commas_plain)
qed (simp_all add: split_commas_plain)

lemma join_comma_scopes_inject:
  assumes "length vs = length scopes" "length ws = length scopes"
    and "join_comma (scope_texts scopes vs) = join_comma (scope_texts scopes ws)"
  shows "vs = ws"
  using assms
proof (induction scopes arbitrary: vs ws)
  case Nil
  then show ?case by simp
next
  case (Cons s scopes)
  from Cons.prems obtain v vs' w ws' where [simp]: "vs = v # vs'" "ws = w # ws'"
    and len: "length vs' = length scopes" "length ws' = length scopes"
    by (metis length_Suc_conv)
  show ?case
  proof (cases "scopes = []")
    case True
    with Cons.prems len show ?thesis by (simp add: scope_texts_def)
  next
    case False
    with len have ne: "scope_texts scopes vs' \<noteq> []" "scope_texts scopes ws' \<noteq> []"
      by (cases scopes; cases vs'; cases ws'; simp add: scope_texts_def)+
    have "nat_str v @ CHR '','' # join_comma (scope_texts scopes vs')
        = nat_str w @ CHR '','' # join_comma (scope_texts scopes ws')"
      using Cons.prems(3) ne by (simp add: scope_texts_def join_comma_nonempty)
    then have "nat_str v = nat_str w"
      "join_comma (scope_texts scopes vs') = join_comma (scope_texts scopes ws')"
      using digits_prefix_eq nat_str_no_sep by metis+
    with Cons.IH [OF len] show ?thesis by simp
  qed
qed

section \<open>Concurrent readers and writers of one key\<close>

text \<open>
  The protocol around one cached key, as the entitlement service, the permission service and
  the others use it. A writer commits a new generation of the data and, after the commit, runs
  the deferred invalidation; a reader that misses keeps the version it saw, loads the
  committed data and stores it under that version. Each step is one call to the backend or to
  the database, and the steps of different requests interleave freely. \<open>cw_bumped\<close> is the
  newest generation whose invalidation has run; \<open>cw_deadline\<close> is when the counter may expire.
\<close>

record 'st cache_world =
  cw_clock :: int
  cw_store :: 'st
  cw_committed :: nat
  cw_pending :: "nat list"
  cw_bumped :: nat
  cw_deadline :: "int option"
  cw_readers :: "(nat \<times> nat option) list"

inductive cache_step ::
  "(int \<Rightarrow> 'st cache_backend) \<Rightarrow> versioned_cache \<Rightarrow> string \<Rightarrow> 'st cache_world \<Rightarrow> 'st cache_world \<Rightarrow> bool"
  for B :: "int \<Rightarrow> 'st cache_backend" and c :: versioned_cache and key :: string
where
  tick: "cw_clock w \<le> t \<Longrightarrow> (\<forall>d. cw_deadline w = Some d \<longrightarrow> t \<le> d)
    \<Longrightarrow> cache_step B c key w (w\<lparr>cw_clock := t\<rparr>)"
| commit: "g = Suc (cw_committed w)
    \<Longrightarrow> cache_step B c key w (w\<lparr>cw_committed := g, cw_pending := g # cw_pending w\<rparr>)"
| flush: "g \<in> set (cw_pending w) \<Longrightarrow> bump (B (cw_clock w)) c (cw_store w) key = (n, st')
    \<Longrightarrow> cache_step B c key w
          (w\<lparr>cw_store := st', cw_pending := remove1 g (cw_pending w),
             cw_bumped := max g (cw_bumped w),
             cw_deadline := Some (cw_clock w + seconds VERSION_TTL_SECONDS)\<rparr>)"
| hit: "get_versioned (B (cw_clock w)) c (cw_store w) key = ((Some body, v), st')
    \<Longrightarrow> cache_step B c key w (w\<lparr>cw_store := st'\<rparr>)"
| miss: "get_versioned (B (cw_clock w)) c (cw_store w) key = ((None, v), st')
    \<Longrightarrow> cache_step B c key w (w\<lparr>cw_store := st', cw_readers := (v, None) # cw_readers w\<rparr>)"
| load: "(v, None) \<in> set (cw_readers w)
    \<Longrightarrow> cache_step B c key w
          (w\<lparr>cw_readers := (v, Some (cw_committed w)) # remove1 (v, None) (cw_readers w)\<rparr>)"
| fill: "(v, Some g) \<in> set (cw_readers w)
    \<Longrightarrow> cache_step B c key w
          (w\<lparr>cw_store := cache_set (B (cw_clock w)) c (cw_store w) key (JInt (int g)) (Some v),
             cw_readers := remove1 (v, Some g) (cw_readers w)\<rparr>)"

definition cache_start :: "int \<Rightarrow> 'st \<Rightarrow> 'st cache_world" where
  "cache_start t st = \<lparr>cw_clock = t, cw_store = st, cw_committed = 0, cw_pending = [],
     cw_bumped = 0, cw_deadline = None, cw_readers = []\<rparr>"

context cache_backend_laws
begin

definition live :: "'st cache_world \<Rightarrow> int \<Rightarrow> bool" where
  "live w t \<longleftrightarrow> cw_clock w \<le> t \<and> (\<forall>d. cw_deadline w = Some d \<longrightarrow> t \<le> d)"

text \<open>\<open>n\<close> is the number of invalidations run so far.\<close>

definition fresh_inv :: "versioned_cache \<Rightarrow> string \<Rightarrow> nat \<Rightarrow> 'st cache_world \<Rightarrow> bool" where
  "fresh_inv c key n w \<longleftrightarrow>
     live w (cw_clock w)
     \<and> (\<forall>t. live w t \<longrightarrow> json_int (view t (cw_store w) (version_key c key)) = int n)
     \<and> (\<forall>t v x. cw_clock w \<le> t \<longrightarrow> view t (cw_store w) (body_key c key v) = Some x \<longrightarrow>
          v \<le> n \<and> (\<exists>g. x = JInt (int g) \<and> g \<le> cw_committed w \<and> (v = n \<longrightarrow> cw_bumped w \<le> g)))
     \<and> (\<forall>v x. (v, x) \<in> set (cw_readers w) \<longrightarrow> v \<le> n
          \<and> (\<forall>g. x = Some g \<longrightarrow> g \<le> cw_committed w \<and> (v = n \<longrightarrow> cw_bumped w \<le> g)))
     \<and> cw_bumped w \<le> cw_committed w \<and> (\<forall>g\<in>set (cw_pending w). g \<le> cw_committed w)
     \<and> (cw_committed w \<le> cw_bumped w \<or> cw_committed w \<in> set (cw_pending w))"

lemma current_version_value: "fst (current_version (B t) c st key) = nat (json_int (view t st (version_key c key)))"
  using get_value [of t st "version_key c key"]
  by (auto simp: current_version_def split: prod.split)

lemma current_version_frame:
  "t \<le> t' \<Longrightarrow> view t' (snd (current_version (B t) c st key)) k = view t' st k"
  using get_frame [of t t' st "version_key c key" k]
  by (auto simp: current_version_def split: prod.split)

lemma get_versioned_value:
  "fst (get_versioned (B t) c st key) =
     (view t st (body_key c key (nat (json_int (view t st (version_key c key))))),
      nat (json_int (view t st (version_key c key))))"
  using current_version_value [of t c st key] current_version_frame [of t t c st key]
    get_value [of t "snd (current_version (B t) c st key)"]
  by (auto simp: get_versioned_def split: prod.splits) (metis fst_conv)

lemma get_versioned_frame:
  "t \<le> t' \<Longrightarrow> view t' (snd (get_versioned (B t) c st key)) k = view t' st k"
  using current_version_frame [of t t' c st key k]
    get_frame [of t t' "snd (current_version (B t) c st key)"]
  by (auto simp: get_versioned_def split: prod.splits) (metis snd_conv)

lemma bump_value:
  "fst (bump (B t) c st key) = json_int (view t st (version_key c key)) + 1"
  using incr_value [of t st "version_key c key"] by (auto simp: bump_def)

lemma bump_live:
  "t \<le> t' \<Longrightarrow> t' \<le> t + seconds VERSION_TTL_SECONDS \<Longrightarrow>
   view t' (snd (bump (B t) c st key)) (version_key c key)
     = Some (JInt (json_int (view t st (version_key c key)) + 1))"
  using incr_value [of t st "version_key c key"] incr_live by (fastforce simp: bump_def)

lemma bump_frame:
  "t \<le> t' \<Longrightarrow> k \<noteq> version_key c key \<Longrightarrow> view t' (snd (bump (B t) c st key)) k = view t' st k"
  using incr_value [of t st "version_key c key"] incr_frame by (fastforce simp: bump_def)

lemma live_mono: "live w t \<Longrightarrow> cw_clock w \<le> t' \<Longrightarrow> t' \<le> t \<Longrightarrow> live w t'"
  by (auto simp: live_def)

lemma fresh_invD:
  assumes "fresh_inv c key n w"
  shows "live w (cw_clock w)"
    and "live w t \<Longrightarrow> json_int (view t (cw_store w) (version_key c key)) = int n"
    and "cw_clock w \<le> t \<Longrightarrow> view t (cw_store w) (body_key c key v) = Some x \<Longrightarrow>
          v \<le> n \<and> (\<exists>g. x = JInt (int g) \<and> g \<le> cw_committed w \<and> (v = n \<longrightarrow> cw_bumped w \<le> g))"
    and "(v, y) \<in> set (cw_readers w) \<Longrightarrow> v \<le> n
          \<and> (\<forall>g. y = Some g \<longrightarrow> g \<le> cw_committed w \<and> (v = n \<longrightarrow> cw_bumped w \<le> g))"
    and "cw_bumped w \<le> cw_committed w"
    and "g \<in> set (cw_pending w) \<Longrightarrow> g \<le> cw_committed w"
    and "cw_committed w \<le> cw_bumped w \<or> cw_committed w \<in> set (cw_pending w)"
  using assms unfolding fresh_inv_def by blast+

lemmas fresh_invI = fresh_inv_def [THEN iffD2, OF conjI, OF _ conjI, OF _ _ conjI, OF _ _ _ conjI,
  OF _ _ _ _ conjI, OF _ _ _ _ _ conjI]

lemma fresh_inv_tick:
  assumes inv: "fresh_inv c key n w" and t: "cw_clock w \<le> t" "\<forall>d. cw_deadline w = Some d \<longrightarrow> t \<le> d"
  shows "fresh_inv c key n (w\<lparr>cw_clock := t\<rparr>)"
proof -
  note facts = fresh_invD [OF inv]
  have "live w t'" if "live (w\<lparr>cw_clock := t\<rparr>) t'" for t'
    using that t(1) by (auto simp: live_def)
  then have version: "\<forall>t'. live (w\<lparr>cw_clock := t\<rparr>) t' \<longrightarrow>
      json_int (view t' (cw_store w) (version_key c key)) = int n"
    using facts(2) by blast
  have reads: "\<forall>t' v x. t \<le> t' \<longrightarrow> view t' (cw_store w) (body_key c key v) = Some x \<longrightarrow>
      v \<le> n \<and> (\<exists>g. x = JInt (int g) \<and> g \<le> cw_committed w \<and> (v = n \<longrightarrow> cw_bumped w \<le> g))"
    using facts(3) t(1) by (meson order_trans)
  show ?thesis
    by (rule fresh_invI) (use version reads facts(4-7) t(2) in \<open>auto simp: live_def\<close>)
qed

lemma fresh_inv_commit:
  "fresh_inv c key n w \<Longrightarrow>
   fresh_inv c key n (w\<lparr>cw_committed := Suc (cw_committed w),
                        cw_pending := Suc (cw_committed w) # cw_pending w\<rparr>)"
  unfolding fresh_inv_def live_def by (auto simp: le_SucI) (meson le_SucI)+

lemma fresh_inv_same_view:
  assumes "fresh_inv c key n w"
    and "\<And>t k. cw_clock w \<le> t \<Longrightarrow> view t st' k = view t (cw_store w) k"
  shows "fresh_inv c key n (w\<lparr>cw_store := st'\<rparr>)"
  using assms(1) assms(2) unfolding fresh_inv_def live_def by simp

lemma fresh_inv_reader:
  assumes "fresh_inv c key n w" and "set rs \<subseteq> insert (v, x) (set (cw_readers w))"
    and "v \<le> n" and "\<And>g. x = Some g \<Longrightarrow> g \<le> cw_committed w \<and> (v = n \<longrightarrow> cw_bumped w \<le> g)"
  shows "fresh_inv c key n (w\<lparr>cw_readers := rs\<rparr>)"
  using assms unfolding fresh_inv_def live_def by (auto dest!: subsetD)

lemma fresh_inv_fill:
  assumes inv: "fresh_inv c key n w" and reader: "(v, Some g) \<in> set (cw_readers w)"
  shows "fresh_inv c key n
    (w\<lparr>cw_store := cache_set (B (cw_clock w)) c (cw_store w) key (JInt (int g)) (Some v)\<rparr>)"
proof -
  let ?st = "b_set (B (cw_clock w)) (cw_store w) (body_key c key v) (JInt (int g)) (vc_ttl c)"
  have frame: "view t ?st k = view t (cw_store w) k" if "cw_clock w \<le> t" "k \<noteq> body_key c key v" for t k
    using that by (simp add: set_frame)
  have body: "view t ?st (body_key c key v) \<in> {None, Some (JInt (int g))}" if "cw_clock w \<le> t" for t
    using that by (rule set_late)
  have reads: "v' \<le> n \<and> (\<exists>h. x = JInt (int h) \<and> h \<le> cw_committed w \<and> (v' = n \<longrightarrow> cw_bumped w \<le> h))"
    if "cw_clock w \<le> t" "view t ?st (body_key c key v') = Some x" for t v' x
  proof (cases "v' = v")
    case True
    with that body [of t] have "x = JInt (int g)" by auto
    with True fresh_invD(4) [OF inv reader] show ?thesis by auto
  next
    case False
    with that frame [of t "body_key c key v'"] have "view t (cw_store w) (body_key c key v') = Some x"
      by simp
    with that(1) show ?thesis by (rule fresh_invD(3) [OF inv])
  qed
  have version: "json_int (view t ?st (version_key c key)) = int n" if "live w t" for t
    using frame [of t "version_key c key"] fresh_invD(2) [OF inv that] that by (simp add: live_def)
  show ?thesis
    using inv reads version unfolding fresh_inv_def cache_set_def live_def by simp
qed

lemma fresh_inv_flush:
  assumes inv: "fresh_inv c key n w" and g: "g \<in> set (cw_pending w)"
  shows "fresh_inv c key (Suc n)
    (w\<lparr>cw_store := snd (bump (B (cw_clock w)) c (cw_store w) key),
       cw_pending := remove1 g (cw_pending w), cw_bumped := max g (cw_bumped w),
       cw_deadline := Some (cw_clock w + seconds VERSION_TTL_SECONDS)\<rparr>)"
    (is "fresh_inv c key (Suc n) ?w")
proof -
  note facts = fresh_invD [OF inv]
  have deadline: "cw_clock w \<le> cw_clock w + seconds VERSION_TTL_SECONDS"
    by (simp add: seconds_def VERSION_TTL_SECONDS_def)
  have version: "json_int (view t (cw_store ?w) (version_key c key)) = int (Suc n)" if "live ?w t" for t
    using that bump_live [of "cw_clock w" t c "cw_store w" key] facts(2) [OF facts(1)]
    by (simp add: live_def json_int_def)
  have reads: "v \<le> n \<and> (\<exists>h. x = JInt (int h) \<and> h \<le> cw_committed w)"
    if "cw_clock w \<le> t" "view t (cw_store ?w) (body_key c key v) = Some x" for t v x
    using that facts(3) [OF that(1), of v x] bump_frame [OF that(1), of "body_key c key v" c key]
    by auto
  have pending: "h \<in> set (remove1 g (cw_pending w)) \<Longrightarrow> h \<le> cw_committed w" for h
    using facts(6) set_remove1_subset by fastforce
  have all: "cw_committed w \<le> max g (cw_bumped w)
      \<or> cw_committed w \<in> set (remove1 g (cw_pending w))"
    using facts(7) by (cases "cw_committed w = g") auto
  show ?thesis
    unfolding fresh_inv_def using version reads facts(4,5) facts(6) [OF g] pending all deadline
    by (force simp: live_def)
qed

lemma fresh_inv_step:
  assumes "cache_step B c key w w'" and "fresh_inv c key n w"
  shows "\<exists>n'. fresh_inv c key n' w'"
  using assms
proof (induction rule: cache_step.induct)
  case (tick w t)
  then show ?case using fresh_inv_tick by blast
next
  case (commit g w)
  then show ?case using fresh_inv_commit by blast
next
  case (flush g w m st')
  then show ?case using fresh_inv_flush [OF flush.prems flush.hyps(1)] by auto
next
  case (hit w body v st')
  then show ?case
    using fresh_inv_same_view [OF hit.prems, of st'] get_versioned_frame [of "cw_clock w" _ c "cw_store w" key]
    by (metis snd_conv)
next
  case (miss w v st')
  have inv: "fresh_inv c key n (w\<lparr>cw_store := st'\<rparr>)"
    using fresh_inv_same_view [OF miss.prems, of st'] miss.hyps
      get_versioned_frame [of "cw_clock w" _ c "cw_store w" key] by (metis snd_conv)
  have "v = n"
    using miss.hyps get_versioned_value [of "cw_clock w" c "cw_store w" key]
      fresh_invD(2) [OF miss.prems fresh_invD(1) [OF miss.prems]] by simp
  then show ?case
    using fresh_inv_reader [OF inv, of "(v, None) # cw_readers w" v None] by auto
next
  case (load v w)
  have "set (remove1 (v, None) (cw_readers w)) \<subseteq> set (cw_readers w)" by (rule set_remove1_subset)
  then have "set ((v, Some (cw_committed w)) # remove1 (v, None) (cw_readers w))
      \<subseteq> insert (v, Some (cw_committed w)) (set (cw_readers w))" by auto
  moreover have "v \<le> n" using fresh_invD(4) [OF load.prems load.hyps] by simp
  ultimately have "fresh_inv c key n
      (w\<lparr>cw_readers := (v, Some (cw_committed w)) # remove1 (v, None) (cw_readers w)\<rparr>)"
    by (rule fresh_inv_reader [OF load.prems]) (use fresh_invD(5) [OF load.prems] in auto)
  then show ?case by blast
next
  case (fill v g w)
  let ?w = "w\<lparr>cw_store := cache_set (B (cw_clock w)) c (cw_store w) key (JInt (int g)) (Some v)\<rparr>"
  have inv: "fresh_inv c key n ?w" by (rule fresh_inv_fill [OF fill.prems fill.hyps])
  have "set (remove1 (v, Some g) (cw_readers w)) \<subseteq> insert (v, Some g) (set (cw_readers ?w))"
    using set_remove1_subset by fastforce
  then show ?case
    using fresh_inv_reader [OF inv, of "remove1 (v, Some g) (cw_readers w)" v "Some g"]
      fresh_invD(4) [OF fill.prems fill.hyps] by auto
qed

lemma fresh_inv_start:
  assumes "\<And>t k. view t st k = None"
  shows "fresh_inv c key 0 (cache_start t0 st)"
  using assms by (simp add: fresh_inv_def cache_start_def live_def json_int_def)

lemma hits_are_fresh:
  assumes "\<And>t k. view t st k = None"
    and "(cache_step B c key)\<^sup>*\<^sup>* (cache_start t0 st) w"
    and "fst (get_versioned (B (cw_clock w)) c (cw_store w) key) = (Some body, v)"
  shows "\<exists>g. body = JInt (int g) \<and> cw_bumped w \<le> g \<and> g \<le> cw_committed w
    \<and> (cw_pending w = [] \<longrightarrow> g = cw_committed w)"
proof -
  have "\<exists>n. fresh_inv c key n w"
    using assms(2)
  proof (induction rule: rtranclp_induct)
    case base
    show ?case using fresh_inv_start [OF assms(1)] by blast
  next
    case (step y z)
    then show ?case using fresh_inv_step by blast
  qed
  then obtain n where inv: "fresh_inv c key n w" ..
  note facts = fresh_invD [OF inv]
  have "view (cw_clock w) (cw_store w) (body_key c key v) = Some body" "v = n"
    using assms(3) get_versioned_value [of "cw_clock w" c "cw_store w" key] facts(2) [OF facts(1)]
    by auto
  with facts(3) obtain g where "body = JInt (int g)" "g \<le> cw_committed w" "cw_bumped w \<le> g"
    by blast
  with facts(7) show ?thesis by force
qed

text \<open>After an invalidation nothing is found, unless a text was stored under a later version.\<close>

lemma bumped_read_misses:
  assumes "now \<le> t" "t \<le> now + seconds VERSION_TTL_SECONDS"
    and "0 \<le> json_int (view now st (version_key c k))"
    and "\<And>v. nat (json_int (view now st (version_key c k))) < v \<Longrightarrow> view t st (body_key c k v) = None"
  shows "fst (fst (get_versioned (B t) c (snd (bump (B now) c st k)) k)) = None"
proof -
  let ?v = "json_int (view now st (version_key c k))"
  have "view t (snd (bump (B now) c st k)) (version_key c k) = Some (JInt (?v + 1))"
    by (rule bump_live [OF assms(1,2)])
  moreover have "view t (snd (bump (B now) c st k)) (body_key c k (nat (?v + 1))) = None"
    using assms(3) assms(4) [of "nat (?v + 1)"] bump_frame [OF assms(1), of "body_key c k (nat (?v + 1))" c k st] by simp
  ultimately show ?thesis
    using get_versioned_value [of t c "snd (bump (B now) c st k)" k] by (simp add: json_int_def)
qed

text \<open>A scoped read's token changes with the version of any of its scopes.\<close>

definition scope_versions :: "int \<Rightarrow> versioned_cache \<Rightarrow> 'st \<Rightarrow> string list \<Rightarrow> nat list" where
  "scope_versions t c st scopes = map (\<lambda>s. nat (json_int (view t st (version_key c s)))) scopes"

lemma scope_parts_value:
  "fst (scope_parts (B t) c st scopes) = scope_texts scopes (scope_versions t c st scopes)
   \<and> (\<forall>t'\<ge>t. \<forall>k. view t' (snd (scope_parts (B t) c st scopes)) k = view t' st k)"
proof (induction scopes arbitrary: st)
  case Nil
  then show ?case by (simp add: scope_texts_def scope_versions_def)
next
  case (Cons s scopes)
  let ?st = "snd (current_version (B t) c st s)"
  have same: "scope_versions t c ?st scopes = scope_versions t c st scopes"
    by (simp add: scope_versions_def current_version_frame)
  show ?case
    using Cons.IH [of ?st] same current_version_value [of t c st s]
    by (auto simp: scope_texts_def scope_versions_def Let_def current_version_frame
        split: prod.split)
qed

lemma scoped_token:
  "snd (fst (get_scoped (B t) c st key scopes)) = join_comma (scope_texts scopes (scope_versions t c st scopes))"
  using scope_parts_value [of t c st scopes]
  by (auto simp: get_scoped_def Let_def split: prod.splits)

lemma scoped_token_changes:
  assumes "scope \<in> set scopes" and "0 \<le> json_int (view t st (version_key c scope))"
    and "t \<le> t'" and "t' \<le> t + seconds VERSION_TTL_SECONDS"
  shows "snd (fst (get_scoped (B t') c (snd (bump (B t) c st scope)) key scopes))
    \<noteq> snd (fst (get_scoped (B t) c st key scopes))"
proof
  let ?st = "snd (bump (B t) c st scope)"
  assume "snd (fst (get_scoped (B t') c ?st key scopes)) = snd (fst (get_scoped (B t) c st key scopes))"
  then have "scope_versions t' c ?st scopes = scope_versions t c st scopes"
    by (intro join_comma_scopes_inject) (simp_all add: scoped_token scope_versions_def)
  with assms(1) have "nat (json_int (view t' ?st (version_key c scope)))
      = nat (json_int (view t st (version_key c scope)))"
    by (auto simp: scope_versions_def)
  with bump_live [OF assms(3,4)] assms(2) show False by (simp add: json_int_def)
qed

end

text \<open>No text is stored under a version of the key that the counter has not reached yet.\<close>

definition clean_ahead_of :: "datetime \<Rightarrow> versioned_cache \<Rightarrow> string \<Rightarrow> ttl_store \<Rightarrow> bool" where
  "clean_ahead_of now c k st \<longleftrightarrow>
     0 \<le> json_int (ttl_view now st (version_key c k))
     \<and> (\<forall>v t. nat (json_int (ttl_view now st (version_key c k))) < v
          \<longrightarrow> now \<le> t \<longrightarrow> ttl_view t st (body_key c k v) = None)"

lemma ttl_miss_after_bump:
  assumes "clean_ahead_of now c k st" and "now \<le> t" "t \<le> now + seconds VERSION_TTL_SECONDS"
  shows "fst (fst (get_versioned (ttl_backend t) c (snd (bump (ttl_backend now) c st k)) k)) = None"
  using assms(1) by (intro ttl.bumped_read_misses [OF assms(2,3)]) (simp_all add: clean_ahead_of_def assms(2))

section \<open>Properties of the in-process cache\<close>


text \<open>
  A run in which a reader loads generation 0 before a commit and stores it after the
  invalidation: the stale body stays under the old version, and the next reader misses, loads
  generation 1 and the hit after that returns it.
\<close>

definition demo_cache :: versioned_cache where
  "demo_cache = \<lparr>vc_object = ''demo'', vc_namespace = ''n'', vc_ttl = 60\<rparr>"

definition demo_world :: "ttl_store cache_world" where
  "demo_world = \<lparr>cw_clock = 0,
     cw_store = [''n:ver:k'' \<mapsto> (3600000000, JInt 1), ''n:v0:k'' \<mapsto> (60000000, JInt 0),
                 ''n:v1:k'' \<mapsto> (60000000, JInt 1)],
     cw_committed = 1, cw_pending = [], cw_bumped = 1, cw_deadline = Some 3600000000,
     cw_readers = []\<rparr>"

lemmas cache_eval = get_versioned_def current_version_def cache_set_def bump_def ttl_backend_def
  ttl_get_def ttl_set_def ttl_incr_def version_key_def body_key_def scoped_key_def json_int_def
  seconds_def VERSION_TTL_SECONDS_def nat_str.simps digit_char_def Let_def

lemma demo_reachable:
  "(cache_step ttl_backend demo_cache ''k'')\<^sup>*\<^sup>* (cache_start 0 Map.empty) demo_world"
proof -
  let ?S = "cache_step ttl_backend demo_cache ''k''"
  let ?w0 = "cache_start 0 Map.empty :: ttl_store cache_world"
  let ?w1 = "?w0\<lparr>cw_store := Map.empty, cw_readers := [(0, None)]\<rparr>"
  let ?w2 = "?w1\<lparr>cw_readers := [(0, Some 0)]\<rparr>"
  let ?w3 = "?w2\<lparr>cw_committed := 1, cw_pending := [1]\<rparr>"
  let ?w4 = "?w3\<lparr>cw_store := [''n:ver:k'' \<mapsto> (3600000000, JInt 1)], cw_pending := [],
                 cw_bumped := 1, cw_deadline := Some 3600000000\<rparr>"
  let ?w5 = "?w4\<lparr>cw_store := [''n:ver:k'' \<mapsto> (3600000000, JInt 1), ''n:v0:k'' \<mapsto> (60000000, JInt 0)],
                 cw_readers := []\<rparr>"
  let ?w6 = "?w5\<lparr>cw_readers := [(1, None)]\<rparr>"
  let ?w7 = "?w6\<lparr>cw_readers := [(1, Some 1)]\<rparr>"
  have s1: "?S\<^sup>*\<^sup>* ?w0 ?w1"
    by (rule r_into_rtranclp) (use cache_step.miss [where w = ?w0 and B = ttl_backend and c = demo_cache and key = "''k''"
        and v = 0 and st' = Map.empty] in \<open>simp add: cache_start_def cache_eval demo_cache_def\<close>)
  have s2: "?S\<^sup>*\<^sup>* ?w1 ?w2"
    by (rule r_into_rtranclp) (use cache_step.load [where w = ?w1 and v = 0] in \<open>simp add: cache_start_def\<close>)
  have s3: "?S\<^sup>*\<^sup>* ?w2 ?w3"
    by (rule r_into_rtranclp) (use cache_step.commit [where w = ?w2 and g = 1] in \<open>simp add: cache_start_def\<close>)
  have s4: "?S\<^sup>*\<^sup>* ?w3 ?w4"
    by (rule r_into_rtranclp) (use cache_step.flush [where w = ?w3 and B = ttl_backend and c = demo_cache and key = "''k''"
        and g = 1 and n = 1 and st' = "[''n:ver:k'' \<mapsto> (3600000000, JInt 1)]"] in \<open>simp add: cache_start_def cache_eval demo_cache_def\<close>)
  have s5: "?S\<^sup>*\<^sup>* ?w4 ?w5"
    by (rule r_into_rtranclp) (use cache_step.fill [where w = ?w4 and B = ttl_backend and c = demo_cache and key = "''k''"
        and v = 0 and g = 0] in \<open>simp add: cache_start_def cache_eval demo_cache_def fun_upd_twist\<close>)
  have s6: "?S\<^sup>*\<^sup>* ?w5 ?w6"
    by (rule r_into_rtranclp) (use cache_step.miss [where w = ?w5 and B = ttl_backend and c = demo_cache and key = "''k''"
        and v = 1 and st' = "cw_store ?w5"] in \<open>simp add: cache_start_def cache_eval demo_cache_def\<close>)
  have s7: "?S\<^sup>*\<^sup>* ?w6 ?w7"
    by (rule r_into_rtranclp) (use cache_step.load [where w = ?w6 and v = 1] in \<open>simp add: cache_start_def\<close>)
  have s8: "?S\<^sup>*\<^sup>* ?w7 demo_world"
    by (rule r_into_rtranclp) (use cache_step.fill [where w = ?w7 and B = ttl_backend and c = demo_cache and key = "''k''"
        and v = 1 and g = 1] in \<open>simp add: cache_start_def cache_eval demo_cache_def demo_world_def\<close>)
  note trans = rtranclp_trans [of ?S]
  show ?thesis
    by (rule trans [OF s1 trans [OF s2 trans [OF s3 trans [OF s4 trans [OF s5 trans [OF s6
      trans [OF s7 s8]]]]]]])
qed


text \<open>
  Invalidating any one of the scopes of a scoped entry changes the token of the next
  scoped read, so a body stored under the old token is no longer found, while the other
  scopes' counters stay as they are.
\<close>

theorem scoped_read_invalidated_by_any_scope:
  assumes "scope \<in> set scopes" and "0 \<le> json_int (ttl_view t st (version_key c scope))"
    and "t \<le> t'" and "t' \<le> t + seconds VERSION_TTL_SECONDS"
  shows "snd (fst (get_scoped (ttl_backend t') c (snd (bump (ttl_backend t) c st scope)) key scopes))
      \<noteq> snd (fst (get_scoped (ttl_backend t) c st key scopes))
    \<and> (\<forall>s. s \<noteq> scope \<longrightarrow> ttl_view t' (snd (bump (ttl_backend t) c st scope)) (version_key c s)
      = ttl_view t' st (version_key c s))"
  using ttl.scoped_token_changes [OF assms] ttl.bump_frame [OF assms(3)] by simp

theorem scoped_read_invalidated_by_any_scope_witness:
  "snd (fst (get_scoped (ttl_backend 5) demo_cache (snd (bump (ttl_backend 3) demo_cache Map.empty ''b''))
       ''k'' [''a'', ''b''])) \<noteq> snd (fst (get_scoped (ttl_backend 3) demo_cache Map.empty ''k'' [''a'', ''b'']))"
  by (rule scoped_read_invalidated_by_any_scope [THEN conjunct1])
    (simp_all add: ttl_view_def json_int_def seconds_def VERSION_TTL_SECONDS_def)

text \<open>
  The in-process counter expires an hour after its last increment, and then restarts: a
  body that was stored under version 1 within the minute before is served again after the
  next invalidation, although that invalidation ran after the body was stored. Here the
  counter is set at time 0, the body is stored 3590 s later, the counter expires at 3600 s,
  and the invalidation at 3601 s does not hide the old body.
\<close>

theorem expired_counter_serves_stale_body:
  "(let st1 = snd (bump (ttl_backend 0) demo_cache Map.empty ''k'');
        st2 = cache_set (ttl_backend (seconds 3590)) demo_cache st1 ''k'' (JStr ''old'') None;
        st3 = snd (bump (ttl_backend (seconds 3601)) demo_cache st2 ''k'')
    in fst (get_versioned (ttl_backend (seconds 3602)) demo_cache st3 ''k'') = (Some (JStr ''old''), 1))"
  by (simp add: cache_eval demo_cache_def)

end
