(* ===== verification/Core.thy ===== *)
theory Core
  imports Errors Cache
begin

text \<open>
  The parts every service writes through: the event vocabulary (\<open>core/events.py\<close>), the
  request context (\<open>core/context.py\<close>), the transactional outbox (\<open>core/outbox.py\<close>), the audit
  trail (\<open>audit/models.py\<close>, \<open>audit/service.py\<close>) and the request's unit of work
  (\<open>get_session\<close> of \<open>core/db.py\<close>). The record \<open>core_db\<close> is the root of the state: each
  component extends it with its own tables.
\<close>

section \<open>Events\<close>

datatype (plugins only: code size) event_type =
    USER_REGISTERED | USER_LOGIN_SUCCEEDED | USER_LOGIN_FAILED | USER_TOKEN_REFRESHED
  | USER_TOKEN_REUSE_DETECTED | USER_LOGGED_OUT | USER_PASSWORD_RESET_REQUESTED
  | USER_PASSWORD_RESET_COMPLETED | ORG_CREATED | ORG_UPDATED | ORG_SUSPENDED
  | ORG_UNSUSPENDED | MEMBER_INVITED | MEMBER_JOINED | MEMBER_UPDATED | MEMBER_REMOVED
  | ROLE_CREATED | ROLE_UPDATED | ROLE_DELETED | MEMBER_ROLE_ASSIGNED | MEMBER_ROLE_REVOKED
  | SUBSCRIPTION_TRIAL_STARTED | SUBSCRIPTION_ACTIVATED | SUBSCRIPTION_UPDATED
  | SUBSCRIPTION_PLAN_CHANGED | SUBSCRIPTION_CANCELED | SUBSCRIPTION_RESUMED
  | SUBSCRIPTION_PAST_DUE | SUBSCRIPTION_EXPIRED | ENTITLEMENT_GRANTED | ENTITLEMENT_REVOKED
  | ENTITLEMENT_EXPIRED | INVOICE_CREATED | INVOICE_PAID | INVOICE_FAILED
  | USAGE_SOFT_LIMIT_REACHED | USAGE_HARD_LIMIT_REACHED | FILE_UPLOADED | FILE_DELETED
  | API_KEY_CREATED | API_KEY_REVOKED | API_KEY_AUTHENTICATED | WEBHOOK_ENDPOINT_CREATED
  | WEBHOOK_ENDPOINT_DELETED | WEBHOOK_DELIVERED | WEBHOOK_DELIVERY_FAILED
  | WEBHOOK_DELIVERY_EXHAUSTED | AGENT_REGISTERED | AGENT_UPDATED | AGENT_DISABLED
  | MEMBER_INVITE_EMAIL | USER_PASSWORD_RESET_LINK | INVOICE_EMAIL | AUTHZ_TUPLES_CHANGED
  | EVENT string  \<comment> \<open>an event named by a string literal where it is written\<close>

primrec event_name :: "event_type \<Rightarrow> string" where
  "event_name USER_REGISTERED = ''user.registered''"
| "event_name USER_LOGIN_SUCCEEDED = ''user.login_succeeded''"
| "event_name USER_LOGIN_FAILED = ''user.login_failed''"
| "event_name USER_TOKEN_REFRESHED = ''user.token_refreshed''"
| "event_name USER_TOKEN_REUSE_DETECTED = ''user.token_reuse_detected''"
| "event_name USER_LOGGED_OUT = ''user.logged_out''"
| "event_name USER_PASSWORD_RESET_REQUESTED = ''user.password_reset_requested''"
| "event_name USER_PASSWORD_RESET_COMPLETED = ''user.password_reset_completed''"
| "event_name ORG_CREATED = ''org.created''"
| "event_name ORG_UPDATED = ''org.updated''"
| "event_name ORG_SUSPENDED = ''org.suspended''"
| "event_name ORG_UNSUSPENDED = ''org.unsuspended''"
| "event_name MEMBER_INVITED = ''member.invited''"
| "event_name MEMBER_JOINED = ''member.joined''"
| "event_name MEMBER_UPDATED = ''member.updated''"
| "event_name MEMBER_REMOVED = ''member.removed''"
| "event_name ROLE_CREATED = ''role.created''"
| "event_name ROLE_UPDATED = ''role.updated''"
| "event_name ROLE_DELETED = ''role.deleted''"
| "event_name MEMBER_ROLE_ASSIGNED = ''member.role_assigned''"
| "event_name MEMBER_ROLE_REVOKED = ''member.role_revoked''"
| "event_name SUBSCRIPTION_TRIAL_STARTED = ''subscription.trial_started''"
| "event_name SUBSCRIPTION_ACTIVATED = ''subscription.activated''"
| "event_name SUBSCRIPTION_UPDATED = ''subscription.updated''"
| "event_name SUBSCRIPTION_PLAN_CHANGED = ''subscription.plan_changed''"
| "event_name SUBSCRIPTION_CANCELED = ''subscription.canceled''"
| "event_name SUBSCRIPTION_RESUMED = ''subscription.resumed''"
| "event_name SUBSCRIPTION_PAST_DUE = ''subscription.past_due''"
| "event_name SUBSCRIPTION_EXPIRED = ''subscription.expired''"
| "event_name ENTITLEMENT_GRANTED = ''entitlement.granted''"
| "event_name ENTITLEMENT_REVOKED = ''entitlement.revoked''"
| "event_name ENTITLEMENT_EXPIRED = ''entitlement.expired''"
| "event_name INVOICE_CREATED = ''invoice.created''"
| "event_name INVOICE_PAID = ''invoice.paid''"
| "event_name INVOICE_FAILED = ''invoice.failed''"
| "event_name USAGE_SOFT_LIMIT_REACHED = ''usage.soft_limit_reached''"
| "event_name USAGE_HARD_LIMIT_REACHED = ''usage.hard_limit_reached''"
| "event_name FILE_UPLOADED = ''file.uploaded''"
| "event_name FILE_DELETED = ''file.deleted''"
| "event_name API_KEY_CREATED = ''api_key.created''"
| "event_name API_KEY_REVOKED = ''api_key.revoked''"
| "event_name API_KEY_AUTHENTICATED = ''api_key.authenticated''"
| "event_name WEBHOOK_ENDPOINT_CREATED = ''webhook.endpoint_created''"
| "event_name WEBHOOK_ENDPOINT_DELETED = ''webhook.endpoint_deleted''"
| "event_name WEBHOOK_DELIVERED = ''webhook.delivered''"
| "event_name WEBHOOK_DELIVERY_FAILED = ''webhook.delivery_failed''"
| "event_name WEBHOOK_DELIVERY_EXHAUSTED = ''webhook.delivery_exhausted''"
| "event_name AGENT_REGISTERED = ''agent.registered''"
| "event_name AGENT_UPDATED = ''agent.updated''"
| "event_name AGENT_DISABLED = ''agent.disabled''"
| "event_name MEMBER_INVITE_EMAIL = ''member.invite_email''"
| "event_name USER_PASSWORD_RESET_LINK = ''user.password_reset_link''"
| "event_name INVOICE_EMAIL = ''invoice.email''"
| "event_name AUTHZ_TUPLES_CHANGED = ''authz.tuples_changed''"
| "event_name (EVENT s) = s"

definition INTERNAL_EVENTS :: "event_type list" where
  "INTERNAL_EVENTS =
     [MEMBER_INVITE_EMAIL, USER_PASSWORD_RESET_LINK, INVOICE_EMAIL, AUTHZ_TUPLES_CHANGED]"

datatype audience = AUDIENCE_PUBLIC | AUDIENCE_INTERNAL

definition audience_for :: "event_type \<Rightarrow> audience" where
  "audience_for e = (if event_name e \<in> event_name ` set INTERNAL_EVENTS then AUDIENCE_INTERNAL else AUDIENCE_PUBLIC)"

section \<open>Request context\<close>

record tenant_context =
  tc_organization_id :: uuid
  tc_slug :: string
  tc_is_platform :: bool

record user_context =
  uc_user_id :: uuid
  uc_email :: string
  uc_is_platform_admin :: bool
  uc_permission_keys :: "string set"
  uc_api_key_id :: "uuid option"
  uc_api_key_scopes :: "string set option"
  uc_api_key_creator_id :: "uuid option"

section \<open>Rows and the state\<close>

record outbox_event =
  oe_id :: uuid
  oe_aggregate_type :: string
  oe_aggregate_id :: uuid
  oe_organization_id :: "uuid option"
  oe_event_type :: event_type
  oe_payload :: json_object
  oe_created_at :: datetime
  oe_published_at :: "datetime option"
  oe_audience :: audience
  oe_dead_at :: "datetime option"
  oe_attempts :: nat
  oe_next_attempt_at :: datetime
  oe_last_error :: "string option"

record audit_log =
  al_id :: uuid
  al_organization_id :: "uuid option"
  al_actor_user_id :: "uuid option"
  al_actor_type :: string
  al_event_type :: event_type
  al_target_type :: "string option"
  al_target_id :: "uuid option"
  al_diff :: "json_object option"
  al_ip :: "string option"
  al_user_agent :: "string option"
  al_request_id :: "string option"
  al_created_at :: datetime

text \<open>
  \<open>tx_now\<close> is PostgreSQL's \<open>now()\<close>, the time the transaction began, which the server defaults
  read; \<open>next_uuid\<close> is the supply of fresh identifiers; \<open>deferred_bumps\<close> is
  \<open>session.info\<close>'s list of invalidations to run after the commit.
\<close>

record core_db =
  next_uuid :: uuid
  tx_now :: datetime
  ctx_tenant :: "tenant_context option"
  ctx_user :: "user_context option"
  ctx_request_id :: "string option"
  outbox_events :: "outbox_event list"
  audit_logs :: "audit_log list"
  cache_store :: ttl_store
  deferred_bumps :: "(versioned_cache \<times> string) list"

definition current_tenant :: "'a core_db_scheme \<Rightarrow> tenant_context option" where
  "current_tenant s = ctx_tenant s"

definition set_tenant ::
  "tenant_context \<Rightarrow> 'a core_db_scheme \<Rightarrow> tenant_context option \<times> 'a core_db_scheme" where
  "set_tenant ctx s = (ctx_tenant s, s\<lparr>ctx_tenant := Some ctx\<rparr>)"

definition reset_tenant ::
  "tenant_context option \<Rightarrow> 'a core_db_scheme \<Rightarrow> 'a core_db_scheme" where
  "reset_tenant token s = s\<lparr>ctx_tenant := token\<rparr>"

definition require_tenant :: "'a core_db_scheme \<Rightarrow> error + tenant_context" where
  "require_tenant s =
     (case ctx_tenant s of None \<Rightarrow> raise_error TenantContextMissingError | Some ctx \<Rightarrow> Inr ctx)"

definition current_user :: "'a core_db_scheme \<Rightarrow> user_context option" where
  "current_user s = ctx_user s"

definition require_user :: "'a core_db_scheme \<Rightarrow> error + user_context" where
  "require_user s =
     (case ctx_user s of None \<Rightarrow> raise_error TenantContextMissingError | Some ctx \<Rightarrow> Inr ctx)"

definition current_request_id :: "'a core_db_scheme \<Rightarrow> string option" where
  "current_request_id s = ctx_request_id s"

text \<open>\<open>TenantScope\<close> around a block: enter, run, and leave whether the block raised or not.\<close>

definition tenant_scope ::
  "tenant_context \<Rightarrow> ('a core_db_scheme \<Rightarrow> (error + 'b) \<times> 'a core_db_scheme)
    \<Rightarrow> 'a core_db_scheme \<Rightarrow> (error + 'b) \<times> 'a core_db_scheme" where
  "tenant_scope ctx body s =
     (let (token, s1) = set_tenant ctx s; (r, s2) = body s1 in (r, reset_tenant token s2))"

section \<open>Outbox and audit trail\<close>

definition append_outbox ::
  "event_type \<Rightarrow> string \<Rightarrow> uuid \<Rightarrow> json_object \<Rightarrow> uuid option
    \<Rightarrow> 'a core_db_scheme \<Rightarrow> 'a core_db_scheme" where
  "append_outbox event_type aggregate_type aggregate_id payload organization_id s =
     s\<lparr>next_uuid := Suc (next_uuid s),
       outbox_events := outbox_events s @
         [\<lparr>oe_id = next_uuid s, oe_aggregate_type = aggregate_type,
           oe_aggregate_id = aggregate_id, oe_organization_id = organization_id,
           oe_event_type = event_type, oe_payload = payload, oe_created_at = tx_now s,
           oe_published_at = None, oe_audience = audience_for event_type, oe_dead_at = None,
           oe_attempts = 0, oe_next_attempt_at = tx_now s, oe_last_error = None\<rparr>]\<rparr>"

text \<open>\<open>AuditService.log\<close>: the actor, its type and the diff the row gets.\<close>

definition audit_actor ::
  "user_context option \<Rightarrow> uuid option \<Rightarrow> string \<Rightarrow> json_object option
    \<Rightarrow> uuid option \<times> string \<times> json_object option" where
  "audit_actor user actor_user_id actor_type diff =
     (let (actor, ty, d) =
        (case (actor_user_id, user) of
           (None, Some u) \<Rightarrow>
             (case uc_api_key_id u of
                Some key_id \<Rightarrow>
                  (uc_api_key_creator_id u, ''api_key'',
                   Some (dict_set ''api_key_id'' (JUuid key_id) (case diff of Some x \<Rightarrow> x | None \<Rightarrow> [])))
              | None \<Rightarrow> (Some (uc_user_id u), actor_type, diff))
         | _ \<Rightarrow> (actor_user_id, actor_type, diff))
      in (actor, (if actor = None \<and> ty = ''user'' then ''system'' else ty), d))"

definition audit_log_as ::
  "event_type \<Rightarrow> uuid option \<Rightarrow> uuid option \<Rightarrow> string \<Rightarrow> string option \<Rightarrow> uuid option
    \<Rightarrow> json_object option \<Rightarrow> 'a core_db_scheme \<Rightarrow> 'a core_db_scheme" where
  "audit_log_as event_type organization_id actor_user_id actor_type target_type target_id diff s =
     (let (actor, ty, d) = audit_actor (current_user s) actor_user_id actor_type diff
      in s\<lparr>next_uuid := Suc (next_uuid s),
           audit_logs := audit_logs s @
             [\<lparr>al_id = next_uuid s, al_organization_id = organization_id,
               al_actor_user_id = actor, al_actor_type = ty, al_event_type = event_type,
               al_target_type = target_type, al_target_id = target_id, al_diff = d,
               al_ip = None, al_user_agent = None,
               al_request_id = current_request_id s, al_created_at = tx_now s\<rparr>]\<rparr>)"

text \<open>The common call, with \<open>actor_user_id\<close> and \<open>actor_type\<close> at their defaults.\<close>

abbreviation audit_log_default ::
  "event_type \<Rightarrow> uuid option \<Rightarrow> string \<Rightarrow> uuid \<Rightarrow> json_object option
    \<Rightarrow> 'a core_db_scheme \<Rightarrow> 'a core_db_scheme" where
  "audit_log_default ev org target_type target_id diff s \<equiv>
     audit_log_as ev org None ''user'' (Some target_type) (Some target_id) diff s"

section \<open>The unit of work of a request\<close>

definition defer_bump_s ::
  "versioned_cache \<Rightarrow> string \<Rightarrow> 'a core_db_scheme \<Rightarrow> 'a core_db_scheme" where
  "defer_bump_s c key s = s\<lparr>deferred_bumps := defer_bump (deferred_bumps s) c key\<rparr>"

text \<open>
  \<open>get_session\<close>: an exception rolls the tables back and discards the pending invalidations;
  otherwise the transaction commits and then the invalidations run, on the in-process cache
  at the time \<open>now\<close> of the commit. (A cache fill done before an exception is not represented.)
\<close>

definition get_session ::
  "datetime \<Rightarrow> ('a core_db_scheme \<Rightarrow> error + ('b \<times> 'a core_db_scheme))
    \<Rightarrow> 'a core_db_scheme \<Rightarrow> (error + 'b) \<times> 'a core_db_scheme" where
  "get_session now body s =
     (case body (s\<lparr>deferred_bumps := []\<rparr>) of
        Inl e \<Rightarrow> (Inl e, s\<lparr>deferred_bumps := []\<rparr>)
      | Inr (r, s') \<Rightarrow>
          (Inr r, s'\<lparr>cache_store :=
                       snd (flush_deferred_bumps (ttl_backend now) (deferred_bumps s') (cache_store s')),
                     deferred_bumps := []\<rparr>))"

section \<open>What the writers leave alone\<close>

named_theorems core_simps \<open>effects of the shared writers on the state\<close>

lemma append_outbox_fields [simp, core_simps]:
  "outbox_events (append_outbox ev ty i p org s) = outbox_events s @
     [\<lparr>oe_id = next_uuid s, oe_aggregate_type = ty, oe_aggregate_id = i, oe_organization_id = org,
       oe_event_type = ev, oe_payload = p, oe_created_at = tx_now s, oe_published_at = None,
       oe_audience = audience_for ev, oe_dead_at = None, oe_attempts = 0,
       oe_next_attempt_at = tx_now s, oe_last_error = None\<rparr>]"
  "audit_logs (append_outbox ev ty i p org s) = audit_logs s"
  "cache_store (append_outbox ev ty i p org s) = cache_store s"
  "deferred_bumps (append_outbox ev ty i p org s) = deferred_bumps s"
  "ctx_user (append_outbox ev ty i p org s) = ctx_user s"
  "ctx_tenant (append_outbox ev ty i p org s) = ctx_tenant s"
  "tx_now (append_outbox ev ty i p org s) = tx_now s"
  "next_uuid (append_outbox ev ty i p org s) = Suc (next_uuid s)"
  "core_db.more (append_outbox ev ty i p org s) = core_db.more s"
  by (simp_all add: append_outbox_def)

lemma audit_log_as_fields [simp, core_simps]:
  "outbox_events (audit_log_as ev org a ty tt ti d s) = outbox_events s"
  "cache_store (audit_log_as ev org a ty tt ti d s) = cache_store s"
  "deferred_bumps (audit_log_as ev org a ty tt ti d s) = deferred_bumps s"
  "ctx_user (audit_log_as ev org a ty tt ti d s) = ctx_user s"
  "ctx_tenant (audit_log_as ev org a ty tt ti d s) = ctx_tenant s"
  "tx_now (audit_log_as ev org a ty tt ti d s) = tx_now s"
  "next_uuid (audit_log_as ev org a ty tt ti d s) = Suc (next_uuid s)"
  "core_db.more (audit_log_as ev org a ty tt ti d s) = core_db.more s"
  by (simp_all add: audit_log_as_def Let_def split: prod.split)

lemma defer_bump_s_fields [simp, core_simps]:
  "outbox_events (defer_bump_s c k s) = outbox_events s"
  "audit_logs (defer_bump_s c k s) = audit_logs s"
  "cache_store (defer_bump_s c k s) = cache_store s"
  "deferred_bumps (defer_bump_s c k s) = defer_bump (deferred_bumps s) c k"
  "ctx_user (defer_bump_s c k s) = ctx_user s"
  "ctx_tenant (defer_bump_s c k s) = ctx_tenant s"
  "tx_now (defer_bump_s c k s) = tx_now s"
  "next_uuid (defer_bump_s c k s) = next_uuid s"
  "core_db.more (defer_bump_s c k s) = core_db.more s"
  by (simp_all add: defer_bump_s_def)

lemma defer_bump_member [simp]: "(c, k) \<in> set (defer_bump ps c k)"
  by (simp add: defer_bump_def)

lemma defer_bump_mono: "p \<in> set ps \<Longrightarrow> p \<in> set (defer_bump ps c k)"
  by (simp add: defer_bump_def)

lemma tenant_scope_restores: "ctx_tenant (snd (tenant_scope ctx body s)) = ctx_tenant s"
  by (simp add: tenant_scope_def set_tenant_def reset_tenant_def split: prod.split)

text \<open>
  An audit row never names an API key's sentinel user: when the acting principal is a key
  and no explicit actor is given, the row is attributed to the user who created the key, with
  actor type \<open>api_key\<close> and the key's id in the diff; the diff's other members are kept.
\<close>

theorem audit_key_attributed_to_creator:
  assumes "current_user s = Some u" and "uc_api_key_id u = Some key_id"
  shows "\<exists>row d. audit_logs (audit_log_as ev org None ty tt ti diff s) = audit_logs s @ [row]
    \<and> al_actor_user_id row = uc_api_key_creator_id u \<and> al_actor_type row = ''api_key''
    \<and> al_diff row = Some d \<and> map_of d ''api_key_id'' = Some (JUuid key_id)
    \<and> (\<forall>k. k \<noteq> ''api_key_id'' \<longrightarrow>
         map_of d k = (case diff of None \<Rightarrow> None | Some x \<Rightarrow> map_of x k))"
  using assms by (auto simp: audit_log_as_def audit_actor_def Let_def split: option.split)

text \<open>A request made with API key 5, which user 3 created.\<close>

definition demo_key_request :: core_db where
  "demo_key_request = \<lparr>next_uuid = 9, tx_now = 0, ctx_tenant = None,
     ctx_user = Some \<lparr>uc_user_id = 77, uc_email = ''key:ci'', uc_is_platform_admin = False,
       uc_permission_keys = {}, uc_api_key_id = Some 5, uc_api_key_scopes = Some {},
       uc_api_key_creator_id = Some 3\<rparr>,
     ctx_request_id = None, outbox_events = [], audit_logs = [], cache_store = Map.empty,
     deferred_bumps = []\<rparr>"

theorem audit_key_attributed_to_creator_witness:
  "\<exists>row d. audit_logs (audit_log_as API_KEY_AUTHENTICATED (Some 1) None ''user'' None None None
       demo_key_request) = [row]
     \<and> al_actor_user_id row = Some 3 \<and> al_diff row = Some d
     \<and> map_of d ''api_key_id'' = Some (JUuid 5)"
proof -
  have "current_user demo_key_request = Some (the (ctx_user demo_key_request))"
    "uc_api_key_id (the (ctx_user demo_key_request)) = Some 5"
    by (simp_all add: current_user_def demo_key_request_def)
  from audit_key_attributed_to_creator [OF this, of API_KEY_AUTHENTICATED "Some 1" "''user''" None None None]
  show ?thesis by (auto simp: demo_key_request_def)
qed

end
