(* ===== verification/Money.thy ===== *)
theory Money
  imports Prelude
begin

text \<open>
  The arithmetic of money and limits. \<open>subscriptions/proration.py\<close> splits a period between two
  prices; \<open>Overage.bill\<close> of \<open>entitlements/resolver.py\<close> prices usage past a limit. Cents are
  unbounded integers. A \<open>Decimal\<close> fraction quantised to six places is its number of
  millionths. \<open>Decimal(str(td.total_seconds()))\<close> is the exact number of seconds as long as the
  interval has at most fifteen decimal digits of microseconds (31 years), and the division at
  28 digits followed by the quantisation rounds the exact quotient once, since no quotient of
  two such numbers comes within \<open>10 ^ -22\<close> of a tie without being one.
\<close>

section \<open>Rounding\<close>

definition half_even_div :: "int \<Rightarrow> int \<Rightarrow> int" where
  "half_even_div a b =
     (let q = a div b; r = a mod b
      in if 2 * r < b then q else if b < 2 * r then q + 1 else if even q then q else q + 1)"

definition half_up_div :: "int \<Rightarrow> int \<Rightarrow> int" where
  "half_up_div a b = (if 0 \<le> a then (2 * a + b) div (2 * b) else - ((2 * (- a) + b) div (2 * b)))"

lemma two_abs_le: "2 * \<bar>x\<bar> \<le> (b::int) \<longleftrightarrow> 2 * x \<le> b \<and> - (2 * x) \<le> b"
  by arith

lemma half_even_div_error:
  assumes "0 < b"
  shows "2 * \<bar>half_even_div a b * b - a\<bar> \<le> b"
proof -
  obtain q r where q: "q = a div b" and r: "r = a mod b" by simp
  have split: "q * b = a - r" unfolding q r by (simp add: minus_mod_eq_div_mult)
  have "0 \<le> r" "r < b" using assms by (simp_all add: r)
  moreover have "half_even_div a b = q \<and> 2 * r \<le> b \<or> half_even_div a b = q + 1 \<and> b \<le> 2 * r"
    by (simp add: half_even_div_def Let_def q r)
  ultimately show ?thesis using split by (auto simp: distrib_right two_abs_le)
qed

lemma half_even_div_range:
  assumes "0 < b" "0 \<le> a" "a \<le> n * b"
  shows "0 \<le> half_even_div a b" "half_even_div a b \<le> n"
proof -
  have err: "2 * (half_even_div a b * b - a) \<le> b" "2 * (a - half_even_div a b * b) \<le> b"
    using half_even_div_error [OF assms(1), of a] by (auto simp: two_abs_le)
  obtain x where x: "x = half_even_div a b * b" by simp
  have "- b < x" using err(2) assms unfolding x [symmetric] by simp
  then have "(- 1) * b < half_even_div a b * b" by (simp add: x)
  then show "0 \<le> half_even_div a b"
    using mult_less_cancel_right_pos [OF assms(1), of "-1" "half_even_div a b"] by simp
  have "x < n * b + b" using err(1) assms unfolding x [symmetric] by simp
  then have "half_even_div a b * b < (n + 1) * b" by (simp add: x distrib_right)
  then show "half_even_div a b \<le> n"
    using mult_less_cancel_right_pos [OF assms(1), of "half_even_div a b" "n + 1"] by simp
qed

lemma half_even_div_multiple: "0 < b \<Longrightarrow> half_even_div (n * b) b = n"
  by (simp add: half_even_div_def)

lemma half_up_div_error:
  assumes "0 < b"
  shows "2 * \<bar>half_up_div a b * b - a\<bar> \<le> b"
proof -
  have pos: "2 * \<bar>(2 * c + b) div (2 * b) * b - c\<bar> \<le> b" for c
  proof -
    obtain q r where q: "q = (2 * c + b) div (2 * b)" and r: "r = (2 * c + b) mod (2 * b)" by simp
    have "q * (2 * b) = 2 * c + b - r" unfolding q r by (simp add: minus_mod_eq_div_mult)
    then have "2 * (q * b) = 2 * c + b - r" by simp
    moreover have "0 \<le> r" "r < 2 * b" using assms by (simp_all add: r)
    ultimately show ?thesis unfolding q [symmetric] two_abs_le by auto
  qed
  show ?thesis
    using pos [of a] pos [of "- a"] by (auto simp: half_up_div_def two_abs_le algebra_simps)
qed

lemma half_up_div_exact:
  assumes b: "0 < b"
  shows "half_up_div (a * b) b = a"
proof -
  let ?d = "half_up_div (a * b) b - a"
  have "2 * \<bar>?d * b\<bar> \<le> b"
    using half_up_div_error [OF b, of "a * b"] by (simp add: left_diff_distrib)
  then have "2 * \<bar>?d\<bar> * b \<le> 1 * b" using b by (simp add: abs_mult)
  then have "2 * \<bar>?d\<bar> \<le> 1" using b by (simp only: mult_le_cancel_right_pos)
  then show ?thesis by (cases "half_up_div (a * b) b" a rule: linorder_cases) auto
qed

section \<open>Proration\<close>

text \<open>Fractions are millionths.\<close>

definition whole :: int where "whole = 1000000"

record proration =
  credit_cents :: int
  charge_cents :: int
  fraction_remaining :: int

definition net_cents :: "proration \<Rightarrow> int" where
  "net_cents p = charge_cents p - credit_cents p"

definition elapsed_fraction :: "proration \<Rightarrow> int" where
  "elapsed_fraction p = whole - fraction_remaining p"

definition cents :: "int \<Rightarrow> int \<Rightarrow> int" where
  "cents amount fraction = half_up_div (amount * fraction) whole"

definition prorate :: "int \<Rightarrow> int \<Rightarrow> datetime \<Rightarrow> datetime \<Rightarrow> datetime \<Rightarrow> proration" where
  "prorate old_cents new_cents period_start period_end now =
     (let total = period_end - period_start
      in if total \<le> 0
         then \<lparr>credit_cents = 0, charge_cents = 0, fraction_remaining = 0\<rparr>
         else let remaining = min (max (period_end - now) 0) total;
                  fraction = half_even_div (remaining * whole) total
              in \<lparr>credit_cents = cents old_cents fraction, charge_cents = cents new_cents fraction,
                  fraction_remaining = fraction\<rparr>)"

definition arrears_adjustment_cents ::
  "int \<Rightarrow> int \<Rightarrow> datetime \<Rightarrow> datetime \<Rightarrow> datetime \<Rightarrow> int" where
  "arrears_adjustment_cents old_cents new_cents period_start period_end now =
     cents (old_cents - new_cents)
       (elapsed_fraction (prorate old_cents new_cents period_start period_end now))"

lemma cents_error: "2 * \<bar>cents a f * whole - a * f\<bar> \<le> whole"
  unfolding cents_def by (rule half_up_div_error) (simp add: whole_def)

lemma cents_bounds:
  assumes "0 \<le> a" "0 \<le> f" "f \<le> whole"
  shows "0 \<le> cents a f" "cents a f \<le> a"
proof -
  have "0 \<le> a * f" "a * f \<le> a * whole" using assms by (simp_all add: mult_left_mono)
  then show "0 \<le> cents a f" "cents a f \<le> a"
    by (auto simp: cents_def half_up_div_def whole_def)
qed

lemma fraction_remaining_bounds:
  "0 \<le> fraction_remaining (prorate c d s e now)" "fraction_remaining (prorate c d s e now) \<le> whole"
proof -
  have "s < e \<Longrightarrow> min (max (e - now) 0) (e - s) * whole \<le> whole * (e - s)"
    unfolding whole_def by (simp only: mult.commute [of _ 1000000]) (rule mult_left_mono; simp)
  then show "0 \<le> fraction_remaining (prorate c d s e now)"
    "fraction_remaining (prorate c d s e now) \<le> whole"
    using half_even_div_range [of "e - s" "min (max (e - now) 0) (e - s) * whole" whole]
    by (auto simp: prorate_def Let_def whole_def)
qed

text \<open>The elapsed fraction does not depend on the prices.\<close>

definition elapsed_at :: "datetime \<Rightarrow> datetime \<Rightarrow> datetime \<Rightarrow> int" where
  "elapsed_at s e now = elapsed_fraction (prorate 0 0 s e now)"

lemma elapsed_at_prorate: "elapsed_fraction (prorate c d s e now) = elapsed_at s e now"
  by (simp add: elapsed_at_def elapsed_fraction_def prorate_def Let_def)

lemma elapsed_at_bounds: "0 \<le> elapsed_at s e now" "elapsed_at s e now \<le> whole"
  using fraction_remaining_bounds [of 0 0 s e now] by (simp_all add: elapsed_at_def elapsed_fraction_def)

text \<open>
  A period billed in arrears after any number of plan changes. \<open>changes\<close> lists the new price
  and the time of each change; the invoice charges the last price for the whole period and
  adds one adjustment per change. The reference amount weighs each price by the fraction of
  the period it was in effect.
\<close>

fun last_price :: "int \<Rightarrow> (int \<times> datetime) list \<Rightarrow> int" where
  "last_price p [] = p"
| "last_price p ((q, t) # changes) = last_price q changes"

fun adjustments :: "datetime \<Rightarrow> datetime \<Rightarrow> int \<Rightarrow> (int \<times> datetime) list \<Rightarrow> int list" where
  "adjustments s e p [] = []"
| "adjustments s e p ((q, t) # changes) =
     arrears_adjustment_cents p q s e t # adjustments s e q changes"

fun time_weighted :: "datetime \<Rightarrow> datetime \<Rightarrow> int \<Rightarrow> int \<Rightarrow> (int \<times> datetime) list \<Rightarrow> int" where
  "time_weighted s e from_fraction p [] = p * (whole - from_fraction)"
| "time_weighted s e from_fraction p ((q, t) # changes) =
     p * (elapsed_at s e t - from_fraction) + time_weighted s e (elapsed_at s e t) q changes"

lemma adjustments_time_weighted:
  "2 * \<bar>(last_price p changes + sum_list (adjustments s e p changes)) * whole
        - (time_weighted s e f p changes + p * f)\<bar> \<le> int (length changes) * whole"
proof (induction changes arbitrary: p f)
  case Nil
  then show ?case by (simp add: algebra_simps)
next
  case (Cons c changes)
  obtain q t where [simp]: "c = (q, t)" by (cases c)
  let ?e = "elapsed_at s e t"
  have "2 * \<bar>arrears_adjustment_cents p q s e t * whole - (p - q) * ?e\<bar> \<le> whole"
    unfolding arrears_adjustment_cents_def elapsed_at_prorate by (rule cents_error)
  moreover have "2 * \<bar>(last_price q changes + sum_list (adjustments s e q changes)) * whole
        - (time_weighted s e ?e q changes + q * ?e)\<bar> \<le> int (length changes) * whole"
    by (rule Cons.IH)
  ultimately show ?case by (simp add: two_abs_le algebra_simps)
qed


text \<open>
  A proration's fraction lies between nothing and the whole period, is the whole before the
  period starts and nothing after its end, and the credit and the charge lie between 0 and
  the respective price.
\<close>

theorem prorate_bounds:
  assumes "0 \<le> old" and "0 \<le> new" and "period_start < period_end"
  shows "let p = prorate old new period_start period_end now
    in 0 \<le> fraction_remaining p \<and> fraction_remaining p \<le> whole
     \<and> 0 \<le> credit_cents p \<and> credit_cents p \<le> old \<and> 0 \<le> charge_cents p \<and> charge_cents p \<le> new
     \<and> (now \<le> period_start \<longrightarrow> credit_cents p = old \<and> charge_cents p = new)
     \<and> (period_end \<le> now \<longrightarrow> credit_cents p = 0 \<and> charge_cents p = 0)"
proof -
  let ?f = "fraction_remaining (prorate old new period_start period_end now)"
  have rows: "credit_cents (prorate old new period_start period_end now) = cents old ?f"
    "charge_cents (prorate old new period_start period_end now) = cents new ?f"
    using assms(3) by (simp_all add: prorate_def Let_def)
  have early: "now \<le> period_start \<Longrightarrow> ?f = whole"
    using assms(3) half_even_div_multiple [of "period_end - period_start" whole]
    by (simp add: prorate_def Let_def mult.commute)
  have late: "period_end \<le> now \<Longrightarrow> ?f = 0"
    using assms(3) by (simp add: prorate_def Let_def half_even_div_def)
  have "cents a whole = a" "cents a 0 = 0" for a
    using half_up_div_exact [of whole a] by (simp_all add: cents_def whole_def half_up_div_def)
  then show ?thesis
    using cents_bounds [OF assms(1)] cents_bounds [OF assms(2)] fraction_remaining_bounds early late
    by (simp add: rows Let_def)
qed

theorem prorate_bounds_witness:
  "let p = prorate 1000 3000 0 (days 30) (days 10)
    in 0 \<le> fraction_remaining p \<and> credit_cents p \<le> 1000 \<and> charge_cents p \<le> 3000"
  using prorate_bounds [of 1000 3000 0 "days 30" "days 10"] by (simp add: Let_def days_def seconds_def)

lemma prorate_example: "prorate 1000 3000 0 (days 30) (days 10)
  = \<lparr>credit_cents = 667, charge_cents = 2000, fraction_remaining = 666667\<rparr>"
  by (simp add: prorate_def days_def seconds_def half_even_div_def half_up_div_def cents_def whole_def Let_def)

section \<open>Overage\<close>

record overage =
  ov_unit :: int
  ov_price_cents :: int

definition bill :: "overage \<Rightarrow> int \<Rightarrow> int \<times> int" where
  "bill ov units_over =
     (if units_over \<le> 0 then (0, 0)
      else let quantity = ceil_div units_over (ov_unit ov) in (quantity, quantity * ov_price_cents ov))"

text \<open>
  Overage is billed in whole blocks, rounded up: the billed blocks cover the usage past the
  limit, one block fewer would not, and the amount is the number of blocks times the price.
\<close>


theorem bill_rounds_up_to_blocks:
  assumes "1 \<le> ov_unit ov"
  shows "let (quantity, amount) = bill ov over in
    amount = quantity * ov_price_cents ov
    \<and> (if over \<le> 0 then quantity = 0
       else 1 \<le> quantity \<and> over \<le> quantity * ov_unit ov \<and> (quantity - 1) * ov_unit ov < over)"
proof -
  have unit: "0 < ov_unit ov" using assms by simp
  note bounds = ceil_div_bounds [OF unit, of over]
  have "0 < over \<Longrightarrow> 1 \<le> ceil_div over (ov_unit ov)"
  proof (rule ccontr)
    assume "0 < over" "\<not> 1 \<le> ceil_div over (ov_unit ov)"
    then have "ceil_div over (ov_unit ov) * ov_unit ov \<le> 0 * ov_unit ov"
      using unit by (intro mult_right_mono) auto
    with bounds(1) \<open>0 < over\<close> show False by simp
  qed
  with bounds show ?thesis by (auto simp: bill_def Let_def algebra_simps)
qed

theorem bill_rounds_up_to_blocks_witness:
  "bill \<lparr>ov_unit = 1000, ov_price_cents = 50\<rparr> 1001 = (2, 100) \<and> 1001 \<le> (2::int) * 1000"
  using bill_rounds_up_to_blocks [of "\<lparr>ov_unit = 1000, ov_price_cents = 50\<rparr>" 1001]
  by (simp add: bill_def ceil_div_def)

section \<open>Soft limits: double precision\<close>

text \<open>
  A soft-limit ratio is a \<open>Numeric(5, 2)\<close> column, kept as hundredths; the code converts it to
  a \<open>float\<close> and multiplies the limit by it. A double is \<open>(m, k)\<close>, the value \<open>m / 2 ^ k\<close>;
  \<open>round53\<close> rounds an integer to 53 significant bits, ties to even, so the product of two
  doubles is the rounded product of the numerators. (Neither overflow nor underflow can
  happen: ratios are at most 1 and limits are 64-bit integers.)
\<close>

type_synonym double = "int \<times> nat"

fun bit_length :: "nat \<Rightarrow> nat" where
  "bit_length n = (if n = 0 then 0 else Suc (bit_length (n div 2)))"

declare bit_length.simps [simp del]

definition round53 :: "int \<Rightarrow> int" where
  "round53 n =
     (let b = bit_length (nat \<bar>n\<bar>)
      in if b \<le> 53 then n else half_even_div n (2 ^ (b - 53)) * 2 ^ (b - 53))"

definition double_of_int :: "int \<Rightarrow> double" where
  "double_of_int n = (round53 n, 0)"

definition double_mul :: "double \<Rightarrow> double \<Rightarrow> double" where
  "double_mul x y = (round53 (fst x * fst y), snd x + snd y)"

definition double_trunc :: "double \<Rightarrow> int" where
  "double_trunc x = (if 0 \<le> fst x then fst x div 2 ^ snd x else - ((- fst x) div 2 ^ snd x))"

text \<open>The double nearest to \<open>h / 100\<close>, for \<open>h\<close> from 1 to 100: its numerator has 53 bits.\<close>

definition double_of_hundredths :: "int \<Rightarrow> double" where
  "double_of_hundredths h =
     (let k = 52 + length (takeWhile (\<lambda>j. h * 2 ^ j < 100) [0..<8])
      in (half_even_div (h * 2 ^ k) 100, k))"

definition soft_threshold :: "int \<Rightarrow> double \<Rightarrow> int" where
  "soft_threshold limit_value ratio = double_trunc (double_mul (double_of_int limit_value) ratio)"

lemma bit_length_le: "n < 2 ^ b \<Longrightarrow> bit_length n \<le> b"
proof (induction b arbitrary: n)
  case 0
  then show ?case by (simp add: bit_length.simps)
next
  case (Suc b)
  then have "n div 2 < 2 ^ b" by (simp add: less_mult_imp_div_less)
  then show ?case using Suc.IH by (subst bit_length.simps) simp
qed

lemma round53_exact: "\<bar>n\<bar> < 2 ^ 53 \<Longrightarrow> round53 n = n"
  using bit_length_le [of "nat \<bar>n\<bar>" 53] by (simp add: round53_def nat_less_iff)

lemma round53_le:
  assumes "0 \<le> n" "n \<le> v * 2 ^ k" "v < 2 ^ 53"
  shows "0 \<le> round53 n \<and> round53 n \<le> v * 2 ^ k"
proof -
  let ?b = "bit_length (nat n)"
  have "v * 2 ^ k < 2 ^ 53 * 2 ^ k" by (rule mult_strict_right_mono) (use assms in simp_all)
  with assms(2) have "n < 2 ^ 53 * 2 ^ k" by (rule le_less_trans)
  then have "n < 2 ^ (53 + k)" by (simp add: power_add)
  then have b: "?b \<le> 53 + k" using assms(1) by (intro bit_length_le) (simp add: nat_less_iff)
  show ?thesis
  proof (cases "?b \<le> 53")
    case True
    with assms show ?thesis by (simp add: round53_def)
  next
    case False
    let ?s = "?b - 53"
    have "k - ?s + ?s = k" using b False by simp
    then have split: "v * 2 ^ k = v * 2 ^ (k - ?s) * (2 ^ ?s :: int)"
      by (metis mult.assoc power_add)
    have "0 \<le> half_even_div n (2 ^ ?s)" "half_even_div n (2 ^ ?s) \<le> v * 2 ^ (k - ?s)"
      using half_even_div_range [of "2 ^ ?s" n "v * 2 ^ (k - ?s)"] assms split by simp_all
    moreover from this(2) have "half_even_div n (2 ^ ?s) * 2 ^ ?s \<le> v * 2 ^ k"
      unfolding split by (rule mult_right_mono) simp
    ultimately show ?thesis
      using assms(1) False by (simp add: round53_def Let_def)
  qed
qed

text \<open>
  A soft limit never exceeds the hard one: for a ratio from 0.01 to 1.00 and a limit below
  two to the 53, the threshold the float product truncates to lies between 0 and the limit,
  and at ratio 1.00 it is the limit.
\<close>

theorem soft_threshold_within_limit:
  assumes "0 \<le> limit_value" "limit_value < 2 ^ 53" "1 \<le> h" "h \<le> 100"
  shows "0 \<le> soft_threshold limit_value (double_of_hundredths h)
    \<and> soft_threshold limit_value (double_of_hundredths h) \<le> limit_value
    \<and> (h = 100 \<longrightarrow> soft_threshold limit_value (double_of_hundredths h) = limit_value)"
proof -
  obtain m k where mk: "double_of_hundredths h = (m, k)" by (cases "double_of_hundredths h")
  then have m: "m = half_even_div (h * 2 ^ k) 100" by (auto simp: double_of_hundredths_def Let_def)
  have "h * 2 ^ k \<le> 2 ^ k * 100" using assms(4) by simp
  then have range: "0 \<le> m" "m \<le> 2 ^ k"
    using half_even_div_range [of 100 "h * 2 ^ k" "2 ^ k"] assms(3) by (simp_all add: m)
  have "limit_value * m \<le> limit_value * 2 ^ k" "0 \<le> limit_value * m"
    using range assms(1) by (simp_all add: mult_left_mono)
  with round53_le [of "limit_value * m" limit_value k] assms(2)
  have r: "0 \<le> round53 (limit_value * m)" "round53 (limit_value * m) \<le> limit_value * 2 ^ k" by simp_all
  have thr: "soft_threshold limit_value (double_of_hundredths h) = round53 (limit_value * m) div 2 ^ k"
    using r assms(1,2)
    by (simp add: soft_threshold_def double_mul_def double_of_int_def double_trunc_def mk round53_exact)
  have le: "round53 (limit_value * m) div 2 ^ k \<le> limit_value"
    using zdiv_mono1 [OF r(2), of "2 ^ k"] by simp
  have full: "round53 (limit_value * m) div 2 ^ k = limit_value" if "h = 100"
  proof -
    have "k = 52" using mk that by (auto simp: double_of_hundredths_def Let_def upt_conv_Cons)
    then have m52: "m = 2 ^ 52" using that half_even_div_multiple [of 100 "2 ^ 52"] by (simp add: m)
    let ?n = "limit_value * 2 ^ 52" and ?b = "bit_length (nat (limit_value * 2 ^ 52))"
    have "nat ?n < 2 ^ 105"
      using assms(1,2) by (simp add: nat_less_iff)
    then have "?b \<le> 105" by (rule bit_length_le)
    then have "?b - 53 \<le> 52" by simp
    obtain S V :: int where S: "S = 2 ^ (?b - 53)" and V: "V = limit_value * 2 ^ (52 - (?b - 53))"
      by simp
    have "V * S = ?n"
      unfolding S V using \<open>?b - 53 \<le> 52\<close> by (simp add: mult.assoc flip: power_add)
    moreover have "half_even_div (V * S) S * S = V * S"
      using half_even_div_multiple [of S V] by (simp add: S)
    ultimately have "half_even_div ?n (2 ^ (?b - 53)) * 2 ^ (?b - 53) = ?n"
      unfolding S [symmetric] by simp
    then have "round53 ?n = ?n" using assms(1) by (simp add: round53_def Let_def)
    then show ?thesis by (simp add: m52 \<open>k = 52\<close>)
  qed
  show ?thesis unfolding thr using r(1) le full by (simp add: pos_imp_zdiv_nonneg_iff)
qed

theorem soft_threshold_within_limit_witness:
  "0 \<le> soft_threshold 1000 (double_of_hundredths 80) \<and> soft_threshold 1000 (double_of_hundredths 80) \<le> 1000"
  using soft_threshold_within_limit [of 1000 80] by simp

lemma soft_threshold_example: "soft_threshold 1000 (double_of_hundredths 80) = 800"
  by (simp add: soft_threshold_def double_of_hundredths_def double_mul_def double_of_int_def
      double_trunc_def round53_def half_even_div_def Let_def bit_length.simps upt_conv_Cons)

end
