(* ===== verification/Status.thy ===== *)
theory Status
  imports Errors
begin

text \<open>
  Statuses and their transition tables: \<open>subscriptions/state_machine.py\<close> and
  \<open>INVOICE_TRANSITIONS\<close> of \<open>billing/invoicing.py\<close>. The locale \<open>status_machine\<close> is what both
  promise: a check accepts a move exactly when the target is the current status (a replayed
  webhook) or is in the table.
\<close>

section \<open>Subscription statuses\<close>

datatype sub_status = Trialing | Active | Past_Due | Canceled | Incomplete | Unpaid

primrec status_name :: "sub_status \<Rightarrow> string" where
  "status_name Trialing = ''trialing''"
| "status_name Active = ''active''"
| "status_name Past_Due = ''past_due''"
| "status_name Canceled = ''canceled''"
| "status_name Incomplete = ''incomplete''"
| "status_name Unpaid = ''unpaid''"

primrec ALLOWED_TRANSITIONS :: "sub_status \<Rightarrow> sub_status list" where
  "ALLOWED_TRANSITIONS Incomplete = [Trialing, Active, Past_Due, Canceled]"
| "ALLOWED_TRANSITIONS Trialing = [Active, Past_Due, Canceled, Incomplete]"
| "ALLOWED_TRANSITIONS Active = [Past_Due, Canceled, Unpaid, Active]"
| "ALLOWED_TRANSITIONS Past_Due = [Active, Canceled, Unpaid]"
| "ALLOWED_TRANSITIONS Unpaid = [Active, Canceled]"
| "ALLOWED_TRANSITIONS Canceled = [Active]"

definition OCCUPYING_STATUSES :: "sub_status list" where
  "OCCUPYING_STATUSES = [Trialing, Active, Past_Due]"

definition can_transition :: "sub_status \<Rightarrow> sub_status \<Rightarrow> bool" where
  "can_transition current target =
     (if current = target then True else target \<in> set (ALLOWED_TRANSITIONS current))"

text \<open>The extras name the two statuses and the allowed targets (the code sorts their names).\<close>

definition status_list :: "('s \<Rightarrow> string) \<Rightarrow> 's list \<Rightarrow> json" where
  "status_list nm ss = JList (map (\<lambda>s. JStr (nm s)) ss)"

definition assert_transition :: "sub_status \<Rightarrow> sub_status \<Rightarrow> error + unit" where
  "assert_transition current target =
     (if can_transition current target then Inr ()
      else Inl (Domain SubscriptionStateError
        [(''from'', JStr (status_name current)), (''to'', JStr (status_name target)),
         (''allowed'', status_list status_name (ALLOWED_TRANSITIONS current))]))"

section \<open>Invoice statuses\<close>

datatype invoice_status = Draft | Open | Paid | Void | Uncollectible

primrec invoice_status_name :: "invoice_status \<Rightarrow> string" where
  "invoice_status_name Draft = ''draft''"
| "invoice_status_name Open = ''open''"
| "invoice_status_name Paid = ''paid''"
| "invoice_status_name Void = ''void''"
| "invoice_status_name Uncollectible = ''uncollectible''"

primrec INVOICE_TRANSITIONS :: "invoice_status \<Rightarrow> invoice_status list" where
  "INVOICE_TRANSITIONS Draft = [Open, Void]"
| "INVOICE_TRANSITIONS Open = [Paid, Void, Uncollectible]"
| "INVOICE_TRANSITIONS Paid = []"
| "INVOICE_TRANSITIONS Void = []"
| "INVOICE_TRANSITIONS Uncollectible = []"

definition assert_invoice_transition :: "invoice_status \<Rightarrow> invoice_status \<Rightarrow> error + unit" where
  "assert_invoice_transition current target =
     (if current = target then Inr ()
      else if target \<notin> set (INVOICE_TRANSITIONS current)
      then Inl (Domain ValidationFailedError
        [(''from'', JStr (invoice_status_name current)), (''to'', JStr (invoice_status_name target)),
         (''allowed'', status_list invoice_status_name (INVOICE_TRANSITIONS current))])
      else Inr ())"

section \<open>What a transition table promises\<close>

locale status_machine =
  fixes table :: "'s \<Rightarrow> 's list" and check :: "'s \<Rightarrow> 's \<Rightarrow> error + unit"
  assumes check_ok: "check current target = Inr () \<longleftrightarrow> current = target \<or> target \<in> set (table current)"
begin

text \<open>A sequence of requested statuses: a rejected request leaves the status as it is.\<close>

definition move :: "'s \<Rightarrow> 's \<Rightarrow> 's" where
  "move current target = (if check current target = Inr () then target else current)"

definition moves :: "'s list \<Rightarrow> 's \<Rightarrow> 's" where
  "moves targets current = foldl move current targets"

lemma replay: "move (move s t) t = move s t"
  by (simp add: move_def check_ok)

lemma terminal: "table s = [] \<Longrightarrow> moves targets s = s"
proof (induction targets)
  case Nil
  then show ?case by (simp add: moves_def)
next
  case (Cons t targets)
  then have "move s t = s" by (simp add: move_def check_ok)
  with Cons show ?case by (simp add: moves_def)
qed

text \<open>A set of statuses that the table does not leave is not left.\<close>

lemma closed_set:
  assumes "\<And>s. s \<in> A \<Longrightarrow> set (table s) \<subseteq> A" and "s \<in> A"
  shows "moves targets s \<in> A"
  using assms(2)
proof (induction targets arbitrary: s)
  case Nil
  then show ?case by (simp add: moves_def)
next
  case (Cons t targets)
  then have "move s t \<in> A" using assms(1) by (auto simp: move_def check_ok)
  with Cons.IH show ?case by (simp add: moves_def)
qed

text \<open>The statuses that sequences of requests can reach.\<close>

lemma moves_rtrancl:
  "(\<exists>targets. moves targets s = t) \<longleftrightarrow> (s, t) \<in> {(x, y). y \<in> set (table x)}\<^sup>*"
proof
  assume "\<exists>targets. moves targets s = t"
  then obtain targets where "moves targets s = t" ..
  then show "(s, t) \<in> {(x, y). y \<in> set (table x)}\<^sup>*"
  proof (induction targets arbitrary: s)
    case Nil
    then show ?case by (simp add: moves_def)
  next
    case (Cons u targets)
    then have "(move s u, t) \<in> {(x, y). y \<in> set (table x)}\<^sup>*" by (simp add: moves_def)
    moreover have "move s u = s \<or> (s, move s u) \<in> {(x, y). y \<in> set (table x)}"
      by (auto simp: move_def check_ok)
    ultimately show ?case by (metis converse_rtrancl_into_rtrancl)
  qed
next
  assume "(s, t) \<in> {(x, y). y \<in> set (table x)}\<^sup>*"
  then show "\<exists>targets. moves targets s = t"
  proof (induction rule: converse_rtrancl_induct)
    case base
    have "moves [] t = t" by (simp add: moves_def)
    then show ?case by blast
  next
    case (step y z)
    then obtain targets where "moves targets z = t" by blast
    moreover have "move y z = z" using step.hyps(1) by (simp add: move_def check_ok)
    ultimately have "moves (z # targets) y = t" by (simp add: moves_def)
    then show ?case by blast
  qed
qed

end

interpretation sub: status_machine ALLOWED_TRANSITIONS assert_transition
  by unfold_locales (simp add: assert_transition_def can_transition_def)

interpretation inv: status_machine INVOICE_TRANSITIONS assert_invoice_transition
  by unfold_locales (auto simp: assert_invoice_transition_def)

text \<open>Requested statuses applied one after the other, rejected ones skipped.\<close>

definition apply_statuses :: "sub_status list \<Rightarrow> sub_status \<Rightarrow> sub_status" where
  "apply_statuses targets s =
     foldl (\<lambda>c t. if assert_transition c t = Inr () then t else c) s targets"

lemma apply_statuses_moves: "apply_statuses = sub.moves"
  by (simp add: fun_eq_iff apply_statuses_def sub.moves_def sub.move_def [abs_def])

lemma apply_statuses_repeat: "apply_statuses (targets @ [t, t]) s = apply_statuses (targets @ [t]) s"
  by (auto simp: apply_statuses_def assert_transition_def)

lemma reachable_statuses:
  "(\<exists>targets. apply_statuses targets s = t) \<longleftrightarrow> s \<in> {Trialing, Incomplete} \<or> t \<notin> {Trialing, Incomplete}"
    (is "?reach \<longleftrightarrow> ?ok")
proof
  assume ?reach
  then obtain targets where t: "sub.moves targets s = t" by (auto simp: apply_statuses_moves)
  have "set (ALLOWED_TRANSITIONS x) \<subseteq> {Active, Past_Due, Canceled, Unpaid}"
    if "x \<in> {Active, Past_Due, Canceled, Unpaid}" for x
    using that by auto
  from sub.closed_set [OF this, of s targets] t show ?ok by (cases s) auto
next
  assume ?ok
  let ?R = "{(x, y). y \<in> set (ALLOWED_TRANSITIONS x)}"
  have to_active: "(s, Active) \<in> ?R\<^sup>*"
    by (cases s) (simp_all add: r_into_rtrancl)
  have "(s, t) \<in> ?R\<^sup>*"
  proof (cases "t \<in> {Trialing, Incomplete}")
    case True
    with \<open>?ok\<close> have "s \<in> {Trialing, Incomplete}" by blast
    with True show ?thesis by (auto simp: r_into_rtrancl)
  next
    case False
    then have "(Active, t) \<in> ?R\<^sup>*" by (cases t) (simp_all add: r_into_rtrancl)
    with to_active show ?thesis by (rule rtrancl_trans)
  qed
  then show ?reach by (simp add: apply_statuses_moves sub.moves_rtrancl)
qed


text \<open>
  Provider events arrive late, out of order and more than once. Once a subscription has
  been active, past due, unpaid or canceled, no sequence of requested statuses brings it back
  to trialing or incomplete, whatever else it does; from incomplete and trialing every status
  can be reached; and repeating the last request changes nothing.
\<close>

theorem subscription_status_never_returns_to_trial:
  "range (\<lambda>targets. apply_statuses targets s)
     = (if s = Trialing \<or> s = Incomplete then UNIV else {Active, Past_Due, Unpaid, Canceled})
   \<and> apply_statuses (targets @ [t, t]) s = apply_statuses (targets @ [t]) s"
proof
  have "t \<in> range (\<lambda>targets. apply_statuses targets s) \<longleftrightarrow>
      t \<in> (if s = Trialing \<or> s = Incomplete then UNIV else {Active, Past_Due, Unpaid, Canceled})" for t
    unfolding image_iff using reachable_statuses [of s t]
    by (cases t; simp add: eq_commute [of t] eq_commute [of _ "apply_statuses _ _"])
  then show "range (\<lambda>targets. apply_statuses targets s)
      = (if s = Trialing \<or> s = Incomplete then UNIV else {Active, Past_Due, Unpaid, Canceled})" by blast
qed (rule apply_statuses_repeat)

end
