(* ===== verification/Plans.thy ===== *)
theory Plans
  imports Core Money "HOL-Library.Char_ord" "HOL-Library.List_Lexorder"
begin

text \<open>
  The plan catalog (\<open>subscriptions/catalog.py\<close>), the catalog tables of
  \<open>subscriptions/models.py\<close> and the projection of the one onto the others
  (\<open>subscriptions/sync.py\<close>). A plan row carries its \<open>plan_features\<close> and \<open>plan_limits\<close> rows, as
  the relationships of the class do. The pydantic field constraints that speak about the shape
  of a key or a currency are \<open>fields_ok\<close>; reading and parsing the YAML file is the argument of
  \<open>load_catalog\<close>.
\<close>

section \<open>The catalog\<close>

datatype interval = Month | Year

primrec interval_name :: "interval \<Rightarrow> string" where
  "interval_name Month = ''month''"
| "interval_name Year = ''year''"

record catalog_defaults =
  cd_currency :: string
  cd_interval :: interval
  cd_trial_days :: int
  cd_soft_limit_ratio :: "int option"  \<comment> \<open>hundredths\<close>

record feature_definition =
  fd_key :: string
  fd_name :: string
  fd_category :: "string option"

datatype metric_kind = Counter | Gauge

record metric_definition =
  md_key :: string
  md_name :: string
  md_kind :: metric_kind
  md_unit :: "string option"
  md_soft_limit_ratio :: "int option"
  md_overage :: "overage option"

record plan_definition =
  pd_key :: string
  pd_name :: string
  pd_description :: "string option"
  pd_price_cents :: "int option"
  pd_custom_price :: bool  \<comment> \<open>\<open>price: custom\<close>\<close>
  pd_currency :: "string option"
  pd_interval :: "interval option"
  pd_is_public :: bool
  pd_is_custom :: bool
  pd_trial_days :: "int option"
  pd_sort_order :: int
  pd_features :: "string list"
  pd_limits :: "(string \<times> int option) list"
  pd_overage :: "(string \<times> overage) list"

record plan_catalog =
  pc_defaults :: catalog_defaults
  pc_features :: "feature_definition list"
  pc_metrics :: "metric_definition list"
  pc_plans :: "plan_definition list"

text \<open>\<open>^[a-z0-9_]+$\<close>\<close>

definition key_char :: "char \<Rightarrow> bool" where
  "key_char c = (c = CHR ''_'' \<or> (CHR ''a'' \<le> c \<and> c \<le> CHR ''z'') \<or> (CHR ''0'' \<le> c \<and> c \<le> CHR ''9''))"

definition key_ok :: "string \<Rightarrow> bool" where
  "key_ok k = (k \<noteq> [] \<and> list_all key_char k)"

definition opt_all :: "('a \<Rightarrow> bool) \<Rightarrow> 'a option \<Rightarrow> bool" where
  "opt_all P x = (case x of None \<Rightarrow> True | Some v \<Rightarrow> P v)"

definition currency_ok :: "string \<Rightarrow> bool" where
  "currency_ok s = (length s = 3 \<and> list_all (\<lambda>c. CHR ''A'' \<le> c \<and> c \<le> CHR ''Z'') s)"

definition overage_ok :: "overage \<Rightarrow> bool" where
  "overage_ok ov = (1 \<le> ov_unit ov \<and> 0 \<le> ov_price_cents ov)"

definition ratio_ok :: "int \<Rightarrow> bool" where
  "ratio_ok r = (0 \<le> r \<and> r \<le> 100)"

text \<open>\<open>PlanDefinition._price_xor\<close>: exactly one of a price and \<open>price: custom\<close>.\<close>

definition price_xor :: "plan_definition \<Rightarrow> bool" where
  "price_xor p = ((pd_price_cents p \<noteq> None) \<noteq> pd_custom_price p)"

definition plan_fields_ok :: "plan_definition \<Rightarrow> bool" where
  "plan_fields_ok p =
     (key_ok (pd_key p) \<and> opt_all (\<lambda>c. 0 \<le> c) (pd_price_cents p) \<and> opt_all currency_ok (pd_currency p)
      \<and> opt_all (\<lambda>d. 0 \<le> d) (pd_trial_days p) \<and> distinct (map fst (pd_limits p))
      \<and> distinct (map fst (pd_overage p)) \<and> list_all (overage_ok \<circ> snd) (pd_overage p) \<and> price_xor p)"

definition metric_fields_ok :: "metric_definition \<Rightarrow> bool" where
  "metric_fields_ok m = (key_ok (md_key m) \<and> opt_all ratio_ok (md_soft_limit_ratio m)
     \<and> opt_all overage_ok (md_overage m))"

definition fields_ok :: "plan_catalog \<Rightarrow> bool" where
  "fields_ok c =
     (currency_ok (cd_currency (pc_defaults c)) \<and> 0 \<le> cd_trial_days (pc_defaults c)
      \<and> opt_all ratio_ok (cd_soft_limit_ratio (pc_defaults c))
      \<and> list_all (\<lambda>f. key_ok (fd_key f)) (pc_features c)
      \<and> list_all metric_fields_ok (pc_metrics c) \<and> list_all plan_fields_ok (pc_plans c))"

text \<open>The messages \<open>_cross_validate\<close> collects, in its order, with the keys they name.\<close>

datatype catalog_issue =
    DuplicateFeatures "string list"
  | DuplicateMetrics "string list"
  | DuplicatePlans "string list"
  | UnknownFeatures string "string list"
  | UnknownMetrics string "string list"
  | UnpricedOverage string "string list"
  | PublicWithoutPrice string

definition sorted_set :: "string list \<Rightarrow> string list" where
  "sorted_set ks = sort (remdups ks)"

definition duplicates :: "string list \<Rightarrow> string list" where
  "duplicates ks = sorted_set (filter (\<lambda>k. 1 < count_list ks k) ks)"

definition issue_unless_empty :: "(string list \<Rightarrow> catalog_issue) \<Rightarrow> string list \<Rightarrow> catalog_issue list" where
  "issue_unless_empty mk ks = (if ks = [] then [] else [mk ks])"

definition plan_issues :: "string list \<Rightarrow> string list \<Rightarrow> plan_definition \<Rightarrow> catalog_issue list" where
  "plan_issues feature_set metric_set p =
     issue_unless_empty (UnknownFeatures (pd_key p))
       (sorted_set (filter (\<lambda>k. k \<notin> set feature_set) (pd_features p)))
     @ issue_unless_empty (UnknownMetrics (pd_key p))
       (sorted_set (filter (\<lambda>k. k \<notin> set metric_set) (map fst (pd_limits p))))
     @ issue_unless_empty (UnpricedOverage (pd_key p))
       (sorted_set (filter (\<lambda>k. k \<notin> fst ` set (pd_limits p)) (map fst (pd_overage p))))
     @ (if pd_is_public p \<and> pd_price_cents p = None then [PublicWithoutPrice (pd_key p)] else [])"

definition cross_validate :: "plan_catalog \<Rightarrow> catalog_issue list" where
  "cross_validate c =
     (let feature_keys = map fd_key (pc_features c);
          metric_keys = map md_key (pc_metrics c);
          plan_keys = map pd_key (pc_plans c)
      in issue_unless_empty DuplicateFeatures (duplicates feature_keys)
       @ issue_unless_empty DuplicateMetrics (duplicates metric_keys)
       @ issue_unless_empty DuplicatePlans (duplicates plan_keys)
       @ concat (map (plan_issues feature_keys metric_keys) (pc_plans c)))"

definition issue_text :: "string \<Rightarrow> string \<Rightarrow> string list \<Rightarrow> json" where
  "issue_text what pkey ks = JList [JStr what, JStr pkey, JList (map JStr ks)]"

text \<open>A message, kept as its parts.\<close>

primrec issue_json :: "catalog_issue \<Rightarrow> json" where
  "issue_json (DuplicateFeatures ks) = issue_text ''duplicate feature keys'' [] ks"
| "issue_json (DuplicateMetrics ks) = issue_text ''duplicate metric keys'' [] ks"
| "issue_json (DuplicatePlans ks) = issue_text ''duplicate plan keys'' [] ks"
| "issue_json (UnknownFeatures p ks) = issue_text ''references unknown features'' p ks"
| "issue_json (UnknownMetrics p ks) = issue_text ''limits unknown metrics'' p ks"
| "issue_json (UnpricedOverage p ks) = issue_text ''prices overage for metrics it does not limit'' p ks"
| "issue_json (PublicWithoutPrice p) = issue_text ''must have a concrete price_cents'' p []"

datatype plans_file = MissingFile | NotYaml | Document plan_catalog

definition load_catalog :: "plans_file \<Rightarrow> error + plan_catalog" where
  "load_catalog file =
     (case file of
        MissingFile \<Rightarrow> Inl (Domain CatalogInvalidError [(''path'', JStr ''plans_file'')])
      | NotYaml \<Rightarrow> Inl (Domain CatalogInvalidError [(''path'', JStr ''plans_file'')])
      | Document c \<Rightarrow>
          if \<not> fields_ok c
          then Inl (Domain CatalogInvalidError [(''path'', JStr ''plans_file'')])
          else if cross_validate c \<noteq> []
          then Inl (Domain CatalogInvalidError [(''errors'', JList (map issue_json (cross_validate c)))])
          else Inr c)"

definition catalog_plan :: "plan_catalog \<Rightarrow> string \<Rightarrow> plan_definition option" where
  "catalog_plan c key = List.find (\<lambda>p. pd_key p = key) (pc_plans c)"

definition overage_for :: "plan_catalog \<Rightarrow> string \<Rightarrow> string \<Rightarrow> overage option" where
  "overage_for c pkey metric =
     (let metric_default =
        (case List.find (\<lambda>m. md_key m = metric) (pc_metrics c) of
           Some m \<Rightarrow> md_overage m | None \<Rightarrow> None)
      in case catalog_plan c pkey of
           Some p \<Rightarrow> (case map_of (pd_overage p) metric of Some ov \<Rightarrow> Some ov | None \<Rightarrow> metric_default)
         | None \<Rightarrow> metric_default)"

section \<open>The catalog tables\<close>

record feature_row =
  ft_key :: string
  ft_name :: string
  ft_description :: "string option"
  ft_category :: "string option"

record metric_row =
  mt_key :: string
  mt_name :: string
  mt_kind :: metric_kind
  mt_unit :: "string option"
  mt_overage_unit :: "int option"
  mt_overage_price_cents :: "int option"

record plan_feature =
  pf_feature_key :: string
  pf_enabled :: bool

record plan_limit =
  pl_metric :: string
  pl_limit_value :: "int option"
  pl_soft_limit_ratio :: "int option"
  pl_overage_unit :: "int option"
  pl_overage_price_cents :: "int option"

record plan_values =
  plan_name :: string
  plan_description :: "string option"
  plan_price_cents :: "int option"
  plan_currency :: string
  plan_interval :: "interval option"
  plan_is_public :: bool
  plan_is_custom :: bool
  plan_trial_days :: int
  plan_sort_order :: int
  plan_archived_at :: "datetime option"

record plan =
  plan_id :: uuid
  plan_key :: string
  plan_vals :: plan_values
  plan_provider_refs :: json_object
  plan_features :: "plan_feature list"
  plan_limits :: "plan_limit list"

record catalog_db = core_db +
  feature_rows :: "feature_row list"
  metric_rows :: "metric_row list"
  plan_rows :: "plan list"

section \<open>Synchronisation\<close>

record sync_result =
  sr_features_added :: nat
  sr_metrics_added :: nat
  sr_plans_added :: nat
  sr_plans_updated :: nat
  sr_plans_archived :: nat

definition sync_features :: "feature_definition list \<Rightarrow> feature_row list \<Rightarrow> feature_row list" where
  "sync_features defs rows =
     rows @ map (\<lambda>d. \<lparr>ft_key = fd_key d, ft_name = fd_name d, ft_description = None,
                      ft_category = fd_category d\<rparr>)
       (filter (\<lambda>d. fd_key d \<notin> ft_key ` set rows) defs)"

definition metric_of_definition :: "metric_definition \<Rightarrow> metric_row" where
  "metric_of_definition d =
     \<lparr>mt_key = md_key d, mt_name = md_name d, mt_kind = md_kind d, mt_unit = md_unit d,
      mt_overage_unit = map_option ov_unit (md_overage d),
      mt_overage_price_cents = map_option ov_price_cents (md_overage d)\<rparr>"

definition sync_metrics :: "metric_definition list \<Rightarrow> metric_row list \<Rightarrow> metric_row list" where
  "sync_metrics defs rows =
     map (\<lambda>m. case List.find (\<lambda>d. md_key d = mt_key m) defs of
                Some d \<Rightarrow> metric_of_definition d | None \<Rightarrow> m) rows
     @ map metric_of_definition (filter (\<lambda>d. md_key d \<notin> mt_key ` set rows) defs)"

definition values_for :: "catalog_defaults \<Rightarrow> int \<Rightarrow> plan_definition \<Rightarrow> plan_values" where
  "values_for defaults order d =
     \<lparr>plan_name = pd_name d, plan_description = pd_description d, plan_price_cents = pd_price_cents d,
      plan_currency = (case pd_currency d of Some c \<Rightarrow> c | None \<Rightarrow> cd_currency defaults),
      plan_interval = Some (case pd_interval d of Some i \<Rightarrow> i | None \<Rightarrow> cd_interval defaults),
      plan_is_public = pd_is_public d,
      plan_is_custom = (pd_is_custom d \<or> pd_custom_price d),
      plan_trial_days = (case pd_trial_days d of Some n \<Rightarrow> n | None \<Rightarrow> cd_trial_days defaults),
      plan_sort_order = (if pd_sort_order d \<noteq> 0 then pd_sort_order d else order),
      plan_archived_at = None\<rparr>"

text \<open>
  \<open>_sync_plan_features\<close>: a key listed twice in the definition is inserted twice, which the
  primary key rejects.
\<close>

definition sync_plan_features :: "string list \<Rightarrow> plan_feature list \<Rightarrow> error + plan_feature list" where
  "sync_plan_features feature_keys existing =
     (let new = filter (\<lambda>k. k \<notin> pf_feature_key ` set existing) feature_keys
      in if \<not> distinct new then Inl IntegrityError
         else Inr (filter (\<lambda>pf. pf_feature_key pf \<in> set feature_keys) existing
                   @ map (\<lambda>k. \<lparr>pf_feature_key = k, pf_enabled = True\<rparr>) new))"

definition limit_for :: "plan_catalog \<Rightarrow> string \<Rightarrow> string \<times> int option \<Rightarrow> plan_limit" where
  "limit_for c pkey lim =
     (let metric = fst lim;
          own = (case List.find (\<lambda>m. md_key m = metric) (pc_metrics c) of
                   Some m \<Rightarrow> md_soft_limit_ratio m | None \<Rightarrow> None);
          soft = (case own of Some r \<Rightarrow> Some r | None \<Rightarrow> cd_soft_limit_ratio (pc_defaults c));
          overage = (if catalog_plan c pkey \<noteq> None then overage_for c pkey metric else None)
      in \<lparr>pl_metric = metric, pl_limit_value = snd lim, pl_soft_limit_ratio = soft,
          pl_overage_unit = map_option ov_unit overage,
          pl_overage_price_cents = map_option ov_price_cents overage\<rparr>)"

definition sync_plan_limits ::
  "plan_catalog \<Rightarrow> string \<Rightarrow> (string \<times> int option) list \<Rightarrow> plan_limit list \<Rightarrow> plan_limit list" where
  "sync_plan_limits c pkey limits existing =
     map (\<lambda>pl. limit_for c pkey (pl_metric pl, the (map_of limits (pl_metric pl))))
       (filter (\<lambda>pl. pl_metric pl \<in> fst ` set limits) existing)
     @ map (limit_for c pkey)
         (filter (\<lambda>lim. fst lim \<notin> pl_metric ` set existing) limits)"

text \<open>One round of the loop over the catalog's plans; \<open>existing\<close> is what the tables held before it.\<close>

definition sync_plan ::
  "plan_catalog \<Rightarrow> plan list \<Rightarrow> int \<times> plan_definition
    \<Rightarrow> uuid \<times> plan list \<times> sync_result \<Rightarrow> error + (uuid \<times> plan list \<times> sync_result)" where
  "sync_plan c existing entry st =
     (let (order, d) = entry; (nid, plans, r) = st;
          vals = values_for (pc_defaults c) order d;
          (row, nid', plans', r') =
            (case first_row (\<lambda>p. plan_key p = pd_key d) existing of
               None \<Rightarrow>
                 (let row = \<lparr>plan_id = nid, plan_key = pd_key d, plan_vals = vals,
                             plan_provider_refs = [], plan_features = [], plan_limits = []\<rparr>
                  in (row, Suc nid, plans @ [row], r\<lparr>sr_plans_added := Suc (sr_plans_added r)\<rparr>))
             | Some p \<Rightarrow>
                 (p\<lparr>plan_vals := vals\<rparr>, nid, plans,
                  if plan_vals p = vals then r else r\<lparr>sr_plans_updated := Suc (sr_plans_updated r)\<rparr>))
      in bind_r (sync_plan_features (pd_features d) (plan_features row)) (\<lambda>fs.
           Inr (nid',
                update_where (\<lambda>p. plan_id p = plan_id row)
                  (\<lambda>p. row\<lparr>plan_features := fs,
                          plan_limits := sync_plan_limits c (pd_key d) (pd_limits d) (plan_limits row)\<rparr>)
                  plans', r')))"

definition archive_missing :: "datetime \<Rightarrow> string list \<Rightarrow> plan list \<Rightarrow> plan list \<Rightarrow> plan list" where
  "archive_missing now catalog_keys existing plans =
     update_where (\<lambda>p. plan_key p \<in> plan_key ` set existing \<and> plan_key p \<notin> set catalog_keys
                     \<and> plan_archived_at (plan_vals p) = None)
       (\<lambda>p. p\<lparr>plan_vals := (plan_vals p)\<lparr>plan_archived_at := Some now\<rparr>\<rparr>) plans"

definition sync_plans ::
  "datetime \<Rightarrow> plan_catalog \<Rightarrow> 'a catalog_db_scheme \<Rightarrow> error + (sync_result \<times> 'a catalog_db_scheme)" where
  "sync_plans now c s =
     (let features' = sync_features (pc_features c) (feature_rows s);
          metrics' = sync_metrics (pc_metrics c) (metric_rows s);
          r0 = \<lparr>sr_features_added = length features' - length (feature_rows s),
                sr_metrics_added = length metrics' - length (metric_rows s),
                sr_plans_added = 0, sr_plans_updated = 0, sr_plans_archived = 0\<rparr>;
          existing = plan_rows s;
          catalog_keys = map pd_key (pc_plans c)
      in bind_r (fold_r (sync_plan c existing) (map (\<lambda>(i, d). (int i, d)) (enumerate 0 (pc_plans c)))
                   (next_uuid s, existing, r0)) (\<lambda>(nid, plans, r).
           Inr (r\<lparr>sr_plans_archived := length (filter (\<lambda>p. plan_key p \<notin> set catalog_keys
                        \<and> plan_archived_at (plan_vals p) = None) existing)\<rparr>,
                s\<lparr>next_uuid := nid, feature_rows := features', metric_rows := metrics',
                  plan_rows := archive_missing now catalog_keys existing plans\<rparr>)))"

section \<open>What an accepted catalog satisfies\<close>

lemma sorted_set_empty [simp]: "sorted_set ks = [] \<longleftrightarrow> ks = []"
proof -
  have "set (sorted_set ks) = set ks" by (simp add: sorted_set_def)
  then show ?thesis by (metis set_empty)
qed

lemma distinct_count_list: "distinct ks \<longleftrightarrow> (\<forall>k\<in>set ks. count_list ks k \<le> 1)"
proof (induction ks)
  case Nil
  then show ?case by simp
next
  case (Cons a ks)
  have "count_list ks a = 0 \<longleftrightarrow> a \<notin> set ks" by (rule count_list_0_iff)
  with Cons show ?case by auto
qed

lemma duplicates_empty [simp]: "duplicates ks = [] \<longleftrightarrow> distinct ks"
  by (auto simp: duplicates_def distinct_count_list filter_empty_conv not_less)

lemma issue_unless_empty_Nil [simp]: "issue_unless_empty mk ks = [] \<longleftrightarrow> ks = []"
  by (simp add: issue_unless_empty_def)

lemma plan_issues_Nil:
  "plan_issues fks mks p = [] \<longleftrightarrow> set (pd_features p) \<subseteq> set fks \<and> fst ` set (pd_limits p) \<subseteq> set mks
     \<and> fst ` set (pd_overage p) \<subseteq> fst ` set (pd_limits p)
     \<and> (pd_is_public p \<longrightarrow> pd_price_cents p \<noteq> None)"
proof -
  have "filter (\<lambda>k. k \<notin> A) ks = [] \<longleftrightarrow> set ks \<subseteq> A" for A :: "string set" and ks
    by (auto simp: filter_empty_conv)
  then show ?thesis by (simp add: plan_issues_def)
qed

lemma cross_validate_Nil:
  "cross_validate c = [] \<longleftrightarrow>
     distinct (map fd_key (pc_features c)) \<and> distinct (map md_key (pc_metrics c))
     \<and> distinct (map pd_key (pc_plans c))
     \<and> (\<forall>p\<in>set (pc_plans c). set (pd_features p) \<subseteq> fd_key ` set (pc_features c)
          \<and> fst ` set (pd_limits p) \<subseteq> md_key ` set (pc_metrics c)
          \<and> fst ` set (pd_overage p) \<subseteq> fst ` set (pd_limits p)
          \<and> (pd_is_public p \<longrightarrow> pd_price_cents p \<noteq> None))"
  by (simp add: cross_validate_def Let_def plan_issues_Nil concat_eq_Nil_conv)

lemma load_catalog_Inr:
  "load_catalog file = Inr c \<longleftrightarrow> file = Document c \<and> fields_ok c \<and> cross_validate c = []"
  by (auto simp: load_catalog_def split: plans_file.splits if_splits)

section \<open>One plan\<close>

definition sync_row :: "plan_catalog \<Rightarrow> int \<Rightarrow> plan_definition \<Rightarrow> plan \<Rightarrow> error + plan" where
  "sync_row c order d p =
     bind_r (sync_plan_features (pd_features d) (plan_features p)) (\<lambda>fs.
       Inr (p\<lparr>plan_vals := values_for (pc_defaults c) order d, plan_features := fs,
              plan_limits := sync_plan_limits c (pd_key d) (pd_limits d) (plan_limits p)\<rparr>))"

lemma sync_plan_features_keys:
  assumes "sync_plan_features ks existing = Inr fs"
  shows "pf_feature_key ` set fs = set ks"
proof -
  have "fs = filter (\<lambda>pf. pf_feature_key pf \<in> set ks) existing
      @ map (\<lambda>k. \<lparr>pf_feature_key = k, pf_enabled = True\<rparr>)
          (filter (\<lambda>k. k \<notin> pf_feature_key ` set existing) ks)"
    using assms by (simp add: sync_plan_features_def Let_def split: if_splits)
  then show ?thesis by (force simp: image_Un image_image)
qed

lemma sync_plan_features_fix:
  assumes "sync_plan_features ks existing = Inr fs"
  shows "sync_plan_features ks fs = Inr fs"
proof -
  have keys: "pf_feature_key ` set fs = set ks" by (rule sync_plan_features_keys [OF assms])
  then have "filter (\<lambda>k. k \<notin> pf_feature_key ` set fs) ks = []" by (simp add: filter_empty_conv)
  moreover have "filter (\<lambda>pf. pf_feature_key pf \<in> set ks) fs = fs"
    using keys by (auto simp: filter_id_conv)
  ultimately show ?thesis by (simp add: sync_plan_features_def Let_def)
qed

lemma limit_for_metric [simp]: "pl_metric (limit_for c k lim) = fst lim"
  by (simp add: limit_for_def Let_def)

lemma sync_plan_limits_metrics:
  "pl_metric ` set (sync_plan_limits c k limits existing) = fst ` set limits"
  by (auto simp: sync_plan_limits_def image_Un image_image) force+

lemma sync_plan_limits_rows:
  assumes "distinct (map fst limits)" "pl \<in> set (sync_plan_limits c k limits existing)"
  shows "\<exists>v. (pl_metric pl, v) \<in> set limits \<and> map_of limits (pl_metric pl) = Some v
    \<and> pl = limit_for c k (pl_metric pl, v)"
proof -
  have known: "m \<in> fst ` set limits \<Longrightarrow> \<exists>v. map_of limits m = Some v \<and> (m, v) \<in> set limits" for m
    using assms(1) by force
  from assms(2) consider
      p where "p \<in> set existing" "pl_metric p \<in> fst ` set limits"
        "pl = limit_for c k (pl_metric p, the (map_of limits (pl_metric p)))"
    | lim where "lim \<in> set limits" "pl = limit_for c k lim"
    by (auto simp: sync_plan_limits_def)
  then show ?thesis
  proof cases
    case 1
    with known [OF 1(2)] show ?thesis by auto
  next
    case 2
    with assms(1) show ?thesis by (cases lim) auto
  qed
qed

lemma sync_plan_limits_fix:
  assumes "distinct (map fst limits)" and "pls = sync_plan_limits c k limits existing"
  shows "sync_plan_limits c k limits pls = pls"
proof -
  have metrics: "pl_metric ` set pls = fst ` set limits"
    unfolding assms(2) by (rule sync_plan_limits_metrics)
  then have "filter (\<lambda>pl. pl_metric pl \<in> fst ` set limits) pls = pls"
    by (auto simp: filter_id_conv)
  moreover have "filter (\<lambda>lim. fst lim \<notin> pl_metric ` set pls) limits = []"
    by (simp add: metrics filter_empty_conv)
  moreover have "limit_for c k (pl_metric pl, the (map_of limits (pl_metric pl))) = pl"
    if "pl \<in> set pls" for pl
    using sync_plan_limits_rows [OF assms(1), of pl c k existing] that assms(2) by auto
  ultimately show ?thesis by (simp add: sync_plan_limits_def map_idI)
qed

lemma sync_row_fix:
  assumes "sync_row c order d p = Inr p'" and "distinct (map fst (pd_limits d))"
  shows "sync_row c order d p' = Inr p'" and "plan_vals p' = values_for (pc_defaults c) order d"
    and "plan_id p' = plan_id p" and "plan_key p' = plan_key p"
    and "plan_provider_refs p' = plan_provider_refs p"
    and "pf_feature_key ` set (plan_features p') = set (pd_features d)"
    and "pl \<in> set (plan_limits p') \<longleftrightarrow>
      (\<exists>v. (pl_metric pl, v) \<in> set (pd_limits d) \<and> pl = limit_for c (pd_key d) (pl_metric pl, v))"
proof -
  from assms(1) obtain fs where fs: "sync_plan_features (pd_features d) (plan_features p) = Inr fs"
    and p': "p' = p\<lparr>plan_vals := values_for (pc_defaults c) order d, plan_features := fs,
              plan_limits := sync_plan_limits c (pd_key d) (pd_limits d) (plan_limits p)\<rparr>"
    by (auto simp: sync_row_def bind_r_eq_Inr)
  note fix_fs = sync_plan_features_fix [OF fs] sync_plan_features_keys [OF fs]
  note fix_ls = sync_plan_limits_fix [OF assms(2) refl, of c "pd_key d" "plan_limits p"]
  show "sync_row c order d p' = Inr p'" using fix_fs fix_ls by (simp add: p' sync_row_def)
  show "plan_vals p' = values_for (pc_defaults c) order d" "plan_id p' = plan_id p"
    "plan_key p' = plan_key p" "plan_provider_refs p' = plan_provider_refs p"
    "pf_feature_key ` set (plan_features p') = set (pd_features d)"
    using fix_fs by (simp_all add: p')
  show "pl \<in> set (plan_limits p') \<longleftrightarrow>
      (\<exists>v. (pl_metric pl, v) \<in> set (pd_limits d) \<and> pl = limit_for c (pd_key d) (pl_metric pl, v))"
  proof
    assume "pl \<in> set (plan_limits p')"
    then show "\<exists>v. (pl_metric pl, v) \<in> set (pd_limits d) \<and> pl = limit_for c (pd_key d) (pl_metric pl, v)"
      using sync_plan_limits_rows [OF assms(2), of pl c "pd_key d" "plan_limits p"] by (auto simp: p')
  next
    assume "\<exists>v. (pl_metric pl, v) \<in> set (pd_limits d) \<and> pl = limit_for c (pd_key d) (pl_metric pl, v)"
    then obtain v where v: "(pl_metric pl, v) \<in> set (pd_limits d)"
      "pl = limit_for c (pd_key d) (pl_metric pl, v)" by blast
    then have "pl_metric pl \<in> pl_metric ` set (plan_limits p')"
      by (force simp: p' sync_plan_limits_metrics)
    then obtain pl' where pl': "pl' \<in> set (plan_limits p')" "pl_metric pl' = pl_metric pl" by auto
    with sync_plan_limits_rows [OF assms(2), of pl'] v(1) assms(2)
    have "pl' = limit_for c (pd_key d) (pl_metric pl, v)" by (auto simp: p')
    with v(2) pl'(1) show "pl \<in> set (plan_limits p')" by simp
  qed
qed

section \<open>The whole synchronisation\<close>

definition new_plan :: "uuid \<Rightarrow> string \<Rightarrow> plan_values \<Rightarrow> plan" where
  "new_plan i k vals = \<lparr>plan_id = i, plan_key = k, plan_vals = vals, plan_provider_refs = [],
     plan_features = [], plan_limits = []\<rparr>"

lemma sync_plan_eq:
  "sync_plan c existing (order, d) (nid, plans, r) =
     (case first_row (\<lambda>p. plan_key p = pd_key d) existing of
        None \<Rightarrow>
          bind_r (sync_row c order d (new_plan nid (pd_key d) (values_for (pc_defaults c) order d)))
            (\<lambda>row. Inr (Suc nid,
               update_where (\<lambda>p. plan_id p = nid) (\<lambda>_. row)
                 (plans @ [new_plan nid (pd_key d) (values_for (pc_defaults c) order d)]),
               r\<lparr>sr_plans_added := Suc (sr_plans_added r)\<rparr>))
      | Some p \<Rightarrow>
          bind_r (sync_row c order d p)
            (\<lambda>row. Inr (nid, update_where (\<lambda>q. plan_id q = plan_id p) (\<lambda>_. row) plans,
               if plan_vals p = values_for (pc_defaults c) order d then r
               else r\<lparr>sr_plans_updated := Suc (sr_plans_updated r)\<rparr>)))"
  by (auto simp: sync_plan_def sync_row_def new_plan_def Let_def bind_r_def split: option.split sum.split)

text \<open>What holds after the entries \<open>pre\<close> of the catalog were handled.\<close>

definition sync_inv ::
  "plan_catalog \<Rightarrow> plan list \<Rightarrow> (int \<times> plan_definition) list \<Rightarrow> uuid \<times> plan list \<times> sync_result \<Rightarrow> bool"
where
  "sync_inv c existing pre st \<longleftrightarrow>
     (let (nid, plans, r) = st; done = pd_key ` snd ` set pre
      in distinct (map plan_id plans) \<and> distinct (map plan_key plans)
       \<and> (\<forall>p\<in>set plans. plan_id p < nid)
       \<and> {p \<in> set plans. plan_key p \<notin> done} = {p \<in> set existing. plan_key p \<notin> done}
       \<and> (\<forall>(order, d)\<in>set pre. \<exists>p\<in>set plans. plan_key p = pd_key d
            \<and> sync_row c order d p = Inr p \<and> plan_vals p = values_for (pc_defaults c) order d)
       \<and> plan_key ` set plans = plan_key ` set existing \<union> done
       \<and> (\<forall>p\<in>set existing. \<exists>q\<in>set plans. plan_id q = plan_id p \<and> plan_key q = plan_key p
            \<and> plan_provider_refs q = plan_provider_refs p))"

lemma sync_invD:
  assumes "sync_inv c existing pre (nid, plans, r)"
  shows "distinct (map plan_id plans)" "distinct (map plan_key plans)"
    and "\<forall>p\<in>set plans. plan_id p < nid"
    and "{p \<in> set plans. plan_key p \<notin> pd_key ` snd ` set pre}
      = {p \<in> set existing. plan_key p \<notin> pd_key ` snd ` set pre}"
    and "\<forall>(order, d)\<in>set pre. \<exists>p\<in>set plans. plan_key p = pd_key d
            \<and> sync_row c order d p = Inr p \<and> plan_vals p = values_for (pc_defaults c) order d"
    and "plan_key ` set plans = plan_key ` set existing \<union> pd_key ` snd ` set pre"
    and "\<forall>p\<in>set existing. \<exists>q\<in>set plans. plan_id q = plan_id p \<and> plan_key q = plan_key p
            \<and> plan_provider_refs q = plan_provider_refs p"
  using assms [unfolded sync_inv_def Let_def prod.case] by - (elim conjE, assumption)+

lemma sync_inv_step:
  assumes inv: "sync_inv c existing pre (nid, plans, r)"
    and existing: "distinct (map plan_key existing)"
    and new: "pd_key d \<notin> pd_key ` snd ` set pre" and limits: "distinct (map fst (pd_limits d))"
    and step: "sync_plan c existing (order, d) (nid, plans, r) = Inr st'"
  shows "sync_inv c existing (pre @ [(order, d)]) st'"
proof (cases "first_row (\<lambda>p. plan_key p = pd_key d) existing")
  case None
  let ?new = "new_plan nid (pd_key d) (values_for (pc_defaults c) order d)"
  from None step obtain row where row: "sync_row c order d ?new = Inr row"
    and st': "st' = (Suc nid, update_where (\<lambda>p. plan_id p = nid) (\<lambda>_. row) (plans @ [?new]),
       r\<lparr>sr_plans_added := Suc (sr_plans_added r)\<rparr>)"
    by (auto simp: sync_plan_eq bind_r_eq_Inr)
  note row_facts = sync_row_fix [OF row limits]
  have fresh: "\<forall>p\<in>set plans. plan_id p \<noteq> nid"
    using inv by (auto simp: sync_inv_def)
  then have "update_where (\<lambda>p. plan_id p = nid) (\<lambda>_. row) (plans @ [?new]) = plans @ [row]"
    by (auto simp: update_where_def new_plan_def intro: map_idI)
  moreover have "pd_key d \<notin> plan_key ` set existing" using None by (auto simp: first_row_None)
  ultimately show ?thesis
    using inv new row_facts fresh unfolding st' sync_inv_def Let_def prod.case
    by (auto simp: new_plan_def less_Suc_eq ball_Un image_Un)
next
  case (Some p)
  from Some step obtain row r' where row: "sync_row c order d p = Inr row"
    and st': "st' = (nid, update_where (\<lambda>q. plan_id q = plan_id p) (\<lambda>_. row) plans, r')"
    by (auto simp: sync_plan_eq bind_r_eq_Inr)
  note row_facts = sync_row_fix [OF row limits]
  from first_row_SomeD [OF Some] have p: "p \<in> set existing" "plan_key p = pd_key d" by auto
  let ?done = "pd_key ` snd ` set pre"
  have "{p \<in> set plans. plan_key p \<notin> ?done} = {p \<in> set existing. plan_key p \<notin> ?done}"
    using inv by (simp add: sync_inv_def Let_def)
  moreover have "p \<in> {p \<in> set existing. plan_key p \<notin> ?done}" using p new by simp
  ultimately have member: "p \<in> set plans" by blast
  have dist: "distinct (map plan_id plans)" "distinct (map plan_key plans)"
    using inv by (auto simp: sync_inv_def)
  let ?plans = "update_where (\<lambda>q. plan_id q = plan_id p) (\<lambda>_. row) plans"
  have set': "set ?plans = insert row (set plans - {p})" by (rule replace_row_set [OF dist(1) member])
  have maps: "map plan_id ?plans = map plan_id plans" "map plan_key ?plans = map plan_key plans"
    using replace_row_map [OF dist(1) member] row_facts(3,4) by metis+
  have same_key: "q \<in> set plans \<Longrightarrow> plan_key q = pd_key d \<Longrightarrow> q = p" for q
    using distinct_key_unique [OF dist(2) _ member] p(2) by auto
  have ex_key: "q \<in> set existing \<Longrightarrow> plan_key q = pd_key d \<Longrightarrow> q = p" for q
    using distinct_key_unique [OF existing _ p(1)] p(2) by auto
  have keys: "plan_key ` set ?plans = plan_key ` set plans"
    using maps(2) by (metis list.set_map)
  show ?thesis
    unfolding st' sync_inv_def Let_def prod.case
  proof (intro conjI)
    show "distinct (map plan_id ?plans)" "distinct (map plan_key ?plans)" using maps dist by simp_all
    show "\<forall>q\<in>set ?plans. plan_id q < nid"
      using inv member row_facts(3) by (auto simp: sync_inv_def set')
    show "{q \<in> set ?plans. plan_key q \<notin> pd_key ` snd ` set (pre @ [(order, d)])} =
        {q \<in> set existing. plan_key q \<notin> pd_key ` snd ` set (pre @ [(order, d)])}"
      using inv row_facts(4) p(2) by (auto simp: sync_inv_def set' set_eq_iff)
    show "\<forall>(order', d')\<in>set (pre @ [(order, d)]). \<exists>q\<in>set ?plans. plan_key q = pd_key d'
        \<and> sync_row c order' d' q = Inr q \<and> plan_vals q = values_for (pc_defaults c) order' d'"
    proof clarify
      fix order' d' assume "(order', d') \<in> set (pre @ [(order, d)])"
      then consider "(order', d') = (order, d)" | "(order', d') \<in> set pre" by auto
      then show "\<exists>q\<in>set ?plans. plan_key q = pd_key d'
        \<and> sync_row c order' d' q = Inr q \<and> plan_vals q = values_for (pc_defaults c) order' d'"
      proof cases
        case 1
        with row_facts(1,2,4) p(2) show ?thesis by (auto simp: set')
      next
        case 2
        then obtain q where q: "q \<in> set plans" "plan_key q = pd_key d'"
          "sync_row c order' d' q = Inr q" "plan_vals q = values_for (pc_defaults c) order' d'"
          using inv by (auto simp: sync_inv_def Let_def)
        have "plan_key q \<in> ?done" using 2 q(2) by force
        then have "q \<noteq> p" using p(2) new by metis
        with q show ?thesis by (auto simp: set')
      qed
    qed
    show "plan_key ` set ?plans = plan_key ` set existing \<union> pd_key ` snd ` set (pre @ [(order, d)])"
    proof -
      have "pd_key d \<in> plan_key ` set existing" using p by force
      then show ?thesis unfolding keys sync_invD(6) [OF inv] by auto
    qed
    show "\<forall>q\<in>set existing. \<exists>q'\<in>set ?plans. plan_id q' = plan_id q \<and> plan_key q' = plan_key q
        \<and> plan_provider_refs q' = plan_provider_refs q"
    proof
      fix q assume q: "q \<in> set existing"
      with inv obtain q' where q': "q' \<in> set plans" "plan_id q' = plan_id q" "plan_key q' = plan_key q"
        "plan_provider_refs q' = plan_provider_refs q" by (auto simp: sync_inv_def)
      show "\<exists>q'\<in>set ?plans. plan_id q' = plan_id q \<and> plan_key q' = plan_key q
        \<and> plan_provider_refs q' = plan_provider_refs q"
      proof (cases "q' = p")
        case True
        moreover have "row \<in> set ?plans" by (simp add: set')
        ultimately show ?thesis using q' row_facts(3-5) by (metis (no_types))
      next
        case False
        with q' show ?thesis by (intro bexI [of _ q']) (simp_all add: set')
      qed
    qed
  qed
qed


lemma sync_fold_inv:
  assumes fold: "fold_r (sync_plan c existing) entries (nid, existing, r) = Inr st"
    and "distinct (map plan_id existing)" "distinct (map plan_key existing)"
    and "\<forall>p\<in>set existing. plan_id p < nid"
    and keys: "distinct (map (pd_key \<circ> snd) entries)"
    and limits: "\<And>order d. (order, d) \<in> set entries \<Longrightarrow> distinct (map fst (pd_limits d))"
  shows "sync_inv c existing entries st"
proof (rule fold_r_prefix_invariant [where P = "sync_inv c existing", OF fold])
  show "sync_inv c existing [] (nid, existing, r)"
    using assms(2-4) by (auto simp: sync_inv_def)
next
  fix pre x st1 st2
  assume x: "x \<in> set entries" "\<exists>suf. entries = pre @ x # suf" and inv: "sync_inv c existing pre st1"
    and step: "sync_plan c existing x st1 = Inr st2"
  obtain order d where [simp]: "x = (order, d)" by (cases x)
  obtain supply1 plans1 r1 where [simp]: "st1 = (supply1, plans1, r1)" by (cases st1)
  have "pd_key d \<notin> pd_key ` snd ` set pre" using x(2) keys by force
  with sync_inv_step [of c existing pre supply1 plans1 r1 d order st2] inv step assms(3) limits x(1)
  show "sync_inv c existing (pre @ [x]) st2" by simp
qed

lemma fixed_plan_step:
  assumes "sync_row c order d p = Inr p" "plan_vals p = values_for (pc_defaults c) order d"
    and "p \<in> set existing" "plan_key p = pd_key d"
    and "distinct (map plan_key existing)" "distinct (map plan_id existing)"
  shows "sync_plan c existing (order, d) (nid, existing, r) = Inr (nid, existing, r)"
proof -
  have "first_row (\<lambda>q. plan_key q = pd_key d) existing = Some p"
    using distinct_key_find [OF assms(5,3,4)] .
  moreover have "update_where (\<lambda>q. plan_id q = plan_id p) (\<lambda>_. p) existing = existing"
    using distinct_key_unique [OF assms(6) _ assms(3)] by (intro update_where_same) auto
  ultimately show ?thesis using assms(1,2) by (simp add: sync_plan_eq)
qed

lemma fixed_plans_fold:
  assumes "\<And>order d. (order, d) \<in> set entries \<Longrightarrow> \<exists>p\<in>set existing. plan_key p = pd_key d
      \<and> sync_row c order d p = Inr p \<and> plan_vals p = values_for (pc_defaults c) order d"
    and "distinct (map plan_key existing)" "distinct (map plan_id existing)"
  shows "fold_r (sync_plan c existing) entries (nid, existing, r) = Inr (nid, existing, r)"
  using assms(1)
proof (induction entries)
  case Nil
  then show ?case by simp
next
  case (Cons x entries)
  obtain order d where [simp]: "x = (order, d)" by (cases x)
  from Cons.prems [of order d] obtain p where "p \<in> set existing" "plan_key p = pd_key d"
    "sync_row c order d p = Inr p" "plan_vals p = values_for (pc_defaults c) order d" by auto
  then have "sync_plan c existing x (nid, existing, r) = Inr (nid, existing, r)"
    using fixed_plan_step assms(2,3) by simp
  with Cons show ?case by simp
qed

abbreviation entries_of :: "plan_catalog \<Rightarrow> (int \<times> plan_definition) list" where
  "entries_of c \<equiv> map (\<lambda>(i, d). (int i, d)) (enumerate 0 (pc_plans c))"

lemma entries_of_snd: "map snd (entries_of c) = pc_plans c"
  by (simp add: comp_def case_prod_beta)

text \<open>What the tables look like after a synchronisation.\<close>

definition well_keyed :: "'a catalog_db_scheme \<Rightarrow> bool" where
  "well_keyed s = (distinct (map plan_id (plan_rows s)) \<and> distinct (map plan_key (plan_rows s))
     \<and> list_all (\<lambda>p. plan_id p < next_uuid s) (plan_rows s)
     \<and> distinct (map mt_key (metric_rows s)))"

definition synced :: "plan_catalog \<Rightarrow> 'a catalog_db_scheme \<Rightarrow> bool" where
  "synced c s \<longleftrightarrow>
     (\<forall>(order, d)\<in>set (entries_of c). \<exists>p\<in>set (plan_rows s). plan_key p = pd_key d
        \<and> sync_row c order d p = Inr p \<and> plan_vals p = values_for (pc_defaults c) order d)
     \<and> (\<forall>p\<in>set (plan_rows s). plan_key p \<notin> pd_key ` set (pc_plans c)
          \<longrightarrow> plan_archived_at (plan_vals p) \<noteq> None)
     \<and> fd_key ` set (pc_features c) \<subseteq> ft_key ` set (feature_rows s)
     \<and> (\<forall>d\<in>set (pc_metrics c). metric_of_definition d \<in> set (metric_rows s))"

lemma archive_missing_rows:
  "q \<in> set (archive_missing now ks existing plans) \<longleftrightarrow>
     (\<exists>p\<in>set plans. q = (if plan_key p \<in> plan_key ` set existing \<and> plan_key p \<notin> set ks
          \<and> plan_archived_at (plan_vals p) = None
        then p\<lparr>plan_vals := (plan_vals p)\<lparr>plan_archived_at := Some now\<rparr>\<rparr> else p))"
  unfolding archive_missing_def update_where_def set_map image_iff by blast

lemma archive_missing_archived:
  assumes q: "q \<in> set (archive_missing now ks existing plans)" and out: "plan_key q \<notin> set ks"
    and known: "plan_key ` set plans \<subseteq> plan_key ` set existing \<union> set ks"
  shows "plan_archived_at (plan_vals q) \<noteq> None"
proof -
  let ?C = "\<lambda>p. plan_key p \<in> plan_key ` set existing \<and> plan_key p \<notin> set ks
          \<and> plan_archived_at (plan_vals p) = None"
  from q obtain p where p: "p \<in> set plans"
    "q = (if ?C p then p\<lparr>plan_vals := (plan_vals p)\<lparr>plan_archived_at := Some now\<rparr>\<rparr> else p)"
    unfolding archive_missing_rows by (elim bexE)
  show ?thesis
  proof (cases "?C p")
    case True
    have "q = p\<lparr>plan_vals := (plan_vals p)\<lparr>plan_archived_at := Some now\<rparr>\<rparr>"
      by (rule trans [OF p(2) if_P [OF True]])
    then show ?thesis by simp
  next
    case False
    have "q = p" by (rule trans [OF p(2) if_not_P [OF False]])
    have "plan_key p \<in> plan_key ` set existing" "plan_key p \<notin> set ks"
      using imageI [OF p(1), of plan_key] known out \<open>q = p\<close> by auto
    with False \<open>q = p\<close> show ?thesis by simp
  qed
qed

lemma archive_missing_maps [simp]:
  "map plan_id (archive_missing now ks existing plans) = map plan_id plans"
  "map plan_key (archive_missing now ks existing plans) = map plan_key plans"
  by (simp_all add: archive_missing_def map_update_where)


text \<open>The state of a successful synchronisation, taken apart.\<close>

lemma sync_plansD:
  assumes run: "sync_plans now c s = Inr (r, s')"
    and ok: "fields_ok c" "cross_validate c = []" and keyed: "well_keyed s"
  obtains nid plans r' where
    "sync_inv c (plan_rows s) (entries_of c) (nid, plans, r')"
    and "plan_rows s' = archive_missing now (map pd_key (pc_plans c)) (plan_rows s) plans"
    and "feature_rows s' = sync_features (pc_features c) (feature_rows s)"
    and "metric_rows s' = sync_metrics (pc_metrics c) (metric_rows s)"
    and "next_uuid s' = nid" and "core_db.truncate s' = core_db.truncate (s\<lparr>next_uuid := nid\<rparr>)"
proof -
  from run obtain r0 nid plans r' where
    fold: "fold_r (sync_plan c (plan_rows s)) (entries_of c) (next_uuid s, plan_rows s, r0)
      = Inr (nid, plans, r')"
    and s': "s' = s\<lparr>next_uuid := nid, feature_rows := sync_features (pc_features c) (feature_rows s),
          metric_rows := sync_metrics (pc_metrics c) (metric_rows s),
          plan_rows := archive_missing now (map pd_key (pc_plans c)) (plan_rows s) plans\<rparr>"
    by (auto simp: sync_plans_def Let_def bind_r_eq_Inr split: prod.splits)
  have limits: "distinct (map fst (pd_limits d))" if "(i, d) \<in> set (entries_of c)" for i d
  proof -
    have "d \<in> set (map snd (entries_of c))" using that by force
    then have "d \<in> set (pc_plans c)" by (simp only: entries_of_snd)
    then show ?thesis using ok(1) by (auto simp: fields_ok_def list_all_iff plan_fields_ok_def)
  qed
  have "map (pd_key \<circ> snd) (entries_of c) = map pd_key (pc_plans c)"
    using entries_of_snd [of c] by (metis map_map)
  then have keys: "distinct (map (pd_key \<circ> snd) (entries_of c))"
    using ok(2) by (simp add: cross_validate_Nil)
  have "sync_inv c (plan_rows s) (entries_of c) (nid, plans, r')"
    using sync_fold_inv [OF fold _ _ _ keys limits] keyed by (simp add: well_keyed_def list_all_iff)
  then show thesis by (rule that) (simp_all add: s' core_db.defs)
qed


lemma sync_features_fix:
  "fd_key ` set defs \<subseteq> ft_key ` set rows \<Longrightarrow> sync_features defs rows = rows"
  by (auto simp: sync_features_def filter_empty_conv)

lemma sync_features_keys: "ft_key ` set (sync_features defs rows) = ft_key ` set rows \<union> fd_key ` set defs"
  by (force simp: sync_features_def image_Un image_image)

lemma metric_of_definition_key [simp]: "mt_key (metric_of_definition d) = md_key d"
  by (simp add: metric_of_definition_def)

lemma find_metric:
  "distinct (map md_key defs) \<Longrightarrow> d \<in> set defs \<Longrightarrow> List.find (\<lambda>d'. md_key d' = md_key d) defs = Some d"
  using distinct_key_find [of md_key defs d] by (simp add: first_row_def)

lemma sync_metrics_member:
  assumes "distinct (map md_key defs)" "d \<in> set defs"
  shows "metric_of_definition d \<in> set (sync_metrics defs rows)"
proof (cases "md_key d \<in> mt_key ` set rows")
  case True
  then obtain m where m: "m \<in> set rows" "mt_key m = md_key d" by auto
  then have "metric_of_definition d = (case List.find (\<lambda>d. md_key d = mt_key m) defs of
                Some d \<Rightarrow> metric_of_definition d | None \<Rightarrow> m)"
    using find_metric [OF assms] by simp
  with m(1) show ?thesis unfolding sync_metrics_def by (metis (no_types, lifting) Un_iff image_eqI list.set_map set_append)
next
  case False
  with assms(2) show ?thesis by (auto simp: sync_metrics_def)
qed

lemma sync_metrics_row:
  assumes "m \<in> set (sync_metrics defs rows)" "distinct (map md_key defs)"
    and "List.find (\<lambda>d. md_key d = mt_key m) defs = Some d"
  shows "m = metric_of_definition d"
proof -
  from assms(1) consider
      m0 where "m0 \<in> set rows" "m = (case List.find (\<lambda>d. md_key d = mt_key m0) defs of
                Some d \<Rightarrow> metric_of_definition d | None \<Rightarrow> m0)"
    | d0 where "d0 \<in> set defs" "m = metric_of_definition d0"
    by (auto simp: sync_metrics_def)
  then show ?thesis
  proof cases
    case 1
    show ?thesis
    proof (cases "List.find (\<lambda>d. md_key d = mt_key m0) defs")
      case None
      with 1 assms(3) show ?thesis by simp
    next
      case (Some d0)
      with 1 have "m = metric_of_definition d0" by simp
      moreover have "d0 \<in> set defs" using find_Some_member [OF Some] by simp
      ultimately show ?thesis using assms(3) find_metric [OF assms(2)] by simp
    qed
  next
    case 2
    with assms(3) find_metric [OF assms(2)] show ?thesis by simp
  qed
qed

lemma sync_metrics_fix:
  assumes "distinct (map md_key defs)"
  shows "sync_metrics defs (sync_metrics defs rows) = sync_metrics defs rows"
proof -
  let ?rows = "sync_metrics defs rows"
  have "filter (\<lambda>d. md_key d \<notin> mt_key ` set ?rows) defs = []"
    using sync_metrics_member [OF assms] by (force simp: filter_empty_conv image_iff)
  moreover have "(case List.find (\<lambda>d. md_key d = mt_key m) defs of
                Some d \<Rightarrow> metric_of_definition d | None \<Rightarrow> m) = m" if "m \<in> set ?rows" for m
    using sync_metrics_row [OF that assms] by (auto split: option.split)
  ultimately show ?thesis
    unfolding sync_metrics_def [of defs ?rows] by (simp add: map_idI)
qed

lemma sync_plans_synced:
  assumes run: "sync_plans now c s = Inr (r, s')"
    and ok: "fields_ok c" "cross_validate c = []" and keyed: "well_keyed s"
  shows "synced c s'" "distinct (map plan_id (plan_rows s'))" "distinct (map plan_key (plan_rows s'))"
    and "metric_rows s' = sync_metrics (pc_metrics c) (metric_rows s)"
    and "\<forall>p\<in>set (plan_rows s). \<exists>q\<in>set (plan_rows s'). plan_id q = plan_id p \<and> plan_key q = plan_key p
        \<and> plan_provider_refs q = plan_provider_refs p"
proof -
  from sync_plansD [OF run ok keyed] obtain nid plans r' where
    inv: "sync_inv c (plan_rows s) (entries_of c) (nid, plans, r')"
    and rows: "plan_rows s' = archive_missing now (map pd_key (pc_plans c)) (plan_rows s) plans"
    and features: "feature_rows s' = sync_features (pc_features c) (feature_rows s)"
    and metrics: "metric_rows s' = sync_metrics (pc_metrics c) (metric_rows s)" by blast
  have handled: "pd_key ` snd ` set (entries_of c) = pd_key ` set (pc_plans c)"
    using entries_of_snd [of c] by (metis list.set_map)
  show "distinct (map plan_id (plan_rows s'))" "distinct (map plan_key (plan_rows s'))"
    using inv by (simp_all add: rows sync_inv_def)
  show "metric_rows s' = sync_metrics (pc_metrics c) (metric_rows s)" by (rule metrics)
  let ?arch = "\<lambda>p. if plan_key p \<in> plan_key ` set (plan_rows s) \<and> plan_key p \<notin> set (map pd_key (pc_plans c))
          \<and> plan_archived_at (plan_vals p) = None
        then p\<lparr>plan_vals := (plan_vals p)\<lparr>plan_archived_at := Some now\<rparr>\<rparr> else p"
  have image: "p \<in> set plans \<Longrightarrow> ?arch p \<in> set (plan_rows s')" for p
    unfolding rows archive_missing_rows by blast
  show "\<forall>p\<in>set (plan_rows s). \<exists>q\<in>set (plan_rows s'). plan_id q = plan_id p \<and> plan_key q = plan_key p
        \<and> plan_provider_refs q = plan_provider_refs p"
  proof
    fix p assume "p \<in> set (plan_rows s)"
    with inv obtain q where "q \<in> set plans" "plan_id q = plan_id p" "plan_key q = plan_key p"
        "plan_provider_refs q = plan_provider_refs p" by (auto simp: sync_inv_def Let_def)
    with image [of q] show "\<exists>q\<in>set (plan_rows s'). plan_id q = plan_id p \<and> plan_key q = plan_key p
        \<and> plan_provider_refs q = plan_provider_refs p"
      by (intro bexI [of _ "?arch q"]) auto
  qed
  show "synced c s'"
    unfolding synced_def
  proof (intro conjI)
    show "\<forall>(order, d)\<in>set (entries_of c). \<exists>p\<in>set (plan_rows s'). plan_key p = pd_key d
        \<and> sync_row c order d p = Inr p \<and> plan_vals p = values_for (pc_defaults c) order d"
    proof clarify
      fix order d assume entry: "(order, d) \<in> set (entries_of c)"
      have "\<exists>p\<in>set plans. plan_key p = pd_key d
          \<and> sync_row c order d p = Inr p \<and> plan_vals p = values_for (pc_defaults c) order d"
        using bspec [OF sync_invD(5) [OF inv] entry] by (simp only: prod.case)
      then obtain p where p: "p \<in> set plans" "plan_key p = pd_key d"
        "sync_row c order d p = Inr p" "plan_vals p = values_for (pc_defaults c) order d" by blast
      have "pd_key d \<in> pd_key ` set (pc_plans c)" 
        using imageI [OF imageI [OF entry, of snd], of pd_key] by (simp only: handled snd_conv)
      with p image [of p] have "p \<in> set (plan_rows s')" by simp
      with p show "\<exists>p\<in>set (plan_rows s'). plan_key p = pd_key d
        \<and> sync_row c order d p = Inr p \<and> plan_vals p = values_for (pc_defaults c) order d" by blast
    qed
    have keys: "plan_key ` set plans = plan_key ` set (plan_rows s) \<union> pd_key ` set (pc_plans c)"
      using sync_invD(6) [OF inv] by (simp only: handled)
    show "\<forall>p\<in>set (plan_rows s'). plan_key p \<notin> pd_key ` set (pc_plans c)
          \<longrightarrow> plan_archived_at (plan_vals p) \<noteq> None"
      using archive_missing_archived [of _ now "map pd_key (pc_plans c)" "plan_rows s" plans] keys
      by (simp add: rows)
    show "fd_key ` set (pc_features c) \<subseteq> ft_key ` set (feature_rows s')"
      by (simp add: features sync_features_keys)
    show "\<forall>d\<in>set (pc_metrics c). metric_of_definition d \<in> set (metric_rows s')"
      using sync_metrics_member ok(2) by (auto simp: metrics cross_validate_Nil)
  qed
qed


lemma archive_missing_nothing:
  "(\<And>p. p \<in> set plans \<Longrightarrow> plan_key p \<notin> set ks \<Longrightarrow> plan_archived_at (plan_vals p) \<noteq> None)
   \<Longrightarrow> archive_missing now ks existing plans = plans"
  unfolding archive_missing_def by (rule update_where_none) blast

lemma sync_plans_of_synced:
  assumes "synced c s" "distinct (map plan_id (plan_rows s))" "distinct (map plan_key (plan_rows s))"
    and "metric_rows s = sync_metrics (pc_metrics c) rows" "distinct (map md_key (pc_metrics c))"
  shows "sync_plans now c s = Inr (\<lparr>sr_features_added = 0, sr_metrics_added = 0, sr_plans_added = 0,
     sr_plans_updated = 0, sr_plans_archived = 0\<rparr>, s)"
proof -
  have features: "sync_features (pc_features c) (feature_rows s) = feature_rows s"
    using assms(1) by (intro sync_features_fix) (simp add: synced_def)
  have metrics: "sync_metrics (pc_metrics c) (metric_rows s) = metric_rows s"
    unfolding assms(4) by (rule sync_metrics_fix [OF assms(5)])
  have fold: "fold_r (sync_plan c (plan_rows s)) (entries_of c) (nid, plan_rows s, r)
      = Inr (nid, plan_rows s, r)" for nid r
    by (rule fixed_plans_fold [OF _ assms(3,2)])
      (use assms(1) in \<open>unfold synced_def, fast\<close>)
  have none: "p \<in> set (plan_rows s) \<Longrightarrow> plan_key p \<notin> set (map pd_key (pc_plans c))
      \<Longrightarrow> plan_archived_at (plan_vals p) \<noteq> None" for p
    using assms(1) by (auto simp: synced_def)
  then have archived: "filter (\<lambda>p. plan_key p \<notin> set (map pd_key (pc_plans c))
      \<and> plan_archived_at (plan_vals p) = None) (plan_rows s) = []"
    unfolding filter_empty_conv by blast
  have unarchived: "archive_missing now (map pd_key (pc_plans c)) (plan_rows s) (plan_rows s) = plan_rows s"
    by (rule archive_missing_nothing) (rule none)
  show ?thesis
    unfolding sync_plans_def Let_def features metrics fold archived bind_r_simps prod.case unarchived
    by simp
qed


text \<open>A two-plan catalog and an empty database.\<close>

definition demo_catalog :: plan_catalog where
  "demo_catalog = \<lparr>
     pc_defaults = \<lparr>cd_currency = ''PHP'', cd_interval = Month, cd_trial_days = 0, cd_soft_limit_ratio = Some 80\<rparr>,
     pc_features = [\<lparr>fd_key = ''reports'', fd_name = ''Reports'', fd_category = None\<rparr>],
     pc_metrics = [\<lparr>md_key = ''api_calls'', md_name = ''API calls'', md_kind = Counter, md_unit = None,
        md_soft_limit_ratio = None, md_overage = Some \<lparr>ov_unit = 100, ov_price_cents = 50\<rparr>\<rparr>],
     pc_plans =
       [\<lparr>pd_key = ''free'', pd_name = ''Free'', pd_description = None, pd_price_cents = Some 0,
         pd_custom_price = False, pd_currency = None, pd_interval = None, pd_is_public = True,
         pd_is_custom = False, pd_trial_days = None, pd_sort_order = 0, pd_features = [],
         pd_limits = [(''api_calls'', Some 1000)], pd_overage = []\<rparr>,
        \<lparr>pd_key = ''pro'', pd_name = ''Pro'', pd_description = None, pd_price_cents = Some 9900,
         pd_custom_price = False, pd_currency = None, pd_interval = None, pd_is_public = True,
         pd_is_custom = False, pd_trial_days = Some 14, pd_sort_order = 0, pd_features = [''reports''],
         pd_limits = [(''api_calls'', None)], pd_overage = []\<rparr>]\<rparr>"

definition demo_catalog_db :: catalog_db where
  "demo_catalog_db = core_db.extend demo_key_request
     \<lparr>feature_rows = [], metric_rows = [], plan_rows = []\<rparr>"


lemmas sync_eval = sync_plans_def sync_features_def sync_metrics_def metric_of_definition_def
  values_for_def sync_plan_features_def sync_plan_limits_def limit_for_def sync_plan_def
  overage_for_def catalog_plan_def first_row_def update_where_def archive_missing_def Let_def
  demo_catalog_def demo_catalog_db_def demo_key_request_def catalog_db.defs core_db.defs

lemma demo_catalog_ok: "load_catalog (Document demo_catalog) = Inr demo_catalog"
  unfolding load_catalog_Inr cross_validate_Nil
  by (simp add: demo_catalog_def fields_ok_def plan_fields_ok_def metric_fields_ok_def key_ok_def
      key_char_def opt_all_def currency_ok_def ratio_ok_def overage_ok_def price_xor_def
      less_eq_char_def)

lemma demo_catalog_syncs: "\<exists>r s'. sync_plans 0 demo_catalog demo_catalog_db = Inr (r, s')"
  by (simp add: sync_eval)


definition repeated_feature_catalog :: plan_catalog where
  "repeated_feature_catalog = demo_catalog\<lparr>pc_plans :=
     map (\<lambda>p. if pd_key p = ''pro'' then p\<lparr>pd_features := [''reports'', ''reports'']\<rparr> else p)
       (pc_plans demo_catalog)\<rparr>"

text \<open>
  The catalog's validation does not look for a feature listed twice in one plan, and the
  synchronisation of such a catalog fails on the primary key of \<open>plan_features\<close>: the demo
  catalog with \<open>reports\<close> twice in \<open>pro\<close> is accepted and then raises.
\<close>

theorem repeated_feature_accepted_but_not_synced:
  "load_catalog (Document repeated_feature_catalog) = Inr repeated_feature_catalog
   \<and> sync_plans 0 repeated_feature_catalog demo_catalog_db = Inl IntegrityError"
proof
  show "load_catalog (Document repeated_feature_catalog) = Inr repeated_feature_catalog"
    unfolding load_catalog_Inr cross_validate_Nil
    by (simp add: repeated_feature_catalog_def demo_catalog_def fields_ok_def plan_fields_ok_def
        metric_fields_ok_def key_ok_def key_char_def opt_all_def currency_ok_def ratio_ok_def
        overage_ok_def price_xor_def less_eq_char_def)
  show "sync_plans 0 repeated_feature_catalog demo_catalog_db = Inl IntegrityError"
    by (simp add: repeated_feature_catalog_def sync_eval)
qed

end
