(* ===== verification/Subscriptions.thy ===== *)
theory Subscriptions
  imports Plans Status
begin

text \<open>
  The subscription service (\<open>subscriptions/service.py\<close>) over the subscriptions table of
  \<open>subscriptions/models.py\<close>. A flush sends the changed rows to the database, which rejects them
  when one of the two partial unique indexes is violated (\<open>flush_subscriptions\<close>). An operation
  reads the clock once, \<open>now\<close>.
\<close>

section \<open>State\<close>

record subscription =
  sub_id :: uuid
  sub_organization_id :: uuid
  sub_plan_id :: uuid
  sub_status :: sub_status
  sub_current_period_start :: datetime
  sub_current_period_end :: datetime
  sub_trial_ends_at :: "datetime option"
  sub_cancel_at_period_end :: bool
  sub_canceled_at :: "datetime option"
  sub_provider :: "string option"
  sub_provider_subscription_id :: "string option"
  sub_billing_customer_id :: "uuid option"
  sub_plan_snapshot :: json_object
  sub_pending_adjustments :: "json_object list"
  sub_created_at :: datetime

record sub_db = catalog_db +
  subscription_rows :: "subscription list"

definition occupying :: "subscription \<Rightarrow> bool" where
  "occupying r = (sub_status r \<in> set OCCUPYING_STATUSES)"

text \<open>\<open>uq_subscriptions_one_per_org\<close> and \<open>uq_subscriptions_provider_ref\<close>.\<close>

definition unique_subscriptions :: "subscription list \<Rightarrow> bool" where
  "unique_subscriptions rows =
     (distinct (map sub_organization_id (filter occupying rows))
      \<and> distinct (map (\<lambda>r. (sub_provider r, sub_provider_subscription_id r))
                    (filter (\<lambda>r. sub_provider r \<noteq> None \<and> sub_provider_subscription_id r \<noteq> None) rows)))"

definition flush_subscriptions :: "'a sub_db_scheme \<Rightarrow> error + 'a sub_db_scheme" where
  "flush_subscriptions s =
     (if unique_subscriptions (subscription_rows s) then Inr s else Inl IntegrityError)"

definition save_subscription :: "subscription \<Rightarrow> 'a sub_db_scheme \<Rightarrow> 'a sub_db_scheme" where
  "save_subscription r s =
     s\<lparr>subscription_rows := update_where (\<lambda>x. sub_id x = sub_id r) (\<lambda>_. r) (subscription_rows s)\<rparr>"

definition MONTH :: int where "MONTH = days 30"
definition YEAR :: int where "YEAR = days 365"

section \<open>Queries\<close>

definition current_for_org :: "uuid \<Rightarrow> 'a sub_db_scheme \<Rightarrow> subscription option" where
  "current_for_org org s =
     latest sub_created_at
       (rows_where (\<lambda>r. sub_organization_id r = org \<and> occupying r) (subscription_rows s))"

definition get_subscription_or_404 :: "uuid \<Rightarrow> 'a sub_db_scheme \<Rightarrow> error + subscription" where
  "get_subscription_or_404 i s =
     (case first_row (\<lambda>r. sub_id r = i) (subscription_rows s) of
        Some r \<Rightarrow> Inr r | None \<Rightarrow> raise_error SubscriptionNotFoundError)"

definition plan_by_key :: "string \<Rightarrow> bool \<Rightarrow> 'a catalog_db_scheme \<Rightarrow> error + plan" where
  "plan_by_key key include_archived s =
     bind_r (one_or_none MultipleResultsFound
               (\<lambda>p. plan_key p = key \<and> (include_archived \<or> plan_archived_at (plan_vals p) = None))
               (plan_rows s))
       (\<lambda>p. case p of None \<Rightarrow> raise_error PlanNotFoundError | Some p \<Rightarrow> Inr p)"

text \<open>The relationship \<open>subscription.plan\<close>: the foreign key makes the row exist.\<close>

definition plan_of :: "subscription \<Rightarrow> 'a catalog_db_scheme \<Rightarrow> error + plan" where
  "plan_of r s =
     (case first_row (\<lambda>p. plan_id p = sub_plan_id r) (plan_rows s) of
        Some p \<Rightarrow> Inr p | None \<Rightarrow> Inl NoResultFound)"

definition require_current :: "uuid \<Rightarrow> 'a sub_db_scheme \<Rightarrow> error + subscription" where
  "require_current org s =
     (case current_for_org org s of Some r \<Rightarrow> Inr r | None \<Rightarrow> raise_error SubscriptionNotFoundError)"

section \<open>Snapshots, events, cache\<close>

definition opt_json :: "('a \<Rightarrow> json) \<Rightarrow> 'a option \<Rightarrow> json" where
  "opt_json f v = (case v of None \<Rightarrow> JNull | Some x \<Rightarrow> f x)"

definition plan_snapshot :: "plan \<Rightarrow> json_object" where
  "plan_snapshot p =
     [(''key'', JStr (plan_key p)),
      (''name'', JStr (plan_name (plan_vals p))),
      (''price_cents'', opt_json JInt (plan_price_cents (plan_vals p))),
      (''currency'', JStr (plan_currency (plan_vals p))),
      (''interval'', opt_json (\<lambda>i. JStr (interval_name i)) (plan_interval (plan_vals p))),
      (''features'', JList (map (\<lambda>pf. JStr (pf_feature_key pf)) (filter pf_enabled (plan_features p)))),
      (''limits'', JObj (map (\<lambda>pl. (pl_metric pl, opt_json JInt (pl_limit_value pl))) (plan_limits p))),
      (''overage'', JObj (map (\<lambda>pl. (pl_metric pl,
          JObj [(''unit'', opt_json JInt (pl_overage_unit pl)),
                (''price_cents'', opt_json JInt (pl_overage_price_cents pl))]))
        (filter (\<lambda>pl. pl_overage_unit pl \<noteq> None \<and> pl_overage_price_cents pl \<noteq> None) (plan_limits p))))]"

definition dict_update :: "json_object \<Rightarrow> json_object \<Rightarrow> json_object" where
  "dict_update d extra = foldl (\<lambda>acc (k, v). dict_set k v acc) d extra"

definition emit_subscription ::
  "event_type \<Rightarrow> subscription \<Rightarrow> plan \<Rightarrow> json_object \<Rightarrow> 'a core_db_scheme \<Rightarrow> 'a core_db_scheme" where
  "emit_subscription ev r p extra s =
     append_outbox ev ''subscription'' (sub_id r)
       (dict_update
          [(''subscription_id'', JUuid (sub_id r)),
           (''organization_id'', JUuid (sub_organization_id r)),
           (''plan_key'', JStr (plan_key p)),
           (''status'', JStr (status_name (sub_status r)))] extra)
       (Some (sub_organization_id r)) s"

definition audit_subscription ::
  "event_type \<Rightarrow> uuid \<Rightarrow> uuid \<Rightarrow> json_object \<Rightarrow> 'a core_db_scheme \<Rightarrow> 'a core_db_scheme" where
  "audit_subscription ev org target diff s =
     audit_log_default ev (Some org) ''subscription'' target (Some diff) s"

text \<open>The service's own \<open>VersionedCache("entl")\<close>; the entitlement service has another object.\<close>

definition subscriptions_cache :: versioned_cache where
  "subscriptions_cache = \<lparr>vc_object = ''subscriptions'', vc_namespace = ''entl'',
     vc_ttl = DEFAULT_TTL_SECONDS\<rparr>"

text \<open>Invalidate now, and again after the commit.\<close>

definition bump_and_defer ::
  "datetime \<Rightarrow> versioned_cache \<Rightarrow> string \<Rightarrow> 'a core_db_scheme \<Rightarrow> 'a core_db_scheme" where
  "bump_and_defer now c key s =
     defer_bump_s c key
       (s\<lparr>cache_store := snd (bump (ttl_backend now) c (cache_store s) key)\<rparr>)"

definition bump_subscription_cache :: "datetime \<Rightarrow> uuid \<Rightarrow> 'a core_db_scheme \<Rightarrow> 'a core_db_scheme" where
  "bump_subscription_cache now org s = bump_and_defer now subscriptions_cache (nat_str org) s"

section \<open>Commands\<close>

definition interval_delta :: "plan \<Rightarrow> int" where
  "interval_delta p = (if plan_interval (plan_vals p) = Some Year then YEAR else MONTH)"

definition create_subscription ::
  "datetime \<Rightarrow> uuid \<Rightarrow> plan \<Rightarrow> sub_status \<Rightarrow> datetime option \<Rightarrow> datetime option \<Rightarrow> datetime option
    \<Rightarrow> string option \<Rightarrow> string option \<Rightarrow> uuid option
    \<Rightarrow> 'a sub_db_scheme \<Rightarrow> error + (subscription \<times> 'a sub_db_scheme)" where
  "create_subscription now org p status period_start period_end trial_ends provider
       provider_subscription_id billing_customer_id s =
     (let start = (case period_start of Some t \<Rightarrow> t | None \<Rightarrow> now);
          finish = (case period_end of Some t \<Rightarrow> t | None \<Rightarrow> start + interval_delta p);
          r = \<lparr>sub_id = next_uuid s, sub_organization_id = org, sub_plan_id = plan_id p,
               sub_status = status, sub_current_period_start = start, sub_current_period_end = finish,
               sub_trial_ends_at = trial_ends, sub_cancel_at_period_end = False,
               sub_canceled_at = None, sub_provider = provider,
               sub_provider_subscription_id = provider_subscription_id,
               sub_billing_customer_id = billing_customer_id, sub_plan_snapshot = plan_snapshot p,
               sub_pending_adjustments = [], sub_created_at = tx_now s\<rparr>;
          ev = (if status = Trialing then SUBSCRIPTION_TRIAL_STARTED else SUBSCRIPTION_ACTIVATED)
      in bind_r (flush_subscriptions
                   (s\<lparr>next_uuid := Suc (next_uuid s), subscription_rows := subscription_rows s @ [r]\<rparr>))
           (\<lambda>s1. Inr (r, bump_subscription_cache now org
                           (emit_subscription ev r p [(''organization_id'', JUuid org)] s1))))"

definition start_trial ::
  "datetime \<Rightarrow> uuid \<Rightarrow> string \<Rightarrow> int option \<Rightarrow> 'a sub_db_scheme
    \<Rightarrow> error + (subscription \<times> 'a sub_db_scheme)" where
  "start_trial now org key trial_days s =
     bind_r (plan_by_key key False s) (\<lambda>p.
     bind_r (guard_r (\<not> (plan_trial_days (plan_vals p) = 0 \<and> trial_days = None))
               (Domain TrialNotAllowedError [])) (\<lambda>_.
     (let existing = current_for_org org s
      in bind_r (guard_r (case existing of Some r \<Rightarrow> sub_status r \<noteq> Trialing | None \<Rightarrow> True)
                   (Domain TrialNotAllowedError [])) (\<lambda>_.
         let n = (case trial_days of Some d \<Rightarrow> d | None \<Rightarrow> plan_trial_days (plan_vals p));
             trial_end = now + days n
         in bind_r (case existing of
                      None \<Rightarrow> Inr s
                    | Some r \<Rightarrow>
                        bind_r (assert_transition (sub_status r) Canceled) (\<lambda>_.
                          Inr (save_subscription (r\<lparr>sub_status := Canceled, sub_canceled_at := Some now\<rparr>) s)))
              (\<lambda>s1.
            bind_r (create_subscription now org p Trialing (Some now) (Some trial_end) (Some trial_end)
                      None None None s1) (\<lambda>(r, s2).
            Inr (r, audit_subscription SUBSCRIPTION_TRIAL_STARTED org (sub_id r)
                      [(''plan'', JStr key), (''trial_days'', JInt n)] s2)))))))"

text \<open>\<open>str(existing.plan_snapshot.get("key"))\<close>: a missing key reads \<open>None\<close>.\<close>

definition json_str :: "json option \<Rightarrow> string" where
  "json_str v = (case v of Some (JStr t) \<Rightarrow> t | _ \<Rightarrow> ''None'')"

text \<open>The attributes \<open>change_plan\<close> assigns on the occupying row, in its order.\<close>

definition replan ::
  "datetime \<Rightarrow> plan \<Rightarrow> string option \<Rightarrow> string option \<Rightarrow> bool \<Rightarrow> subscription \<Rightarrow> subscription" where
  "replan now p provider provider_subscription_id keep_period e =
     (let e1 = e\<lparr>sub_status := (if sub_status e \<noteq> Active then Active else sub_status e),
                 sub_plan_id := plan_id p, sub_plan_snapshot := plan_snapshot p\<rparr>;
          period_is_live = (sub_status e1 = Active \<and> now < sub_current_period_end e1);
          e2 = (if \<not> (keep_period \<and> period_is_live)
                then e1\<lparr>sub_current_period_start := now,
                        sub_current_period_end := now + interval_delta p\<rparr>
                else e1)
      in e2\<lparr>sub_cancel_at_period_end := False, sub_canceled_at := None,
            sub_provider := (if provider \<noteq> None then provider else sub_provider e2),
            sub_provider_subscription_id :=
              (if provider_subscription_id \<noteq> None then provider_subscription_id
               else sub_provider_subscription_id e2)\<rparr>)"

definition change_plan ::
  "datetime \<Rightarrow> uuid \<Rightarrow> string \<Rightarrow> string option \<Rightarrow> string option \<Rightarrow> bool \<Rightarrow> 'a sub_db_scheme
    \<Rightarrow> error + (subscription \<times> 'a sub_db_scheme)" where
  "change_plan now org key provider provider_subscription_id keep_period s =
     bind_r (plan_by_key key False s) (\<lambda>p.
       case current_for_org org s of
         None \<Rightarrow> create_subscription now org p Active None None None provider
                   provider_subscription_id None s
       | Some e \<Rightarrow>
           (let from_key = map_of (sub_plan_snapshot e) ''key'';
                r = replan now p provider provider_subscription_id keep_period e
            in bind_r (flush_subscriptions (save_subscription r s)) (\<lambda>s1.
                 Inr (r, bump_subscription_cache now org
                   (audit_subscription SUBSCRIPTION_PLAN_CHANGED org (sub_id r)
                      [(''from'', case from_key of Some v \<Rightarrow> v | None \<Rightarrow> JNull), (''to'', JStr (plan_key p))]
                     (emit_subscription SUBSCRIPTION_PLAN_CHANGED r p
                        [(''from_plan'', JStr (json_str from_key)), (''to_plan'', JStr (plan_key p))] s1))))))"

definition cancel ::
  "datetime \<Rightarrow> uuid \<Rightarrow> bool \<Rightarrow> 'a sub_db_scheme \<Rightarrow> error + (subscription \<times> 'a sub_db_scheme)" where
  "cancel now org at_period_end s =
     bind_r (require_current org s) (\<lambda>r.
     bind_r (assert_transition (sub_status r) Canceled) (\<lambda>_.
     bind_r (plan_of r s) (\<lambda>p.
       let r' = (if at_period_end then r\<lparr>sub_cancel_at_period_end := True\<rparr>
                 else r\<lparr>sub_status := Canceled, sub_canceled_at := Some now\<rparr>)
       in Inr (r', bump_subscription_cache now org
                (audit_subscription SUBSCRIPTION_CANCELED org (sub_id r')
                   [(''at_period_end'', JBool at_period_end)]
                  (emit_subscription SUBSCRIPTION_CANCELED r' p [] (save_subscription r' s)))))))"

definition resume ::
  "datetime \<Rightarrow> uuid \<Rightarrow> 'a sub_db_scheme \<Rightarrow> error + (subscription \<times> 'a sub_db_scheme)" where
  "resume now org s =
     bind_r (require_current org s) (\<lambda>r.
       if sub_cancel_at_period_end r
       then bind_r (plan_of r s) (\<lambda>p.
              let r' = r\<lparr>sub_cancel_at_period_end := False\<rparr>
              in Inr (r', bump_subscription_cache now org
                       (emit_subscription SUBSCRIPTION_RESUMED r' p [] (save_subscription r' s))))
       else raise_error SubscriptionNotFoundError)"

definition apply_provider_transition ::
  "datetime \<Rightarrow> subscription \<Rightarrow> sub_status \<Rightarrow> datetime option \<Rightarrow> 'a sub_db_scheme
    \<Rightarrow> error + (subscription \<times> 'a sub_db_scheme)" where
  "apply_provider_transition now r target period_end s =
     bind_r (assert_transition (sub_status r) target) (\<lambda>_.
       let r' = r\<lparr>sub_status := target,
                 sub_current_period_end :=
                   (case period_end of Some t \<Rightarrow> t | None \<Rightarrow> sub_current_period_end r)\<rparr>
       in bind_r (flush_subscriptions (save_subscription r' s)) (\<lambda>s1.
            Inr (r', bump_subscription_cache now (sub_organization_id r') s1)))"

section \<open>What the helpers leave alone\<close>

lemma bump_and_defer_fields [simp]:
  "subscription_rows (bump_and_defer now c k s) = subscription_rows s"
  "plan_rows (bump_and_defer now c k s) = plan_rows s"
  "metric_rows (bump_and_defer now c k s) = metric_rows s"
  "next_uuid (bump_and_defer now c k s) = next_uuid s"
  "tx_now (bump_and_defer now c k s) = tx_now s"
  "outbox_events (bump_and_defer now c k s) = outbox_events s"
  "deferred_bumps (bump_and_defer now c k s) = defer_bump (deferred_bumps s) c k"
  by (simp_all add: bump_and_defer_def defer_bump_s_def)

lemma writers_keep_tables [simp]:
  "subscription_rows (append_outbox ev ty i p org s) = subscription_rows s"
  "plan_rows (append_outbox ev ty i p org s) = plan_rows s"
  "metric_rows (append_outbox ev ty i p org s) = metric_rows s"
  "subscription_rows (audit_log_as ev org a aty tt ti d s) = subscription_rows s"
  "plan_rows (audit_log_as ev org a aty tt ti d s) = plan_rows s"
  "metric_rows (audit_log_as ev org a aty tt ti d s) = metric_rows s"
  by (simp_all add: append_outbox_def audit_log_as_def split: prod.split)

lemma sub_writers_fields [simp]:
  "subscription_rows (emit_subscription ev r p x s) = subscription_rows s"
  "subscription_rows (audit_subscription ev org i d s) = subscription_rows s"
  "subscription_rows (bump_subscription_cache now org s) = subscription_rows s"
  "plan_rows (emit_subscription ev r p x s) = plan_rows s"
  "plan_rows (audit_subscription ev org i d s) = plan_rows s"
  "plan_rows (bump_subscription_cache now org s) = plan_rows s"
  "next_uuid (emit_subscription ev r p x s) = Suc (next_uuid s)"
  "next_uuid (audit_subscription ev org i d s) = Suc (next_uuid s)"
  "next_uuid (bump_subscription_cache now org s) = next_uuid s"
  "deferred_bumps (emit_subscription ev r p x s) = deferred_bumps s"
  "deferred_bumps (audit_subscription ev org i d s) = deferred_bumps s"
  "deferred_bumps (bump_subscription_cache now org s) =
     defer_bump (deferred_bumps s) subscriptions_cache (nat_str org)"
  by (simp_all add: emit_subscription_def audit_subscription_def bump_subscription_cache_def)

lemma sub_writers_cache [simp]:
  "cache_store (emit_subscription ev r p x s) = cache_store s"
  "cache_store (audit_subscription ev org i d s) = cache_store s"
  "cache_store (save_subscription r s) = cache_store s"
  "cache_store (bump_and_defer now c k s) = snd (bump (ttl_backend now) c (cache_store s) k)"
  "cache_store (bump_subscription_cache now org s)
     = snd (bump (ttl_backend now) subscriptions_cache (cache_store s) (nat_str org))"
  by (simp_all add: emit_subscription_def audit_subscription_def save_subscription_def
      bump_subscription_cache_def bump_and_defer_def)

lemma save_subscription_fields [simp]:
  "subscription_rows (save_subscription r s) = update_where (\<lambda>x. sub_id x = sub_id r) (\<lambda>_. r) (subscription_rows s)"
  "plan_rows (save_subscription r s) = plan_rows s"
  "next_uuid (save_subscription r s) = next_uuid s"
  "tx_now (save_subscription r s) = tx_now s"
  "deferred_bumps (save_subscription r s) = deferred_bumps s"
  by (simp_all add: save_subscription_def)

lemma flush_subscriptions_Inr [simp]:
  "flush_subscriptions s = Inr s' \<longleftrightarrow> unique_subscriptions (subscription_rows s) \<and> s' = s"
  by (auto simp: flush_subscriptions_def)

section \<open>The invariant of the table\<close>

definition sub_inv :: "'a sub_db_scheme \<Rightarrow> bool" where
  "sub_inv s = (unique_subscriptions (subscription_rows s)
     \<and> distinct (map sub_id (subscription_rows s))
     \<and> list_all (\<lambda>r. sub_id r < next_uuid s) (subscription_rows s))"

text \<open>The rows of the other organizations.\<close>

definition rows_of_others :: "uuid \<Rightarrow> 'a sub_db_scheme \<Rightarrow> subscription list" where
  "rows_of_others org s = filter (\<lambda>r. sub_organization_id r \<noteq> org) (subscription_rows s)"

lemma current_for_orgD:
  "current_for_org org s = Some r \<Longrightarrow>
     r \<in> set (subscription_rows s) \<and> sub_organization_id r = org \<and> occupying r"
  by (auto simp: current_for_org_def rows_where_def dest: latest_SomeD)

lemma current_for_org_unique:
  assumes "unique_subscriptions (subscription_rows s)" and "r \<in> set (subscription_rows s)"
    and "sub_organization_id r = org" "occupying r"
  shows "current_for_org org s = Some r"
proof -
  have "filter (\<lambda>x. sub_organization_id x = org) (filter occupying (subscription_rows s)) = [r]"
    using assms by (intro distinct_key_filter) (auto simp: unique_subscriptions_def)
  then show ?thesis by (simp add: current_for_org_def rows_where_def filter_filter conj_commute)
qed

lemma current_for_org_None:
  "current_for_org org s = None \<longleftrightarrow>
     (\<forall>r\<in>set (subscription_rows s). sub_organization_id r = org \<longrightarrow> \<not> occupying r)"
  by (auto simp: current_for_org_def rows_where_def filter_empty_conv)

lemma one_occupying_per_org:
  assumes "unique_subscriptions rows"
  shows "length (filter (\<lambda>r. sub_organization_id r = org \<and> occupying r) rows) \<le> 1"
proof (cases "\<exists>r\<in>set rows. sub_organization_id r = org \<and> occupying r")
  case True
  then obtain r where "r \<in> set rows" "sub_organization_id r = org" "occupying r" by blast
  with assms have "filter (\<lambda>x. sub_organization_id x = org) (filter occupying rows) = [r]"
    by (intro distinct_key_filter) (auto simp: unique_subscriptions_def)
  then show ?thesis by (simp add: conj_commute)
next
  case False
  then have "filter (\<lambda>r. sub_organization_id r = org \<and> occupying r) rows = []"
    by (simp add: filter_empty_conv)
  then show ?thesis by simp
qed

lemma others_update_where:
  assumes "distinct (map sub_id rows)" "e \<in> set rows" "sub_id r = sub_id e"
    and "sub_organization_id r = org" "sub_organization_id e = org"
  shows "filter (\<lambda>x. sub_organization_id x \<noteq> org) (update_where (\<lambda>x. sub_id x = sub_id r) (\<lambda>_. r) rows)
    = filter (\<lambda>x. sub_organization_id x \<noteq> org) rows"
  using assms
proof (induction rows)
  case Nil
  then show ?case by simp
next
  case (Cons a rows)
  show ?case
  proof (cases "e = a")
    case True
    with Cons.prems have "\<forall>x\<in>set rows. sub_id x \<noteq> sub_id r" by (auto simp: image_iff)
    then have "update_where (\<lambda>x. sub_id x = sub_id r) (\<lambda>_. r) rows = rows"
      by (simp add: update_where_none)
    with True Cons.prems show ?thesis by (simp add: update_where_def)
  next
    case False
    with Cons.prems have "e \<in> set rows" "sub_id a \<noteq> sub_id r" by force+
    with Cons show ?thesis by (simp add: update_where_def)
  qed
qed

text \<open>Saving a changed row of the organization keeps everything but the uniqueness of the indexes.\<close>

lemma save_subscription_inv:
  assumes "sub_inv s" "e \<in> set (subscription_rows s)" "sub_id r = sub_id e"
    and "sub_organization_id r = sub_organization_id e"
    and "unique_subscriptions (subscription_rows (save_subscription r s))"
  shows "sub_inv (save_subscription r s)"
    and "rows_of_others (sub_organization_id e) (save_subscription r s)
      = rows_of_others (sub_organization_id e) s"
    and "r \<in> set (subscription_rows (save_subscription r s))"
proof -
  have ids: "distinct (map sub_id (subscription_rows s))" using assms(1) by (simp add: sub_inv_def)
  have rows: "subscription_rows (save_subscription r s)
      = update_where (\<lambda>x. sub_id x = sub_id e) (\<lambda>_. r) (subscription_rows s)"
    by (simp add: assms(3))
  show "sub_inv (save_subscription r s)"
    using assms(1,2,3,5) replace_row_map [OF ids assms(2), of sub_id r]
      replace_row_set [OF ids assms(2), of r]
    unfolding sub_inv_def rows by (auto simp: list_all_iff)
  show "rows_of_others (sub_organization_id e) (save_subscription r s)
      = rows_of_others (sub_organization_id e) s"
    using others_update_where [OF ids assms(2,3)] assms(4) by (simp add: rows_of_others_def)
  show "r \<in> set (subscription_rows (save_subscription r s))"
    unfolding rows using replace_row_set [OF ids assms(2), of r] by simp
qed

text \<open>Fields that do not enter an index can be changed without asking the database.\<close>

lemma unique_subscriptions_update:
  assumes "unique_subscriptions rows" "distinct (map sub_id rows)" "e \<in> set rows" "sub_id r = sub_id e"
    and "sub_organization_id r = sub_organization_id e" "occupying r \<longrightarrow> occupying e"
    and "sub_provider r = sub_provider e" "sub_provider_subscription_id r = sub_provider_subscription_id e"
  shows "unique_subscriptions (update_where (\<lambda>x. sub_id x = sub_id r) (\<lambda>_. r) rows)"
proof -
  let ?f = "\<lambda>x. if sub_id x = sub_id r then r else x"
  have same: "x \<in> set rows \<Longrightarrow> sub_id x = sub_id r \<Longrightarrow> x = e" for x
    using distinct_key_unique [OF assms(2) _ assms(3)] assms(4) by auto
  have refs: "map (\<lambda>r. (sub_provider r, sub_provider_subscription_id r))
        (filter (\<lambda>r. sub_provider r \<noteq> None \<and> sub_provider_subscription_id r \<noteq> None) (map ?f xs))
      = map (\<lambda>r. (sub_provider r, sub_provider_subscription_id r))
        (filter (\<lambda>r. sub_provider r \<noteq> None \<and> sub_provider_subscription_id r \<noteq> None) xs)"
    if "set xs \<subseteq> set rows" for xs
    using that same assms(7,8) by (induction xs) auto
  have occ: "distinct (map sub_organization_id (filter occupying (map ?f xs)))
      \<and> set (map sub_organization_id (filter occupying (map ?f xs)))
        \<subseteq> set (map sub_organization_id (filter occupying xs))"
    if "set xs \<subseteq> set rows" "distinct (map sub_organization_id (filter occupying xs))" for xs
    using that
  proof (induction xs)
    case Nil
    then show ?case by simp
  next
    case (Cons x xs)
    then have IH: "distinct (map sub_organization_id (filter occupying (map ?f xs)))"
      "set (map sub_organization_id (filter occupying (map ?f xs)))
        \<subseteq> set (map sub_organization_id (filter occupying xs))" by (auto split: if_splits)
    have x: "x \<in> set rows" using Cons.prems by simp
    show ?case
    proof (cases "sub_id x = sub_id r")
      case True
      with x same have "x = e" by blast
      let ?L = "\<lambda>ys. map sub_organization_id (filter occupying ys)"
      have head: "?L (map ?f (x # xs)) =
          (if occupying r then [sub_organization_id r] else []) @ ?L (map ?f xs)"
        using True by simp
      have tail: "?L (x # xs) = (if occupying e then [sub_organization_id e] else []) @ ?L xs"
        by (simp add: \<open>x = e\<close>)
      have "occupying e \<Longrightarrow> sub_organization_id e \<notin> set (?L xs)"
        using Cons.prems(2) unfolding tail by simp
      then show ?thesis
        unfolding head tail using IH assms(5,6) by (auto simp del: set_map set_filter)
    next
      case False
      let ?L = "\<lambda>ys. map sub_organization_id (filter occupying ys)"
      have head: "?L (map ?f (x # xs)) =
          (if occupying x then [sub_organization_id x] else []) @ ?L (map ?f xs)"
        using False by simp
      have tail: "?L (x # xs) = (if occupying x then [sub_organization_id x] else []) @ ?L xs"
        by simp
      have "occupying x \<Longrightarrow> sub_organization_id x \<notin> set (?L xs)"
        using Cons.prems(2) unfolding tail by simp
      then show ?thesis
        unfolding head tail using IH by (auto simp del: set_map set_filter)
    qed
  qed
  show ?thesis
    using refs [of rows] occ [of rows] assms(1) by (simp add: unique_subscriptions_def update_where_def)
qed


section \<open>Each command\<close>

lemma create_subscription_effect:
  assumes "create_subscription now org p status ps pe te pr pi b s = Inr (r, s')" and "sub_inv s"
  shows "sub_inv s'" "rows_of_others org s' = rows_of_others org s" "r \<in> set (subscription_rows s')"
    and "sub_organization_id r = org" "sub_status r = status" "sub_plan_snapshot r = plan_snapshot p"
    and "sub_plan_id r = plan_id p"
    and "sub_current_period_start r = (case ps of Some t \<Rightarrow> t | None \<Rightarrow> now)"
    and "sub_current_period_end r
      = (case pe of Some t \<Rightarrow> t | None \<Rightarrow> sub_current_period_start r + interval_delta p)"
    and "sub_trial_ends_at r = te" "\<not> sub_cancel_at_period_end r"
    and "subscription_rows s' = subscription_rows s @ [r]"
    and "(subscriptions_cache, nat_str org) \<in> set (deferred_bumps s')"
    and "plan_rows s' = plan_rows s"
proof -
  from assms(1) have unique: "unique_subscriptions (subscription_rows s @ [r])"
    and r: "sub_id r = next_uuid s" "sub_organization_id r = org" "sub_status r = status"
      "sub_plan_snapshot r = plan_snapshot p" "sub_plan_id r = plan_id p"
      "sub_current_period_start r = (case ps of Some t \<Rightarrow> t | None \<Rightarrow> now)"
      "sub_current_period_end r
        = (case pe of Some t \<Rightarrow> t | None \<Rightarrow> sub_current_period_start r + interval_delta p)"
      "sub_trial_ends_at r = te" "\<not> sub_cancel_at_period_end r"
    and s': "subscription_rows s' = subscription_rows s @ [r]" "next_uuid s' = Suc (Suc (next_uuid s))"
      "(subscriptions_cache, nat_str org) \<in> set (deferred_bumps s')" "plan_rows s' = plan_rows s"
    by (auto simp: create_subscription_def bind_r_eq_Inr Let_def cong: option.case_cong)
  have "next_uuid s \<notin> sub_id ` set (subscription_rows s)"
    using assms(2) by (auto simp: sub_inv_def list_all_iff)
  with unique assms(2) r(1) show "sub_inv s'"
    by (auto simp: sub_inv_def s' list_all_iff intro: less_SucI)
  show "rows_of_others org s' = rows_of_others org s" using r(2) by (simp add: rows_of_others_def s')
  show "r \<in> set (subscription_rows s')" by (simp add: s')
qed (use assms in \<open>auto simp: create_subscription_def bind_r_eq_Inr Let_def cong: option.case_cong\<close>)

text \<open>A row of the table changed by a command: the effect on the invariant and on the others.\<close>

lemma saved_row:
  assumes "sub_inv s" "current_for_org org s = Some e" "sub_id r = sub_id e"
    and "sub_organization_id r = org"
    and "unique_subscriptions (subscription_rows (save_subscription r s))"
  shows "sub_inv (save_subscription r s)" "rows_of_others org (save_subscription r s) = rows_of_others org s"
    and "r \<in> set (subscription_rows (save_subscription r s))"
    and "occupying r \<Longrightarrow> current_for_org org (save_subscription r s) = Some r"
proof -
  from current_for_orgD [OF assms(2)] have e: "e \<in> set (subscription_rows s)" "sub_organization_id e = org"
    by auto
  note saved = save_subscription_inv [OF assms(1) e(1) assms(3) _ assms(5), unfolded e(2)]
  show "sub_inv (save_subscription r s)" "rows_of_others org (save_subscription r s) = rows_of_others org s"
    "r \<in> set (subscription_rows (save_subscription r s))" using saved assms(4) by auto
  then show "occupying r \<Longrightarrow> current_for_org org (save_subscription r s) = Some r"
    using assms(4,5) by (intro current_for_org_unique) auto
qed

lemma sub_inv_cong:
  "subscription_rows s' = subscription_rows s \<Longrightarrow> next_uuid s \<le> next_uuid s' \<Longrightarrow> sub_inv s \<Longrightarrow> sub_inv s'"
  by (auto simp: sub_inv_def list_all_iff)

lemma current_for_org_cong: "subscription_rows s' = subscription_rows s \<Longrightarrow> current_for_org org s' = current_for_org org s"
  by (simp add: current_for_org_def)

lemma rows_of_others_cong: "subscription_rows s' = subscription_rows s \<Longrightarrow> rows_of_others org s' = rows_of_others org s"
  by (simp add: rows_of_others_def)

text \<open>The row \<open>change_plan\<close> writes over the occupying one.\<close>

lemma replan_fields [simp]:
  "sub_id (replan now p provider ref keep e) = sub_id e"
  "sub_organization_id (replan now p provider ref keep e) = sub_organization_id e"
  "sub_status (replan now p provider ref keep e) = Active"
  "sub_plan_id (replan now p provider ref keep e) = plan_id p"
  "sub_plan_snapshot (replan now p provider ref keep e) = plan_snapshot p"
  "sub_cancel_at_period_end (replan now p provider ref keep e) = False"
  "sub_current_period_start (replan now p provider ref keep e) =
     (if keep \<and> now < sub_current_period_end e then sub_current_period_start e else now)"
  "sub_current_period_end (replan now p provider ref keep e) =
     (if keep \<and> now < sub_current_period_end e then sub_current_period_end e else now + interval_delta p)"
  "sub_pending_adjustments (replan now p provider ref keep e) = sub_pending_adjustments e"
  "sub_provider (replan now p provider ref keep e) = (if provider \<noteq> None then provider else sub_provider e)"
  "sub_provider_subscription_id (replan now p provider ref keep e) =
     (if ref \<noteq> None then ref else sub_provider_subscription_id e)"
  by (simp_all add: replan_def Let_def)

lemma replan_occupying [simp]: "occupying (replan now p provider ref keep e)"
  by (simp add: occupying_def OCCUPYING_STATUSES_def)

lemma change_plan_result:
  assumes "sub_inv s" and "change_plan now org key provider ref keep s = Inr (r, s')"
  shows "sub_inv s' \<and> current_for_org org s' = Some r \<and> sub_status r = Active
    \<and> \<not> sub_cancel_at_period_end r
    \<and> (\<exists>p. plan_by_key key False s = Inr p \<and> sub_plan_id r = plan_id p
         \<and> sub_plan_snapshot r = plan_snapshot p
         \<and> (case current_for_org org s of
              Some e \<Rightarrow>
                if keep \<and> now < sub_current_period_end e
                then sub_current_period_start r = sub_current_period_start e
                   \<and> sub_current_period_end r = sub_current_period_end e
                else sub_current_period_start r = now \<and> sub_current_period_end r = now + interval_delta p
            | None \<Rightarrow> sub_current_period_start r = now \<and> sub_current_period_end r = now + interval_delta p))
    \<and> rows_of_others org s' = rows_of_others org s
    \<and> (subscriptions_cache, nat_str org) \<in> set (deferred_bumps s')"
proof (cases "current_for_org org s")
  case None
  from None assms(2) obtain p where p: "plan_by_key key False s = Inr p"
    and created: "create_subscription now org p Active None None None provider ref None s = Inr (r, s')"
    by (auto simp: change_plan_def bind_r_eq_Inr)
  note effect = create_subscription_effect [OF created assms(1)]
  have "current_for_org org s' = Some r"
    using effect(1,3-5) by (intro current_for_org_unique) (auto simp: sub_inv_def occupying_def OCCUPYING_STATUSES_def)
  with effect p None show ?thesis by simp
next
  case (Some e)
  from assms(2) Some obtain p where
    p: "plan_by_key key False s = Inr p" and r: "r = replan now p provider ref keep e"
    and unique: "unique_subscriptions (subscription_rows (save_subscription r s))"
    and rows: "subscription_rows s' = subscription_rows (save_subscription r s)"
    and nxt: "next_uuid s \<le> next_uuid s'"
    and cache: "(subscriptions_cache, nat_str org) \<in> set (deferred_bumps s')"
    by (auto simp: change_plan_def bind_r_eq_Inr Let_def)
  have fields: "sub_id r = sub_id e" "sub_organization_id r = org" "occupying r"
    using current_for_orgD [OF Some] by (simp_all add: r)
  note saved = saved_row [OF assms(1) Some fields(1,2) unique]
  have "sub_inv s'" by (rule sub_inv_cong [OF rows _ saved(1)]) (simp add: nxt)
  moreover have "current_for_org org s' = Some r" "rows_of_others org s' = rows_of_others org s"
    using saved(2) saved(4) [OF fields(3)] current_for_org_cong [OF rows] rows_of_others_cong [OF rows] by simp_all
  ultimately show ?thesis using p cache Some by (simp add: r)
qed


lemma unique_subscriptions_append:
  assumes "unique_subscriptions rows"
    and "\<forall>x\<in>set rows. sub_organization_id x = sub_organization_id r \<longrightarrow> \<not> occupying x"
    and "sub_provider r = None \<or> sub_provider_subscription_id r = None"
  shows "unique_subscriptions (rows @ [r])"
  using assms by (auto simp: unique_subscriptions_def)

lemma start_trial_result:
  assumes "sub_inv s" and "plan_by_key key False s = Inr p"
    and "plan_trial_days (plan_vals p) \<noteq> 0 \<or> trial_days \<noteq> None"
    and "\<forall>e. current_for_org org s = Some e \<longrightarrow> sub_status e \<noteq> Trialing"
  shows "\<exists>r s'. start_trial now org key trial_days s = Inr (r, s')
    \<and> sub_inv s' \<and> current_for_org org s' = Some r \<and> sub_status r = Trialing
    \<and> sub_plan_id r = plan_id p \<and> sub_plan_snapshot r = plan_snapshot p
    \<and> sub_trial_ends_at r = Some (now + days (case trial_days of Some d \<Rightarrow> d | None \<Rightarrow> plan_trial_days (plan_vals p)))
    \<and> (\<forall>e. current_for_org org s = Some e \<longrightarrow>
         e\<lparr>sub_status := Canceled, sub_canceled_at := Some now\<rparr> \<in> set (subscription_rows s'))
    \<and> rows_of_others org s' = rows_of_others org s"
proof -
  let ?n = "case trial_days of Some d \<Rightarrow> d | None \<Rightarrow> plan_trial_days (plan_vals p)"
  let ?stop = "now + days ?n"
  let ?s1 = "case current_for_org org s of None \<Rightarrow> s
    | Some e \<Rightarrow> save_subscription (e\<lparr>sub_status := Canceled, sub_canceled_at := Some now\<rparr>) s"
  have ok: "assert_transition (sub_status e) Canceled = Inr ()" if "current_for_org org s = Some e" for e
    using that assms(4) current_for_orgD [OF that]
    by (cases "sub_status e") (auto simp: assert_transition_def can_transition_def occupying_def OCCUPYING_STATUSES_def)
  have s1: "sub_inv ?s1 \<and> rows_of_others org ?s1 = rows_of_others org s \<and> current_for_org org ?s1 = None
      \<and> plan_rows ?s1 = plan_rows s
      \<and> (\<forall>e. current_for_org org s = Some e \<longrightarrow>
           e\<lparr>sub_status := Canceled, sub_canceled_at := Some now\<rparr> \<in> set (subscription_rows ?s1))"
  proof (cases "current_for_org org s")
    case None
    with assms(1) show ?thesis by simp
  next
    case (Some e)
    let ?r = "e\<lparr>sub_status := Canceled, sub_canceled_at := Some now\<rparr>"
    note e = current_for_orgD [OF Some]
    have unique: "unique_subscriptions (subscription_rows (save_subscription ?r s))"
      using assms(1) e unique_subscriptions_update [of "subscription_rows s" e ?r]
      by (simp add: sub_inv_def occupying_def OCCUPYING_STATUSES_def)
    have "sub_id ?r = sub_id e" "sub_organization_id ?r = org" using e by simp_all
    note saved = saved_row [OF assms(1) Some this unique]
    have "current_for_org org (save_subscription ?r s) = None"
    proof (rule ccontr)
      assume "current_for_org org (save_subscription ?r s) \<noteq> None"
      then obtain x where x: "x \<in> set (subscription_rows (save_subscription ?r s))"
        "sub_organization_id x = org" "occupying x" by (auto dest: current_for_orgD)
      have "\<not> occupying ?r" by (simp add: occupying_def OCCUPYING_STATUSES_def)
      with x(1,3) have "x \<in> set (subscription_rows s)" "sub_id x \<noteq> sub_id e"
        by (auto simp: set_update_where)
      with x e current_for_org_unique [of s x org] assms(1) Some show False
        by (auto simp: sub_inv_def)
    qed
    with saved Some show ?thesis by simp
  qed
  let ?r = "\<lparr>sub_id = next_uuid ?s1, sub_organization_id = org, sub_plan_id = plan_id p,
       sub_status = Trialing, sub_current_period_start = now, sub_current_period_end = ?stop,
       sub_trial_ends_at = Some ?stop, sub_cancel_at_period_end = False, sub_canceled_at = None,
       sub_provider = None, sub_provider_subscription_id = None, sub_billing_customer_id = None,
       sub_plan_snapshot = plan_snapshot p, sub_pending_adjustments = [], sub_created_at = tx_now ?s1\<rparr>"
  have "unique_subscriptions (subscription_rows ?s1 @ [?r])"
    using s1 by (intro unique_subscriptions_append) (auto simp: sub_inv_def current_for_org_None)
  then obtain s2 where created: "create_subscription now org p Trialing (Some now) (Some ?stop) (Some ?stop)
      None None None ?s1 = Inr (?r, s2)"
    by (auto simp: create_subscription_def Let_def bind_r_eq_Inr)
  note effect = create_subscription_effect [OF created conjunct1 [OF s1]]
  let ?s3 = "audit_subscription SUBSCRIPTION_TRIAL_STARTED org (sub_id ?r)
     [(''plan'', JStr key), (''trial_days'', JInt ?n)] s2"
  have "start_trial now org key trial_days s = Inr (?r, ?s3)"
    using assms(2-4) ok created
    by (cases "current_for_org org s") (auto simp: start_trial_def Let_def)
  moreover have "sub_inv ?s3" by (rule sub_inv_cong [OF _ _ effect(1)]) simp_all
  moreover have "current_for_org org ?s3 = Some ?r"
    using effect(1,3) by (intro current_for_org_unique)
      (auto simp: sub_inv_def occupying_def OCCUPYING_STATUSES_def)
  moreover have "rows_of_others org ?s3 = rows_of_others org s"
    using effect(2) s1 by (simp add: rows_of_others_def)
  moreover have "\<forall>e. current_for_org org s = Some e \<longrightarrow>
      e\<lparr>sub_status := Canceled, sub_canceled_at := Some now\<rparr> \<in> set (subscription_rows ?s3)"
    using s1 effect(12) by simp
  ultimately show ?thesis by (intro exI [of _ ?r] exI [of _ ?s3]) simp
qed

text \<open>
  Starting a trial succeeds whenever the plan exists, allows one and none is running: the
  subscription the organization had is canceled at that time, the new one is the occupying
  one, trialing on the plan for the requested number of days, and nothing of other
  organizations changes.
\<close>

theorem start_trial_succeeds:
  assumes "sub_inv s" and "plan_by_key key False s = Inr p"
    and "plan_trial_days (plan_vals p) \<noteq> 0 \<or> trial_days \<noteq> None"
    and "\<forall>e. current_for_org org s = Some e \<longrightarrow> sub_status e \<noteq> Trialing"
  shows "\<exists>r s'. start_trial now org key trial_days s = Inr (r, s')
    \<and> sub_inv s' \<and> current_for_org org s' = Some r \<and> sub_status r = Trialing
    \<and> sub_plan_id r = plan_id p \<and> sub_plan_snapshot r = plan_snapshot p
    \<and> sub_trial_ends_at r = Some (now + days (case trial_days of Some d \<Rightarrow> d | None \<Rightarrow> plan_trial_days (plan_vals p)))
    \<and> (\<forall>e. current_for_org org s = Some e \<longrightarrow>
         e\<lparr>sub_status := Canceled, sub_canceled_at := Some now\<rparr> \<in> set (subscription_rows s'))
    \<and> rows_of_others org s' = rows_of_others org s"
  using assms by (rule start_trial_result)

text \<open>
  Scheduling a cancellation and resuming before it takes effect restores the subscriptions
  table exactly; after an immediate cancellation the organization has no occupying
  subscription and resuming is refused.
\<close>

theorem cancel_then_resume:
  assumes "sub_inv s" and "current_for_org org s = Some r" and "\<not> sub_cancel_at_period_end r"
    and "cancel now org at_period_end s = Inr (r1, s1)"
  shows "if at_period_end
    then \<exists>s2. resume later org s1 = Inr (r, s2) \<and> subscription_rows s2 = subscription_rows s
    else current_for_org org s1 = None \<and> resume later org s1 = raise_error SubscriptionNotFoundError"
proof -
  note e = current_for_orgD [OF assms(2)]
  let ?r1 = "if at_period_end then r\<lparr>sub_cancel_at_period_end := True\<rparr>
     else r\<lparr>sub_status := Canceled, sub_canceled_at := Some now\<rparr>"
  from assms(2,4) obtain p where p: "plan_of r s = Inr p" and r1: "r1 = ?r1"
    and rows: "subscription_rows s1 = subscription_rows (save_subscription ?r1 s)"
    and plans: "plan_rows s1 = plan_rows s"
    by (auto simp: cancel_def require_current_def bind_r_eq_Inr Let_def)
  have ids: "distinct (map sub_id (subscription_rows s))" using assms(1) by (simp add: sub_inv_def)
  have unique: "unique_subscriptions (subscription_rows (save_subscription ?r1 s))"
    using assms(1) e unique_subscriptions_update [of "subscription_rows s" r ?r1]
    by (cases at_period_end) (simp_all add: sub_inv_def occupying_def)
  have fields: "sub_id ?r1 = sub_id r" "sub_organization_id ?r1 = org" using e by simp_all
  note saved = saved_row [OF assms(1,2) fields unique]
  show ?thesis
  proof (cases at_period_end)
    case True
    then have "current_for_org org s1 = Some ?r1"
      using saved(4) e current_for_org_cong [OF rows] by (simp add: occupying_def)
    moreover have "plan_of ?r1 s1 = Inr p" using p True by (simp add: plan_of_def plans)
    ultimately obtain s2 where "resume later org s1 = Inr (?r1\<lparr>sub_cancel_at_period_end := False\<rparr>, s2)"
      and "subscription_rows s2 = subscription_rows
        (save_subscription (?r1\<lparr>sub_cancel_at_period_end := False\<rparr>) s1)"
      using True by (simp add: resume_def require_current_def Let_def)
    moreover have "?r1\<lparr>sub_cancel_at_period_end := False\<rparr> = r" using True assms(3) by simp
    moreover have "subscription_rows (save_subscription r s1) = subscription_rows s"
      using rows fields(1) e distinct_key_unique [OF ids]
      by (simp add: update_where_def map_idI)
    ultimately show ?thesis using True by auto
  next
    case False
    have "current_for_org org s1 = None"
    proof (rule ccontr)
      assume "current_for_org org s1 \<noteq> None"
      then obtain x where x: "x \<in> set (subscription_rows s1)" "sub_organization_id x = org" "occupying x"
        by (auto dest: current_for_orgD)
      then have "x \<in> set (subscription_rows s)" "sub_id x \<noteq> sub_id r"
        using False by (auto simp: rows set_update_where occupying_def OCCUPYING_STATUSES_def)
      with x e current_for_org_unique [of s x org] assms(1,2) show False by (auto simp: sub_inv_def)
    qed
    with False show ?thesis by (simp add: resume_def require_current_def)
  qed
qed

section \<open>Any sequence of commands\<close>

inductive sub_step :: "uuid \<Rightarrow> 'a sub_db_scheme \<Rightarrow> 'a sub_db_scheme \<Rightarrow> bool" where
  trial: "start_trial now org key n s = Inr (r, s') \<Longrightarrow> sub_step org s s'"
| change: "change_plan now org key provider ref keep s = Inr (r, s') \<Longrightarrow> sub_step org s s'"
| cancel: "cancel now org at_end s = Inr (r, s') \<Longrightarrow> sub_step org s s'"
| resume: "resume now org s = Inr (r, s') \<Longrightarrow> sub_step org s s'"
| provider: "e \<in> set (subscription_rows s) \<Longrightarrow> sub_organization_id e = org
    \<Longrightarrow> apply_provider_transition now e target pe s = Inr (r, s') \<Longrightarrow> sub_step org s s'"

lemma start_trial_inv:
  assumes "start_trial now org key n s = Inr (r, s')" "sub_inv s"
  shows "sub_inv s' \<and> rows_of_others org s' = rows_of_others org s"
proof -
  from assms(1) obtain p where p: "plan_by_key key False s = Inr p"
    and allowed: "plan_trial_days (plan_vals p) \<noteq> 0 \<or> n \<noteq> None"
    and "\<forall>e. current_for_org org s = Some e \<longrightarrow> sub_status e \<noteq> Trialing"
    by (auto simp: start_trial_def bind_r_eq_Inr Let_def split: option.splits)
  from start_trial_result [OF assms(2) this, of now] assms(1) show ?thesis by auto
qed

lemma cancel_resume_inv:
  assumes "current_for_org org s = Some e" "sub_inv s"
    and "subscription_rows s' = subscription_rows (save_subscription r s)" "next_uuid s \<le> next_uuid s'"
    and "sub_id r = sub_id e" "sub_organization_id r = sub_organization_id e"
    and "sub_provider r = sub_provider e" "sub_provider_subscription_id r = sub_provider_subscription_id e"
  shows "sub_inv s' \<and> rows_of_others org s' = rows_of_others org s"
proof -
  note e = current_for_orgD [OF assms(1)]
  have unique: "unique_subscriptions (subscription_rows (save_subscription r s))"
    using assms e unique_subscriptions_update [of "subscription_rows s" e r] by (simp add: sub_inv_def)
  have "sub_organization_id r = org" using e assms(6) by simp
  note saved = saved_row [OF assms(2,1,5) this unique]
  show ?thesis
    using sub_inv_cong [OF assms(3) _ saved(1)] saved(2) rows_of_others_cong [OF assms(3)] assms(4) by simp
qed

lemma sub_step_inv:
  assumes "sub_step org s s'" and "sub_inv s"
  shows "sub_inv s' \<and> rows_of_others org s' = rows_of_others org s"
  using assms
proof (induction rule: sub_step.induct)
  case (trial now org key n s r s')
  then show ?case using start_trial_inv by blast
next
  case (change now org key provider ref keep s r s')
  then show ?case using change_plan_result by blast
next
  case (cancel now org at_end s r s')
  from cancel.hyps obtain e where "current_for_org org s = Some e"
    and "subscription_rows s' = subscription_rows (save_subscription r s)" "next_uuid s \<le> next_uuid s'"
    and "sub_id r = sub_id e" "sub_organization_id r = sub_organization_id e"
    and "sub_provider r = sub_provider e" "sub_provider_subscription_id r = sub_provider_subscription_id e"
    by (auto simp: cancel_def require_current_def bind_r_eq_Inr Let_def split: option.splits)
  then show ?case using cancel_resume_inv cancel.prems by blast
next
  case (resume now org s r s')
  from resume.hyps obtain e where "current_for_org org s = Some e"
    and "subscription_rows s' = subscription_rows (save_subscription r s)" "next_uuid s \<le> next_uuid s'"
    and "sub_id r = sub_id e" "sub_organization_id r = sub_organization_id e"
    and "sub_provider r = sub_provider e" "sub_provider_subscription_id r = sub_provider_subscription_id e"
    by (auto simp: resume_def require_current_def bind_r_eq_Inr Let_def split: option.splits if_splits)
  then show ?case using cancel_resume_inv resume.prems by blast
next
  case (provider e s org now target pe r s')
  from provider.hyps(3) have r: "sub_id r = sub_id e" "sub_organization_id r = sub_organization_id e"
    and unique: "unique_subscriptions (subscription_rows (save_subscription r s))"
    and rows: "subscription_rows s' = subscription_rows (save_subscription r s)"
    and nxt: "next_uuid s \<le> next_uuid s'"
    by (auto simp: apply_provider_transition_def bind_r_eq_Inr Let_def)
  note saved = save_subscription_inv [OF provider.prems provider.hyps(1) r unique, unfolded provider.hyps(2)]
  show ?case
    using sub_inv_cong [OF rows _ saved(1)] saved(2) rows_of_others_cong [OF rows] nxt by simp
qed

definition sub_run :: "'a sub_db_scheme \<Rightarrow> 'a sub_db_scheme \<Rightarrow> bool" where
  "sub_run = (\<lambda>s s'. \<exists>org. sub_step org s s')\<^sup>*\<^sup>*"


section \<open>A concrete database\<close>

definition demo_plan :: "uuid \<Rightarrow> string \<Rightarrow> int \<Rightarrow> int \<Rightarrow> plan_feature list \<Rightarrow> plan_limit list \<Rightarrow> plan" where
  "demo_plan i key price trial features limits = \<lparr>plan_id = i, plan_key = key,
     plan_vals = \<lparr>plan_name = key, plan_description = None, plan_price_cents = Some price,
       plan_currency = ''PHP'', plan_interval = Some Month, plan_is_public = True, plan_is_custom = False,
       plan_trial_days = trial, plan_sort_order = 0, plan_archived_at = None\<rparr>,
     plan_provider_refs = [], plan_features = features, plan_limits = limits\<rparr>"

definition demo_subscription :: "uuid \<Rightarrow> uuid \<Rightarrow> plan \<Rightarrow> sub_status \<Rightarrow> subscription" where
  "demo_subscription i org p st = \<lparr>sub_id = i, sub_organization_id = org, sub_plan_id = plan_id p,
     sub_status = st, sub_current_period_start = 0, sub_current_period_end = days 14,
     sub_trial_ends_at = None, sub_cancel_at_period_end = False, sub_canceled_at = None,
     sub_provider = None, sub_provider_subscription_id = None, sub_billing_customer_id = None,
     sub_plan_snapshot = plan_snapshot p, sub_pending_adjustments = [], sub_created_at = 0\<rparr>"

definition demo_free :: plan where
  "demo_free = demo_plan 1 ''free'' 0 0 [] [\<lparr>pl_metric = ''api_calls'', pl_limit_value = Some 1000,
     pl_soft_limit_ratio = Some 80, pl_overage_unit = None, pl_overage_price_cents = None\<rparr>]"

definition demo_pro :: plan where
  "demo_pro = demo_plan 2 ''pro'' 9900 14 [\<lparr>pf_feature_key = ''reports'', pf_enabled = True\<rparr>]
     [\<lparr>pl_metric = ''api_calls'', pl_limit_value = Some 10000, pl_soft_limit_ratio = Some 80,
       pl_overage_unit = Some 100, pl_overage_price_cents = Some 50\<rparr>]"

definition demo_subs :: "subscription list \<Rightarrow> sub_db" where
  "demo_subs rows = catalog_db.extend (demo_catalog_db\<lparr>plan_rows := [demo_free, demo_pro],
       metric_rows := [\<lparr>mt_key = ''api_calls'', mt_name = ''API calls'', mt_kind = Counter, mt_unit = None,
         mt_overage_unit = None, mt_overage_price_cents = None\<rparr>]\<rparr>)
     \<lparr>subscription_rows = rows\<rparr>"

lemmas demo_sub_simps = demo_subs_def demo_plan_def demo_free_def demo_pro_def demo_subscription_def
  demo_catalog_db_def demo_key_request_def catalog_db.defs core_db.defs

lemma demo_subs_fields [simp]:
  "subscription_rows (demo_subs rows) = rows" "plan_rows (demo_subs rows) = [demo_free, demo_pro]"
  "next_uuid (demo_subs rows) = 9" "tx_now (demo_subs rows) = 0"
  by (simp_all add: demo_sub_simps)

lemma demo_plan_by_key:
  "plan_by_key ''pro'' False (demo_subs rows) = Inr demo_pro"
  "plan_by_key ''free'' False (demo_subs rows) = Inr demo_free"
  by (simp_all add: plan_by_key_def one_or_none_def demo_free_def demo_pro_def demo_plan_def)

lemma demo_current:
  "st \<in> set OCCUPYING_STATUSES \<Longrightarrow>
     current_for_org 1 (demo_subs [demo_subscription 5 1 p st]) = Some (demo_subscription 5 1 p st)
     \<and> sub_inv (demo_subs [demo_subscription 5 1 p st])"
  by (simp add: current_for_org_def rows_where_def occupying_def demo_subscription_def sub_inv_def
      unique_subscriptions_def)


theorem start_trial_succeeds_witness:
  "\<exists>r s'. start_trial 0 1 ''pro'' None (demo_subs [demo_subscription 5 1 demo_free Active]) = Inr (r, s')
     \<and> sub_status r = Trialing \<and> sub_trial_ends_at r = Some (days 14)"
proof -
  have "plan_trial_days (plan_vals demo_pro) = 14" by (simp add: demo_pro_def demo_plan_def)
  with start_trial_succeeds [of "demo_subs [demo_subscription 5 1 demo_free Active]" "''pro''" demo_pro None 1 0]
    demo_current [of Active demo_free]
  show ?thesis by (auto simp: demo_plan_by_key OCCUPYING_STATUSES_def demo_subscription_def)
qed

lemma demo_plan_of: "plan_of (demo_subscription i org demo_free st) (demo_subs rows) = Inr demo_free"
  by (simp add: plan_of_def first_row_def demo_subscription_def demo_free_def demo_plan_def)

theorem cancel_then_resume_witness:
  "\<exists>r1 s1 s2. cancel 0 1 True (demo_subs [demo_subscription 5 1 demo_free Active]) = Inr (r1, s1)
     \<and> resume 3 1 s1 = Inr (demo_subscription 5 1 demo_free Active, s2)
     \<and> subscription_rows s2 = [demo_subscription 5 1 demo_free Active]"
proof -
  let ?s = "demo_subs [demo_subscription 5 1 demo_free Active]"
  have now: "current_for_org 1 ?s = Some (demo_subscription 5 1 demo_free Active)" "sub_inv ?s"
    using demo_current [of Active demo_free] by (simp_all add: OCCUPYING_STATUSES_def)
  obtain r1 s1 where run: "cancel 0 1 True ?s = Inr (r1, s1)"
    using now demo_plan_of [of 5 1 Active]
    by (simp add: cancel_def require_current_def Let_def assert_transition_def can_transition_def
        demo_subscription_def)
  have "\<not> sub_cancel_at_period_end (demo_subscription 5 1 demo_free Active)"
    by (simp add: demo_subscription_def)
  from cancel_then_resume [OF now(2,1) this run, of 3] run show ?thesis by auto
qed


text \<open>
  The status is set to active before the code asks whether an active period is running, so
  \<open>keep_period=True\<close> also keeps the period of a trial or of a past-due subscription, although
  the documented rule is that those restart: a subscription trialing until day 14 that is
  changed to \<open>pro\<close> on day 10 becomes an active one whose paid period still ends on day 14.
\<close>

theorem keep_period_keeps_a_trial_period:
  "\<exists>r s'. change_plan (days 10) 1 ''pro'' None None True (demo_subs [demo_subscription 5 1 demo_free Trialing])
     = Inr (r, s') \<and> sub_status r = Active \<and> sub_current_period_start r = 0
     \<and> sub_current_period_end r = days 14"
  using demo_current [of Trialing demo_free]
  by (simp add: change_plan_def demo_plan_by_key Let_def update_where_def OCCUPYING_STATUSES_def
      unique_subscriptions_def flush_subscriptions_def demo_subscription_def days_def seconds_def)

end
