(* ===== verification/Resolver.thy ===== *)
theory Resolver
  imports Subscriptions
begin

text \<open>
  \<open>entitlements/resolver.py\<close>: the pure function from plan, grants and clock to the effective
  features and limits, with the source priorities of \<open>entitlements/models.py\<close>. A dictionary is
  an association list (\<open>dict_set\<close> keeps the keys distinct), a frozen set of the inputs a list.
\<close>

definition LIMIT_FEATURE_PREFIX :: string where "LIMIT_FEATURE_PREFIX = ''limit:''"
definition PLAN_SOURCE :: string where "PLAN_SOURCE = ''plan''"

definition ENTITLEMENT_SOURCES :: "string list" where
  "ENTITLEMENT_SOURCES =
     [''trial'', ''addon'', ''promo'', ''beta'', ''override'', ''enterprise'', ''grandfather'']"

definition SOURCE_PRIORITY :: "(string \<times> int) list" where
  "SOURCE_PRIORITY = [(''plan'', 0), (''addon'', 10), (''beta'', 20), (''promo'', 30),
     (''grandfather'', 40), (''override'', 50), (''enterprise'', 60)]"

definition source_priority :: "string \<Rightarrow> int" where
  "source_priority src = (case map_of SOURCE_PRIORITY src of Some p \<Rightarrow> p | None \<Rightarrow> 0)"

record grant =
  gr_feature_key :: string
  gr_source :: string
  gr_enabled :: bool
  gr_starts_at :: datetime
  gr_ends_at :: "datetime option"
  gr_revoked_at :: "datetime option"
  gr_limit_value :: "int option"

record limit =
  lim_value :: "int option"
  lim_soft_limit_ratio :: "double option"
  lim_overage :: "overage option"

record entitlement_inputs =
  in_organization_id :: uuid
  in_now :: datetime
  in_plan_key :: "string option"
  in_subscription_status :: "sub_status option"
  in_plan_features :: "string list"
  in_plan_limits :: "(string \<times> limit) list"
  in_grants :: "grant list"
  in_metric_overage :: "(string \<times> overage) list"
  in_grace_on_past_due :: bool

record effective_entitlements =
  ef_organization_id :: uuid
  ef_plan_key :: "string option"
  ef_subscription_status :: "sub_status option"
  ef_features :: "string set"
  ef_limits :: "(string \<times> limit) list"

definition has_feature :: "effective_entitlements \<Rightarrow> string \<Rightarrow> bool" where
  "has_feature e f = (f \<in> ef_features e)"

definition limit_of :: "effective_entitlements \<Rightarrow> string \<Rightarrow> limit option" where
  "limit_of e metric = map_of (ef_limits e) metric"

definition limit_value :: "effective_entitlements \<Rightarrow> string \<Rightarrow> int option" where
  "limit_value e metric = (case limit_of e metric of Some l \<Rightarrow> lim_value l | None \<Rightarrow> None)"

definition within_limit :: "effective_entitlements \<Rightarrow> string \<Rightarrow> int \<Rightarrow> bool" where
  "within_limit e metric used =
     (case limit_value e metric of None \<Rightarrow> True | Some v \<Rightarrow> used < v)"

definition grant_is_active :: "grant \<Rightarrow> datetime \<Rightarrow> bool" where
  "grant_is_active g now =
     (if gr_revoked_at g \<noteq> None then False
      else if now < gr_starts_at g then False
      else (case gr_ends_at g of None \<Rightarrow> True | Some e \<Rightarrow> now < e))"

definition starts_with :: "string \<Rightarrow> string \<Rightarrow> bool" where
  "starts_with p s = (take (length p) s = p)"

definition is_limit_grant :: "grant \<Rightarrow> bool" where
  "is_limit_grant g = starts_with LIMIT_FEATURE_PREFIX (gr_feature_key g)"

definition plan_active :: "entitlement_inputs \<Rightarrow> bool" where
  "plan_active i =
     (case in_subscription_status i of
        None \<Rightarrow> False
      | Some st \<Rightarrow> st \<in> {Trialing, Active} \<union> (if in_grace_on_past_due i then {Past_Due} else {}))"

text \<open>\<open>decision[feature] = (priority, enabled)\<close>\<close>

definition decide :: "(string \<times> int \<times> bool) list \<Rightarrow> grant \<Rightarrow> (string \<times> int \<times> bool) list" where
  "decide decisions g =
     (if is_limit_grant g then decisions
      else let priority = source_priority (gr_source g)
           in case map_of decisions (gr_feature_key g) of
                None \<Rightarrow> dict_set (gr_feature_key g) (priority, gr_enabled g) decisions
              | Some (p, _) \<Rightarrow>
                  if p < priority then dict_set (gr_feature_key g) (priority, gr_enabled g) decisions
                  else decisions)"

definition plan_decisions :: "entitlement_inputs \<Rightarrow> (string \<times> int \<times> bool) list" where
  "plan_decisions i =
     (if plan_active i
      then foldl (\<lambda>d f. dict_set f (source_priority PLAN_SOURCE, True) d) [] (in_plan_features i)
      else [])"

definition limit_metric :: "grant \<Rightarrow> string" where
  "limit_metric g = drop (length LIMIT_FEATURE_PREFIX) (gr_feature_key g)"

definition override_limit ::
  "(string \<times> overage) list \<Rightarrow> (string \<times> limit) list \<Rightarrow> grant \<Rightarrow> (string \<times> limit) list" where
  "override_limit metric_overage limits g =
     (if \<not> is_limit_grant g \<or> \<not> gr_enabled g then limits
      else let metric = limit_metric g;
               base = (case map_of limits metric of Some l \<Rightarrow> l
                       | None \<Rightarrow> \<lparr>lim_value = None, lim_soft_limit_ratio = None, lim_overage = None\<rparr>)
           in dict_set metric
                \<lparr>lim_value = (case gr_limit_value g of Some v \<Rightarrow> Some v | None \<Rightarrow> lim_value base),
                 lim_soft_limit_ratio = lim_soft_limit_ratio base,
                 lim_overage = (case lim_overage base of Some ov \<Rightarrow> Some ov
                                | None \<Rightarrow> map_of metric_overage metric)\<rparr> limits)"

definition resolve_effective :: "entitlement_inputs \<Rightarrow> effective_entitlements" where
  "resolve_effective i =
     (let active = filter (\<lambda>g. grant_is_active g (in_now i)) (in_grants i);
          decisions = foldl decide (plan_decisions i) active;
          limits = foldl (override_limit (in_metric_overage i))
                     (if plan_active i then in_plan_limits i else []) active
      in \<lparr>ef_organization_id = in_organization_id i, ef_plan_key = in_plan_key i,
          ef_subscription_status = in_subscription_status i,
          ef_features = fst ` set (filter (\<lambda>(f, p, enabled). enabled) decisions),
          ef_limits = limits\<rparr>)"

section \<open>Features: the strongest decision wins\<close>

text \<open>
  What may decide a feature, in order: the plan, then the active grants. \<open>latest fst\<close> of the
  candidates is the first of those with the highest priority.
\<close>

definition candidates :: "entitlement_inputs \<Rightarrow> string \<Rightarrow> (int \<times> bool) list" where
  "candidates i f =
     (if plan_active i \<and> f \<in> set (in_plan_features i) then [(0, True)] else [])
     @ map (\<lambda>g. (source_priority (gr_source g), gr_enabled g))
         (filter (\<lambda>g. gr_feature_key g = f \<and> grant_is_active g (in_now i)) (in_grants i))"

lemma latest_append1:
  "latest k (xs @ [x]) = (case latest k xs of None \<Rightarrow> Some x
     | Some b \<Rightarrow> Some (if k b < k x then x else b))"
  by (cases xs) (simp_all add: latest_def)

lemma map_of_decide:
  "\<not> is_limit_grant g \<Longrightarrow> map_of (decide d g) f =
     (if gr_feature_key g = f
      then case map_of d f of None \<Rightarrow> Some (source_priority (gr_source g), gr_enabled g)
           | Some b \<Rightarrow> Some (if fst b < source_priority (gr_source g)
                            then (source_priority (gr_source g), gr_enabled g) else b)
      else map_of d f)"
  by (auto simp: decide_def Let_def split: option.splits)

lemma map_of_decisions:
  assumes "\<not> starts_with LIMIT_FEATURE_PREFIX f"
  shows "map_of (foldl decide d gs) f =
    foldl (\<lambda>acc c. case acc of None \<Rightarrow> Some c | Some b \<Rightarrow> Some (if fst b < fst c then c else b))
      (map_of d f)
      (map (\<lambda>g. (source_priority (gr_source g), gr_enabled g)) (filter (\<lambda>g. gr_feature_key g = f) gs))"
proof (induction gs arbitrary: d)
  case Nil
  then show ?case by simp
next
  case (Cons g gs)
  show ?case
  proof (cases "gr_feature_key g = f")
    case True
    with assms have "\<not> is_limit_grant g" by (simp add: is_limit_grant_def)
    with Cons True show ?thesis by (simp add: map_of_decide split: option.split)
  next
    case False
    then have "map_of (decide d g) f = map_of d f"
      by (cases "is_limit_grant g") (simp_all add: map_of_decide, simp add: decide_def)
    with Cons False show ?thesis by simp
  qed
qed

lemma foldl_latest:
  "foldl (\<lambda>acc c. case acc of None \<Rightarrow> Some c | Some b \<Rightarrow> Some (if k b < k c then c else b)) (latest k xs) ys
    = latest k (xs @ ys)"
proof (induction ys arbitrary: xs)
  case Nil
  then show ?case by simp
next
  case (Cons y ys)
  from Cons [of "xs @ [y]"] show ?case by (simp add: latest_append1)
qed

lemma map_of_plan_decisions:
  "map_of (plan_decisions i) f =
     (if plan_active i \<and> f \<in> set (in_plan_features i) then Some (0, True) else None)"
proof -
  have "map_of (foldl (\<lambda>d f. dict_set f (source_priority PLAN_SOURCE, True) d) d fs) f =
      (if f \<in> set fs then Some (0, True) else map_of d f)" for d fs
    by (induction fs arbitrary: d) (auto simp: source_priority_def SOURCE_PRIORITY_def PLAN_SOURCE_def)
  then show ?thesis by (simp add: plan_decisions_def)
qed

lemma distinct_decisions:
  "distinct (map fst d) \<Longrightarrow> distinct (map fst (foldl decide d gs))"
proof (induction gs arbitrary: d)
  case Nil
  then show ?case by simp
next
  case (Cons g gs)
  have "distinct (map fst (decide d g))"
    using Cons.prems by (auto simp: decide_def Let_def distinct_dict_set split: option.split)
  with Cons.IH show ?case by simp
qed

lemma distinct_plan_decisions: "distinct (map fst (plan_decisions i))"
proof -
  have "distinct (map fst (foldl (\<lambda>d f. dict_set f (source_priority PLAN_SOURCE, True) d) d fs))"
    if "distinct (map fst d)" for d fs
    using that by (induction fs arbitrary: d) (simp_all add: distinct_dict_set)
  then have "distinct (map fst (foldl (\<lambda>d f. dict_set f (source_priority PLAN_SOURCE, True) d) []
      (in_plan_features i)))" by (metis distinct.simps(1) list.map(1))
  then show ?thesis by (simp only: plan_decisions_def split: if_split) simp
qed

text \<open>
  C1. A feature is in effect exactly when the strongest of the decisions about it enables it:
  the plan (priority 0, only while the subscription's status keeps the plan active) and the
  grants that are not revoked and inside their window, the first of equal priority winning. In
  particular a stronger grant with \<open>enabled=False\<close> removes a plan feature.
\<close>

theorem resolve_strongest_decision:
  assumes "\<not> starts_with LIMIT_FEATURE_PREFIX f"
  shows "has_feature (resolve_effective i) f \<longleftrightarrow> (\<exists>p. latest fst (candidates i f) = Some (p, True))"
proof -
  let ?active = "filter (\<lambda>g. grant_is_active g (in_now i)) (in_grants i)"
  let ?d = "foldl decide (plan_decisions i) ?active"
  have "f \<in> fst ` set (filter (\<lambda>(f, p, enabled). enabled) ?d) \<longleftrightarrow> (\<exists>p. map_of ?d f = Some (p, True))"
    using distinct_decisions [OF distinct_plan_decisions, of i ?active]
    by (force simp: map_of_eq_Some_iff)
  also have "map_of ?d f = latest fst (candidates i f)"
  proof -
    let ?plan = "if plan_active i \<and> f \<in> set (in_plan_features i) then [(0::int, True)] else []"
    have "map_of (plan_decisions i) f = latest fst ?plan"
      by (simp add: map_of_plan_decisions latest_def)
    then show ?thesis
      unfolding map_of_decisions [OF assms] candidates_def
      by (simp only: foldl_latest filter_filter conj_commute)
  qed
  finally show ?thesis by (simp add: has_feature_def resolve_effective_def Let_def)
qed

section \<open>Limits: the last grant with a value wins\<close>

definition limit_grants :: "entitlement_inputs \<Rightarrow> string \<Rightarrow> grant list" where
  "limit_grants i metric =
     filter (\<lambda>g. is_limit_grant g \<and> gr_enabled g \<and> limit_metric g = metric)
       (filter (\<lambda>g. grant_is_active g (in_now i)) (in_grants i))"

definition last_value :: "int option \<Rightarrow> grant list \<Rightarrow> int option" where
  "last_value base gs = (case rev (List.map_filter gr_limit_value gs) of v # _ \<Rightarrow> Some v | [] \<Rightarrow> base)"

definition plan_limit_of :: "entitlement_inputs \<Rightarrow> string \<Rightarrow> limit option" where
  "plan_limit_of i metric = (if plan_active i then map_of (in_plan_limits i) metric else None)"

definition merged_limit :: "(string \<times> overage) list \<Rightarrow> string \<Rightarrow> limit option \<Rightarrow> grant list \<Rightarrow> limit option" where
  "merged_limit metric_overage metric base gs =
     (if gs = [] then base
      else Some \<lparr>lim_value = last_value (case base of Some l \<Rightarrow> lim_value l | None \<Rightarrow> None) gs,
                 lim_soft_limit_ratio = (case base of Some l \<Rightarrow> lim_soft_limit_ratio l | None \<Rightarrow> None),
                 lim_overage = (case base of Some l \<Rightarrow>
                     (case lim_overage l of Some ov \<Rightarrow> Some ov | None \<Rightarrow> map_of metric_overage metric)
                   | None \<Rightarrow> map_of metric_overage metric)\<rparr>)"

lemma last_value_snoc:
  "last_value base (gs @ [g]) = (case gr_limit_value g of Some v \<Rightarrow> Some v | None \<Rightarrow> last_value base gs)"
  by (auto simp: last_value_def List.map_filter_def split: option.split)

lemma last_value_Nil [simp]: "last_value base [] = base"
  by (simp add: last_value_def List.map_filter_def)

lemma merged_limit_snoc:
  "merged_limit mo metric base (gs @ [g]) =
     (let b = (case merged_limit mo metric base gs of Some l \<Rightarrow> l
               | None \<Rightarrow> \<lparr>lim_value = None, lim_soft_limit_ratio = None, lim_overage = None\<rparr>)
      in Some \<lparr>lim_value = (case gr_limit_value g of Some v \<Rightarrow> Some v | None \<Rightarrow> lim_value b),
               lim_soft_limit_ratio = lim_soft_limit_ratio b,
               lim_overage = (case lim_overage b of Some ov \<Rightarrow> Some ov | None \<Rightarrow> map_of mo metric)\<rparr>)"
  by (auto simp: merged_limit_def last_value_snoc Let_def split: option.split)

lemma map_of_override_limit:
  "is_limit_grant g \<and> gr_enabled g \<and> limit_metric g = metric \<Longrightarrow>
   map_of (override_limit mo ls g) metric =
     (let b = (case map_of ls metric of Some l \<Rightarrow> l
               | None \<Rightarrow> \<lparr>lim_value = None, lim_soft_limit_ratio = None, lim_overage = None\<rparr>)
      in Some \<lparr>lim_value = (case gr_limit_value g of Some v \<Rightarrow> Some v | None \<Rightarrow> lim_value b),
               lim_soft_limit_ratio = lim_soft_limit_ratio b,
               lim_overage = (case lim_overage b of Some ov \<Rightarrow> Some ov | None \<Rightarrow> map_of mo metric)\<rparr>)"
  by (auto simp: override_limit_def Let_def)

lemma map_of_override_limits:
  "map_of (foldl (override_limit mo) limits gs) metric =
     merged_limit mo metric (map_of limits metric)
       (filter (\<lambda>g. is_limit_grant g \<and> gr_enabled g \<and> limit_metric g = metric) gs)"
proof (induction gs rule: rev_induct)
  case Nil
  then show ?case by (simp add: merged_limit_def)
next
  case (snoc g gs)
  show ?case
  proof (cases "is_limit_grant g \<and> gr_enabled g \<and> limit_metric g = metric")
    case True
    with snoc show ?thesis by (simp add: map_of_override_limit merged_limit_snoc)
  next
    case False
    then have "map_of (override_limit mo ls g) metric = map_of ls metric" for ls
      by (auto simp: override_limit_def Let_def)
    with snoc False show ?thesis by auto
  qed
qed

text \<open>
  A metric is limited exactly when the active plan limits it or an active enabled
  \<open>limit:\<close> grant names it. The cap is that of the last such grant that carries a value,
  whatever its source, and otherwise the plan's; the soft-limit ratio stays the plan's, and the
  overage price is the plan's or, where the plan has none and a grant applies, the metric's.
\<close>

theorem resolve_limit_merge:
  "limit_of (resolve_effective i) metric =
     merged_limit (in_metric_overage i) metric (plan_limit_of i metric) (limit_grants i metric)"
  by (simp add: limit_of_def resolve_effective_def Let_def map_of_override_limits limit_grants_def
      plan_limit_of_def)

text \<open>
  Without a subscription status neither the plan's features nor its limits apply, whatever
  plan the inputs name: every feature then comes from a grant and every metric no grant limits
  is unlimited. (The documented rule is that the default plan's features apply.)
\<close>

lemma no_status_no_plan:
  assumes "in_subscription_status i = None" and "in_grants i = []"
  shows "ef_features (resolve_effective i) = {} \<and> ef_limits (resolve_effective i) = []
    \<and> within_limit (resolve_effective i) metric used"
proof -
  have "\<not> plan_active i" using assms(1) by (simp add: plan_active_def)
  then show ?thesis
    using assms(2) by (simp add: resolve_effective_def plan_decisions_def within_limit_def
        limit_value_def limit_of_def)
qed

definition demo_inputs :: "sub_status option \<Rightarrow> grant list \<Rightarrow> entitlement_inputs" where
  "demo_inputs st gs = \<lparr>in_organization_id = 1, in_now = 100, in_plan_key = Some ''pro'',
     in_subscription_status = st, in_plan_features = [''reports''],
     in_plan_limits = [(''api_calls'', \<lparr>lim_value = Some 1000, lim_soft_limit_ratio = None, lim_overage = None\<rparr>)],
     in_grants = gs, in_metric_overage = [], in_grace_on_past_due = True\<rparr>"

definition demo_grant :: "string \<Rightarrow> string \<Rightarrow> bool \<Rightarrow> int option \<Rightarrow> grant" where
  "demo_grant f src enabled v = \<lparr>gr_feature_key = f, gr_source = src, gr_enabled = enabled,
     gr_starts_at = 0, gr_ends_at = None, gr_revoked_at = None, gr_limit_value = v\<rparr>"

theorem resolve_strongest_decision_witness:
  "\<not> has_feature (resolve_effective (demo_inputs (Some Active)
      [demo_grant ''reports'' ''addon'' True None, demo_grant ''reports'' ''override'' False None])) ''reports''"
  using resolve_strongest_decision [of "''reports''" "demo_inputs (Some Active)
      [demo_grant ''reports'' ''addon'' True None, demo_grant ''reports'' ''override'' False None]"]
  by (simp add: starts_with_def LIMIT_FEATURE_PREFIX_def candidates_def demo_inputs_def demo_grant_def
      plan_active_def grant_is_active_def source_priority_def SOURCE_PRIORITY_def latest_def)

lemma no_status_no_plan_witness:
  "ef_features (resolve_effective (demo_inputs None [])) = {}
   \<and> within_limit (resolve_effective (demo_inputs None [])) ''api_calls'' 5000"
  using no_status_no_plan [of "demo_inputs None []" "''api_calls''" 5000] by (simp add: demo_inputs_def)

end
