(* ===== verification/Entitlements.thy ===== *)
theory Entitlements
  imports Resolver
begin

text \<open>
  \<open>entitlements/service.py\<close> over the entitlements table of \<open>entitlements/models.py\<close>: resolution
  through the versioned cache, the cached text and its parser, grants and their revocation.
\<close>

section \<open>State\<close>

record entitlement =
  en_id :: uuid
  en_organization_id :: uuid
  en_feature_key :: string
  en_source :: string
  en_enabled :: bool
  en_starts_at :: datetime
  en_ends_at :: "datetime option"
  en_note :: "string option"
  en_limit_value :: "int option"
  en_created_by_user_id :: "uuid option"
  en_revoked_at :: "datetime option"

record ent_db = sub_db +
  entitlement_rows :: "entitlement list"

text \<open>The settings of \<open>core/config.py\<close> that the service reads.\<close>

record settings =
  default_plan_key :: string
  grace_on_past_due :: bool

definition entitlements_cache :: versioned_cache where
  "entitlements_cache = \<lparr>vc_object = ''entitlements'', vc_namespace = ''entl'', vc_ttl = 60\<rparr>"

section \<open>Computation\<close>

definition grant_of_row :: "entitlement \<Rightarrow> grant" where
  "grant_of_row r = \<lparr>gr_feature_key = en_feature_key r, gr_source = en_source r,
     gr_enabled = en_enabled r, gr_starts_at = en_starts_at r, gr_ends_at = en_ends_at r,
     gr_revoked_at = en_revoked_at r, gr_limit_value = en_limit_value r\<rparr>"

definition limit_of_row :: "plan_limit \<Rightarrow> limit" where
  "limit_of_row pl = \<lparr>lim_value = pl_limit_value pl,
     lim_soft_limit_ratio =
       (case pl_soft_limit_ratio pl of Some h \<Rightarrow> if h \<noteq> 0 then Some (double_of_hundredths h) else None
        | None \<Rightarrow> None),
     lim_overage =
       (case (pl_overage_unit pl, pl_overage_price_cents pl) of
          (Some u, Some c) \<Rightarrow> Some \<lparr>ov_unit = u, ov_price_cents = c\<rparr> | _ \<Rightarrow> None)\<rparr>"

definition metric_overages :: "metric_row list \<Rightarrow> (string \<times> overage) list" where
  "metric_overages rows =
     map (\<lambda>m. (mt_key m,
            \<lparr>ov_unit = (case mt_overage_unit m of Some u \<Rightarrow> if u \<noteq> 0 then u else 1 | None \<Rightarrow> 1),
             ov_price_cents = (case mt_overage_price_cents m of Some c \<Rightarrow> c | None \<Rightarrow> 0)\<rparr>))
       (filter (\<lambda>m. mt_overage_price_cents m \<noteq> None) rows)"

text \<open>The subscription's plan, or the default plan; an unknown default plan is no plan.\<close>

definition plan_for :: "settings \<Rightarrow> subscription option \<Rightarrow> 'a ent_db_scheme \<Rightarrow> error + plan option" where
  "plan_for cfg sub s =
     (case sub of
        Some r \<Rightarrow> bind_r (plan_of r s) (\<lambda>p. Inr (Some p))
      | None \<Rightarrow>
          (case plan_by_key (default_plan_key cfg) False s of
             Inr p \<Rightarrow> Inr (Some p)
           | Inl e \<Rightarrow> if is_error PlanNotFoundError e then Inr None else Inl e))"

definition inputs_for ::
  "settings \<Rightarrow> datetime \<Rightarrow> uuid \<Rightarrow> subscription option \<Rightarrow> plan option \<Rightarrow> 'a ent_db_scheme \<Rightarrow> entitlement_inputs"
where
  "inputs_for cfg now org sub p s =
     \<lparr>in_organization_id = org, in_now = now, in_plan_key = map_option plan_key p,
      in_subscription_status = map_option sub_status sub,
      in_plan_features = (case p of Some q \<Rightarrow> map pf_feature_key (plan_features q) | None \<Rightarrow> []),
      in_plan_limits =
        (case p of Some q \<Rightarrow> map (\<lambda>pl. (pl_metric pl, limit_of_row pl)) (plan_limits q) | None \<Rightarrow> []),
      in_grants = map grant_of_row
        (rows_where (\<lambda>r. en_organization_id r = org \<and> en_revoked_at r = None) (entitlement_rows s)),
      in_metric_overage = metric_overages (metric_rows s),
      in_grace_on_past_due = grace_on_past_due cfg\<rparr>"

definition compute ::
  "settings \<Rightarrow> datetime \<Rightarrow> uuid \<Rightarrow> 'a ent_db_scheme \<Rightarrow> error + effective_entitlements" where
  "compute cfg now org s =
     (let sub = current_for_org org s
      in bind_r (plan_for cfg sub s) (\<lambda>p. Inr (resolve_effective (inputs_for cfg now org sub p s))))"

section \<open>The cached text\<close>

definition limit_json :: "limit \<Rightarrow> json" where
  "limit_json l = JObj
     [(''value'', opt_json JInt (lim_value l)),
      (''soft_limit_ratio'', opt_json (\<lambda>(m, k). JFloat m k) (lim_soft_limit_ratio l)),
      (''overage'', opt_json (\<lambda>ov. JObj [(''unit'', JInt (ov_unit ov)), (''price_cents'', JInt (ov_price_cents ov))])
         (lim_overage l))]"

definition serialize :: "effective_entitlements \<Rightarrow> json" where
  "serialize e = JObj
     [(''organization_id'', JUuid (ef_organization_id e)),
      (''plan_key'', opt_json JStr (ef_plan_key e)),
      (''subscription_status'', opt_json (\<lambda>st. JStr (status_name st)) (ef_subscription_status e)),
      (''features'', JList (map JStr (sorted_list_of_set (ef_features e)))),
      (''limits'', JObj (map (\<lambda>(m, l). (m, limit_json l)) (ef_limits e)))]"

text \<open>A missing key or a value of the wrong type makes the parser fail: the body is recomputed.\<close>

definition parse_opt :: "(json \<Rightarrow> 'a option) \<Rightarrow> json \<Rightarrow> 'a option option" where
  "parse_opt f v = (if v = JNull then Some None else map_option Some (f v))"

primrec parse_all :: "('a \<Rightarrow> 'b option) \<Rightarrow> 'a list \<Rightarrow> 'b list option" where
  "parse_all f [] = Some []"
| "parse_all f (x # xs) =
     (case f x of None \<Rightarrow> None | Some y \<Rightarrow> map_option (\<lambda>ys. y # ys) (parse_all f xs))"

fun as_int :: "json \<Rightarrow> int option" where
  "as_int (JInt n) = Some n"
| "as_int _ = None"

fun as_str :: "json \<Rightarrow> string option" where
  "as_str (JStr t) = Some t"
| "as_str _ = None"

fun as_float :: "json \<Rightarrow> double option" where
  "as_float (JFloat m k) = Some (m, k)"
| "as_float _ = None"

fun as_obj :: "json \<Rightarrow> json_object option" where
  "as_obj (JObj d) = Some d"
| "as_obj _ = None"

fun as_list :: "json \<Rightarrow> json list option" where
  "as_list (JList xs) = Some xs"
| "as_list _ = None"

fun as_uuid :: "json \<Rightarrow> uuid option" where
  "as_uuid (JUuid i) = Some i"
| "as_uuid _ = None"

definition status_of_name :: "string \<Rightarrow> sub_status option" where
  "status_of_name t =
     List.find (\<lambda>st. status_name st = t) [Trialing, Active, Past_Due, Canceled, Incomplete, Unpaid]"

definition as_status :: "json \<Rightarrow> sub_status option" where
  "as_status v = Option.bind (as_str v) status_of_name"

definition parse_overage :: "json \<Rightarrow> overage option" where
  "parse_overage v =
     Option.bind (as_obj v) (\<lambda>d.
     Option.bind (Option.bind (map_of d ''unit'') as_int) (\<lambda>u.
     Option.bind (Option.bind (map_of d ''price_cents'') as_int) (\<lambda>c.
     Some \<lparr>ov_unit = u, ov_price_cents = c\<rparr>)))"

definition get_or_null :: "json_object \<Rightarrow> string \<Rightarrow> json" where
  "get_or_null d k = (case map_of d k of Some v \<Rightarrow> v | None \<Rightarrow> JNull)"

definition parse_limit :: "json \<Rightarrow> limit option" where
  "parse_limit v =
     Option.bind (as_obj v) (\<lambda>d.
     Option.bind (Option.bind (map_of d ''value'') (parse_opt as_int)) (\<lambda>value.
     Option.bind (parse_opt as_float (get_or_null d ''soft_limit_ratio'')) (\<lambda>ratio.
     Option.bind (parse_opt parse_overage (get_or_null d ''overage'')) (\<lambda>ov.
     Some \<lparr>lim_value = value, lim_soft_limit_ratio = ratio, lim_overage = ov\<rparr>))))"

definition deserialize :: "json \<Rightarrow> effective_entitlements option" where
  "deserialize v =
     Option.bind (as_obj v) (\<lambda>d.
     Option.bind (Option.bind (map_of d ''organization_id'') as_uuid) (\<lambda>org.
     Option.bind (Option.bind (map_of d ''plan_key'') (parse_opt as_str)) (\<lambda>key.
     Option.bind (Option.bind (map_of d ''subscription_status'') (parse_opt as_status)) (\<lambda>st.
     Option.bind (Option.bind (Option.bind (map_of d ''features'') as_list) (parse_all as_str)) (\<lambda>fs.
     Option.bind (Option.bind (Option.bind (map_of d ''limits'') as_obj)
        (parse_all (\<lambda>(m, l). map_option (Pair m) (parse_limit l)))) (\<lambda>limits.
     Some \<lparr>ef_organization_id = org, ef_plan_key = key, ef_subscription_status = st,
           ef_features = set fs, ef_limits = limits\<rparr>))))))"

section \<open>Resolution through the cache\<close>

definition effective_for_org ::
  "settings \<Rightarrow> datetime \<Rightarrow> uuid \<Rightarrow> 'a ent_db_scheme \<Rightarrow> error + (effective_entitlements \<times> 'a ent_db_scheme)"
where
  "effective_for_org cfg now org s =
     (let key = nat_str org;
          ((cached, version), store) = get_versioned (ttl_backend now) entitlements_cache (cache_store s) key;
          s1 = s\<lparr>cache_store := store\<rparr>
      in case Option.bind cached deserialize of
           Some e \<Rightarrow> Inr (e, s1)
         | None \<Rightarrow>
             bind_r (compute cfg now org s1) (\<lambda>e.
               Inr (e, s1\<lparr>cache_store := cache_set (ttl_backend now) entitlements_cache
                          (cache_store s1) key (serialize e) (Some version)\<rparr>)))"

definition invalidate :: "datetime \<Rightarrow> uuid \<Rightarrow> 'a core_db_scheme \<Rightarrow> 'a core_db_scheme" where
  "invalidate now org s = bump_and_defer now entitlements_cache (nat_str org) s"

definition plans_with_feature :: "string \<Rightarrow> 'a catalog_db_scheme \<Rightarrow> string list" where
  "plans_with_feature feature s =
     sorted_set (map plan_key (rows_where (\<lambda>p. \<exists>pf\<in>set (plan_features p).
       pf_feature_key pf = feature \<and> pf_enabled pf) (plan_rows s)))"

definition require_feature ::
  "settings \<Rightarrow> datetime \<Rightarrow> uuid \<Rightarrow> string \<Rightarrow> 'a ent_db_scheme
    \<Rightarrow> error + (effective_entitlements \<times> 'a ent_db_scheme)" where
  "require_feature cfg now org feature s =
     bind_r (effective_for_org cfg now org s) (\<lambda>(e, s1).
       if \<not> has_feature e feature
       then Inl (Domain FeatureNotEntitledError
         [(''feature'', JStr feature), (''current_plan'', opt_json JStr (ef_plan_key e)),
          (''available_in'', JList (map JStr (plans_with_feature feature s1))),
          (''upgrade_url'', JStr ''/dashboard/billing'')])
       else Inr (e, s1))"

section \<open>Grants\<close>

definition grant_entitlement ::
  "datetime \<Rightarrow> uuid \<Rightarrow> string \<Rightarrow> string \<Rightarrow> int option \<Rightarrow> bool \<Rightarrow> string option \<Rightarrow> int option
    \<Rightarrow> uuid option \<Rightarrow> 'a ent_db_scheme \<Rightarrow> error + (entitlement \<times> 'a ent_db_scheme)" where
  "grant_entitlement now org feature_key source duration_days enabled note limit_val created_by s =
     (let ends_at = (case duration_days of
                       Some n \<Rightarrow> if n \<noteq> 0 then Some (now + days n) else None | None \<Rightarrow> None);
          r = \<lparr>en_id = next_uuid s, en_organization_id = org, en_feature_key = feature_key,
               en_source = source, en_enabled = enabled, en_starts_at = now, en_ends_at = ends_at,
               en_note = note, en_limit_value = limit_val, en_created_by_user_id = created_by,
               en_revoked_at = None\<rparr>
      in bind_r (guard_r (source \<in> set ENTITLEMENT_SOURCES) IntegrityError) (\<lambda>_.
           let s1 = s\<lparr>next_uuid := Suc (next_uuid s), entitlement_rows := entitlement_rows s @ [r]\<rparr>;
               s2 = append_outbox ENTITLEMENT_GRANTED ''entitlement'' (en_id r)
                 [(''feature_key'', JStr feature_key), (''source'', JStr source),
                  (''ends_at'', opt_json JTime ends_at), (''limit_value'', opt_json JInt limit_val)]
                 (Some org) s1
           in Inr (r, invalidate now org s2)))"

definition get_entitlement :: "uuid \<Rightarrow> 'a ent_db_scheme \<Rightarrow> error + entitlement" where
  "get_entitlement i s =
     (case first_row (\<lambda>r. en_id r = i) (entitlement_rows s) of
        Some r \<Rightarrow> Inr r
      | None \<Rightarrow> Inl (Domain EntitlementNotFoundError [(''entitlement_id'', JUuid i)]))"

definition revoke_entitlement ::
  "datetime \<Rightarrow> uuid \<Rightarrow> 'a ent_db_scheme \<Rightarrow> error + (entitlement \<times> 'a ent_db_scheme)" where
  "revoke_entitlement now i s =
     (case first_row (\<lambda>r. en_id r = i) (entitlement_rows s) of
        None \<Rightarrow> raise_error EntitlementNotFoundError
      | Some r \<Rightarrow>
          let r' = r\<lparr>en_revoked_at := Some now\<rparr>;
              s1 = s\<lparr>entitlement_rows := update_where (\<lambda>x. en_id x = i) (\<lambda>_. r') (entitlement_rows s)\<rparr>;
              s2 = append_outbox ENTITLEMENT_REVOKED ''entitlement'' (en_id r')
                     [(''feature_key'', JStr (en_feature_key r'))] (Some (en_organization_id r')) s1
          in Inr (r', invalidate now (en_organization_id r') s2))"

definition invalidate_entitlements :: "datetime \<Rightarrow> uuid \<Rightarrow> 'a core_db_scheme \<Rightarrow> 'a core_db_scheme" where
  "invalidate_entitlements now org s =
     s\<lparr>cache_store := snd (bump (ttl_backend now) entitlements_cache (cache_store s) (nat_str org))\<rparr>"

section \<open>The cached text is read back as it was written\<close>

lemma parse_all_map: "(\<And>x. x \<in> set xs \<Longrightarrow> f (g x) = Some (h x)) \<Longrightarrow> parse_all f (map g xs) = Some (map h xs)"
  by (induction xs) auto

lemma status_of_name_inverse [simp]: "status_of_name (status_name st) = Some st"
  by (cases st) (simp_all add: status_of_name_def)

lemma parse_opt_json:
  "(\<And>x. f (g x) = Some x) \<Longrightarrow> (\<And>x. g x \<noteq> JNull) \<Longrightarrow> parse_opt f (opt_json g v) = Some v"
  by (auto simp: parse_opt_def opt_json_def split: option.split)

lemma parse_limit_json [simp]: "parse_limit (limit_json l) = Some l"
proof -
  have "parse_opt as_int (opt_json JInt v) = Some v" for v by (rule parse_opt_json) simp_all
  moreover have "parse_opt as_float (opt_json (\<lambda>(m, k). JFloat m k) v) = Some v" for v
    by (rule parse_opt_json) (auto split: prod.splits)
  moreover have "parse_opt parse_overage (opt_json (\<lambda>ov. JObj [(''unit'', JInt (ov_unit ov)),
      (''price_cents'', JInt (ov_price_cents ov))]) v) = Some v" for v
    by (rule parse_opt_json) (simp_all add: parse_overage_def)
  ultimately show ?thesis by (simp add: parse_limit_def limit_json_def get_or_null_def)
qed

lemma deserialize_serialize:
  assumes "finite (ef_features e)"
  shows "deserialize (serialize e) = Some e"
proof -
  have "parse_opt as_str (opt_json JStr v) = Some v" for v by (rule parse_opt_json) simp_all
  moreover have "parse_opt as_status (opt_json (\<lambda>st. JStr (status_name st)) v) = Some v" for v
    by (rule parse_opt_json) (simp_all add: as_status_def)
  moreover have "parse_all as_str (map JStr fs) = Some fs" for fs
    using parse_all_map [of fs as_str JStr "\<lambda>x. x"] by simp
  moreover have "parse_all (\<lambda>(m, l). map_option (Pair m) (parse_limit l)) (map (\<lambda>(m, l). (m, limit_json l)) ls)
      = Some ls" for ls :: "(string \<times> limit) list"
    using parse_all_map [of ls "\<lambda>(m, l). map_option (Pair m) (parse_limit l)" "\<lambda>(m, l). (m, limit_json l)" "\<lambda>x. x"]
    by auto
  ultimately show ?thesis using assms by (simp add: deserialize_def serialize_def)
qed

text \<open>
  What the cache holds for an organization is read back as exactly the entitlements that
  were stored: features, limits with their ratios and overage prices, plan and status.
\<close>

theorem cached_entitlements_round_trip:
  assumes "finite (ef_features e)"
  shows "deserialize (serialize e) = Some e"
  using assms by (rule deserialize_serialize)

theorem cached_entitlements_round_trip_witness:
  "deserialize (serialize (resolve_effective (demo_inputs (Some Active) [])))
     = Some (resolve_effective (demo_inputs (Some Active) []))"
  by (rule cached_entitlements_round_trip) (simp add: resolve_effective_def Let_def)

section \<open>Changes take effect at once\<close>

lemma cache_update_reads [simp]:
  "current_for_org org (s\<lparr>cache_store := st\<rparr>) = current_for_org org s"
  "plan_of r (s\<lparr>cache_store := st\<rparr>) = plan_of r s"
  "plan_by_key k a (s\<lparr>cache_store := st\<rparr>) = plan_by_key k a s"
  "plan_for cfg sub (s\<lparr>cache_store := st\<rparr>) = plan_for cfg sub s"
  "inputs_for cfg now org sub p (s\<lparr>cache_store := st\<rparr>) = inputs_for cfg now org sub p s"
proof -
  show "current_for_org org (s\<lparr>cache_store := st\<rparr>) = current_for_org org s"
    by (simp add: current_for_org_def)
  show plan_of: "plan_of r (s\<lparr>cache_store := st\<rparr>) = plan_of r s" for r by (simp add: plan_of_def)
  show plan_by_key: "plan_by_key k a (s\<lparr>cache_store := st\<rparr>) = plan_by_key k a s" for k a
    by (simp add: plan_by_key_def)
  show "plan_for cfg sub (s\<lparr>cache_store := st\<rparr>) = plan_for cfg sub s"
    by (cases sub) (simp_all add: plan_for_def plan_of_def plan_by_key_def)
  show "inputs_for cfg now org sub p (s\<lparr>cache_store := st\<rparr>) = inputs_for cfg now org sub p s"
    by (simp add: inputs_for_def)
qed

lemma compute_cache [simp]: "compute cfg now org (s\<lparr>cache_store := st\<rparr>) = compute cfg now org s"
  by (simp add: compute_def)

text \<open>A second resolution at the same instant is served from the cache and leaves it as it is.\<close>

lemma compute_features_finite: "compute cfg now org s = Inr e \<Longrightarrow> finite (ef_features e)"
  by (auto simp: compute_def bind_r_eq_Inr resolve_effective_def Let_def)

lemma ttl_get_again: "ttl_get now st k = (v, st') \<Longrightarrow> ttl_get now st' k = (v, st')"
  by (auto simp: ttl_get_def split: option.splits if_splits)

lemma ttl_get_other: "ttl_get now st k = (v, st') \<Longrightarrow> k' \<noteq> k \<Longrightarrow> st' k' = st k'"
  by (auto simp: ttl_get_def split: option.splits if_splits)

lemma ttl_get_cong: "st k = st' k \<Longrightarrow> fst (ttl_get now st k) = fst (ttl_get now st' k)"
  by (auto simp: ttl_get_def split: option.splits)

lemma ttl_get_settled:
  "ttl_get now st k = (v, st) \<Longrightarrow> st' k = st k \<Longrightarrow> ttl_get now st' k = (v, st')"
  by (auto simp: ttl_get_def fun_eq_iff split: option.splits if_splits)

lemma get_versioned_ttl:
  "get_versioned (ttl_backend now) c st key = ((body, v), st2) \<longleftrightarrow>
     (\<exists>raw st1. ttl_get now st (version_key c key) = (raw, st1) \<and> v = nat (json_int raw)
        \<and> ttl_get now st1 (body_key c key v) = (body, st2))"
  by (auto simp: get_versioned_def current_version_def ttl_backend_def split: prod.splits)

lemma effective_again:
  assumes "effective_for_org cfg now org s = Inr (e, s1)" and "cache_store s' = cache_store s1"
  shows "effective_for_org cfg now org s' = Inr (e, s')"
proof -
  let ?c = entitlements_cache and ?k = "nat_str org" and ?B = "ttl_backend now"
  obtain cached v st where read: "get_versioned ?B ?c (cache_store s) ?k = ((cached, v), st)"
    by (metis prod.collapse)
  then obtain raw sta where vers: "ttl_get now (cache_store s) (version_key ?c ?k) = (raw, sta)"
      "v = nat (json_int raw)"
    and body: "ttl_get now sta (body_key ?c ?k v) = (cached, st)"
    by (auto simp: get_versioned_ttl)
  have v1: "ttl_get now sta (version_key ?c ?k) = (raw, sta)" using vers(1) by (rule ttl_get_again)
  have keep: "st (version_key ?c ?k) = sta (version_key ?c ?k)"
    using ttl_get_other [OF body] by simp
  show ?thesis
  proof (cases "Option.bind cached deserialize")
    case (Some e')
    then have e: "e' = e" and st: "cache_store s' = st"
      using assms by (auto simp: effective_for_org_def read)
    have "ttl_get now st (version_key ?c ?k) = (raw, st)" using v1 keep by (rule ttl_get_settled)
    with ttl_get_again [OF body] vers(2) have "get_versioned ?B ?c st ?k = ((cached, v), st)"
      by (auto simp: get_versioned_ttl)
    with Some e st show ?thesis by (simp add: effective_for_org_def)
  next
    case None
    let ?st = "st(body_key ?c ?k v \<mapsto> (now + seconds 60, serialize e))"
    have fill: "cache_set ?B ?c store ?k (serialize e) (Some v)
        = store(body_key ?c ?k v \<mapsto> (now + seconds 60, serialize e))" for store
      by (simp add: cache_set_def ttl_backend_def ttl_set_def) (simp add: entitlements_cache_def)
    from None assms(1) have e: "compute cfg now org s = Inr e"
      and "cache_store s1 = cache_set ?B ?c st ?k (serialize e) (Some v)"
      by (auto simp: effective_for_org_def read bind_r_eq_Inr)
    then have "cache_store s1 = ?st" by (simp only: fill)
    with assms(2) have st: "cache_store s' = ?st" by simp
    have "ttl_get now ?st (version_key ?c ?k) = (raw, ?st)"
      using v1 by (rule ttl_get_settled) (simp add: keep)
    moreover have "ttl_get now ?st (body_key ?c ?k v) = (Some (serialize e), ?st)"
      by (simp add: ttl_get_def seconds_def)
    ultimately have "get_versioned ?B ?c ?st ?k = ((Some (serialize e), v), ?st)"
      using vers(2) by (auto simp: get_versioned_ttl)
    moreover have "deserialize (serialize e) = Some e"
      by (rule deserialize_serialize [OF compute_features_finite [OF e]])
    ultimately show ?thesis by (simp add: effective_for_org_def st)
  qed
qed

text \<open>What a resolution leaves alone.\<close>

lemma effective_for_org_frame:
  "effective_for_org cfg now org s = Inr (e, s1) \<Longrightarrow> \<exists>st. s1 = s\<lparr>cache_store := st\<rparr>"
  by (auto simp: effective_for_org_def Let_def bind_r_eq_Inr split: prod.splits option.splits)

definition clean_ahead :: "datetime \<Rightarrow> uuid \<Rightarrow> 'a core_db_scheme \<Rightarrow> bool" where
  "clean_ahead now org s = clean_ahead_of now entitlements_cache (nat_str org) (cache_store s)"

lemma entl_keys [simp]:
  "version_key subscriptions_cache k = version_key entitlements_cache k"
  "body_key subscriptions_cache k v = body_key entitlements_cache k v"
  by (simp_all add: version_key_def body_key_def subscriptions_cache_def entitlements_cache_def)

lemma bump_entl: "bump B subscriptions_cache st k = bump B entitlements_cache st k"
  by (simp add: bump_def)

lemma miss_after_bump:
  assumes "clean_ahead now org s" "now \<le> t" "t \<le> now + seconds VERSION_TTL_SECONDS"
    and "cache_store s' = snd (bump (ttl_backend now) entitlements_cache (cache_store s) (nat_str org))"
  shows "fst (fst (get_versioned (ttl_backend t) entitlements_cache (cache_store s') (nat_str org))) = None"
  using ttl_miss_after_bump [OF assms(1) [unfolded clean_ahead_def] assms(2,3)] by (simp add: assms(4))

lemma recomputed:
  assumes "fst (fst (get_versioned (ttl_backend now) entitlements_cache (cache_store s) (nat_str org))) = None"
    and "compute cfg now org s = Inr e"
  shows "\<exists>s'. effective_for_org cfg now org s = Inr (e, s')"
  using assms by (auto simp: effective_for_org_def Let_def split: prod.splits)

lemma cache_after_change_plan:
  assumes "change_plan now org key provider ref keep s = Inr (r, s')"
  shows "cache_store s' = snd (bump (ttl_backend now) entitlements_cache (cache_store s) (nat_str org))"
    and "plan_rows s' = plan_rows s"
  using assms
  by (cases "current_for_org org s";
      auto simp: change_plan_def create_subscription_def bind_r_eq_Inr Let_def bump_entl)+


text \<open>
  A grant is in force on the organization's next request and a revoked one is not: the
  lookup misses and the grants the resolver sees are exactly the organization's rows that are
  not revoked; the rows of other organizations are untouched.
\<close>

theorem grant_then_revoke_take_effect:
  assumes "list_all (\<lambda>x. en_id x < next_uuid s) (entitlement_rows s)" and "clean_ahead now org s"
    and "grant_entitlement now org f src d enabled note lv by s = Inr (r, s1)"
    and "revoke_entitlement later (en_id r) s1 = Inr (r', s2)"
    and "now \<le> t" "t \<le> now + seconds VERSION_TTL_SECONDS"
    and "compute cfg t org s1 = Inr e"
  shows "(\<exists>s''. effective_for_org cfg t org s1 = Inr (e, s''))
    \<and> in_grants (inputs_for cfg t org sub p s1)
        = in_grants (inputs_for cfg t org sub p s) @ [grant_of_row r]
    \<and> in_grants (inputs_for cfg t org sub p s2) = in_grants (inputs_for cfg t org sub p s)
    \<and> (\<forall>other. other \<noteq> org \<longrightarrow>
         filter (\<lambda>x. en_organization_id x = other) (entitlement_rows s2)
           = filter (\<lambda>x. en_organization_id x = other) (entitlement_rows s))"
proof -
  from assms(3) have r: "en_id r = next_uuid s" "en_organization_id r = org" "en_revoked_at r = None"
    and rows: "entitlement_rows s1 = entitlement_rows s @ [r]"
    and cache: "cache_store s1 = snd (bump (ttl_backend now) entitlements_cache (cache_store s) (nat_str org))"
    by (auto simp: grant_entitlement_def bind_r_eq_Inr Let_def invalidate_def bump_and_defer_def
        defer_bump_s_def append_outbox_def)
  have fresh: "\<forall>x\<in>set (entitlement_rows s). en_id x \<noteq> en_id r"
    using assms(1) by (auto simp: list_all_iff r(1))
  have "first_row (\<lambda>x. en_id x = en_id r) (entitlement_rows s @ [r]) = Some r"
    using fresh by (simp add: first_row_snoc first_row_None split: option.split)
  (auto dest: first_row_SomeD)
  then have rows2: "entitlement_rows s2 = entitlement_rows s @ [r\<lparr>en_revoked_at := Some later\<rparr>]"
    using assms(4) fresh
    by (auto simp: revoke_entitlement_def rows Let_def invalidate_def bump_and_defer_def
        defer_bump_s_def append_outbox_def update_where_def map_idI)
  show ?thesis
    using recomputed [OF miss_after_bump [OF assms(2,5,6) cache] assms(7)] r
    by (simp add: inputs_for_def rows rows2 rows_where_def)
qed

text \<open>
  An organization without an occupying subscription gets nothing from the default plan: its
  computed entitlements name that plan but contain only what grants give, so without grants it
  has no feature at all and no metric is limited. (The service documents that such an
  organization falls back to the default plan.)
\<close>

theorem default_plan_not_applied:
  assumes "current_for_org org s = None"
    and "\<forall>r\<in>set (entitlement_rows s). en_organization_id r = org \<longrightarrow> en_revoked_at r \<noteq> None"
    and "compute cfg now org s = Inr e"
  shows "ef_features e = {} \<and> ef_limits e = [] \<and> within_limit e metric used"
proof -
  from assms(1,3) obtain p where e: "e = resolve_effective (inputs_for cfg now org None p s)"
    by (auto simp: compute_def bind_r_eq_Inr)
  have "in_grants (inputs_for cfg now org None p s) = []"
    using assms(2) by (simp add: inputs_for_def rows_where_def filter_empty_conv)
  then show ?thesis
    unfolding e by (intro no_status_no_plan) (simp_all add: inputs_for_def)
qed

section \<open>A concrete database\<close>

definition demo_settings :: settings where
  "demo_settings = \<lparr>default_plan_key = ''free'', grace_on_past_due = True\<rparr>"

definition demo_ents :: "subscription list \<Rightarrow> ent_db" where
  "demo_ents rows = sub_db.extend (demo_subs rows) \<lparr>entitlement_rows = []\<rparr>"

lemma demo_ents_fields [simp]:
  "subscription_rows (demo_ents rows) = rows" "plan_rows (demo_ents rows) = [demo_free, demo_pro]"
  "next_uuid (demo_ents rows) = 9" "cache_store (demo_ents rows) = Map.empty"
  "entitlement_rows (demo_ents rows) = []" "tx_now (demo_ents rows) = 0"
  by (simp_all add: demo_ents_def demo_sub_simps sub_db.defs)

lemma demo_ents_clean [simp]: "clean_ahead now org (demo_ents rows)"
  by (simp add: clean_ahead_def clean_ahead_of_def ttl_view_def json_int_def)

lemma demo_ents_plan_by_key:
  "plan_by_key ''pro'' False (demo_ents rows) = Inr demo_pro"
  "plan_by_key ''free'' False (demo_ents rows) = Inr demo_free"
  by (simp_all add: plan_by_key_def one_or_none_def demo_free_def demo_pro_def demo_plan_def)

lemma demo_ents_current:
  "st \<in> set OCCUPYING_STATUSES \<Longrightarrow>
     current_for_org 1 (demo_ents [demo_subscription 5 1 p st]) = Some (demo_subscription 5 1 p st)
     \<and> sub_inv (demo_ents [demo_subscription 5 1 p st])"
  by (simp add: current_for_org_def rows_where_def occupying_def demo_subscription_def sub_inv_def
      unique_subscriptions_def)


theorem default_plan_not_applied_witness:
  "\<exists>e. compute demo_settings 0 1 (demo_ents []) = Inr e \<and> ef_plan_key e = Some ''free''
     \<and> within_limit e ''api_calls'' 1000000"
proof -
  have none: "current_for_org 1 (demo_ents []) = None" by (simp add: current_for_org_None)
  then obtain e where e: "compute demo_settings 0 1 (demo_ents []) = Inr e" "ef_plan_key e = Some ''free''"
    by (simp add: compute_def plan_for_def demo_settings_def demo_ents_plan_by_key resolve_effective_def
        inputs_for_def Let_def demo_free_def demo_plan_def)
  from default_plan_not_applied [OF none _ e(1), of "''api_calls''" 1000000] e show ?thesis by auto
qed

theorem grant_then_revoke_take_effect_witness:
  "\<exists>r s1 r' s2 e s''. grant_entitlement 0 1 ''reports'' ''addon'' None True None None None (demo_ents []) = Inr (r, s1)
     \<and> revoke_entitlement 9 (en_id r) s1 = Inr (r', s2)
     \<and> effective_for_org demo_settings 1 1 s1 = Inr (e, s'')"
proof -
  let ?s = "demo_ents []"
  obtain r s1 where g: "grant_entitlement 0 1 ''reports'' ''addon'' None True None None None ?s = Inr (r, s1)"
    and r: "en_id r = 9" and rows: "entitlement_rows s1 = [r]" "subscription_rows s1 = []"
      "plan_rows s1 = [demo_free, demo_pro]"
    by (simp add: grant_entitlement_def Let_def ENTITLEMENT_SOURCES_def invalidate_def bump_and_defer_def
        defer_bump_s_def append_outbox_def)
  obtain r' s2 where v: "revoke_entitlement 9 (en_id r) s1 = Inr (r', s2)"
    using rows by (simp add: revoke_entitlement_def first_row_def Let_def)
  have "plan_by_key ''free'' False s1 = Inr demo_free"
    by (simp add: plan_by_key_def one_or_none_def rows demo_free_def demo_pro_def demo_plan_def)
  then obtain e where c: "compute demo_settings 1 1 s1 = Inr e"
    using rows by (simp add: compute_def current_for_org_def rows_where_def plan_for_def
        demo_settings_def latest_def)
  have "\<exists>s''. effective_for_org demo_settings 1 1 s1 = Inr (e, s'')"
    by (rule conjunct1 [OF grant_then_revoke_take_effect [OF _ _ g v _ _ c]])
      (simp_all add: seconds_def VERSION_TTL_SECONDS_def)
  with g v show ?thesis by blast
qed

end
