(* ===== verification/Usage.thy ===== *)
theory Usage
  imports Entitlements Calendar
begin

text \<open>
  \<open>usage/service.py\<close> and the handlers of \<open>usage/router.py\<close> over the tables of
  \<open>usage/models.py\<close>: the event ledger, the counters of a month and the levels of gauges, and
  the idempotency ledger. A PostgreSQL statement that upserts and returns is one definition.
  Quantities are unbounded: PostgreSQL's \<open>bigint\<close> range is not represented.
\<close>

section \<open>State\<close>

record usage_event =
  ue_id :: uuid
  ue_organization_id :: uuid
  ue_metric :: string
  ue_quantity :: int
  ue_occurred_at :: datetime
  ue_idempotency_key :: "string option"
  ue_properties :: json_object

record usage_counter =
  ct_organization_id :: uuid
  ct_metric :: string
  ct_period_start :: date
  ct_quantity_total :: int
  ct_soft_limit_notified_at :: "datetime option"
  ct_last_event_at :: "datetime option"

record usage_idempotency_key =
  ik_organization_id :: uuid
  ik_idempotency_key :: string
  ik_metric :: string
  ik_quantity :: int
  ik_total_after :: "int option"
  ik_event_id :: "uuid option"

record usage_db = ent_db +
  usage_events :: "usage_event list"
  usage_counters :: "usage_counter list"
  usage_idempotency_keys :: "usage_idempotency_key list"

text \<open>The dictionaries the operations return: a measured quantity, and one held against a limit.\<close>

record usage_result =
  ur_metric :: string
  ur_quantity :: int
  ur_total :: int
  ur_deduplicated :: bool

record limited_result = usage_result +
  ur_limit :: "int option"
  ur_remaining :: "int option"
  ur_within_limit :: bool

record usage_check =
  uk_metric :: string
  uk_used :: int
  uk_limit :: "int option"
  uk_remaining :: "int option"
  uk_within_limit :: bool
  uk_soft_limit :: "int option"
  uk_soft_limit_breached :: bool

definition GAUGE_PERIOD :: date where "GAUGE_PERIOD = Date 1970 1 1"

definition month_bucket :: "datetime \<Rightarrow> date" where
  "month_bucket now = first_of_month (date_of now)"

section \<open>Metrics\<close>

definition metric_kind_name :: "metric_kind \<Rightarrow> string" where
  "metric_kind_name k = (case k of Counter \<Rightarrow> ''counter'' | Gauge \<Rightarrow> ''gauge'')"

definition metric_of :: "string \<Rightarrow> 'a usage_db_scheme \<Rightarrow> error + metric_row" where
  "metric_of metric s =
     bind_r (one_or_none MultipleResultsFound (\<lambda>m. mt_key m = metric) (metric_rows s)) (\<lambda>row.
       case row of None \<Rightarrow> Inl (Domain UnknownMetricError [(''metric'', JStr metric)])
       | Some m \<Rightarrow> Inr m)"

definition assert_counter_metric :: "string \<Rightarrow> 'a usage_db_scheme \<Rightarrow> error + unit" where
  "assert_counter_metric metric s =
     bind_r (metric_of metric s) (\<lambda>row.
       guard_r (mt_kind row \<noteq> Gauge)
         (Domain ValidationFailedError [(''metric'', JStr metric), (''kind'', JStr ''gauge'')]))"

definition assert_gauge_metric :: "string \<Rightarrow> 'a usage_db_scheme \<Rightarrow> error + unit" where
  "assert_gauge_metric metric s =
     bind_r (metric_of metric s) (\<lambda>row.
       guard_r (mt_kind row = Gauge)
         (Domain ValidationFailedError
            [(''metric'', JStr metric), (''kind'', JStr (metric_kind_name (mt_kind row)))]))"

definition period_for :: "datetime \<Rightarrow> string \<Rightarrow> 'a usage_db_scheme \<Rightarrow> error + date" where
  "period_for now metric s =
     bind_r (metric_of metric s) (\<lambda>row.
       Inr (if mt_kind row = Gauge then GAUGE_PERIOD else month_bucket now))"

section \<open>Reads\<close>

definition is_counter :: "uuid \<Rightarrow> string \<Rightarrow> date \<Rightarrow> usage_counter \<Rightarrow> bool" where
  "is_counter org metric period c \<longleftrightarrow>
     ct_organization_id c = org \<and> ct_metric c = metric \<and> ct_period_start c = period"

definition counter_total :: "uuid \<Rightarrow> string \<Rightarrow> date \<Rightarrow> 'a usage_db_scheme \<Rightarrow> int" where
  "counter_total org metric period s =
     sum_list (map ct_quantity_total (rows_where (is_counter org metric period) (usage_counters s)))"

definition current_total ::
  "datetime \<Rightarrow> uuid \<Rightarrow> string \<Rightarrow> date option \<Rightarrow> 'a usage_db_scheme \<Rightarrow> error + int" where
  "current_total now org metric period s =
     bind_r (case period of Some p \<Rightarrow> Inr p | None \<Rightarrow> period_for now metric s) (\<lambda>p.
       Inr (counter_total org metric p s))"

definition usage_summary_rows ::
  "datetime \<Rightarrow> uuid \<Rightarrow> date option \<Rightarrow> 'a usage_db_scheme \<Rightarrow> (string \<times> int) list" where
  "usage_summary_rows now org period s =
     (let p = (case period of Some p \<Rightarrow> p | None \<Rightarrow> month_bucket now)
      in map (\<lambda>c. (ct_metric c, ct_quantity_total c))
           (rows_where (\<lambda>c. ct_organization_id c = org \<and>
                (ct_period_start c = p \<or> ct_period_start c = GAUGE_PERIOD)) (usage_counters s)))"

text \<open>A ratio counts as given when it is neither missing nor zero.\<close>

definition soft_ratio :: "limit \<Rightarrow> double option" where
  "soft_ratio l = (case lim_soft_limit_ratio l of Some (m, k) \<Rightarrow> if m = 0 then None else Some (m, k) | None \<Rightarrow> None)"

definition check_against :: "effective_entitlements \<Rightarrow> string \<Rightarrow> int \<Rightarrow> int \<Rightarrow> usage_check" where
  "check_against e metric used quantity =
     (let value = limit_value e metric;
          soft = (case limit_of e metric of None \<Rightarrow> None
                  | Some l \<Rightarrow> (case (lim_value l, soft_ratio l) of
                      (Some v, Some r) \<Rightarrow> if v = 0 then None else Some (soft_threshold v r)
                    | _ \<Rightarrow> None))
      in \<lparr>uk_metric = metric, uk_used = used, uk_limit = value,
          uk_remaining = map_option (\<lambda>v. v - used) value,
          uk_within_limit = (case value of None \<Rightarrow> True | Some v \<Rightarrow> used + quantity \<le> v),
          uk_soft_limit = soft,
          uk_soft_limit_breached = (case soft of None \<Rightarrow> False | Some t \<Rightarrow> t \<le> used)\<rparr>)"

definition check_usage ::
  "settings \<Rightarrow> datetime \<Rightarrow> uuid \<Rightarrow> string \<Rightarrow> int \<Rightarrow> 'a usage_db_scheme
    \<Rightarrow> error + (usage_check \<times> 'a usage_db_scheme)" where
  "check_usage cfg now org metric quantity s =
     bind_r (effective_for_org cfg now org s) (\<lambda>(e, s1).
     bind_r (current_total now org metric None s1) (\<lambda>used.
       Inr (check_against e metric used quantity, s1)))"

section \<open>The statements on the ledgers\<close>

definition reserve_idempotency ::
  "uuid \<Rightarrow> string \<Rightarrow> string \<Rightarrow> int \<Rightarrow> 'a usage_db_scheme \<Rightarrow> bool \<times> 'a usage_db_scheme" where
  "reserve_idempotency org key metric quantity s =
     (if \<exists>k\<in>set (usage_idempotency_keys s). ik_organization_id k = org \<and> ik_idempotency_key k = key
      then (False, s)
      else (True, s\<lparr>usage_idempotency_keys := usage_idempotency_keys s @
        [\<lparr>ik_organization_id = org, ik_idempotency_key = key, ik_metric = metric,
          ik_quantity = quantity, ik_total_after = None, ik_event_id = None\<rparr>]\<rparr>))"

definition settle_idempotency ::
  "uuid \<Rightarrow> string \<Rightarrow> uuid \<Rightarrow> int \<Rightarrow> 'a usage_db_scheme \<Rightarrow> 'a usage_db_scheme" where
  "settle_idempotency org key event_id tot s =
     s\<lparr>usage_idempotency_keys :=
        update_where (\<lambda>k. ik_organization_id k = org \<and> ik_idempotency_key k = key)
          (\<lambda>k. k\<lparr>ik_event_id := Some event_id, ik_total_after := Some tot\<rparr>) (usage_idempotency_keys s)\<rparr>"

definition replay_idempotent :: "uuid \<Rightarrow> string \<Rightarrow> 'a usage_db_scheme \<Rightarrow> error + usage_result" where
  "replay_idempotent org key s =
     (case rows_where (\<lambda>k. ik_organization_id k = org \<and> ik_idempotency_key k = key)
             (usage_idempotency_keys s) of
        [] \<Rightarrow> Inl NoResultFound
      | [k] \<Rightarrow> Inr \<lparr>ur_metric = ik_metric k, ur_quantity = ik_quantity k,
                  ur_total = (case ik_total_after k of Some t \<Rightarrow> t | None \<Rightarrow> 0), ur_deduplicated = True\<rparr>
      | _ \<Rightarrow> Inl MultipleResultsFound)"

definition insert_event ::
  "uuid \<Rightarrow> string \<Rightarrow> int \<Rightarrow> datetime \<Rightarrow> string option \<Rightarrow> json_object option
    \<Rightarrow> 'a usage_db_scheme \<Rightarrow> uuid \<times> 'a usage_db_scheme" where
  "insert_event org metric quantity occurred_at key properties s =
     (next_uuid s,
      s\<lparr>next_uuid := Suc (next_uuid s),
        usage_events := usage_events s @
          [\<lparr>ue_id = next_uuid s, ue_organization_id = org, ue_metric = metric,
            ue_quantity = quantity, ue_occurred_at = occurred_at, ue_idempotency_key = key,
            ue_properties = (case properties of Some p \<Rightarrow> p | None \<Rightarrow> [])\<rparr>]\<rparr>)"

text \<open>\<open>INSERT ... ON CONFLICT DO UPDATE ... RETURNING quantity_totalal\<close> on the counters.\<close>

definition upsert_counter ::
  "uuid \<Rightarrow> string \<Rightarrow> date \<Rightarrow> int \<Rightarrow> (int \<Rightarrow> int) \<Rightarrow> datetime \<Rightarrow> 'a usage_db_scheme
    \<Rightarrow> int \<times> 'a usage_db_scheme" where
  "upsert_counter org metric period fresh move at s =
     (case first_row (is_counter org metric period) (usage_counters s) of
        None \<Rightarrow>
          (fresh, s\<lparr>usage_counters := usage_counters s @
             [\<lparr>ct_organization_id = org, ct_metric = metric, ct_period_start = period,
               ct_quantity_total = fresh, ct_soft_limit_notified_at = None, ct_last_event_at = Some at\<rparr>]\<rparr>)
      | Some c \<Rightarrow>
          (move (ct_quantity_total c),
           s\<lparr>usage_counters := update_where (is_counter org metric period)
               (\<lambda>c. c\<lparr>ct_quantity_total := move (ct_quantity_total c), ct_last_event_at := Some at\<rparr>)
               (usage_counters s)\<rparr>))"

definition increment_counter ::
  "uuid \<Rightarrow> string \<Rightarrow> int \<Rightarrow> datetime \<Rightarrow> 'a usage_db_scheme \<Rightarrow> int \<times> 'a usage_db_scheme" where
  "increment_counter org metric quantity occurred_at s =
     upsert_counter org metric (month_bucket occurred_at) quantity (\<lambda>t. t + quantity) occurred_at s"

text \<open>\<open>UPDATE ... SET soft_limit_notified_at ... IS NULL RETURNING 1\<close>: whether a row was marked.\<close>

definition mark_soft_limit ::
  "uuid \<Rightarrow> string \<Rightarrow> date \<Rightarrow> 'a usage_db_scheme \<Rightarrow> (error + bool) \<times> 'a usage_db_scheme" where
  "mark_soft_limit org metric period s =
     (let due = (\<lambda>c. is_counter org metric period c \<and> ct_soft_limit_notified_at c = None)
      in (case rows_where due (usage_counters s) of
            [] \<Rightarrow> Inr False | [_] \<Rightarrow> Inr True | _ \<Rightarrow> Inl MultipleResultsFound,
          s\<lparr>usage_counters := update_where due (\<lambda>c. c\<lparr>ct_soft_limit_notified_at := Some (tx_now s)\<rparr>)
              (usage_counters s)\<rparr>))"

definition soft_limit_due :: "effective_entitlements \<Rightarrow> string \<Rightarrow> int \<Rightarrow> (int \<times> int) option" where
  "soft_limit_due e metric tot =
     (case limit_of e metric of None \<Rightarrow> None
      | Some l \<Rightarrow> (case (lim_value l, soft_ratio l) of
          (Some v, Some r) \<Rightarrow> if tot < soft_threshold v r then None else Some (soft_threshold v r, v)
        | _ \<Rightarrow> None))"

definition maybe_emit_soft_limit ::
  "settings \<Rightarrow> datetime \<Rightarrow> uuid \<Rightarrow> string \<Rightarrow> int \<Rightarrow> 'a usage_db_scheme \<Rightarrow> error + 'a usage_db_scheme" where
  "maybe_emit_soft_limit cfg now org metric tot s =
     bind_r (effective_for_org cfg now org s) (\<lambda>(e, s1).
       case soft_limit_due e metric tot of
         None \<Rightarrow> Inr s1
       | Some (threshold, limit) \<Rightarrow>
           (let (marked, s2) = mark_soft_limit org metric (month_bucket now) s1
            in bind_r marked (\<lambda>m. Inr
              (if m then append_outbox USAGE_SOFT_LIMIT_REACHED ''usage'' (next_uuid s2)
                 [(''organization_id'', JUuid org), (''metric'', JStr metric),
                  (''threshold'', JInt threshold), (''total'', JInt tot), (''limit'', JInt limit)]
                 (Some org) (s2\<lparr>next_uuid := Suc (next_uuid s2)\<rparr>)
               else s2))))"

section \<open>Writes\<close>

definition settle_opt ::
  "uuid \<Rightarrow> string option \<Rightarrow> uuid \<Rightarrow> int \<Rightarrow> 'a usage_db_scheme \<Rightarrow> 'a usage_db_scheme" where
  "settle_opt org key event_id tot s =
     (case key of None \<Rightarrow> s | Some k \<Rightarrow> settle_idempotency org k event_id tot s)"

definition reserve_opt ::
  "uuid \<Rightarrow> string option \<Rightarrow> string \<Rightarrow> int \<Rightarrow> 'a usage_db_scheme \<Rightarrow> bool \<times> 'a usage_db_scheme" where
  "reserve_opt org key metric quantity s =
     (case key of None \<Rightarrow> (True, s) | Some k \<Rightarrow> reserve_idempotency org k metric quantity s)"

definition record_usage ::
  "settings \<Rightarrow> datetime \<Rightarrow> uuid \<Rightarrow> string \<Rightarrow> int \<Rightarrow> datetime option \<Rightarrow> string option
    \<Rightarrow> json_object option \<Rightarrow> 'a usage_db_scheme \<Rightarrow> error + (usage_result \<times> 'a usage_db_scheme)" where
  "record_usage cfg now org metric quantity occurred_at key properties s =
     bind_r (assert_counter_metric metric s) (\<lambda>_.
       let (first, s1) = reserve_opt org key metric quantity s
       in if \<not> first then bind_r (replay_idempotent org (the key) s1) (\<lambda>r. Inr (r, s1))
          else
            let at = (case occurred_at of Some t \<Rightarrow> t | None \<Rightarrow> now);
                (event_id, s2) = insert_event org metric quantity at key properties s1;
                (tot, s3) = increment_counter org metric quantity at s2
            in bind_r (maybe_emit_soft_limit cfg now org metric tot s3) (\<lambda>s4.
                 Inr (\<lparr>ur_metric = metric, ur_quantity = quantity, ur_total = tot, ur_deduplicated = False\<rparr>,
                      settle_opt org key event_id tot s4)))"

definition held_against :: "int option \<Rightarrow> usage_result \<Rightarrow> limited_result" where
  "held_against lim r =
     usage_result.extend r
       \<lparr>ur_limit = lim, ur_remaining = map_option (\<lambda>v. v - ur_total r) lim,
        ur_within_limit = (case lim of None \<Rightarrow> True | Some v \<Rightarrow> ur_total r \<le> v)\<rparr>"

definition emit_hard_limit ::
  "uuid \<Rightarrow> string \<Rightarrow> int option \<Rightarrow> int \<Rightarrow> 'a usage_db_scheme \<Rightarrow> 'a usage_db_scheme" where
  "emit_hard_limit org metric lim tot s =
     (case lim of None \<Rightarrow> s
      | Some v \<Rightarrow> if tot \<ge> v
          then append_outbox USAGE_HARD_LIMIT_REACHED ''usage'' (next_uuid s)
            [(''metric'', JStr metric), (''limit'', JInt v), (''total'', JInt tot)]
            (Some org) (s\<lparr>next_uuid := Suc (next_uuid s)\<rparr>)
          else s)"

definition limit_exceeded_error :: "string \<Rightarrow> int \<Rightarrow> int \<Rightarrow> int \<Rightarrow> error" where
  "limit_exceeded_error metric v tot quantity =
     Domain UsageLimitExceededError
       [(''metric'', JStr metric), (''limit'', JInt v), (''used'', JInt (tot - quantity)),
        (''attempted'', JInt quantity), (''upgrade_url'', JStr ''/dashboard/billing'')]"

definition consume ::
  "settings \<Rightarrow> datetime \<Rightarrow> uuid \<Rightarrow> string \<Rightarrow> int \<Rightarrow> string option \<Rightarrow> json_object option
    \<Rightarrow> 'a usage_db_scheme \<Rightarrow> error + (limited_result \<times> 'a usage_db_scheme)" where
  "consume cfg now org metric quantity key properties s =
     bind_r (assert_counter_metric metric s) (\<lambda>_.
     bind_r (effective_for_org cfg now org s) (\<lambda>(e, s0).
       let lim = limit_value e metric; (first, s1) = reserve_opt org key metric quantity s0
       in if \<not> first
          then bind_r (replay_idempotent org (the key) s1) (\<lambda>r. Inr (held_against lim r, s1))
          else
            let (event_id, s2) = insert_event org metric quantity now key properties s1;
                (tot, s3) = increment_counter org metric quantity now s2
            in bind_r (case lim of None \<Rightarrow> Inr ()
                         | Some v \<Rightarrow> guard_r (tot \<le> v) (limit_exceeded_error metric v tot quantity)) (\<lambda>_.
               bind_r (maybe_emit_soft_limit cfg now org metric tot s3) (\<lambda>s4.
                 Inr (held_against lim
                        \<lparr>ur_metric = metric, ur_quantity = quantity, ur_total = tot, ur_deduplicated = False\<rparr>,
                      settle_opt org key event_id tot (emit_hard_limit org metric lim tot s4))))))"

record usage_event_in =
  ui_metric :: string
  ui_quantity :: int
  ui_idempotency_key :: "string option"
  ui_properties :: "json_object option"

fun consume_many ::
  "settings \<Rightarrow> datetime \<Rightarrow> uuid \<Rightarrow> usage_event_in list \<Rightarrow> 'a usage_db_scheme
    \<Rightarrow> error + (limited_result list \<times> 'a usage_db_scheme)" where
  "consume_many cfg now org [] s = Inr ([], s)"
| "consume_many cfg now org (ev # evs) s =
     bind_r (consume cfg now org (ui_metric ev) (ui_quantity ev) (ui_idempotency_key ev) (ui_properties ev) s)
       (\<lambda>(r, s1). bind_r (consume_many cfg now org evs s1) (\<lambda>(rs, s2). Inr (r # rs, s2)))"

section \<open>Gauges\<close>

definition gauge_result ::
  "settings \<Rightarrow> datetime \<Rightarrow> uuid \<Rightarrow> string \<Rightarrow> int \<Rightarrow> 'a usage_db_scheme
    \<Rightarrow> error + (limited_result \<times> 'a usage_db_scheme)" where
  "gauge_result cfg now org metric level s =
     bind_r (effective_for_org cfg now org s) (\<lambda>(e, s1).
       Inr (held_against (limit_value e metric)
         \<lparr>ur_metric = metric, ur_quantity = level, ur_total = level, ur_deduplicated = False\<rparr>, s1))"

definition set_gauge ::
  "settings \<Rightarrow> datetime \<Rightarrow> uuid \<Rightarrow> string \<Rightarrow> int \<Rightarrow> 'a usage_db_scheme
    \<Rightarrow> error + (limited_result \<times> 'a usage_db_scheme)" where
  "set_gauge cfg now org metric value s =
     bind_r (assert_gauge_metric metric s) (\<lambda>_.
       let level = max value 0;
           (_, s1) = upsert_counter org metric GAUGE_PERIOD level (\<lambda>_. level) (tx_now s) s
       in gauge_result cfg now org metric level s1)"

definition ensure_gauge_capacity ::
  "settings \<Rightarrow> datetime \<Rightarrow> uuid \<Rightarrow> string \<Rightarrow> int \<Rightarrow> int \<Rightarrow> 'a usage_db_scheme
    \<Rightarrow> error + 'a usage_db_scheme" where
  "ensure_gauge_capacity cfg now org metric current adding s =
     bind_r (assert_gauge_metric metric s) (\<lambda>_.
     bind_r (effective_for_org cfg now org s) (\<lambda>(e, s1).
     bind_r (case limit_value e metric of None \<Rightarrow> Inr ()
             | Some v \<Rightarrow> guard_r (current + adding \<le> v)
                 (Domain UsageLimitExceededError
                    [(''metric'', JStr metric), (''limit'', JInt v), (''used'', JInt current),
                     (''upgrade_url'', JStr ''/dashboard/billing'')])) (\<lambda>_.
       Inr s1)))"

definition adjust_gauge ::
  "settings \<Rightarrow> datetime \<Rightarrow> uuid \<Rightarrow> string \<Rightarrow> int \<Rightarrow> bool \<Rightarrow> 'a usage_db_scheme
    \<Rightarrow> error + (limited_result \<times> 'a usage_db_scheme)" where
  "adjust_gauge cfg now org metric delta enforce s =
     bind_r (assert_gauge_metric metric s) (\<lambda>_.
     bind_r (if enforce \<and> delta > 0
             then bind_r (current_total now org metric None s) (\<lambda>current.
                    ensure_gauge_capacity cfg now org metric current delta s)
             else Inr s) (\<lambda>s1.
       let (level, s2) = upsert_counter org metric GAUGE_PERIOD (max delta 0)
             (\<lambda>t. max (t + max delta 0 - max delta 0 + delta) 0) (tx_now s1) s1
       in gauge_result cfg now org metric level s2))"

section \<open>Handlers\<close>

fun record_events_handler ::
  "settings \<Rightarrow> datetime \<Rightarrow> uuid \<Rightarrow> usage_event_in list \<Rightarrow> 'a usage_db_scheme
    \<Rightarrow> error + (usage_result list \<times> 'a usage_db_scheme)" where
  "record_events_handler cfg now org [] s = Inr ([], s)"
| "record_events_handler cfg now org (ev # evs) s =
     bind_r (record_usage cfg now org (ui_metric ev) (ui_quantity ev) None (ui_idempotency_key ev)
         (ui_properties ev) s)
       (\<lambda>(r, s1). bind_r (record_events_handler cfg now org evs s1) (\<lambda>(rs, s2). Inr (r # rs, s2)))"

definition consume_handler ::
  "settings \<Rightarrow> datetime \<Rightarrow> uuid \<Rightarrow> usage_event_in list \<Rightarrow> 'a usage_db_scheme
    \<Rightarrow> error + (limited_result \<times> 'a usage_db_scheme)" where
  "consume_handler cfg now org evs s =
     (case evs of
        [ev] \<Rightarrow> consume cfg now org (ui_metric ev) (ui_quantity ev) (ui_idempotency_key ev) (ui_properties ev) s
      | _ \<Rightarrow> Inl (Domain ValidationFailedError
          [(''events'', JInt (int (length evs))), (''batch_url'', JStr ''/v1/usage/consume-batch'')]))"

definition gauge_handler ::
  "settings \<Rightarrow> datetime \<Rightarrow> uuid \<Rightarrow> string \<Rightarrow> int option \<Rightarrow> int option \<Rightarrow> 'a usage_db_scheme
    \<Rightarrow> error + (limited_result \<times> 'a usage_db_scheme)" where
  "gauge_handler cfg now org metric value delta s =
     (case value of
        Some v \<Rightarrow> set_gauge cfg now org metric v s
      | None \<Rightarrow> adjust_gauge cfg now org metric (case delta of Some d \<Rightarrow> d | None \<Rightarrow> 0) True s)"

definition summary_handler ::
  "settings \<Rightarrow> datetime \<Rightarrow> uuid \<Rightarrow> date option \<Rightarrow> 'a usage_db_scheme
    \<Rightarrow> error + ((date \<times> usage_check list) \<times> 'a usage_db_scheme)" where
  "summary_handler cfg now org period s =
     (let summary = usage_summary_rows now org period s
      in bind_r (effective_for_org cfg now org s) (\<lambda>(e, s1).
           Inr ((case period of Some p \<Rightarrow> p | None \<Rightarrow> month_bucket now,
                 map (\<lambda>(metric, used). check_against e metric used 1) summary), s1)))"

section \<open>The counters as a ledger\<close>

definition counter_key :: "usage_counter \<Rightarrow> uuid \<times> string \<times> date" where
  "counter_key c = (ct_organization_id c, ct_metric c, ct_period_start c)"

definition event_total :: "uuid \<Rightarrow> string \<Rightarrow> date \<Rightarrow> 'a usage_db_scheme \<Rightarrow> int" where
  "event_total org metric period s =
     sum_list (map ue_quantity (filter (\<lambda>e. ue_organization_id e = org \<and> ue_metric e = metric
        \<and> month_bucket (ue_occurred_at e) = period) (usage_events s)))"

definition is_counter_metric :: "string \<Rightarrow> 'a usage_db_scheme \<Rightarrow> bool" where
  "is_counter_metric metric s \<longleftrightarrow> assert_counter_metric metric s = Inr ()"

definition ledger_key :: "usage_idempotency_key \<Rightarrow> uuid \<times> string" where
  "ledger_key k = (ik_organization_id k, ik_idempotency_key k)"

text \<open>
  The invariant: the primary keys hold, and for a counter metric every month's counter is the
  sum of the events metered in that month.
\<close>

definition usage_inv :: "'a usage_db_scheme \<Rightarrow> bool" where
  "usage_inv s \<longleftrightarrow> distinct (map counter_key (usage_counters s))
     \<and> distinct (map ledger_key (usage_idempotency_keys s))
     \<and> (\<forall>org m p. is_counter_metric m s \<longrightarrow> counter_total org m p s = event_total org m p s)"

lemma is_counter_key: "is_counter org m p c \<longleftrightarrow> counter_key c = (org, m, p)"
  by (simp add: is_counter_def counter_key_def)

lemma counter_total_eq:
  "counter_total org m p s =
     sum_list (map snd (filter (\<lambda>(k, _). k = (org, m, p))
       (map (\<lambda>c. (counter_key c, ct_quantity_total c)) (usage_counters s))))"
proof -
  have "map ct_quantity_total (filter (is_counter org m p) cs)
      = map snd (filter (\<lambda>(k, _). k = (org, m, p)) (map (\<lambda>c. (counter_key c, ct_quantity_total c)) cs))" for cs
    by (induction cs) (simp_all add: is_counter_key)
  then show ?thesis by (simp add: counter_total_def rows_where_def)
qed

lemma counter_total_cong:
  "map (\<lambda>c. (counter_key c, ct_quantity_total c)) (usage_counters s')
     = map (\<lambda>c. (counter_key c, ct_quantity_total c)) (usage_counters s)
   \<Longrightarrow> counter_total org m p s' = counter_total org m p s"
  by (simp only: counter_total_eq)

lemma counter_keys_cong:
  "map (\<lambda>c. (counter_key c, ct_quantity_total c)) cs' = map (\<lambda>c. (counter_key c, ct_quantity_total c)) cs
   \<Longrightarrow> map counter_key cs' = map counter_key cs"
  by (drule arg_cong [of _ _ "map fst"]) (simp add: comp_def)

lemma metric_of_cong: "metric_rows s' = metric_rows s \<Longrightarrow> metric_of m s' = metric_of m s"
  by (simp add: metric_of_def)

lemma assert_metric_cong:
  "metric_rows s' = metric_rows s \<Longrightarrow> assert_counter_metric m s' = assert_counter_metric m s"
  "metric_rows s' = metric_rows s \<Longrightarrow> assert_gauge_metric m s' = assert_gauge_metric m s"
  "metric_rows s' = metric_rows s \<Longrightarrow> period_for now m s' = period_for now m s"
  "metric_rows s' = metric_rows s \<Longrightarrow> is_counter_metric m s' = is_counter_metric m s"
  by (simp_all add: assert_counter_metric_def assert_gauge_metric_def period_for_def
      is_counter_metric_def metric_of_def)

lemma kinds_exclusive: "assert_gauge_metric m s = Inr u \<Longrightarrow> \<not> is_counter_metric m s"
  by (auto simp: assert_gauge_metric_def is_counter_metric_def assert_counter_metric_def bind_r_eq_Inr)

text \<open>An upsert with the primary key in force.\<close>

lemma upsert_counter_effect:
  assumes "distinct (map counter_key (usage_counters s))"
    and "upsert_counter org m p fresh move at s = (t, s')"
  shows "distinct (map counter_key (usage_counters s'))"
    and "counter_total org m p s' = t"
    and "t = (if \<exists>c\<in>set (usage_counters s). is_counter org m p c then move (counter_total org m p s) else fresh)"
    and "(\<nexists>c. c \<in> set (usage_counters s) \<and> is_counter org m p c) \<Longrightarrow> counter_total org m p s = 0"
    and "(org', m', p') \<noteq> (org, m, p) \<Longrightarrow> counter_total org' m' p' s' = counter_total org' m' p' s"
proof -
  let ?cs = "usage_counters s"
  have absent: "filter (is_counter org m p) ?cs = []" if "\<nexists>c. c \<in> set ?cs \<and> is_counter org m p c"
    using that by (auto simp: filter_empty_conv)
  show zero: "counter_total org m p s = 0" if "\<nexists>c. c \<in> set ?cs \<and> is_counter org m p c"
    using absent [OF that] by (simp add: counter_total_def rows_where_def)
  have both: "distinct (map counter_key (usage_counters s')) \<and> counter_total org m p s' = t
    \<and> t = (if \<exists>c\<in>set ?cs. is_counter org m p c then move (counter_total org m p s) else fresh)
    \<and> ((org', m', p') \<noteq> (org, m, p) \<longrightarrow> counter_total org' m' p' s' = counter_total org' m' p' s)"
  proof (cases "first_row (is_counter org m p) ?cs")
    case None
    then have none: "\<nexists>c. c \<in> set ?cs \<and> is_counter org m p c" by (simp add: first_row_None)
    with None assms show ?thesis
      by (auto simp: upsert_counter_def counter_total_def rows_where_def absent counter_key_def is_counter_def)
  next
    case (Some c)
    then have c: "c \<in> set ?cs" "counter_key c = (org, m, p)"
      by (auto dest!: first_row_SomeD simp: is_counter_key)
    let ?f = "\<lambda>c. c\<lparr>ct_quantity_total := move (ct_quantity_total c), ct_last_event_at := Some at\<rparr>"
    from Some assms(2) have t: "t = move (ct_quantity_total c)"
      and s': "usage_counters s' = update_where (is_counter org m p) ?f ?cs"
      by (auto simp: upsert_counter_def)
    have key: "counter_key (?f x) = counter_key x" for x by (simp add: counter_key_def)
    have keys: "map counter_key (update_where (is_counter org m p) ?f ?cs) = map counter_key ?cs"
      by (rule map_update_where) (rule key)
    have one: "filter (is_counter org m p) ?cs = [c]"
      using distinct_key_filter [OF assms(1) c] by (simp add: is_counter_key [abs_def])
    have filt: "filter (is_counter org'' m'' p'') (update_where (is_counter org m p) ?f ?cs)
        = update_where (is_counter org m p) ?f (filter (is_counter org'' m'' p'') ?cs)" for org'' m'' p''
      unfolding update_where_def filter_map comp_def
      by (intro arg_cong [of _ _ "map _"] filter_cong refl) (simp add: is_counter_key counter_key_def)
    have "counter_total org m p s' = t"
      by (simp add: counter_total_def rows_where_def s' filt one t)
        (simp add: update_where_def is_counter_key c(2))
    moreover have "counter_total org' m' p' s' = counter_total org' m' p' s"
      if "(org', m', p') \<noteq> (org, m, p)"
    proof -
      have "update_where (is_counter org m p) ?f (filter (is_counter org' m' p') ?cs)
          = filter (is_counter org' m' p') ?cs"
        using that by (intro update_where_none) (auto simp: is_counter_key)
      then show ?thesis by (simp only: counter_total_def rows_where_def s' filt)
    qed
    moreover have "counter_total org m p s = ct_quantity_total c"
      by (simp add: counter_total_def rows_where_def one)
    ultimately show ?thesis
      using c assms(1) by (auto simp: s' keys t is_counter_key)
  qed
  then show "distinct (map counter_key (usage_counters s'))" "counter_total org m p s' = t"
    "t = (if \<exists>c\<in>set ?cs. is_counter org m p c then move (counter_total org m p s) else fresh)"
    "(org', m', p') \<noteq> (org, m, p) \<Longrightarrow> counter_total org' m' p' s' = counter_total org' m' p' s"
    by blast+
qed

lemma upsert_counter_frame:
  assumes "upsert_counter org m p fresh move at s = (t, s')"
  shows "\<exists>cs. s' = s\<lparr>usage_counters := cs\<rparr>"
  using assms by (auto simp: upsert_counter_def split: option.splits)

section \<open>Soft-limit notices\<close>

definition soft_events :: "uuid \<Rightarrow> string \<Rightarrow> 'a usage_db_scheme \<Rightarrow> nat" where
  "soft_events org metric s =
     length (filter (\<lambda>o'. oe_event_type o' = USAGE_SOFT_LIMIT_REACHED \<and> oe_organization_id o' = Some org
        \<and> map_of (oe_payload o') ''metric'' = Some (JStr metric)) (outbox_events s))"

definition notified :: "uuid \<Rightarrow> string \<Rightarrow> date \<Rightarrow> 'a usage_db_scheme \<Rightarrow> bool" where
  "notified org metric period s \<longleftrightarrow>
     (\<exists>c\<in>set (usage_counters s). is_counter org metric period c \<and> ct_soft_limit_notified_at c \<noteq> None)"

lemma upsert_notified:
  assumes "upsert_counter org m p fresh move at s = (t, s')" and "notified org' m' p' s"
  shows "notified org' m' p' s'"
proof -
  from assms(2) obtain c where c: "c \<in> set (usage_counters s)" "is_counter org' m' p' c"
    "ct_soft_limit_notified_at c \<noteq> None" by (auto simp: notified_def)
  show ?thesis
  proof (cases "first_row (is_counter org m p) (usage_counters s)")
    case None
    with assms(1) c show ?thesis by (auto simp: upsert_counter_def notified_def)
  next
    case (Some y)
    let ?f = "\<lambda>c. c\<lparr>ct_quantity_total := move (ct_quantity_total c), ct_last_event_at := Some at\<rparr>"
    let ?c = "if is_counter org m p c then ?f c else c"
    from Some assms(1) have u: "usage_counters s' = update_where (is_counter org m p) ?f (usage_counters s)"
      by (auto simp: upsert_counter_def)
    have "?c \<in> set (usage_counters s')" unfolding u update_where_def set_map using c(1) by (rule imageI)
    moreover have "is_counter org' m' p' ?c" "ct_soft_limit_notified_at ?c \<noteq> None"
      using c(2,3) by (simp_all add: is_counter_def)
    ultimately show ?thesis unfolding notified_def by blast
  qed
qed

text \<open>Every notice of the period is paid for by a counter that is marked and stays marked.\<close>

definition soft_account :: "date \<Rightarrow> 'a usage_db_scheme \<Rightarrow> 'a usage_db_scheme \<Rightarrow> bool" where
  "soft_account p s s' \<longleftrightarrow>
     (\<forall>org m. soft_events org m s' + of_bool (notified org m p s)
                \<le> soft_events org m s + of_bool (notified org m p s'))"

lemma soft_account_trans: "soft_account p s t \<Longrightarrow> soft_account p t u \<Longrightarrow> soft_account p s u"
proof -
  assume st: "soft_account p s t" and tu: "soft_account p t u"
  show "soft_account p s u"
    unfolding soft_account_def
  proof (intro allI)
    fix org m
    from st tu have "soft_events org m t + of_bool (notified org m p s) \<le> soft_events org m s + of_bool (notified org m p t)"
      "soft_events org m u + of_bool (notified org m p t) \<le> soft_events org m t + of_bool (notified org m p u)"
      unfolding soft_account_def by blast+
    then show "soft_events org m u + of_bool (notified org m p s) \<le> soft_events org m s + of_bool (notified org m p u)"
      by linarith
  qed
qed

lemma soft_account_mono:
  "(\<And>org m. soft_events org m s' = soft_events org m s) \<Longrightarrow>
   (\<And>org m. notified org m p s \<Longrightarrow> notified org m p s') \<Longrightarrow> soft_account p s s'"
  by (auto simp: soft_account_def)

text \<open>What an operation on the idempotency ledger or the event ledger leaves alone.\<close>

definition counters_kept :: "'a usage_db_scheme \<Rightarrow> 'a usage_db_scheme \<Rightarrow> bool" where
  "counters_kept s s' \<longleftrightarrow>
     map (\<lambda>c. (counter_key c, ct_quantity_total c)) (usage_counters s')
       = map (\<lambda>c. (counter_key c, ct_quantity_total c)) (usage_counters s)
     \<and> usage_events s' = usage_events s \<and> usage_idempotency_keys s' = usage_idempotency_keys s
     \<and> metric_rows s' = metric_rows s"

lemma mark_soft_limit_effect:
  assumes "distinct (map counter_key (usage_counters s))" and "mark_soft_limit org m p s = (b, s')"
  shows "\<exists>marked. b = Inr marked \<and> (marked \<longrightarrow> \<not> notified org m p s \<and> notified org m p s')"
    and "notified org' m' p' s \<Longrightarrow> notified org' m' p' s'"
    and "counters_kept s s'" and "\<exists>cs. s' = s\<lparr>usage_counters := cs\<rparr>"
proof -
  let ?due = "\<lambda>c. is_counter org m p c \<and> ct_soft_limit_notified_at c = None"
  let ?f = "\<lambda>c. c\<lparr>ct_soft_limit_notified_at := Some (tx_now s)\<rparr>" and ?cs = "usage_counters s"
  from assms(2) have s': "s' = s\<lparr>usage_counters := update_where ?due ?f ?cs\<rparr>"
    and b: "b = (case rows_where ?due ?cs of [] \<Rightarrow> Inr False | [_] \<Rightarrow> Inr True | _ \<Rightarrow> Inl MultipleResultsFound)"
    by (simp_all add: mark_soft_limit_def Let_def)
  show "\<exists>cs. s' = s\<lparr>usage_counters := cs\<rparr>" using s' by blast
  have mem: "set (update_where ?due ?f ?cs) = ?f ` {c \<in> set ?cs. ?due c} \<union> {c \<in> set ?cs. \<not> ?due c}"
    by (rule set_update_where)
  have "?f c \<in> set (update_where ?due ?f ?cs)" if "c \<in> set ?cs" "?due c" for c
    using that mem by blast
  moreover have "c \<in> set (update_where ?due ?f ?cs)" if "c \<in> set ?cs" "\<not> ?due c" for c
    using that mem by blast
  ultimately show "notified org' m' p' s \<Longrightarrow> notified org' m' p' s'"
    by (auto simp: notified_def s')
  show "counters_kept s s'"
    unfolding counters_kept_def s' by (simp add: map_update_where counter_key_def)
  show "\<exists>marked. b = Inr marked \<and> (marked \<longrightarrow> \<not> notified org m p s \<and> notified org m p s')"
  proof (cases "\<exists>c\<in>set ?cs. ?due c")
    case False
    then have "rows_where ?due ?cs = []" by (auto simp: rows_where_def filter_empty_conv)
    with b show ?thesis by (intro exI [of _ False]) simp
  next
    case True
    then obtain c where c: "c \<in> set ?cs" "?due c" by blast
    have one: "filter (is_counter org m p) ?cs = [c]"
      using distinct_key_filter [OF assms(1) c(1)] c(2) by (simp add: is_counter_key [abs_def])
    have "rows_where ?due ?cs = filter (\<lambda>c. ct_soft_limit_notified_at c = None) (filter (is_counter org m p) ?cs)"
      by (simp add: rows_where_def conj_commute)
    with one c(2) have "rows_where ?due ?cs = [c]" by simp
    moreover have "\<not> notified org m p s"
      using distinct_key_unique [OF assms(1) _ c(1)] c(2) by (auto simp: notified_def is_counter_key)
    moreover have "?f c \<in> set (usage_counters s')" using c mem by (auto simp: s')
    then have "notified org m p s'"
      using c(2) unfolding notified_def by (intro bexI [of _ "?f c"]) (auto simp: is_counter_def)
    ultimately show ?thesis by (intro exI [of _ True]) (simp add: b)
  qed
qed

lemma counters_kept_refl: "counters_kept s (s\<lparr>cache_store := st\<rparr>)"
  by (simp add: counters_kept_def)

lemma counters_kept_trans: "counters_kept s t \<Longrightarrow> counters_kept t u \<Longrightarrow> counters_kept s u"
  by (auto simp: counters_kept_def)

lemma soft_events_append:
  "soft_events org m (append_outbox ev ty i payload org' s) = soft_events org m s
     + of_bool (ev = USAGE_SOFT_LIMIT_REACHED \<and> org' = Some org \<and> map_of payload ''metric'' = Some (JStr m))"
  by (simp add: soft_events_def)

lemma usage_update_frame [simp]:
  "usage_counters (append_outbox ev ty i payload org s) = usage_counters s"
  "usage_events (append_outbox ev ty i payload org s) = usage_events s"
  "usage_idempotency_keys (append_outbox ev ty i payload org s) = usage_idempotency_keys s"
  "metric_rows (append_outbox ev ty i payload org s) = metric_rows s"
  by (simp_all add: append_outbox_def)

lemma maybe_emit_soft_limit_effect:
  assumes "distinct (map counter_key (usage_counters s))"
    and "maybe_emit_soft_limit cfg now org m t s = Inr s'"
  shows "counters_kept s s'" and "soft_account (month_bucket now) s s'"
    and "notified org' m' p s \<Longrightarrow> notified org' m' p s'"
proof -
  from assms(2) obtain e s1 where eff: "effective_for_org cfg now org s = Inr (e, s1)"
    and rest: "(case soft_limit_due e m t of None \<Rightarrow> Inr s1
       | Some (threshold, limit) \<Rightarrow>
           (let (marked, s2) = mark_soft_limit org m (month_bucket now) s1
            in bind_r marked (\<lambda>mk. Inr
              (if mk then append_outbox USAGE_SOFT_LIMIT_REACHED ''usage'' (next_uuid s2)
                 [(''organization_id'', JUuid org), (''metric'', JStr m),
                  (''threshold'', JInt threshold), (''total'', JInt t), (''limit'', JInt limit)]
                 (Some org) (s2\<lparr>next_uuid := Suc (next_uuid s2)\<rparr>)
               else s2)))) = Inr s'"
    by (auto simp: maybe_emit_soft_limit_def bind_r_eq_Inr)
  from effective_for_org_frame [OF eff] obtain st where s1: "s1 = s\<lparr>cache_store := st\<rparr>" by blast
  have n1: "notified org' m' p s1 = notified org' m' p s"
    and e1: "soft_events org' m' s1 = soft_events org' m' s" for org' m' p
    by (simp_all add: notified_def soft_events_def s1)
  have d1: "distinct (map counter_key (usage_counters s1))" using assms(1) by (simp add: s1)
  have "counters_kept s s' \<and> soft_account (month_bucket now) s s' \<and>
    (notified org' m' p s \<longrightarrow> notified org' m' p s')"
  proof (cases "soft_limit_due e m t")
    case None
    with rest have "s' = s1" by simp
    then show ?thesis
      by (simp add: s1 counters_kept_refl n1 soft_account_def e1 n1 [unfolded s1] e1 [unfolded s1])
  next
    case (Some d)
    obtain threshold limit where d: "d = (threshold, limit)" by (cases d)
    obtain b s2 where mark: "mark_soft_limit org m (month_bucket now) s1 = (b, s2)" by (rule prod.exhaust)
    note eff2 = mark_soft_limit_effect [OF d1 mark]
    from eff2(1) obtain marked where b: "b = Inr marked"
      and mk: "marked \<longrightarrow> \<not> notified org m (month_bucket now) s1 \<and> notified org m (month_bucket now) s2" by blast
    from eff2(4) obtain cs where s2: "s2 = s1\<lparr>usage_counters := cs\<rparr>" by blast
    from rest Some d mark b have s': "s' = (if marked
        then append_outbox USAGE_SOFT_LIMIT_REACHED ''usage'' (next_uuid s2)
          [(''organization_id'', JUuid org), (''metric'', JStr m),
           (''threshold'', JInt threshold), (''total'', JInt t), (''limit'', JInt limit)]
          (Some org) (s2\<lparr>next_uuid := Suc (next_uuid s2)\<rparr>)
        else s2)" by simp
    have tables: "usage_counters s' = usage_counters s2" "usage_events s' = usage_events s2"
      "usage_idempotency_keys s' = usage_idempotency_keys s2" "metric_rows s' = metric_rows s2"
      by (simp_all add: s')
    have n': "notified org' m' p s' = notified org' m' p s2" for org' m' p
      by (simp add: notified_def tables)
    have e2: "soft_events org' m' s2 = soft_events org' m' s1" for org' m'
      by (simp add: soft_events_def s2)
    have e': "soft_events org' m' s' = soft_events org' m' s2 + of_bool (marked \<and> org' = org \<and> m' = m)" for org' m'
      by (simp add: s' soft_events_append) (simp add: soft_events_def)
    have "counters_kept s1 s'" using eff2(3) by (simp add: counters_kept_def tables)
    then have "counters_kept s s'" by (simp add: counters_kept_def s1)
    moreover have "soft_account (month_bucket now) s s'"
      unfolding soft_account_def e' e2 e1 n' using mk eff2(2) by (auto simp: n1)
    ultimately show ?thesis using eff2(2) by (simp add: n' n1)
  qed
  then show "counters_kept s s'" "soft_account (month_bucket now) s s'"
    "notified org' m' p s \<Longrightarrow> notified org' m' p s'" by blast+
qed

section \<open>Metering\<close>

lemma usage_inv_kept: "counters_kept s s' \<Longrightarrow> usage_inv s \<Longrightarrow> usage_inv s'"
proof -
  assume kept: "counters_kept s s'" and inv: "usage_inv s"
  then have "map counter_key (usage_counters s') = map counter_key (usage_counters s)"
    by (intro counter_keys_cong) (simp add: counters_kept_def)
  moreover have "counter_total org m p s' = counter_total org m p s" for org m p
    using kept by (intro counter_total_cong) (simp add: counters_kept_def)
  moreover have "event_total org m p s' = event_total org m p s" for org m p
    using kept by (simp add: event_total_def counters_kept_def)
  moreover have "is_counter_metric m s' = is_counter_metric m s" for m
    using kept by (intro assert_metric_cong) (simp add: counters_kept_def)
  ultimately show ?thesis using kept inv by (simp add: usage_inv_def counters_kept_def)
qed

lemma counter_total_kept: "counters_kept s s' \<Longrightarrow> counter_total org m p s' = counter_total org m p s"
  by (intro counter_total_cong) (simp add: counters_kept_def)

lemma usage_inv_keys:
  "usage_inv s \<Longrightarrow> distinct (map ledger_key ks) \<Longrightarrow> usage_inv (s\<lparr>usage_idempotency_keys := ks\<rparr>)"
  by (simp add: usage_inv_def counter_total_def event_total_def is_counter_metric_def
      assert_counter_metric_def metric_of_def)

lemma reserve_opt_effect:
  assumes "reserve_opt org key m q s = (first, s1)"
  shows "\<exists>ks. s1 = s\<lparr>usage_idempotency_keys := ks\<rparr>"
    and "first \<Longrightarrow> usage_idempotency_keys s1 = usage_idempotency_keys s @
      (case key of None \<Rightarrow> [] | Some k \<Rightarrow>
        [\<lparr>ik_organization_id = org, ik_idempotency_key = k, ik_metric = m, ik_quantity = q,
          ik_total_after = None, ik_event_id = None\<rparr>])"
    and "first \<Longrightarrow> key = Some k \<Longrightarrow> x \<in> set (usage_idempotency_keys s) \<Longrightarrow> ledger_key x \<noteq> (org, k)"
    and "\<not> first \<Longrightarrow> s1 = s \<and> (\<exists>k x. key = Some k \<and> x \<in> set (usage_idempotency_keys s) \<and> ledger_key x = (org, k))"
proof -
  have eq: "s = s\<lparr>usage_idempotency_keys := usage_idempotency_keys s\<rparr>" by simp
  show "\<exists>ks. s1 = s\<lparr>usage_idempotency_keys := ks\<rparr>"
  proof -
    have "s1 = s \<or> (\<exists>ks. s1 = s\<lparr>usage_idempotency_keys := ks\<rparr>)"
      using assms by (auto simp: reserve_opt_def reserve_idempotency_def split: option.splits if_splits)
    with eq show ?thesis by metis
  qed
  show "first \<Longrightarrow> usage_idempotency_keys s1 = usage_idempotency_keys s @
      (case key of None \<Rightarrow> [] | Some k \<Rightarrow>
        [\<lparr>ik_organization_id = org, ik_idempotency_key = k, ik_metric = m, ik_quantity = q,
          ik_total_after = None, ik_event_id = None\<rparr>])"
    using assms by (auto simp: reserve_opt_def reserve_idempotency_def split: option.splits if_splits)
  show "first \<Longrightarrow> key = Some k \<Longrightarrow> x \<in> set (usage_idempotency_keys s) \<Longrightarrow> ledger_key x \<noteq> (org, k)"
    using assms by (auto simp: reserve_opt_def reserve_idempotency_def ledger_key_def split: if_splits)
  show "\<not> first \<Longrightarrow> s1 = s \<and> (\<exists>k x. key = Some k \<and> x \<in> set (usage_idempotency_keys s) \<and> ledger_key x = (org, k))"
    using assms by (auto simp: reserve_opt_def reserve_idempotency_def ledger_key_def split: option.splits if_splits)
qed

lemma event_total_snoc:
  "usage_events s' = usage_events s @ [e] \<Longrightarrow> event_total org m p s' = event_total org m p s +
     (if (ue_organization_id e, ue_metric e, month_bucket (ue_occurred_at e)) = (org, m, p) then ue_quantity e else 0)"
  by (simp add: event_total_def)

text \<open>An event and its counter move together.\<close>

lemma meter_effect:
  assumes inv: "usage_inv s"
    and ins: "insert_event org m q at key props s = (i, s2)" and inc: "increment_counter org m q at s2 = (t, s3)"
  shows "usage_inv s3" and "t = counter_total org m (month_bucket at) s + q"
    and "counter_total org m (month_bucket at) s3 = t"
    and "(org', m', p') \<noteq> (org, m, month_bucket at) \<Longrightarrow> counter_total org' m' p' s3 = counter_total org' m' p' s"
    and "usage_idempotency_keys s3 = usage_idempotency_keys s" and "metric_rows s3 = metric_rows s"
    and "cache_store s3 = cache_store s"
    and "soft_account p s s3"
proof -
  from ins have s2: "usage_counters s2 = usage_counters s" "usage_idempotency_keys s2 = usage_idempotency_keys s"
    "metric_rows s2 = metric_rows s" "cache_store s2 = cache_store s" "outbox_events s2 = outbox_events s"
    and ev: "usage_events s2 = usage_events s @ [\<lparr>ue_id = next_uuid s, ue_organization_id = org, ue_metric = m,
            ue_quantity = q, ue_occurred_at = at, ue_idempotency_key = key,
            ue_properties = (case props of Some p \<Rightarrow> p | None \<Rightarrow> [])\<rparr>]"
    by (auto simp: insert_event_def)
  note up = inc [unfolded increment_counter_def]
  from upsert_counter_frame [OF up] obtain cs where s3: "s3 = s2\<lparr>usage_counters := cs\<rparr>" by blast
  have ct: "counter_total org' m' p' s2 = counter_total org' m' p' s" for org' m' p'
    by (simp add: counter_total_def s2)
  have d: "distinct (map counter_key (usage_counters s2))" using inv by (simp add: usage_inv_def s2)
  note eff = upsert_counter_effect [OF d up]
  show t: "t = counter_total org m (month_bucket at) s + q"
    using eff(3) eff(4) by (auto simp: ct split: if_splits)
  show tot: "counter_total org m (month_bucket at) s3 = t" by (rule eff(2))
  show other: "counter_total org' m' p' s3 = counter_total org' m' p' s"
    if "(org', m', p') \<noteq> (org, m, month_bucket at)" for org' m' p'
    using eff(5) [OF that] by (simp add: ct)
  show keys: "usage_idempotency_keys s3 = usage_idempotency_keys s" and rows: "metric_rows s3 = metric_rows s"
    and "cache_store s3 = cache_store s"
    by (simp_all add: s3 s2)
  have "usage_events s3 = usage_events s2" by (simp add: s3)
  then have evs: "event_total org' m' p' s3 = event_total org' m' p' s +
      (if (org, m, month_bucket at) = (org', m', p') then q else 0)" for org' m' p'
    using ev event_total_snoc [of s3 s] by simp
  have "counter_total org' m' p' s3 = event_total org' m' p' s3" if "is_counter_metric m' s3" for org' m' p'
  proof -
    have "counter_total org' m' p' s = event_total org' m' p' s"
      using inv that assert_metric_cong(4) [OF rows] by (simp add: usage_inv_def)
    then show ?thesis
      using other [of org' m' p'] tot t evs [of org' m' p'] by (cases "(org', m', p') = (org, m, month_bucket at)") auto
  qed
  then show "usage_inv s3"
    using inv eff(1) by (simp add: usage_inv_def keys)
  have n: "notified org' m' p s3" if "notified org' m' p s" for org' m'
    by (rule upsert_notified [OF up]) (use that in \<open>simp add: notified_def s2\<close>)
  have e: "soft_events org' m' s3 = soft_events org' m' s" for org' m'
    by (simp add: soft_events_def s3 s2)
  show "soft_account p s s3" using e n by (rule soft_account_mono)
qed

text \<open>What one metered quantity does to the three ledgers.\<close>

definition metered ::
  "datetime \<Rightarrow> uuid \<Rightarrow> string \<Rightarrow> int \<Rightarrow> datetime \<Rightarrow> string option \<Rightarrow> int
    \<Rightarrow> 'a usage_db_scheme \<Rightarrow> 'a usage_db_scheme \<Rightarrow> bool" where
  "metered now org m q at key t s s' \<longleftrightarrow>
     usage_inv s' \<and> t = counter_total org m (month_bucket at) s + q
     \<and> counter_total org m (month_bucket at) s' = t
     \<and> (\<forall>org' m' p'. (org', m', p') \<noteq> (org, m, month_bucket at) \<longrightarrow>
          counter_total org' m' p' s' = counter_total org' m' p' s)
     \<and> set (usage_idempotency_keys s) \<subseteq> set (usage_idempotency_keys s')
     \<and> metric_rows s' = metric_rows s \<and> soft_account (month_bucket now) s s'
     \<and> (\<forall>k. key = Some k \<longrightarrow> (\<exists>i. \<lparr>ik_organization_id = org, ik_idempotency_key = k, ik_metric = m,
          ik_quantity = q, ik_total_after = Some t, ik_event_id = Some i\<rparr> \<in> set (usage_idempotency_keys s')))"

lemma soft_account_tables:
  "outbox_events s' = outbox_events s \<Longrightarrow> usage_counters s' = usage_counters s \<Longrightarrow> soft_account p s s'"
  by (intro soft_account_mono) (simp_all add: soft_events_def notified_def)

lemma emit_hard_limit_effect:
  "counters_kept s (emit_hard_limit org m lim t s)" "soft_account p s (emit_hard_limit org m lim t s)"
proof -
  have "usage_counters (emit_hard_limit org m lim t s) = usage_counters s
    \<and> usage_events (emit_hard_limit org m lim t s) = usage_events s
    \<and> usage_idempotency_keys (emit_hard_limit org m lim t s) = usage_idempotency_keys s
    \<and> metric_rows (emit_hard_limit org m lim t s) = metric_rows s"
    by (simp add: emit_hard_limit_def split: option.split)
  then show "counters_kept s (emit_hard_limit org m lim t s)" by (simp add: counters_kept_def)
  show "soft_account p s (emit_hard_limit org m lim t s)"
    by (rule soft_account_mono)
      (simp_all add: emit_hard_limit_def soft_events_append soft_events_def notified_def split: option.split)
qed

lemma settle_opt_effect:
  assumes "usage_inv s"
    and "usage_idempotency_keys s = ks @ (case key of None \<Rightarrow> [] | Some k \<Rightarrow>
        [\<lparr>ik_organization_id = org, ik_idempotency_key = k, ik_metric = m, ik_quantity = q,
          ik_total_after = None, ik_event_id = None\<rparr>])"
    and "\<And>k x. key = Some k \<Longrightarrow> x \<in> set ks \<Longrightarrow> ledger_key x \<noteq> (org, k)"
  shows "usage_inv (settle_opt org key i t s)" and "set ks \<subseteq> set (usage_idempotency_keys (settle_opt org key i t s))"
    and "key = Some k \<Longrightarrow> \<lparr>ik_organization_id = org, ik_idempotency_key = k, ik_metric = m,
          ik_quantity = q, ik_total_after = Some t, ik_event_id = Some i\<rparr>
        \<in> set (usage_idempotency_keys (settle_opt org key i t s))"
proof -
  have "usage_inv (settle_opt org key i t s)
    \<and> set ks \<subseteq> set (usage_idempotency_keys (settle_opt org key i t s))
    \<and> (\<forall>k. key = Some k \<longrightarrow> \<lparr>ik_organization_id = org, ik_idempotency_key = k, ik_metric = m,
          ik_quantity = q, ik_total_after = Some t, ik_event_id = Some i\<rparr>
        \<in> set (usage_idempotency_keys (settle_opt org key i t s)))"
  proof (cases key)
    case None
    with assms show ?thesis by (simp add: settle_opt_def)
  next
    case (Some k)
    let ?P = "\<lambda>x. ik_organization_id x = org \<and> ik_idempotency_key x = k"
    let ?g = "\<lambda>x. x\<lparr>ik_event_id := Some i, ik_total_after := Some t\<rparr>"
    have "update_where ?P ?g ks = ks"
      using assms(3) [OF Some] by (intro update_where_none) (auto simp: ledger_key_def)
    then have keys: "usage_idempotency_keys (settle_opt org key i t s)
        = ks @ [\<lparr>ik_organization_id = org, ik_idempotency_key = k, ik_metric = m,
          ik_quantity = q, ik_total_after = Some t, ik_event_id = Some i\<rparr>]"
      using assms(2) Some by (simp add: settle_opt_def settle_idempotency_def update_where_def)
    have "distinct (map ledger_key (usage_idempotency_keys s))" using assms(1) by (simp add: usage_inv_def)
    then have "distinct (map ledger_key (usage_idempotency_keys (settle_opt org key i t s)))"
      unfolding keys using assms(2) Some by (simp add: ledger_key_def)
    moreover have "settle_opt org key i t s = s\<lparr>usage_idempotency_keys :=
        usage_idempotency_keys (settle_opt org key i t s)\<rparr>"
      by (simp add: settle_opt_def settle_idempotency_def Some)
    ultimately have "usage_inv (settle_opt org key i t s)" using usage_inv_keys [OF assms(1)] by metis
    then show ?thesis unfolding keys using Some by auto
  qed
  then show "usage_inv (settle_opt org key i t s)"
    "set ks \<subseteq> set (usage_idempotency_keys (settle_opt org key i t s))"
    "key = Some k \<Longrightarrow> \<lparr>ik_organization_id = org, ik_idempotency_key = k, ik_metric = m,
          ik_quantity = q, ik_total_after = Some t, ik_event_id = Some i\<rparr>
        \<in> set (usage_idempotency_keys (settle_opt org key i t s))" by blast+
qed

lemma settle_opt_frame:
  "counter_total org' m' p (settle_opt org key i t s) = counter_total org' m' p s"
  "metric_rows (settle_opt org key i t s) = metric_rows s"
  "soft_account p s (settle_opt org key i t s)"
proof -
  have "usage_counters (settle_opt org key i t s) = usage_counters s
    \<and> outbox_events (settle_opt org key i t s) = outbox_events s
    \<and> metric_rows (settle_opt org key i t s) = metric_rows s"
    by (simp add: settle_opt_def settle_idempotency_def split: option.split)
  then show "counter_total org' m' p (settle_opt org key i t s) = counter_total org' m' p s"
    "metric_rows (settle_opt org key i t s) = metric_rows s" "soft_account p s (settle_opt org key i t s)"
    by (simp_all add: counter_total_def soft_account_tables)
qed

lemma metering:
  assumes "usage_inv s" and "reserve_opt org key m q (s\<lparr>cache_store := st\<rparr>) = (True, s1)"
    and "insert_event org m q at key props s1 = (i, s2)" and "increment_counter org m q at s2 = (t, s3)"
    and "maybe_emit_soft_limit cfg now org m t s3 = Inr s4"
  shows "metered now org m q at key t s (settle_opt org key i t (emit_hard_limit org m lim t s4))"
proof -
  let ?s0 = "s\<lparr>cache_store := st\<rparr>" and ?s5 = "emit_hard_limit org m lim t s4"
  have inv0: "usage_inv ?s0" using usage_inv_kept [OF counters_kept_refl assms(1)] .
  note res = reserve_opt_effect [OF assms(2)]
  from res(1) obtain ks where s1: "s1 = ?s0\<lparr>usage_idempotency_keys := ks\<rparr>" by blast
  have d: "distinct (map ledger_key ks)"
    using res(2) res(3) inv0 by (auto simp: s1 usage_inv_def ledger_key_def split: option.splits)
  then have inv1: "usage_inv s1" using usage_inv_keys [OF inv0] s1 by simp
  note met = meter_effect [OF inv1 assms(3,4)]
  have "distinct (map counter_key (usage_counters s3))" using met(1) by (simp add: usage_inv_def)
  note emit = maybe_emit_soft_limit_effect [OF this assms(5)]
  have kept: "counters_kept s3 ?s5" using emit(1) emit_hard_limit_effect(1) by (rule counters_kept_trans)
  have inv5: "usage_inv ?s5" using kept met(1) by (rule usage_inv_kept)
  have keys5: "usage_idempotency_keys ?s5 = usage_idempotency_keys s @ (case key of None \<Rightarrow> [] | Some k \<Rightarrow>
        [\<lparr>ik_organization_id = org, ik_idempotency_key = k, ik_metric = m, ik_quantity = q,
          ik_total_after = None, ik_event_id = None\<rparr>])"
    using kept res(2) met(5) by (simp add: counters_kept_def)
  have fresh: "ledger_key x \<noteq> (org, k)" if "key = Some k" "x \<in> set (usage_idempotency_keys s)" for k x
    using res(3) [of k x] that by simp
  note settle = settle_opt_effect [OF inv5 keys5 fresh]
  have ct1: "counter_total org' m' p' s1 = counter_total org' m' p' s" for org' m' p'
    by (simp add: counter_total_def s1)
  have "soft_account (month_bucket now) s s1" by (rule soft_account_tables) (simp_all add: s1)
  then have acc: "soft_account (month_bucket now) s (settle_opt org key i t ?s5)"
    using met(8) emit(2) emit_hard_limit_effect(2) settle_opt_frame(3) soft_account_trans by metis
  have rows: "metric_rows ?s5 = metric_rows s" using kept met(6) by (simp add: counters_kept_def s1)
  have "counter_total org m (month_bucket at) (settle_opt org key i t ?s5) = t"
    "(org', m', p') \<noteq> (org, m, month_bucket at) \<Longrightarrow>
      counter_total org' m' p' (settle_opt org key i t ?s5) = counter_total org' m' p' s" for org' m' p'
    using met(3) met(4) [of org' m' p'] unfolding settle_opt_frame(1) counter_total_kept [OF kept] ct1 by blast+
  moreover have "t = counter_total org m (month_bucket at) s + q" using met(2) ct1 by simp
  moreover have "metric_rows (settle_opt org key i t ?s5) = metric_rows s" using rows settle_opt_frame(2) by metis
  ultimately show ?thesis
    unfolding metered_def using settle acc by blast
qed

section \<open>The operations, case by case\<close>

lemma replay_found:
  assumes "distinct (map ledger_key (usage_idempotency_keys s))"
    and "x \<in> set (usage_idempotency_keys s)" and "ledger_key x = (org, k)"
  shows "replay_idempotent org k s = Inr \<lparr>ur_metric = ik_metric x, ur_quantity = ik_quantity x,
    ur_total = (case ik_total_after x of Some t \<Rightarrow> t | None \<Rightarrow> 0), ur_deduplicated = True\<rparr>"
proof -
  have "filter (\<lambda>k'. ik_organization_id k' = org \<and> ik_idempotency_key k' = k) (usage_idempotency_keys s) = [x]"
    using distinct_key_filter [OF assms] by (simp add: ledger_key_def)
  then show ?thesis by (simp add: replay_idempotent_def rows_where_def)
qed

text \<open>A recorded quantity is either metered or the replay of an earlier request.\<close>

lemma record_usage_cases:
  assumes "record_usage cfg now org m q occ key props s = Inr (r, s')" and "usage_inv s"
  obtains (metered) "metered now org m q (case occ of Some t \<Rightarrow> t | None \<Rightarrow> now) key (ur_total r) s s'"
      "\<not> ur_deduplicated r" "ur_metric r = m" "ur_quantity r = q" "is_counter_metric m s"
  | (replayed) k where "key = Some k" "replay_idempotent org k s = Inr r" "s' = s" "ur_deduplicated r"
      "is_counter_metric m s"
proof -
  let ?at = "case occ of Some t \<Rightarrow> t | None \<Rightarrow> now"
  from assms(1) have ok: "is_counter_metric m s"
    by (auto simp: record_usage_def bind_r_eq_Inr is_counter_metric_def)
  obtain first s1 where res: "reserve_opt org key m q s = (first, s1)" by (rule prod.exhaust)
  show thesis
  proof (cases first)
    case False
    with reserve_opt_effect(4) [OF res] obtain k where k: "key = Some k" "s1 = s" by blast
    from assms(1) res False k have r: "replay_idempotent org k s = Inr r" "s' = s"
      by (auto simp: record_usage_def bind_r_eq_Inr Let_def)
    then have "ur_deduplicated r" by (auto simp: replay_idempotent_def split: list.splits)
    with r k ok show thesis by (intro replayed)
  next
    case True
    obtain i s2 where ins: "insert_event org m q ?at key props s1 = (i, s2)" by (rule prod.exhaust)
    obtain t s3 where inc: "increment_counter org m q ?at s2 = (t, s3)" by (rule prod.exhaust)
    from assms(1) res True ins inc obtain s4 where emit: "maybe_emit_soft_limit cfg now org m t s3 = Inr s4"
      and r: "r = \<lparr>ur_metric = m, ur_quantity = q, ur_total = t, ur_deduplicated = False\<rparr>"
      and s': "s' = settle_opt org key i t s4"
      by (auto simp: record_usage_def bind_r_eq_Inr Let_def)
    have "reserve_opt org key m q (s\<lparr>cache_store := cache_store s\<rparr>) = (True, s1)" using res True by simp
    from metering [OF assms(2) this ins inc emit, of None] r s' ok show thesis
      by (intro metered) (simp_all add: emit_hard_limit_def)
  qed
qed

lemma consume_cases:
  assumes "consume cfg now org m q key props s = Inr (r, s')" and "usage_inv s"
  obtains (metered) e s0 where "effective_for_org cfg now org s = Inr (e, s0)"
      "metered now org m q now key (ur_total r) s s'"
      "\<not> ur_deduplicated r" "\<And>v. limit_value e m = Some v \<Longrightarrow> ur_total r \<le> v"
      "ur_limit r = limit_value e m" "is_counter_metric m s"
  | (replayed) k x e s0 where "key = Some k" "effective_for_org cfg now org s = Inr (e, s0)"
      "replay_idempotent org k s = Inr x" "s' = s0" "r = held_against (limit_value e m) x"
      "ur_deduplicated r" "is_counter_metric m s"
proof -
  from assms(1) obtain e s0 where ok: "is_counter_metric m s"
    and eff: "effective_for_org cfg now org s = Inr (e, s0)"
    by (auto simp: consume_def bind_r_eq_Inr is_counter_metric_def)
  let ?lim = "limit_value e m"
  from effective_for_org_frame [OF eff] obtain st where s0: "s0 = s\<lparr>cache_store := st\<rparr>" by blast
  obtain first s1 where res: "reserve_opt org key m q s0 = (first, s1)" by (rule prod.exhaust)
  show thesis
  proof (cases first)
    case False
    with reserve_opt_effect(4) [OF res] obtain k where k: "key = Some k" "s1 = s0" by blast
    from assms(1) eff res False k obtain x where x: "replay_idempotent org k s0 = Inr x"
      "r = held_against ?lim x" "s' = s0"
      by (auto simp: consume_def bind_r_eq_Inr Let_def)
    from x(1) have "replay_idempotent org k s = Inr x" by (simp add: replay_idempotent_def s0)
    moreover from x have "ur_deduplicated r"
      by (auto simp: replay_idempotent_def held_against_def usage_result.defs split: list.splits)
    ultimately show thesis using k(1) eff x(2,3) ok by (intro replayed)
  next
    case True
    obtain i s2 where ins: "insert_event org m q now key props s1 = (i, s2)" by (rule prod.exhaust)
    obtain t s3 where inc: "increment_counter org m q now s2 = (t, s3)" by (rule prod.exhaust)
    from assms(1) eff res True ins inc obtain s4 where
      lim: "\<And>v. ?lim = Some v \<Longrightarrow> t \<le> v"
      and emit: "maybe_emit_soft_limit cfg now org m t s3 = Inr s4"
      and r: "r = held_against ?lim \<lparr>ur_metric = m, ur_quantity = q, ur_total = t, ur_deduplicated = False\<rparr>"
      and s': "s' = settle_opt org key i t (emit_hard_limit org m ?lim t s4)"
      by (auto simp: consume_def bind_r_eq_Inr Let_def split: option.splits)
    have "metered now org m q now key t s s'"
      unfolding s' by (rule metering [OF assms(2) _ ins inc emit]) (use res True s0 in simp)
    moreover have "ur_total r = t" "\<not> ur_deduplicated r" "ur_limit r = ?lim"
      by (simp_all add: r held_against_def usage_result.defs)
    ultimately show thesis using eff lim ok by (intro metered) simp_all
  qed
qed

section \<open>Runs of requests\<close>

text \<open>
  The requests of a month \<open>p\<close>, in any order: metering with and without enforcement, gauges,
  checks, and requests of other components, which do not write the usage tables.
\<close>

inductive usage_step :: "date \<Rightarrow> 'a usage_db_scheme \<Rightarrow> 'a usage_db_scheme \<Rightarrow> bool" for p :: date where
  recorded: "month_bucket now = p \<Longrightarrow> record_usage cfg now org m q occ key props s = Inr (r, s')
     \<Longrightarrow> usage_step p s s'"
| consumed: "month_bucket now = p \<Longrightarrow> consume cfg now org m q key props s = Inr (r', s')
     \<Longrightarrow> usage_step p s s'"
| gauge_set: "month_bucket now = p \<Longrightarrow> set_gauge cfg now org m v s = Inr (r', s') \<Longrightarrow> usage_step p s s'"
| gauge_adjusted: "month_bucket now = p \<Longrightarrow> adjust_gauge cfg now org m d enforce s = Inr (r', s')
     \<Longrightarrow> usage_step p s s'"
| checked: "check_usage cfg now org m q s = Inr (c, s') \<Longrightarrow> usage_step p s s'"
| other: "usage_counters s' = usage_counters s \<Longrightarrow> usage_events s' = usage_events s
     \<Longrightarrow> usage_idempotency_keys s' = usage_idempotency_keys s \<Longrightarrow> metric_rows s' = metric_rows s
     \<Longrightarrow> (\<And>org m. soft_events org m s' = soft_events org m s) \<Longrightarrow> usage_step p s s'"

text \<open>What every request preserves.\<close>

definition usage_step_ok :: "date \<Rightarrow> 'a usage_db_scheme \<Rightarrow> 'a usage_db_scheme \<Rightarrow> bool" where
  "usage_step_ok p s s' \<longleftrightarrow> usage_inv s' \<and> soft_account p s s'
     \<and> set (usage_idempotency_keys s) \<subseteq> set (usage_idempotency_keys s') \<and> metric_rows s' = metric_rows s"

lemma usage_step_ok_tables:
  assumes "usage_inv s" and "usage_counters s' = usage_counters s" "usage_events s' = usage_events s"
    and "usage_idempotency_keys s' = usage_idempotency_keys s" "metric_rows s' = metric_rows s"
    and "\<And>org m. soft_events org m s' = soft_events org m s"
  shows "usage_step_ok p s s'"
proof -
  have "counters_kept s s'" using assms(2-5) by (simp add: counters_kept_def)
  with assms(1) have "usage_inv s'" using usage_inv_kept by blast
  moreover have "soft_account p s s'"
    using assms(6) by (rule soft_account_mono) (simp add: notified_def assms(2))
  ultimately show ?thesis by (simp add: usage_step_ok_def assms(4,5))
qed

lemma usage_step_ok_cache: "usage_inv s \<Longrightarrow> usage_step_ok p s (s\<lparr>cache_store := st\<rparr>)"
  by (rule usage_step_ok_tables) (simp_all add: soft_events_def)

lemma usage_step_ok_trans: "usage_step_ok p s t \<Longrightarrow> usage_step_ok p t u \<Longrightarrow> usage_step_ok p s u"
  unfolding usage_step_ok_def using soft_account_trans by auto

lemma metered_ok: "metered now org m q at key t s s' \<Longrightarrow> usage_step_ok (month_bucket now) s s'"
  by (simp add: metered_def usage_step_ok_def)

text \<open>A gauge's level: its upsert touches no counter metric.\<close>

lemma gauge_upsert_ok:
  assumes "usage_inv s" and "assert_gauge_metric m s = Inr ()"
    and "upsert_counter org m GAUGE_PERIOD fresh move at s = (t, s')"
  shows "usage_step_ok p s s'"
proof -
  from upsert_counter_frame [OF assms(3)] obtain cs where s': "s' = s\<lparr>usage_counters := cs\<rparr>" by blast
  have d: "distinct (map counter_key (usage_counters s))" using assms(1) by (simp add: usage_inv_def)
  note eff = upsert_counter_effect [OF d assms(3)]
  have "counter_total org' m' p' s' = event_total org' m' p' s'" if c: "is_counter_metric m' s'" for org' m' p'
  proof -
    have cm: "is_counter_metric m' s" using c assert_metric_cong(4) [of s' s m'] by (simp add: s')
    with kinds_exclusive [OF assms(2)] have "m' \<noteq> m" by blast
    then have "counter_total org' m' p' s' = counter_total org' m' p' s" by (intro eff(5)) simp
    also have "\<dots> = event_total org' m' p' s" using assms(1) cm by (simp add: usage_inv_def)
    finally show ?thesis by (simp add: event_total_def s')
  qed
  then have "usage_inv s'" using eff(1) assms(1) by (simp add: usage_inv_def s')
  moreover have "soft_account p s s'"
    by (rule soft_account_mono) (simp_all add: soft_events_def s' upsert_notified [OF assms(3), unfolded s'])
  ultimately show ?thesis by (simp add: usage_step_ok_def s')
qed

lemma gauge_result_frame:
  "gauge_result cfg now org m level s = Inr (r, s') \<Longrightarrow> \<exists>st. s' = s\<lparr>cache_store := st\<rparr>"
  by (auto simp: gauge_result_def bind_r_eq_Inr dest: effective_for_org_frame)

lemma ensure_gauge_capacity_frame:
  "ensure_gauge_capacity cfg now org m c a s = Inr s' \<Longrightarrow> \<exists>st. s' = s\<lparr>cache_store := st\<rparr>"
  by (auto simp: ensure_gauge_capacity_def bind_r_eq_Inr dest: effective_for_org_frame)

lemma adjust_gauge_Inr:
  assumes "adjust_gauge cfg now org m d enforce s = Inr (r, s')"
  obtains s0 t s1 where "assert_gauge_metric m s = Inr ()"
    and "enforce \<and> 0 < d \<longrightarrow> (\<exists>c. current_total now org m None s = Inr c
      \<and> ensure_gauge_capacity cfg now org m c d s = Inr s0)"
    and "\<exists>st. s0 = s\<lparr>cache_store := st\<rparr>"
    and "upsert_counter org m GAUGE_PERIOD (max d 0) (\<lambda>t. max (t + max d 0 - max d 0 + d) 0) (tx_now s0) s0 = (t, s1)"
    and "gauge_result cfg now org m t s1 = Inr (r, s')"
proof -
  let ?check = "if enforce \<and> d > 0
    then bind_r (current_total now org m None s) (\<lambda>current. ensure_gauge_capacity cfg now org m current d s)
    else Inr s"
  from assms obtain s0 where g: "assert_gauge_metric m s = Inr ()" and check: "?check = Inr s0"
    and rest: "(let (level, s2) = upsert_counter org m GAUGE_PERIOD (max d 0)
             (\<lambda>t. max (t + max d 0 - max d 0 + d) 0) (tx_now s0) s0
       in gauge_result cfg now org m level s2) = Inr (r, s')"
    unfolding adjust_gauge_def bind_r_eq_Inr by auto
  obtain t s1 where up: "upsert_counter org m GAUGE_PERIOD (max d 0)
      (\<lambda>t. max (t + max d 0 - max d 0 + d) 0) (tx_now s0) s0 = (t, s1)" by (rule prod.exhaust)
  have cap: "\<exists>c. current_total now org m None s = Inr c \<and> ensure_gauge_capacity cfg now org m c d s = Inr s0"
    if "enforce \<and> 0 < d" using check that by (auto simp: bind_r_eq_Inr)
  have "\<exists>st. s0 = s\<lparr>cache_store := st\<rparr>"
  proof (cases "enforce \<and> 0 < d")
    case True
    with cap show ?thesis by (auto dest: ensure_gauge_capacity_frame)
  next
    case False
    with check have "s0 = s\<lparr>cache_store := cache_store s\<rparr>" by auto
    then show ?thesis by blast
  qed
  moreover from rest up have "gauge_result cfg now org m t s1 = Inr (r, s')" by (simp only: Let_def prod.case)
  ultimately show thesis using that [OF g _ _ up] cap by blast
qed

lemma usage_step_preserves:
  assumes "usage_step p s s'" and inv: "usage_inv s"
  shows "usage_step_ok p s s'"
  using assms(1)
proof cases
  case (recorded now cfg org m q occ key props r)
  from recorded(2) inv show ?thesis
  proof (cases rule: record_usage_cases)
    case metered
    then show ?thesis using recorded(1) metered_ok by blast
  next
    case (replayed k)
    then show ?thesis using usage_step_ok_cache [OF inv, of p "cache_store s"] by simp
  qed
next
  case (consumed now cfg org m q key props r)
  from consumed(2) inv show ?thesis
  proof (cases rule: consume_cases)
    case (metered e s0)
    then show ?thesis using consumed(1) metered_ok by blast
  next
    case (replayed k x e s0)
    then show ?thesis using effective_for_org_frame usage_step_ok_cache [OF inv] by metis
  qed
next
  case (gauge_set now cfg org m v r)
  from gauge_set(2) obtain t s1 where g: "assert_gauge_metric m s = Inr ()"
    and up: "upsert_counter org m GAUGE_PERIOD (max v 0) (\<lambda>_. max v 0) (tx_now s) s = (t, s1)"
    and r: "gauge_result cfg now org m (max v 0) s1 = Inr (r, s')"
    by (auto simp: set_gauge_def bind_r_eq_Inr Let_def split: prod.splits)
  note ok = gauge_upsert_ok [OF inv g up]
  then have "usage_inv s1" by (simp add: usage_step_ok_def)
  with ok gauge_result_frame [OF r] usage_step_ok_cache usage_step_ok_trans show ?thesis by metis
next
  case (gauge_adjusted now cfg org m d enforce r)
  from gauge_adjusted(2) obtain s0 t s1 where g: "assert_gauge_metric m s = Inr ()"
    and s0: "\<exists>st. s0 = s\<lparr>cache_store := st\<rparr>"
    and up: "upsert_counter org m GAUGE_PERIOD (max d 0) (\<lambda>t. max (t + max d 0 - max d 0 + d) 0) (tx_now s0) s0 = (t, s1)"
    and r: "gauge_result cfg now org m t s1 = Inr (r, s')"
    by (rule adjust_gauge_Inr)
  from s0 have ok0: "usage_step_ok p s s0" and g0: "assert_gauge_metric m s0 = Inr ()"
    using usage_step_ok_cache [OF inv] g assert_metric_cong(2) [of s0 s m] by auto
  then have inv0: "usage_inv s0" by (simp add: usage_step_ok_def)
  note ok = gauge_upsert_ok [OF inv0 g0 up]
  then have "usage_inv s1" by (simp add: usage_step_ok_def)
  with ok0 ok gauge_result_frame [OF r] usage_step_ok_cache usage_step_ok_trans show ?thesis by metis
next
  case (checked cfg now org m q c)
  then have "\<exists>st. s' = s\<lparr>cache_store := st\<rparr>"
    by (auto simp: check_usage_def bind_r_eq_Inr dest: effective_for_org_frame)
  then show ?thesis using usage_step_ok_cache [OF inv] by auto
next
  case other
  then show ?thesis using inv by (intro usage_step_ok_tables)
qed

lemma usage_run_preserves:
  assumes "(usage_step p)\<^sup>*\<^sup>* s s'" and "usage_inv s"
  shows "usage_step_ok p s s'"
  using assms
proof (induction rule: rtranclp_induct)
  case base
  then show ?case using usage_step_ok_cache [of s p "cache_store s"] by simp
next
  case (step t u)
  then have ok: "usage_step_ok p s t" by simp
  then have "usage_inv t" by (simp add: usage_step_ok_def)
  with step(2) have "usage_step_ok p t u" by (rule usage_step_preserves)
  with ok show ?case by (rule usage_step_ok_trans)
qed

definition usage_run :: "'a usage_db_scheme \<Rightarrow> 'a usage_db_scheme \<Rightarrow> bool" where
  "usage_run = (\<lambda>s s'. \<exists>p. usage_step p s s')\<^sup>*\<^sup>*"

lemma usage_run_keeps:
  assumes "usage_run s s'" and "usage_inv s"
  shows "usage_inv s' \<and> set (usage_idempotency_keys s) \<subseteq> set (usage_idempotency_keys s')
    \<and> metric_rows s' = metric_rows s"
  using assms unfolding usage_run_def
proof (induction rule: rtranclp_induct)
  case base
  then show ?case by simp
next
  case (step t u)
  then obtain p where "usage_step p t u" "usage_inv t" by blast
  from usage_step_preserves [OF this] step show ?case by (auto simp: usage_step_ok_def)
qed

section \<open>What metering promises\<close>

text \<open>Whether the soft-limit notice of a resolved limit can be written: it always can.\<close>

lemma maybe_emit_soft_limit_returns:
  assumes "distinct (map counter_key (usage_counters s))" and "effective_for_org cfg now org s = Inr (e, s)"
  shows "\<exists>s'. maybe_emit_soft_limit cfg now org m t s = Inr s'"
proof (cases "soft_limit_due e m t")
  case None
  with assms(2) show ?thesis by (simp add: maybe_emit_soft_limit_def)
next
  case (Some d)
  obtain threshold limit where d: "d = (threshold, limit)" by (cases d)
  obtain b s2 where mark: "mark_soft_limit org m (month_bucket now) s = (b, s2)" by (rule prod.exhaust)
  from mark_soft_limit_effect(1) [OF assms(1) mark] obtain mk where "b = Inr mk" by blast
  with assms(2) Some d mark show ?thesis by (simp add: maybe_emit_soft_limit_def)
qed

lemma consume_fresh:
  assumes inv: "usage_inv s" and "is_counter_metric m s"
    and eff: "effective_for_org cfg now org s = Inr (e, s0)"
    and fresh: "\<And>k. key = Some k \<Longrightarrow> (org, k) \<notin> ledger_key ` set (usage_idempotency_keys s)"
  defines "used \<equiv> counter_total org m (month_bucket now) s"
  shows "case limit_value e m of
      Some v \<Rightarrow> if used + q \<le> v then \<exists>r s'. consume cfg now org m q key props s = Inr (r, s') \<and> \<not> ur_deduplicated r
        else consume cfg now org m q key props s = Inl (limit_exceeded_error m v (used + q) q)
    | None \<Rightarrow> \<exists>r s'. consume cfg now org m q key props s = Inr (r, s') \<and> \<not> ur_deduplicated r"
proof -
  from effective_for_org_frame [OF eff] obtain st where s0: "s0 = s\<lparr>cache_store := st\<rparr>" by blast
  have ok: "assert_counter_metric m s = Inr ()" using assms(2) by (simp add: is_counter_metric_def)
  obtain first s1 where res: "reserve_opt org key m q s0 = (first, s1)" by (rule prod.exhaust)
  have first: first
  proof (rule ccontr)
    assume "\<not> first"
    with reserve_opt_effect(4) [OF res] obtain k x where "key = Some k" "x \<in> set (usage_idempotency_keys s0)"
      "ledger_key x = (org, k)" by blast
    with fresh show False by (auto simp: s0 image_iff)
  qed
  obtain i s2 where ins: "insert_event org m q now key props s1 = (i, s2)" by (rule prod.exhaust)
  obtain t s3 where inc: "increment_counter org m q now s2 = (t, s3)" by (rule prod.exhaust)
  have inv0: "usage_inv s0" unfolding s0 using usage_inv_kept [OF counters_kept_refl inv] .
  note re = reserve_opt_effect [OF res]
  from re(1) obtain ks where s1: "s1 = s0\<lparr>usage_idempotency_keys := ks\<rparr>" by blast
  have "distinct (map ledger_key ks)"
    using re(2,3) first inv0 by (auto simp: s1 usage_inv_def ledger_key_def split: option.splits)
  then have inv1: "usage_inv s1" using usage_inv_keys [OF inv0] s1 by simp
  note met = meter_effect [OF inv1 ins inc]
  have t: "t = used + q" using met(2) by (simp add: used_def counter_total_def s1 s0)
  have d3: "distinct (map counter_key (usage_counters s3))" using met(1) by (simp add: usage_inv_def)
  have "cache_store s3 = cache_store s0" using met(7) by (simp add: s1)
  then have "effective_for_org cfg now org s3 = Inr (e, s3)" by (rule effective_again [OF eff])
  from maybe_emit_soft_limit_returns [OF d3 this] obtain s4 where
    emit: "maybe_emit_soft_limit cfg now org m t s3 = Inr s4" by blast
  have run: "consume cfg now org m q key props s =
     bind_r (case limit_value e m of None \<Rightarrow> Inr ()
               | Some v \<Rightarrow> guard_r (t \<le> v) (limit_exceeded_error m v t q)) (\<lambda>_.
       Inr (held_against (limit_value e m)
              \<lparr>ur_metric = m, ur_quantity = q, ur_total = t, ur_deduplicated = False\<rparr>,
            settle_opt org key i t (emit_hard_limit org m (limit_value e m) t s4)))"
    using ok eff res first ins inc emit by (simp add: consume_def Let_def)
  show ?thesis
    by (cases "limit_value e m") (auto simp: run t held_against_def usage_result.defs)
qed

text \<open>
  C2. Consumption enforces the plan's limit exactly. With a fresh idempotency key (or none) the
  request goes through when the month's total plus the quantity stays within the limit, and
  then the counter holds that sum, which never exceeds the limit, and no other counter has
  moved; otherwise it raises the 402 that names the limit, the use so far and the attempt. A
  metric without a limit is never refused.
\<close>

theorem consume_enforces_limit:
  assumes "usage_inv s" and "is_counter_metric m s" and "effective_for_org cfg now org s = Inr (e, s0)"
    and "\<And>k. key = Some k \<Longrightarrow> (org, k) \<notin> ledger_key ` set (usage_idempotency_keys s)"
    and "used = counter_total org m (month_bucket now) s"
  shows "if \<exists>v. limit_value e m = Some v \<and> v < used + q
    then consume cfg now org m q key props s
      = Inl (limit_exceeded_error m (the (limit_value e m)) (used + q) q)
    else \<exists>r s'. consume cfg now org m q key props s = Inr (r, s')
      \<and> ur_total r = used + q \<and> counter_total org m (month_bucket now) s' = used + q
      \<and> (\<forall>org' m' p'. (org', m', p') \<noteq> (org, m, month_bucket now) \<longrightarrow>
           counter_total org' m' p' s' = counter_total org' m' p' s)"
proof (cases "\<exists>v. limit_value e m = Some v \<and> v < used + q")
  case True
  then show ?thesis using consume_fresh [OF assms(1-4), where key = key and q = q and props = props] assms(5) by auto
next
  case False
  then obtain r s' where run: "consume cfg now org m q key props s = Inr (r, s')" "\<not> ur_deduplicated r"
    using consume_fresh [OF assms(1-4), where key = key and q = q and props = props] assms(5) by (auto split: option.splits)
  from run(1) assms(1) have "metered now org m q now key (ur_total r) s s'"
    by (cases rule: consume_cases) (use run(2) in auto)
  with run(1) False show ?thesis unfolding metered_def assms(5) by auto
qed

text \<open>
  The read-only check predicts enforcement: a check answers that the quantity is within the
  limit exactly when consuming it in its place would succeed.
\<close>

theorem check_predicts_consume:
  assumes "usage_inv s" and "is_counter_metric m s" and "check_usage cfg now org m q s = Inr (c, s0)"
  shows "uk_within_limit c \<longleftrightarrow> (\<exists>r s'. consume cfg now org m q None props s = Inr (r, s'))"
proof -
  from assms(3) obtain e p where eff: "effective_for_org cfg now org s = Inr (e, s0)"
    and p: "period_for now m s0 = Inr p"
    and c: "c = check_against e m (counter_total org m p s0) q"
    by (auto simp: check_usage_def current_total_def bind_r_eq_Inr)
  from effective_for_org_frame [OF eff] obtain st where s0: "s0 = s\<lparr>cache_store := st\<rparr>" by blast
  have "period_for now m s = Inr p" using p assert_metric_cong(3) [of s0 s now m] by (simp add: s0)
  then have "p = month_bucket now"
    using assms(2) by (auto simp: period_for_def is_counter_metric_def assert_counter_metric_def bind_r_eq_Inr)
  moreover have ct: "counter_total org m p s0 = counter_total org m p s" for p
    by (simp add: counter_total_def s0)
  ultimately have within: "uk_within_limit c \<longleftrightarrow>
      (case limit_value e m of None \<Rightarrow> True | Some v \<Rightarrow> counter_total org m (month_bucket now) s + q \<le> v)"
    by (simp add: c check_against_def Let_def ct)
  show ?thesis
    using consume_fresh [OF assms(1,2) eff, where key = None and q = q and props = props]
    by (cases "limit_value e m") (auto simp: within split: if_splits)
qed

text \<open>
  C3. A retry counts nothing. Once a request with an idempotency key has gone through, any
  later request of the organization with that key, after any number of other requests and
  whatever quantity it asks for, answers with the first request's metric, quantity and total,
  marked as deduplicated, and leaves counters, events and keys as they are.
\<close>

theorem retry_counts_once:
  assumes "usage_inv s" and "consume cfg now org m q (Some k) props s = Inr (r, s1)"
    and "\<not> ur_deduplicated r" and "usage_run s1 s2"
    and "is_counter_metric m' s2" and "effective_for_org cfg' now' org s2 = Inr (e, s3)"
  shows "consume cfg' now' org m' q' (Some k) props' s2
      = Inr (held_against (limit_value e m') \<lparr>ur_metric = m, ur_quantity = q, ur_total = ur_total r,
               ur_deduplicated = True\<rparr>, s3)
    \<and> usage_counters s3 = usage_counters s2 \<and> usage_events s3 = usage_events s2
    \<and> usage_idempotency_keys s3 = usage_idempotency_keys s2"
proof -
  from assms(2,1) have met: "metered now org m q now (Some k) (ur_total r) s s1"
    by (cases rule: consume_cases) (use assms(3) in auto)
  then obtain i where i: "\<lparr>ik_organization_id = org, ik_idempotency_key = k, ik_metric = m,
      ik_quantity = q, ik_total_after = Some (ur_total r), ik_event_id = Some i\<rparr> \<in> set (usage_idempotency_keys s1)"
    (is "?x \<in> _") by (auto simp: metered_def)
  have "usage_inv s1" using met by (simp add: metered_def)
  from usage_run_keeps [OF assms(4) this] i have x: "?x \<in> set (usage_idempotency_keys s2)"
    and inv2: "usage_inv s2" by auto
  from effective_for_org_frame [OF assms(6)] obtain st where s3: "s3 = s2\<lparr>cache_store := st\<rparr>" by blast
  have d: "distinct (map ledger_key (usage_idempotency_keys s3))" and x3: "?x \<in> set (usage_idempotency_keys s3)"
    using inv2 x by (simp_all add: usage_inv_def s3)
  have "replay_idempotent org k s3 = Inr \<lparr>ur_metric = m, ur_quantity = q, ur_total = ur_total r, ur_deduplicated = True\<rparr>"
    using replay_found [OF d x3, of org k] by (simp add: ledger_key_def)
  moreover have "reserve_opt org (Some k) m' q' s3 = (False, s3)"
    using x3 unfolding reserve_opt_def reserve_idempotency_def option.case
    by (subst if_P) (auto intro: bexI [of _ ?x])
  ultimately show ?thesis
    using assms(5,6) by (simp add: consume_def is_counter_metric_def) (simp add: s3)
qed

text \<open>
  C4. The counters are the ledger's sums. Starting from tables where that is so, after any run of
  metering, consumption, gauge and check requests, over any months, the counter of every
  counter metric in every month is the sum of the events metered for it in that month.
\<close>

theorem counters_agree_with_ledger:
  assumes "usage_run s s'" and "usage_inv s" and "is_counter_metric m s"
  shows "counter_total org m p s' = event_total org m p s' \<and> usage_inv s'"
  using usage_run_keeps [OF assms(1,2)] assert_metric_cong(4) [of s' s m] assms(3)
  by (simp add: usage_inv_def)

text \<open>
  The soft limit is announced at most once per metric and month: over any run of requests in
  one month the number of notices for a metric grows by at most one, and not at all when its
  counter was already marked.
\<close>

theorem soft_limit_announced_once:
  assumes "(usage_step p)\<^sup>*\<^sup>* s s'" and "usage_inv s"
  shows "soft_events org m s' \<le> soft_events org m s + (if notified org m p s then 0 else 1)"
proof -
  have "soft_events org m s' + of_bool (notified org m p s) \<le> soft_events org m s + of_bool (notified org m p s')"
    using usage_run_preserves [OF assms] by (simp add: usage_step_ok_def soft_account_def)
  then show ?thesis by (cases "notified org m p s"; cases "notified org m p s'") auto
qed

text \<open>
  A gauge moves by the given delta and never below zero, and an enforced increase never
  takes it past the limit it answers with.
\<close>

theorem gauge_level_and_capacity:
  assumes "usage_inv s" and "adjust_gauge cfg now org m d enforce s = Inr (r, s')"
    and "level = counter_total org m GAUGE_PERIOD s" and "0 \<le> level"
  shows "counter_total org m GAUGE_PERIOD s' = max (level + d) 0 \<and> ur_total r = max (level + d) 0
    \<and> (\<forall>v. enforce \<and> 0 < d \<and> ur_limit r = Some v \<longrightarrow> ur_total r \<le> v)"
proof -
  from assms(2) obtain s0 t s1 where g: "assert_gauge_metric m s = Inr ()"
    and cap: "enforce \<and> 0 < d \<longrightarrow> (\<exists>c. current_total now org m None s = Inr c
      \<and> ensure_gauge_capacity cfg now org m c d s = Inr s0)"
    and s0: "\<exists>st. s0 = s\<lparr>cache_store := st\<rparr>"
    and up: "upsert_counter org m GAUGE_PERIOD (max d 0) (\<lambda>t. max (t + max d 0 - max d 0 + d) 0) (tx_now s0) s0 = (t, s1)"
    and r: "gauge_result cfg now org m t s1 = Inr (r, s')"
    by (rule adjust_gauge_Inr)
  have d0: "distinct (map counter_key (usage_counters s0))" and l0: "counter_total org m GAUGE_PERIOD s0 = level"
    using s0 assms(1,3) by (auto simp: usage_inv_def counter_total_def)
  note eff = upsert_counter_effect [OF d0 up]
  have t: "t = max (level + d) 0" using eff(3) eff(4) l0 by (auto split: if_splits)
  from r obtain e where e: "effective_for_org cfg now org s1 = Inr (e, s')"
    and r': "r = held_against (limit_value e m) \<lparr>ur_metric = m, ur_quantity = t, ur_total = t, ur_deduplicated = False\<rparr>"
    by (auto simp: gauge_result_def bind_r_eq_Inr)
  then have "counter_total org m GAUGE_PERIOD s' = t"
    using eff(2) effective_for_org_frame [OF e] by (auto simp: counter_total_def)
  moreover have "ur_total r = t" "ur_limit r = limit_value e m" by (simp_all add: r' held_against_def usage_result.defs)
  moreover have "t \<le> v" if "enforce \<and> 0 < d" "limit_value e m = Some v" for v
  proof -
    from cap that(1) obtain c where c: "current_total now org m None s = Inr c"
      and ens: "ensure_gauge_capacity cfg now org m c d s = Inr s0" by blast
    have "c = level"
      using c g assms(3) by (auto simp: current_total_def period_for_def assert_gauge_metric_def bind_r_eq_Inr)
    from ens obtain e' where e': "effective_for_org cfg now org s = Inr (e', s0)"
      and le: "\<And>v. limit_value e' m = Some v \<Longrightarrow> c + d \<le> v"
      by (auto simp: ensure_gauge_capacity_def bind_r_eq_Inr split: option.splits)
    have "cache_store s1 = cache_store s0" using upsert_counter_frame [OF up] by auto
    from effective_again [OF e' this] e have "e' = e" by simp
    with le [of v] that \<open>c = level\<close> assms(4) show ?thesis by (simp add: t)
  qed
  ultimately show ?thesis using t by simp
qed

text \<open>Entitlements read only the subscription, plan, grant and metric tables and the cache.\<close>

definition resolution_tables_kept :: "'a usage_db_scheme \<Rightarrow> 'a usage_db_scheme \<Rightarrow> bool" where
  "resolution_tables_kept s s' \<longleftrightarrow> subscription_rows s' = subscription_rows s \<and> plan_rows s' = plan_rows s
     \<and> entitlement_rows s' = entitlement_rows s \<and> metric_rows s' = metric_rows s"

lemma compute_tables: "resolution_tables_kept s s' \<Longrightarrow> compute cfg now org s' = compute cfg now org s"
proof -
  assume kept: "resolution_tables_kept s s'"
  then have "current_for_org org s' = current_for_org org s" "plan_of r s' = plan_of r s"
    "plan_by_key k a s' = plan_by_key k a s" for r k a
    by (simp_all add: resolution_tables_kept_def current_for_org_def plan_of_def plan_by_key_def)
  moreover have "inputs_for cfg now org sub p s' = inputs_for cfg now org sub p s" for sub p
    using kept by (simp add: resolution_tables_kept_def inputs_for_def)
  ultimately show ?thesis by (simp add: compute_def plan_for_def cong: option.case_cong)
qed

lemma effective_for_org_tables:
  assumes "effective_for_org cfg now org s = Inr (e, s0)" and "cache_store s' = cache_store s"
    and "resolution_tables_kept s s'"
  shows "\<exists>s0'. effective_for_org cfg now org s' = Inr (e, s0')"
  using assms(1) compute_tables [OF assms(3)]
  by (auto simp: effective_for_org_def assms(2) Let_def bind_r_eq_Inr split: prod.splits option.splits)

lemma effective_returns:
  assumes "compute cfg now org s = Inr e"
  shows "\<exists>e' s'. effective_for_org cfg now org s = Inr (e', s')"
  using assms by (auto simp: effective_for_org_def Let_def split: prod.splits option.splits)

lemma resolution_kept_trans:
  "resolution_tables_kept s t \<Longrightarrow> resolution_tables_kept t u \<Longrightarrow> resolution_tables_kept s u"
  by (simp add: resolution_tables_kept_def)

lemma writers_keep_resolution:
  "effective_for_org cfg now org s = Inr (e, s') \<Longrightarrow> resolution_tables_kept s s'"
  "reserve_opt org key m q s = (first, s') \<Longrightarrow> resolution_tables_kept s s'"
  "insert_event org m q at key props s = (i, s') \<Longrightarrow> resolution_tables_kept s s'"
  "increment_counter org m q at s = (t, s') \<Longrightarrow> resolution_tables_kept s s'"
  "mark_soft_limit org m p s = (b, s') \<Longrightarrow> resolution_tables_kept s s'"
  "resolution_tables_kept s (append_outbox ev ty i payload org' (s\<lparr>next_uuid := n\<rparr>))"
  "resolution_tables_kept s (emit_hard_limit org m lim t s)"
  "resolution_tables_kept s (settle_opt org key i t s)"
proof -
  show "effective_for_org cfg now org s = Inr (e, s') \<Longrightarrow> resolution_tables_kept s s'"
    by (drule effective_for_org_frame) (auto simp: resolution_tables_kept_def)
  show "reserve_opt org key m q s = (first, s') \<Longrightarrow> resolution_tables_kept s s'"
    by (drule reserve_opt_effect(1)) (auto simp: resolution_tables_kept_def)
  show "insert_event org m q at key props s = (i, s') \<Longrightarrow> resolution_tables_kept s s'"
    by (auto simp: resolution_tables_kept_def insert_event_def)
  show "increment_counter org m q at s = (t, s') \<Longrightarrow> resolution_tables_kept s s'"
    unfolding increment_counter_def by (drule upsert_counter_frame) (auto simp: resolution_tables_kept_def)
  show "mark_soft_limit org m p s = (b, s') \<Longrightarrow> resolution_tables_kept s s'"
    by (auto simp: resolution_tables_kept_def mark_soft_limit_def Let_def)
  show app: "resolution_tables_kept s (append_outbox ev ty i payload org' (s\<lparr>next_uuid := n\<rparr>))"
    for ev ty i payload org' n by (simp add: resolution_tables_kept_def append_outbox_def)
  show "resolution_tables_kept s (emit_hard_limit org m lim t s)"
    unfolding emit_hard_limit_def by (simp add: app split: option.split) (simp add: resolution_tables_kept_def)
  show "resolution_tables_kept s (settle_opt org key i t s)"
    by (simp add: resolution_tables_kept_def settle_opt_def settle_idempotency_def split: option.split)
qed

lemma maybe_emit_keeps_resolution:
  assumes "maybe_emit_soft_limit cfg now org m t s = Inr s'"
  shows "resolution_tables_kept s s'"
proof -
  from assms obtain e s1 where eff: "effective_for_org cfg now org s = Inr (e, s1)"
    by (auto simp: maybe_emit_soft_limit_def bind_r_eq_Inr)
  have k1: "resolution_tables_kept s s1" by (rule writers_keep_resolution(1) [OF eff])
  show ?thesis
  proof (cases "soft_limit_due e m t")
    case None
    with assms eff k1 show ?thesis by (simp add: maybe_emit_soft_limit_def)
  next
    case (Some d)
    obtain threshold limit where d: "d = (threshold, limit)" by (cases d)
    obtain b s2 where mark: "mark_soft_limit org m (month_bucket now) s1 = (b, s2)" by (rule prod.exhaust)
    have k2: "resolution_tables_kept s s2" using k1 writers_keep_resolution(5) [OF mark] by (rule resolution_kept_trans)
    from assms eff Some d mark have "s' = s2 \<or> (\<exists>ev ty i payload org' n. s' = append_outbox ev ty i payload org' (s2\<lparr>next_uuid := n\<rparr>))"
      by (simp add: maybe_emit_soft_limit_def bind_r_eq_Inr) (elim conjE exE, simp split: if_splits, blast)
    with k2 writers_keep_resolution(6) resolution_kept_trans show ?thesis by metis
  qed
qed

lemma consume_keeps_resolution:
  assumes "consume cfg now org m q key props s = Inr (r, s')"
  shows "resolution_tables_kept s s'"
proof -
  from assms obtain e s0 where eff: "effective_for_org cfg now org s = Inr (e, s0)"
    by (auto simp: consume_def bind_r_eq_Inr)
  obtain first s1 where res: "reserve_opt org key m q s0 = (first, s1)" by (rule prod.exhaust)
  have k1: "resolution_tables_kept s s1"
    using writers_keep_resolution(1) [OF eff] writers_keep_resolution(2) [OF res] by (rule resolution_kept_trans)
  show ?thesis
  proof (cases first)
    case False
    with assms eff res k1 show ?thesis by (auto simp: consume_def bind_r_eq_Inr)
  next
    case True
    obtain i s2 where ins: "insert_event org m q now key props s1 = (i, s2)" by (rule prod.exhaust)
    obtain t s3 where inc: "increment_counter org m q now s2 = (t, s3)" by (rule prod.exhaust)
    from assms eff res True ins inc obtain s4 where emit: "maybe_emit_soft_limit cfg now org m t s3 = Inr s4"
      and s': "s' = settle_opt org key i t (emit_hard_limit org m (limit_value e m) t s4)"
      by (auto simp: consume_def bind_r_eq_Inr Let_def)
    show ?thesis
      unfolding s' using k1 writers_keep_resolution(3) [OF ins] writers_keep_resolution(4) [OF inc]
        maybe_emit_keeps_resolution [OF emit] writers_keep_resolution(7,8) resolution_kept_trans by metis
  qed
qed

section \<open>A concrete database\<close>

definition demo_usage :: usage_db where
  "demo_usage = ent_db.extend ((demo_ents [demo_subscription 5 1 demo_free Active])
     \<lparr>metric_rows := [\<lparr>mt_key = ''api_calls'', mt_name = ''API calls'', mt_kind = Counter, mt_unit = None,
         mt_overage_unit = None, mt_overage_price_cents = None\<rparr>,
        \<lparr>mt_key = ''seats'', mt_name = ''Seats'', mt_kind = Gauge, mt_unit = None,
         mt_overage_unit = None, mt_overage_price_cents = None\<rparr>]\<rparr>)
     \<lparr>usage_events = [], usage_counters = [], usage_idempotency_keys = []\<rparr>"

lemma demo_usage_fields [simp]:
  "usage_events demo_usage = []" "usage_counters demo_usage = []" "usage_idempotency_keys demo_usage = []"
  "subscription_rows demo_usage = [demo_subscription 5 1 demo_free Active]"
  "plan_rows demo_usage = [demo_free, demo_pro]" "entitlement_rows demo_usage = []"
  "cache_store demo_usage = Map.empty" "next_uuid demo_usage = 9" "tx_now demo_usage = 0"
  "metric_rows demo_usage = [\<lparr>mt_key = ''api_calls'', mt_name = ''API calls'', mt_kind = Counter, mt_unit = None,
         mt_overage_unit = None, mt_overage_price_cents = None\<rparr>,
        \<lparr>mt_key = ''seats'', mt_name = ''Seats'', mt_kind = Gauge, mt_unit = None,
         mt_overage_unit = None, mt_overage_price_cents = None\<rparr>]"
  by (simp_all add: demo_usage_def demo_ents_def demo_sub_simps sub_db.defs ent_db.defs)

lemma demo_usage_inv [simp]: "usage_inv demo_usage"
  by (simp add: usage_inv_def counter_total_def event_total_def rows_where_def)

lemma demo_usage_counter [simp]: "is_counter_metric ''api_calls'' demo_usage"
  by (simp add: is_counter_metric_def assert_counter_metric_def metric_of_def one_or_none_def)

definition demo_entitlements :: effective_entitlements where
  "demo_entitlements = resolve_effective
     (inputs_for demo_settings 0 1 (Some (demo_subscription 5 1 demo_free Active)) (Some demo_free) demo_usage)"

text \<open>Any database with these tables resolves the organization's entitlements to the same.\<close>

definition demo_tables :: "'a usage_db_scheme \<Rightarrow> bool" where
  "demo_tables s \<longleftrightarrow> subscription_rows s = subscription_rows demo_usage \<and> plan_rows s = plan_rows demo_usage
     \<and> entitlement_rows s = entitlement_rows demo_usage \<and> metric_rows s = metric_rows demo_usage
     \<and> cache_store s = cache_store demo_usage"

lemma demo_tables_computes:
  assumes "demo_tables s"
  shows "compute demo_settings 0 1 s = Inr demo_entitlements"
    and "current_for_org 1 s = Some (demo_subscription 5 1 demo_free Active)"
proof -
  show cur: "current_for_org 1 s = Some (demo_subscription 5 1 demo_free Active)"
    using assms by (simp add: demo_tables_def current_for_org_def rows_where_def occupying_def
        demo_subscription_def OCCUPYING_STATUSES_def)
  moreover have "plan_of (demo_subscription 5 1 demo_free Active) s = Inr demo_free"
    using assms by (simp add: demo_tables_def plan_of_def first_row_def demo_free_def demo_pro_def
        demo_plan_def demo_subscription_def)
  moreover have "inputs_for demo_settings 0 1 (Some (demo_subscription 5 1 demo_free Active)) (Some demo_free) s
      = inputs_for demo_settings 0 1 (Some (demo_subscription 5 1 demo_free Active)) (Some demo_free) demo_usage"
    using assms by (simp add: demo_tables_def inputs_for_def)
  ultimately show "compute demo_settings 0 1 s = Inr demo_entitlements"
    by (simp add: compute_def plan_for_def demo_entitlements_def)
qed

lemma demo_tables_effective:
  assumes "demo_tables s"
  shows "\<exists>s0. effective_for_org demo_settings 0 1 s = Inr (demo_entitlements, s0)"
proof -
  have "fst (fst (get_versioned (ttl_backend 0) entitlements_cache (cache_store s) (nat_str 1))) = None"
    using assms by (simp add: demo_tables_def get_versioned_def current_version_def ttl_backend_def ttl_get_def)
  from recomputed [OF this demo_tables_computes(1) [OF assms]] show ?thesis .
qed

lemma demo_tables_usage [simp]: "demo_tables demo_usage"
  by (simp add: demo_tables_def)

lemmas demo_usage_computes = demo_tables_computes(1) [OF demo_tables_usage]

lemma demo_usage_effective:
  "\<exists>e s0. effective_for_org demo_settings 0 1 demo_usage = Inr (e, s0) \<and> limit_value e ''api_calls'' = Some 1000
     \<and> limit_value e ''seats'' = None"
proof -
  have "\<exists>s0. effective_for_org demo_settings 0 1 demo_usage = Inr (demo_entitlements, s0)"
    by (rule demo_tables_effective) simp
  moreover have "limit_value demo_entitlements ''api_calls'' = Some 1000 \<and> limit_value demo_entitlements ''seats'' = None"
    by (simp add: demo_entitlements_def limit_value_def limit_of_def resolve_effective_def inputs_for_def Let_def demo_free_def
        demo_plan_def demo_subscription_def limit_of_row_def plan_active_def rows_where_def)
  ultimately show ?thesis by blast
qed

theorem consume_enforces_limit_witness:
  "consume demo_settings 0 1 ''api_calls'' 1001 (Some ''k'') None demo_usage
     = Inl (limit_exceeded_error ''api_calls'' 1000 1001 1001)
   \<and> (\<exists>r s'. consume demo_settings 0 1 ''api_calls'' 1000 None None demo_usage = Inr (r, s') \<and> ur_total r = 1000)"
proof -
  from demo_usage_effective obtain e s0 where e: "effective_for_org demo_settings 0 1 demo_usage = Inr (e, s0)"
    "limit_value e ''api_calls'' = Some 1000" by blast
  have zero: "0 = counter_total 1 ''api_calls'' (month_bucket 0) demo_usage"
    by (simp add: counter_total_def rows_where_def)
  show ?thesis
    using consume_enforces_limit [OF demo_usage_inv demo_usage_counter e(1) _ zero, of "Some ''k''" 1001 None]
      consume_enforces_limit [OF demo_usage_inv demo_usage_counter e(1) _ zero, of None 1000 None] e(2)
    by auto
qed

lemma demo_usage_consumed:
  "\<exists>r s'. consume demo_settings 0 1 ''api_calls'' 1000 (Some ''k'') None demo_usage = Inr (r, s')
     \<and> \<not> ur_deduplicated r"
proof -
  from demo_usage_effective obtain e s0 where e: "effective_for_org demo_settings 0 1 demo_usage = Inr (e, s0)"
    "limit_value e ''api_calls'' = Some 1000" by blast
  from consume_fresh [OF demo_usage_inv demo_usage_counter e(1), where key = "Some ''k''" and q = 1000
    and props = None] e(2) show ?thesis by (simp add: counter_total_def rows_where_def)
qed

theorem check_predicts_consume_witness:
  "\<exists>c s0. check_usage demo_settings 0 1 ''api_calls'' 1001 demo_usage = Inr (c, s0) \<and> \<not> uk_within_limit c
     \<and> (\<nexists>r s'. consume demo_settings 0 1 ''api_calls'' 1001 None None demo_usage = Inr (r, s'))"
proof -
  from demo_usage_effective obtain e s0 where e: "effective_for_org demo_settings 0 1 demo_usage = Inr (e, s0)"
    "limit_value e ''api_calls'' = Some 1000" by blast
  from effective_for_org_frame [OF e(1)] obtain st where s0: "s0 = demo_usage\<lparr>cache_store := st\<rparr>" by blast
  obtain c where c: "check_usage demo_settings 0 1 ''api_calls'' 1001 demo_usage = Inr (c, s0)" "\<not> uk_within_limit c"
    using e by (simp add: check_usage_def current_total_def period_for_def metric_of_def one_or_none_def s0
        check_against_def Let_def counter_total_def rows_where_def)
  from check_predicts_consume [OF demo_usage_inv demo_usage_counter c(1)] c show ?thesis by blast
qed

theorem retry_counts_once_witness:
  "\<exists>r s1 r' s3. consume demo_settings 0 1 ''api_calls'' 1000 (Some ''k'') None demo_usage = Inr (r, s1)
     \<and> consume demo_settings 0 1 ''api_calls'' 5 (Some ''k'') None s1 = Inr (r', s3) \<and> ur_total r' = ur_total r"
proof -
  from demo_usage_consumed obtain r s1 where run:
    "consume demo_settings 0 1 ''api_calls'' 1000 (Some ''k'') None demo_usage = Inr (r, s1)" "\<not> ur_deduplicated r"
    by blast
  have step: "usage_step (month_bucket 0) demo_usage s1" using run(1) by (rule consumed [OF refl])
  have rows: "metric_rows s1 = metric_rows demo_usage"
    using usage_step_preserves [OF step] by (simp add: usage_step_ok_def)
  then have "is_counter_metric ''api_calls'' s1"
    using assert_metric_cong(4) [OF rows] demo_usage_counter by simp
  moreover have "\<exists>e s3. effective_for_org demo_settings 0 1 s1 = Inr (e, s3)"
    using effective_returns compute_tables [OF consume_keeps_resolution [OF run(1)]] demo_usage_computes by metis
  ultimately show ?thesis
    using retry_counts_once [OF demo_usage_inv run, of s1 "''api_calls''" demo_settings 0] run(1)
    by (fastforce simp: usage_run_def held_against_def usage_result.defs)
qed

theorem counters_agree_with_ledger_witness:
  "\<exists>r s'. consume demo_settings 0 1 ''api_calls'' 1000 (Some ''k'') None demo_usage = Inr (r, s')
     \<and> counter_total 1 ''api_calls'' (month_bucket 0) s' = event_total 1 ''api_calls'' (month_bucket 0) s'"
proof -
  from demo_usage_consumed obtain r s1 where run:
    "consume demo_settings 0 1 ''api_calls'' 1000 (Some ''k'') None demo_usage = Inr (r, s1)" by blast
  then have "usage_run demo_usage s1" unfolding usage_run_def using consumed [OF refl] by blast
  from counters_agree_with_ledger [OF this demo_usage_inv demo_usage_counter] run show ?thesis by blast
qed

theorem soft_limit_announced_once_witness:
  "\<exists>r s'. consume demo_settings 0 1 ''api_calls'' 1000 (Some ''k'') None demo_usage = Inr (r, s')
     \<and> soft_events 1 ''api_calls'' s' \<le> soft_events 1 ''api_calls'' demo_usage + 1"
proof -
  from demo_usage_consumed obtain r s1 where run:
    "consume demo_settings 0 1 ''api_calls'' 1000 (Some ''k'') None demo_usage = Inr (r, s1)" by blast
  then have "(usage_step (month_bucket 0))\<^sup>*\<^sup>* demo_usage s1" using consumed [OF refl] by blast
  from soft_limit_announced_once [OF this demo_usage_inv, of 1 "''api_calls''"] run show ?thesis
    by (auto simp: notified_def)
qed

theorem gauge_level_and_capacity_witness:
  "\<exists>r s'. adjust_gauge demo_settings 0 1 ''seats'' 3 False demo_usage = Inr (r, s') \<and> ur_total r = 3"
proof -
  from demo_usage_effective obtain e s0 where e: "effective_for_org demo_settings 0 1 demo_usage = Inr (e, s0)" by blast
  let ?s1 = "snd (upsert_counter 1 ''seats'' GAUGE_PERIOD 3 (\<lambda>t. max (t + 3) 0) 0 demo_usage)"
  have "adjust_gauge demo_settings 0 1 ''seats'' 3 False demo_usage
      = gauge_result demo_settings 0 1 ''seats'' 3 ?s1"
    by (simp add: adjust_gauge_def assert_gauge_metric_def metric_of_def one_or_none_def Let_def
        upsert_counter_def first_row_def)
  moreover have "\<exists>s'. effective_for_org demo_settings 0 1 ?s1 = Inr (e, s')"
    by (rule effective_for_org_tables [OF e]) (simp_all add: upsert_counter_def first_row_def resolution_tables_kept_def)
  ultimately obtain r s' where run: "adjust_gauge demo_settings 0 1 ''seats'' 3 False demo_usage = Inr (r, s')"
    by (auto simp: gauge_result_def)
  have "0 = counter_total 1 ''seats'' GAUGE_PERIOD demo_usage" by (simp add: counter_total_def rows_where_def)
  from gauge_level_and_capacity [OF demo_usage_inv run this] run show ?thesis by simp
qed

end
