(* ===== verification/Scoped.thy ===== *)
theory Scoped
  imports Core
begin

text \<open>
  The contract of every lookup that serves one tenant: a row is returned only to the organization
  that owns it, and a row of another organization is refused with the very error of a row that
  does not exist. From it follows what tenants rely on: another tenant's rows cannot be told
  apart from missing ones, and what other tenants store has no influence on the answer.
\<close>

locale tenant_scoped_get =
  fixes get :: "uuid \<Rightarrow> uuid \<Rightarrow> 's \<Rightarrow> error + 'r"
    and rows :: "'s \<Rightarrow> 'r list" and ident :: "'r \<Rightarrow> uuid" and owner :: "'r \<Rightarrow> uuid option"
    and missing :: "uuid \<Rightarrow> error"
  assumes found: "get i org s = Inr r \<Longrightarrow> r \<in> set (rows s) \<and> ident r = i \<and> owner r = Some org"
    and refused: "distinct (map ident (rows s)) \<Longrightarrow> get i org s = Inl e \<Longrightarrow> e = missing i"
    and complete: "distinct (map ident (rows s)) \<Longrightarrow> r \<in> set (rows s) \<Longrightarrow> owner r = Some org
      \<Longrightarrow> get (ident r) org s = Inr r"
begin

lemma foreign: "distinct (map ident (rows s)) \<Longrightarrow> (\<And>r. r \<in> set (rows s) \<Longrightarrow> ident r = i \<Longrightarrow> owner r \<noteq> Some org)
    \<Longrightarrow> get i org s = Inl (missing i)"
  using found refused by (cases "get i org s") blast+

lemma get_iff:
  "distinct (map ident (rows s)) \<Longrightarrow>
     get i org s = Inr r \<longleftrightarrow> r \<in> set (rows s) \<and> ident r = i \<and> owner r = Some org"
  using found complete by metis

text \<open>Non-interference: only the tenant's own rows matter.\<close>

lemma only_own_rows_matter:
  assumes "distinct (map ident (rows s))" and "distinct (map ident (rows s'))"
    and "{r \<in> set (rows s). owner r = Some org} = {r \<in> set (rows s'). owner r = Some org}"
  shows "get i org s = get i org s'"
proof (cases "get i org s")
  case (Inr r)
  then have "r \<in> {r \<in> set (rows s). owner r = Some org}" "ident r = i" using found by blast+
  then have "get i org s' = Inr r" unfolding get_iff [OF assms(2)] assms(3) by simp
  with Inr show ?thesis by simp
next
  case (Inl e)
  have "get i org s' \<noteq> Inr r" for r
  proof
    assume "get i org s' = Inr r"
    then have "r \<in> {r \<in> set (rows s'). owner r = Some org}" "ident r = i" using found by blast+
    then have "get i org s = Inr r" unfolding get_iff [OF assms(1)] assms(3) [symmetric] by simp
    with Inl show False by simp
  qed
  then obtain e' where "get i org s' = Inl e'" by (cases "get i org s'") auto
  with Inl refused assms(1,2) show ?thesis by metis
qed

end

text \<open>The usual shape of such a lookup: load by primary key, compare the owner.\<close>

definition scoped_row :: "error \<Rightarrow> ('r \<Rightarrow> uuid) \<Rightarrow> ('r \<Rightarrow> uuid option) \<Rightarrow> uuid \<Rightarrow> uuid \<Rightarrow> 'r list \<Rightarrow> error + 'r" where
  "scoped_row missing ident owner i org rows =
     (case first_row (\<lambda>r. ident r = i) rows of
        None \<Rightarrow> Inl missing
      | Some r \<Rightarrow> if owner r = Some org then Inr r else Inl missing)"

lemma scoped_row_laws:
  "scoped_row m ident owner i org rows = Inr r \<Longrightarrow> r \<in> set rows \<and> ident r = i \<and> owner r = Some org"
  "scoped_row m ident owner i org rows = Inl e \<Longrightarrow> e = m"
  "distinct (map ident rows) \<Longrightarrow> r \<in> set rows \<Longrightarrow> owner r = Some org
     \<Longrightarrow> scoped_row m ident owner (ident r) org rows = Inr r"
  by (auto simp: scoped_row_def distinct_key_find split: option.splits if_splits dest!: first_row_SomeD)

end
