(* ===== verification/Preferences.thy ===== *)
theory Preferences
  imports Errors "HOL-Library.While_Combinator"
begin

text \<open>
  The caps on a user's stored preferences (\<open>identity/preferences.py\<close>): the names of the top-level
  keys, the number of keys, the nesting depth, the size of the JSON text. Everything here is pure.
  Characters are the code points below 256; a float is kept as mantissa and exponent, and its text is
  a parameter, as Python's \<open>repr\<close> gives it.
\<close>

section \<open>Parsed JSON\<close>

text \<open>Python's parser also accepts \<open>NaN\<close> and the infinities, which JSON does not know.\<close>

datatype pval =
    PNull
  | PBool bool
  | PInt int
  | PFloat int int  \<comment> \<open>\<open>m * 2 ^ e\<close>\<close>
  | PNotFinite
  | PStr string
  | PList "pval list"
  | PObj "(string \<times> pval) list"

type_synonym pobject = "(string \<times> pval) list"

definition MAX_PATCH_KEYS :: nat where "MAX_PATCH_KEYS = 32"
definition MAX_PATCH_BYTES :: nat where "MAX_PATCH_BYTES = 16384"
definition MAX_STORED_KEYS :: nat where "MAX_STORED_KEYS = 64"
definition MAX_STORED_BYTES :: nat where "MAX_STORED_BYTES = 32768"
definition MAX_DEPTH :: nat where "MAX_DEPTH = 8"

definition NUL :: char where "NUL = CHR 0x00"

section \<open>The encoded text\<close>

definition hex_char :: "nat \<Rightarrow> char" where
  "hex_char d = (if d < 10 then char_of (48 + d) else char_of (87 + d))"

definition escape_char :: "char \<Rightarrow> string" where
  "escape_char c =
     (let n = of_char c :: nat in
      if n = 34 then [char_of (92::nat), c] else if n = 92 then [c, c]
      else if n = 10 then [char_of (92::nat), CHR ''n''] else if n = 13 then [char_of (92::nat), CHR ''r'']
      else if n = 9 then [char_of (92::nat), CHR ''t''] else if n = 12 then [char_of (92::nat), CHR ''f'']
      else if n = 8 then [char_of (92::nat), CHR ''b'']
      else if n < 32 then [char_of (92::nat)] @ ''u00'' @ [hex_char (n div 16), hex_char (n mod 16)]
      else [c])"

definition json_string :: "string \<Rightarrow> string" where
  "json_string t = [char_of (34::nat)] @ concat (map escape_char t) @ [char_of (34::nat)]"

definition commas :: "string list \<Rightarrow> string" where
  "commas ts = (case ts of [] \<Rightarrow> [] | t # us \<Rightarrow> t @ concat (map (\<lambda>u. '','' @ u) us))"

text \<open>\<open>json.dumps(value, separators=(",", ":"), ensure_ascii=False, allow_nan=False)\<close>.\<close>

fun encode :: "(int \<Rightarrow> string) \<Rightarrow> (int \<Rightarrow> int \<Rightarrow> string) \<Rightarrow> pval \<Rightarrow> error + string"
  and encode_list :: "(int \<Rightarrow> string) \<Rightarrow> (int \<Rightarrow> int \<Rightarrow> string) \<Rightarrow> pval list \<Rightarrow> error + string list"
  and encode_items :: "(int \<Rightarrow> string) \<Rightarrow> (int \<Rightarrow> int \<Rightarrow> string) \<Rightarrow> pobject \<Rightarrow> error + string list" where
  "encode it ft PNull = Inr ''null''"
| "encode it ft (PBool b) = Inr (if b then ''true'' else ''false'')"
| "encode it ft (PInt n) = Inr (it n)"
| "encode it ft (PFloat m e) = Inr (ft m e)"
| "encode it ft PNotFinite = Inl ValueError"
| "encode it ft (PStr t) = Inr (json_string t)"
| "encode it ft (PList vs) = bind_r (encode_list it ft vs) (\<lambda>ts. Inr (''['' @ commas ts @ '']''))"
| "encode it ft (PObj d) = bind_r (encode_items it ft d) (\<lambda>ts. Inr (''{'' @ commas ts @ ''}''))"
| "encode_list it ft [] = Inr []"
| "encode_list it ft (v # vs) = bind_r (encode it ft v) (\<lambda>t. bind_r (encode_list it ft vs) (\<lambda>ts. Inr (t # ts)))"
| "encode_items it ft [] = Inr []"
| "encode_items it ft ((k, v) # d) = bind_r (encode it ft v) (\<lambda>t.
     bind_r (encode_items it ft d) (\<lambda>ts. Inr ((json_string k @ '':'' @ t) # ts)))"

definition utf8_len :: "char \<Rightarrow> nat" where
  "utf8_len c = (if (of_char c :: nat) < 128 then 1 else 2)"

definition preferences_size :: "(int \<Rightarrow> string) \<Rightarrow> (int \<Rightarrow> int \<Rightarrow> string) \<Rightarrow> pval \<Rightarrow> error + nat" where
  "preferences_size it ft v = bind_r (encode it ft v) (\<lambda>t. Inr (sum_list (map utf8_len t)))"

section \<open>The shape check\<close>

text \<open>
  The loop of \<open>_check_shape\<close>: a stack of nodes with their depth, its top first, until the stack is
  empty or a check fails.
\<close>

type_synonym shape_state = "error + (pval \<times> nat) list"

definition shape_goes_on :: "shape_state \<Rightarrow> bool" where
  "shape_goes_on st = (case st of Inr (x # rest) \<Rightarrow> True | _ \<Rightarrow> False)"

definition shape_node :: "nat \<Rightarrow> pval \<Rightarrow> nat \<Rightarrow> (pval \<times> nat) list \<Rightarrow> shape_state" where
  "shape_node limit node depth rest =
     (case node of
        PObj d \<Rightarrow>
          if limit < depth \<or> (\<exists>(k, v)\<in>set d. NUL \<in> set k) then Inl ValueError
          else Inr (rev (map (\<lambda>(k, v). (v, depth + 1)) d) @ rest)
      | PList vs \<Rightarrow>
          if limit < depth then Inl ValueError
          else Inr (rev (map (\<lambda>v. (v, depth + 1)) vs) @ rest)
      | PStr t \<Rightarrow> if NUL \<in> set t then Inl ValueError else Inr rest
      | _ \<Rightarrow> Inr rest)"

definition shape_step :: "nat \<Rightarrow> shape_state \<Rightarrow> shape_state" where
  "shape_step limit st =
     (case st of Inr ((node, depth) # rest) \<Rightarrow> shape_node limit node depth rest | _ \<Rightarrow> st)"

definition check_shape_loop :: "pval \<Rightarrow> nat \<Rightarrow> shape_state option" where
  "check_shape_loop v limit = while_option shape_goes_on (shape_step limit) (Inr [(v, 1)])"

text \<open>The loop's answer; that there is one is shown below.\<close>

definition check_shape :: "pval \<Rightarrow> nat \<Rightarrow> error + unit" where
  "check_shape v limit =
     (case check_shape_loop v limit of Some (Inl e) \<Rightarrow> Inl e | _ \<Rightarrow> Inr ())"

section \<open>The two validations\<close>

text \<open>\<open>[a-z][a-z0-9_-]{0,63}\<close>, the whole key.\<close>

definition key_start :: "char \<Rightarrow> bool" where
  "key_start c \<longleftrightarrow> (let n = of_char c :: nat in 97 \<le> n \<and> n \<le> 122)"

definition key_rest :: "char \<Rightarrow> bool" where
  "key_rest c \<longleftrightarrow> (let n = of_char c :: nat in 97 \<le> n \<and> n \<le> 122 \<or> 48 \<le> n \<and> n \<le> 57 \<or> n = 95 \<or> n = 45)"

definition preference_key :: "string \<Rightarrow> bool" where
  "preference_key k = (case k of [] \<Rightarrow> False | c # cs \<Rightarrow> key_start c \<and> list_all key_rest cs \<and> length cs \<le> 63)"

definition validate_preferences_patch ::
  "(int \<Rightarrow> string) \<Rightarrow> (int \<Rightarrow> int \<Rightarrow> string) \<Rightarrow> pval \<Rightarrow> error + pobject" where
  "validate_preferences_patch it ft v =
     (case v of
        PObj d \<Rightarrow>
          bind_r (guard_r (list_all (\<lambda>(k, _). preference_key k) d) ValueError) (\<lambda>_.
          bind_r (guard_r (length d \<le> MAX_PATCH_KEYS) ValueError) (\<lambda>_.
          bind_r (check_shape v MAX_DEPTH) (\<lambda>_.
          bind_r (preferences_size it ft v) (\<lambda>n.
          bind_r (guard_r (n \<le> MAX_PATCH_BYTES) ValueError) (\<lambda>_. Inr d)))))
      | _ \<Rightarrow> Inl ValueError)"

definition check_stored_preferences ::
  "(int \<Rightarrow> string) \<Rightarrow> (int \<Rightarrow> int \<Rightarrow> string) \<Rightarrow> pobject \<Rightarrow> error + unit" where
  "check_stored_preferences it ft merged =
     bind_r (guard_r (length merged \<le> MAX_STORED_KEYS) (Domain ValidationFailedError [])) (\<lambda>_.
       case preferences_size it ft (PObj merged) of
         Inl _ \<Rightarrow> raise_error ValidationFailedError
       | Inr n \<Rightarrow> guard_r (n \<le> MAX_STORED_BYTES) (Domain ValidationFailedError []))"

text \<open>\<open>{**stored, **patch}\<close>.\<close>

definition merge_preferences :: "pobject \<Rightarrow> pobject \<Rightarrow> pobject" where
  "merge_preferences stored patch = foldl (\<lambda>d (k, v). dict_set k v d) stored patch"

section \<open>What the loop decides\<close>

fun depth_of :: "pval \<Rightarrow> nat" where
  "depth_of (PList vs) = Suc (fold (\<lambda>v. max (depth_of v)) vs 0)"
| "depth_of (PObj d) = Suc (fold (\<lambda>(_, v). max (depth_of v)) d 0)"
| "depth_of _ = 0"

fun nul_free :: "pval \<Rightarrow> bool" where
  "nul_free (PStr t) = (NUL \<notin> set t)"
| "nul_free (PList vs) = (\<forall>v\<in>set vs. nul_free v)"
| "nul_free (PObj d) = (\<forall>(k, v)\<in>set d. NUL \<notin> set k \<and> nul_free v)"
| "nul_free _ = True"

fun nodes :: "pval \<Rightarrow> nat" where
  "nodes (PList vs) = Suc (sum_list (map nodes vs))"
| "nodes (PObj d) = Suc (sum_list (map (\<lambda>(_, v). nodes v) d))"
| "nodes _ = 1"

lemma fold_max_le: "fold (\<lambda>x. max (f x)) xs a \<le> n \<longleftrightarrow> a \<le> n \<and> (\<forall>x\<in>set xs. f x \<le> (n::nat))"
  by (induction xs arbitrary: a) auto

lemma depth_le:
  "depth_of (PList vs) \<le> n \<longleftrightarrow> 0 < n \<and> (\<forall>v\<in>set vs. depth_of v \<le> n - 1)"
  "depth_of (PObj d) \<le> n \<longleftrightarrow> 0 < n \<and> (\<forall>(k, v)\<in>set d. depth_of v \<le> n - 1)"
  by (cases n; simp add: fold_max_le; simp add: fold_max_le [where f = "\<lambda>(_, v). depth_of v", simplified case_prod_unfold] case_prod_unfold)+

text \<open>A node found at depth \<open>d\<close> is acceptable.\<close>

definition fits :: "nat \<Rightarrow> pval \<times> nat \<Rightarrow> bool" where
  "fits limit x \<longleftrightarrow> nul_free (fst x) \<and> depth_of (fst x) \<le> limit + 1 - snd x"

lemma fits_obj: "d \<le> limit + 1 \<Longrightarrow>
  fits limit (PObj o', d) \<longleftrightarrow> d \<le> limit \<and> (\<forall>(k, v)\<in>set o'. NUL \<notin> set k \<and> fits limit (v, d + 1))"
  unfolding fits_def fst_conv snd_conv depth_le by (auto simp del: depth_of.simps)

lemma fits_list: "d \<le> limit + 1 \<Longrightarrow>
  fits limit (PList vs, d) \<longleftrightarrow> d \<le> limit \<and> (\<forall>v\<in>set vs. fits limit (v, d + 1))"
  unfolding fits_def fst_conv snd_conv depth_le by (auto simp del: depth_of.simps)

text \<open>The state of the loop agrees with the verdict \<open>ok\<close> on the whole value.\<close>

definition shape_inv :: "nat \<Rightarrow> bool \<Rightarrow> shape_state \<Rightarrow> bool" where
  "shape_inv limit ok st = (case st of
     Inl e \<Rightarrow> \<not> ok \<and> e = ValueError
   | Inr stack \<Rightarrow> ok = (\<forall>x\<in>set stack. fits limit x) \<and> (\<forall>x\<in>set stack. snd x \<le> limit + 1))"

definition work :: "shape_state \<Rightarrow> nat" where
  "work st = (case st of Inl _ \<Rightarrow> 0 | Inr stack \<Rightarrow> sum_list (map (\<lambda>x. nodes (fst x)) stack))"

lemma nodes_pos: "0 < nodes v"
  by (cases v) simp_all

lemma shape_step_ok:
  assumes "shape_inv limit ok st" and "shape_goes_on st"
  shows "shape_inv limit ok (shape_step limit st)" and "work (shape_step limit st) < work st"
proof -
  from assms(2) obtain v d rest where st: "st = Inr ((v, d) # rest)"
    by (auto simp: shape_goes_on_def split: sum.splits list.splits)
  have d: "d \<le> limit + 1" and ok: "ok = (fits limit (v, d) \<and> (\<forall>x\<in>set rest. fits limit x))"
    and rest: "\<forall>x\<in>set rest. snd x \<le> limit + 1"
    using assms(1) by (auto simp: shape_inv_def st)
  show "shape_inv limit ok (shape_step limit st)"
  proof (cases v)
    case (PObj o')
    then show ?thesis using ok rest fits_obj [OF d, of o'] d
      by (auto simp: shape_step_def st shape_node_def shape_inv_def split: if_splits)
  next
    case (PList vs)
    then show ?thesis using ok rest fits_list [OF d, of vs] d
      by (auto simp: shape_step_def st shape_node_def shape_inv_def split: if_splits)
  qed (use ok rest d in \<open>auto simp: shape_step_def st shape_node_def shape_inv_def fits_def\<close>)
  show "work (shape_step limit st) < work st"
    by (cases v) (auto simp: shape_step_def st shape_node_def work_def sum_list_rev rev_map [symmetric] comp_def case_prod_unfold)
qed

lemma shape_verdict:
  assumes "shape_inv limit ok r" and "\<not> shape_goes_on r"
  shows "(r = Inr [] \<or> r = Inl ValueError) \<and> (r = Inr []) = ok"
proof (cases r)
  case (Inr stack)
  then have "stack = []" using assms(2) by (cases stack) (simp_all add: shape_goes_on_def)
  then show ?thesis using assms(1) Inr by (simp add: shape_inv_def)
qed (use assms(1) in \<open>simp add: shape_inv_def\<close>)

lemma shape_idle: "\<not> shape_goes_on st \<Longrightarrow> shape_step limit st = st"
  by (auto simp: shape_goes_on_def shape_step_def split: sum.splits list.splits)

lemma shape_iterate:
  "shape_inv limit ok st \<Longrightarrow> work st \<le> n \<Longrightarrow>
     shape_inv limit ok ((shape_step limit ^^ n) st) \<and> \<not> shape_goes_on ((shape_step limit ^^ n) st)"
proof (induction n arbitrary: st)
  case 0
  have "0 < work st" if "shape_goes_on st"
    using that nodes_pos by (auto simp: work_def shape_goes_on_def split: sum.splits list.splits)
  with 0 have "\<not> shape_goes_on st" by linarith
  with 0 show ?case by simp
next
  case (Suc n)
  show ?case
  proof (cases "shape_goes_on st")
    case True
    note s = shape_step_ok [OF Suc.prems(1) True]
    from Suc.IH [OF s(1)] s(2) Suc.prems(2) show ?thesis by (simp add: funpow_swap1)
  next
    case False
    have "(shape_step limit ^^ k) st = st" for k by (induction k) (simp_all add: shape_idle [OF False])
    from this [of "Suc n"] False Suc.prems(1) show ?thesis by (simp del: funpow.simps)
  qed
qed

lemma shape_check_runs:
  "\<exists>r. check_shape_loop v limit = Some r \<and> (shape_step limit ^^ nodes v) (Inr [(v, 1)]) = r
     \<and> (r = Inr [] \<or> r = Inl ValueError) \<and> (r = Inr []) = (nul_free v \<and> depth_of v \<le> limit)"
proof -
  let ?ok = "nul_free v \<and> depth_of v \<le> limit" and ?s = "Inr [(v, 1)] :: shape_state"
  let ?r = "(shape_step limit ^^ nodes v) ?s"
  have inv: "shape_inv limit ?ok ?s" by (simp add: shape_inv_def fits_def)
  have "work ?s \<le> nodes v" by (simp add: work_def)
  from shape_iterate [OF inv this] have r: "shape_inv limit ?ok ?r" "\<not> shape_goes_on ?r" by blast+
  obtain t where t: "while_option shape_goes_on (shape_step limit) ?s = Some t"
    using measure_while_option_Some [of "shape_inv limit ?ok" shape_goes_on "shape_step limit" work ?s]
      shape_step_ok inv by blast
  from while_option_stop2 [OF t] obtain k where k: "t = (shape_step limit ^^ k) ?s" "\<not> shape_goes_on t" by blast
  have idle: "(shape_step limit ^^ j) u = u" if "\<not> shape_goes_on u" for j u
    by (induction j) (simp_all add: shape_idle [OF that])
  have "t = ?r"
  proof (cases "k \<le> nodes v")
    case True
    then have "?r = (shape_step limit ^^ (nodes v - k)) t" using k(1) funpow_add [of "nodes v - k" k "shape_step limit"] by simp
    then show ?thesis using idle [OF k(2)] by simp
  next
    case False
    then have "t = (shape_step limit ^^ (k - nodes v)) ?r" using k(1) funpow_add [of "k - nodes v" "nodes v" "shape_step limit"] by simp
    then show ?thesis using idle [OF r(2)] by simp
  qed
  moreover have "(?r = Inr [] \<or> ?r = Inl ValueError) \<and> (?r = Inr []) = ?ok"
    by (rule shape_verdict [OF r])
  ultimately show ?thesis using t unfolding check_shape_loop_def by blast
qed

lemma check_shape_iff [simp]: "check_shape v limit = Inr u \<longleftrightarrow> nul_free v \<and> depth_of v \<le> limit"
  using shape_check_runs [of v limit] by (auto simp: check_shape_def)

lemma check_shape_error: "check_shape v limit = Inl e \<longleftrightarrow> e = ValueError \<and> \<not> (nul_free v \<and> depth_of v \<le> limit)"
  using shape_check_runs [of v limit] by (auto simp: check_shape_def)

text \<open>What a stored object satisfies: the caps of the store and, through the patches it was built from, those of a patch.\<close>

definition prefs_wellformed :: "(int \<Rightarrow> string) \<Rightarrow> (int \<Rightarrow> int \<Rightarrow> string) \<Rightarrow> pobject \<Rightarrow> bool" where
  "prefs_wellformed it ft d \<longleftrightarrow> distinct (map fst d) \<and> length d \<le> MAX_STORED_KEYS
     \<and> (\<exists>n \<le> MAX_STORED_BYTES. preferences_size it ft (PObj d) = Inr n)
     \<and> (\<forall>(k, v)\<in>set d. preference_key k) \<and> nul_free (PObj d) \<and> depth_of (PObj d) \<le> MAX_DEPTH"

lemma set_dict_set: "set (dict_set k v d) \<subseteq> insert (k, v) (set d)"
  by (induction k v d rule: dict_set.induct) auto

lemma merge_Cons: "merge_preferences d (x # p) = merge_preferences (dict_set (fst x) (snd x) d) p"
  by (simp add: merge_preferences_def case_prod_unfold)

lemma merge_Nil [simp]: "merge_preferences d [] = d"
  by (simp add: merge_preferences_def)

lemma merge_facts:
  "set (merge_preferences d p) \<subseteq> set d \<union> set p"
  "distinct (map fst d) \<Longrightarrow> distinct (map fst (merge_preferences d p))"
  "map_of (merge_preferences d p) = map_of d ++ map_of (rev p)"
proof (induction p arbitrary: d)
  case (Cons x p)
  { case 1 show ?case unfolding merge_Cons using Cons.IH(1) [of "dict_set (fst x) (snd x) d"] set_dict_set by fastforce }
  { case 2 then show ?case unfolding merge_Cons by (intro Cons.IH(2) distinct_dict_set) }
  { case 3 show ?case unfolding merge_Cons Cons.IH(3) by (cases x) (simp add: map_add_assoc [symmetric] map_add_def fun_eq_iff split: option.splits) }
qed simp_all

lemma validate_patch_Inr:
  "validate_preferences_patch it ft v = Inr p \<Longrightarrow> v = PObj p \<and> (\<forall>(k, _)\<in>set p. preference_key k) \<and> nul_free v
     \<and> depth_of v \<le> MAX_DEPTH \<and> length p \<le> MAX_PATCH_KEYS"
  by (auto simp: validate_preferences_patch_def bind_r_eq_Inr guard_r_def list_all_iff simp del: nul_free.simps depth_of.simps
      split: pval.splits if_splits)

text \<open>A valid patch leaves a well-formed object well-formed whenever the merge passes the check.\<close>

lemma merge_wellformed:
  assumes "prefs_wellformed it ft d" and "validate_preferences_patch it ft v = Inr p"
    and "check_stored_preferences it ft (merge_preferences d p) = Inr ()"
  shows "prefs_wellformed it ft (merge_preferences d p)"
proof -
  let ?m = "merge_preferences d p"
  note p = validate_patch_Inr [OF assms(2)]
  have sub: "set ?m \<subseteq> set d \<union> set p" by (rule merge_facts(1))
  have "nul_free (PObj ?m)" using assms(1) p sub by (force simp: prefs_wellformed_def simp del: depth_of.simps)
  moreover have "depth_of (PObj ?m) \<le> MAX_DEPTH"
    using assms(1) p sub unfolding depth_le prefs_wellformed_def by (force simp: depth_le simp del: depth_of.simps)
  moreover have "\<forall>(k, v)\<in>set ?m. preference_key k"
    using assms(1) p sub unfolding prefs_wellformed_def by fast
  moreover have "distinct (map fst ?m)" using assms(1) merge_facts(2) by (simp add: prefs_wellformed_def)
  ultimately show ?thesis using assms(3)
    by (auto simp: prefs_wellformed_def check_stored_preferences_def bind_r_eq_Inr guard_r_def split: if_splits sum.splits
        simp del: depth_of.simps nul_free.simps)
qed

lemma empty_wellformed [simp]: "prefs_wellformed it ft []"
  by (simp add: prefs_wellformed_def preferences_size_def bind_r_def commas_def utf8_len_def MAX_STORED_BYTES_def
      MAX_DEPTH_def)

text \<open>
  C21. The loop that checks a patch ends on every value, after at most as many rounds as the value
  has nodes, and so before its own recursion could be a danger; it accepts exactly the values that
  nest no deeper than the limit and contain no NUL.
\<close>

theorem shape_check_terminates:
  "\<exists>r. check_shape_loop v limit = Some r \<and> (shape_step limit ^^ nodes v) (Inr [(v, 1)]) = r
     \<and> (r = Inr [] \<or> r = Inl ValueError) \<and> (r = Inr []) = (nul_free v \<and> depth_of v \<le> limit)"
  by (rule shape_check_runs)

end
