(* ===== verification/Accounts.thy ===== *)
theory Accounts
  imports Usage Scoped Preferences
begin

text \<open>
  The two tables every account-related component shares: organizations (\<open>tenancy/models.py\<close>)
  and users (\<open>identity/models.py\<close>). Emails are \<open>CITEXT\<close>: compared without case, so a row keeps
  the lower-case form.
\<close>

datatype org_status = Org_Active | Org_Suspended | Org_Archived

definition org_status_name :: "org_status \<Rightarrow> string" where
  "org_status_name st = (case st of Org_Active \<Rightarrow> ''active'' | Org_Suspended \<Rightarrow> ''suspended'' | Org_Archived \<Rightarrow> ''archived'')"

record organization =
  org_id :: uuid
  org_slug :: string
  org_name :: string
  org_status :: org_status
  org_owner_user_id :: "uuid option"
  org_settings :: json_object
  org_deleted_at :: "datetime option"

definition org_is_active :: "organization \<Rightarrow> bool" where
  "org_is_active r \<longleftrightarrow> org_status r = Org_Active"

record user =
  us_id :: uuid
  us_email :: string
  us_password_hash :: "string option"
  us_display_name :: string
  us_avatar_url :: "string option"
  us_is_platform_admin :: bool
  us_is_active :: bool
  us_last_login_at :: "datetime option"
  us_identity_provider :: string
  us_provider_subject :: "string option"
  us_preferences :: pobject

record acct_db = usage_db +
  organizations :: "organization list"
  users :: "user list"

definition get_user :: "uuid \<Rightarrow> 'a acct_db_scheme \<Rightarrow> user option" where
  "get_user i s = first_row (\<lambda>u. us_id u = i) (users s)"

end
