(* ===== verification/Ids.thy ===== *)
theory Ids
  imports Core
begin

text \<open>
  \<open>core/ids.py\<close>: time-ordered UUIDs, their text, and slugs. Python's integers are unbounded, so
  the bit operations are those of \<open>int\<close>; the clock and \<open>os.urandom\<close> are arguments.
\<close>

unbundle bit_operations_syntax

section \<open>UUIDv7\<close>

text \<open>\<open>ns\<close> is \<open>time.time_ns()\<close>, \<open>r2\<close> and \<open>r8\<close> what two and eight random bytes read as integers.\<close>

definition uuid_v7 :: "int \<Rightarrow> int \<Rightarrow> int \<Rightarrow> int" where
  "uuid_v7 ns r2 r8 =
     (let ts_ms = ns div 1000000;
          rand_a = r2 AND 0x0FFF;
          rand_b = r8 AND 0x3FFFFFFFFFFFFFFF
      in ((((push_bit 80 (ts_ms AND 0xFFFFFFFFFFFF)) OR push_bit 76 0x7) OR push_bit 64 rand_a)
            OR push_bit 62 0b10) OR rand_b)"

text \<open>
  The embedded creation time in microseconds. The code goes through a float of the seconds, which
  is exact to the microsecond for times before the year 2106.
\<close>

definition uuid_v7_timestamp :: "int \<Rightarrow> datetime" where
  "uuid_v7_timestamp v = drop_bit 80 v * 1000"

lemma push_bit_or_plus:
  fixes x y :: int
  assumes "0 \<le> y" and "y < 2 ^ n"
  shows "push_bit n x OR y = x * 2 ^ n + y"
proof -
  have "push_bit n x AND y = 0"
  proof (rule bit_eqI)
    fix k
    have "\<not> bit y k" if "n \<le> k"
    proof -
      have "(2::int) ^ n \<le> 2 ^ k" using that by (rule power_increasing) simp
      with assms have "y div 2 ^ k = 0" by (intro div_pos_pos_trivial) linarith+
      then show ?thesis by (simp add: bit_iff_odd)
    qed
    then show "bit (push_bit n x AND y) k = bit 0 k" by (auto simp: bit_and_iff bit_push_bit_iff not_le)
  qed
  then show ?thesis by (simp add: disjunctive_add_eq_or [symmetric] push_bit_eq_mult)
qed

lemma and_mask_mod:
  fixes x :: int
  shows "x AND 0x0FFF = x mod 2 ^ 12" and "x AND 0x3FFFFFFFFFFFFFFF = x mod 2 ^ 62" and "x AND 0xFFFFFFFFFFFF = x mod 2 ^ 48"
  using take_bit_eq_mask [of 12 x] take_bit_eq_mask [of 62 x] take_bit_eq_mask [of 48 x]
  by (simp_all add: take_bit_eq_mod mask_eq_exp_minus_1)

text \<open>The fields of the value, as RFC 9562 lays them out.\<close>

lemma uuid_v7_fields:
  "uuid_v7 ns r2 r8 = (ns div 1000000 mod 2 ^ 48) * 2 ^ 80
     + (7 * 2 ^ 76 + (r2 mod 2 ^ 12 * 2 ^ 64 + (2 * 2 ^ 62 + r8 mod 2 ^ 62)))"
proof -
  have b: "0 \<le> r8 mod (2::int) ^ 62" "r8 mod (2::int) ^ 62 < 2 ^ 62" by simp_all
  have a: "0 \<le> r2 mod (2::int) ^ 12" "r2 mod (2::int) ^ 12 < 2 ^ 12" by simp_all
  have v: "push_bit 62 2 OR r8 mod 2 ^ 62 = 2 * 2 ^ 62 + r8 mod (2::int) ^ 62" by (rule push_bit_or_plus) (use b in auto)
  have r: "push_bit 64 (r2 mod 2 ^ 12) OR (2 * 2 ^ 62 + r8 mod 2 ^ 62)
      = r2 mod 2 ^ 12 * 2 ^ 64 + (2 * 2 ^ 62 + r8 mod (2::int) ^ 62)"
    by (rule push_bit_or_plus) (use b in auto)
  have n: "push_bit 76 7 OR (r2 mod 2 ^ 12 * 2 ^ 64 + (2 * 2 ^ 62 + r8 mod 2 ^ 62))
      = 7 * 2 ^ 76 + (r2 mod 2 ^ 12 * 2 ^ 64 + (2 * 2 ^ 62 + r8 mod (2::int) ^ 62))"
    by (rule push_bit_or_plus) (use a b in auto)
  have t: "push_bit 80 (ns div 1000000 mod 2 ^ 48) OR (7 * 2 ^ 76 + (r2 mod 2 ^ 12 * 2 ^ 64 + (2 * 2 ^ 62 + r8 mod 2 ^ 62)))
      = (ns div 1000000 mod 2 ^ 48) * 2 ^ 80 + (7 * 2 ^ 76 + (r2 mod 2 ^ 12 * 2 ^ 64 + (2 * 2 ^ 62 + r8 mod (2::int) ^ 62)))"
    by (rule push_bit_or_plus) (use a b in auto)
  show ?thesis unfolding uuid_v7_def Let_def and_mask_mod or.assoc v r n t by simp
qed

definition uuid_v7_low :: "int \<Rightarrow> int \<Rightarrow> int" where
  "uuid_v7_low r2 r8 = 7 * 2 ^ 76 + (r2 mod 2 ^ 12 * 2 ^ 64 + (2 * 2 ^ 62 + r8 mod 2 ^ 62))"

lemma uuid_v7_split: "uuid_v7 ns r2 r8 = (ns div 1000000 mod 2 ^ 48) * 2 ^ 80 + uuid_v7_low r2 r8"
  by (simp only: uuid_v7_fields uuid_v7_low_def)

lemma uuid_v7_low_bounds: "0 \<le> uuid_v7_low r2 r8" "uuid_v7_low r2 r8 < 2 ^ 80"
proof -
  have "0 \<le> r8 mod (2::int) ^ 62" "r8 mod (2::int) ^ 62 < 2 ^ 62"
    "0 \<le> r2 mod (2::int) ^ 12" "r2 mod (2::int) ^ 12 \<le> 2 ^ 12 - 1" by simp_all
  then show "0 \<le> uuid_v7_low r2 r8" "uuid_v7_low r2 r8 < 2 ^ 80" by (simp_all add: uuid_v7_low_def)
qed

lemma low_field: "0 \<le> y \<Longrightarrow> y < m \<Longrightarrow> (x * m + y) div m = (x::int)"
  by simp

lemma uuid_v7_version:
  "drop_bit 76 (uuid_v7 ns r2 r8) mod 16 = 7" "drop_bit 62 (uuid_v7 ns r2 r8) mod 4 = 2"
proof -
  let ?t = "ns div 1000000 mod 2 ^ 48" and ?a = "r2 mod 2 ^ 12" and ?b = "r8 mod 2 ^ 62"
  have a: "0 \<le> ?a" "?a \<le> 2 ^ 12 - 1" and b: "0 \<le> ?b" "?b < 2 ^ 62" by simp_all
  have v: "uuid_v7 ns r2 r8 = (?t * 16 + 7) * 2 ^ 76 + (?a * 2 ^ 64 + (2 * 2 ^ 62 + ?b))"
    unfolding uuid_v7_fields by simp
  have "uuid_v7 ns r2 r8 div 2 ^ 76 = ?t * 16 + 7"
    unfolding v by (rule low_field) (use a b in simp_all)
  then show "drop_bit 76 (uuid_v7 ns r2 r8) mod 16 = 7" by (simp add: drop_bit_eq_div)
  have w: "uuid_v7 ns r2 r8 = ((?t * 2 ^ 16 + 7 * 2 ^ 12 + ?a) * 4 + 2) * 2 ^ 62 + ?b"
    unfolding uuid_v7_fields by simp
  have "uuid_v7 ns r2 r8 div 2 ^ 62 = (?t * 2 ^ 16 + 7 * 2 ^ 12 + ?a) * 4 + 2"
    unfolding w by (rule low_field) (use b in simp_all)
  moreover have "(x * 4 + 2) mod 4 = (2::int)" for x by presburger
  ultimately show "drop_bit 62 (uuid_v7 ns r2 r8) mod 4 = 2" unfolding drop_bit_eq_div by metis
qed

lemma uuid_v7_range: "0 \<le> uuid_v7 ns r2 r8" "uuid_v7 ns r2 r8 < 2 ^ 128"
proof -
  have "0 \<le> ns div 1000000 mod (2::int) ^ 48" "ns div 1000000 mod (2::int) ^ 48 \<le> 2 ^ 48 - 1" by simp_all
  then show "0 \<le> uuid_v7 ns r2 r8" "uuid_v7 ns r2 r8 < 2 ^ 128"
    using uuid_v7_low_bounds [of r2 r8] by (simp_all add: uuid_v7_split)
qed



section \<open>The text of a UUID\<close>

definition hex_digit :: "nat \<Rightarrow> char" where
  "hex_digit d = ''0123456789abcdef'' ! d"

text \<open>The last \<open>n\<close> hexadecimal digits of a number.\<close>

fun hex_digits :: "nat \<Rightarrow> nat \<Rightarrow> string" where
  "hex_digits 0 v = []"
| "hex_digits (Suc n) v = hex_digits n (v div 16) @ [hex_digit (v mod 16)]"

definition uuid_str :: "uuid \<Rightarrow> string" where
  "uuid_str v =
     (let h = hex_digits 32 v
      in take 8 h @ ''-'' @ take 4 (drop 8 h) @ ''-'' @ take 4 (drop 12 h) @ ''-'' @ take 4 (drop 16 h)
         @ ''-'' @ drop 20 h)"

lemma length_hex_digits [simp]: "length (hex_digits n v) = n"
  by (induction n arbitrary: v) simp_all

lemma length_uuid_str [simp]: "length (uuid_str v) = 36"
  by (simp add: uuid_str_def Let_def)

lemma hex_digit_inject: "d < 16 \<Longrightarrow> e < 16 \<Longrightarrow> hex_digit d = hex_digit e \<longleftrightarrow> d = e"
  unfolding hex_digit_def by (rule nth_eq_iff_index_eq) simp_all

lemma hex_digits_inject:
  "v < 16 ^ n \<Longrightarrow> w < 16 ^ n \<Longrightarrow> hex_digits n v = hex_digits n w \<Longrightarrow> v = w"
proof (induction n arbitrary: v w)
  case (Suc n)
  then have "v div 16 = w div 16" by (intro Suc.IH) (auto simp: less_mult_imp_div_less mult.commute)
  moreover have "v mod 16 = w mod 16" using Suc.prems(3) by (simp add: hex_digit_inject)
  ultimately show ?case by (metis div_mult_mod_eq)
qed simp

lemma uuid_str_inject:
  assumes "v < 2 ^ 128" and "w < 2 ^ 128" and "uuid_str v = uuid_str w"
  shows "v = w"
proof -
  let ?h = "hex_digits 32 v" and ?k = "hex_digits 32 w"
  have parts: "h = take 8 h @ take 4 (drop 8 h) @ take 4 (drop 12 h) @ take 4 (drop 16 h) @ drop 20 h" for h :: string
    using append_take_drop_id [of 8 h] append_take_drop_id [of 4 "drop 8 h"]
      append_take_drop_id [of 4 "drop 12 h"] append_take_drop_id [of 4 "drop 16 h"] by simp
  have "take 8 ?h = take 8 ?k" "take 4 (drop 8 ?h) = take 4 (drop 8 ?k)" "take 4 (drop 12 ?h) = take 4 (drop 12 ?k)"
    "take 4 (drop 16 ?h) = take 4 (drop 16 ?k)" "drop 20 ?h = drop 20 ?k"
    using assms(3) by (simp_all add: uuid_str_def Let_def)
  then have "?h = ?k" using parts [of ?h] parts [of ?k] by metis
  then show ?thesis by (rule hex_digits_inject [rotated 2]) (use assms in simp_all)
qed

section \<open>Slugs\<close>

definition RESERVED_SLUGS :: "string list" where
  "RESERVED_SLUGS =
     [''www'', ''api'', ''app'', ''admin'', ''mail'', ''smtp'', ''ftp'', ''sftp'', ''ssh'', ''support'', ''help'',
      ''billing'', ''checkout'', ''pay'', ''login'', ''signin'', ''signup'', ''register'', ''logout'', ''static'',
      ''assets'', ''cdn'', ''docs'', ''status'', ''health'', ''platform'', ''system'', ''root'', ''synapse'',
      ''dashboard'', ''console'', ''portal'']"

text \<open>\<open>[a-z0-9]\<close>, and \<open>str.lower\<close> on the characters of a string (other letters stay outside the set).\<close>

definition slug_char :: "char \<Rightarrow> bool" where
  "slug_char c \<longleftrightarrow> (let n = of_char c :: nat in 97 \<le> n \<and> n \<le> 122 \<or> 48 \<le> n \<and> n \<le> 57)"

definition lower_char :: "char \<Rightarrow> char" where
  "lower_char c = (let n = of_char c :: nat in if 65 \<le> n \<and> n \<le> 90 then char_of (n + 32) else c)"

text \<open>\<open>re.sub("[^a-z0-9]+", "-", text)\<close>.\<close>

function dash_runs :: "string \<Rightarrow> string" where
  "dash_runs [] = []"
| "dash_runs (c # cs) =
     (if slug_char c then c # dash_runs cs
      else CHR ''-'' # dash_runs (dropWhile (\<lambda>d. \<not> slug_char d) cs))"
  by pat_completeness auto

termination
  by (relation "measure length") (auto simp: le_imp_less_Suc length_dropWhile_le)

text \<open>\<open>re.sub("-{2,}", "-", text)\<close>.\<close>

fun single_dashes :: "string \<Rightarrow> string" where
  "single_dashes (c # d # cs) =
     (if c = CHR ''-'' \<and> d = CHR ''-'' then single_dashes (d # cs) else c # single_dashes (d # cs))"
| "single_dashes cs = cs"

definition strip_dashes :: "string \<Rightarrow> string" where
  "strip_dashes t = rev (dropWhile (\<lambda>c. c = CHR ''-'') (rev (dropWhile (\<lambda>c. c = CHR ''-'') t)))"

definition slugify_to :: "nat \<Rightarrow> string \<Rightarrow> string" where
  "slugify_to max_length t =
     (let slug = strip_dashes (dash_runs (map lower_char t))
      in strip_dashes (take max_length (single_dashes slug)))"

definition slugify :: "string \<Rightarrow> string" where "slugify t = slugify_to 48 t"

text \<open>\<open>[a-z0-9](?:[a-z0-9-]{1,46}[a-z0-9])?\<close>, matched against the whole text.\<close>

definition slug_pattern :: "string \<Rightarrow> bool" where
  "slug_pattern t =
     (case t of [] \<Rightarrow> False
      | c # rest \<Rightarrow> slug_char c
          \<and> (rest = [] \<or> (2 \<le> length rest \<and> length rest \<le> 47 \<and> slug_char (last rest)
               \<and> list_all (\<lambda>d. slug_char d \<or> d = CHR ''-'') (butlast rest))))"

definition is_valid_slug :: "string \<Rightarrow> bool" where
  "is_valid_slug slug \<longleftrightarrow> slug_pattern slug \<and> slug \<notin> set RESERVED_SLUGS"

text \<open>\<open>suffix\<close> is \<open>os.urandom(3).hex()\<close>.\<close>

definition unique_slug :: "string \<Rightarrow> string \<Rightarrow> string" where
  "unique_slug suffix base =
     (let stem = strip_dashes (take 39 (slugify base))
      in (if stem = [] then ''org'' else stem) @ ''-'' @ suffix)"

section \<open>Slugs are canonical\<close>

definition no_double_dash :: "string \<Rightarrow> bool" where
  "no_double_dash t \<longleftrightarrow> successively (\<lambda>c d. c \<noteq> CHR ''-'' \<or> d \<noteq> CHR ''-'') t"

definition slug_text :: "string \<Rightarrow> bool" where
  "slug_text t \<longleftrightarrow> list_all (\<lambda>d. slug_char d \<or> d = CHR ''-'') t \<and> no_double_dash t"

definition trimmed :: "string \<Rightarrow> bool" where
  "trimmed t \<longleftrightarrow> t = [] \<or> (hd t \<noteq> CHR ''-'' \<and> last t \<noteq> CHR ''-'')"

lemma dash_not_slug_char [simp]: "\<not> slug_char (CHR ''-'')"
  by (simp add: slug_char_def)

lemma dash_runs_hd: "t \<noteq> [] \<Longrightarrow> dash_runs t \<noteq> [] \<and>
    hd (dash_runs t) = (if slug_char (hd t) then hd t else CHR ''-'')"
  by (cases t) auto

lemma slug_text_Cons:
  "slug_text (c # t) \<longleftrightarrow> (slug_char c \<or> c = CHR ''-'') \<and> slug_text t
     \<and> (t = [] \<or> c \<noteq> CHR ''-'' \<or> hd t \<noteq> CHR ''-'')"
  by (cases t) (auto simp: slug_text_def no_double_dash_def)

lemma dash_runs_slug_text: "slug_text (dash_runs t)"
proof (induction t rule: dash_runs.induct)
  case 1
  show ?case by (simp add: slug_text_def no_double_dash_def)
next
  case (2 c cs)
  let ?rest = "dropWhile (\<lambda>d. \<not> slug_char d) cs"
  have "hd (dash_runs ?rest) \<noteq> CHR ''-''" if "dash_runs ?rest \<noteq> []"
    using that dash_runs_hd [of ?rest] hd_dropWhile [of "\<lambda>d. \<not> slug_char d" cs] by (cases "?rest = []") auto
  with 2 show ?case by (auto simp: slug_text_Cons)
qed

lemma single_dashes_fix: "no_double_dash t \<Longrightarrow> single_dashes t = t"
  by (induction t rule: single_dashes.induct) (auto simp: no_double_dash_def)

lemma slug_text_append: "slug_text (xs @ ys) \<Longrightarrow> slug_text xs \<and> slug_text ys"
  by (auto simp: slug_text_def no_double_dash_def successively_append_iff)

lemma slug_text_take: "slug_text t \<Longrightarrow> slug_text (take n t)"
  using slug_text_append [of "take n t" "drop n t"] by simp

lemma strip_dashes_prefix: "\<exists>b. dropWhile (\<lambda>c. c = CHR ''-'') t = strip_dashes t @ b"
  unfolding strip_dashes_def by (metis rev_append rev_rev_ident takeWhile_dropWhile_id)

lemma strip_dashes_segment: "\<exists>a b. t = a @ strip_dashes t @ b"
proof -
  from strip_dashes_prefix [of t] obtain b where b: "dropWhile (\<lambda>c. c = CHR ''-'') t = strip_dashes t @ b" ..
  have "takeWhile (\<lambda>c. c = CHR ''-'') t @ strip_dashes t @ b = t"
    unfolding b [symmetric] by (rule takeWhile_dropWhile_id)
  then show ?thesis by (intro exI) (rule sym)
qed

lemma strip_dashes_trimmed: "trimmed (strip_dashes t)"
proof (cases "strip_dashes t = []")
  case False
  let ?p = "\<lambda>c. c = CHR ''-''" and ?u = "dropWhile (\<lambda>c. c = CHR ''-'') t"
  have s: "strip_dashes t = rev (dropWhile ?p (rev ?u))" by (simp add: strip_dashes_def)
  have ne: "dropWhile ?p (rev ?u) \<noteq> []" using False unfolding s by (rule contrapos_nn) (simp only: rev.simps)
  then have "last (strip_dashes t) \<noteq> CHR ''-''" using hd_dropWhile [OF ne] by (simp add: s last_rev)
  moreover have "?u \<noteq> []" using ne by (rule contrapos_nn) (simp only: rev.simps dropWhile.simps)
  then have "hd ?u \<noteq> CHR ''-''" using hd_dropWhile [of ?p t] by simp
  moreover obtain b where "?u = strip_dashes t @ b" using strip_dashes_prefix [of t] ..
  ultimately show ?thesis using False by (simp add: trimmed_def)
qed (simp add: trimmed_def)

lemma strip_dashes_slug_text: "slug_text t \<Longrightarrow> slug_text (strip_dashes t)"
  using strip_dashes_segment [of t] slug_text_append by metis

lemma length_strip_dashes: "length (strip_dashes t) \<le> length t"
  using strip_dashes_segment [of t] by (metis le_add1 le_add2 length_append order_trans)

lemma strip_dashes_fix: "trimmed t \<Longrightarrow> strip_dashes t = t"
  by (cases "t = []")
    (auto simp: trimmed_def strip_dashes_def hd_rev dropWhile_eq_self_iff [THEN iffD2])

lemma dash_runs_fix: "slug_text t \<Longrightarrow> dash_runs t = t"
proof (induction t rule: dash_runs.induct)
  case (2 c cs)
  show ?case
  proof (cases "slug_char c")
    case False
    with 2(3) have c: "c = CHR ''-''" and cs: "slug_text cs" "cs = [] \<or> hd cs \<noteq> CHR ''-''"
      by (auto simp: slug_text_Cons)
    then have "cs = [] \<or> slug_char (hd cs)" by (cases cs) (auto simp: slug_text_Cons)
    then have "dropWhile (\<lambda>d. \<not> slug_char d) cs = cs" by (cases cs) simp_all
    with 2(2) [OF False] False c cs(1) show ?thesis by simp
  qed (use 2 in \<open>simp add: slug_text_Cons\<close>)
qed simp

lemma lower_char_fix: "slug_char c \<or> c = CHR ''-'' \<Longrightarrow> lower_char c = c"
  by (auto simp: slug_char_def lower_char_def Let_def)

lemma lower_fix: "slug_text t \<Longrightarrow> map lower_char t = t"
  by (auto simp: slug_text_def list_all_iff lower_char_fix intro!: map_idI)

lemma slugify_to_slug: "slug_text (slugify_to n t) \<and> trimmed (slugify_to n t) \<and> length (slugify_to n t) \<le> n"
proof -
  let ?s = "strip_dashes (dash_runs (map lower_char t))"
  have s: "slug_text ?s" by (intro strip_dashes_slug_text dash_runs_slug_text)
  then have "single_dashes ?s = ?s" by (intro single_dashes_fix) (simp add: slug_text_def)
  then have eq: "slugify_to n t = strip_dashes (take n ?s)" by (simp add: slugify_to_def)
  have "length (take n ?s) \<le> n" by simp
  with length_strip_dashes [of "take n ?s"] s show ?thesis
    unfolding eq by (auto intro: strip_dashes_slug_text strip_dashes_trimmed slug_text_take)
qed

lemma slugify_to_fix: "slug_text t \<Longrightarrow> trimmed t \<Longrightarrow> length t \<le> n \<Longrightarrow> slugify_to n t = t"
  by (simp add: slugify_to_def lower_fix dash_runs_fix strip_dashes_fix single_dashes_fix slug_text_def)

lemma slug_pattern_iff:
  assumes "slug_text t" and "trimmed t" and "length t \<le> 48"
  shows "slug_pattern t \<longleftrightarrow> t \<noteq> [] \<and> length t \<noteq> 2"
proof (cases t)
  case (Cons c rest)
  have all: "list_all (\<lambda>d. slug_char d \<or> d = CHR ''-'') (c # rest)" using assms(1) Cons by (simp add: slug_text_def)
  have c: "slug_char c" using all assms(2) Cons by (simp add: trimmed_def)
  have "slug_char (last rest)" if "rest \<noteq> []"
    using all assms(2) Cons that last_in_set [OF that] by (auto simp: trimmed_def list_all_iff)
  moreover have "list_all (\<lambda>d. slug_char d \<or> d = CHR ''-'') (butlast rest)"
    using all by (auto simp: list_all_iff dest: in_set_butlastD)
  moreover have "rest = [] \<or> 2 \<le> length rest \<longleftrightarrow> length (c # rest) \<noteq> 2" by (cases rest; cases "tl rest") auto
  ultimately show ?thesis using c assms(3) Cons by (auto simp: slug_pattern_def)
qed (simp add: slug_pattern_def)

lemma unique_slug_valid:
  assumes "length suffix = 6" and "list_all slug_char suffix"
  shows "is_valid_slug (unique_slug suffix base)"
proof -
  let ?stem = "strip_dashes (take 39 (slugify base))"
  define st where "st = (if ?stem = [] then ''org'' else ?stem)"
  have slug: "slug_text (slugify base)" using slugify_to_slug [of 48 base] by (simp add: slugify_def)
  have "slug_text ?stem \<and> trimmed ?stem \<and> length ?stem \<le> 39"
    using strip_dashes_slug_text [OF slug_text_take [OF slug]] strip_dashes_trimmed
      order_trans [OF length_strip_dashes [of "take 39 (slugify base)"]] by auto
  moreover have "slug_text ''org''" by (simp add: slug_text_def no_double_dash_def slug_char_def)
  ultimately have st: "slug_text st" "trimmed st" "length st \<le> 39" "st \<noteq> []"
    by (auto simp: st_def trimmed_def)
  have suffix: "suffix \<noteq> []" "slug_text suffix" "trimmed suffix"
  proof -
    have alnum: "\<forall>c\<in>set suffix. c \<noteq> CHR ''-''" using assms(2) by (auto simp: list_all_iff)
    have "slug_text t \<and> trimmed t" if "list_all slug_char t" for t
      using that by (induction t) (auto simp: trimmed_def slug_text_def no_double_dash_def successively_Cons)
    with assms show "suffix \<noteq> []" "slug_text suffix" "trimmed suffix" by auto
  qed
  have whole: "slug_text (st @ ''-'' @ suffix)"
    using st suffix by (auto simp: slug_text_def no_double_dash_def successively_append_iff trimmed_def successively_Cons)
  have "slug_pattern (st @ ''-'' @ suffix)"
    using slug_pattern_iff [OF whole] st suffix assms(1) by (auto simp: trimmed_def)
  moreover have "st @ ''-'' @ suffix \<notin> set RESERVED_SLUGS"
  proof
    assume "st @ ''-'' @ suffix \<in> set RESERVED_SLUGS"
    moreover have "list_all (\<lambda>r. CHR ''-'' \<notin> set r) RESERVED_SLUGS" by (simp add: RESERVED_SLUGS_def)
    ultimately show False by (auto simp: list_all_iff)
  qed
  ultimately show ?thesis by (simp add: is_valid_slug_def unique_slug_def st_def Let_def)
qed

text \<open>
  Slugs are canonical: the result of \<open>slugify\<close> consists of lower-case letters, digits and
  single inner dashes, has at most 48 characters and is its own slug. It is accepted as a slug
  unless it is empty, reserved or has exactly two characters (which the pattern leaves out).
  With a random suffix of six hexadecimal digits every name gets an acceptable slug.
\<close>

theorem slugify_canonical:
  assumes "length suffix = 6" and "list_all slug_char suffix"
  shows "slug_text (slugify t) \<and> trimmed (slugify t) \<and> length (slugify t) \<le> 48 \<and> slugify (slugify t) = slugify t
   \<and> (is_valid_slug (slugify t) \<longleftrightarrow> slugify t \<notin> {[]} \<union> set RESERVED_SLUGS \<and> length (slugify t) \<noteq> 2)
   \<and> is_valid_slug (unique_slug suffix t)"
  using slugify_to_slug [of 48 t] slugify_to_fix [of "slugify t" 48] slug_pattern_iff [of "slugify t"]
    unique_slug_valid [OF assms]
  by (auto simp: slugify_def is_valid_slug_def)

theorem slugify_canonical_witness:
  "slugify '' HP & Sons '' = ''hp-sons'' \<and> is_valid_slug (unique_slug ''0a1b2c'' ''HP'')
   \<and> \<not> is_valid_slug (slugify ''HP'')"
proof -
  have "length ''0a1b2c'' = 6" "list_all slug_char ''0a1b2c''" by (simp_all add: slug_char_def)
  from slugify_canonical [OF this, of "''HP''"] have "is_valid_slug (unique_slug ''0a1b2c'' ''HP'')"
    "is_valid_slug (slugify ''HP'') \<longleftrightarrow> slugify ''HP'' \<notin> {[]} \<union> set RESERVED_SLUGS \<and> length (slugify ''HP'') \<noteq> 2"
    by blast+
  moreover have "slugify ''HP'' = ''hp''"
    by code_simp
  moreover have "slugify '' HP & Sons '' = ''hp-sons''"
    by code_simp
  ultimately show ?thesis by simp
qed

end
