(* ===== verification/Permissions.thy ===== *)
theory Permissions
  imports Plans
begin

text \<open>
  The permission catalog and the system roles (\<open>authorization/permissions.py\<close>), their projection
  into an OpenFGA model (\<open>authorization/fga_model.py\<close>) and the tuples a member must have there
  (\<open>authorization/sync.py\<close>). OpenFGA itself is a parameter: what its documentation says a check
  answers is a hypothesis of the one theorem about it.
\<close>

section \<open>The catalog\<close>

record permission_def =
  pm_key :: string
  pm_resource :: string
  pm_action :: string
  pm_description :: string

definition PermissionDef :: "string \<Rightarrow> string \<Rightarrow> string \<Rightarrow> string \<Rightarrow> permission_def" where
  "PermissionDef key resource action description =
     \<lparr>pm_key = key, pm_resource = resource, pm_action = action, pm_description = description\<rparr>"

definition PERMISSIONS :: "permission_def list" where
  "PERMISSIONS =
     [PermissionDef ''org:read'' ''org'' ''read'' ''View organization details'',
      PermissionDef ''org:update'' ''org'' ''update'' ''Update organization profile and settings'',
      PermissionDef ''org:delete'' ''org'' ''delete'' ''Delete the organization'',
      PermissionDef ''member:read'' ''member'' ''read'' ''List members and their roles'',
      PermissionDef ''member:invite'' ''member'' ''invite'' ''Invite new members'',
      PermissionDef ''member:update'' ''member'' ''update'' ''Change member roles and status'',
      PermissionDef ''member:remove'' ''member'' ''remove'' ''Remove members from the organization'',
      PermissionDef ''role:manage'' ''role'' ''manage'' ''Create, update, and delete custom roles'',
      PermissionDef ''billing:read'' ''billing'' ''read'' ''View subscription, plans, and invoices'',
      PermissionDef ''billing:manage'' ''billing'' ''manage'' ''Change plans, start trials, manage payment'',
      PermissionDef ''usage:read'' ''usage'' ''read'' ''View usage meters and limits'',
      PermissionDef ''audit:read'' ''audit'' ''read'' ''View the organization audit log'',
      PermissionDef ''webhook:manage'' ''webhook'' ''manage'' ''Manage webhook endpoints and view deliveries'',
      PermissionDef ''entitlement:manage'' ''entitlement'' ''manage''
        ''Grant or revoke feature entitlements (operator)'',
      PermissionDef ''apikey:manage'' ''apikey'' ''manage'' ''Create, list, and revoke API keys'',
      PermissionDef ''file:read'' ''file'' ''read'' ''List and download organization files'',
      PermissionDef ''file:write'' ''file'' ''write'' ''Upload and delete organization files'',
      PermissionDef ''project:read'' ''project'' ''read'' ''View projects'',
      PermissionDef ''project:manage'' ''project'' ''manage'' ''Create, update, and delete projects'',
      PermissionDef ''agents:read'' ''agents'' ''read'' ''View registered agents'',
      PermissionDef ''agents:manage'' ''agents'' ''manage'' ''Register, update, enable/disable agents'']"

definition PERMISSION_KEYS :: "string list" where
  "PERMISSION_KEYS = map pm_key PERMISSIONS"

definition OWNER_PERMISSIONS :: "string list" where
  "OWNER_PERMISSIONS = filter (\<lambda>k. k \<noteq> ''entitlement:manage'') PERMISSION_KEYS"

definition ADMIN_PERMISSIONS :: "string list" where
  "ADMIN_PERMISSIONS = filter (\<lambda>k. k \<noteq> ''org:delete'') OWNER_PERMISSIONS"

definition BILLING_PERMISSIONS :: "string list" where
  "BILLING_PERMISSIONS = [''org:read'', ''billing:read'', ''billing:manage'', ''usage:read'']"

definition DEVELOPER_PERMISSIONS :: "string list" where
  "DEVELOPER_PERMISSIONS =
     [''org:read'', ''member:read'', ''project:read'', ''project:manage'', ''webhook:manage'',
      ''usage:read'', ''apikey:manage'', ''agents:read'']"

definition MEMBER_PERMISSIONS :: "string list" where
  "MEMBER_PERMISSIONS = [''org:read'', ''member:read'', ''project:read'']"

record system_role =
  sr_name :: string
  sr_description :: string
  sr_permissions :: "string list"

definition SYSTEM_ROLE_OWNER :: string where "SYSTEM_ROLE_OWNER = ''owner''"

definition SYSTEM_ROLES :: "(string \<times> system_role) list" where
  "SYSTEM_ROLES =
     [(SYSTEM_ROLE_OWNER, \<lparr>sr_name = ''Owner'',
        sr_description = ''Full control, including deleting the organization'',
        sr_permissions = sorted_set OWNER_PERMISSIONS\<rparr>),
      (''admin'', \<lparr>sr_name = ''Admin'',
        sr_description = ''Manage everything except deleting the organization'',
        sr_permissions = sorted_set ADMIN_PERMISSIONS\<rparr>),
      (''billing'', \<lparr>sr_name = ''Billing'', sr_description = ''Manage subscription, plans, and invoices'',
        sr_permissions = sorted_set BILLING_PERMISSIONS\<rparr>),
      (''developer'', \<lparr>sr_name = ''Developer'',
        sr_description = ''Build on the platform: projects, webhooks, usage visibility'',
        sr_permissions = sorted_set DEVELOPER_PERMISSIONS\<rparr>),
      (''member'', \<lparr>sr_name = ''Member'', sr_description = ''Day-to-day access to org resources'',
        sr_permissions = sorted_set MEMBER_PERMISSIONS\<rparr>)]"

text \<open>\<open>SYSTEM_ROLES[role]["permissions"]\<close>, for the roles of the table.\<close>

definition system_permissions :: "string \<Rightarrow> string list" where
  "system_permissions r = (case map_of SYSTEM_ROLES r of Some x \<Rightarrow> sr_permissions x | None \<Rightarrow> [])"

section \<open>The OpenFGA model\<close>

definition SCHEMA_VERSION :: string where "SCHEMA_VERSION = ''1.1''"

definition ROLE_ORDER :: "string list" where
  "ROLE_ORDER = [''owner'', ''admin'', ''billing'', ''developer'', ''member'']"

definition relation_for :: "string \<Rightarrow> string" where
  "relation_for permission = ''can_'' @ map (\<lambda>c. if c = CHR '':'' then CHR ''_'' else c) permission"

definition roles_holding :: "string \<Rightarrow> string list" where
  "roles_holding permission = filter (\<lambda>r. permission \<in> set (system_permissions r)) ROLE_ORDER"

text \<open>A rewrite rule of a relation, and its JSON form.\<close>

datatype userset = This | Computed string | TupleToUserset string string | Union "userset list"

definition union_of :: "userset list \<Rightarrow> userset" where
  "union_of children = (case children of [c] \<Rightarrow> c | _ \<Rightarrow> Union children)"

fun userset_json :: "userset \<Rightarrow> json" where
  "userset_json This = JObj [(''this'', JObj [])]"
| "userset_json (Computed r) = JObj [(''computedUserset'', JObj [(''relation'', JStr r)])]"
| "userset_json (TupleToUserset ts r) =
     JObj [(''tupleToUserset'', JObj [(''tupleset'', JObj [(''relation'', JStr ts)]),
       (''computedUserset'', JObj [(''relation'', JStr r)])])]"
| "userset_json (Union cs) = JObj [(''union'', JObj [(''child'', JList (map userset_json cs))])]"

definition organization_relations :: "(string \<times> userset) list" where
  "organization_relations =
     map (\<lambda>role. (role, This)) ROLE_ORDER
     @ map (\<lambda>p. (relation_for (pm_key p), union_of (This # map Computed (roles_holding (pm_key p))))) PERMISSIONS"

definition project_relations :: "(string \<times> userset) list" where
  "project_relations =
     [(''org'', This),
      (''viewer'', union_of [This, Computed ''editor'', TupleToUserset ''org'' (relation_for ''project:read'')]),
      (''editor'', union_of [This, TupleToUserset ''org'' (relation_for ''project:manage'')])]"

definition type_json :: "string \<Rightarrow> (string \<times> userset) list \<Rightarrow> (string \<Rightarrow> string) \<Rightarrow> json" where
  "type_json name relations direct_type =
     JObj [(''type'', JStr name), (''relations'', JObj (map (\<lambda>(r, us). (r, userset_json us)) relations)),
       (''metadata'', JObj [(''relations'', JObj (map (\<lambda>(r, us). (r, JObj [(''directly_related_user_types'',
          JList [JObj [(''type'', JStr (direct_type r))]])])) relations))])]"

definition user_type :: json where
  "user_type = JObj [(''type'', JStr ''user''), (''relations'', JObj []), (''metadata'', JNull)]"

definition organization_type :: json where
  "organization_type = type_json ''organization'' organization_relations (\<lambda>_. ''user'')"

definition project_type :: json where
  "project_type = type_json ''project'' project_relations (\<lambda>r. if r = ''org'' then ''organization'' else ''user'')"

definition build_model :: json where
  "build_model = JObj [(''schema_version'', JStr SCHEMA_VERSION),
     (''type_definitions'', JList [user_type, organization_type, project_type])]"

fun join_text :: "string \<Rightarrow> string list \<Rightarrow> string" where
  "join_text sep [] = []"
| "join_text sep [p] = p"
| "join_text sep (p # ps) = p @ sep @ join_text sep ps"

definition newline :: string where "newline = [CHR 0x0A]"

definition render_dsl :: string where
  "render_dsl = join_text newline
     ([''model'', ''  schema '' @ SCHEMA_VERSION, [], ''type user'', [], ''type organization'', ''  relations'']
      @ map (\<lambda>role. ''    define '' @ role @ '': [user]'') ROLE_ORDER
      @ map (\<lambda>p. let holders = join_text '' or '' (roles_holding (pm_key p))
                in ''    define '' @ relation_for (pm_key p) @ '': [user]''
                   @ (if holders \<noteq> [] then '' or '' @ holders else [])) PERMISSIONS
      @ [[], ''type project'', ''  relations'', ''    define org: [organization]'',
         ''    define viewer: [user] or editor or '' @ relation_for ''project:read'' @ '' from org'',
         ''    define editor: [user] or '' @ relation_for ''project:manage'' @ '' from org'', []])"

section \<open>The tuples of a member\<close>

datatype fga_tuple = Tuple (tu_user: string) (tu_relation: string) (tu_object: string)

definition user_object :: "uuid \<Rightarrow> string" where
  "user_object i = ''user:'' @ nat_str i"

definition org_object :: "uuid \<Rightarrow> string" where
  "org_object i = ''organization:'' @ nat_str i"

text \<open>The set is a list without repetitions.\<close>

definition desired_tuples :: "uuid \<Rightarrow> uuid \<Rightarrow> string list \<Rightarrow> string list \<Rightarrow> fga_tuple list" where
  "desired_tuples user_id organization_id role_keys permission_keys =
     (let org = org_object organization_id; usr = user_object user_id;
          system_roles = filter (\<lambda>key. key \<in> set ROLE_ORDER) role_keys;
          covered = concat (map system_permissions system_roles)
      in remdups (map (\<lambda>r. Tuple usr r org) system_roles
           @ map (\<lambda>p. Tuple usr (relation_for p) org) (filter (\<lambda>p. p \<notin> set covered) permission_keys)))"

section \<open>OpenFGA decides like the roles\<close>

text \<open>
  What a rewrite rule means for one user and one object: \<open>check\<close> answers for the other relations of
  the object, \<open>direct\<close> says whether the tuple itself is stored, \<open>via\<close> answers through another object.
\<close>

fun userset_holds :: "(string \<Rightarrow> bool) \<Rightarrow> bool \<Rightarrow> (string \<Rightarrow> string \<Rightarrow> bool) \<Rightarrow> userset \<Rightarrow> bool" where
  "userset_holds check direct via This \<longleftrightarrow> direct"
| "userset_holds check direct via (Computed r) \<longleftrightarrow> check r"
| "userset_holds check direct via (TupleToUserset ts r) \<longleftrightarrow> via ts r"
| "userset_holds check direct via (Union cs) \<longleftrightarrow> list_ex (userset_holds check direct via) cs"

lemma relation_of_permission:
  "p \<in> set PERMISSION_KEYS \<Longrightarrow>
     map_of organization_relations (relation_for p) = Some (union_of (This # map Computed (roles_holding p)))"
proof -
  have "list_all (\<lambda>p. map_of organization_relations (relation_for p)
      = Some (union_of (This # map Computed (roles_holding p)))) PERMISSION_KEYS"
    by code_simp
  then show "p \<in> set PERMISSION_KEYS \<Longrightarrow> ?thesis" by (simp add: list_all_iff)
qed

lemma relation_of_role: "r \<in> set ROLE_ORDER \<Longrightarrow> map_of organization_relations r = Some This"
proof -
  have "list_all (\<lambda>r. map_of organization_relations r = Some This) ROLE_ORDER" by code_simp
  then show "r \<in> set ROLE_ORDER \<Longrightarrow> ?thesis" by (simp add: list_all_iff)
qed

lemma relation_for_inject:
  "p \<in> set PERMISSION_KEYS \<Longrightarrow> q \<in> set PERMISSION_KEYS \<Longrightarrow> relation_for p = relation_for q \<longleftrightarrow> p = q"
proof -
  have "distinct (map relation_for PERMISSION_KEYS)" by code_simp
  then show "p \<in> set PERMISSION_KEYS \<Longrightarrow> q \<in> set PERMISSION_KEYS \<Longrightarrow> ?thesis"
    by (auto simp: distinct_map dest: inj_onD)
qed

lemma relation_for_not_role: "r \<in> set ROLE_ORDER \<Longrightarrow> relation_for p \<noteq> r"
  by (auto simp: ROLE_ORDER_def relation_for_def)

lemma union_of_holds:
  "userset_holds check direct via (union_of (This # map Computed rs)) \<longleftrightarrow> direct \<or> (\<exists>r\<in>set rs. check r)"
  by (cases rs) (auto simp: union_of_def list_ex_iff)

lemma desired_tuples_iff:
  "Tuple (user_object u) rel (org_object org) \<in> set (desired_tuples u org role_keys permission_keys)
   \<longleftrightarrow> rel \<in> set role_keys \<inter> set ROLE_ORDER
     \<or> (\<exists>p\<in>set permission_keys. rel = relation_for p
          \<and> (\<forall>r\<in>set role_keys \<inter> set ROLE_ORDER. p \<notin> set (system_permissions r)))"
  by (auto simp: desired_tuples_def Let_def)

text \<open>
  C25. With OpenFGA in charge every permission check of the catalog gives the answer the roles
  give: once the store holds exactly the desired tuples of a member, whose denormalised
  permissions contain those of each system role held, a check of a permission's relation answers
  yes exactly for the permissions the member has, from system roles or from custom ones. The
  hypothesis on \<open>check\<close> is OpenFGA's documented meaning of the model's rewrite rules.
\<close>

theorem fga_decides_like_roles:
  assumes "\<And>rel us. map_of organization_relations rel = Some us \<Longrightarrow>
      check rel \<longleftrightarrow> userset_holds check (Tuple (user_object u) rel (org_object org) \<in> stored) via us"
    and "\<And>rel. Tuple (user_object u) rel (org_object org) \<in> stored
      \<longleftrightarrow> Tuple (user_object u) rel (org_object org) \<in> set (desired_tuples u org role_keys permission_keys)"
    and "\<forall>r\<in>set role_keys \<inter> set ROLE_ORDER. set (system_permissions r) \<subseteq> set permission_keys"
    and "set permission_keys \<subseteq> set PERMISSION_KEYS" and "p \<in> set PERMISSION_KEYS"
  shows "check (relation_for p) \<longleftrightarrow> p \<in> set permission_keys"
proof -
  have role: "check r \<longleftrightarrow> r \<in> set role_keys" if "r \<in> set ROLE_ORDER" for r
    using assms(1) [OF relation_of_role [OF that]] that
    by (auto simp: assms(2) desired_tuples_iff dest: relation_for_not_role)
  have "check (relation_for p) \<longleftrightarrow> Tuple (user_object u) (relation_for p) (org_object org) \<in> stored
      \<or> (\<exists>r\<in>set (roles_holding p). check r)"
    using assms(1) [OF relation_of_permission [OF assms(5)]] by (simp add: union_of_holds)
  also have "(\<exists>r\<in>set (roles_holding p). check r)
      \<longleftrightarrow> (\<exists>r\<in>set role_keys \<inter> set ROLE_ORDER. p \<in> set (system_permissions r))"
    using role by (auto simp: roles_holding_def)
  also have "Tuple (user_object u) (relation_for p) (org_object org) \<in> stored
      \<longleftrightarrow> p \<in> set permission_keys \<and> (\<forall>r\<in>set role_keys \<inter> set ROLE_ORDER. p \<notin> set (system_permissions r))"
    using assms(4,5) relation_for_inject relation_for_not_role
    by (fastforce simp: assms(2) desired_tuples_iff)
  finally show ?thesis using assms(3) by blast
qed

text \<open>A member who is a developer and holds a custom role that may read the audit log.\<close>

definition demo_stored :: "fga_tuple list" where
  "demo_stored = desired_tuples 7 5 [''developer'', ''auditor''] (''audit:read'' # DEVELOPER_PERMISSIONS)"

definition demo_check :: "string \<Rightarrow> bool" where
  "demo_check rel \<longleftrightarrow> (case map_of organization_relations rel of None \<Rightarrow> False
     | Some us \<Rightarrow> userset_holds (\<lambda>r. Tuple (user_object 7) r (org_object 5) \<in> set demo_stored)
                    (Tuple (user_object 7) rel (org_object 5) \<in> set demo_stored) (\<lambda>_ _. False) us)"

theorem fga_decides_like_roles_witness:
  "demo_check (relation_for ''audit:read'') \<and> demo_check (relation_for ''webhook:manage'')
   \<and> \<not> demo_check (relation_for ''org:delete'')"
proof -
  let ?keys = "''audit:read'' # DEVELOPER_PERMISSIONS"
  have laws: "demo_check rel \<longleftrightarrow> userset_holds demo_check (Tuple (user_object 7) rel (org_object 5) \<in> set demo_stored)
      (\<lambda>_ _. False) us" if us: "map_of organization_relations rel = Some us" for rel us
  proof -
    have roles: "demo_check r = (Tuple (user_object 7) r (org_object 5) \<in> set demo_stored)"
      if "r \<in> set ROLE_ORDER" for r
      using relation_of_role [OF that] by (simp add: demo_check_def)
    from map_of_SomeD [OF us] consider "us = This" | p where "us = union_of (This # map Computed (roles_holding p))"
      by (auto simp: organization_relations_def)
    then show ?thesis
    proof cases
      case 2
      have "(\<exists>r\<in>set (roles_holding p). demo_check r)
          \<longleftrightarrow> (\<exists>r\<in>set (roles_holding p). Tuple (user_object 7) r (org_object 5) \<in> set demo_stored)"
        using roles by (auto simp: roles_holding_def)
      then show ?thesis using us by (simp add: demo_check_def 2 union_of_holds)
    qed (use us in \<open>simp add: demo_check_def\<close>)
  qed
  have h3: "\<forall>r\<in>set [''developer'', ''auditor''] \<inter> set ROLE_ORDER. set (system_permissions r) \<subseteq> set ?keys"
    and h4: "set ?keys \<subseteq> set PERMISSION_KEYS"
    by code_simp+
  have each: "demo_check (relation_for p) \<longleftrightarrow> p \<in> set ?keys" if "p \<in> set PERMISSION_KEYS" for p
    by (rule fga_decides_like_roles [OF laws _ h3 h4 that]) (simp_all add: demo_stored_def)
  have "''audit:read'' \<in> set PERMISSION_KEYS" "''webhook:manage'' \<in> set PERMISSION_KEYS"
    "''org:delete'' \<in> set PERMISSION_KEYS" by code_simp+
  from each [OF this(1)] each [OF this(2)] each [OF this(3)] show ?thesis
    by (simp add: DEVELOPER_PERMISSIONS_def)
qed

end
