(* ===== verification/Authorization.thy ===== *)
theory Authorization
  imports Accounts Ids Permissions
begin

text \<open>
  Role-based authorization (\<open>authorization/models.py\<close>, \<open>authorization/service.py\<close>, the tuple sync of
  \<open>authorization/sync.py\<close>) and the membership table it denormalises into (\<open>tenancy/models.py\<close>).
  OpenFGA's answers are a parameter. Metrics and logging are left out.
\<close>

section \<open>Tables and settings\<close>

record role =
  ro_id :: uuid
  ro_organization_id :: "uuid option"  \<comment> \<open>\<open>None\<close>: a system role, shared by all organizations\<close>
  ro_key :: string
  ro_name :: string
  ro_description :: "string option"
  ro_is_system :: bool

record permission_row =
  pr_id :: uuid
  pr_key :: string

datatype member_status = Mb_Invited | Mb_Active | Mb_Suspended

primrec member_status_name :: "member_status \<Rightarrow> string" where
  "member_status_name Mb_Invited = ''invited''"
| "member_status_name Mb_Active = ''active''"
| "member_status_name Mb_Suspended = ''suspended''"

record membership =
  mb_id :: uuid
  mb_organization_id :: uuid
  mb_user_id :: "uuid option"
  mb_invited_email :: "string option"
  mb_invite_token_hash :: "string option"
  mb_status :: member_status
  mb_joined_at :: "datetime option"
  mb_permission_keys :: "string list"
  mb_created_at :: datetime

text \<open>\<open>role_permissions\<close> pairs a role with a permission, \<open>membership_roles\<close> a membership with a role.\<close>

record auth_db = acct_db +
  roles :: "role list"
  permission_rows :: "permission_row list"
  role_permissions :: "(uuid \<times> uuid) list"
  memberships :: "membership list"
  membership_roles :: "(uuid \<times> uuid) list"

datatype authz_backend = Rbac | Openfga
datatype fga_fail_mode = Fail_Closed | Fail_Rbac

record authz_settings =
  az_backend :: authz_backend
  az_fail_mode :: fga_fail_mode

definition perm_cache :: versioned_cache where
  "perm_cache = \<lparr>vc_object = ''perm'', vc_namespace = ''perm'', vc_ttl = 30\<rparr>"

definition fga_cache :: versioned_cache where
  "fga_cache = \<lparr>vc_object = ''fga'', vc_namespace = ''fga'', vc_ttl = 30\<rparr>"

text \<open>The text of the cache keys of one member.\<close>

definition perm_key :: "uuid \<Rightarrow> uuid \<Rightarrow> string" where
  "perm_key user_id organization_id = nat_str user_id @ '':'' @ nat_str organization_id"

definition fga_scope :: "uuid \<Rightarrow> string \<Rightarrow> string" where
  "fga_scope user_id obj = nat_str user_id @ '':'' @ obj"

section \<open>Checks\<close>

definition permission_keys_for ::
  "datetime \<Rightarrow> uuid \<Rightarrow> uuid \<Rightarrow> 'a auth_db_scheme \<Rightarrow> error + (string set \<times> 'a auth_db_scheme)" where
  "permission_keys_for now user_id organization_id s =
     (let ((cached, version), st) =
            get_versioned (ttl_backend now) perm_cache (cache_store s) (perm_key user_id organization_id);
          s1 = s\<lparr>cache_store := st\<rparr>;
          fill = bind_r (one_or_none MultipleResultsFound
              (\<lambda>m. mb_organization_id m = organization_id \<and> mb_user_id m = Some user_id \<and> mb_status m = Mb_Active)
              (memberships s)) (\<lambda>found.
            let keys = (case found of None \<Rightarrow> [] | Some m \<Rightarrow> mb_permission_keys m)
            in Inr (set keys, s1\<lparr>cache_store := cache_set (ttl_backend now) perm_cache st
                      (perm_key user_id organization_id) (JStr (join_comma (sorted_set keys))) (Some version)\<rparr>))
      in case cached of
           Some (JStr t) \<Rightarrow> if t \<noteq> [] then Inr (set (split_commas t), s1) else fill
         | _ \<Rightarrow> fill)"

text \<open>\<open>UUID(text)\<close>.\<close>

definition parse_uuid :: "string \<Rightarrow> error + uuid" where
  "parse_uuid t = (if nat_str (str_nat t) = t then Inr (str_nat t) else Inl ValueError)"

text \<open>
  \<open>check user relation object\<close> is \<open>FgaClient.check\<close>: OpenFGA's answer, or \<open>Inl ()\<close> for the
  \<open>FgaError\<close> of a failed call.
\<close>

type_synonym fga_check = "string \<Rightarrow> string \<Rightarrow> string \<Rightarrow> unit + bool"

definition fga_allowed ::
  "authz_settings \<Rightarrow> fga_check \<Rightarrow> datetime \<Rightarrow> uuid \<Rightarrow> string \<Rightarrow> string \<Rightarrow> 'a auth_db_scheme
    \<Rightarrow> error + (bool \<times> 'a auth_db_scheme)" where
  "fga_allowed cfg check now user_id permission obj s =
     (let scope = fga_scope user_id obj; key = scope @ '':'' @ permission;
          ((cached, token), st) = get_scoped (ttl_backend now) fga_cache (cache_store s) key [scope];
          s1 = s\<lparr>cache_store := st\<rparr>
      in case cached of
           Some v \<Rightarrow> Inr (v = JStr ''1'', s1)
         | None \<Rightarrow>
             (case check (user_object user_id) (relation_for permission) obj of
                Inl _ \<Rightarrow>
                  if az_fail_mode cfg = Fail_Rbac \<and> starts_with ''organization:'' obj
                  then bind_r (parse_uuid (drop (length ''organization:'') obj)) (\<lambda>org.
                       bind_r (permission_keys_for now user_id org s1) (\<lambda>(keys, s2).
                         Inr (permission \<in> keys, s2)))
                  else Inr (False, s1)
              | Inr allowed \<Rightarrow>
                  Inr (allowed, s1\<lparr>cache_store := set_scoped (ttl_backend now) fga_cache st key
                                     (JStr (if allowed then ''1'' else ''0'')) token\<rparr>)))"

definition user_can ::
  "authz_settings \<Rightarrow> fga_check \<Rightarrow> datetime \<Rightarrow> uuid \<Rightarrow> uuid \<Rightarrow> string \<Rightarrow> 'a auth_db_scheme
    \<Rightarrow> error + (bool \<times> 'a auth_db_scheme)" where
  "user_can cfg check now user_id organization_id permission s =
     (if az_backend cfg = Openfga
      then fga_allowed cfg check now user_id permission (org_object organization_id) s
      else bind_r (permission_keys_for now user_id organization_id s) (\<lambda>(keys, s1).
             Inr (permission \<in> keys, s1)))"

definition user_can_on ::
  "authz_settings \<Rightarrow> fga_check \<Rightarrow> datetime \<Rightarrow> uuid \<Rightarrow> string \<Rightarrow> string \<Rightarrow> string \<Rightarrow> 'a auth_db_scheme
    \<Rightarrow> error + (bool \<times> 'a auth_db_scheme)" where
  "user_can_on cfg check now user_id permission object_type object_id s =
     (if az_backend cfg = Openfga
      then fga_allowed cfg check now user_id permission (object_type @ '':'' @ object_id) s
      else if object_type \<noteq> ''organization'' then Inl NotImplementedError
      else bind_r (parse_uuid object_id) (\<lambda>org. user_can cfg check now user_id org permission s))"

definition require_can ::
  "authz_settings \<Rightarrow> fga_check \<Rightarrow> datetime \<Rightarrow> uuid \<Rightarrow> uuid \<Rightarrow> string \<Rightarrow> 'a auth_db_scheme
    \<Rightarrow> error + 'a auth_db_scheme" where
  "require_can cfg check now user_id organization_id permission s =
     bind_r (user_can cfg check now user_id organization_id permission s) (\<lambda>(allowed, s1).
     bind_r (guard_r allowed (Domain PermissionDeniedError [(''permission'', JStr permission)])) (\<lambda>_. Inr s1))"

section \<open>Invalidation and tuple sync\<close>

definition queue_tuple_sync :: "authz_settings \<Rightarrow> uuid \<Rightarrow> uuid option \<Rightarrow> 'a core_db_scheme \<Rightarrow> 'a core_db_scheme" where
  "queue_tuple_sync cfg organization_id user_id s =
     (case user_id of
        None \<Rightarrow> s
      | Some u \<Rightarrow>
          if az_backend cfg \<noteq> Openfga then s
          else append_outbox AUTHZ_TUPLES_CHANGED ''membership'' (next_uuid s)
                 [(''organization_id'', JUuid organization_id), (''user_id'', JUuid u)]
                 (Some organization_id) (s\<lparr>next_uuid := Suc (next_uuid s)\<rparr>))"

definition invalidate_user_perms ::
  "authz_settings \<Rightarrow> datetime \<Rightarrow> uuid \<Rightarrow> uuid \<Rightarrow> 'a core_db_scheme \<Rightarrow> 'a core_db_scheme" where
  "invalidate_user_perms cfg now user_id organization_id s =
     queue_tuple_sync cfg organization_id (Some user_id)
       (bump_and_defer now fga_cache (fga_scope user_id (org_object organization_id))
         (bump_and_defer now perm_cache (perm_key user_id organization_id) s))"

text \<open>The members of an organization that have a user, in table order.\<close>

definition invalidate_org_perms ::
  "authz_settings \<Rightarrow> datetime \<Rightarrow> uuid \<Rightarrow> 'a auth_db_scheme \<Rightarrow> 'a auth_db_scheme" where
  "invalidate_org_perms cfg now organization_id s =
     foldl (\<lambda>s u. invalidate_user_perms cfg now u organization_id s) s
       (List.map_filter mb_user_id (rows_where (\<lambda>m. mb_organization_id m = organization_id) (memberships s)))"

text \<open>
  \<open>apply_tuple_sync\<close>: the tuples to write and to delete, given what OpenFGA holds for the
  organization. \<open>desired\<close> and \<open>current\<close> are sets, sorted by relation.
\<close>

definition role_keys_of :: "uuid \<Rightarrow> 'a auth_db_scheme \<Rightarrow> string list" where
  "role_keys_of membership_id s =
     map ro_key (rows_where (\<lambda>r. (membership_id, ro_id r) \<in> set (membership_roles s)) (roles s))"

definition apply_tuple_sync ::
  "uuid \<Rightarrow> uuid \<Rightarrow> fga_tuple list \<Rightarrow> 'a auth_db_scheme \<Rightarrow> error + (fga_tuple list \<times> fga_tuple list)" where
  "apply_tuple_sync organization_id user_id read_tuples s =
     bind_r (one_or_none MultipleResultsFound
         (\<lambda>m. mb_organization_id m = organization_id \<and> mb_user_id m = Some user_id) (memberships s)) (\<lambda>found.
       let desired = (case found of
             Some m \<Rightarrow> if mb_status m = Mb_Active
               then desired_tuples user_id organization_id (role_keys_of (mb_id m) s) (mb_permission_keys m) else []
           | None \<Rightarrow> []);
           current = remdups (filter (\<lambda>t. tu_user t = user_object user_id) read_tuples)
       in Inr (sort_key tu_relation (filter (\<lambda>t. t \<notin> set current) desired),
               sort_key tu_relation (filter (\<lambda>t. t \<notin> set desired) current)))"

section \<open>Role management\<close>

definition role_permission_keys :: "uuid \<Rightarrow> 'a auth_db_scheme \<Rightarrow> string list" where
  "role_permission_keys role_id s =
     map pr_key (rows_where (\<lambda>p. (role_id, pr_id p) \<in> set (role_permissions s)) (permission_rows s))"

definition list_roles :: "uuid \<Rightarrow> 'a auth_db_scheme \<Rightarrow> role list" where
  "list_roles organization_id s =
     (let rs = sort_key ro_key
            (rows_where (\<lambda>r. ro_organization_id r = Some organization_id \<or> ro_organization_id r = None) (roles s))
      in filter ro_is_system rs @ filter (\<lambda>r. \<not> ro_is_system r) rs)"

definition save_membership :: "membership \<Rightarrow> 'a auth_db_scheme \<Rightarrow> 'a auth_db_scheme" where
  "save_membership m s = s\<lparr>memberships := update_where (\<lambda>x. mb_id x = mb_id m) (\<lambda>_. m) (memberships s)\<rparr>"

definition granted_keys :: "uuid \<Rightarrow> 'a auth_db_scheme \<Rightarrow> string list" where
  "granted_keys membership_id s =
     concat (map (\<lambda>r. role_permission_keys (ro_id r) s)
       (rows_where (\<lambda>r. (membership_id, ro_id r) \<in> set (membership_roles s)) (roles s)))"

definition recompute_membership_permissions :: "membership \<Rightarrow> 'a auth_db_scheme \<Rightarrow> 'a auth_db_scheme" where
  "recompute_membership_permissions m s =
     save_membership (m\<lparr>mb_permission_keys := sorted_set (granted_keys (mb_id m) s)\<rparr>) s"

text \<open>Recompute some memberships and drop what is cached for them.\<close>

definition refresh_memberships ::
  "authz_settings \<Rightarrow> datetime \<Rightarrow> membership list \<Rightarrow> 'a auth_db_scheme \<Rightarrow> 'a auth_db_scheme" where
  "refresh_memberships cfg now ms s =
     foldl (\<lambda>s m. let s1 = recompute_membership_permissions m s
                  in case mb_user_id m of
                       None \<Rightarrow> s1 | Some u \<Rightarrow> invalidate_user_perms cfg now u (mb_organization_id m) s1) s ms"

definition role_holders :: "uuid \<Rightarrow> 'a auth_db_scheme \<Rightarrow> membership list" where
  "role_holders role_id s = rows_where (\<lambda>m. (mb_id m, role_id) \<in> set (membership_roles s)) (memberships s)"

definition set_role_permissions ::
  "authz_settings \<Rightarrow> datetime \<Rightarrow> uuid \<Rightarrow> string list \<Rightarrow> 'a auth_db_scheme \<Rightarrow> 'a auth_db_scheme" where
  "set_role_permissions cfg now role_id permission_keys s =
     (let perms = rows_where (\<lambda>p. pr_key p \<in> set permission_keys) (permission_rows s);
          s1 = s\<lparr>role_permissions := filter (\<lambda>(r, _). r \<noteq> role_id) (role_permissions s)
                   @ map (\<lambda>p. (role_id, pr_id p)) perms\<rparr>
      in refresh_memberships cfg now (role_holders role_id s1) s1)"

definition unknown_permissions :: "string list \<Rightarrow> error + unit" where
  "unknown_permissions permission_keys =
     (let unknown = filter (\<lambda>k. k \<notin> set PERMISSION_KEYS) permission_keys
      in guard_r (unknown = [])
           (Domain PermissionDeniedError [(''unknown'', JList (map JStr (sorted_set unknown)))]))"

definition create_custom_role ::
  "authz_settings \<Rightarrow> datetime \<Rightarrow> uuid \<Rightarrow> string \<Rightarrow> string \<Rightarrow> string option \<Rightarrow> string list
    \<Rightarrow> 'a auth_db_scheme \<Rightarrow> error + (role \<times> 'a auth_db_scheme)" where
  "create_custom_role cfg now organization_id key name description permission_keys s =
     bind_r (unknown_permissions permission_keys) (\<lambda>_.
     bind_r (one_or_none MultipleResultsFound
         (\<lambda>r. ro_organization_id r = Some organization_id \<and> ro_key r = key) (roles s)) (\<lambda>taken.
     bind_r (guard_r (taken = None) (Domain ConflictError [(''key'', JStr key)])) (\<lambda>_.
       let r = \<lparr>ro_id = next_uuid s, ro_organization_id = Some organization_id, ro_key = key, ro_name = name,
                ro_description = description, ro_is_system = False\<rparr>
       in Inr (r, set_role_permissions cfg now (ro_id r) permission_keys
                    (s\<lparr>next_uuid := Suc (next_uuid s), roles := roles s @ [r]\<rparr>)))))"

definition get_scoped_role :: "uuid \<Rightarrow> uuid \<Rightarrow> 'a auth_db_scheme \<Rightarrow> error + role" where
  "get_scoped_role role_id organization_id s =
     (case first_row (\<lambda>r. ro_id r = role_id) (roles s) of
        None \<Rightarrow> raise_error RoleNotFoundError
      | Some r \<Rightarrow>
          if ro_organization_id r \<noteq> Some organization_id then raise_error RoleNotFoundError
          else if ro_is_system r then raise_error SystemRoleImmutableError
          else Inr r)"

definition update_custom_role ::
  "authz_settings \<Rightarrow> datetime \<Rightarrow> uuid \<Rightarrow> uuid \<Rightarrow> string option \<Rightarrow> string option \<Rightarrow> string list option
    \<Rightarrow> 'a auth_db_scheme \<Rightarrow> error + (role \<times> 'a auth_db_scheme)" where
  "update_custom_role cfg now role_id organization_id name description permission_keys s =
     bind_r (get_scoped_role role_id organization_id s) (\<lambda>r0.
       let r = r0\<lparr>ro_name := (case name of Some n \<Rightarrow> n | None \<Rightarrow> ro_name r0),
                  ro_description := (if description \<noteq> None then description else ro_description r0)\<rparr>;
           s1 = s\<lparr>roles := update_where (\<lambda>x. ro_id x = role_id) (\<lambda>_. r) (roles s)\<rparr>
       in bind_r (case permission_keys of
                    None \<Rightarrow> Inr s1
                  | Some keys \<Rightarrow> bind_r (unknown_permissions keys) (\<lambda>_.
                      Inr (set_role_permissions cfg now role_id keys s1)))
            (\<lambda>s2. Inr (r, invalidate_org_perms cfg now organization_id s2)))"

text \<open>Deleting a role deletes its rows of \<open>role_permissions\<close> with it (\<open>ON DELETE CASCADE\<close>).\<close>

definition delete_custom_role ::
  "authz_settings \<Rightarrow> datetime \<Rightarrow> uuid \<Rightarrow> uuid \<Rightarrow> 'a auth_db_scheme \<Rightarrow> error + 'a auth_db_scheme" where
  "delete_custom_role cfg now role_id organization_id s =
     bind_r (get_scoped_role role_id organization_id s) (\<lambda>r.
       let s1 = s\<lparr>membership_roles := filter (\<lambda>(_, x). x \<noteq> role_id) (membership_roles s),
                  role_permissions := filter (\<lambda>(x, _). x \<noteq> role_id) (role_permissions s),
                  roles := delete_where (\<lambda>x. ro_id x = role_id) (roles s)\<rparr>
       in Inr (invalidate_org_perms cfg now organization_id
                (refresh_memberships cfg now (role_holders role_id s) s1)))"

text \<open>
  The role a key names in an organization, and its attachment to a membership. The pair is the
  primary key of \<open>membership_roles\<close>.
\<close>

definition find_role :: "uuid \<Rightarrow> string \<Rightarrow> 'a auth_db_scheme \<Rightarrow> error + role" where
  "find_role organization_id role_key s =
     bind_r (one_or_none MultipleResultsFound
         (\<lambda>r. ro_key r = role_key \<and> (ro_organization_id r = Some organization_id \<or> ro_organization_id r = None))
         (roles s)) (\<lambda>found.
       case found of None \<Rightarrow> raise_error RoleNotFoundError | Some r \<Rightarrow> Inr r)"

definition attach_role ::
  "membership \<Rightarrow> string \<Rightarrow> 'a auth_db_scheme \<Rightarrow> error + (membership \<times> 'a auth_db_scheme)" where
  "attach_role m role_key s =
     bind_r (find_role (mb_organization_id m) role_key s) (\<lambda>r.
       if (mb_id m, ro_id r) \<in> set (membership_roles s) then Inl IntegrityError
       else
         let m' = m\<lparr>mb_permission_keys := sorted_set (mb_permission_keys m @ role_permission_keys (ro_id r) s)\<rparr>
         in Inr (m', save_membership m' (s\<lparr>membership_roles := membership_roles s @ [(mb_id m, ro_id r)]\<rparr>)))"

definition assign_role ::
  "authz_settings \<Rightarrow> datetime \<Rightarrow> membership \<Rightarrow> string \<Rightarrow> 'a auth_db_scheme
    \<Rightarrow> error + (membership \<times> 'a auth_db_scheme)" where
  "assign_role cfg now m role_key s =
     bind_r (attach_role m role_key s) (\<lambda>(m', s1).
       Inr (m', case mb_user_id m of
                  None \<Rightarrow> s1 | Some u \<Rightarrow> invalidate_user_perms cfg now u (mb_organization_id m) s1))"

section \<open>What the writers leave alone\<close>

named_theorems auth_frame \<open>tables of this component are untouched\<close>

lemma core_writers_keep_auth [simp, auth_frame]:
  fixes s :: "'a auth_db_scheme"
  shows "roles (append_outbox ev ty i p org s) = roles s"
    and "permission_rows (append_outbox ev ty i p org s) = permission_rows s"
    and "role_permissions (append_outbox ev ty i p org s) = role_permissions s"
    and "memberships (append_outbox ev ty i p org s) = memberships s"
    and "membership_roles (append_outbox ev ty i p org s) = membership_roles s"
    and "usage_counters (append_outbox ev ty i p org s) = usage_counters s"
    and "roles (audit_log_as ev o' a ty' tt ti d s) = roles s"
    and "permission_rows (audit_log_as ev o' a ty' tt ti d s) = permission_rows s"
    and "role_permissions (audit_log_as ev o' a ty' tt ti d s) = role_permissions s"
    and "memberships (audit_log_as ev o' a ty' tt ti d s) = memberships s"
    and "membership_roles (audit_log_as ev o' a ty' tt ti d s) = membership_roles s"
    and "usage_counters (audit_log_as ev o' a ty' tt ti d s) = usage_counters s"
    and "roles (bump_and_defer now c k s) = roles s"
    and "permission_rows (bump_and_defer now c k s) = permission_rows s"
    and "role_permissions (bump_and_defer now c k s) = role_permissions s"
    and "memberships (bump_and_defer now c k s) = memberships s"
    and "membership_roles (bump_and_defer now c k s) = membership_roles s"
    and "usage_counters (bump_and_defer now c k s) = usage_counters s"
  by (simp_all add: append_outbox_def audit_log_as_def bump_and_defer_def defer_bump_s_def Let_def split: prod.split)

lemma invalidate_user_perms_keeps [simp, auth_frame]:
  fixes s :: "'a auth_db_scheme"
  shows "roles (queue_tuple_sync cfg org u s) = roles s"
    and "permission_rows (queue_tuple_sync cfg org u s) = permission_rows s"
    and "role_permissions (queue_tuple_sync cfg org u s) = role_permissions s"
    and "memberships (queue_tuple_sync cfg org u s) = memberships s"
    and "membership_roles (queue_tuple_sync cfg org u s) = membership_roles s"
    and "usage_counters (queue_tuple_sync cfg org u s) = usage_counters s"
    and "next_uuid s \<le> next_uuid (queue_tuple_sync cfg org u s)"
    and "roles (invalidate_user_perms cfg now v org s) = roles s"
    and "permission_rows (invalidate_user_perms cfg now v org s) = permission_rows s"
    and "role_permissions (invalidate_user_perms cfg now v org s) = role_permissions s"
    and "memberships (invalidate_user_perms cfg now v org s) = memberships s"
    and "membership_roles (invalidate_user_perms cfg now v org s) = membership_roles s"
    and "usage_counters (invalidate_user_perms cfg now v org s) = usage_counters s"
    and "next_uuid s \<le> next_uuid (invalidate_user_perms cfg now v org s)"
  by (simp_all add: queue_tuple_sync_def invalidate_user_perms_def split: option.split)

lemma invalidate_org_perms_keeps [simp, auth_frame]:
  fixes s :: "'a auth_db_scheme"
  shows "roles (invalidate_org_perms cfg now org s) = roles s"
    and "permission_rows (invalidate_org_perms cfg now org s) = permission_rows s"
    and "role_permissions (invalidate_org_perms cfg now org s) = role_permissions s"
    and "memberships (invalidate_org_perms cfg now org s) = memberships s"
    and "membership_roles (invalidate_org_perms cfg now org s) = membership_roles s"
    and "usage_counters (invalidate_org_perms cfg now org s) = usage_counters s"
    and "next_uuid s \<le> next_uuid (invalidate_org_perms cfg now org s)"
proof -
  have "roles (foldl (\<lambda>s u. invalidate_user_perms cfg now u org s) s us) = roles s
    \<and> permission_rows (foldl (\<lambda>s u. invalidate_user_perms cfg now u org s) s us) = permission_rows s
    \<and> role_permissions (foldl (\<lambda>s u. invalidate_user_perms cfg now u org s) s us) = role_permissions s
    \<and> memberships (foldl (\<lambda>s u. invalidate_user_perms cfg now u org s) s us) = memberships s
    \<and> membership_roles (foldl (\<lambda>s u. invalidate_user_perms cfg now u org s) s us) = membership_roles s
    \<and> usage_counters (foldl (\<lambda>s u. invalidate_user_perms cfg now u org s) s us) = usage_counters s
    \<and> next_uuid s \<le> next_uuid (foldl (\<lambda>s u. invalidate_user_perms cfg now u org s) s us)" for us
  proof (induction us arbitrary: s)
    case (Cons u us)
    show ?case using Cons.IH [of "invalidate_user_perms cfg now u org s"]
      by (auto intro: order_trans [OF invalidate_user_perms_keeps(14)])
  qed simp
  then show "roles (invalidate_org_perms cfg now org s) = roles s"
    and "permission_rows (invalidate_org_perms cfg now org s) = permission_rows s"
    and "role_permissions (invalidate_org_perms cfg now org s) = role_permissions s"
    and "memberships (invalidate_org_perms cfg now org s) = memberships s"
    and "membership_roles (invalidate_org_perms cfg now org s) = membership_roles s"
    and "usage_counters (invalidate_org_perms cfg now org s) = usage_counters s"
    and "next_uuid s \<le> next_uuid (invalidate_org_perms cfg now org s)"
    unfolding invalidate_org_perms_def by blast+
qed

section \<open>The denormalised permissions\<close>

lemma sorted_set_cong: "set xs = set ys \<Longrightarrow> sorted_set xs = sorted_set ys"
  unfolding sorted_set_def by (rule sorted_distinct_set_unique) simp_all

lemma set_sorted_set [simp]: "set (sorted_set xs) = set xs"
  by (simp add: sorted_set_def)

text \<open>Every membership carries the sorted union of what its roles grant.\<close>

definition perms_current :: "'a auth_db_scheme \<Rightarrow> bool" where
  "perms_current s \<longleftrightarrow>
     (\<forall>m\<in>set (memberships s). mb_permission_keys m = sorted_set (granted_keys (mb_id m) s))"

definition used_ids :: "'a auth_db_scheme \<Rightarrow> uuid set" where
  "used_ids s = mb_id ` set (memberships s) \<union> ro_id ` set (roles s) \<union> fst ` set (membership_roles s)
     \<union> snd ` set (membership_roles s) \<union> fst ` set (role_permissions s)"

definition auth_ids_ok :: "'a auth_db_scheme \<Rightarrow> bool" where
  "auth_ids_ok s \<longleftrightarrow> distinct (map mb_id (memberships s)) \<and> distinct (map ro_id (roles s))
     \<and> used_ids s \<subseteq> {..<next_uuid s}"

lemma auth_ids_transfer:
  assumes "auth_ids_ok s" and "map mb_id (memberships s') = map mb_id (memberships s)"
    and "map ro_id (roles s') = map ro_id (roles s)" and "membership_roles s' = membership_roles s"
    and "fst ` set (role_permissions s') \<subseteq> {..<next_uuid s}" and "next_uuid s \<le> next_uuid s'"
  shows "auth_ids_ok s'"
proof -
  have "mb_id ` set (memberships s') = mb_id ` set (memberships s)" "ro_id ` set (roles s') = ro_id ` set (roles s)"
    using assms(2,3) by (metis list.set_map)+
  then have "used_ids s' \<subseteq> {..<next_uuid s}"
    using assms(1,4,5) by (simp add: used_ids_def auth_ids_ok_def)
  also have "\<dots> \<subseteq> {..<next_uuid s'}" using assms(6) by simp
  finally show ?thesis using assms(1-3) by (simp add: auth_ids_ok_def)
qed

lemma auth_ids_fresh:
  assumes "auth_ids_ok s"
  shows "(i, next_uuid s) \<notin> set (membership_roles s)" and "(next_uuid s, r) \<notin> set (membership_roles s)"
    and "m \<in> set (memberships s) \<Longrightarrow> mb_id m < next_uuid s"
    and "x \<in> set (roles s) \<Longrightarrow> ro_id x < next_uuid s"
    and "fst ` set (role_permissions s) \<subseteq> {..<next_uuid s}"
  using assms by (force simp: auth_ids_ok_def used_ids_def)+

lemma set_granted_keys:
  "set (granted_keys i s) = {pr_key p | p. p \<in> set (permission_rows s)
     \<and> (\<exists>x\<in>ro_id ` set (roles s). (i, x) \<in> set (membership_roles s) \<and> (x, pr_id p) \<in> set (role_permissions s))}"
  by (auto simp: granted_keys_def role_permission_keys_def rows_where_def)

lemma granted_keys_cong:
  assumes "roles s' = roles s" "permission_rows s' = permission_rows s" "role_permissions s' = role_permissions s"
    and "\<And>r. (i, r) \<in> set (membership_roles s') \<longleftrightarrow> (i, r) \<in> set (membership_roles s)"
  shows "granted_keys i s' = granted_keys i s"
  using assms by (simp add: granted_keys_def role_permission_keys_def)

lemma perms_current_cong:
  assumes "perms_current s" and "memberships s' = memberships s"
    and "\<And>i. set (granted_keys i s') = set (granted_keys i s)"
  shows "perms_current s'"
  using assms(1,2) sorted_set_cong [OF assms(3)] by (simp add: perms_current_def)

lemma save_membership_fields [simp]:
  "roles (save_membership m s) = roles s" "permission_rows (save_membership m s) = permission_rows s"
  "role_permissions (save_membership m s) = role_permissions s"
  "membership_roles (save_membership m s) = membership_roles s"
  "usage_counters (save_membership m s) = usage_counters s"
  "next_uuid (save_membership m s) = next_uuid s"
  "memberships (save_membership m s) = update_where (\<lambda>x. mb_id x = mb_id m) (\<lambda>_. m) (memberships s)"
  by (simp_all add: save_membership_def)

lemma granted_keys_save [simp]: "granted_keys i (save_membership m s) = granted_keys i s"
  by (rule granted_keys_cong) simp_all

lemma granted_keys_invalidate [simp]:
  "granted_keys i (invalidate_user_perms cfg now u org s) = granted_keys i s"
  "granted_keys i (invalidate_org_perms cfg now org s) = granted_keys i s"
  by (rule granted_keys_cong; simp)+

text \<open>A refresh recomputes exactly the given memberships and touches nothing else of the tables.\<close>

lemma refresh_memberships_effect:
  assumes "distinct (map mb_id (memberships s))" and "set ms \<subseteq> set (memberships s)" and "distinct (map mb_id ms)"
  shows "memberships (refresh_memberships cfg now ms s)
      = map (\<lambda>m. if mb_id m \<in> mb_id ` set ms
                 then m\<lparr>mb_permission_keys := sorted_set (granted_keys (mb_id m) s)\<rparr> else m) (memberships s)
    \<and> roles (refresh_memberships cfg now ms s) = roles s
    \<and> permission_rows (refresh_memberships cfg now ms s) = permission_rows s
    \<and> role_permissions (refresh_memberships cfg now ms s) = role_permissions s
    \<and> membership_roles (refresh_memberships cfg now ms s) = membership_roles s
    \<and> usage_counters (refresh_memberships cfg now ms s) = usage_counters s
    \<and> next_uuid s \<le> next_uuid (refresh_memberships cfg now ms s)"
  using assms
proof (induction ms arbitrary: s)
  case Nil
  then show ?case by (simp add: refresh_memberships_def)
next
  case (Cons m ms)
  define t where "t = (case mb_user_id m of None \<Rightarrow> recompute_membership_permissions m s
    | Some u \<Rightarrow> invalidate_user_perms cfg now u (mb_organization_id m) (recompute_membership_permissions m s))"
  let ?f = "\<lambda>x. if mb_id x = mb_id m then x\<lparr>mb_permission_keys := sorted_set (granted_keys (mb_id x) s)\<rparr> else x"
  have fold: "refresh_memberships cfg now (m # ms) s = refresh_memberships cfg now ms t"
    by (simp add: refresh_memberships_def t_def Let_def)
  have self: "x = m" if "x \<in> set (memberships s)" "mb_id x = mb_id m" for x
    using distinct_key_unique [OF Cons.prems(1) that(1)] Cons.prems(2) that(2) by auto
  have t: "memberships t = map ?f (memberships s)" "roles t = roles s" "permission_rows t = permission_rows s"
    "role_permissions t = role_permissions s" "membership_roles t = membership_roles s"
    "usage_counters t = usage_counters s" "next_uuid s \<le> next_uuid t"
    using self by (auto simp: t_def recompute_membership_permissions_def update_where_def
        intro: order_trans [OF _ invalidate_user_perms_keeps(14)] split: option.split)
  have g: "granted_keys i t = granted_keys i s" for i
    by (rule granted_keys_cong) (simp_all add: t)
  have ids: "map mb_id (memberships t) = map mb_id (memberships s)" by (simp add: t(1) comp_def if_distrib)
  have "set ms \<subseteq> set (memberships t)"
  proof
    fix x assume x: "x \<in> set ms"
    then have "x \<in> set (memberships s)" and "mb_id x \<noteq> mb_id m" using Cons.prems(2,3) by (auto simp: image_iff)
    then have "?f x = x" by simp
    with \<open>x \<in> set (memberships s)\<close> show "x \<in> set (memberships t)" unfolding t(1) by force
  qed
  note ih = Cons.IH [of t, unfolded ids, OF Cons.prems(1) this]
  have "distinct (map mb_id ms)" and new: "mb_id m \<notin> mb_id ` set ms" using Cons.prems(3) by auto
  from ih [OF this(1)] new show ?case
    unfolding fold using t by (auto simp: g)
qed

text \<open>What role management keeps: everything about the members but their permission sets.\<close>

definition bare :: "membership \<Rightarrow> membership" where
  "bare m = m\<lparr>mb_permission_keys := []\<rparr>"

definition bare_members :: "'a auth_db_scheme \<Rightarrow> membership list" where
  "bare_members s = map bare (memberships s)"

definition role_change_ok :: "'a auth_db_scheme \<Rightarrow> 'a auth_db_scheme \<Rightarrow> bool" where
  "role_change_ok s s' \<longleftrightarrow> perms_current s' \<and> auth_ids_ok s' \<and> bare_members s' = bare_members s
     \<and> usage_counters s' = usage_counters s"

lemma bare_ids: "bare_members s' = bare_members s \<Longrightarrow> map mb_id (memberships s') = map mb_id (memberships s)"
proof -
  assume "bare_members s' = bare_members s"
  then have "map mb_id (bare_members s') = map mb_id (bare_members s)" by simp
  then show ?thesis by (simp add: bare_members_def bare_def comp_def)
qed

lemma refreshed_perms_current:
  assumes ids: "distinct (map mb_id (memberships s))" and ms: "set ms \<subseteq> set (memberships s)" "distinct (map mb_id ms)"
    and others: "\<And>m. m \<in> set (memberships s) \<Longrightarrow> m \<notin> set ms \<Longrightarrow> mb_permission_keys m = sorted_set (granted_keys (mb_id m) s)"
  shows "perms_current (refresh_memberships cfg now ms s)"
    and "bare_members (refresh_memberships cfg now ms s) = bare_members s"
proof -
  note eff = refresh_memberships_effect [OF ids ms, of cfg now]
  have g: "granted_keys i (refresh_memberships cfg now ms s) = granted_keys i s" for i
    by (rule granted_keys_cong) (simp_all add: eff)
  have "m \<in> set ms" if "m \<in> set (memberships s)" "mb_id m \<in> mb_id ` set ms" for m
  proof -
    from that(2) obtain m' where "m' \<in> set ms" "mb_id m' = mb_id m" by auto
    with distinct_key_unique [OF ids that(1), of m'] ms(1) show ?thesis by auto
  qed
  then show "perms_current (refresh_memberships cfg now ms s)"
    using others by (auto simp: perms_current_def eff g)
  show "bare_members (refresh_memberships cfg now ms s) = bare_members s"
    by (simp add: bare_members_def eff bare_def)
qed

lemma role_holders_members:
  "set (role_holders r s) \<subseteq> set (memberships s)"
  "distinct (map mb_id (memberships s)) \<Longrightarrow> distinct (map mb_id (role_holders r s))"
  by (auto simp: role_holders_def rows_where_def intro: distinct_map_filter)

lemma set_role_permissions_ok:
  assumes "auth_ids_ok s" and "perms_current s" and "role_id < next_uuid s"
  shows "role_change_ok s (set_role_permissions cfg now role_id keys s)"
    and "next_uuid s \<le> next_uuid (set_role_permissions cfg now role_id keys s)"
proof -
  let ?s1 = "s\<lparr>role_permissions := filter (\<lambda>(r, _). r \<noteq> role_id) (role_permissions s)
    @ map (\<lambda>p. (role_id, pr_id p)) (rows_where (\<lambda>p. pr_key p \<in> set keys) (permission_rows s))\<rparr>"
  let ?ms = "role_holders role_id ?s1"
  let ?s' = "refresh_memberships cfg now ?ms ?s1"
  have def: "set_role_permissions cfg now role_id keys s = ?s'"
    by (simp add: set_role_permissions_def Let_def)
  have ids: "distinct (map mb_id (memberships ?s1))" using assms(1) by (simp add: auth_ids_ok_def)
  have ms: "set ?ms \<subseteq> set (memberships ?s1)" "distinct (map mb_id ?ms)"
    using role_holders_members(1) role_holders_members(2) [OF ids] by blast+
  note eff = refresh_memberships_effect [OF ids ms, of cfg now]
  have others: "mb_permission_keys m = sorted_set (granted_keys (mb_id m) ?s1)"
    if "m \<in> set (memberships ?s1)" "m \<notin> set ?ms" for m
  proof -
    have "(mb_id m, role_id) \<notin> set (membership_roles s)"
      using that by (auto simp: role_holders_def rows_where_def)
    then have "set (granted_keys (mb_id m) ?s1) = set (granted_keys (mb_id m) s)"
      unfolding set_granted_keys by (auto simp: rows_where_def)
    from sorted_set_cong [OF this] assms(2) that(1) show ?thesis by (simp add: perms_current_def)
  qed
  note res = refreshed_perms_current [OF ids ms others, of cfg now]
  have "auth_ids_ok ?s'"
    using eff bare_ids [OF res(2)] assms(3) auth_ids_fresh(5) [OF assms(1)]
    by (intro auth_ids_transfer [OF assms(1)]) auto
  then show "role_change_ok s (set_role_permissions cfg now role_id keys s)"
    unfolding role_change_ok_def def using res eff by (auto simp: bare_members_def)
  show "next_uuid s \<le> next_uuid (set_role_permissions cfg now role_id keys s)"
    using eff by (simp add: def)
qed

lemma role_change_ok_cong:
  assumes "role_change_ok s t" and "bare_members s = bare_members s0" "usage_counters s = usage_counters s0"
  shows "role_change_ok s0 t"
  using assms by (simp add: role_change_ok_def)

lemma role_change_invalidate:
  assumes "role_change_ok s t"
  shows "role_change_ok s (invalidate_org_perms cfg now org t)"
proof -
  have "perms_current (invalidate_org_perms cfg now org t)" and "bare_members (invalidate_org_perms cfg now org t) = bare_members t"
    using assms by (simp_all add: role_change_ok_def perms_current_def bare_members_def)
  moreover have "auth_ids_ok (invalidate_org_perms cfg now org t)"
    using assms auth_ids_fresh(5) [of t] by - (rule auth_ids_transfer [of t], simp_all add: role_change_ok_def)
  ultimately show ?thesis using assms by (simp add: role_change_ok_def)
qed

lemma create_custom_role_ok:
  assumes "create_custom_role cfg now org key name descr keys s = Inr (r, s')"
    and "auth_ids_ok s" and "perms_current s"
  shows "role_change_ok s s'"
proof -
  let ?r = "\<lparr>ro_id = next_uuid s, ro_organization_id = Some org, ro_key = key, ro_name = name,
    ro_description = descr, ro_is_system = False\<rparr>"
  let ?s1 = "s\<lparr>next_uuid := Suc (next_uuid s), roles := roles s @ [?r]\<rparr>"
  have s': "s' = set_role_permissions cfg now (next_uuid s) keys ?s1"
    using assms(1) by (auto simp: create_custom_role_def bind_r_eq_Inr Let_def)
  have "set (granted_keys i ?s1) = set (granted_keys i s)" for i
    unfolding set_granted_keys using auth_ids_fresh(1) [OF assms(2)] by auto
  then have "perms_current ?s1" by (intro perms_current_cong [OF assms(3)]) simp_all
  moreover have "auth_ids_ok ?s1"
    using assms(2) by (auto simp: auth_ids_ok_def used_ids_def less_Suc_eq)
  ultimately have "role_change_ok ?s1 s'"
    unfolding s' by (intro set_role_permissions_ok) simp_all
  then show ?thesis by (rule role_change_ok_cong) (simp_all add: bare_members_def)
qed

lemma update_custom_role_ok:
  assumes "update_custom_role cfg now role_id org name descr keys s = Inr (r, s')"
    and "auth_ids_ok s" and "perms_current s"
  shows "role_change_ok s s'"
proof -
  from assms(1) obtain r0 s2 where r0: "get_scoped_role role_id org s = Inr r0"
    and step: "(case keys of None \<Rightarrow> Inr (s\<lparr>roles := update_where (\<lambda>x. ro_id x = role_id) (\<lambda>_. r) (roles s)\<rparr>)
        | Some ks \<Rightarrow> bind_r (unknown_permissions ks) (\<lambda>_. Inr (set_role_permissions cfg now role_id ks
            (s\<lparr>roles := update_where (\<lambda>x. ro_id x = role_id) (\<lambda>_. r) (roles s)\<rparr>)))) = Inr s2"
    and r: "ro_id r = ro_id r0" and s': "s' = invalidate_org_perms cfg now org s2"
    by (auto simp: update_custom_role_def bind_r_eq_Inr Let_def)
  let ?s1 = "s\<lparr>roles := update_where (\<lambda>x. ro_id x = role_id) (\<lambda>_. r) (roles s)\<rparr>"
  have role: "r0 \<in> set (roles s)" "ro_id r0 = role_id"
    using r0 by (auto simp: get_scoped_role_def dest!: first_row_SomeD split: option.splits if_splits)
  have ids: "map ro_id (roles ?s1) = map ro_id (roles s)"
    by (simp add: update_where_def comp_def if_distrib r role(2) cong: if_cong)
  have "ro_id ` set (roles ?s1) = ro_id ` set (roles s)" using ids by (metis list.set_map)
  then have "set (granted_keys i ?s1) = set (granted_keys i s)" for i
    unfolding set_granted_keys by simp
  then have pc: "perms_current ?s1" by (intro perms_current_cong [OF assms(3)]) simp_all
  have ok: "auth_ids_ok ?s1"
    using ids auth_ids_fresh(5) [OF assms(2)] by (intro auth_ids_transfer [OF assms(2)]) simp_all
  have bound: "role_id < next_uuid ?s1" using auth_ids_fresh(4) [OF assms(2) role(1)] role(2) by simp
  have "role_change_ok ?s1 s2"
    using step set_role_permissions_ok(1) [OF ok pc bound] pc ok
    by (auto simp: bind_r_eq_Inr role_change_ok_def split: option.splits)
  then have "role_change_ok s s2" by (rule role_change_ok_cong) (simp_all add: bare_members_def)
  then show ?thesis unfolding s' by (rule role_change_invalidate)
qed

lemma delete_custom_role_ok:
  assumes "delete_custom_role cfg now role_id org s = Inr s'"
    and "auth_ids_ok s" and "perms_current s"
  shows "role_change_ok s s'"
proof -
  let ?s1 = "s\<lparr>membership_roles := filter (\<lambda>(_, x). x \<noteq> role_id) (membership_roles s),
    role_permissions := filter (\<lambda>(x, _). x \<noteq> role_id) (role_permissions s),
    roles := delete_where (\<lambda>x. ro_id x = role_id) (roles s)\<rparr>"
  let ?ms = "role_holders role_id s" and ?t = "refresh_memberships cfg now (role_holders role_id s) ?s1"
  have s': "s' = invalidate_org_perms cfg now org ?t"
    using assms(1) by (auto simp: delete_custom_role_def bind_r_eq_Inr Let_def)
  have ids: "distinct (map mb_id (memberships ?s1))" and ids0: "distinct (map mb_id (memberships s))"
    using assms(2) by (simp_all add: auth_ids_ok_def)
  have ms: "set ?ms \<subseteq> set (memberships ?s1)" "distinct (map mb_id ?ms)"
    using role_holders_members(1) [of role_id s] role_holders_members(2) [OF ids0] by simp_all
  note eff = refresh_memberships_effect [OF ids ms, of cfg now]
  have others: "mb_permission_keys m = sorted_set (granted_keys (mb_id m) ?s1)"
    if "m \<in> set (memberships ?s1)" "m \<notin> set ?ms" for m
  proof -
    have "(mb_id m, role_id) \<notin> set (membership_roles s)"
      using that by (auto simp: role_holders_def rows_where_def)
    then have "set (granted_keys (mb_id m) ?s1) = set (granted_keys (mb_id m) s)"
      unfolding set_granted_keys by (auto simp: delete_where_def)
    from sorted_set_cong [OF this] assms(3) that(1) show ?thesis by (simp add: perms_current_def)
  qed
  note res = refreshed_perms_current [OF ids ms others, of cfg now]
  have ok1: "auth_ids_ok ?s1"
    using assms(2) by (auto simp: auth_ids_ok_def used_ids_def delete_where_def distinct_map_filter)
  have "auth_ids_ok ?t"
    using eff bare_ids [OF res(2)] auth_ids_fresh(5) [OF ok1] by - (rule auth_ids_transfer [OF ok1], simp_all)
  then have "role_change_ok s ?t" using res eff by (simp add: role_change_ok_def bare_members_def)
  then show ?thesis unfolding s' by (rule role_change_invalidate)
qed

end
