(* ===== verification/RateLimit.thy ===== *)
theory RateLimit
  imports Ids
begin

text \<open>
  \<open>core/rate_limit.py\<close> and \<open>identity/rate_limit.py\<close>: the fixed-window counters and the middleware
  that guards the credential routes. The in-process counter is modelled as a state; Redis answers
  are arguments. The parsers of the \<open>ipaddress\<close> module are parameters.
\<close>

section \<open>Fixed windows\<close>

record limiter =
  rl_local :: "string \<rightharpoonup> int"
  rl_local_windows :: "string \<rightharpoonup> int"

definition empty_limiter :: limiter where
  "empty_limiter = \<lparr>rl_local = Map.empty, rl_local_windows = Map.empty\<rparr>"

definition rate_limited :: "int \<Rightarrow> int \<Rightarrow> error" where
  "rate_limited retry_after n =
     Domain RateLimitedError [(''retry_after_seconds'', JInt (max retry_after 1)), (''limit'', JInt n)]"

text \<open>
  \<open>count\<close> and \<open>ttl\<close> are what the pipelined \<open>INCR\<close> and \<open>TTL\<close> answer; the first component says
  whether \<open>EXPIRE\<close> is sent.
\<close>

definition check_redis :: "int \<Rightarrow> int \<Rightarrow> int \<Rightarrow> int \<Rightarrow> bool \<times> (error + unit)" where
  "check_redis n window_seconds count ttl =
     (let ttl' = (if ttl = -1 then window_seconds else ttl)
      in (ttl = -1, if count > n then Inl (rate_limited ttl' n) else Inr ()))"

text \<open>\<open>now\<close> is \<open>int(time.time())\<close>. The dictionaries keep their change when the check raises.\<close>

definition check_local :: "string \<Rightarrow> int \<Rightarrow> int \<Rightarrow> int \<Rightarrow> limiter \<Rightarrow> (error + unit) \<times> limiter" where
  "check_local key n window_seconds now s =
     (let window = now div window_seconds;
          s1 = (if rl_local_windows s key \<noteq> Some window
                then s\<lparr>rl_local := (rl_local s)(key := None), rl_local_windows := (rl_local_windows s)(key \<mapsto> window)\<rparr>
                else s);
          count = (case rl_local s1 key of Some c \<Rightarrow> c | None \<Rightarrow> 0) + 1;
          s2 = s1\<lparr>rl_local := (rl_local s1)(key \<mapsto> count)\<rparr>
      in (if count > n then Inl (rate_limited (window_seconds - now mod window_seconds) n) else Inr (), s2))"

section \<open>The client address\<close>

definition is_trusted_proxy :: "(string \<Rightarrow> 'ip option) \<Rightarrow> (string \<Rightarrow> ('ip \<Rightarrow> bool) option) \<Rightarrow> string \<Rightarrow> string list \<Rightarrow> bool" where
  "is_trusted_proxy parse_ip parse_net host cidrs =
     (case parse_ip host of None \<Rightarrow> False
      | Some a \<Rightarrow> list_ex (\<lambda>c. case parse_net c of None \<Rightarrow> False | Some net \<Rightarrow> net a) cidrs)"

text \<open>\<open>str.strip()\<close>.\<close>

definition is_space :: "char \<Rightarrow> bool" where
  "is_space c \<longleftrightarrow> (let n = of_char c :: nat in 9 \<le> n \<and> n \<le> 13 \<or> 28 \<le> n \<and> n \<le> 32 \<or> n = 133 \<or> n = 160)"

definition strip :: "string \<Rightarrow> string" where
  "strip t = rev (dropWhile is_space (rev (dropWhile is_space t)))"

definition hops_of :: "string \<Rightarrow> string list" where
  "hops_of header = filter (\<lambda>h. h \<noteq> []) (map strip (split_commas header))"

text \<open>\<open>peer\<close> is the address of the socket, \<open>xff\<close> the header (empty when absent).\<close>

definition client_ip :: "(string \<Rightarrow> bool) \<Rightarrow> string list \<Rightarrow> string option \<Rightarrow> string \<Rightarrow> string" where
  "client_ip trusted_proxy trusted client xff =
     (let peer = (case client of Some h \<Rightarrow> h | None \<Rightarrow> ''unknown'')
      in if trusted = [] \<or> \<not> trusted_proxy peer then peer
         else case List.find (\<lambda>h. \<not> trusted_proxy h) (rev (hops_of xff)) of
                Some h \<Rightarrow> h | None \<Rightarrow> peer)"

section \<open>The middleware\<close>

definition AUTH_ROUTES :: "(string \<times> string option) list" where
  "AUTH_ROUTES =
     [(''/v1/auth/login'', Some ''email''), (''/v1/auth/register'', Some ''email''),
      (''/v1/auth/forgot-password'', Some ''email''), (''/v1/auth/reset-password'', None),
      (''/v1/auth/refresh'', None), (''/v1/auth/oidc/start'', None), (''/v1/auth/oidc/callback'', None),
      (''/v1/auth/invite'', None)]"

record limit_settings =
  auth_rate_limit_per_ip :: int
  auth_rate_limit_per_identity :: int
  auth_rate_window_seconds :: int

record auth_request =
  ar_path :: string
  ar_method :: string
  ar_ip :: string
  ar_body :: "json option"  \<comment> \<open>the parsed body, \<open>None\<close> when it is not JSON\<close>

text \<open>
  \<open>str\<close> of a parsed value that counts as true (\<open>None\<close> for one that counts as false). The text of a
  nested value is left open as \<open>repr_of\<close>.
\<close>

definition truthy_text :: "(json \<Rightarrow> string) \<Rightarrow> json \<Rightarrow> string option" where
  "truthy_text repr_of v =
     (case v of
        JNull \<Rightarrow> None
      | JBool b \<Rightarrow> if b then Some ''True'' else None
      | JInt n \<Rightarrow> if n = 0 then None else Some (if n < 0 then ''-'' @ nat_str (nat (- n)) else nat_str (nat n))
      | JStr t \<Rightarrow> if t = '''' then None else Some t
      | JList xs \<Rightarrow> if xs = [] then None else Some (repr_of v)
      | JObj d \<Rightarrow> if d = [] then None else Some (repr_of v)
      | JFloat m k \<Rightarrow> if m = 0 then None else Some (repr_of v)
      | _ \<Rightarrow> Some (repr_of v))"

definition peek_identity :: "(json \<Rightarrow> string) \<Rightarrow> json option \<Rightarrow> string \<Rightarrow> string option" where
  "peek_identity repr_of body field =
     (case body of
        Some (JObj d) \<Rightarrow>
          (case map_of d field of
             None \<Rightarrow> None
           | Some v \<Rightarrow> map_option (map lower_char) (truthy_text repr_of v))
      | _ \<Rightarrow> None)"

text \<open>The answer of the middleware: the route runs, or 429 with the given error.\<close>

definition auth_dispatch :: "(json \<Rightarrow> string) \<Rightarrow> limit_settings \<Rightarrow> int \<Rightarrow> auth_request \<Rightarrow> limiter \<Rightarrow> (error + unit) \<times> limiter" where
  "auth_dispatch repr_of cfg now r s =
     (case map_of AUTH_ROUTES (ar_path r) of
        None \<Rightarrow> (Inr (), s)
      | Some identity_field \<Rightarrow>
          (let (res, s1) = check_local (''auth:ip:'' @ ar_ip r) (auth_rate_limit_per_ip cfg) (auth_rate_window_seconds cfg) now s
           in case res of
                Inl e \<Rightarrow> (Inl e, s1)
              | Inr _ \<Rightarrow>
                  (case identity_field of
                     None \<Rightarrow> (Inr (), s1)
                   | Some f \<Rightarrow>
                       if ar_method r = ''POST''
                       then (case peek_identity repr_of (ar_body r) f of
                               None \<Rightarrow> (Inr (), s1)
                             | Some i \<Rightarrow> check_local (''auth:id:'' @ i) (auth_rate_limit_per_identity cfg)
                                          (auth_rate_window_seconds cfg) now s1)
                       else (Inr (), s1))))"

section \<open>Windows count attempts exactly\<close>

text \<open>Checks of keys at times, one after the other.\<close>

definition checks :: "int \<Rightarrow> int \<Rightarrow> (string \<times> int) list \<Rightarrow> limiter \<Rightarrow> limiter" where
  "checks n w reqs s = foldl (\<lambda>s (k, t). snd (check_local k n w t s)) s reqs"

definition attempts_in :: "int \<Rightarrow> string \<Rightarrow> int \<Rightarrow> (string \<times> int) list \<Rightarrow> nat" where
  "attempts_in w key i reqs = length (filter (\<lambda>(k, t). k = key \<and> t div w = i) reqs)"

definition stored_count :: "string \<Rightarrow> int \<Rightarrow> limiter \<Rightarrow> int" where
  "stored_count key i s = (if rl_local_windows s key = Some i then case rl_local s key of Some c \<Rightarrow> c | None \<Rightarrow> 0 else 0)"

lemma check_local_count:
  "check_local key n w now s = (if stored_count key (now div w) s + 1 > n
       then Inl (rate_limited (w - now mod w) n) else Inr (), snd (check_local key n w now s))"
  by (auto simp: check_local_def stored_count_def Let_def)

lemma stored_count_check:
  "stored_count key i (snd (check_local k n w t s)) =
     (if k = key then if t div w = i then stored_count key i s + 1 else 0 else stored_count key i s)"
  by (auto simp: check_local_def stored_count_def Let_def)

lemma stored_count_checks:
  assumes "0 < w" and "sorted (map snd reqs)" and "\<forall>(k, t)\<in>set reqs. t div w \<le> i"
  shows "stored_count key i (checks n w reqs empty_limiter) = int (attempts_in w key i reqs)"
  using assms(2,3)
proof (induction reqs rule: rev_induct)
  case Nil
  show ?case by (simp add: checks_def attempts_in_def stored_count_def empty_limiter_def)
next
  case (snoc r reqs)
  obtain k t where r: "r = (k, t)" by force
  have IH: "stored_count key i (checks n w reqs empty_limiter) = int (attempts_in w key i reqs)"
    using snoc by (auto simp: sorted_append)
  have step: "checks n w (reqs @ [r]) empty_limiter = snd (check_local k n w t (checks n w reqs empty_limiter))"
    by (simp add: checks_def r)
  have earlier: "attempts_in w key i reqs = 0" if "t div w \<noteq> i"
  proof -
    have "t' div w \<le> t div w" if "(k', t') \<in> set reqs" for k' t'
      using snoc.prems(1) that assms(1) by (auto simp: r sorted_append intro!: zdiv_mono1)
    moreover have "t div w < i" using snoc.prems(2) that by (auto simp: r)
    ultimately have "filter (\<lambda>(k, t). k = key \<and> t div w = i) reqs = []" by (fastforce simp: filter_empty_conv)
    then show ?thesis by (simp add: attempts_in_def)
  qed
  have count: "attempts_in w key i (reqs @ [r]) = attempts_in w key i reqs + (if k = key \<and> t div w = i then 1 else 0)"
    by (simp add: attempts_in_def r)
  show ?case unfolding step stored_count_check count IH using earlier by auto
qed

text \<open>
  C40. The in-process limiter admits an attempt exactly when fewer than the limit of earlier
  attempts of the same key (admitted or not) fall into the same window; other keys have no
  influence, and a refusal names the seconds to the start of the next window.
\<close>

theorem limiter_counts_attempts_per_window:
  assumes "0 < w" and "sorted (map snd (reqs @ [(key, now)]))"
  shows "fst (check_local key n w now (checks n w reqs empty_limiter))
      = (if int (attempts_in w key (now div w) reqs) < n then Inr ()
         else Inl (rate_limited (w - now mod w) n))
    \<and> now < now + (w - now mod w) \<and> (now + (w - now mod w)) mod w = 0 \<and> w - now mod w \<le> w"
proof -
  have "\<forall>(k, t)\<in>set reqs. t div w \<le> now div w"
    using assms by (auto simp: sorted_append intro!: zdiv_mono1)
  with assms have "stored_count key (now div w) (checks n w reqs empty_limiter) = int (attempts_in w key (now div w) reqs)"
    by (intro stored_count_checks) (auto simp: sorted_append)
  then have "fst (check_local key n w now (checks n w reqs empty_limiter))
      = (if int (attempts_in w key (now div w) reqs) < n then Inr () else Inl (rate_limited (w - now mod w) n))"
    by (subst check_local_count) simp
  moreover have "now + (w - now mod w) = w * (now div w + 1)"
    using mult_div_mod_eq [of w now] by (simp add: algebra_simps)
  then have "(now + (w - now mod w)) mod w = 0" by simp
  moreover have "now mod w < w" "0 \<le> now mod w" using assms(1) by simp_all
  ultimately show ?thesis by simp
qed

theorem limiter_counts_attempts_per_window_witness:
  "fst (check_local ''a'' 2 60 100 (checks 2 60 [(''a'', 30), (''a'', 61), (''b'', 70), (''a'', 99)] empty_limiter))
     = Inl (rate_limited 20 2)"
  using limiter_counts_attempts_per_window [of 60 "[(''a'', 30), (''a'', 61), (''b'', 70), (''a'', 99)]" "''a''" 100 2]
  by (simp add: attempts_in_def)

section \<open>The client address cannot be chosen by the client\<close>

lemma hops_of_append: "hops_of (a @ CHR '','' # b) = hops_of a @ hops_of b"
  by (simp add: hops_of_def split_commas_append)

text \<open>
  The address used for rate limiting is not chosen by the client: without a trusted proxy the
  header is ignored, and behind trusted proxies, which append the peer they saw, everything the
  client sent in the header before that is ignored too.
\<close>

theorem client_ip_not_spoofable:
  assumes "CHR '','' \<notin> set real" and "strip real \<noteq> []" and "\<not> trusted_proxy (strip real)"
    and "\<forall>h\<in>set (hops_of proxies). trusted_proxy h" and "trusted_proxy peer" and "trusted \<noteq> []"
  shows "client_ip trusted_proxy trusted (Some peer) (sent @ '','' @ real @ '','' @ proxies) = strip real
    \<and> client_ip trusted_proxy trusted (Some (strip real)) sent = strip real"
proof -
  have "hops_of (sent @ '','' @ real @ '','' @ proxies) = hops_of sent @ [strip real] @ hops_of proxies"
    using hops_of_append [of sent "real @ '','' @ proxies"] hops_of_append [of real proxies] assms(1,2)
    by (simp add: hops_of_def split_commas_plain)
  moreover have "List.find (\<lambda>h. \<not> trusted_proxy h) (rev (hops_of proxies) @ strip real # rev (hops_of sent)) = Some (strip real)"
  proof -
    have "List.find (\<lambda>h. \<not> trusted_proxy h) (xs @ y # ys) = Some y"
      if "\<forall>h\<in>set xs. trusted_proxy h" "\<not> trusted_proxy y" for xs y ys using that by (induction xs) auto
    then show ?thesis using assms(3,4) by simp
  qed
  ultimately show ?thesis using assms by (simp add: client_ip_def)
qed

theorem client_ip_not_spoofable_witness:
  "client_ip (\<lambda>h. take 3 h = ''10.'') [''10.0.0.0/8''] (Some ''10.0.0.1'') (''6.6.6.6, 7.7.7.7'' @ '','' @ '' 8.8.8.8'' @ '','' @ ''10.0.0.2'')
     = ''8.8.8.8''"
proof -
  have s: "strip '' 8.8.8.8'' = ''8.8.8.8''" by code_simp
  have p: "hops_of ''10.0.0.2'' = [''10.0.0.2'']" by code_simp
  from client_ip_not_spoofable [of "'' 8.8.8.8''" "\<lambda>h. take 3 h = ''10.''" "''10.0.0.2''" "''10.0.0.1''" "[''10.0.0.0/8'']"
      "''6.6.6.6, 7.7.7.7''"]
  show ?thesis unfolding s p by simp
qed

end
