(* ===== verification/Tenancy.thy ===== *)
theory Tenancy
  imports Authorization RateLimit
begin

text \<open>
  Organizations and memberships (\<open>tenancy/service.py\<close>, \<open>tenancy/repository.py\<close>): creation with its
  owner and default subscription, invitations by token, role changes, suspension and removal, and
  the seat gauge kept in step. Tokens, their SHA-256 text and the random slug suffix are arguments.
  Row security is not modelled: a query sees what its \<open>WHERE\<close> clause lets through.
\<close>

section \<open>Repositories\<close>

text \<open>\<open>CITEXT\<close> comparison.\<close>

definition citext_eq :: "string option \<Rightarrow> string option \<Rightarrow> bool" where
  "citext_eq a b \<longleftrightarrow> a \<noteq> None \<and> map_option (map lower_char) a = map_option (map lower_char) b"

definition get_by_slug :: "string \<Rightarrow> 'a acct_db_scheme \<Rightarrow> error + organization option" where
  "get_by_slug slug s =
     one_or_none MultipleResultsFound (\<lambda>r. org_slug r = slug \<and> org_deleted_at r = None) (organizations s)"

definition slug_exists :: "string \<Rightarrow> 'a acct_db_scheme \<Rightarrow> error + bool" where
  "slug_exists slug s = bind_r (get_by_slug slug s) (\<lambda>found. Inr (found \<noteq> None))"

definition for_organization :: "uuid \<Rightarrow> nat \<Rightarrow> nat \<Rightarrow> 'a auth_db_scheme \<Rightarrow> membership list" where
  "for_organization org n offset s =
     take n (drop offset (sort_key mb_created_at (rows_where (\<lambda>m. mb_organization_id m = org) (memberships s))))"

definition for_user :: "uuid \<Rightarrow> 'a auth_db_scheme \<Rightarrow> membership list" where
  "for_user user_id s = rows_where (\<lambda>m. mb_user_id m = Some user_id \<and> mb_status m = Mb_Active) (memberships s)"

definition get_active :: "uuid \<Rightarrow> uuid \<Rightarrow> 'a auth_db_scheme \<Rightarrow> error + membership option" where
  "get_active org user_id s = one_or_none MultipleResultsFound
     (\<lambda>m. mb_organization_id m = org \<and> mb_user_id m = Some user_id \<and> mb_status m = Mb_Active) (memberships s)"

definition find_pending_invite :: "uuid \<Rightarrow> string \<Rightarrow> 'a auth_db_scheme \<Rightarrow> error + membership option" where
  "find_pending_invite org email s = one_or_none MultipleResultsFound
     (\<lambda>m. mb_organization_id m = org \<and> citext_eq (mb_invited_email m) (Some email) \<and> mb_status m = Mb_Invited)
     (memberships s)"

definition count_active_members :: "uuid \<Rightarrow> 'a auth_db_scheme \<Rightarrow> nat" where
  "count_active_members org s =
     length (rows_where (\<lambda>m. mb_organization_id m = org \<and> mb_status m = Mb_Active) (memberships s))"

definition count_pending_invites :: "uuid \<Rightarrow> 'a auth_db_scheme \<Rightarrow> nat" where
  "count_pending_invites org s =
     length (rows_where (\<lambda>m. mb_organization_id m = org \<and> mb_status m = Mb_Invited) (memberships s))"

text \<open>The unique constraints and the check constraint of \<open>memberships\<close>, tested by a flush.\<close>

definition unique_memberships :: "membership list \<Rightarrow> bool" where
  "unique_memberships rows =
     (distinct (map (\<lambda>m. (mb_organization_id m, mb_user_id m)) (filter (\<lambda>m. mb_user_id m \<noteq> None) rows))
      \<and> distinct (map (\<lambda>m. (mb_organization_id m, map_option (map lower_char) (mb_invited_email m)))
                    (filter (\<lambda>m. mb_invited_email m \<noteq> None) rows))
      \<and> list_all (\<lambda>m. mb_user_id m \<noteq> None \<or> mb_invited_email m \<noteq> None) rows)"

definition flush_memberships :: "'a auth_db_scheme \<Rightarrow> error + 'a auth_db_scheme" where
  "flush_memberships s = (if unique_memberships (memberships s) then Inr s else Inl IntegrityError)"

definition same_mailbox :: "string option \<Rightarrow> string option \<Rightarrow> bool" where
  "same_mailbox invited actual =
     (let norm = (\<lambda>e. map lower_char (strip (case e of Some t \<Rightarrow> t | None \<Rightarrow> [])))
      in norm invited = norm actual)"

section \<open>Shared steps\<close>

definition org_audit ::
  "event_type \<Rightarrow> uuid \<Rightarrow> (string \<times> uuid) option \<Rightarrow> json_object option \<Rightarrow> 'a core_db_scheme \<Rightarrow> 'a core_db_scheme" where
  "org_audit ev org target diff s =
     audit_log_as ev (Some org) None ''user'' (map_option fst target) (map_option snd target) diff s"

text \<open>The \<open>users\<close> gauge: active members and pending invites.\<close>

definition sync_seat_gauge ::
  "settings \<Rightarrow> datetime \<Rightarrow> uuid \<Rightarrow> 'a auth_db_scheme \<Rightarrow> error + 'a auth_db_scheme" where
  "sync_seat_gauge cfg now org s =
     bind_r (set_gauge cfg now org ''users'' (int (count_active_members org s + count_pending_invites org s)) s)
       (\<lambda>(_, s1). Inr s1)"

definition invalidate_perms ::
  "authz_settings \<Rightarrow> datetime \<Rightarrow> membership \<Rightarrow> 'a auth_db_scheme \<Rightarrow> 'a auth_db_scheme" where
  "invalidate_perms acfg now m s =
     (case mb_user_id m of None \<Rightarrow> s | Some u \<Rightarrow> invalidate_user_perms acfg now u (mb_organization_id m) s)"

definition get_membership :: "uuid \<Rightarrow> 'a auth_db_scheme \<Rightarrow> error + membership" where
  "get_membership i s =
     bind_r (one_or_none MultipleResultsFound (\<lambda>m. mb_id m = i) (memberships s)) (\<lambda>found.
       case found of None \<Rightarrow> raise_error NotAMemberError | Some m \<Rightarrow> Inr m)"

fun attach_roles ::
  "membership \<Rightarrow> string list \<Rightarrow> 'a auth_db_scheme \<Rightarrow> error + (membership \<times> 'a auth_db_scheme)" where
  "attach_roles m [] s = Inr (m, s)"
| "attach_roles m (k # ks) s = bind_r (attach_role m k s) (\<lambda>(m', s'). attach_roles m' ks s')"

definition replace_roles ::
  "authz_settings \<Rightarrow> datetime \<Rightarrow> membership \<Rightarrow> string list \<Rightarrow> 'a auth_db_scheme
    \<Rightarrow> error + (membership \<times> 'a auth_db_scheme)" where
  "replace_roles acfg now m role_keys s =
     (let m0 = m\<lparr>mb_permission_keys := []\<rparr>;
          s1 = save_membership m0 (s\<lparr>membership_roles := filter (\<lambda>(i, _). i \<noteq> mb_id m) (membership_roles s)\<rparr>)
      in bind_r (attach_roles m0 role_keys s1) (\<lambda>(m', s2). Inr (m', invalidate_perms acfg now m' s2)))"

section \<open>Organizations\<close>

definition bootstrap_subscription ::
  "settings \<Rightarrow> datetime \<Rightarrow> uuid \<Rightarrow> 'a auth_db_scheme \<Rightarrow> error + 'a auth_db_scheme" where
  "bootstrap_subscription cfg now org s =
     bind_r (one_or_none MultipleResultsFound (\<lambda>p. plan_key p = default_plan_key cfg) (plan_rows s)) (\<lambda>found.
       case found of
         None \<Rightarrow> Inr s
       | Some p \<Rightarrow>
           bind_r (create_subscription now org p Active (Some now) (Some (now + days 30)) None None None None s)
             (\<lambda>(_, s1). Inr s1))"

definition add_membership ::
  "uuid \<Rightarrow> uuid option \<Rightarrow> string option \<Rightarrow> member_status \<Rightarrow> datetime option \<Rightarrow> 'a auth_db_scheme
    \<Rightarrow> error + (membership \<times> 'a auth_db_scheme)" where
  "add_membership org user_id invited_email status joined_at s =
     (let m = \<lparr>mb_id = next_uuid s, mb_organization_id = org, mb_user_id = user_id,
               mb_invited_email = invited_email, mb_invite_token_hash = None, mb_status = status,
               mb_joined_at = joined_at, mb_permission_keys = [], mb_created_at = tx_now s\<rparr>
      in bind_r (flush_memberships (s\<lparr>next_uuid := Suc (next_uuid s), memberships := memberships s @ [m]\<rparr>))
           (\<lambda>s1. Inr (m, s1)))"

definition create_organization ::
  "settings \<Rightarrow> authz_settings \<Rightarrow> datetime \<Rightarrow> string \<Rightarrow> user \<Rightarrow> string option \<Rightarrow> string \<Rightarrow> 'a auth_db_scheme
    \<Rightarrow> error + (organization \<times> 'a auth_db_scheme)" where
  "create_organization cfg acfg now name owner slug suffix s =
     (let desired = (case slug of Some t \<Rightarrow> if t \<noteq> [] then t else slugify name | None \<Rightarrow> slugify name)
      in bind_r (guard_r (desired = [] \<or> is_valid_slug desired)
                   (Domain SlugUnavailableError [(''slug'', JStr desired)])) (\<lambda>_.
         bind_r (if desired \<noteq> [] then slug_exists desired s else Inr True) (\<lambda>taken.
           let final_slug = (if \<not> taken then desired else unique_slug suffix name);
               org = \<lparr>org_id = next_uuid s, org_slug = final_slug, org_name = name, org_status = Org_Active,
                      org_owner_user_id = Some (us_id owner), org_settings = [], org_deleted_at = None\<rparr>
           in bind_r (guard_r (\<forall>r\<in>set (organizations s). org_slug r \<noteq> final_slug) IntegrityError) (\<lambda>_.
              bind_r (add_membership (org_id org) (Some (us_id owner)) None Mb_Active (Some now)
                        (s\<lparr>next_uuid := Suc (next_uuid s), organizations := organizations s @ [org]\<rparr>)) (\<lambda>(m, s1).
              bind_r (sync_seat_gauge cfg now (org_id org) s1) (\<lambda>s2.
              bind_r (one_or_none MultipleResultsFound
                        (\<lambda>r. ro_key r = SYSTEM_ROLE_OWNER \<and> ro_organization_id r = None) (roles s2)) (\<lambda>owner_role.
              case owner_role of
                None \<Rightarrow> Inl NoResultFound
              | Some r \<Rightarrow>
                  let m' = m\<lparr>mb_permission_keys := sorted_set (role_permission_keys (ro_id r) s2)\<rparr>;
                      s3 = save_membership m' (s2\<lparr>membership_roles := membership_roles s2 @ [(mb_id m, ro_id r)]\<rparr>);
                      s4 = queue_tuple_sync acfg (org_id org) (Some (us_id owner)) s3;
                      s5 = org_audit ORG_CREATED (org_id org) (Some (''organization'', org_id org))
                             (Some [(''name'', JStr name), (''slug'', JStr final_slug)]) s4;
                      s6 = append_outbox ORG_CREATED ''organization'' (org_id org)
                             [(''name'', JStr name), (''slug'', JStr final_slug),
                              (''owner_user_id'', JUuid (us_id owner))] (Some (org_id org)) s5
                  in bind_r (bootstrap_subscription cfg now (org_id org) s6) (\<lambda>s7. Inr (org, s7)))))))))"

definition get_organization :: "uuid \<Rightarrow> 'a acct_db_scheme \<Rightarrow> error + organization" where
  "get_organization i s =
     (case first_row (\<lambda>r. org_id r = i) (organizations s) of
        None \<Rightarrow> raise_error OrganizationNotFoundError
      | Some r \<Rightarrow> if org_deleted_at r \<noteq> None then raise_error OrganizationNotFoundError else Inr r)"

definition save_organization :: "organization \<Rightarrow> 'a acct_db_scheme \<Rightarrow> 'a acct_db_scheme" where
  "save_organization r s =
     s\<lparr>organizations := update_where (\<lambda>x. org_id x = org_id r) (\<lambda>_. r) (organizations s)\<rparr>"

definition update_organization ::
  "uuid \<Rightarrow> string option \<Rightarrow> json_object option \<Rightarrow> 'a acct_db_scheme \<Rightarrow> error + (organization \<times> 'a acct_db_scheme)" where
  "update_organization i name new_settings s =
     bind_r (get_organization i s) (\<lambda>r.
       let (d1, r1) = (case name of
             Some n \<Rightarrow> if n \<noteq> org_name r
               then ([(''name'', JObj [(''from'', JStr (org_name r)), (''to'', JStr n)])], r\<lparr>org_name := n\<rparr>)
               else ([], r)
           | None \<Rightarrow> ([], r));
           (d2, r2) = (case new_settings of
             Some d \<Rightarrow>
               let merged = foldl (\<lambda>acc (k, v). dict_set k v acc) (org_settings r1) d
               in ([(''settings'', JObj [(''from'', JObj (org_settings r1)), (''to'', JObj merged)])],
                   r1\<lparr>org_settings := merged\<rparr>)
           | None \<Rightarrow> ([], r1));
           s1 = save_organization r2 s
       in Inr (r2, if d1 @ d2 \<noteq> [] then org_audit ORG_UPDATED i None (Some (d1 @ d2)) s1 else s1))"

definition suspend_organization :: "uuid \<Rightarrow> 'a acct_db_scheme \<Rightarrow> error + (organization \<times> 'a acct_db_scheme)" where
  "suspend_organization i s =
     bind_r (get_organization i s) (\<lambda>r.
       let r' = r\<lparr>org_status := Org_Suspended\<rparr>
       in Inr (r', org_audit ORG_SUSPENDED i None None (save_organization r' s)))"

definition unsuspend_organization :: "uuid \<Rightarrow> 'a acct_db_scheme \<Rightarrow> error + (organization \<times> 'a acct_db_scheme)" where
  "unsuspend_organization i s =
     bind_r (get_organization i s) (\<lambda>r.
       let r' = r\<lparr>org_status := Org_Active\<rparr>
       in Inr (r', org_audit ORG_UNSUSPENDED i None None (save_organization r' s)))"

section \<open>Invitations\<close>

definition text_json :: "string option \<Rightarrow> json" where
  "text_json t = (case t of Some x \<Rightarrow> JStr x | None \<Rightarrow> JNull)"

text \<open>The audit row and the two events of an invitation: the public one carries no token.\<close>

definition announce_invite ::
  "uuid \<Rightarrow> uuid \<Rightarrow> string \<Rightarrow> string list \<Rightarrow> string \<Rightarrow> string \<Rightarrow> 'a core_db_scheme \<Rightarrow> 'a core_db_scheme" where
  "announce_invite org i invited_email keys organization_name token s =
     append_outbox MEMBER_INVITE_EMAIL ''membership'' i
       [(''email'', JStr invited_email), (''invite_token'', JStr token),
        (''org_name'', JStr organization_name)] (Some org)
     (append_outbox MEMBER_INVITED ''membership'' i
       [(''email'', JStr invited_email), (''org_name'', JStr organization_name),
        (''membership_id'', JUuid i)] (Some org)
     (org_audit MEMBER_INVITED org (Some (''membership'', i))
       (Some [(''email'', JStr invited_email), (''roles'', JList (map JStr keys))]) s))"

definition invite_member ::
  "settings \<Rightarrow> (string \<Rightarrow> string) \<Rightarrow> datetime \<Rightarrow> uuid \<Rightarrow> string \<Rightarrow> string list \<Rightarrow> int option \<Rightarrow> string \<Rightarrow> string
    \<Rightarrow> 'a auth_db_scheme \<Rightarrow> error + (membership \<times> 'a auth_db_scheme)" where
  "invite_member cfg sha now org invited_email role_keys seat_limit organization_name token s =
     bind_r (one_or_none MultipleResultsFound
         (\<lambda>m. mb_organization_id m = org \<and> citext_eq (mb_invited_email m) (Some invited_email)) (memberships s)) (\<lambda>existing.
     bind_r (case existing of
               None \<Rightarrow> Inr ()
             | Some m \<Rightarrow> Inl (Domain ConflictError [(''email'', JStr invited_email),
                 (''membership_status'', JStr (member_status_name (mb_status m)))])) (\<lambda>_.
       let used = int (count_active_members org s + count_pending_invites org s);
           keys = (if role_keys = [] then [''member''] else role_keys)
       in bind_r (case seat_limit of
                    None \<Rightarrow> Inr ()
                  | Some n \<Rightarrow> guard_r (used + 1 \<le> n) (Domain MembershipLimitReachedError
                      [(''metric'', JStr ''users''), (''limit'', JInt n), (''used'', JInt used),
                       (''upgrade_url'', JStr ''/dashboard/billing'')])) (\<lambda>_.
          bind_r (add_membership org None (Some invited_email) Mb_Invited None s) (\<lambda>(m0, s1).
          bind_r (attach_roles m0 keys s1) (\<lambda>(m1, s2).
            let m = m1\<lparr>mb_invite_token_hash := Some (sha token)\<rparr>
            in bind_r (sync_seat_gauge cfg now org
                   (announce_invite org (mb_id m) invited_email keys organization_name token (save_membership m s2)))
                 (\<lambda>s3. Inr (m, s3)))))))"

text \<open>\<open>_accept\<close>: the membership object may carry a change not yet written (the used token).\<close>

definition announce_join :: "membership \<Rightarrow> 'a core_db_scheme \<Rightarrow> 'a core_db_scheme" where
  "announce_join m s =
     append_outbox MEMBER_JOINED ''membership'' (mb_id m)
       [(''email'', text_json (mb_invited_email m))] (Some (mb_organization_id m))
     (org_audit MEMBER_JOINED (mb_organization_id m) (Some (''membership'', mb_id m))
       (Some [(''email'', text_json (mb_invited_email m))]) s)"

definition accept_membership ::
  "settings \<Rightarrow> authz_settings \<Rightarrow> datetime \<Rightarrow> membership \<Rightarrow> user option \<Rightarrow> 'a auth_db_scheme
    \<Rightarrow> error + (membership \<times> 'a auth_db_scheme)" where
  "accept_membership cfg acfg now m0 usr s =
     (let m1 = (case usr of
            Some u \<Rightarrow> m0\<lparr>mb_user_id := Some (us_id u), mb_invited_email := Some (us_email u)\<rparr>
          | None \<Rightarrow> m0);
          m = m1\<lparr>mb_status := Mb_Active, mb_joined_at := Some now\<rparr>
      in bind_r (flush_memberships (save_membership m s)) (\<lambda>s1.
         bind_r (sync_seat_gauge cfg now (mb_organization_id m) (announce_join m s1)) (\<lambda>s2.
           Inr (m, invalidate_perms acfg now m s2))))"

definition accept_invite_by_email ::
  "settings \<Rightarrow> authz_settings \<Rightarrow> datetime \<Rightarrow> uuid \<Rightarrow> string \<Rightarrow> 'a auth_db_scheme
    \<Rightarrow> error + (membership \<times> 'a auth_db_scheme)" where
  "accept_invite_by_email cfg acfg now org email s =
     bind_r (find_pending_invite org email s) (\<lambda>found.
       case found of
         None \<Rightarrow> raise_error InviteNotFoundError
       | Some m \<Rightarrow>
           bind_r (one_or_none MultipleResultsFound (\<lambda>u. citext_eq (Some (us_email u)) (Some email)) (users s))
             (\<lambda>usr. accept_membership cfg acfg now m usr s))"

definition invited_membership_for_token ::
  "(string \<Rightarrow> string) \<Rightarrow> string \<Rightarrow> 'a auth_db_scheme \<Rightarrow> error + membership" where
  "invited_membership_for_token sha token s =
     (if \<forall>m\<in>set (memberships s). \<not> (mb_invite_token_hash m = Some (sha token) \<and> mb_status m = Mb_Invited)
      then raise_error InviteNotFoundError
      else
        bind_r (one_or_none MultipleResultsFound
            (\<lambda>m. mb_invite_token_hash m = Some (sha token) \<and> mb_status m = Mb_Invited) (memberships s)) (\<lambda>found.
          case found of None \<Rightarrow> raise_error InviteNotFoundError | Some m \<Rightarrow> Inr m))"

definition accept_invite_by_token ::
  "settings \<Rightarrow> authz_settings \<Rightarrow> (string \<Rightarrow> string) \<Rightarrow> datetime \<Rightarrow> string \<Rightarrow> user \<Rightarrow> 'a auth_db_scheme
    \<Rightarrow> error + (membership \<times> 'a auth_db_scheme)" where
  "accept_invite_by_token cfg acfg sha now token u s =
     bind_r (invited_membership_for_token sha token s) (\<lambda>m.
     bind_r (guard_r (same_mailbox (mb_invited_email m) (Some (us_email u))) (Domain PermissionDeniedError [])) (\<lambda>_.
       accept_membership cfg acfg now (m\<lparr>mb_invite_token_hash := None\<rparr>) (Some u) s))"

definition preview_invite ::
  "(string \<Rightarrow> string) \<Rightarrow> string \<Rightarrow> 'a auth_db_scheme \<Rightarrow> error + (organization \<times> membership)" where
  "preview_invite sha token s =
     bind_r (invited_membership_for_token sha token s) (\<lambda>m.
       case first_row (\<lambda>r. org_id r = mb_organization_id m) (organizations s) of
         None \<Rightarrow> raise_error InviteNotFoundError
       | Some r \<Rightarrow> if org_deleted_at r \<noteq> None then raise_error InviteNotFoundError else Inr (r, m))"

section \<open>Changing and removing members\<close>

definition update_membership ::
  "settings \<Rightarrow> authz_settings \<Rightarrow> datetime \<Rightarrow> uuid \<Rightarrow> string list option \<Rightarrow> member_status option
    \<Rightarrow> 'a auth_db_scheme \<Rightarrow> error + (membership \<times> 'a auth_db_scheme)" where
  "update_membership cfg acfg now i role_keys status s =
     bind_r (get_membership i s) (\<lambda>m0.
     bind_r (case role_keys of
               None \<Rightarrow> Inr (m0, s) | Some keys \<Rightarrow> replace_roles acfg now m0 keys s) (\<lambda>(m1, s1).
       let moved = (case status of Some st \<Rightarrow> st \<noteq> mb_status m1 | None \<Rightarrow> False);
           m = (if moved then m1\<lparr>mb_status := the status\<rparr> else m1);
           s2 = save_membership m s1;
           diff = (case role_keys of Some keys \<Rightarrow> [(''roles'', JList (map JStr keys))] | None \<Rightarrow> [])
             @ (if moved then [(''status'', JObj [(''from'', JStr (member_status_name (mb_status m1))),
                                                  (''to'', JStr (member_status_name (mb_status m)))])] else []);
           s3 = (if diff \<noteq> [] then org_audit MEMBER_UPDATED (mb_organization_id m)
                   (Some (''membership'', mb_id m)) (Some diff) s2 else s2)
       in if moved
          then bind_r (sync_seat_gauge cfg now (mb_organization_id m) s3) (\<lambda>s4.
                 Inr (m, invalidate_perms acfg now m s4))
          else Inr (m, s3)))"

text \<open>
  The owner check compares two nullable columns in Python: a pending invite (no user) of an
  organization without an owner counts as the owner's. Deleting the row deletes its role links.
\<close>

definition remove_member ::
  "settings \<Rightarrow> authz_settings \<Rightarrow> datetime \<Rightarrow> uuid \<Rightarrow> 'a auth_db_scheme \<Rightarrow> error + 'a auth_db_scheme" where
  "remove_member cfg acfg now i s =
     bind_r (get_membership i s) (\<lambda>m.
     bind_r (get_organization (mb_organization_id m) s) (\<lambda>org.
     bind_r (guard_r (mb_user_id m \<noteq> org_owner_user_id org) (Domain NotAMemberError [])) (\<lambda>_.
       let s1 = org_audit MEMBER_REMOVED (mb_organization_id m) (Some (''membership'', mb_id m))
                  (Some [(''email'', case mb_invited_email m of
                       Some e \<Rightarrow> if e \<noteq> [] then JStr e else (case mb_user_id m of Some u \<Rightarrow> JUuid u | None \<Rightarrow> JStr ''None'')
                     | None \<Rightarrow> (case mb_user_id m of Some u \<Rightarrow> JUuid u | None \<Rightarrow> JStr ''None''))]) s;
           s2 = s1\<lparr>memberships := delete_where (\<lambda>x. mb_id x = i) (memberships s1),
                   membership_roles := filter (\<lambda>(x, _). x \<noteq> i) (membership_roles s1)\<rparr>
       in bind_r (sync_seat_gauge cfg now (mb_organization_id m) s2) (\<lambda>s3.
            Inr (queue_tuple_sync acfg (mb_organization_id m) (mb_user_id m) s3)))))"

section \<open>What every operation keeps\<close>

definition seats :: "uuid \<Rightarrow> 'a auth_db_scheme \<Rightarrow> nat" where
  "seats org s = count_active_members org s + count_pending_invites org s"

definition seat_gauge :: "uuid \<Rightarrow> 'a auth_db_scheme \<Rightarrow> int" where
  "seat_gauge org s = counter_total org ''users'' GAUGE_PERIOD s"

text \<open>
  The tables are consistent, the gauges of the organizations outside \<open>X\<close> are up to date.
\<close>

definition inv_but :: "uuid set \<Rightarrow> 'a auth_db_scheme \<Rightarrow> bool" where
  "inv_but X s \<longleftrightarrow> auth_ids_ok s \<and> perms_current s \<and> unique_memberships (memberships s)
     \<and> distinct (map counter_key (usage_counters s)) \<and> (\<forall>org. org \<notin> X \<longrightarrow> seat_gauge org s = int (seats org s))"

abbreviation tenancy_inv :: "'a auth_db_scheme \<Rightarrow> bool" where
  "tenancy_inv s \<equiv> inv_but {} s"

lemma length_filter_parts:
  "(\<And>x. R x \<longleftrightarrow> P x \<or> Q x) \<Longrightarrow> (\<And>x. \<not> (P x \<and> Q x)) \<Longrightarrow>
     length (filter P xs) + length (filter Q xs) = length (filter R xs)"
  by (induction xs) auto

lemma seats_alt:
  "seats org s = length (filter (\<lambda>m. mb_organization_id m = org \<and> mb_status m \<noteq> Mb_Suspended) (memberships s))"
  unfolding seats_def count_active_members_def count_pending_invites_def rows_where_def
  by (rule length_filter_parts) (auto intro: member_status.exhaust)

lemma seats_cong: "memberships s' = memberships s \<Longrightarrow> seats org s' = seats org s"
  by (simp add: seats_alt)

lemma seats_bare:
  fixes s s' :: "'a auth_db_scheme"
  shows "bare_members s' = bare_members s \<Longrightarrow> seats org s' = seats org s"
proof -
  assume b: "bare_members s' = bare_members s"
  have "seats org t = length (filter (\<lambda>m. mb_organization_id m = org \<and> mb_status m \<noteq> Mb_Suspended) (bare_members t))"
    for t :: "'a auth_db_scheme"
    by (simp add: seats_alt bare_members_def filter_map comp_def bare_def)
  with b show ?thesis by simp
qed

lemma unique_bare:
  fixes s s' :: "'a auth_db_scheme"
  shows "bare_members s' = bare_members s \<Longrightarrow> unique_memberships (memberships s') = unique_memberships (memberships s)"
proof -
  assume b: "bare_members s' = bare_members s"
  have "unique_memberships (memberships t) = unique_memberships (bare_members t)" for t :: "'a auth_db_scheme"
    by (simp add: unique_memberships_def bare_members_def filter_map comp_def bare_def list_all_iff)
  with b show ?thesis by simp
qed

lemma seat_gauge_cong: "usage_counters s' = usage_counters s \<Longrightarrow> seat_gauge org s' = seat_gauge org s"
  by (simp add: seat_gauge_def counter_total_def)

text \<open>Writers of other tables.\<close>

lemma inv_but_elsewhere:
  assumes "inv_but X s" and "memberships s' = memberships s" "roles s' = roles s"
    "permission_rows s' = permission_rows s" "role_permissions s' = role_permissions s"
    "membership_roles s' = membership_roles s" "distinct (map counter_key (usage_counters s'))"
    "\<forall>org. seat_gauge org s' = seat_gauge org s" "next_uuid s \<le> next_uuid s'"
  shows "inv_but X s'"
proof -
  have "granted_keys i s' = granted_keys i s" for i by (rule granted_keys_cong) (simp_all add: assms)
  then have "perms_current s'" using assms(1,2) by (simp add: inv_but_def perms_current_def)
  moreover have ok: "auth_ids_ok s" using assms(1) by (simp add: inv_but_def)
  then have "auth_ids_ok s'" using auth_ids_fresh(5) [OF ok] assms by - (rule auth_ids_transfer [OF ok], simp_all)
  ultimately show ?thesis
    using assms(1,2,7,8) seats_cong [OF assms(2)] by (simp add: inv_but_def)
qed

lemma inv_but_frame:
  assumes "inv_but X s" and "memberships s' = memberships s" "roles s' = roles s"
    "permission_rows s' = permission_rows s" "role_permissions s' = role_permissions s"
    "membership_roles s' = membership_roles s" "usage_counters s' = usage_counters s"
    "next_uuid s \<le> next_uuid s'"
  shows "inv_but X s'"
  by (rule inv_but_elsewhere [OF assms(1-6)])
    (use assms(1,7,8) seat_gauge_cong [OF assms(7)] in \<open>simp_all add: inv_but_def\<close>)

lemma role_change_keeps_inv:
  assumes "tenancy_inv s" and "role_change_ok s s'"
  shows "tenancy_inv s'"
proof -
  have b: "bare_members s' = bare_members s" and u: "usage_counters s' = usage_counters s"
    using assms(2) by (simp_all add: role_change_ok_def)
  show ?thesis
    using assms seats_bare [OF b] unique_bare [OF b] seat_gauge_cong [OF u] u
    by (simp add: inv_but_def role_change_ok_def)
qed

section \<open>The seat gauge\<close>

lemma set_gauge_effect:
  assumes "distinct (map counter_key (usage_counters s))" and "set_gauge cfg now org m v s = Inr (r, s')"
  shows "\<exists>cs st. s' = s\<lparr>usage_counters := cs, cache_store := st\<rparr>"
    and "distinct (map counter_key (usage_counters s'))"
    and "counter_total org m GAUGE_PERIOD s' = max v 0"
    and "(org', m', p') \<noteq> (org, m, GAUGE_PERIOD) \<Longrightarrow> counter_total org' m' p' s' = counter_total org' m' p' s"
proof -
  from assms(2) obtain t s1 where up: "upsert_counter org m GAUGE_PERIOD (max v 0) (\<lambda>_. max v 0) (tx_now s) s = (t, s1)"
    and res: "gauge_result cfg now org m (max v 0) s1 = Inr (r, s')"
    by (auto simp: set_gauge_def bind_r_eq_Inr Let_def split: prod.splits)
  from upsert_counter_frame [OF up] obtain cs where s1: "s1 = s\<lparr>usage_counters := cs\<rparr>" by blast
  from gauge_result_frame [OF res] obtain st where s': "s' = s1\<lparr>cache_store := st\<rparr>" by blast
  then show "\<exists>cs st. s' = s\<lparr>usage_counters := cs, cache_store := st\<rparr>" unfolding s1 by blast
  note eff = upsert_counter_effect [OF assms(1) up]
  have same: "counter_total o' m' p' s' = counter_total o' m' p' s1" for o' m' p'
    by (simp add: s' counter_total_def)
  show "distinct (map counter_key (usage_counters s'))" using eff(1) by (simp add: s')
  show "counter_total org m GAUGE_PERIOD s' = max v 0" using eff(2,3) by (simp add: same)
  show "(org', m', p') \<noteq> (org, m, GAUGE_PERIOD) \<Longrightarrow> counter_total org' m' p' s' = counter_total org' m' p' s"
    using eff(5) by (simp add: same)
qed

lemma sync_establishes:
  assumes "inv_but {org} s" and "sync_seat_gauge cfg now org s = Inr s'"
  shows "tenancy_inv s'" and "memberships s' = memberships s" "roles s' = roles s"
    "permission_rows s' = permission_rows s" "role_permissions s' = role_permissions s"
    "membership_roles s' = membership_roles s" "next_uuid s' = next_uuid s" "organizations s' = organizations s"
    "users s' = users s"
proof -
  have d: "distinct (map counter_key (usage_counters s))" using assms(1) by (simp add: inv_but_def)
  from assms(2) obtain r where g: "set_gauge cfg now org ''users'' (int (seats org s)) s = Inr (r, s')"
    by (auto simp: sync_seat_gauge_def bind_r_eq_Inr seats_def)
  note eff = set_gauge_effect [OF d g]
  from eff(1) obtain cs st where s': "s' = s\<lparr>usage_counters := cs, cache_store := st\<rparr>" by blast
  show frame: "memberships s' = memberships s" "roles s' = roles s"
    "permission_rows s' = permission_rows s" "role_permissions s' = role_permissions s"
    "membership_roles s' = membership_roles s" "next_uuid s' = next_uuid s" "organizations s' = organizations s"
    "users s' = users s"
    by (simp_all add: s')
  have "granted_keys i s' = granted_keys i s" for i by (rule granted_keys_cong) (simp_all add: frame)
  then have "perms_current s'" using assms(1) frame(1) by (simp add: inv_but_def perms_current_def)
  moreover have ok: "auth_ids_ok s" using assms(1) by (simp add: inv_but_def)
  then have "auth_ids_ok s'" by (simp add: auth_ids_ok_def used_ids_def frame)
  moreover have "seat_gauge o' s' = int (seats o' s')" for o'
  proof (cases "o' = org")
    case True
    then show ?thesis using eff(3) by (simp add: seat_gauge_def seats_cong [OF frame(1)])
  next
    case False
    then have "seat_gauge o' s' = seat_gauge o' s" using eff(4) by (simp add: seat_gauge_def)
    with False assms(1) show ?thesis by (simp add: inv_but_def seats_cong [OF frame(1)])
  qed
  ultimately show "tenancy_inv s'" using assms(1) frame(1) eff(2) by (simp add: inv_but_def)
qed

section \<open>Changing one membership\<close>

lemma unique_memberships_cong:
  assumes "map (\<lambda>m. (mb_organization_id m, mb_user_id m, mb_invited_email m)) rows'
    = map (\<lambda>m. (mb_organization_id m, mb_user_id m, mb_invited_email m)) rows"
  shows "unique_memberships rows' = unique_memberships rows"
proof -
  let ?k = "\<lambda>m. (mb_organization_id m, mb_user_id m, mb_invited_email m)"
  have "unique_memberships rs =
      (distinct (map (\<lambda>(o', u, _). (o', u)) (filter (\<lambda>(_, u, _). u \<noteq> None) (map ?k rs)))
       \<and> distinct (map (\<lambda>(o', _, e). (o', map_option (map lower_char) e)) (filter (\<lambda>(_, _, e). e \<noteq> None) (map ?k rs)))
       \<and> list_all (\<lambda>(_, u, e). u \<noteq> None \<or> e \<noteq> None) (map ?k rs))" for rs
    by (simp add: unique_memberships_def filter_map comp_def list_all_iff)
  with assms show ?thesis by simp
qed

lemma saved_rows:
  assumes "distinct (map mb_id rows)" and "m0 \<in> set rows" and "mb_id m = mb_id m0"
  shows "map f (update_where (\<lambda>x. mb_id x = mb_id m) (\<lambda>_. m) rows) = map (\<lambda>x. if x = m0 then f m else f x) rows"
proof -
  have "x = m0" if "x \<in> set rows" "mb_id x = mb_id m" for x
    using distinct_key_unique [OF assms(1) that(1), of m0] assms(2,3) that(2) by simp
  then show ?thesis using assms(3) by (auto simp: update_where_def)
qed

lemma length_filter_map_cong:
  assumes "map P xs = map P ys"
  shows "length (filter P xs) = length (filter P ys)"
proof -
  have "length (filter P zs) = length (filter id (map P zs))" for zs by (induction zs) auto
  then show ?thesis by (simp only: assms)
qed

lemma edit_membership:
  assumes inv: "inv_but X s" and m0: "m0 \<in> set (memberships s)" and m: "mb_id m = mb_id m0"
    "mb_organization_id m = mb_organization_id m0" "mb_permission_keys m = mb_permission_keys m0"
    and uniq: "unique_memberships (memberships (save_membership m s))"
    and X: "mb_organization_id m0 \<in> X' \<or> (mb_status m = Mb_Suspended \<longleftrightarrow> mb_status m0 = Mb_Suspended)" "X \<subseteq> X'"
  shows "inv_but X' (save_membership m s)" and "m \<in> set (memberships (save_membership m s))"
proof -
  let ?s = "save_membership m s"
  have ids: "distinct (map mb_id (memberships s))" using inv by (simp add: inv_but_def auth_ids_ok_def)
  note rows = saved_rows [OF ids m0 m(1)]
  have set: "set (memberships ?s) \<subseteq> insert m (set (memberships s))"
    by (auto simp: update_where_def)
  show "m \<in> set (memberships ?s)"
    using m0 m(1) by (auto simp: update_where_def image_iff intro!: bexI [of _ m0])
  have "map mb_id (memberships ?s) = map mb_id (memberships s)"
    using rows [of mb_id] m(1) by (simp add: if_distrib cong: if_cong)
  moreover have ok: "auth_ids_ok s" using inv by (simp add: inv_but_def)
  ultimately have "auth_ids_ok ?s"
    using auth_ids_fresh(5) [OF ok] by - (rule auth_ids_transfer [OF ok], simp_all)
  moreover have "perms_current ?s"
    using inv m0 m set by (auto simp: inv_but_def perms_current_def)
  moreover have "seats org ?s = seats org s" if "org \<notin> X'" for org
  proof -
    let ?p = "\<lambda>m. mb_organization_id m = org \<and> mb_status m \<noteq> Mb_Suspended"
    have "?p m \<longleftrightarrow> ?p m0" using X(1) that m(2) by auto
    then have "map ?p (memberships ?s) = map ?p (memberships s)"
      using rows [of ?p] by (simp add: if_distrib cong: if_cong)
    then show ?thesis unfolding seats_alt by (rule length_filter_map_cong)
  qed
  ultimately show "inv_but X' ?s"
    using inv uniq X(2) seat_gauge_cong [of ?s s] by (auto simp: inv_but_def)
qed

lemma link_role_ok:
  assumes inv: "inv_but X s" and m: "m \<in> set (memberships s)" and role: "r \<in> set (roles s)"
    and m': "m' = m\<lparr>mb_permission_keys := sorted_set (mb_permission_keys m @ role_permission_keys (ro_id r) s)\<rparr>"
    and s': "s' = save_membership m' (s\<lparr>membership_roles := membership_roles s @ [(mb_id m, ro_id r)]\<rparr>)"
  shows "inv_but X s'" and "m' \<in> set (memberships s')" and "bare m' = bare m"
    and "bare_members s' = bare_members s" and "usage_counters s' = usage_counters s" and "next_uuid s' = next_uuid s"
    and "roles s' = roles s" and "permission_rows s' = permission_rows s" and "role_permissions s' = role_permissions s"
    and "organizations s' = organizations s" and "users s' = users s"
    and "membership_roles s' = membership_roles s @ [(mb_id m, ro_id r)]"
proof -
  have ok: "auth_ids_ok s" and pc: "perms_current s" using inv by (simp_all add: inv_but_def)
  then have ids: "distinct (map mb_id (memberships s))" by (simp add: auth_ids_ok_def)
  have id': "mb_id m' = mb_id m" by (simp add: m')
  note rows = saved_rows [OF ids m id']
  have mem: "memberships s' = update_where (\<lambda>x. mb_id x = mb_id m') (\<lambda>_. m') (memberships s)" by (simp add: s')
  show "m' \<in> set (memberships s')"
    using m id' by (auto simp: mem update_where_def image_iff intro!: bexI [of _ m])
  show "bare m' = bare m" by (simp add: m' bare_def)
  then show bare: "bare_members s' = bare_members s"
    using rows [of bare] by (simp add: bare_members_def mem if_distrib cong: if_cong)
  show same: "usage_counters s' = usage_counters s" "next_uuid s' = next_uuid s" "roles s' = roles s"
    "permission_rows s' = permission_rows s" "role_permissions s' = role_permissions s"
    by (simp_all add: s')
  show "organizations s' = organizations s" "users s' = users s" by (simp_all add: s' save_membership_def)
  show links: "membership_roles s' = membership_roles s @ [(mb_id m, ro_id r)]" by (simp add: s')
  have "used_ids s' \<subseteq> {..<next_uuid s}"
  proof -
    have "mb_id ` set (memberships s') = mb_id ` set (memberships s)"
      using bare_ids [OF bare] by (metis list.set_map)
    moreover have "mb_id m < next_uuid s" "ro_id r < next_uuid s" using auth_ids_fresh(3,4) [OF ok] m role by blast+
    ultimately show ?thesis using ok by (auto simp: auth_ids_ok_def used_ids_def same links)
  qed
  then have "auth_ids_ok s'" using ok bare_ids [OF bare] by (auto simp: auth_ids_ok_def same)
  moreover have "perms_current s'"
    unfolding perms_current_def
  proof
    fix x assume x: "x \<in> set (memberships s')"
    have own: "set (granted_keys (mb_id m) s') = set (granted_keys (mb_id m) s) \<union> set (role_permission_keys (ro_id r) s)"
      unfolding set_granted_keys links same using role by (auto simp: role_permission_keys_def rows_where_def)
    have other: "granted_keys i s' = granted_keys i s" if "i \<noteq> mb_id m" for i
      using that by (intro granted_keys_cong) (auto simp: same links)
    show "mb_permission_keys x = sorted_set (granted_keys (mb_id x) s')"
    proof (cases "mb_id x = mb_id m")
      case True
      then have "x = m'" using x by (auto simp: mem update_where_def id' split: if_splits)
      moreover have "set (mb_permission_keys m @ role_permission_keys (ro_id r) s) = set (granted_keys (mb_id m) s')"
        using pc m own by (simp add: perms_current_def)
      from sorted_set_cong [OF this] have "mb_permission_keys m' = sorted_set (granted_keys (mb_id m) s')"
        by (simp add: m')
      ultimately show ?thesis by (simp add: id')
    next
      case False
      then have "x \<in> set (memberships s)" using x by (auto simp: mem update_where_def id' split: if_splits)
      then show ?thesis using pc other [OF False] by (simp add: perms_current_def)
    qed
  qed
  ultimately show "inv_but X s'"
    using inv seats_bare [OF bare] unique_bare [OF bare] seat_gauge_cong [OF same(1)]
    by (simp add: inv_but_def same(1))
qed

lemma attach_roleD:
  assumes "attach_role m k s = Inr (m', s')"
  shows "\<exists>r\<in>set (roles s). find_role (mb_organization_id m) k s = Inr r
    \<and> m' = m\<lparr>mb_permission_keys := sorted_set (mb_permission_keys m @ role_permission_keys (ro_id r) s)\<rparr>
    \<and> s' = save_membership m' (s\<lparr>membership_roles := membership_roles s @ [(mb_id m, ro_id r)]\<rparr>)"
  using assms by (auto simp: attach_role_def find_role_def bind_r_eq_Inr Let_def
      dest!: one_or_none_SomeD split: if_splits option.splits)

lemma attach_roles_ok:
  assumes "attach_roles m ks s = Inr (m', s')" and "inv_but X s" and "m \<in> set (memberships s)"
  shows "inv_but X s' \<and> m' \<in> set (memberships s') \<and> bare m' = bare m \<and> bare_members s' = bare_members s
    \<and> usage_counters s' = usage_counters s \<and> next_uuid s' = next_uuid s \<and> roles s' = roles s
    \<and> permission_rows s' = permission_rows s \<and> role_permissions s' = role_permissions s
    \<and> organizations s' = organizations s \<and> users s' = users s"
  using assms
proof (induction m ks s rule: attach_roles.induct)
  case (2 m k ks s)
  then obtain m1 s1 where one: "attach_role m k s = Inr (m1, s1)" and rest: "attach_roles m1 ks s1 = Inr (m', s')"
    by (auto simp: bind_r_eq_Inr)
  from attach_roleD [OF one] obtain r where r: "r \<in> set (roles s)"
    "m1 = m\<lparr>mb_permission_keys := sorted_set (mb_permission_keys m @ role_permission_keys (ro_id r) s)\<rparr>"
    "s1 = save_membership m1 (s\<lparr>membership_roles := membership_roles s @ [(mb_id m, ro_id r)]\<rparr>)" by blast
  note eff = link_role_ok [OF 2(3,4) r]
  from 2(1) [OF rest eff(1,2)] eff show ?case by simp
qed simp

section \<open>Every operation keeps the invariant\<close>

lemma bareD:
  "bare m = bare m' \<Longrightarrow> mb_id m = mb_id m' \<and> mb_organization_id m = mb_organization_id m'
    \<and> mb_user_id m = mb_user_id m' \<and> mb_invited_email m = mb_invited_email m'
    \<and> mb_invite_token_hash m = mb_invite_token_hash m' \<and> mb_status m = mb_status m'"
  by (cases m; cases m') (simp add: bare_def)

lemma org_audit_keeps [simp]:
  fixes s :: "'a auth_db_scheme"
  shows "memberships (org_audit ev org t d s) = memberships s" "roles (org_audit ev org t d s) = roles s"
    "permission_rows (org_audit ev org t d s) = permission_rows s"
    "role_permissions (org_audit ev org t d s) = role_permissions s"
    "membership_roles (org_audit ev org t d s) = membership_roles s"
    "usage_counters (org_audit ev org t d s) = usage_counters s"
    "next_uuid s \<le> next_uuid (org_audit ev org t d s)"
  by (simp_all add: org_audit_def)

lemma inv_org_audit [simp]: "inv_but X s \<Longrightarrow> inv_but X (org_audit ev org t d s)"
  by (erule inv_but_frame) simp_all

lemma inv_append_outbox [simp]: "inv_but X s \<Longrightarrow> inv_but X (append_outbox ev ty i p org s)"
  by (erule inv_but_frame) simp_all

lemma inv_queue [simp]: "inv_but X s \<Longrightarrow> inv_but X (queue_tuple_sync acfg org u s)"
  by (erule inv_but_frame) simp_all

lemma inv_invalidate [simp]: "inv_but X s \<Longrightarrow> inv_but X (invalidate_perms acfg now m s)"
  by (erule inv_but_frame) (simp_all add: invalidate_perms_def split: option.split)

lemma writers_keep_accounts [simp]:
  fixes s :: "'a acct_db_scheme"
  shows "organizations (append_outbox ev ty i p org s) = organizations s"
    and "users (append_outbox ev ty i p org s) = users s"
    and "organizations (audit_log_as ev o' a ty' tt ti d s) = organizations s"
    and "users (audit_log_as ev o' a ty' tt ti d s) = users s"
    and "organizations (bump_and_defer now c k s) = organizations s"
    and "users (bump_and_defer now c k s) = users s"
  by (simp_all add: append_outbox_def audit_log_as_def bump_and_defer_def defer_bump_s_def Let_def split: prod.split)

lemma invalidate_keeps_accounts [simp]:
  fixes s :: "'a acct_db_scheme"
  shows "organizations (org_audit ev org t d s) = organizations s"
    and "organizations (queue_tuple_sync acfg org u s) = organizations s"
    and "organizations (invalidate_user_perms acfg now v org s) = organizations s"
    and "users (org_audit ev org t d s) = users s"
    and "users (queue_tuple_sync acfg org u s) = users s"
    and "users (invalidate_user_perms acfg now v org s) = users s"
  by (simp_all add: queue_tuple_sync_def invalidate_user_perms_def org_audit_def split: option.split)

lemma invalidate_perms_keeps [simp]:
  "organizations (invalidate_perms acfg now m s) = organizations s"
  "memberships (invalidate_perms acfg now m s) = memberships s"
  "membership_roles (invalidate_perms acfg now m s) = membership_roles s"
  "roles (invalidate_perms acfg now m s) = roles s"
  "permission_rows (invalidate_perms acfg now m s) = permission_rows s"
  "role_permissions (invalidate_perms acfg now m s) = role_permissions s"
  by (simp_all add: invalidate_perms_def split: option.split)

lemma announce_keeps [simp]:
  fixes s :: "'a auth_db_scheme"
  shows "inv_but X s \<Longrightarrow> inv_but X (announce_invite org i e ks nm tok s)"
    and "inv_but X s \<Longrightarrow> inv_but X (announce_join m s)"
    and "memberships (announce_invite org i e ks nm tok s) = memberships s"
    and "memberships (announce_join m s) = memberships s"
    and "organizations (announce_invite org i e ks nm tok s) = organizations s"
    and "organizations (announce_join m s) = organizations s"
  by (simp_all add: announce_invite_def announce_join_def)

lemma add_membership_ok:
  assumes "tenancy_inv s" and "add_membership org u e st j s = Inr (m, s')"
  shows "inv_but {org} s'" and "m \<in> set (memberships s')" and "mb_organization_id m = org" "mb_id m = next_uuid s"
    and "m = \<lparr>mb_id = next_uuid s, mb_organization_id = org, mb_user_id = u, mb_invited_email = e,
      mb_invite_token_hash = None, mb_status = st, mb_joined_at = j, mb_permission_keys = [], mb_created_at = tx_now s\<rparr>"
    and "memberships s' = memberships s @ [m]" "membership_roles s' = membership_roles s" "roles s' = roles s"
    and "permission_rows s' = permission_rows s" "role_permissions s' = role_permissions s"
    and "organizations s' = organizations s" "users s' = users s"
proof -
  show m: "m = \<lparr>mb_id = next_uuid s, mb_organization_id = org, mb_user_id = u, mb_invited_email = e,
      mb_invite_token_hash = None, mb_status = st, mb_joined_at = j, mb_permission_keys = [], mb_created_at = tx_now s\<rparr>"
    and s': "memberships s' = memberships s @ [m]" "membership_roles s' = membership_roles s" "roles s' = roles s"
     "permission_rows s' = permission_rows s" "role_permissions s' = role_permissions s"
     "organizations s' = organizations s" "users s' = users s"
    using assms(2) by (auto simp: add_membership_def bind_r_eq_Inr flush_memberships_def Let_def split: if_splits)
  from assms(2) have more: "usage_counters s' = usage_counters s" "next_uuid s' = Suc (next_uuid s)"
    "unique_memberships (memberships s')"
    by (auto simp: add_membership_def bind_r_eq_Inr flush_memberships_def Let_def split: if_splits)
  show "m \<in> set (memberships s')" "mb_organization_id m = org" "mb_id m = next_uuid s"
    by (simp add: s') (simp_all add: m)
  have ok: "auth_ids_ok s" using assms(1) by (simp add: inv_but_def)
  have g: "granted_keys i s' = granted_keys i s" for i by (rule granted_keys_cong) (simp_all add: s')
  have "granted_keys (next_uuid s) s = []"
    using auth_ids_fresh(2) [OF ok] by (simp add: granted_keys_def rows_where_def)
  then have "perms_current s'"
    using assms(1) by (auto simp: inv_but_def perms_current_def s' g m sorted_set_def)
  moreover have "auth_ids_ok s'"
    using ok by (auto simp: auth_ids_ok_def used_ids_def s' more m less_Suc_eq)
  moreover have "seats o' s' = seats o' s" if "o' \<noteq> org" for o'
    using that by (simp add: seats_alt s' m)
  ultimately show "inv_but {org} s'"
    using assms(1) more seat_gauge_cong [OF more(1)] by (simp add: inv_but_def)
qed

lemma save_unique:
  assumes "inv_but X s" and "m0 \<in> set (memberships s)" and "mb_id m = mb_id m0"
    and "mb_organization_id m = mb_organization_id m0" "mb_user_id m = mb_user_id m0"
    "mb_invited_email m = mb_invited_email m0"
  shows "unique_memberships (memberships (save_membership m s))"
proof -
  let ?k = "\<lambda>m. (mb_organization_id m, mb_user_id m, mb_invited_email m)"
  have ids: "distinct (map mb_id (memberships s))" using assms(1) by (simp add: inv_but_def auth_ids_ok_def)
  have "map ?k (memberships (save_membership m s)) = map ?k (memberships s)"
    using saved_rows [OF ids assms(2,3), of ?k] assms(4-6) by (simp add: if_distrib cong: if_cong)
  from unique_memberships_cong [OF this] assms(1) show ?thesis by (simp add: inv_but_def)
qed

lemma invite_member_ok:
  assumes "tenancy_inv s" and "invite_member cfg sha now org email rks lim nm tok s = Inr (m, s')"
  shows "tenancy_inv s'"
proof -
  let ?keys = "if rks = [] then [''member''] else rks"
  from assms(2) obtain m0 s1 m1 s2
    where add: "add_membership org None (Some email) Mb_Invited None s = Inr (m0, s1)"
      and att: "attach_roles m0 ?keys s1 = Inr (m1, s2)"
      and m: "m = m1\<lparr>mb_invite_token_hash := Some (sha tok)\<rparr>"
      and sync: "sync_seat_gauge cfg now org
        (announce_invite org (mb_id m) email ?keys nm tok (save_membership m s2)) = Inr s'"
    unfolding invite_member_def Let_def bind_r_eq_Inr by (auto simp: bind_r_eq_Inr simp del: if_image_distrib)
  note a = add_membership_ok [OF assms(1) add]
  from attach_roles_ok [OF att a(1,2)] have inv2: "inv_but {org} s2" and m1: "m1 \<in> set (memberships s2)"
    and b: "bare m1 = bare m0" by blast+
  have "mb_organization_id m1 = org" using bareD [OF b] a(3) by simp
  moreover have "mb_id m = mb_id m1" "mb_organization_id m = mb_organization_id m1" "mb_user_id m = mb_user_id m1"
    "mb_invited_email m = mb_invited_email m1" "mb_permission_keys m = mb_permission_keys m1"
    by (simp_all add: m)
  ultimately have "inv_but {org} (save_membership m s2)"
    using edit_membership(1) [OF inv2 m1 _ _ _ save_unique [OF inv2 m1]] by simp
  then show ?thesis using sync by (intro sync_establishes(1) [OF _ sync]) simp
qed

lemma accept_membership_ok:
  assumes "tenancy_inv s" and "m0 \<in> set (memberships s)" and "mb_id m1 = mb_id m0"
    "mb_organization_id m1 = mb_organization_id m0" "mb_permission_keys m1 = mb_permission_keys m0"
    and "accept_membership cfg acfg now m1 u s = Inr (m, s')"
  shows "tenancy_inv s'" and "m \<in> set (memberships s')" and "mb_id m = mb_id m0"
    "mb_organization_id m = mb_organization_id m0" "mb_permission_keys m = mb_permission_keys m0"
    and "mb_status m = Mb_Active" and "mb_invite_token_hash m = mb_invite_token_hash m1"
    and "\<forall>v. u = Some v \<longrightarrow> mb_user_id m = Some (us_id v)"
    and "memberships s' = update_where (\<lambda>x. mb_id x = mb_id m0) (\<lambda>_. m) (memberships s)"
    and "organizations s' = organizations s"
proof -
  let ?org = "mb_organization_id m"
  from assms(6) obtain s4 where m: "m = (case u of
            Some v \<Rightarrow> m1\<lparr>mb_user_id := Some (us_id v), mb_invited_email := Some (us_email v)\<rparr>
          | None \<Rightarrow> m1)\<lparr>mb_status := Mb_Active, mb_joined_at := Some now\<rparr>"
      and uniq: "unique_memberships (memberships (save_membership m s))"
      and sync: "sync_seat_gauge cfg now ?org (announce_join m (save_membership m s)) = Inr s4"
      and s': "s' = invalidate_perms acfg now m s4"
    by (auto simp: accept_membership_def bind_r_eq_Inr Let_def flush_memberships_def split: if_splits)
  show facts: "mb_id m = mb_id m0" "mb_organization_id m = mb_organization_id m0" "mb_permission_keys m = mb_permission_keys m0"
    "mb_status m = Mb_Active" "mb_invite_token_hash m = mb_invite_token_hash m1"
    "\<forall>v. u = Some v \<longrightarrow> mb_user_id m = Some (us_id v)"
    by (simp_all add: m assms(3-5) split: option.split)
  note e = edit_membership [OF assms(1,2) facts(1-3) uniq, of "{?org}"]
  have "inv_but {?org} (announce_join m (save_membership m s))" using e(1) facts(2) by simp
  note y = sync_establishes [OF this sync]
  show "tenancy_inv s'" using y(1) by (simp add: s')
  show "memberships s' = update_where (\<lambda>x. mb_id x = mb_id m0) (\<lambda>_. m) (memberships s)"
    by (simp add: s' y(2) facts(1))
  show "m \<in> set (memberships s')" using e(2) facts(2) by (simp add: s' y(2))
  show "organizations s' = organizations s"
    using y(8) by (simp add: s' save_membership_def)
qed

section \<open>Changes, removals and new organizations\<close>

lemma get_membershipD:
  "get_membership i s = Inr m \<Longrightarrow> m \<in> set (memberships s) \<and> mb_id m = i"
  by (auto simp: get_membership_def bind_r_eq_Inr dest!: one_or_none_SomeD split: option.splits)

text \<open>Taking all roles away from a membership.\<close>

lemma clear_roles_ok:
  assumes inv: "inv_but X s" and m: "m \<in> set (memberships s)"
  defines "t \<equiv> save_membership (m\<lparr>mb_permission_keys := []\<rparr>)
      (s\<lparr>membership_roles := filter (\<lambda>(i, _). i \<noteq> mb_id m) (membership_roles s)\<rparr>)"
  shows "inv_but X t" and "m\<lparr>mb_permission_keys := []\<rparr> \<in> set (memberships t)"
proof -
  let ?m = "m\<lparr>mb_permission_keys := []\<rparr>"
  have ok: "auth_ids_ok s" and pc: "perms_current s" using inv by (simp_all add: inv_but_def)
  then have ids: "distinct (map mb_id (memberships s))" by (simp add: auth_ids_ok_def)
  have id': "mb_id ?m = mb_id m" by simp
  note rows = saved_rows [OF ids m id']
  have mem: "memberships t = update_where (\<lambda>x. mb_id x = mb_id m) (\<lambda>_. ?m) (memberships s)"
    and same: "roles t = roles s" "permission_rows t = permission_rows s" "role_permissions t = role_permissions s"
      "membership_roles t = filter (\<lambda>(i, _). i \<noteq> mb_id m) (membership_roles s)" "next_uuid t = next_uuid s"
      "usage_counters t = usage_counters s"
    by (simp_all add: t_def)
  show "?m \<in> set (memberships t)"
    using m by (auto simp: mem update_where_def image_iff intro!: bexI [of _ m])
  have bare: "bare_members t = bare_members s"
    using rows [of bare] by (simp add: mem bare_members_def bare_def if_distrib cong: if_cong)
  have "mb_id ` set (memberships t) = mb_id ` set (memberships s)"
    using bare_ids [OF bare] by (metis list.set_map)
  then have "used_ids t \<subseteq> used_ids s" by (auto simp: used_ids_def same)
  then have "auth_ids_ok t" using ok bare_ids [OF bare] by (auto simp: auth_ids_ok_def same)
  moreover have "perms_current t"
    unfolding perms_current_def
  proof
    fix x assume x: "x \<in> set (memberships t)"
    show "mb_permission_keys x = sorted_set (granted_keys (mb_id x) t)"
    proof (cases "mb_id x = mb_id m")
      case True
      then have "x = ?m" using x by (auto simp: mem update_where_def split: if_splits)
      moreover have "granted_keys (mb_id m) t = []" by (simp add: granted_keys_def rows_where_def same)
      ultimately show ?thesis by (simp add: sorted_set_def)
    next
      case False
      then have "x \<in> set (memberships s)" using x by (auto simp: mem update_where_def split: if_splits)
      moreover have "granted_keys (mb_id x) t = granted_keys (mb_id x) s"
        using False by (intro granted_keys_cong) (auto simp: same)
      ultimately show ?thesis using pc by (simp add: perms_current_def)
    qed
  qed
  ultimately show "inv_but X t"
    using inv seats_bare [OF bare] unique_bare [OF bare] seat_gauge_cong [OF same(6)]
    by (simp add: inv_but_def same)
qed

lemma replace_roles_ok:
  assumes "inv_but X s" and "m \<in> set (memberships s)" and "replace_roles acfg now m ks s = Inr (m', s')"
  shows "inv_but X s' \<and> m' \<in> set (memberships s') \<and> bare m' = bare m"
proof -
  let ?m = "m\<lparr>mb_permission_keys := []\<rparr>"
  from assms(3) obtain s2 where att: "attach_roles ?m ks (save_membership ?m
        (s\<lparr>membership_roles := filter (\<lambda>(i, _). i \<noteq> mb_id m) (membership_roles s)\<rparr>)) = Inr (m', s2)"
      and s': "s' = invalidate_perms acfg now m' s2"
    by (auto simp: replace_roles_def bind_r_eq_Inr Let_def)
  from attach_roles_ok [OF att clear_roles_ok [OF assms(1,2)]] show ?thesis by (auto simp: s' bare_def)
qed

lemma update_membership_ok:
  assumes "tenancy_inv s" and "update_membership cfg acfg now i ks st s = Inr (m, s')"
  shows "tenancy_inv s'"
proof -
  from assms(2) obtain m0 m1 s1 where m0: "get_membership i s = Inr m0"
      and one: "(case ks of None \<Rightarrow> Inr (m0, s) | Some ks \<Rightarrow> replace_roles acfg now m0 ks s) = Inr (m1, s1)"
      and two: "(let moved = (case st of Some x \<Rightarrow> x \<noteq> mb_status m1 | None \<Rightarrow> False);
           m = (if moved then m1\<lparr>mb_status := the st\<rparr> else m1);
           s2 = save_membership m s1;
           diff = (case ks of Some keys \<Rightarrow> [(''roles'', JList (map JStr keys))] | None \<Rightarrow> [])
             @ (if moved then [(''status'', JObj [(''from'', JStr (member_status_name (mb_status m1))),
                                                  (''to'', JStr (member_status_name (mb_status m)))])] else []);
           s3 = (if diff \<noteq> [] then org_audit MEMBER_UPDATED (mb_organization_id m)
                   (Some (''membership'', mb_id m)) (Some diff) s2 else s2)
       in if moved
          then bind_r (sync_seat_gauge cfg now (mb_organization_id m) s3) (\<lambda>s4.
                 Inr (m, invalidate_perms acfg now m s4))
          else Inr (m, s3)) = Inr (m, s')"
    by (auto simp: update_membership_def bind_r_eq_Inr)
  have "tenancy_inv s1 \<and> m1 \<in> set (memberships s1)"
    using one assms(1) get_membershipD [OF m0] replace_roles_ok [OF assms(1)] by (auto split: option.splits)
  then have inv1: "tenancy_inv s1" and m1: "m1 \<in> set (memberships s1)" by blast+
  define moved where "moved = (case st of Some x \<Rightarrow> x \<noteq> mb_status m1 | None \<Rightarrow> False)"
  define m2 where "m2 = (if moved then m1\<lparr>mb_status := the st\<rparr> else m1)"
  have m2: "mb_id m2 = mb_id m1" "mb_organization_id m2 = mb_organization_id m1"
    "mb_permission_keys m2 = mb_permission_keys m1" "mb_user_id m2 = mb_user_id m1"
    "mb_invited_email m2 = mb_invited_email m1" by (simp_all add: m2_def)
  note e = edit_membership(1) [OF inv1 m1 m2(1-3) save_unique [OF inv1 m1 m2(1,2,4,5)]]
  show ?thesis
  proof (cases moved)
    case True
    have "inv_but {mb_organization_id m2} (save_membership m2 s1)" using e [of "{mb_organization_id m2}"] m2(2) by simp
    then have inv: "inv_but {mb_organization_id m2} (org_audit ev o' t d (save_membership m2 s1))" for ev o' t d by simp
    from two True obtain d s4 where "sync_seat_gauge cfg now (mb_organization_id m2)
        (org_audit MEMBER_UPDATED (mb_organization_id m2) (Some (''membership'', mb_id m2)) d (save_membership m2 s1)) = Inr s4"
      and s': "s' = invalidate_perms acfg now m2 s4"
      by (auto simp: moved_def [symmetric] m2_def Let_def bind_r_eq_Inr)
    from sync_establishes(1) [OF inv this(1)] show ?thesis by (simp add: s')
  next
    case False
    have "tenancy_inv (save_membership m1 s1)" using e [of "{}"] False by (simp add: m2_def)
    with two False show ?thesis
      by (auto simp: moved_def [symmetric] Let_def split: if_splits)
  qed
qed

lemma distinct_filter_filter:
  "distinct (map f (filter Q rows)) \<Longrightarrow> distinct (map f (filter Q (filter P rows)))"
proof -
  have "filter Q (filter P rows) = filter P (filter Q rows)" by (simp add: conj_commute)
  then show "distinct (map f (filter Q rows)) \<Longrightarrow> ?thesis" by (simp only: distinct_map_filter)
qed

lemma unique_memberships_filter: "unique_memberships rows \<Longrightarrow> unique_memberships (filter P rows)"
  by (simp add: unique_memberships_def list_all_iff distinct_filter_filter del: filter_filter)

lemma remove_member_ok:
  assumes "tenancy_inv s" and "remove_member cfg acfg now i s = Inr s'"
  shows "tenancy_inv s'"
proof -
  from assms(2) obtain m d s3 where m: "get_membership i s = Inr m"
      and sync: "sync_seat_gauge cfg now (mb_organization_id m)
        ((org_audit MEMBER_REMOVED (mb_organization_id m) (Some (''membership'', mb_id m)) d s)
          \<lparr>memberships := delete_where (\<lambda>x. mb_id x = i) (memberships s),
           membership_roles := filter (\<lambda>(x, _). x \<noteq> i) (membership_roles s)\<rparr>) = Inr s3"
      and s': "s' = queue_tuple_sync acfg (mb_organization_id m) (mb_user_id m) s3"
    by (auto simp: remove_member_def bind_r_eq_Inr Let_def)
  let ?a = "org_audit MEMBER_REMOVED (mb_organization_id m) (Some (''membership'', mb_id m)) d s"
  let ?s = "?a\<lparr>memberships := delete_where (\<lambda>x. mb_id x = i) (memberships s),
           membership_roles := filter (\<lambda>(x, _). x \<noteq> i) (membership_roles s)\<rparr>"
  have inv: "tenancy_inv ?a" using assms(1) by simp
  then have ok: "auth_ids_ok ?a" and pc: "perms_current ?a" by (simp_all add: inv_but_def)
  have ids: "distinct (map mb_id (memberships s))" using assms(1) by (simp add: inv_but_def auth_ids_ok_def)
  have "used_ids ?s \<subseteq> used_ids ?a" by (auto simp: used_ids_def delete_where_def)
  then have "auth_ids_ok ?s" using ok by (auto simp: auth_ids_ok_def delete_where_def distinct_map_filter)
  moreover have "granted_keys j ?s = granted_keys j ?a" if "j \<noteq> i" for j
    using that by (intro granted_keys_cong) auto
  then have "perms_current ?s" using pc by (auto simp: perms_current_def delete_where_def)
  moreover have "seats org ?s = seats org ?a" if "org \<noteq> mb_organization_id m" for org
  proof -
    have "x = m" if "x \<in> set (memberships s)" "mb_id x = i" for x
      using distinct_key_unique [OF ids that(1), of m] get_membershipD [OF m] that(2) by simp
    with that show ?thesis
      by (auto simp: seats_alt delete_where_def filter_filter intro!: arg_cong [of _ _ length] filter_cong)
  qed
  moreover have "unique_memberships (memberships ?s)"
    using assms(1) by (simp add: inv_but_def delete_where_def unique_memberships_filter)
  ultimately have "inv_but {mb_organization_id m} ?s"
    using inv seat_gauge_cong [of ?s ?a] by (simp add: inv_but_def)
  from sync_establishes(1) [OF this sync] show ?thesis by (simp add: s')
qed

section \<open>New organizations\<close>

lemma create_subscription_keeps_auth:
  fixes s :: "'a auth_db_scheme"
  assumes "create_subscription now org p st a b c d e f s = Inr (r, s')"
  shows "memberships s' = memberships s" "roles s' = roles s" "permission_rows s' = permission_rows s"
    "role_permissions s' = role_permissions s" "membership_roles s' = membership_roles s"
    "usage_counters s' = usage_counters s" "next_uuid s \<le> next_uuid s'"
  using assms by (auto simp: create_subscription_def bind_r_eq_Inr flush_subscriptions_def Let_def
      bump_subscription_cache_def emit_subscription_def split: if_splits)

lemma bootstrap_subscription_ok:
  assumes "inv_but X s" and "bootstrap_subscription cfg now org s = Inr s'"
  shows "inv_but X s'"
proof (rule inv_but_frame [OF assms(1)])
  show "memberships s' = memberships s" "roles s' = roles s" "permission_rows s' = permission_rows s"
    "role_permissions s' = role_permissions s" "membership_roles s' = membership_roles s"
    "usage_counters s' = usage_counters s" "next_uuid s \<le> next_uuid s'"
    using assms(2) by (auto simp: bootstrap_subscription_def bind_r_eq_Inr create_subscription_keeps_auth
        split: option.splits dest: create_subscription_keeps_auth)
qed

lemma create_organization_ok:
  assumes "tenancy_inv s" and "create_organization cfg acfg now nm owner slug sfx s = Inr (org, s')"
  shows "tenancy_inv s'"
proof -
  from assms(2) obtain m s1 s2 r d1 d2 where
      add: "add_membership (org_id org) (Some (us_id owner)) None Mb_Active (Some now)
        (s\<lparr>next_uuid := Suc (next_uuid s), organizations := organizations s @ [org]\<rparr>) = Inr (m, s1)"
      and sync: "sync_seat_gauge cfg now (org_id org) s1 = Inr s2"
      and r: "one_or_none MultipleResultsFound
          (\<lambda>r. ro_key r = SYSTEM_ROLE_OWNER \<and> ro_organization_id r = None) (roles s2) = Inr (Some r)"
      and boot: "bootstrap_subscription cfg now (org_id org) (append_outbox ORG_CREATED ''organization'' (org_id org) d2 (Some (org_id org))
        (org_audit ORG_CREATED (org_id org) (Some (''organization'', org_id org)) d1
          (queue_tuple_sync acfg (org_id org) (Some (us_id owner))
            (save_membership (m\<lparr>mb_permission_keys := sorted_set (role_permission_keys (ro_id r) s2)\<rparr>)
              (s2\<lparr>membership_roles := membership_roles s2 @ [(mb_id m, ro_id r)]\<rparr>))))) = Inr s'"
    by (auto simp: create_organization_def bind_r_eq_Inr Let_def split: option.splits)
  have "tenancy_inv (s\<lparr>next_uuid := Suc (next_uuid s), organizations := organizations s @ [org]\<rparr>)"
    by (rule inv_but_frame [OF assms(1)]) simp_all
  note a = add_membership_ok [OF this add]
  note y = sync_establishes [OF a(1) sync]
  have m: "m \<in> set (memberships s2)" using a(2) y(2) by simp
  have role: "r \<in> set (roles s2)" using one_or_none_SomeD [OF r] by blast
  have "mb_permission_keys m = []" by (subst a(5)) simp
  then have "tenancy_inv (save_membership (m\<lparr>mb_permission_keys := sorted_set (role_permission_keys (ro_id r) s2)\<rparr>)
      (s2\<lparr>membership_roles := membership_roles s2 @ [(mb_id m, ro_id r)]\<rparr>))"
    by (intro link_role_ok(1) [OF y(1) m role _ refl]) simp
  then show ?thesis by (intro bootstrap_subscription_ok [OF _ boot]) simp
qed

section \<open>Runs of operations\<close>

text \<open>
  Any operation of the two services, with any arguments, as long as it succeeds. (A failed one is
  rolled back.) \<open>Elsewhere\<close> stands for the other components: they write none of these tables and
  no \<open>users\<close> gauge, and may count any other metric.
\<close>

inductive tenancy_step :: "'a auth_db_scheme \<Rightarrow> 'a auth_db_scheme \<Rightarrow> bool" where
  New_organization: "create_organization cfg acfg now nm owner slug sfx s = Inr (org, s') \<Longrightarrow> tenancy_step s s'"
| Invite: "invite_member cfg sha now org email rks lim nm tok s = Inr (m, s') \<Longrightarrow> tenancy_step s s'"
| Accept_token: "accept_invite_by_token cfg acfg sha now tok u s = Inr (m, s') \<Longrightarrow> tenancy_step s s'"
| Accept_email: "accept_invite_by_email cfg acfg now org email s = Inr (m, s') \<Longrightarrow> tenancy_step s s'"
| Update_member: "update_membership cfg acfg now i ks st s = Inr (m, s') \<Longrightarrow> tenancy_step s s'"
| Remove_member: "remove_member cfg acfg now i s = Inr s' \<Longrightarrow> tenancy_step s s'"
| Create_role: "create_custom_role acfg now org key nm descr ks s = Inr (r, s') \<Longrightarrow> tenancy_step s s'"
| Update_role: "update_custom_role acfg now i org nm' descr ks' s = Inr (r, s') \<Longrightarrow> tenancy_step s s'"
| Delete_role: "delete_custom_role acfg now i org s = Inr s' \<Longrightarrow> tenancy_step s s'"
| Assign_role: "m \<in> set (memberships s) \<Longrightarrow> assign_role acfg now m key s = Inr (m', s') \<Longrightarrow> tenancy_step s s'"
| Elsewhere: "memberships s' = memberships s \<Longrightarrow> roles s' = roles s \<Longrightarrow> permission_rows s' = permission_rows s
    \<Longrightarrow> role_permissions s' = role_permissions s \<Longrightarrow> membership_roles s' = membership_roles s
    \<Longrightarrow> distinct (map counter_key (usage_counters s')) \<Longrightarrow> \<forall>org. seat_gauge org s' = seat_gauge org s
    \<Longrightarrow> next_uuid s \<le> next_uuid s' \<Longrightarrow> tenancy_step s s'"

lemma invited_for_tokenD:
  "invited_membership_for_token sha tok s = Inr m \<Longrightarrow>
     m \<in> set (memberships s) \<and> mb_invite_token_hash m = Some (sha tok) \<and> mb_status m = Mb_Invited"
  by (auto simp: invited_membership_for_token_def bind_r_eq_Inr dest!: one_or_none_SomeD split: if_splits option.splits)

lemma tenancy_step_ok: "tenancy_step s s' \<Longrightarrow> tenancy_inv s \<Longrightarrow> tenancy_inv s'"
proof (induction rule: tenancy_step.induct)
  case (Accept_token cfg acfg sha now tok u s m s')
  then obtain m0 where m0: "invited_membership_for_token sha tok s = Inr m0"
    and acc: "accept_membership cfg acfg now (m0\<lparr>mb_invite_token_hash := None\<rparr>) (Some u) s = Inr (m, s')"
    by (auto simp: accept_invite_by_token_def bind_r_eq_Inr)
  from invited_for_tokenD [OF m0] have "m0 \<in> set (memberships s)" by blast
  from accept_membership_ok(1) [OF Accept_token.prems this _ _ _ acc] show ?case by simp
next
  case (Accept_email cfg acfg now org email s m s')
  then obtain m0 u where m0: "find_pending_invite org email s = Inr (Some m0)"
    and acc: "accept_membership cfg acfg now m0 u s = Inr (m, s')"
    by (auto simp: accept_invite_by_email_def bind_r_eq_Inr split: option.splits)
  have "m0 \<in> set (memberships s)"
    using m0 by (auto simp: find_pending_invite_def dest!: one_or_none_SomeD)
  from accept_membership_ok(1) [OF Accept_email.prems this _ _ _ acc] show ?case by simp
next
  case (Assign_role m s acfg now key m' s')
  then obtain s1 where att: "attach_role m key s = Inr (m', s1)"
    and s': "s' = (case mb_user_id m of None \<Rightarrow> s1 | Some u \<Rightarrow> invalidate_user_perms acfg now u (mb_organization_id m) s1)"
    by (auto simp: assign_role_def bind_r_eq_Inr)
  from attach_roleD [OF att] obtain r where r: "r \<in> set (roles s)"
    "m' = m\<lparr>mb_permission_keys := sorted_set (mb_permission_keys m @ role_permission_keys (ro_id r) s)\<rparr>"
    "s1 = save_membership m' (s\<lparr>membership_roles := membership_roles s @ [(mb_id m, ro_id r)]\<rparr>)" by blast
  have inv1: "tenancy_inv s1" by (rule link_role_ok(1) [OF Assign_role.prems Assign_role.hyps(1) r])
  show ?case unfolding s' by (cases "mb_user_id m") (auto intro: inv1 inv_but_frame [OF inv1])
next
  case (Create_role acfg now org key nm descr ks s r s')
  then show ?case by (meson create_custom_role_ok inv_but_def role_change_keeps_inv)
next
  case (Update_role acfg now i org nm' descr ks' s r s')
  then show ?case by (meson update_custom_role_ok inv_but_def role_change_keeps_inv)
next
  case (Delete_role acfg now i org s s')
  then show ?case by (meson delete_custom_role_ok inv_but_def role_change_keeps_inv)
next
  case (Elsewhere s' s)
  show ?case by (rule inv_but_elsewhere [OF Elsewhere.prems Elsewhere.hyps])
qed (blast intro: create_organization_ok invite_member_ok update_membership_ok remove_member_ok)+


section \<open>The life of an invitation\<close>

lemma seats_as_map:
  "seats org s = length (filter (\<lambda>(o', st). o' = org \<and> st \<noteq> Mb_Suspended)
     (map (\<lambda>m. (mb_organization_id m, mb_status m)) (memberships s)))"
  by (simp add: seats_alt filter_map comp_def)

lemma invite_member_rows:
  assumes "tenancy_inv s" and "invite_member cfg sha now org email rks lim nm tok s = Inr (m, s')"
  shows "m \<in> set (memberships s')" and "mb_invited_email m = Some email" "mb_status m = Mb_Invited"
    "mb_organization_id m = org" "mb_invite_token_hash m = Some (sha tok)"
    and "\<And>n. lim = Some n \<Longrightarrow> int (seats org s) + 1 \<le> n" and "seats org s' = seats org s + 1"
    and "x \<in> set (memberships s') \<Longrightarrow> x = m \<or> (\<exists>y\<in>set (memberships s). mb_invite_token_hash y = mb_invite_token_hash x)"
proof -
  let ?keys = "if rks = [] then [''member''] else rks"
  from assms(2) obtain m0 s1 m1 s2
    where add: "add_membership org None (Some email) Mb_Invited None s = Inr (m0, s1)"
      and att: "attach_roles m0 ?keys s1 = Inr (m1, s2)"
      and m: "m = m1\<lparr>mb_invite_token_hash := Some (sha tok)\<rparr>"
      and lim: "\<And>n. lim = Some n \<Longrightarrow> int (seats org s) + 1 \<le> n"
      and sync: "sync_seat_gauge cfg now org
        (announce_invite org (mb_id m) email ?keys nm tok (save_membership m s2)) = Inr s'"
    unfolding invite_member_def Let_def bind_r_eq_Inr seats_def
    by (auto simp: bind_r_eq_Inr split: option.splits simp del: if_image_distrib)
  show "\<And>n. lim = Some n \<Longrightarrow> int (seats org s) + 1 \<le> n" by (rule lim)
  note a = add_membership_ok [OF assms(1) add]
  from attach_roles_ok [OF att a(1,2)] have inv2: "inv_but {org} s2" and m1: "m1 \<in> set (memberships s2)"
    and b: "bare m1 = bare m0" "bare_members s2 = bare_members s1" by blast+
  have like: "mb_id m = mb_id m1" "mb_organization_id m = mb_organization_id m1" "mb_status m = mb_status m1"
    by (simp_all add: m)
  have ids: "distinct (map mb_id (memberships s2))" using inv2 by (simp add: inv_but_def auth_ids_ok_def)
  note rows = saved_rows [OF ids m1 like(1)]
  have "inv_but {org} (announce_invite org (mb_id m) email ?keys nm tok (save_membership m s2))"
    using edit_membership(1) [OF inv2 m1 _ _ _ save_unique [OF inv2 m1], of m "{org}"] bareD [OF b(1)] a(3)
    by (simp add: m)
  from sync_establishes(2) [OF this sync]
  have mem: "memberships s' = memberships (save_membership m s2)" by simp
  show "m \<in> set (memberships s')"
    using m1 like(1) by (auto simp: mem update_where_def image_iff intro!: bexI [of _ m1])
  show "mb_invited_email m = Some email" "mb_status m = Mb_Invited" "mb_organization_id m = org"
    "mb_invite_token_hash m = Some (sha tok)"
    using bareD [OF b(1)] by (simp_all add: m a(5))
  have "map (\<lambda>m. (mb_organization_id m, mb_status m)) (memberships s')
      = map (\<lambda>m. (mb_organization_id m, mb_status m)) (memberships s2)"
    unfolding mem using rows [of "\<lambda>m. (mb_organization_id m, mb_status m)"] like
    by (simp add: if_distrib cong: if_cong)
  then have "seats org s' = seats org s2" unfolding seats_as_map by (simp only:)
  also have "\<dots> = seats org s1" by (rule seats_bare [OF b(2)])
  also have "\<dots> = seats org s + 1" by (simp add: seats_alt a(6)) (simp add: a(5))
  finally show "seats org s' = seats org s + 1" .
  show "x = m \<or> (\<exists>y\<in>set (memberships s). mb_invite_token_hash y = mb_invite_token_hash x)"
    if x: "x \<in> set (memberships s')"
  proof (cases "mb_id x = mb_id m")
    case True
    with x show ?thesis by (auto simp: mem update_where_def split: if_splits)
  next
    case False
    with x have "x \<in> set (memberships s2)" by (auto simp: mem update_where_def split: if_splits)
    then have "bare x \<in> bare ` set (memberships s1)" using b(2) by (metis bare_members_def image_eqI list.set_map)
    then obtain y where y: "y \<in> set (memberships s1)" "bare x = bare y" by blast
    have "y \<noteq> m0" using False bareD [OF y(2)] bareD [OF b(1)] like(1) by auto
    with y a(6) bareD [OF y(2)] show ?thesis by auto
  qed
qed

text \<open>A token names the invitation it was made for.\<close>

lemma token_names_invite:
  assumes "distinct (map mb_id (memberships s))" and "m \<in> set (memberships s)"
    and "mb_invite_token_hash m = Some (sha tok)" "mb_status m = Mb_Invited"
    and "\<And>x. x \<in> set (memberships s) \<Longrightarrow> mb_invite_token_hash x = Some (sha tok) \<Longrightarrow> x = m"
  shows "invited_membership_for_token sha tok s = Inr m"
proof -
  let ?p = "\<lambda>x. mb_invite_token_hash x = Some (sha tok) \<and> mb_status x = Mb_Invited"
  have "?p x \<longleftrightarrow> mb_id x = mb_id m" if "x \<in> set (memberships s)" for x
    using assms(3,4) assms(5) [OF that] distinct_key_unique [OF assms(1) that assms(2)] by metis
  then have "filter ?p (memberships s) = filter (\<lambda>x. mb_id x = mb_id m) (memberships s)"
    by (rule filter_cong [OF refl])
  also have "\<dots> = [m]" by (rule distinct_key_filter [OF assms(1,2) refl])
  finally have one: "one_or_none MultipleResultsFound ?p (memberships s) = Inr (Some m)" by (simp add: one_or_none_def)
  have "\<not> (\<forall>m\<in>set (memberships s). \<not> ?p m)" using assms(2-4) by blast
  then show ?thesis unfolding invited_membership_for_token_def one by simp
qed

lemma accept_by_token_effect:
  assumes "tenancy_inv s" and "accept_invite_by_token cfg acfg sha now tok u s = Inr (m', s')"
    and "invited_membership_for_token sha tok s = Inr m"
  shows "same_mailbox (mb_invited_email m) (Some (us_email u))" and "tenancy_inv s'"
    and "mb_user_id m' = Some (us_id u)" "mb_status m' = Mb_Active" "mb_permission_keys m' = mb_permission_keys m"
    "mb_organization_id m' = mb_organization_id m" "mb_invite_token_hash m' = None" "mb_id m' = mb_id m"
    and "memberships s' = update_where (\<lambda>x. mb_id x = mb_id m) (\<lambda>_. m') (memberships s)"
proof -
  from assms(2,3) show "same_mailbox (mb_invited_email m) (Some (us_email u))"
    by (simp add: accept_invite_by_token_def bind_r_eq_Inr guard_r_def split: if_splits)
  from assms(2,3) have "accept_membership cfg acfg now (m\<lparr>mb_invite_token_hash := None\<rparr>) (Some u) s = Inr (m', s')"
    by (simp add: accept_invite_by_token_def bind_r_eq_Inr)
  from accept_membership_ok [OF assms(1) _ _ _ _ this] invited_for_tokenD [OF assms(3)]
  show "tenancy_inv s'" "mb_user_id m' = Some (us_id u)" "mb_status m' = Mb_Active"
    "mb_permission_keys m' = mb_permission_keys m" "mb_organization_id m' = mb_organization_id m"
    "mb_invite_token_hash m' = None" "mb_id m' = mb_id m"
    "memberships s' = update_where (\<lambda>x. mb_id x = mb_id m) (\<lambda>_. m') (memberships s)"
    by auto
qed

text \<open>
  C28. An invitation is created only while the plan's seat limit leaves room for it, and it holds a
  seat at once. Its token lets in nobody but the owner of the invited mailbox, gives that user an
  active membership of that organization with exactly the permissions the invitation named, takes
  no further seat, and is refused to everybody from then on.
\<close>

theorem invitation_is_personal_and_single_use:
  assumes "tenancy_inv s" and "\<forall>x\<in>set (memberships s). mb_invite_token_hash x \<noteq> Some (sha tok)"
    and "invite_member cfg sha now org email rks (Some lim) nm tok s = Inr (m, s1)"
    and "accept_invite_by_token cfg acfg sha later tok u s1 = Inr (m', s2)"
  shows "seats org s1 = seats org s + 1 \<and> int (seats org s1) \<le> lim
    \<and> same_mailbox (Some email) (Some (us_email u))
    \<and> mb_user_id m' = Some (us_id u) \<and> mb_organization_id m' = org \<and> mb_status m' = Mb_Active
    \<and> mb_permission_keys m' = mb_permission_keys m \<and> seats org s2 = seats org s1
    \<and> accept_invite_by_token cfg acfg sha again tok v s2 = raise_error InviteNotFoundError"
proof -
  note i = invite_member_rows [OF assms(1,3)]
  have inv1: "tenancy_inv s1" by (rule invite_member_ok [OF assms(1,3)])
  then have ids: "distinct (map mb_id (memberships s1))" by (simp add: inv_but_def auth_ids_ok_def)
  have only: "x = m" if "x \<in> set (memberships s1)" "mb_invite_token_hash x = Some (sha tok)" for x
    using i(8) [OF that(1)] that(2) assms(2) by auto
  have tok: "invited_membership_for_token sha tok s1 = Inr m"
    by (rule token_names_invite [where sha = sha and tok = tok, OF ids i(1) i(5) i(3) only])
  note a = accept_by_token_effect [OF inv1 assms(4) tok]
  let ?p = "\<lambda>m. mb_organization_id m = org \<and> mb_status m \<noteq> Mb_Suspended"
  have "?p m' = ?p m" using a(4,6) i(3) by simp
  then have "map ?p (memberships s2) = map ?p (memberships s1)"
    unfolding a(9) using saved_rows [OF ids i(1) a(8), of ?p] a(8) by (simp add: if_distrib cong: if_cong)
  then have "seats org s2 = seats org s1" unfolding seats_alt by (rule length_filter_map_cong)
  moreover have "mb_invite_token_hash x \<noteq> Some (sha tok)" if "x \<in> set (memberships s2)" for x
    using that only a(7) i(1) by (auto simp: a(9) update_where_def split: if_splits)
  then have "accept_invite_by_token cfg acfg sha again tok v s2 = raise_error InviteNotFoundError"
    by (auto simp: accept_invite_by_token_def invited_membership_for_token_def)
  ultimately show ?thesis using a i(2,4,6,7) by simp
qed

section \<open>A concrete organization\<close>

text \<open>
  Organization 7 has no subscription yet; the one system role grants the one permission, and nobody
  is a member.
\<close>

definition demo_role :: role where
  "demo_role = \<lparr>ro_id = 2, ro_organization_id = None, ro_key = ''member'', ro_name = ''Member'',
     ro_description = None, ro_is_system = True\<rparr>"

definition demo_user :: user where
  "demo_user = \<lparr>us_id = 5, us_email = ''ann@x.io'', us_password_hash = None, us_display_name = ''Ann'',
     us_avatar_url = None, us_is_platform_admin = False, us_is_active = True, us_last_login_at = None,
     us_identity_provider = ''local'', us_provider_subject = None, us_preferences = []\<rparr>"

definition demo_auth :: auth_db where
  "demo_auth = acct_db.extend
     (usage_db.extend (demo_usage\<lparr>metric_rows := [\<lparr>mt_key = ''users'', mt_name = ''Seats'', mt_kind = Gauge,
          mt_unit = None, mt_overage_unit = None, mt_overage_price_cents = None\<rparr>], next_uuid := 20\<rparr>)
        \<lparr>organizations = [], users = [demo_user]\<rparr>)
     \<lparr>roles = [demo_role], permission_rows = [\<lparr>pr_id = 3, pr_key = ''org:read''\<rparr>],
      role_permissions = [(2, 3)], memberships = [], membership_roles = []\<rparr>"

definition demo_rbac :: authz_settings where
  "demo_rbac = \<lparr>az_backend = Rbac, az_fail_mode = Fail_Closed\<rparr>"

lemma demo_auth_fields [simp]:
  "usage_counters demo_auth = []" "next_uuid demo_auth = 20" "memberships demo_auth = []"
  "roles demo_auth = [demo_role]" "permission_rows demo_auth = [\<lparr>pr_id = 3, pr_key = ''org:read''\<rparr>]"
  "role_permissions demo_auth = [(2, 3)]" "membership_roles demo_auth = []" "tx_now demo_auth = 0"
  "metric_rows demo_auth = [\<lparr>mt_key = ''users'', mt_name = ''Seats'', mt_kind = Gauge,
          mt_unit = None, mt_overage_unit = None, mt_overage_price_cents = None\<rparr>]"
  by (simp_all add: demo_auth_def demo_usage_def demo_ents_def demo_sub_simps sub_db.defs ent_db.defs usage_db.defs acct_db.defs)

lemma demo_auth_inv [simp]: "tenancy_inv demo_auth"
  by (auto simp: inv_but_def auth_ids_ok_def used_ids_def perms_current_def unique_memberships_def
      seat_gauge_def seats_def counter_total_def count_active_members_def count_pending_invites_def rows_where_def
      demo_role_def)

lemma demo_auth_computes: "\<exists>e. compute demo_settings 0 7 demo_auth = Inr e"
proof -
  have "subscription_rows demo_auth = [demo_subscription 5 1 demo_free Active]" "plan_rows demo_auth = [demo_free, demo_pro]"
    by (simp_all add: demo_auth_def demo_usage_def demo_ents_def demo_sub_simps sub_db.defs ent_db.defs usage_db.defs acct_db.defs)
  then have "current_for_org 7 demo_auth = None" "plan_by_key ''free'' False demo_auth = Inr demo_free"
    by (simp_all add: current_for_org_def latest_def plan_by_key_def rows_where_def demo_subscription_def
        one_or_none_def demo_free_def demo_pro_def demo_plan_def)
  then show ?thesis by (simp add: compute_def plan_for_def demo_settings_def)
qed

text \<open>An update of the seat gauge succeeds whenever the entitlements can be computed.\<close>

lemma sync_returns:
  assumes "compute cfg now org s0 = Inr e" and "resolution_tables_kept s0 s" and "assert_gauge_metric ''users'' s = Inr ()"
  shows "\<exists>s'. sync_seat_gauge cfg now org s = Inr s' \<and> resolution_tables_kept s0 s'"
proof -
  let ?v = "int (count_active_members org s + count_pending_invites org s)"
  obtain t s1 where up: "upsert_counter org ''users'' GAUGE_PERIOD (max ?v 0) (\<lambda>_. max ?v 0) (tx_now s) s = (t, s1)"
    by (metis surj_pair)
  from upsert_counter_frame [OF up] assms(2) have kept: "resolution_tables_kept s0 s1"
    by (auto simp: resolution_tables_kept_def)
  with assms(1) have "compute cfg now org s1 = Inr e" by (simp add: compute_tables)
  then obtain e' s' where e: "effective_for_org cfg now org s1 = Inr (e', s')" using effective_returns by blast
  then have "\<exists>st. s' = s1\<lparr>cache_store := st\<rparr>" by (rule effective_for_org_frame)
  with kept have "resolution_tables_kept s0 s'" by (auto simp: resolution_tables_kept_def)
  then show ?thesis using e up assms(3)
    by (auto simp: sync_seat_gauge_def set_gauge_def gauge_result_def Let_def)
qed

lemma writers_keep_resolution_tables [simp]:
  fixes s :: "'a auth_db_scheme"
  shows "resolution_tables_kept s0 (save_membership m s) = resolution_tables_kept s0 s"
    and "resolution_tables_kept s0 (announce_invite org i e ks nm tok s) = resolution_tables_kept s0 s"
    and "resolution_tables_kept s0 (announce_join m s) = resolution_tables_kept s0 s"
    and "metric_rows (save_membership m s) = metric_rows s"
    and "metric_rows (announce_invite org i e ks nm tok s) = metric_rows s"
    and "metric_rows (announce_join m s) = metric_rows s"
  by (simp_all add: resolution_tables_kept_def save_membership_def announce_invite_def announce_join_def org_audit_def
      append_outbox_def audit_log_as_def Let_def split: prod.split)

lemma attach_roles_keeps_resolution:
  "attach_roles m ks s = Inr (m', s') \<Longrightarrow> resolution_tables_kept s0 s' = resolution_tables_kept s0 s"
proof (induction m ks s rule: attach_roles.induct)
  case (2 m k ks s)
  then obtain m1 s1 where one: "attach_role m k s = Inr (m1, s1)" and rest: "attach_roles m1 ks s1 = Inr (m', s')"
    by (auto simp: bind_r_eq_Inr)
  from attach_roleD [OF one] have "resolution_tables_kept s0 s1 = resolution_tables_kept s0 s"
    by (auto simp: resolution_tables_kept_def save_membership_def)
  with 2(1) [OF rest] show ?case by simp
qed simp

lemma demo_gauge: "resolution_tables_kept demo_auth s \<Longrightarrow> assert_gauge_metric ''users'' s = Inr ()"
  by (simp add: resolution_tables_kept_def assert_gauge_metric_def metric_of_def one_or_none_def)

lemma demo_invited:
  "\<exists>m s1. invite_member demo_settings id 0 7 ''ann@x.io'' [] (Some 3) ''Acme'' ''tok'' demo_auth = Inr (m, s1)
     \<and> resolution_tables_kept demo_auth s1"
proof -
  let ?m = "\<lparr>mb_id = 20, mb_organization_id = 7, mb_user_id = None, mb_invited_email = Some ''ann@x.io'',
    mb_invite_token_hash = None, mb_status = Mb_Invited, mb_joined_at = None, mb_permission_keys = [], mb_created_at = 0\<rparr>"
  let ?s = "demo_auth\<lparr>next_uuid := 21, memberships := [?m]\<rparr>"
  have add: "add_membership 7 None (Some ''ann@x.io'') Mb_Invited None demo_auth = Inr (?m, ?s)"
    by (simp add: add_membership_def flush_memberships_def unique_memberships_def Let_def)
  obtain m1 s2 where att: "attach_roles ?m [''member''] ?s = Inr (m1, s2)"
    by (simp add: attach_role_def find_role_def rows_where_def one_or_none_def demo_role_def role_permission_keys_def Let_def)
  have "resolution_tables_kept demo_auth s2"
    unfolding attach_roles_keeps_resolution [OF att] by (simp add: resolution_tables_kept_def)
  note k = this
  let ?m' = "m1\<lparr>mb_invite_token_hash := Some ''tok''\<rparr>"
  have kept: "resolution_tables_kept demo_auth
      (announce_invite 7 (mb_id ?m') ''ann@x.io'' [''member''] ''Acme'' ''tok'' (save_membership ?m' s2))"
    using k by simp
  from demo_auth_computes sync_returns [OF _ kept demo_gauge [OF kept]] obtain s3 where
    "sync_seat_gauge demo_settings 0 7 (announce_invite 7 (mb_id ?m') ''ann@x.io'' [''member''] ''Acme'' ''tok'' (save_membership ?m' s2))
      = Inr s3" "resolution_tables_kept demo_auth s3" by blast
  then show ?thesis
    using add att
    by (auto simp: invite_member_def one_or_none_def count_active_members_def count_pending_invites_def rows_where_def Let_def)
qed


theorem invitation_is_personal_and_single_use_witness:
  "\<exists>m s1 m' s2. invite_member demo_settings id 0 7 ''ann@x.io'' [] (Some 3) ''Acme'' ''tok'' demo_auth = Inr (m, s1)
     \<and> accept_invite_by_token demo_settings demo_rbac id 0 ''tok'' demo_user s1 = Inr (m', s2)
     \<and> mb_user_id m' = Some 5
     \<and> accept_invite_by_token demo_settings demo_rbac id 0 ''tok'' demo_user s2 = raise_error InviteNotFoundError"
proof -
  from demo_invited obtain m s1 where run:
    "invite_member demo_settings id 0 7 ''ann@x.io'' [] (Some 3) ''Acme'' ''tok'' demo_auth = Inr (m, s1)"
    and kept: "resolution_tables_kept demo_auth s1" by blast
  note i = invite_member_rows [OF demo_auth_inv run]
  have inv1: "tenancy_inv s1" by (rule invite_member_ok [OF demo_auth_inv run])
  then have ids: "distinct (map mb_id (memberships s1))" by (simp add: inv_but_def auth_ids_ok_def)
  have only: "x = m" if "x \<in> set (memberships s1)" for x using i(8) [OF that] by simp
  have tok: "invited_membership_for_token id ''tok'' s1 = Inr m"
    by (rule token_names_invite [OF ids i(1) _ i(3)]) (use i(5) only in auto)
  have mem: "memberships s1 = [m]"
    using ids only i(1) by (metis distinct_map distinct_singleton list.set_intros(1) list.set_intros(2) neq_Nil_conv distinct.simps(2) empty_iff list.set(1))
  let ?m = "m\<lparr>mb_invite_token_hash := None, mb_user_id := Some 5, mb_invited_email := Some ''ann@x.io'',
    mb_status := Mb_Active, mb_joined_at := Some 0\<rparr>"
  let ?s = "announce_join ?m (save_membership ?m s1)"
  have kept': "resolution_tables_kept demo_auth ?s" using kept by simp
  obtain s2 where "sync_seat_gauge demo_settings 0 7 ?s = Inr s2"
    using demo_auth_computes sync_returns [OF _ kept' demo_gauge [OF kept']] by blast
  then have "accept_invite_by_token demo_settings demo_rbac id 0 ''tok'' demo_user s1
      = Inr (?m, invalidate_perms demo_rbac 0 ?m s2)"
    using tok i(2,4) by (simp add: accept_invite_by_token_def accept_membership_def same_mailbox_def demo_user_def
        flush_memberships_def unique_memberships_def mem update_where_def Let_def)
  from invitation_is_personal_and_single_use [OF demo_auth_inv _ run this] run this show ?thesis
    by (auto simp: demo_user_def)
qed

end
