(* ===== verification/Identity.thy ===== *)
theory Identity
  imports Tenancy
begin

text \<open>
  Accounts and sessions (\<open>identity/service.py\<close>, \<open>identity/models.py\<close>, \<open>core/security.py\<close>):
  registration, password and single sign-on login, rotating refresh tokens with reuse detection,
  logout and password reset. Argon2, SHA-256 and PyJWT are the record \<open>crypto\<close> of functions the
  definitions take; random tokens and salts are arguments.
\<close>

section \<open>Credentials\<close>

record crypto =
  sha256 :: "string \<Rightarrow> string"
  argon_hash :: "string \<Rightarrow> string \<Rightarrow> string"   \<comment> \<open>salt and password\<close>
  argon_verify :: "string \<Rightarrow> string \<Rightarrow> bool"   \<comment> \<open>stored text and password; a raised mismatch is \<open>False\<close>\<close>
  jwt_encode :: "json_object \<Rightarrow> string \<Rightarrow> string"
  jwt_decode :: "string \<Rightarrow> string \<Rightarrow> string \<Rightarrow> string list \<Rightarrow> datetime \<Rightarrow> json_object option"
    \<comment> \<open>token, key, issuer, required claims, clock; \<open>None\<close> for \<open>InvalidTokenError\<close>\<close>

record identity_settings =
  identity_provider :: string
  allow_password_grant :: bool
  access_token_ttl_seconds :: int
  refresh_token_ttl_seconds :: int
  refresh_reuse_grace_seconds :: int
  secret_key :: string

definition hash_password :: "crypto \<Rightarrow> string \<Rightarrow> string \<Rightarrow> string" where
  "hash_password c salt password = argon_hash c salt password"

definition verify_password :: "crypto \<Rightarrow> string \<Rightarrow> string \<Rightarrow> bool" where
  "verify_password c password password_hash = argon_verify c password_hash password"

definition ISSUER :: string where
  "ISSUER = ''synapse-saas''"

definition epoch_seconds :: "datetime \<Rightarrow> int" where
  "epoch_seconds t = t div 1000000"

definition access_payload ::
  "identity_settings \<Rightarrow> datetime \<Rightarrow> uuid \<Rightarrow> string \<Rightarrow> uuid option \<Rightarrow> bool \<Rightarrow> json_object" where
  "access_payload cfg now user_id email organization_id is_platform_admin =
     [(''sub'', JUuid user_id), (''email'', JStr email), (''iat'', JInt (epoch_seconds now)),
      (''exp'', JInt (epoch_seconds (now + seconds (access_token_ttl_seconds cfg)))),
      (''iss'', JStr ISSUER), (''type'', JStr ''access'')]
     @ (case organization_id of Some i \<Rightarrow> [(''org'', JUuid i)] | None \<Rightarrow> [])
     @ (if is_platform_admin then [(''platform_admin'', JBool True)] else [])"

definition create_access_token ::
  "crypto \<Rightarrow> identity_settings \<Rightarrow> datetime \<Rightarrow> uuid \<Rightarrow> string \<Rightarrow> uuid option \<Rightarrow> bool \<Rightarrow> string" where
  "create_access_token c cfg now user_id email organization_id is_platform_admin =
     jwt_encode c (access_payload cfg now user_id email organization_id is_platform_admin) (secret_key cfg)"

definition decode_access_token ::
  "crypto \<Rightarrow> identity_settings \<Rightarrow> datetime \<Rightarrow> string \<Rightarrow> error + json_object" where
  "decode_access_token c cfg now token =
     (case jwt_decode c token (secret_key cfg) ISSUER [''exp'', ''iat'', ''sub'', ''type''] now of
        None \<Rightarrow> raise_error AuthenticationError
      | Some payload \<Rightarrow>
          if map_of payload ''type'' = Some (JStr ''access'') then Inr payload
          else raise_error AuthenticationError)"

section \<open>Rows and the state\<close>

record refresh_token =
  rt_id :: uuid
  rt_user_id :: uuid
  rt_token_hash :: string
  rt_organization_id :: "uuid option"
  rt_expires_at :: datetime
  rt_revoked_at :: "datetime option"
  rt_replaced_by_token_id :: "uuid option"
  rt_user_agent :: "string option"
  rt_ip :: "string option"
  rt_created_at :: datetime

record password_reset_token =
  pt_id :: uuid
  pt_user_id :: uuid
  pt_token_hash :: string
  pt_expires_at :: datetime
  pt_used_at :: "datetime option"
  pt_created_at :: datetime

record ident_db = auth_db +
  refresh_tokens :: "refresh_token list"
  password_reset_tokens :: "password_reset_token list"

definition user_by_email :: "string \<Rightarrow> 'a acct_db_scheme \<Rightarrow> error + user option" where
  "user_by_email email s =
     one_or_none MultipleResultsFound (\<lambda>u. citext_eq (Some (us_email u)) (Some email)) (users s)"

definition save_user :: "user \<Rightarrow> 'a acct_db_scheme \<Rightarrow> 'a acct_db_scheme" where
  "save_user u s = s\<lparr>users := update_where (\<lambda>x. us_id x = us_id u) (\<lambda>_. u) (users s)\<rparr>"

definition user_audit ::
  "event_type \<Rightarrow> uuid \<Rightarrow> json_object option \<Rightarrow> 'a core_db_scheme \<Rightarrow> 'a core_db_scheme" where
  "user_audit ev user_id diff s = audit_log_as ev None (Some user_id) ''user'' None None diff s"

section \<open>Registration and login\<close>

definition new_user :: "string \<Rightarrow> string option \<Rightarrow> string \<Rightarrow> string \<Rightarrow> string option \<Rightarrow> uuid \<Rightarrow> user" where
  "new_user email password_hash display_name provider subject i =
     \<lparr>us_id = i, us_email = email, us_password_hash = password_hash, us_display_name = display_name,
      us_avatar_url = None, us_is_platform_admin = False, us_is_active = True, us_last_login_at = None,
      us_identity_provider = provider, us_provider_subject = subject, us_preferences = []\<rparr>"

definition register ::
  "crypto \<Rightarrow> string \<Rightarrow> string \<Rightarrow> string \<Rightarrow> string \<Rightarrow> 'a acct_db_scheme \<Rightarrow> error + (user \<times> 'a acct_db_scheme)" where
  "register c salt email password display_name s =
     bind_r (user_by_email email s) (\<lambda>existing.
     bind_r (guard_r (existing = None) (Domain EmailAlreadyRegisteredError [])) (\<lambda>_.
       let u = new_user email (Some (hash_password c salt password)) display_name ''local'' None (next_uuid s)
       in Inr (u, user_audit USER_REGISTERED (us_id u) (Some [(''email'', JStr email)])
                    (s\<lparr>next_uuid := Suc (next_uuid s), users := users s @ [u]\<rparr>))))"

text \<open>\<open>str(claims.get(key) or "")\<close>.\<close>

definition claim_text :: "(json \<Rightarrow> string) \<Rightarrow> string \<Rightarrow> json_object \<Rightarrow> string" where
  "claim_text repr_of key claims =
     (case map_of claims key of
        None \<Rightarrow> []
      | Some v \<Rightarrow> (case truthy_text repr_of v of None \<Rightarrow> [] | Some t \<Rightarrow> t))"

definition first_text :: "string list \<Rightarrow> string" where
  "first_text ts = (case filter (\<lambda>t. t \<noteq> []) ts of [] \<Rightarrow> [] | t # _ \<Rightarrow> t)"

definition signed_in :: "datetime \<Rightarrow> json_object \<Rightarrow> user \<Rightarrow> 'a acct_db_scheme \<Rightarrow> user \<times> 'a acct_db_scheme" where
  "signed_in now diff u s =
     (let u' = u\<lparr>us_last_login_at := Some now\<rparr>
      in (u', user_audit USER_LOGIN_SUCCEEDED (us_id u) (if diff = [] then None else Some diff) (save_user u' s)))"

definition link_or_create_oidc_user ::
  "(json \<Rightarrow> string) \<Rightarrow> datetime \<Rightarrow> json_object \<Rightarrow> string \<Rightarrow> 'a acct_db_scheme
    \<Rightarrow> error + (user \<times> 'a acct_db_scheme)" where
  "link_or_create_oidc_user repr_of now claims provider s =
     (let subject = claim_text repr_of ''sub'' claims;
          email = map lower_char (strip (claim_text repr_of ''email'' claims));
          display_name = first_text [claim_text repr_of ''name'' claims,
            claim_text repr_of ''preferred_username'' claims, email, subject]
      in bind_r (guard_r (subject \<noteq> []) (Domain AuthenticationError [])) (\<lambda>_.
         bind_r (one_or_none MultipleResultsFound
             (\<lambda>u. us_identity_provider u = provider \<and> us_provider_subject u = Some subject) (users s)) (\<lambda>by_subject.
         case by_subject of
           Some u \<Rightarrow>
             bind_r (guard_r (us_is_active u) (Domain AuthenticationError [])) (\<lambda>_.
               Inr (signed_in now [(''via'', JStr provider)] u s))
         | None \<Rightarrow>
             bind_r (if email \<noteq> [] then user_by_email email s else Inr None) (\<lambda>by_email.
               if email \<noteq> [] \<and> map_of claims ''email_verified'' = Some (JBool True) \<and> by_email \<noteq> None
               then (let u = the by_email
                     in bind_r (guard_r (us_is_active u) (Domain AuthenticationError [])) (\<lambda>_.
                          Inr (signed_in now [(''via'', JStr provider), (''linked'', JStr ''verified_email'')]
                            (u\<lparr>us_identity_provider := provider, us_provider_subject := Some subject\<rparr>) s)))
               else
                 bind_r (guard_r (email \<noteq> []) (Domain AuthenticationError [])) (\<lambda>_.
                 bind_r (guard_r (by_email = None) (Domain AuthenticationError [(''reason'', JStr ''email_unverified'')])) (\<lambda>_.
                   let u = new_user email None display_name provider (Some subject) (next_uuid s)
                   in Inr (u, user_audit USER_REGISTERED (us_id u) (Some [(''via'', JStr provider)])
                        (s\<lparr>next_uuid := Suc (next_uuid s), users := users s @ [u]\<rparr>))))))))"

text \<open>
  The password grant. \<open>grant email password\<close> is Keycloak's token endpoint with the check of the
  signed \<open>id_token\<close>: the claims, or \<open>None\<close> for a refusal. The account is linked in a session of its
  own, committed before the request goes on.
\<close>

definition verify_credentials_keycloak ::
  "(json \<Rightarrow> string) \<Rightarrow> identity_settings \<Rightarrow> (string \<Rightarrow> string \<Rightarrow> error + json_object option) \<Rightarrow> datetime
    \<Rightarrow> string \<Rightarrow> string \<Rightarrow> 'a acct_db_scheme \<Rightarrow> error + (uuid option \<times> 'a acct_db_scheme)" where
  "verify_credentials_keycloak repr_of cfg grant now email password s =
     (if \<not> allow_password_grant cfg then Inr (None, s)
      else bind_r (grant email password) (\<lambda>answer.
        case answer of
          None \<Rightarrow> Inr (None, s)
        | Some claims \<Rightarrow>
            bind_r (link_or_create_oidc_user repr_of now claims ''keycloak'' s) (\<lambda>(u, s1).
              Inr (if us_is_active u then Some (us_id u) else None, s1))))"

definition login_via_password_grant ::
  "(json \<Rightarrow> string) \<Rightarrow> identity_settings \<Rightarrow> (string \<Rightarrow> string \<Rightarrow> error + json_object option) \<Rightarrow> datetime
    \<Rightarrow> string \<Rightarrow> string \<Rightarrow> 'a acct_db_scheme \<Rightarrow> error + (user \<times> 'a acct_db_scheme)" where
  "login_via_password_grant repr_of cfg grant now email password s =
     bind_r (verify_credentials_keycloak repr_of cfg grant now email password s) (\<lambda>(verified, s1).
       case verified of
         None \<Rightarrow> raise_error InvalidCredentialsError
       | Some i \<Rightarrow>
           (case get_user i s1 of
              None \<Rightarrow> raise_error InvalidCredentialsError
            | Some u \<Rightarrow>
                if us_is_active u then Inr (signed_in now [(''via'', JStr ''keycloak_password_grant'')] u s1)
                else raise_error InvalidCredentialsError))"

text \<open>\<open>USER_LOGIN_FAILED\<close> is written before the error is raised, and rolled back with the request.\<close>

definition sso_only_account :: "user option \<Rightarrow> bool" where
  "sso_only_account usr = (case usr of
     Some u \<Rightarrow> us_identity_provider u \<noteq> ''local'' \<and> us_password_hash u = None | None \<Rightarrow> False)"

definition login ::
  "crypto \<Rightarrow> (json \<Rightarrow> string) \<Rightarrow> identity_settings \<Rightarrow> (string \<Rightarrow> string \<Rightarrow> error + json_object option) \<Rightarrow> datetime
    \<Rightarrow> string \<Rightarrow> string \<Rightarrow> 'a acct_db_scheme \<Rightarrow> error + (user \<times> 'a acct_db_scheme)" where
  "login c repr_of cfg grant now email password s =
     bind_r (user_by_email email s) (\<lambda>usr.
       if identity_provider cfg = ''keycloak'' \<and> allow_password_grant cfg \<and> (usr = None \<or> sso_only_account usr)
       then login_via_password_grant repr_of cfg grant now email password s
       else (case usr of
           None \<Rightarrow> raise_error InvalidCredentialsError
         | Some u \<Rightarrow>
             if sso_only_account usr
             then Inl (Domain AuthenticationError [(''sso_url'', JStr ''/v1/auth/oidc/start''),
                    (''identity_provider'', JStr (us_identity_provider u))])
             else (case us_password_hash u of
                 None \<Rightarrow> raise_error InvalidCredentialsError
               | Some h \<Rightarrow>
                   if \<not> us_is_active u \<or> \<not> verify_password c password h then raise_error InvalidCredentialsError
                   else Inr (signed_in now [] u s))))"

definition require_account :: "uuid \<Rightarrow> 'a acct_db_scheme \<Rightarrow> error + user" where
  "require_account i s = (case get_user i s of None \<Rightarrow> raise_error UserNotFoundError | Some u \<Rightarrow> Inr u)"

definition set_active_org :: "uuid \<Rightarrow> uuid \<Rightarrow> 'a acct_db_scheme \<Rightarrow> error + user" where
  "set_active_org user_id organization_id s = require_account user_id s"

definition upsert_oidc_user ::
  "(json \<Rightarrow> string) \<Rightarrow> datetime \<Rightarrow> string \<Rightarrow> string \<Rightarrow> string \<Rightarrow> 'a acct_db_scheme
    \<Rightarrow> error + (user \<times> 'a acct_db_scheme)" where
  "upsert_oidc_user repr_of now email display_name provider_subject s =
     link_or_create_oidc_user repr_of now
       [(''sub'', JStr provider_subject), (''email'', JStr email), (''email_verified'', JBool True),
        (''name'', JStr display_name)] ''keycloak'' s"

section \<open>Sessions\<close>

record token_pair =
  tp_access_token :: string
  tp_refresh_token :: string
  tp_expires_in :: int

definition issue_tokens ::
  "crypto \<Rightarrow> identity_settings \<Rightarrow> datetime \<Rightarrow> user \<Rightarrow> uuid option \<Rightarrow> string option \<Rightarrow> string option \<Rightarrow> string
    \<Rightarrow> 'a ident_db_scheme \<Rightarrow> error + (token_pair \<times> 'a ident_db_scheme)" where
  "issue_tokens c cfg now u organization_id user_agent ip fresh s =
     (let row = \<lparr>rt_id = next_uuid s, rt_user_id = us_id u, rt_token_hash = sha256 c fresh,
                 rt_organization_id = organization_id,
                 rt_expires_at = now + seconds (refresh_token_ttl_seconds cfg), rt_revoked_at = None,
                 rt_replaced_by_token_id = None, rt_user_agent = user_agent, rt_ip = ip, rt_created_at = tx_now s\<rparr>
      in bind_r (guard_r (\<forall>r\<in>set (refresh_tokens s). rt_token_hash r \<noteq> sha256 c fresh) IntegrityError) (\<lambda>_.
           Inr (\<lparr>tp_access_token = create_access_token c cfg now (us_id u) (us_email u) organization_id
                   (us_is_platform_admin u),
                 tp_refresh_token = fresh, tp_expires_in = access_token_ttl_seconds cfg\<rparr>,
                s\<lparr>next_uuid := Suc (next_uuid s), refresh_tokens := refresh_tokens s @ [row]\<rparr>)))"

definition revoke_chain :: "datetime \<Rightarrow> uuid \<Rightarrow> 'a ident_db_scheme \<Rightarrow> 'a ident_db_scheme" where
  "revoke_chain now user_id s =
     s\<lparr>refresh_tokens := update_where (\<lambda>r. rt_user_id r = user_id \<and> rt_revoked_at r = None)
         (\<lambda>r. r\<lparr>rt_revoked_at := Some now\<rparr>) (refresh_tokens s)\<rparr>"

definition token_row :: "crypto \<Rightarrow> string \<Rightarrow> 'a ident_db_scheme \<Rightarrow> error + refresh_token option" where
  "token_row c token s =
     one_or_none MultipleResultsFound (\<lambda>r. rt_token_hash r = sha256 c token) (refresh_tokens s)"

definition save_token :: "refresh_token \<Rightarrow> 'a ident_db_scheme \<Rightarrow> 'a ident_db_scheme" where
  "save_token r s = s\<lparr>refresh_tokens := update_where (\<lambda>x. rt_id x = rt_id r) (\<lambda>_. r) (refresh_tokens s)\<rparr>"

text \<open>
  The branch of a live token. Reuse detection is the one operation that commits before it raises, so
  \<open>refresh\<close> gives the state that stays, with the error or the result.
\<close>

definition rotate ::
  "crypto \<Rightarrow> identity_settings \<Rightarrow> datetime \<Rightarrow> refresh_token \<Rightarrow> string option \<Rightarrow> string option \<Rightarrow> string
    \<Rightarrow> 'a ident_db_scheme \<Rightarrow> error + ((user \<times> token_pair) \<times> 'a ident_db_scheme)" where
  "rotate c cfg now row user_agent ip fresh s =
     (case get_user (rt_user_id row) s of
        None \<Rightarrow> raise_error AuthenticationError
      | Some u \<Rightarrow>
          bind_r (guard_r (us_is_active u) (Domain AuthenticationError [])) (\<lambda>_.
          bind_r (issue_tokens c cfg now u (rt_organization_id row) user_agent ip fresh s) (\<lambda>(pair, s1).
          bind_r (token_row c (tp_refresh_token pair) s1) (\<lambda>found.
            case found of
              None \<Rightarrow> Inl NoResultFound
            | Some successor \<Rightarrow>
                Inr ((u, pair), user_audit USER_TOKEN_REFRESHED (us_id u) None
                  (save_token (row\<lparr>rt_revoked_at := Some now, rt_replaced_by_token_id := Some (rt_id successor)\<rparr>) s1))))))"

definition refresh ::
  "crypto \<Rightarrow> identity_settings \<Rightarrow> datetime \<Rightarrow> string \<Rightarrow> string option \<Rightarrow> string option \<Rightarrow> string
    \<Rightarrow> 'a ident_db_scheme \<Rightarrow> (error + (user \<times> token_pair)) \<times> 'a ident_db_scheme" where
  "refresh c cfg now token user_agent ip fresh s =
     (case token_row c token s of
        Inl e \<Rightarrow> (Inl e, s)
      | Inr None \<Rightarrow> (raise_error AuthenticationError, s)
      | Inr (Some row) \<Rightarrow>
          if rt_expires_at row < now then (raise_error AuthenticationError, s)
          else (case rt_revoked_at row of
              Some at \<Rightarrow>
                if rt_replaced_by_token_id row \<noteq> None \<and> now - at \<le> seconds (refresh_reuse_grace_seconds cfg)
                then (raise_error AuthenticationError, s)
                else (raise_error TokenReuseError,
                      user_audit USER_TOKEN_REUSE_DETECTED (rt_user_id row) None (revoke_chain now (rt_user_id row) s))
            | None \<Rightarrow>
                (case rotate c cfg now row user_agent ip fresh s of
                   Inl e \<Rightarrow> (Inl e, s)
                 | Inr (r, s1) \<Rightarrow> (Inr r, s1))))"

definition logout :: "crypto \<Rightarrow> datetime \<Rightarrow> string \<Rightarrow> 'a ident_db_scheme \<Rightarrow> error + 'a ident_db_scheme" where
  "logout c now token s =
     bind_r (token_row c token s) (\<lambda>found.
       case found of
         None \<Rightarrow> Inr s
       | Some row \<Rightarrow>
           Inr (if rt_revoked_at row = None
                then user_audit USER_LOGGED_OUT (rt_user_id row) None (save_token (row\<lparr>rt_revoked_at := Some now\<rparr>) s)
                else s))"

section \<open>Password reset\<close>

definition RESET_TOKEN_TTL_MINUTES :: int where
  "RESET_TOKEN_TTL_MINUTES = 30"

definition request_password_reset ::
  "crypto \<Rightarrow> datetime \<Rightarrow> string \<Rightarrow> string \<Rightarrow> 'a ident_db_scheme
    \<Rightarrow> error + ((password_reset_token \<times> string) option \<times> 'a ident_db_scheme)" where
  "request_password_reset c now email fresh s =
     bind_r (user_by_email email s) (\<lambda>usr.
       case usr of
         None \<Rightarrow> Inr (None, s)
       | Some u \<Rightarrow>
           let row = \<lparr>pt_id = next_uuid s, pt_user_id = us_id u, pt_token_hash = sha256 c fresh,
                      pt_expires_at = now + seconds (RESET_TOKEN_TTL_MINUTES * 60), pt_used_at = None,
                      pt_created_at = tx_now s\<rparr>
           in bind_r (guard_r (\<forall>r\<in>set (password_reset_tokens s). pt_token_hash r \<noteq> sha256 c fresh) IntegrityError) (\<lambda>_.
                Inr (Some (row, fresh), user_audit USER_PASSWORD_RESET_REQUESTED (us_id u) None
                  (s\<lparr>next_uuid := Suc (next_uuid s), password_reset_tokens := password_reset_tokens s @ [row]\<rparr>))))"

definition usable_reset :: "crypto \<Rightarrow> datetime \<Rightarrow> string \<Rightarrow> password_reset_token \<Rightarrow> bool" where
  "usable_reset c now token r \<longleftrightarrow> pt_token_hash r = sha256 c token \<and> pt_used_at r = None \<and> now \<le> pt_expires_at r"

definition reset_password ::
  "crypto \<Rightarrow> datetime \<Rightarrow> string \<Rightarrow> string \<Rightarrow> string \<Rightarrow> 'a ident_db_scheme \<Rightarrow> error + (user \<times> 'a ident_db_scheme)" where
  "reset_password c now token salt new_password s =
     bind_r (one_or_none MultipleResultsFound (usable_reset c now token) (password_reset_tokens s)) (\<lambda>found.
       case found of
         None \<Rightarrow> raise_error AuthenticationError
       | Some row \<Rightarrow>
           bind_r (require_account (pt_user_id row) s) (\<lambda>u.
             let u' = u\<lparr>us_password_hash := Some (hash_password c salt new_password)\<rparr>;
                 s1 = save_user u' s;
                 s2 = s1\<lparr>password_reset_tokens := update_where (\<lambda>x. pt_id x = pt_id row)
                           (\<lambda>_. row\<lparr>pt_used_at := Some now\<rparr>) (password_reset_tokens s1)\<rparr>
             in Inr (u', user_audit USER_PASSWORD_RESET_COMPLETED (us_id u) None (revoke_chain now (us_id u) s2))))"

text \<open>The handler of \<open>POST /auth/forgot-password\<close>: the same answer for a known and an unknown address.\<close>

definition forgot_password ::
  "crypto \<Rightarrow> datetime \<Rightarrow> string \<Rightarrow> string \<Rightarrow> 'a ident_db_scheme \<Rightarrow> error + (bool \<times> 'a ident_db_scheme)" where
  "forgot_password c now email fresh s =
     bind_r (request_password_reset c now email fresh s) (\<lambda>(reset, s1).
       Inr (True, case reset of
           None \<Rightarrow> s1
         | Some (row, token) \<Rightarrow>
             append_outbox USER_PASSWORD_RESET_LINK ''user'' (pt_user_id row)
               [(''email'', JStr email), (''token'', JStr token)] None s1))"

section \<open>Sessions over time\<close>

definition sessions_ok :: "'a ident_db_scheme \<Rightarrow> bool" where
  "sessions_ok s \<longleftrightarrow> distinct (map rt_token_hash (refresh_tokens s)) \<and> distinct (map rt_id (refresh_tokens s))
     \<and> (\<forall>r\<in>set (refresh_tokens s). rt_id r < next_uuid s)"

text \<open>The tokens with hash \<open>h\<close> were rotated away at \<open>at\<close>, for the user \<open>i\<close>.\<close>

definition spent :: "string \<Rightarrow> datetime \<Rightarrow> uuid \<Rightarrow> 'a ident_db_scheme \<Rightarrow> bool" where
  "spent h at i s \<longleftrightarrow> (\<forall>r\<in>set (refresh_tokens s). rt_token_hash r = h
     \<longrightarrow> rt_revoked_at r = Some at \<and> rt_replaced_by_token_id r \<noteq> None \<and> rt_user_id r = i)"

text \<open>
  Anything that can happen to the sessions while the random tokens drawn do not repeat \<open>h\<close>:
  the operations above, with whatever outcome, and the nightly purge, which drops rows.
\<close>

inductive session_step :: "crypto \<Rightarrow> string \<Rightarrow> 'a ident_db_scheme \<Rightarrow> 'a ident_db_scheme \<Rightarrow> bool" for c h where
  Refreshed: "sha256 c fresh \<noteq> h \<Longrightarrow> refresh c cfg now token ua ip fresh s = (r, s') \<Longrightarrow> session_step c h s s'"
| Issued: "sha256 c fresh \<noteq> h \<Longrightarrow> issue_tokens c cfg now u org ua ip fresh s = Inr (p, s') \<Longrightarrow> session_step c h s s'"
| Logged_out: "logout c now token s = Inr s' \<Longrightarrow> session_step c h s s'"
| Password_reset: "reset_password c now token salt pw s = Inr (u, s') \<Longrightarrow> session_step c h s s'"
| Purged: "refresh_tokens s' = filter P (refresh_tokens s) \<Longrightarrow> next_uuid s \<le> next_uuid s' \<Longrightarrow> session_step c h s s'"

lemma user_audit_keeps [simp]:
  fixes s :: "'a ident_db_scheme"
  shows "refresh_tokens (user_audit ev i d s) = refresh_tokens s"
    and "password_reset_tokens (user_audit ev i d s) = password_reset_tokens s"
    and "next_uuid (user_audit ev i d s) = Suc (next_uuid s)"
  by (simp_all add: user_audit_def audit_log_as_def Let_def split: prod.split)

lemma user_audit_users [simp]: "users (user_audit ev i d s) = users s"
  by (simp add: user_audit_def)

lemma save_user_keeps [simp]:
  fixes s :: "'a ident_db_scheme"
  shows "refresh_tokens (save_user u s) = refresh_tokens s"
    and "password_reset_tokens (save_user u s) = password_reset_tokens s"
    and "next_uuid (save_user u s) = next_uuid s"
  by (simp_all add: save_user_def)

text \<open>Two ways in which a step may change the table.\<close>

lemma sessions_edit:
  assumes "sessions_ok s" and "refresh_tokens s' = map f (refresh_tokens s)"
    and "\<And>r. rt_token_hash (f r) = rt_token_hash r" "\<And>r. rt_id (f r) = rt_id r" and "next_uuid s \<le> next_uuid s'"
  shows "sessions_ok s'"
  using assms by (auto simp: sessions_ok_def comp_def)

lemma sessions_insert:
  assumes "sessions_ok s" and "refresh_tokens s' = refresh_tokens s @ [r]"
    and "\<forall>x\<in>set (refresh_tokens s). rt_token_hash x \<noteq> rt_token_hash r" "rt_id r = next_uuid s"
    and "next_uuid s < next_uuid s'"
  shows "sessions_ok s'"
  using assms by (fastforce simp: sessions_ok_def)

lemma issue_tokensD:
  assumes "issue_tokens c cfg now u org ua ip fresh s = Inr (p, s')"
  shows "\<exists>r. refresh_tokens s' = refresh_tokens s @ [r] \<and> rt_token_hash r = sha256 c fresh \<and> rt_id r = next_uuid s
    \<and> rt_user_id r = us_id u \<and> rt_revoked_at r = None \<and> next_uuid s' = Suc (next_uuid s)
    \<and> (\<forall>x\<in>set (refresh_tokens s). rt_token_hash x \<noteq> sha256 c fresh) \<and> users s' = users s"
    and "tp_refresh_token p = fresh"
  using assms by (auto simp: issue_tokens_def Let_def bind_r_eq_Inr)

lemma save_token_map:
  assumes "sessions_ok s" and "r \<in> set (refresh_tokens s)" and "rt_id r' = rt_id r" "rt_token_hash r' = rt_token_hash r"
  shows "refresh_tokens (save_token r' s) = map (\<lambda>x. if x = r then r' else x) (refresh_tokens s)"
proof -
  have "distinct (map rt_id (refresh_tokens s))" using assms(1) by (simp add: sessions_ok_def)
  then have "x = r" if "x \<in> set (refresh_tokens s)" "rt_id x = rt_id r" for x
    using distinct_key_unique that assms(2) by metis
  then show ?thesis using assms(3) by (auto simp: save_token_def update_where_def)
qed

lemma token_rowD:
  "token_row c tok s = Inr (Some r) \<Longrightarrow> r \<in> set (refresh_tokens s) \<and> rt_token_hash r = sha256 c tok"
  by (auto simp: token_row_def dest!: one_or_none_SomeD)

lemma token_row_found:
  assumes "sessions_ok s" and "r \<in> set (refresh_tokens s)" and "rt_token_hash r = sha256 c tok"
  shows "token_row c tok s = Inr (Some r)"
proof -
  have "distinct (map rt_token_hash (refresh_tokens s))" using assms(1) by (simp add: sessions_ok_def)
  from distinct_key_filter [OF this assms(2,3)] show ?thesis by (simp add: token_row_def one_or_none_def)
qed

lemma rotateD:
  assumes "sessions_ok s" and "row \<in> set (refresh_tokens s)"
    and "rotate c cfg now row ua ip fresh s = Inr ((u, pair), s')"
  shows "\<exists>r. refresh_tokens s' = map (\<lambda>x. if x = row
      then row\<lparr>rt_revoked_at := Some now, rt_replaced_by_token_id := Some (rt_id r)\<rparr> else x) (refresh_tokens s) @ [r]
    \<and> rt_token_hash r = sha256 c fresh" and "us_id u = rt_user_id row" and "sessions_ok s'"
proof -
  from assms(3) obtain s1 succ where u: "get_user (rt_user_id row) s = Some u"
      and iss: "issue_tokens c cfg now u (rt_organization_id row) ua ip fresh s = Inr (pair, s1)"
      and succ: "token_row c (tp_refresh_token pair) s1 = Inr (Some succ)"
      and s': "s' = user_audit USER_TOKEN_REFRESHED (us_id u) None
        (save_token (row\<lparr>rt_revoked_at := Some now, rt_replaced_by_token_id := Some (rt_id succ)\<rparr>) s1)"
    by (auto simp: rotate_def bind_r_eq_Inr split: option.splits)
  show "us_id u = rt_user_id row" using u by (auto simp: get_user_def dest: first_row_SomeD)
  from issue_tokensD [OF iss] obtain r where r: "refresh_tokens s1 = refresh_tokens s @ [r]"
      "rt_token_hash r = sha256 c fresh" "rt_id r = next_uuid s" "next_uuid s1 = Suc (next_uuid s)"
      "\<forall>x\<in>set (refresh_tokens s). rt_token_hash x \<noteq> sha256 c fresh" "tp_refresh_token pair = fresh" by blast
  have ok1: "sessions_ok s1" by (rule sessions_insert [OF assms(1) r(1)]) (use r in auto)
  have "succ = r" using token_rowD [OF succ] r by auto
  let ?row = "row\<lparr>rt_revoked_at := Some now, rt_replaced_by_token_id := Some (rt_id r)\<rparr>"
  have row1: "row \<in> set (refresh_tokens s1)" using assms(2) r(1) by simp
  have m: "refresh_tokens s' = map (\<lambda>x. if x = row then ?row else x) (refresh_tokens s1)"
    using save_token_map [OF ok1 row1, of ?row] by (simp add: s' \<open>succ = r\<close>)
  have "row \<noteq> r" using r(2,5) assms(2) by auto
  then show "\<exists>r. refresh_tokens s' = map (\<lambda>x. if x = row
      then row\<lparr>rt_revoked_at := Some now, rt_replaced_by_token_id := Some (rt_id r)\<rparr> else x) (refresh_tokens s) @ [r]
    \<and> rt_token_hash r = sha256 c fresh" using m r(1,2) by auto
  have "next_uuid s1 \<le> next_uuid s'" by (simp add: s' save_token_def)
  then show "sessions_ok s'" by (rule sessions_edit [OF ok1 m, rotated -1]) simp_all
qed

lemma revoke_chain_map:
  "refresh_tokens (revoke_chain now i s) = map (\<lambda>r. if rt_user_id r = i \<and> rt_revoked_at r = None
     then r\<lparr>rt_revoked_at := Some now\<rparr> else r) (refresh_tokens s)"
  by (simp add: revoke_chain_def update_where_def)

lemma revoked_chain_ok:
  assumes "sessions_ok s" and "refresh_tokens s' = refresh_tokens (revoke_chain now i s)" and "next_uuid s \<le> next_uuid s'"
  shows "sessions_ok s'" and "spent h at j s \<Longrightarrow> spent h at j s'"
    and "\<forall>r\<in>set (refresh_tokens s'). rt_user_id r = i \<longrightarrow> rt_revoked_at r \<noteq> None"
proof -
  note m = assms(2) [unfolded revoke_chain_map]
  show "sessions_ok s'" by (rule sessions_edit [OF assms(1) m _ _ assms(3)]) simp_all
  show "spent h at j s \<Longrightarrow> spent h at j s'" by (auto simp: spent_def m)
  show "\<forall>r\<in>set (refresh_tokens s'). rt_user_id r = i \<longrightarrow> rt_revoked_at r \<noteq> None"
  proof
    fix r assume "r \<in> set (refresh_tokens s')"
    then obtain x where "r = (if rt_user_id x = i \<and> rt_revoked_at x = None then x\<lparr>rt_revoked_at := Some now\<rparr> else x)"
      unfolding m set_map by blast
    then show "rt_user_id r = i \<longrightarrow> rt_revoked_at r \<noteq> None" by (cases "rt_user_id x = i \<and> rt_revoked_at x = None") auto
  qed
qed

lemma refresh_cases:
  assumes "refresh c cfg now tok ua ip fresh s = (r, s')"
  obtains (refused) e where "r = Inl e" "s' = s"
  | (reused) row where "token_row c tok s = Inr (Some row)" "rt_revoked_at row \<noteq> None" "r = raise_error TokenReuseError"
      "s' = user_audit USER_TOKEN_REUSE_DETECTED (rt_user_id row) None (revoke_chain now (rt_user_id row) s)"
  | (rotated) row x where "token_row c tok s = Inr (Some row)" "rt_revoked_at row = None" "r = Inr x"
      "rotate c cfg now row ua ip fresh s = Inr (x, s')"
proof (cases "\<exists>row. token_row c tok s = Inr (Some row) \<and> \<not> rt_expires_at row < now")
  case False
  with assms have "(\<exists>e. r = Inl e) \<and> s' = s" by (auto simp: refresh_def split: sum.splits option.splits)
  with refused show thesis by blast
next
  case True
  then obtain row where row: "token_row c tok s = Inr (Some row)" "\<not> rt_expires_at row < now" by blast
  show thesis
  proof (cases "rt_revoked_at row")
    case None
    with assms row show thesis using refused rotated
      by (cases "rotate c cfg now row ua ip fresh s") (auto simp: refresh_def)
  next
    case (Some at)
    with assms row show thesis using refused reused by (auto simp: refresh_def split: if_splits)
  qed
qed

lemma revoke_chain_next [simp]: "next_uuid (revoke_chain now i s) = next_uuid s"
  by (simp add: revoke_chain_def)

lemma save_token_next [simp]: "next_uuid (save_token r s) = next_uuid s"
  by (simp add: save_token_def)

lemma reset_passwordD:
  assumes "reset_password c now token salt pw s = Inr (u', s')"
  shows "\<exists>row u. one_or_none MultipleResultsFound (usable_reset c now token) (password_reset_tokens s) = Inr (Some row)
    \<and> get_user (pt_user_id row) s = Some u \<and> u' = u\<lparr>us_password_hash := Some (hash_password c salt pw)\<rparr>
    \<and> refresh_tokens s' = refresh_tokens (revoke_chain now (us_id u) s) \<and> users s' = users (save_user u' s)
    \<and> next_uuid s \<le> next_uuid s'
    \<and> password_reset_tokens s' = update_where (\<lambda>x. pt_id x = pt_id row) (\<lambda>_. row\<lparr>pt_used_at := Some now\<rparr>) (password_reset_tokens s)"
proof -
  from assms obtain row u where "one_or_none MultipleResultsFound (usable_reset c now token) (password_reset_tokens s) = Inr (Some row)"
    "get_user (pt_user_id row) s = Some u" "u' = u\<lparr>us_password_hash := Some (hash_password c salt pw)\<rparr>"
    "s' = user_audit USER_PASSWORD_RESET_COMPLETED (us_id u) None (revoke_chain now (us_id u)
      ((save_user u' s)\<lparr>password_reset_tokens := update_where (\<lambda>x. pt_id x = pt_id row) (\<lambda>_. row\<lparr>pt_used_at := Some now\<rparr>)
        (password_reset_tokens s)\<rparr>))"
    by (auto simp: reset_password_def require_account_def bind_r_eq_Inr Let_def split: option.splits)
  then show ?thesis by (intro exI [of _ row] exI [of _ u]) (simp add: revoke_chain_def)
qed

lemma session_step_ok:
  assumes "session_step c h s s'" and "sessions_ok s" and "spent h at i s"
  shows "sessions_ok s' \<and> spent h at i s'"
  using assms
proof (induction rule: session_step.induct)
  case (Refreshed fresh cfg now token ua ip s r s')
  from Refreshed(2) show ?case
  proof (cases rule: refresh_cases)
    case refused
    with Refreshed show ?thesis by simp
  next
    case (reused row)
    then show ?thesis using revoked_chain_ok(1,2) [OF Refreshed(3), of s' now "rt_user_id row"] Refreshed(4) by simp
  next
    case (rotated row x)
    obtain u p where x: "x = (u, p)" by (cases x)
    have row: "row \<in> set (refresh_tokens s)" using token_rowD [OF rotated(1)] by blast
    note d = rotateD [OF Refreshed(3) row rotated(4) [unfolded x]]
    from d(1) Refreshed(1,4) rotated(2) row have "spent h at i s'" by (auto simp: spent_def)
    with d(3) show ?thesis by simp
  qed
next
  case (Issued fresh cfg now u org ua ip s p s')
  from issue_tokensD(1) [OF Issued(2)] obtain r where r: "refresh_tokens s' = refresh_tokens s @ [r]"
      "rt_token_hash r = sha256 c fresh" "rt_id r = next_uuid s" "next_uuid s' = Suc (next_uuid s)"
      "\<forall>x\<in>set (refresh_tokens s). rt_token_hash x \<noteq> sha256 c fresh" by blast
  have "sessions_ok s'" by (rule sessions_insert [OF Issued(3) r(1)]) (use r in auto)
  moreover have "spent h at i s'" using Issued(1,4) r(1,2) by (auto simp: spent_def)
  ultimately show ?case by simp
next
  case (Logged_out now token s s')
  then obtain found where f: "token_row c token s = Inr found" by (auto simp: logout_def bind_r_eq_Inr)
  show ?case
  proof (cases "\<exists>row. found = Some row \<and> rt_revoked_at row = None")
    case False
    with Logged_out f have "s' = s" by (auto simp: logout_def split: option.splits)
    with Logged_out show ?thesis by simp
  next
    case True
    then obtain row where row: "found = Some row" "rt_revoked_at row = None" by blast
    let ?row = "row\<lparr>rt_revoked_at := Some now\<rparr>"
    have mem: "row \<in> set (refresh_tokens s)" using token_rowD f row(1) by blast
    have s': "s' = user_audit USER_LOGGED_OUT (rt_user_id row) None (save_token ?row s)"
      using Logged_out(1) f row by (simp add: logout_def)
    have m: "refresh_tokens s' = map (\<lambda>x. if x = row then ?row else x) (refresh_tokens s)"
      using save_token_map [OF Logged_out(2) mem, of ?row] by (simp add: s')
    have "spent h at i s'" using Logged_out(3) row(2) mem by (auto simp: spent_def m)
    moreover have "sessions_ok s'" by (rule sessions_edit [OF Logged_out(2) m]) (simp_all add: s')
    ultimately show ?thesis by simp
  qed
next
  case (Password_reset now token salt pw s u s')
  from reset_passwordD [OF Password_reset(1)]
  have "\<exists>j. refresh_tokens s' = refresh_tokens (revoke_chain now j s) \<and> next_uuid s \<le> next_uuid s'" by blast
  then show ?case using revoked_chain_ok(1,2) [OF Password_reset(2)] Password_reset(3) by blast
next
  case (Purged s' P s)
  then show ?case by (auto simp: sessions_ok_def spent_def distinct_map_filter intro: less_le_trans)
qed

lemma refreshed_is_spent:
  assumes "sessions_ok s" and "refresh c cfg now tok ua ip fresh s = (Inr (u, pair), s1)"
    and "sha256 c fresh \<noteq> sha256 c tok"
  shows "sessions_ok s1 \<and> spent (sha256 c tok) now (us_id u) s1"
proof -
  let ?h = "sha256 c tok"
  from assms(2) obtain row where row: "token_row c tok s = Inr (Some row)"
    and rot: "rotate c cfg now row ua ip fresh s = Inr ((u, pair), s1)" by (cases rule: refresh_cases) auto
  have mem: "row \<in> set (refresh_tokens s)" "rt_token_hash row = ?h" using token_rowD [OF row] by blast+
  note d = rotateD [OF assms(1) mem(1) rot]
  have "distinct (map rt_token_hash (refresh_tokens s))" using assms(1) by (simp add: sessions_ok_def)
  then have "x = row" if "x \<in> set (refresh_tokens s)" "rt_token_hash x = ?h" for x
    using distinct_key_unique that mem by metis
  note only = this
  from d(1) obtain n where n: "refresh_tokens s1 = map (\<lambda>x. if x = row
      then row\<lparr>rt_revoked_at := Some now, rt_replaced_by_token_id := Some (rt_id n)\<rparr> else x) (refresh_tokens s) @ [n]"
    "rt_token_hash n = sha256 c fresh" by blast
  have "rt_revoked_at x = Some now \<and> rt_replaced_by_token_id x \<noteq> None \<and> rt_user_id x = us_id u"
    if x: "x \<in> set (refresh_tokens s1)" "rt_token_hash x = ?h" for x
  proof -
    have "x \<noteq> n" using x(2) n(2) assms(3) by auto
    with x(1) n(1) obtain y where y: "y \<in> set (refresh_tokens s)"
      "x = (if y = row then row\<lparr>rt_revoked_at := Some now, rt_replaced_by_token_id := Some (rt_id n)\<rparr> else y)" by auto
    have "y = row"
    proof (rule ccontr)
      assume "y \<noteq> row"
      with y(2) have "x = y" by simp
      with y(1) x(2) only \<open>y \<noteq> row\<close> show False by blast
    qed
    with y(2) d(2) show ?thesis by simp
  qed
  then have "spent ?h now (us_id u) s1" by (simp add: spent_def)
  with d(3) show ?thesis by simp
qed

text \<open>
  C15. A refresh token works once. After a refresh with it has succeeded, whatever happens to the
  sessions next, another refresh with it is an error. Within the grace window that error changes
  nothing; a later use of the token is reported as reuse, and in the state committed with that
  report no session of the user is alive.
\<close>

theorem refresh_token_works_once:
  assumes "sessions_ok s" and "refresh c cfg now tok ua ip fresh s = (Inr (u, pair), s1)"
    and "(session_step c (sha256 c tok))\<^sup>*\<^sup>* s1 s2" and "sha256 c fresh \<noteq> sha256 c tok"
    and "refresh c cfg now' tok ua' ip' fresh' s2 = (r, s3)"
  shows "(\<exists>e. r = Inl e) \<and> (now' \<le> now + seconds (refresh_reuse_grace_seconds cfg) \<longrightarrow> s3 = s2)
    \<and> (now + seconds (refresh_reuse_grace_seconds cfg) < now'
        \<and> (\<exists>t\<in>set (refresh_tokens s2). rt_token_hash t = sha256 c tok \<and> now' \<le> rt_expires_at t)
       \<longrightarrow> r = raise_error TokenReuseError
         \<and> (\<forall>t\<in>set (refresh_tokens s3). rt_user_id t = us_id u \<longrightarrow> rt_revoked_at t \<noteq> None))"
proof -
  let ?h = "sha256 c tok"
  from refreshed_is_spent [OF assms(1,2,4)]
  have "sessions_ok s1 \<and> spent ?h now (us_id u) s1" .
  with assms(3) have inv: "sessions_ok s2 \<and> spent ?h now (us_id u) s2"
    by (induction rule: rtranclp_induct) (auto dest: session_step_ok)
  then have old: "rt_revoked_at t = Some now \<and> rt_replaced_by_token_id t \<noteq> None \<and> rt_user_id t = us_id u"
    if "token_row c tok s2 = Inr (Some t)" for t using token_rowD [OF that] by (simp add: spent_def)
  have "(\<exists>e. r = Inl e) \<and> (now' \<le> now + seconds (refresh_reuse_grace_seconds cfg) \<longrightarrow> s3 = s2)"
  proof (cases "\<exists>t. token_row c tok s2 = Inr (Some t)")
    case False
    then show ?thesis using assms(5) by (auto simp: refresh_def split: sum.splits option.splits)
  next
    case True
    then obtain t where t: "token_row c tok s2 = Inr (Some t)" by blast
    from assms(5) old [OF t] show ?thesis by (auto simp: refresh_def t split: if_splits)
  qed
  moreover have "r = raise_error TokenReuseError \<and> (\<forall>t\<in>set (refresh_tokens s3). rt_user_id t = us_id u \<longrightarrow> rt_revoked_at t \<noteq> None)"
    if late: "now + seconds (refresh_reuse_grace_seconds cfg) < now'"
      and t: "t \<in> set (refresh_tokens s2)" "rt_token_hash t = ?h" "now' \<le> rt_expires_at t" for t
  proof -
    have found: "token_row c tok s2 = Inr (Some t)" using token_row_found inv t(1,2) by blast
    have "r = raise_error TokenReuseError
        \<and> s3 = user_audit USER_TOKEN_REUSE_DETECTED (us_id u) None (revoke_chain now' (us_id u) s2)"
      using assms(5) old [OF found] t(3) late by (simp add: refresh_def found split: if_splits)
    moreover from this have "refresh_tokens s3 = refresh_tokens (revoke_chain now' (us_id u) s2)" "next_uuid s2 \<le> next_uuid s3"
      by simp_all
    ultimately show ?thesis using revoked_chain_ok(3) inv by blast
  qed
  ultimately show ?thesis by blast
qed

section \<open>Accounts\<close>

definition accounts_ok :: "'a acct_db_scheme \<Rightarrow> bool" where
  "accounts_ok s \<longleftrightarrow> distinct (map us_id (users s)) \<and> distinct (map (\<lambda>u. map lower_char (us_email u)) (users s))
     \<and> (\<forall>u\<in>set (users s). us_id u < next_uuid s)"

text \<open>Argon2: a stored text is verified by the password it was made from and by no other.\<close>

definition argon_law :: "crypto \<Rightarrow> bool" where
  "argon_law c \<longleftrightarrow> (\<forall>salt p q. argon_verify c (argon_hash c salt p) q \<longleftrightarrow> p = q)"

lemma user_by_email_found:
  assumes "accounts_ok s" and "u \<in> set (users s)" and "map lower_char (us_email u) = map lower_char e"
  shows "user_by_email e s = Inr (Some u)"
proof -
  have "distinct (map (\<lambda>u. map lower_char (us_email u)) (users s))" using assms(1) by (simp add: accounts_ok_def)
  from distinct_key_filter [OF this assms(2,3)] show ?thesis by (simp add: user_by_email_def one_or_none_def citext_eq_def)
qed

lemma user_by_emailD:
  "user_by_email e s = Inr (Some u) \<Longrightarrow> u \<in> set (users s) \<and> map lower_char (us_email u) = map lower_char e"
  by (auto simp: user_by_email_def citext_eq_def dest!: one_or_none_SomeD)

lemma save_user_map:
  assumes "accounts_ok s" and "u \<in> set (users s)" and "us_id u' = us_id u"
  shows "users (save_user u' s) = map (\<lambda>x. if x = u then u' else x) (users s)"
proof -
  have "distinct (map us_id (users s))" using assms(1) by (simp add: accounts_ok_def)
  then have "x = u" if "x \<in> set (users s)" "us_id x = us_id u" for x
    using distinct_key_unique that assms(2) by metis
  then show ?thesis using assms(3) by (auto simp: save_user_def update_where_def)
qed

lemma save_user_ok:
  assumes "accounts_ok s" and "u \<in> set (users s)" and "us_id u' = us_id u" "us_email u' = us_email u"
    and "users s' = users (save_user u' s)" "next_uuid s \<le> next_uuid s'"
  shows "accounts_ok s'" and "u' \<in> set (users s')"
proof -
  note m = save_user_map [OF assms(1-3)]
  have "map us_id (users s') = map us_id (users s)" "map (\<lambda>u. map lower_char (us_email u)) (users s') = map (\<lambda>u. map lower_char (us_email u)) (users s)"
    using assms(3,4) by (simp_all add: assms(5) m if_distrib cong: if_cong)
  then have "accounts_ok s' \<longleftrightarrow> distinct (map us_id (users s)) \<and> distinct (map (\<lambda>u. map lower_char (us_email u)) (users s))
      \<and> (\<forall>i\<in>set (map us_id (users s)). i < next_uuid s')"
    unfolding accounts_ok_def by (metis (no_types, lifting) imageE image_eqI list.set_map)
  then show "accounts_ok s'" using assms(1,6) by (auto simp: accounts_ok_def intro: less_le_trans)
  show "u' \<in> set (users s')" using assms(2) by (auto simp: assms(5) m)
qed

text \<open>
  A password reset ends every session of the account, uses up its token, and leaves exactly one
  password with which the account can be signed in to, the new one.
\<close>

theorem password_reset_takes_over:
  assumes "argon_law c" and "accounts_ok s" and "distinct (map pt_token_hash (password_reset_tokens s))"
    and "reset_password c now token salt pw s = Inr (u, s1)"
  shows "(\<forall>t\<in>set (refresh_tokens s1). rt_user_id t = us_id u \<longrightarrow> rt_revoked_at t \<noteq> None)
    \<and> reset_password c later token salt' pw' s1 = raise_error AuthenticationError
    \<and> (us_is_active u \<longrightarrow> (\<exists>r. login c repr_of cfg grant later (us_email u) attempt s1 = Inr r) = (attempt = pw))"
proof -
  from reset_passwordD [OF assms(4)] obtain row v where
      row: "one_or_none MultipleResultsFound (usable_reset c now token) (password_reset_tokens s) = Inr (Some row)"
      and v: "get_user (pt_user_id row) s = Some v" and u: "u = v\<lparr>us_password_hash := Some (hash_password c salt pw)\<rparr>"
      and rt: "refresh_tokens s1 = refresh_tokens (revoke_chain now (us_id v) s)" and us: "users s1 = users (save_user u s)"
      and nx: "next_uuid s \<le> next_uuid s1"
      and pt: "password_reset_tokens s1 = update_where (\<lambda>x. pt_id x = pt_id row) (\<lambda>_. row\<lparr>pt_used_at := Some now\<rparr>)
        (password_reset_tokens s)" by blast
  have "t \<in> set (refresh_tokens s1) \<Longrightarrow> rt_user_id t = us_id u \<Longrightarrow> rt_revoked_at t \<noteq> None" for t
    by (auto simp: rt revoke_chain_map u split: if_splits)
  moreover have "reset_password c later token salt' pw' s1 = raise_error AuthenticationError"
  proof -
    from one_or_none_SomeD [OF row] have r: "row \<in> set (password_reset_tokens s)" "pt_token_hash row = sha256 c token"
      by (simp_all add: usable_reset_def)
    have "\<not> usable_reset c later token x" if x: "x \<in> set (password_reset_tokens s1)" for x
    proof (cases "x = row\<lparr>pt_used_at := Some now\<rparr>")
      case False
      with x have "x \<in> set (password_reset_tokens s)" "pt_id x \<noteq> pt_id row"
        by (auto simp: pt update_where_def split: if_splits)
      then show ?thesis using distinct_key_unique [OF assms(3) _ r(1)] r(2) by (auto simp: usable_reset_def)
    qed (simp add: usable_reset_def)
    then have "one_or_none MultipleResultsFound (usable_reset c later token) (password_reset_tokens s1) = Inr None"
      by (simp add: one_or_none_None)
    then show ?thesis by (simp add: reset_password_def)
  qed
  moreover have "(\<exists>r. login c repr_of cfg grant later (us_email u) attempt s1 = Inr r) = (attempt = pw)" if "us_is_active u"
  proof -
    have mem: "v \<in> set (users s)" using v by (auto simp: get_user_def dest: first_row_SomeD)
    have "us_id u = us_id v" "us_email u = us_email v" by (simp_all add: u)
    note ok = save_user_ok [OF assms(2) mem this us nx]
    have "user_by_email (us_email u) s1 = Inr (Some u)" by (rule user_by_email_found [OF ok refl])
    then show ?thesis using that assms(1)
      by (auto simp: login_def sso_only_account_def u verify_password_def hash_password_def argon_law_def)
  qed
  ultimately show ?thesis by blast
qed

lemma signed_in_users:
  assumes "accounts_ok s" and "signed_in now d u s = (w, s')" and "v \<in> set (users s)" and "us_id u = us_id v"
  shows "users s' = map (\<lambda>x. if x = v then w else x) (users s) \<and> w = u\<lparr>us_last_login_at := Some now\<rparr>"
proof -
  have "users s' = users (save_user w s)" "w = u\<lparr>us_last_login_at := Some now\<rparr>"
    using assms(2) by (auto simp: signed_in_def Let_def)
  then show ?thesis using save_user_map [OF assms(1,3), of w] assms(4) by simp
qed

text \<open>
  C29. Single sign-on signs in to an account only when that account is already linked to the very
  identity, or when the provider vouches for the account's email address; otherwise it creates a
  new account, for an address nobody has, without password and without privileges. No other account
  changes, and the one signed in to keeps its password and its privileges.
\<close>

theorem sso_never_takes_over_unverified:
  assumes "accounts_ok s" and "link_or_create_oidc_user repr_of now claims provider s = Inr (u, s')"
  shows "(\<exists>v\<in>set (users s). users s' = map (\<lambda>x. if x = v then u else x) (users s)
        \<and> us_id u = us_id v \<and> us_email u = us_email v \<and> us_password_hash u = us_password_hash v
        \<and> us_is_platform_admin u = us_is_platform_admin v \<and> us_is_active v
        \<and> (us_identity_provider v = provider \<and> us_provider_subject v = Some (claim_text repr_of ''sub'' claims)
          \<or> map_of claims ''email_verified'' = Some (JBool True)
            \<and> map lower_char (us_email v) = map lower_char (map lower_char (strip (claim_text repr_of ''email'' claims)))))
    \<or> users s' = users s @ [u] \<and> us_password_hash u = None \<and> \<not> us_is_platform_admin u \<and> us_id u = next_uuid s
      \<and> us_identity_provider u = provider \<and> us_provider_subject u = Some (claim_text repr_of ''sub'' claims)
      \<and> (\<forall>v\<in>set (users s). map lower_char (us_email v) \<noteq> map lower_char (us_email u))"
proof -
  let ?sub = "claim_text repr_of ''sub'' claims" and ?email = "map lower_char (strip (claim_text repr_of ''email'' claims))"
  note signed = signed_in_users [OF assms(1)]
  from assms(2) obtain by_subject where
      sub: "one_or_none MultipleResultsFound (\<lambda>u. us_identity_provider u = provider \<and> us_provider_subject u = Some ?sub)
        (users s) = Inr by_subject"
    by (auto simp: link_or_create_oidc_user_def Let_def bind_r_eq_Inr)
  show ?thesis
  proof (cases by_subject)
    case (Some v)
    then have v: "v \<in> set (users s)" "us_identity_provider v = provider" "us_provider_subject v = Some ?sub"
      using one_or_none_SomeD sub by fastforce+
    from assms(2) sub Some have "signed_in now [(''via'', JStr provider)] v s = (u, s')" "us_is_active v"
      by (simp_all add: link_or_create_oidc_user_def Let_def bind_r_eq_Inr)
    from signed [OF this(1) v(1) refl] this(2) v show ?thesis by (intro disjI1 bexI [of _ v]) simp_all
  next
    case None
    with assms(2) sub obtain by_email where
        em: "(if ?email \<noteq> [] then user_by_email ?email s else Inr None) = Inr by_email"
      by (auto simp: link_or_create_oidc_user_def Let_def bind_r_eq_Inr)
    note run = assms(2) [unfolded link_or_create_oidc_user_def Let_def sub None em bind_r_simps option.case]
    show ?thesis
    proof (cases "?email \<noteq> [] \<and> map_of claims ''email_verified'' = Some (JBool True) \<and> by_email \<noteq> None")
      case True
      then obtain v where be: "by_email = Some v" "user_by_email ?email s = Inr (Some v)" using em by auto
      note v = user_by_emailD [OF be(2)]
      from run True be(1) have "signed_in now [(''via'', JStr provider), (''linked'', JStr ''verified_email'')]
          (v\<lparr>us_identity_provider := provider, us_provider_subject := Some ?sub\<rparr>) s = (u, s')" "us_is_active v"
        by (simp_all add: bind_r_eq_Inr)
      from signed [OF this(1), of v] this(2) v True show ?thesis by (intro disjI1 bexI [of _ v]) simp_all
    next
      case False
      with run have new: "?email \<noteq> []" "by_email = None" "u = new_user ?email None (us_display_name u) provider (Some ?sub) (next_uuid s)"
          "users s' = users s @ [u]"
        by (auto simp: bind_r_eq_Inr Let_def new_user_def)
      then have "user_by_email ?email s = Inr None" using em by simp
      then have "\<forall>v\<in>set (users s). map lower_char (us_email v) \<noteq> map lower_char ?email"
        by (simp add: user_by_email_def one_or_none_None citext_eq_def)
      with new(3,4) show ?thesis by (intro disjI2) (metis new_user_def user.select_convs)
    qed
  qed
qed

section \<open>A concrete account\<close>

text \<open>The user of the demonstration organization, signed in once, with a reset token sent.\<close>

definition demo_crypto :: crypto where
  "demo_crypto = \<lparr>sha256 = id, argon_hash = (\<lambda>salt p. p), argon_verify = (\<lambda>h p. h = p),
     jwt_encode = (\<lambda>p k. ''jwt''), jwt_decode = (\<lambda>t k i req now. None)\<rparr>"

definition demo_identity :: identity_settings where
  "demo_identity = \<lparr>identity_provider = ''local'', allow_password_grant = False, access_token_ttl_seconds = 900,
     refresh_token_ttl_seconds = 3600, refresh_reuse_grace_seconds = 10, secret_key = ''k''\<rparr>"

definition demo_ident :: ident_db where
  "demo_ident = auth_db.extend demo_auth
     \<lparr>refresh_tokens = [\<lparr>rt_id = 11, rt_user_id = 5, rt_token_hash = ''one'', rt_organization_id = None,
        rt_expires_at = seconds 3600, rt_revoked_at = None, rt_replaced_by_token_id = None, rt_user_agent = None,
        rt_ip = None, rt_created_at = 0\<rparr>],
      password_reset_tokens = [\<lparr>pt_id = 12, pt_user_id = 5, pt_token_hash = ''reset'', pt_expires_at = seconds 1800,
        pt_used_at = None, pt_created_at = 0\<rparr>]\<rparr>"

lemma demo_ident_fields [simp]:
  "refresh_tokens demo_ident = [\<lparr>rt_id = 11, rt_user_id = 5, rt_token_hash = ''one'', rt_organization_id = None,
        rt_expires_at = seconds 3600, rt_revoked_at = None, rt_replaced_by_token_id = None, rt_user_agent = None,
        rt_ip = None, rt_created_at = 0\<rparr>]"
  "password_reset_tokens demo_ident = [\<lparr>pt_id = 12, pt_user_id = 5, pt_token_hash = ''reset'', pt_expires_at = seconds 1800,
        pt_used_at = None, pt_created_at = 0\<rparr>]"
  "users demo_ident = [demo_user]" "next_uuid demo_ident = 20"
  by (simp_all add: demo_ident_def demo_auth_def demo_usage_def demo_ents_def demo_sub_simps sub_db.defs ent_db.defs
      usage_db.defs acct_db.defs auth_db.defs)

lemma demo_accounts_ok [simp]: "accounts_ok demo_ident"
  by (simp add: accounts_ok_def demo_user_def)

theorem refresh_token_works_once_witness:
  "\<exists>u pair s1 s3. refresh demo_crypto demo_identity 0 ''one'' None None ''two'' demo_ident = (Inr (u, pair), s1)
     \<and> refresh demo_crypto demo_identity (seconds 60) ''one'' None None ''three'' s1 = (raise_error TokenReuseError, s3)
     \<and> (\<forall>t\<in>set (refresh_tokens s3). rt_user_id t = us_id u \<longrightarrow> rt_revoked_at t \<noteq> None)"
proof -
  have ok: "sessions_ok demo_ident" by (simp add: sessions_ok_def)
  obtain pair s1 where one: "refresh demo_crypto demo_identity 0 ''one'' None None ''two'' demo_ident = (Inr (demo_user, pair), s1)"
    "\<exists>t\<in>set (refresh_tokens s1). rt_token_hash t = ''one'' \<and> rt_expires_at t = seconds 3600"
    by (simp add: refresh_def rotate_def token_row_def one_or_none_def get_user_def first_row_def demo_user_def
        issue_tokens_def save_token_def update_where_def seconds_def Let_def demo_crypto_def)
  obtain r s3 where two: "refresh demo_crypto demo_identity (seconds 60) ''one'' None None ''three'' s1 = (r, s3)" by fastforce
  have "sha256 demo_crypto ''two'' \<noteq> sha256 demo_crypto ''one''" "sha256 demo_crypto ''one'' = ''one''" by (simp_all add: demo_crypto_def)
  from refresh_token_works_once [OF ok one(1) rtranclp.rtrancl_refl this(1) two] this(2) one two show ?thesis
    by (force simp: demo_identity_def seconds_def)
qed

theorem password_reset_takes_over_witness:
  "\<exists>u s1. reset_password demo_crypto 0 ''reset'' ''salt'' ''newpass'' demo_ident = Inr (u, s1)
     \<and> (\<forall>t\<in>set (refresh_tokens s1). rt_user_id t = us_id u \<longrightarrow> rt_revoked_at t \<noteq> None)
     \<and> (\<exists>r. login demo_crypto (\<lambda>_. []) demo_identity (\<lambda>_ _. Inr None) 1 (us_email u) ''newpass'' s1 = Inr r)"
proof -
  have law: "argon_law demo_crypto" by (simp add: argon_law_def demo_crypto_def)
  obtain u s1 where run: "reset_password demo_crypto 0 ''reset'' ''salt'' ''newpass'' demo_ident = Inr (u, s1)" "us_is_active u"
    by (simp add: reset_password_def one_or_none_def usable_reset_def require_account_def get_user_def first_row_def
        demo_user_def demo_crypto_def seconds_def Let_def)
  from password_reset_takes_over [OF law demo_accounts_ok _ run(1)] run show ?thesis by simp
qed

theorem sso_never_takes_over_unverified_witness:
  "\<exists>u s'. link_or_create_oidc_user (\<lambda>_. []) 0 [(''sub'', JStr ''k1''), (''email'', JStr ''ANN@x.io''),
       (''email_verified'', JBool True)] ''keycloak'' demo_ident = Inr (u, s') \<and> us_id u = 5
     \<and> (\<nexists>r. link_or_create_oidc_user (\<lambda>_. []) 0 [(''sub'', JStr ''k1''), (''email'', JStr ''ANN@x.io'')]
          ''keycloak'' demo_ident = Inr r)"
proof -
  let ?c = "[(''sub'', JStr ''k1''), (''email'', JStr ''ANN@x.io''), (''email_verified'', JBool True)]"
  have em: "user_by_email ''ann@x.io'' demo_ident = Inr (Some demo_user)"
    by (rule user_by_email_found) (simp_all add: demo_user_def)
  have low: "map lower_char (strip ''ANN@x.io'') = ''ann@x.io''" by code_simp
  have linked: "one_or_none MultipleResultsFound (\<lambda>u. us_identity_provider u = ''keycloak'' \<and> us_provider_subject u = Some ''k1'')
      (users demo_ident) = Inr None" by (simp add: one_or_none_def demo_user_def)
  obtain u s' where run: "link_or_create_oidc_user (\<lambda>_. []) 0 ?c ''keycloak'' demo_ident = Inr (u, s')" "us_id u = 5"
    using em low linked by (simp add: link_or_create_oidc_user_def claim_text_def truthy_text_def signed_in_def Let_def demo_user_def)
  moreover have "\<nexists>r. link_or_create_oidc_user (\<lambda>_. []) 0 [(''sub'', JStr ''k1''), (''email'', JStr ''ANN@x.io'')]
      ''keycloak'' demo_ident = Inr r"
    using em low linked by (simp add: link_or_create_oidc_user_def claim_text_def truthy_text_def Let_def)
  ultimately show ?thesis using sso_never_takes_over_unverified [OF demo_accounts_ok run(1)] by blast
qed

end
