(* ===== verification/Repo.thy ===== *)
theory Repo
  imports Scoped
begin

text \<open>
  \<open>core/repository.py\<close> and \<open>core/pagination.py\<close>: the tenant-filtered repository every tenant
  entity is read and written through, its unscoped counterpart, and the pages of a list. A model
  class is described by its primary key, its \<open>organization_id\<close> and its other columns; a filter is
  a column name with the value asked for.
\<close>

section \<open>Model classes and filters\<close>

record 'r model_class =
  mc_id :: "'r \<Rightarrow> uuid"
  mc_org :: "'r \<Rightarrow> uuid option"
  mc_stamp :: "uuid \<Rightarrow> 'r \<Rightarrow> 'r"  \<comment> \<open>the object with \<open>organization_id\<close> assigned\<close>
  mc_columns :: "(string \<times> ('r \<Rightarrow> json)) list"

type_synonym filters = "(string \<times> json option) list"

text \<open>\<open>_apply_filters\<close>: a filter that is \<open>None\<close> is skipped, an unknown column raises.\<close>

fun apply_filters :: "'r model_class \<Rightarrow> filters \<Rightarrow> 'r list \<Rightarrow> error + 'r list" where
  "apply_filters m [] rows = Inr rows"
| "apply_filters m ((attr, None) # fs) rows = apply_filters m fs rows"
| "apply_filters m ((attr, Some v) # fs) rows =
     (case map_of (mc_columns m) attr of
        None \<Rightarrow> Inl ValueError
      | Some col \<Rightarrow> apply_filters m fs (filter (\<lambda>r. col r = v) rows))"

section \<open>The tenant-filtered repository\<close>

text \<open>\<open>explicit\<close> is the \<open>tenant_id\<close> the repository was built with, \<open>ctx\<close> the tenant of the context.\<close>

definition repo_tenant_id :: "uuid option \<Rightarrow> tenant_context option \<Rightarrow> error + uuid" where
  "repo_tenant_id explicit ctx =
     (case explicit of Some i \<Rightarrow> Inr i
      | None \<Rightarrow>
          (case ctx of
             None \<Rightarrow> raise_error TenantViolationError
           | Some c \<Rightarrow> if tc_is_platform c then raise_error TenantViolationError else Inr (tc_organization_id c)))"

text \<open>The rows a statement sees; \<open>org\<close> is an \<open>organization_id\<close> filter given by the caller.\<close>

definition repo_scoped ::
  "'r model_class \<Rightarrow> uuid option \<Rightarrow> tenant_context option \<Rightarrow> uuid option \<Rightarrow> 'r list \<Rightarrow> error + 'r list" where
  "repo_scoped m explicit ctx org rows =
     (case org of
        Some i \<Rightarrow> Inr (filter (\<lambda>r. mc_org m r = Some i) rows)
      | None \<Rightarrow>
          (let c = (if explicit = None then ctx else None)
           in if (case c of Some x \<Rightarrow> tc_is_platform x | None \<Rightarrow> False) then Inr rows
              else bind_r (repo_tenant_id explicit ctx) (\<lambda>i. Inr (filter (\<lambda>r. mc_org m r = Some i) rows))))"

definition repo_get ::
  "'r model_class \<Rightarrow> uuid option \<Rightarrow> tenant_context option \<Rightarrow> uuid \<Rightarrow> 'r list \<Rightarrow> error + 'r option" where
  "repo_get m explicit ctx i rows =
     bind_r (repo_scoped m explicit ctx None rows) (\<lambda>visible.
       one_or_none MultipleResultsFound (\<lambda>r. mc_id m r = i) visible)"

definition repo_get_or_404 ::
  "'r model_class \<Rightarrow> uuid option \<Rightarrow> tenant_context option \<Rightarrow> uuid \<Rightarrow> 'r list \<Rightarrow> error + 'r" where
  "repo_get_or_404 m explicit ctx i rows =
     bind_r (repo_get m explicit ctx i rows) (\<lambda>obj.
       case obj of None \<Rightarrow> raise_error NotFoundError | Some r \<Rightarrow> Inr r)"

definition repo_query ::
  "'r model_class \<Rightarrow> uuid option \<Rightarrow> tenant_context option \<Rightarrow> uuid option \<Rightarrow> filters \<Rightarrow> 'r list \<Rightarrow> error + 'r list" where
  "repo_query m explicit ctx org fs rows =
     bind_r (repo_scoped m explicit ctx org rows) (apply_filters m fs)"

definition repo_list ::
  "'r model_class \<Rightarrow> uuid option \<Rightarrow> tenant_context option \<Rightarrow> nat \<Rightarrow> nat \<Rightarrow> uuid option \<Rightarrow> filters \<Rightarrow> 'r list \<Rightarrow> error + 'r list" where
  "repo_list m explicit ctx n offset org fs rows =
     bind_r (repo_query m explicit ctx org fs rows) (\<lambda>found. Inr (take n (drop offset (sort_key (mc_id m) found))))"

definition repo_count ::
  "'r model_class \<Rightarrow> uuid option \<Rightarrow> tenant_context option \<Rightarrow> uuid option \<Rightarrow> filters \<Rightarrow> 'r list \<Rightarrow> error + nat" where
  "repo_count m explicit ctx org fs rows =
     bind_r (repo_query m explicit ctx org fs rows) (\<lambda>found. Inr (length found))"

definition repo_exists ::
  "'r model_class \<Rightarrow> uuid option \<Rightarrow> tenant_context option \<Rightarrow> uuid option \<Rightarrow> filters \<Rightarrow> 'r list \<Rightarrow> error + bool" where
  "repo_exists m explicit ctx org fs rows =
     bind_r (repo_count m explicit ctx org fs rows) (\<lambda>n. Inr (0 < n))"

definition repo_first ::
  "'r model_class \<Rightarrow> uuid option \<Rightarrow> tenant_context option \<Rightarrow> uuid option \<Rightarrow> filters \<Rightarrow> 'r list \<Rightarrow> error + 'r option" where
  "repo_first m explicit ctx org fs rows =
     bind_r (repo_query m explicit ctx org fs rows) (\<lambda>found.
       Inr (case found of [] \<Rightarrow> None | r # _ \<Rightarrow> Some r))"

definition repo_add ::
  "'r model_class \<Rightarrow> uuid option \<Rightarrow> tenant_context option \<Rightarrow> 'r \<Rightarrow> 'r list \<Rightarrow> error + ('r \<times> 'r list)" where
  "repo_add m explicit ctx obj rows =
     bind_r (repo_tenant_id explicit ctx) (\<lambda>i.
     bind_r (guard_r (mc_org m obj = None \<or> mc_org m obj = Some i) (Domain TenantViolationError [])) (\<lambda>_.
       let r = mc_stamp m i obj in Inr (r, rows @ [r])))"

definition repo_add_many ::
  "'r model_class \<Rightarrow> uuid option \<Rightarrow> tenant_context option \<Rightarrow> 'r list \<Rightarrow> 'r list \<Rightarrow> error + 'r list" where
  "repo_add_many m explicit ctx objs rows =
     fold_r (\<lambda>obj rs. bind_r (repo_add m explicit ctx obj rs) (\<lambda>(_, rs'). Inr rs')) objs rows"

definition repo_delete :: "'r model_class \<Rightarrow> 'r \<Rightarrow> 'r list \<Rightarrow> 'r list" where
  "repo_delete m obj rows = delete_where (\<lambda>r. mc_id m r = mc_id m obj) rows"

definition repo_delete_where ::
  "'r model_class \<Rightarrow> uuid option \<Rightarrow> tenant_context option \<Rightarrow> uuid option \<Rightarrow> filters \<Rightarrow> 'r list \<Rightarrow> error + (nat \<times> 'r list)" where
  "repo_delete_where m explicit ctx org fs rows =
     bind_r (repo_query m explicit ctx org fs rows) (\<lambda>found.
       Inr (length found, delete_where (\<lambda>r. mc_id m r \<in> mc_id m ` set found) rows))"

section \<open>The unscoped repository\<close>

definition plain_get :: "'r model_class \<Rightarrow> uuid \<Rightarrow> 'r list \<Rightarrow> error + 'r option" where
  "plain_get m i rows = one_or_none MultipleResultsFound (\<lambda>r. mc_id m r = i) rows"

definition plain_get_or_404 :: "'r model_class \<Rightarrow> uuid \<Rightarrow> 'r list \<Rightarrow> error + 'r" where
  "plain_get_or_404 m i rows =
     bind_r (plain_get m i rows) (\<lambda>obj. case obj of None \<Rightarrow> raise_error NotFoundError | Some r \<Rightarrow> Inr r)"

definition plain_list :: "'r model_class \<Rightarrow> nat \<Rightarrow> nat \<Rightarrow> filters \<Rightarrow> 'r list \<Rightarrow> error + 'r list" where
  "plain_list m n offset fs rows = bind_r (apply_filters m fs rows) (\<lambda>found. Inr (take n (drop offset found)))"

definition plain_count :: "'r model_class \<Rightarrow> filters \<Rightarrow> 'r list \<Rightarrow> error + nat" where
  "plain_count m fs rows = bind_r (apply_filters m fs rows) (\<lambda>found. Inr (length found))"

definition plain_first :: "'r model_class \<Rightarrow> filters \<Rightarrow> 'r list \<Rightarrow> error + 'r option" where
  "plain_first m fs rows =
     bind_r (apply_filters m fs rows) (\<lambda>found. Inr (case found of [] \<Rightarrow> None | r # _ \<Rightarrow> Some r))"

definition plain_add :: "'r \<Rightarrow> 'r list \<Rightarrow> 'r \<times> 'r list" where
  "plain_add obj rows = (obj, rows @ [obj])"

section \<open>Pages\<close>

definition MAX_PAGE_LIMIT :: nat where "MAX_PAGE_LIMIT = 100"

definition DEFAULT_PAGE_LIMIT :: nat where "DEFAULT_PAGE_LIMIT = 50"

record page_params =
  pp_limit :: nat
  pp_offset :: nat

text \<open>The bounds \<open>Field\<close> and \<open>Query\<close> check.\<close>

definition page_ok :: "page_params \<Rightarrow> bool" where
  "page_ok p \<longleftrightarrow> 1 \<le> pp_limit p \<and> pp_limit p \<le> MAX_PAGE_LIMIT"

text \<open>The total of the \<open>X-Total-Count\<close> header and the rows of the page.\<close>

definition paginate :: "'r list \<Rightarrow> page_params \<Rightarrow> nat \<times> 'r list" where
  "paginate rows p = (length rows, take (pp_limit p) (drop (pp_offset p) rows))"

definition paginate_in_memory :: "'r list \<Rightarrow> page_params \<Rightarrow> nat \<times> 'r list" where
  "paginate_in_memory items p = (length items, take (pp_limit p) (drop (pp_offset p) items))"

section \<open>A tenant sees and changes its own rows only\<close>

definition rows_of_tenant :: "'r model_class \<Rightarrow> uuid \<Rightarrow> 'r list \<Rightarrow> 'r list" where
  "rows_of_tenant m i rows = filter (\<lambda>r. mc_org m r = Some i) rows"

lemma apply_filters_subset: "apply_filters m fs rows = Inr found \<Longrightarrow> set found \<subseteq> set rows"
  by (induction m fs rows rule: apply_filters.induct) (auto split: option.splits)

text \<open>A request of a tenant: a context that is not the platform's, and no explicit organization.\<close>

lemma repo_scoped_tenant:
  "ctx = Some c \<Longrightarrow> \<not> tc_is_platform c \<Longrightarrow>
     repo_scoped m None ctx None rows = Inr (rows_of_tenant m (tc_organization_id c) rows)"
  by (simp add: repo_scoped_def repo_tenant_id_def rows_of_tenant_def)

lemma repo_query_tenant:
  "\<not> tc_is_platform c \<Longrightarrow>
     repo_query m None (Some c) None fs rows = apply_filters m fs (rows_of_tenant m (tc_organization_id c) rows)"
  by (simp add: repo_query_def repo_scoped_tenant)

lemma rows_of_tenant_idem [simp]: "rows_of_tenant m i (rows_of_tenant m i rows) = rows_of_tenant m i rows"
  by (simp add: rows_of_tenant_def)

lemma repo_reads_tenant:
  assumes "\<not> tc_is_platform c"
  shows "repo_get m None (Some c) i rows = plain_get m i (rows_of_tenant m (tc_organization_id c) rows)"
    and "repo_count m None (Some c) None fs rows = plain_count m fs (rows_of_tenant m (tc_organization_id c) rows)"
    and "repo_first m None (Some c) None fs rows = plain_first m fs (rows_of_tenant m (tc_organization_id c) rows)"
    and "repo_list m None (Some c) n off None fs rows
      = bind_r (apply_filters m fs (rows_of_tenant m (tc_organization_id c) rows))
          (\<lambda>found. Inr (take n (drop off (sort_key (mc_id m) found))))"
  using assms
  by (simp_all add: repo_get_def plain_get_def repo_count_def plain_count_def repo_first_def plain_first_def
      repo_list_def repo_query_tenant repo_scoped_tenant)

lemma repo_add_tenant:
  assumes "repo_add m None (Some c) obj rows = Inr (r, rows')" and "mc_org m (mc_stamp m (tc_organization_id c) obj) = Some (tc_organization_id c)"
  shows "rows' = rows @ [r]" and "mc_org m r = Some (tc_organization_id c)"
    and "mc_org m obj = None \<or> mc_org m obj = Some (tc_organization_id c)" and "\<not> tc_is_platform c"
  using assms by (auto simp: repo_add_def repo_tenant_id_def bind_r_eq_Inr Let_def split: if_splits)

lemma repo_delete_where_tenant:
  assumes c: "\<not> tc_is_platform c" and ids: "distinct (map (mc_id m) rows)"
    and del: "repo_delete_where m None (Some c) None fs rows = Inr (n, rows')" and other: "j \<noteq> tc_organization_id c"
  shows "rows_of_tenant m j rows' = rows_of_tenant m j rows"
proof -
  from del c obtain found where found: "apply_filters m fs (rows_of_tenant m (tc_organization_id c) rows) = Inr found"
    and rows': "rows' = delete_where (\<lambda>r. mc_id m r \<in> mc_id m ` set found) rows"
    by (auto simp: repo_delete_where_def repo_query_tenant bind_r_eq_Inr)
  have "mc_org m r = Some (tc_organization_id c)" if "r \<in> set rows" "mc_id m r \<in> mc_id m ` set found" for r
  proof -
    from that(2) obtain r' where r': "r' \<in> set found" "mc_id m r' = mc_id m r" by auto
    with apply_filters_subset [OF found] have "r' \<in> set rows" "mc_org m r' = Some (tc_organization_id c)"
      by (auto simp: rows_of_tenant_def)
    with distinct_key_unique [OF ids that(1)] r'(2) show ?thesis by metis
  qed
  with other show ?thesis by (auto simp: rows_of_tenant_def rows' delete_where_def filter_filter intro!: filter_cong)
qed


definition demo_class :: "(uuid \<times> uuid option \<times> string) model_class" where
  "demo_class = \<lparr>mc_id = fst, mc_org = (\<lambda>(_, org, _). org), mc_stamp = (\<lambda>i (k, _, n). (k, Some i, n)),
     mc_columns = [(''name'', \<lambda>(_, _, n). JStr n)]\<rparr>"


text \<open>
  The pages of a list, asked for one after the other, are the list: no row is repeated or skipped
  as long as the list does not change, and every page carries the same total.
\<close>

lemma pages_cover_list:
  "0 < n \<Longrightarrow> length rows \<le> k * n \<Longrightarrow>
     concat (map (\<lambda>i. snd (paginate rows \<lparr>pp_limit = n, pp_offset = i * n\<rparr>)) [0..<k]) = rows"
proof (induction k arbitrary: rows)
  case (Suc k)
  have "concat (map (\<lambda>i. snd (paginate rows \<lparr>pp_limit = n, pp_offset = i * n\<rparr>)) [0..<Suc k])
      = take n rows @ concat (map (\<lambda>i. snd (paginate (drop n rows) \<lparr>pp_limit = n, pp_offset = i * n\<rparr>)) [0..<k])"
    unfolding upt_conv_Cons [OF zero_less_Suc] map_Suc_upt [symmetric]
    by (simp add: paginate_def comp_def add.commute)
  also have "\<dots> = rows" using Suc.prems Suc.IH [of "drop n rows"] by simp
  finally show ?case .
qed (simp add: paginate_def)

end
