(* ===== verification/Access.thy ===== *)
theory Access
  imports Identity Repo
begin

text \<open>
  Who a request acts for and what it may do (\<open>identity/dependencies.py\<close>, \<open>tenancy/dependencies.py\<close>,
  \<open>authorization/dependencies.py\<close>, \<open>api_keys/\<close>): bearer tokens and API keys, the organization of the
  request, the permission gate, and the handlers of the member, role and key routes behind it.
\<close>

section \<open>API keys\<close>

record api_key =
  ak_id :: uuid
  ak_organization_id :: uuid
  ak_name :: string
  ak_prefix :: string
  ak_key_hash :: string
  ak_scopes :: "string list"
  ak_expires_at :: "datetime option"
  ak_last_used_at :: "datetime option"
  ak_revoked_at :: "datetime option"
  ak_created_by_user_id :: "uuid option"
  ak_created_at :: datetime

definition ak_is_active :: "datetime \<Rightarrow> api_key \<Rightarrow> bool" where
  "ak_is_active now k \<longleftrightarrow> ak_revoked_at k = None
     \<and> (case ak_expires_at k of None \<Rightarrow> True | Some t \<Rightarrow> now < t)"

record access_db = ident_db +
  api_keys :: "api_key list"

definition KEY_PREFIX :: string where "KEY_PREFIX = ''sk_''"
definition PREFIX_DISPLAY_LENGTH :: nat where "PREFIX_DISPLAY_LENGTH = 8"

definition key_scopes :: "string list \<Rightarrow> string set option \<Rightarrow> error + string list" where
  "key_scopes scopes creator_keys =
     bind_r (unknown_permissions scopes) (\<lambda>_.
       case creator_keys of
         None \<Rightarrow> Inr scopes
       | Some ks \<Rightarrow>
           let wanted = (if scopes = [] then sorted_list_of_set ks else scopes);
               exceeding = filter (\<lambda>k. k \<notin> ks) wanted
           in bind_r (guard_r (exceeding = []) (Domain PermissionDeniedError
                [(''exceeds_creator'', JList (map JStr (sorted_set exceeding)))])) (\<lambda>_. Inr wanted))"

definition create_key ::
  "crypto \<Rightarrow> datetime \<Rightarrow> uuid \<Rightarrow> string \<Rightarrow> string list \<Rightarrow> int option \<Rightarrow> uuid option \<Rightarrow> string set option \<Rightarrow> string
    \<Rightarrow> 'a access_db_scheme \<Rightarrow> error + ((api_key \<times> string) \<times> 'a access_db_scheme)" where
  "create_key c now org name scopes expires_in_days created_by creator_keys fresh s =
     bind_r (key_scopes scopes creator_keys) (\<lambda>granted.
       let plaintext = KEY_PREFIX @ fresh;
           k = \<lparr>ak_id = next_uuid s, ak_organization_id = org, ak_name = name,
                ak_prefix = take PREFIX_DISPLAY_LENGTH plaintext, ak_key_hash = sha256 c plaintext,
                ak_scopes = granted,
                ak_expires_at = (case expires_in_days of
                    Some n \<Rightarrow> if n \<noteq> 0 then Some (now + days n) else None | None \<Rightarrow> None),
                ak_last_used_at = None, ak_revoked_at = None, ak_created_by_user_id = created_by,
                ak_created_at = tx_now s\<rparr>;
           shown = [(''name'', JStr name), (''scopes'', JList (map JStr granted))]
       in bind_r (guard_r (\<forall>x\<in>set (api_keys s). ak_prefix x \<noteq> ak_prefix k \<and> ak_key_hash x \<noteq> ak_key_hash k)
                    IntegrityError) (\<lambda>_.
            Inr ((k, plaintext),
              append_outbox API_KEY_CREATED ''api_key'' (ak_id k) shown (Some org)
                (org_audit API_KEY_CREATED org (Some (''api_key'', ak_id k)) (Some shown)
                  (s\<lparr>next_uuid := Suc (next_uuid s), api_keys := api_keys s @ [k]\<rparr>)))))"

definition list_keys :: "uuid \<Rightarrow> 'a access_db_scheme \<Rightarrow> api_key list" where
  "list_keys org s = sort_key (\<lambda>k. - ak_created_at k) (rows_where (\<lambda>k. ak_organization_id k = org) (api_keys s))"

definition get_scoped_key :: "uuid \<Rightarrow> uuid \<Rightarrow> 'a access_db_scheme \<Rightarrow> error + api_key" where
  "get_scoped_key i org s =
     (case first_row (\<lambda>k. ak_id k = i) (api_keys s) of
        None \<Rightarrow> raise_error ApiKeyNotFoundError
      | Some k \<Rightarrow> if ak_organization_id k \<noteq> org then raise_error ApiKeyNotFoundError else Inr k)"

definition save_key :: "api_key \<Rightarrow> 'a access_db_scheme \<Rightarrow> 'a access_db_scheme" where
  "save_key k s = s\<lparr>api_keys := update_where (\<lambda>x. ak_id x = ak_id k) (\<lambda>_. k) (api_keys s)\<rparr>"

definition revoke_key :: "datetime \<Rightarrow> uuid \<Rightarrow> uuid \<Rightarrow> 'a access_db_scheme \<Rightarrow> error + (api_key \<times> 'a access_db_scheme)" where
  "revoke_key now i org s =
     bind_r (get_scoped_key i org s) (\<lambda>k0.
       let k = k0\<lparr>ak_revoked_at := Some now\<rparr>
       in Inr (k, append_outbox API_KEY_REVOKED ''api_key'' i [(''name'', JStr (ak_name k))] (Some org)
            (org_audit API_KEY_REVOKED org (Some (''api_key'', i)) None (save_key k s))))"

definition verify_key ::
  "crypto \<Rightarrow> datetime \<Rightarrow> string \<Rightarrow> 'a access_db_scheme \<Rightarrow> error + (api_key option \<times> 'a access_db_scheme)" where
  "verify_key c now plaintext s =
     (if \<not> starts_with KEY_PREFIX plaintext then Inr (None, s)
      else bind_r (one_or_none MultipleResultsFound (\<lambda>k. ak_key_hash k = sha256 c plaintext) (api_keys s)) (\<lambda>found.
        case found of
          None \<Rightarrow> Inr (None, s)
        | Some k0 \<Rightarrow>
            if \<not> ak_is_active now k0 then Inr (None, s)
            else let k = k0\<lparr>ak_last_used_at := Some now\<rparr> in Inr (Some k, save_key k s)))"

section \<open>The principal\<close>

text \<open>The process around a request: settings and third-party functions.\<close>

record env =
  en_settings :: settings
  en_identity :: identity_settings
  en_authz :: authz_settings
  en_crypto :: crypto
  en_repr :: "json \<Rightarrow> string"
  en_check :: fga_check
  en_is_ip_literal :: "string \<Rightarrow> bool"

text \<open>The headers a request is resolved from; \<open>rq_host\<close> is empty when absent.\<close>

record request =
  rq_authorization :: "string option"
  rq_org_id :: "string option"
  rq_org_slug :: "string option"
  rq_host :: string

definition bearer :: "request \<Rightarrow> string option" where
  "bearer rq = (case rq_authorization rq of
     Some h \<Rightarrow> if starts_with ''Bearer '' h then Some (drop 7 h) else None | None \<Rightarrow> None)"

definition bind_api_key_context ::
  "api_key \<Rightarrow> organization \<Rightarrow> 'a access_db_scheme \<Rightarrow> 'a access_db_scheme" where
  "bind_api_key_context k org s =
     s\<lparr>next_uuid := Suc (next_uuid s),
       ctx_tenant := Some \<lparr>tc_organization_id = ak_organization_id k, tc_slug = org_slug org, tc_is_platform = False\<rparr>,
       ctx_user := Some \<lparr>uc_user_id = next_uuid s, uc_email = ''apikey:'' @ ak_prefix k,
          uc_is_platform_admin = False, uc_permission_keys = set (ak_scopes k), uc_api_key_id = Some (ak_id k),
          uc_api_key_scopes = Some (set (ak_scopes k)), uc_api_key_creator_id = ak_created_by_user_id k\<rparr>\<rparr>"

text \<open>A savepoint: a failed recording leaves nothing behind and is not reported.\<close>

definition meter_api_key_request ::
  "settings \<Rightarrow> datetime \<Rightarrow> uuid \<Rightarrow> 'a access_db_scheme \<Rightarrow> 'a access_db_scheme" where
  "meter_api_key_request cfg now org s =
     (case record_usage cfg now org ''api_requests'' 1 None None None s of Inl _ \<Rightarrow> s | Inr (_, s1) \<Rightarrow> s1)"

definition key_owner :: "api_key option \<Rightarrow> 'a acct_db_scheme \<Rightarrow> error + (api_key \<times> organization)" where
  "key_owner found s =
     (case found of
        None \<Rightarrow> raise_error AuthenticationError
      | Some k \<Rightarrow>
          (case first_row (\<lambda>r. org_id r = ak_organization_id k) (organizations s) of
             None \<Rightarrow> raise_error AuthenticationError
           | Some org \<Rightarrow>
               if org_deleted_at org \<noteq> None \<or> org_status org \<noteq> Org_Active then raise_error AuthenticationError
               else Inr (k, org)))"

text \<open>The stand-in user of a key has a fresh id, which is in no table.\<close>

definition key_user :: "uuid \<Rightarrow> api_key \<Rightarrow> user" where
  "key_user i k = new_user (''apikey:'' @ ak_prefix k) None (''API key '' @ ak_name k) ''local'' None i"

text \<open>\<open>uuid.UUID(str(claim))\<close> of a claim that counts as true.\<close>

definition claim_uuid :: "(json \<Rightarrow> string) \<Rightarrow> json \<Rightarrow> error + uuid" where
  "claim_uuid repr_of v =
     (case v of
        JUuid i \<Rightarrow> Inr i
      | _ \<Rightarrow> (case truthy_text repr_of v of None \<Rightarrow> Inl ValueError | Some t \<Rightarrow> parse_uuid t))"

definition user_of_token :: "env \<Rightarrow> datetime \<Rightarrow> string \<Rightarrow> 'a acct_db_scheme \<Rightarrow> error + user" where
  "user_of_token en now token s =
     bind_r (decode_access_token (en_crypto en) (en_identity en) now token) (\<lambda>payload.
       case map_of payload ''sub'' of
         None \<Rightarrow> raise_error AuthenticationError
       | Some v \<Rightarrow>
           (case claim_uuid (en_repr en) v of
              Inl _ \<Rightarrow> raise_error AuthenticationError
            | Inr i \<Rightarrow>
                (case get_user i s of
                   None \<Rightarrow> raise_error AuthenticationError
                 | Some u \<Rightarrow> if us_is_active u then Inr u else raise_error AuthenticationError)))"

definition get_current_user ::
  "env \<Rightarrow> datetime \<Rightarrow> request \<Rightarrow> 'a access_db_scheme \<Rightarrow> error + (user \<times> 'a access_db_scheme)" where
  "get_current_user en now rq s =
     (case bearer rq of
        None \<Rightarrow> raise_error AuthenticationError
      | Some token \<Rightarrow>
          if starts_with KEY_PREFIX token then
            bind_r (verify_key (en_crypto en) now token s) (\<lambda>(found, s1).
            bind_r (key_owner found s1) (\<lambda>(k, org).
              let s2 = meter_api_key_request (en_settings en) now (ak_organization_id k) (bind_api_key_context k org s1)
              in Inr (key_user (next_uuid s2) k, s2\<lparr>next_uuid := Suc (next_uuid s2)\<rparr>)))
          else
            bind_r (user_of_token en now token s) (\<lambda>u.
              Inr (u, s\<lparr>ctx_user := Some \<lparr>uc_user_id = us_id u, uc_email = us_email u,
                uc_is_platform_admin = us_is_platform_admin u, uc_permission_keys = {}, uc_api_key_id = None,
                uc_api_key_scopes = None, uc_api_key_creator_id = None\<rparr>\<rparr>)))"

datatype principal = Of_user user | Of_key uuid

definition get_principal ::
  "env \<Rightarrow> datetime \<Rightarrow> request \<Rightarrow> 'a access_db_scheme \<Rightarrow> error + (principal \<times> 'a access_db_scheme)" where
  "get_principal en now rq s =
     (case bearer rq of
        Some token \<Rightarrow>
          if starts_with KEY_PREFIX token then
            bind_r (verify_key (en_crypto en) now token s) (\<lambda>(found, s1).
            bind_r (key_owner found s1) (\<lambda>(k, org).
              Inr (Of_key (ak_id k), bind_api_key_context k org s1)))
          else bind_r (get_current_user en now rq s) (\<lambda>(u, s1). Inr (Of_user u, s1))
      | None \<Rightarrow> bind_r (get_current_user en now rq s) (\<lambda>(u, s1). Inr (Of_user u, s1)))"

section \<open>The organization of the request\<close>

datatype org_reference = Ref_id uuid | Ref_slug string

text \<open>Text up to the first separator, as \<open>split(c)[0]\<close>.\<close>

definition before_char :: "char \<Rightarrow> string \<Rightarrow> string" where
  "before_char c t = takeWhile (\<lambda>x. x \<noteq> c) t"

definition resolve_org_reference ::
  "env \<Rightarrow> datetime \<Rightarrow> request \<Rightarrow> error + org_reference option" where
  "resolve_org_reference en now rq =
     (let from_token = (case bearer rq of
            None \<Rightarrow> Inr None
          | Some token \<Rightarrow>
              (case decode_access_token (en_crypto en) (en_identity en) now token of
                 Inl _ \<Rightarrow> Inr None
               | Inr payload \<Rightarrow>
                   (case map_of payload ''org'' of
                      None \<Rightarrow> Inr None
                    | Some v \<Rightarrow>
                        (case v of
                           JUuid i \<Rightarrow> Inr (Some (Ref_id i))
                         | _ \<Rightarrow> (case truthy_text (en_repr en) v of
                              None \<Rightarrow> Inr None
                            | Some t \<Rightarrow> bind_r (parse_uuid t) (\<lambda>i. Inr (Some (Ref_id i))))))));
          host = map lower_char (before_char (CHR '':'') (rq_host rq));
          label = before_char (CHR ''.'') host;
          from_host = (if CHR ''.'' \<in> set host \<and> \<not> en_is_ip_literal en host \<and> label \<notin> {''www'', ''api'', ''app''}
                       then Inr (Some (Ref_slug label)) else from_token);
          from_slug = (case rq_org_slug rq of
            Some t \<Rightarrow> if t \<noteq> [] then Inr (Some (Ref_slug t)) else from_host | None \<Rightarrow> from_host)
      in case rq_org_id rq of
           Some t \<Rightarrow>
             if t \<noteq> [] then (case parse_uuid t of Inl _ \<Rightarrow> raise_error TenantNotResolvedError | Inr i \<Rightarrow> Inr (Some (Ref_id i)))
             else from_slug
         | None \<Rightarrow> from_slug)"

definition find_org :: "org_reference \<Rightarrow> 'a acct_db_scheme \<Rightarrow> error + organization option" where
  "find_org ref s =
     (case ref of
        Ref_id i \<Rightarrow> Inr (first_row (\<lambda>r. org_id r = i) (organizations s))
      | Ref_slug t \<Rightarrow> get_by_slug t s)"

definition enter_org ::
  "user \<Rightarrow> organization \<Rightarrow> 'a auth_db_scheme \<Rightarrow> error + (tenant_context \<times> 'a auth_db_scheme)" where
  "enter_org u org s =
     bind_r (get_active (org_id org) (us_id u) s) (\<lambda>m.
       if m = None \<and> \<not> us_is_platform_admin u then raise_error TenantNotResolvedError
       else if org_status org \<noteq> Org_Active \<and> \<not> us_is_platform_admin u
       then Inl (Domain OrganizationSuspendedError [(''organization_id'', JUuid (org_id org)),
              (''organization_status'', JStr (org_status_name (org_status org)))])
       else let ctx = \<lparr>tc_organization_id = org_id org, tc_slug = org_slug org, tc_is_platform = False\<rparr>
            in Inr (ctx, s\<lparr>ctx_tenant := Some ctx\<rparr>))"

definition resolve_tenant ::
  "env \<Rightarrow> datetime \<Rightarrow> request \<Rightarrow> user \<Rightarrow> 'a auth_db_scheme \<Rightarrow> error + (tenant_context \<times> 'a auth_db_scheme)" where
  "resolve_tenant en now rq u s =
     (if ctx_tenant s \<noteq> None \<and> \<not> tc_is_platform (the (ctx_tenant s)) then Inr (the (ctx_tenant s), s)
      else
        bind_r (resolve_org_reference en now rq) (\<lambda>ref.
        bind_r (case ref of None \<Rightarrow> raise_error TenantNotResolvedError | Some r \<Rightarrow> find_org r s) (\<lambda>found.
          case found of
            None \<Rightarrow> raise_error TenantNotResolvedError
          | Some org \<Rightarrow>
              if org_deleted_at org \<noteq> None then raise_error TenantNotResolvedError
              else enter_org u org s)))"

definition require_platform_admin :: "user \<Rightarrow> error + tenant_context" where
  "require_platform_admin u =
     bind_r (guard_r (us_is_platform_admin u) (Domain TenantNotResolvedError [])) (\<lambda>_.
       Inr \<lparr>tc_organization_id = 0, tc_slug = ''platform'', tc_is_platform = True\<rparr>)"

section \<open>The permission gate\<close>

definition key_denied :: "string \<Rightarrow> string option \<Rightarrow> error" where
  "key_denied permission reason = Domain PermissionDeniedError
     ([(''permission'', JStr permission), (''auth'', JStr ''api_key'')]
      @ (case reason of None \<Rightarrow> [] | Some r \<Rightarrow> [(''reason'', JStr r)]))"

definition require_key_permission ::
  "datetime \<Rightarrow> string \<Rightarrow> string set \<Rightarrow> uuid option \<Rightarrow> uuid \<Rightarrow> 'a auth_db_scheme \<Rightarrow> error + 'a auth_db_scheme" where
  "require_key_permission now permission scopes creator_id org s =
     bind_r (guard_r (permission \<in> scopes) (key_denied permission None)) (\<lambda>_.
       case creator_id of
         None \<Rightarrow> Inl (key_denied permission (Some ''unbounded_key''))
       | Some i \<Rightarrow>
           (case get_user i s of
              None \<Rightarrow> Inl (key_denied permission (Some ''creator_inactive''))
            | Some creator \<Rightarrow>
                bind_r (guard_r (us_is_active creator) (key_denied permission (Some ''creator_inactive''))) (\<lambda>_.
                  if us_is_platform_admin creator then Inr s
                  else bind_r (permission_keys_for now i org s) (\<lambda>(keys, s1).
                       bind_r (guard_r (permission \<in> keys) (key_denied permission (Some ''creator_lacks_permission'')))
                         (\<lambda>_. Inr s1)))))"

definition user_ctx :: "user \<Rightarrow> string set \<Rightarrow> user_context" where
  "user_ctx u keys = \<lparr>uc_user_id = us_id u, uc_email = us_email u, uc_is_platform_admin = us_is_platform_admin u,
     uc_permission_keys = keys, uc_api_key_id = None, uc_api_key_scopes = None, uc_api_key_creator_id = None\<rparr>"

definition require_permission ::
  "env \<Rightarrow> datetime \<Rightarrow> string \<Rightarrow> user \<Rightarrow> tenant_context \<Rightarrow> 'a auth_db_scheme \<Rightarrow> error + 'a auth_db_scheme" where
  "require_permission en now permission u ctx s =
     (let org = tc_organization_id ctx;
          key_scopes_of = (case current_user s of None \<Rightarrow> None | Some p \<Rightarrow> uc_api_key_scopes p)
      in case key_scopes_of of
           Some scopes \<Rightarrow>
             require_key_permission now permission scopes (uc_api_key_creator_id (the (current_user s))) org s
         | None \<Rightarrow>
             if us_is_platform_admin u then Inr (s\<lparr>ctx_user := Some (user_ctx u {''*''})\<rparr>)
             else
               bind_r (permission_keys_for now (us_id u) org s) (\<lambda>(keys, s1).
               bind_r (user_can (en_authz en) (en_check en) now (us_id u) org permission s1) (\<lambda>(allowed, s2).
               bind_r (guard_r allowed (Domain PermissionDeniedError [(''permission'', JStr permission)])) (\<lambda>_.
                 Inr (s2\<lparr>ctx_user := Some (user_ctx u keys)\<rparr>)))))"

text \<open>A request starts with an empty context; the dependencies run in this order.\<close>

definition enter ::
  "env \<Rightarrow> datetime \<Rightarrow> request \<Rightarrow> 'a access_db_scheme \<Rightarrow> error + ((user \<times> tenant_context) \<times> 'a access_db_scheme)" where
  "enter en now rq s =
     bind_r (get_current_user en now rq (s\<lparr>ctx_tenant := None, ctx_user := None\<rparr>)) (\<lambda>(u, s1).
     bind_r (resolve_tenant en now rq u s1) (\<lambda>(ctx, s2). Inr ((u, ctx), s2)))"

definition gate ::
  "env \<Rightarrow> datetime \<Rightarrow> string \<Rightarrow> request \<Rightarrow> 'a access_db_scheme
    \<Rightarrow> error + ((user \<times> tenant_context) \<times> 'a access_db_scheme)" where
  "gate en now permission rq s =
     bind_r (enter en now rq s) (\<lambda>((u, ctx), s1).
     bind_r (require_permission en now permission u ctx s1) (\<lambda>s2. Inr ((u, ctx), s2)))"

definition feature_gate ::
  "env \<Rightarrow> datetime \<Rightarrow> string \<Rightarrow> request \<Rightarrow> 'a access_db_scheme
    \<Rightarrow> error + (tenant_context \<times> 'a access_db_scheme)" where
  "feature_gate en now feature rq s =
     bind_r (enter en now rq s) (\<lambda>((u, ctx), s1).
     bind_r (require_feature (en_settings en) now (tc_organization_id ctx) feature s1) (\<lambda>(_, s2). Inr (ctx, s2)))"

section \<open>Handlers\<close>

text \<open>A handler is its gate and then one service call; answers are the rows the response is built from.\<close>

definition api_list_my_orgs ::
  "env \<Rightarrow> datetime \<Rightarrow> request \<Rightarrow> 'a access_db_scheme \<Rightarrow> error + (organization option list \<times> 'a access_db_scheme)" where
  "api_list_my_orgs en now rq s =
     bind_r (get_current_user en now rq (s\<lparr>ctx_tenant := None, ctx_user := None\<rparr>)) (\<lambda>(u, s1).
       Inr (map (\<lambda>m. first_row (\<lambda>r. org_id r = mb_organization_id m) (organizations s1)) (for_user (us_id u) s1), s1))"

definition api_create_organization ::
  "env \<Rightarrow> datetime \<Rightarrow> string \<Rightarrow> string option \<Rightarrow> string \<Rightarrow> request \<Rightarrow> 'a access_db_scheme
    \<Rightarrow> error + (organization \<times> 'a access_db_scheme)" where
  "api_create_organization en now name slug suffix rq s =
     bind_r (get_current_user en now rq (s\<lparr>ctx_tenant := None, ctx_user := None\<rparr>)) (\<lambda>(u, s1).
       create_organization (en_settings en) (en_authz en) now name u slug suffix s1)"

definition api_get_current_org ::
  "env \<Rightarrow> datetime \<Rightarrow> request \<Rightarrow> 'a access_db_scheme \<Rightarrow> error + organization" where
  "api_get_current_org en now rq s =
     bind_r (enter en now rq s) (\<lambda>((u, ctx), s1). get_organization (tc_organization_id ctx) s1)"

definition api_update_current_org ::
  "env \<Rightarrow> datetime \<Rightarrow> string option \<Rightarrow> json_object option \<Rightarrow> request \<Rightarrow> 'a access_db_scheme
    \<Rightarrow> error + (organization \<times> 'a access_db_scheme)" where
  "api_update_current_org en now name new_settings rq s =
     bind_r (gate en now ''org:update'' rq s) (\<lambda>((u, ctx), s1).
       update_organization (tc_organization_id ctx) name new_settings s1)"

definition api_list_members ::
  "env \<Rightarrow> datetime \<Rightarrow> nat \<Rightarrow> nat \<Rightarrow> request \<Rightarrow> 'a access_db_scheme
    \<Rightarrow> error + ((membership list \<times> nat) \<times> 'a access_db_scheme)" where
  "api_list_members en now limit offset rq s =
     bind_r (gate en now ''member:read'' rq s) (\<lambda>((u, ctx), s1).
       let org = tc_organization_id ctx
       in Inr ((for_organization org limit offset s1, count_active_members org s1 + count_pending_invites org s1), s1))"

definition api_invite_member ::
  "env \<Rightarrow> datetime \<Rightarrow> string \<Rightarrow> string list \<Rightarrow> string \<Rightarrow> request \<Rightarrow> 'a access_db_scheme
    \<Rightarrow> error + (membership \<times> 'a access_db_scheme)" where
  "api_invite_member en now email role_keys token rq s =
     bind_r (gate en now ''member:invite'' rq s) (\<lambda>((u, ctx), s1).
     bind_r (effective_for_org (en_settings en) now (tc_organization_id ctx) (s1\<lparr>ctx_tenant := Some ctx\<rparr>)) (\<lambda>(e, s2).
     bind_r (get_organization (tc_organization_id ctx) s2) (\<lambda>org.
       invite_member (en_settings en) (sha256 (en_crypto en)) now (tc_organization_id ctx) email role_keys
         (limit_value e ''users'') (org_name org) token s2)))"

definition get_scoped_member :: "uuid \<Rightarrow> uuid \<Rightarrow> 'a auth_db_scheme \<Rightarrow> error + membership" where
  "get_scoped_member i org s =
     (case first_row (\<lambda>m. mb_id m = i) (memberships s) of
        None \<Rightarrow> raise_error NotAMemberError
      | Some m \<Rightarrow> if mb_organization_id m \<noteq> org then raise_error NotAMemberError else Inr m)"

text \<open>The schema admits the statuses \<open>active\<close> and \<open>suspended\<close> only.\<close>

definition api_update_membership ::
  "env \<Rightarrow> datetime \<Rightarrow> uuid \<Rightarrow> string list option \<Rightarrow> bool option \<Rightarrow> request \<Rightarrow> 'a access_db_scheme
    \<Rightarrow> error + (membership \<times> 'a access_db_scheme)" where
  "api_update_membership en now i role_keys suspend rq s =
     bind_r (gate en now ''member:update'' rq s) (\<lambda>((u, ctx), s1).
     bind_r (get_scoped_member i (tc_organization_id ctx) s1) (\<lambda>_.
       update_membership (en_settings en) (en_authz en) now i role_keys
         (map_option (\<lambda>b. if b then Mb_Suspended else Mb_Active) suspend) (s1\<lparr>ctx_tenant := Some ctx\<rparr>)))"

definition api_remove_member ::
  "env \<Rightarrow> datetime \<Rightarrow> uuid \<Rightarrow> request \<Rightarrow> 'a access_db_scheme \<Rightarrow> error + 'a access_db_scheme" where
  "api_remove_member en now i rq s =
     bind_r (gate en now ''member:remove'' rq s) (\<lambda>((u, ctx), s1).
     bind_r (get_scoped_member i (tc_organization_id ctx) s1) (\<lambda>_.
       remove_member (en_settings en) (en_authz en) now i (s1\<lparr>ctx_tenant := Some ctx\<rparr>)))"

definition api_suspend_org ::
  "env \<Rightarrow> datetime \<Rightarrow> uuid \<Rightarrow> request \<Rightarrow> 'a access_db_scheme \<Rightarrow> error + 'a access_db_scheme" where
  "api_suspend_org en now i rq s =
     bind_r (get_current_user en now rq (s\<lparr>ctx_tenant := None, ctx_user := None\<rparr>)) (\<lambda>(u, s1).
     bind_r (require_platform_admin u) (\<lambda>_. bind_r (suspend_organization i s1) (\<lambda>(_, s2). Inr s2)))"

definition api_unsuspend_org ::
  "env \<Rightarrow> datetime \<Rightarrow> uuid \<Rightarrow> request \<Rightarrow> 'a access_db_scheme \<Rightarrow> error + 'a access_db_scheme" where
  "api_unsuspend_org en now i rq s =
     bind_r (get_current_user en now rq (s\<lparr>ctx_tenant := None, ctx_user := None\<rparr>)) (\<lambda>(u, s1).
     bind_r (require_platform_admin u) (\<lambda>_. bind_r (unsuspend_organization i s1) (\<lambda>(_, s2). Inr s2)))"

definition api_list_roles ::
  "env \<Rightarrow> datetime \<Rightarrow> request \<Rightarrow> 'a access_db_scheme \<Rightarrow> error + (role list \<times> 'a access_db_scheme)" where
  "api_list_roles en now rq s =
     bind_r (gate en now ''member:read'' rq s) (\<lambda>((u, ctx), s1). Inr (list_roles (tc_organization_id ctx) s1, s1))"

definition api_create_role ::
  "env \<Rightarrow> datetime \<Rightarrow> string \<Rightarrow> string \<Rightarrow> string option \<Rightarrow> string list \<Rightarrow> request \<Rightarrow> 'a access_db_scheme
    \<Rightarrow> error + (role \<times> 'a access_db_scheme)" where
  "api_create_role en now key name description permissions rq s =
     bind_r (gate en now ''role:manage'' rq s) (\<lambda>((u, ctx), s1).
       create_custom_role (en_authz en) now (tc_organization_id ctx) key name description permissions s1)"

definition api_update_role ::
  "env \<Rightarrow> datetime \<Rightarrow> uuid \<Rightarrow> string option \<Rightarrow> string option \<Rightarrow> string list option \<Rightarrow> request \<Rightarrow> 'a access_db_scheme
    \<Rightarrow> error + (role \<times> 'a access_db_scheme)" where
  "api_update_role en now i name description permissions rq s =
     bind_r (gate en now ''role:manage'' rq s) (\<lambda>((u, ctx), s1).
       update_custom_role (en_authz en) now i (tc_organization_id ctx) name description permissions s1)"

definition api_delete_role ::
  "env \<Rightarrow> datetime \<Rightarrow> uuid \<Rightarrow> request \<Rightarrow> 'a access_db_scheme \<Rightarrow> error + 'a access_db_scheme" where
  "api_delete_role en now i rq s =
     bind_r (gate en now ''role:manage'' rq s) (\<lambda>((u, ctx), s1).
       delete_custom_role (en_authz en) now i (tc_organization_id ctx) s1)"

definition api_list_keys ::
  "env \<Rightarrow> datetime \<Rightarrow> page_params \<Rightarrow> request \<Rightarrow> 'a access_db_scheme
    \<Rightarrow> error + ((nat \<times> api_key list) \<times> 'a access_db_scheme)" where
  "api_list_keys en now page rq s =
     bind_r (gate en now ''apikey:manage'' rq s) (\<lambda>((u, ctx), s1).
       Inr (paginate_in_memory (list_keys (tc_organization_id ctx) s1) page, s1))"

definition api_create_key ::
  "env \<Rightarrow> datetime \<Rightarrow> string \<Rightarrow> string list \<Rightarrow> int option \<Rightarrow> string \<Rightarrow> request \<Rightarrow> 'a access_db_scheme
    \<Rightarrow> error + ((api_key \<times> string) \<times> 'a access_db_scheme)" where
  "api_create_key en now name scopes expires_in_days fresh rq s =
     bind_r (gate en now ''apikey:manage'' rq s) (\<lambda>((u, ctx), s1).
     bind_r (require_user s1) (\<lambda>p.
       let creator_keys = (if ''*'' \<in> uc_permission_keys p then set PERMISSION_KEYS else uc_permission_keys p);
           creator_id = (if uc_api_key_id p \<noteq> None then uc_api_key_creator_id p else Some (us_id u))
       in create_key (en_crypto en) now (tc_organization_id ctx) name scopes expires_in_days creator_id
            (Some creator_keys) fresh s1))"

definition api_revoke_key ::
  "env \<Rightarrow> datetime \<Rightarrow> uuid \<Rightarrow> request \<Rightarrow> 'a access_db_scheme \<Rightarrow> error + 'a access_db_scheme" where
  "api_revoke_key en now i rq s =
     bind_r (gate en now ''apikey:manage'' rq s) (\<lambda>((u, ctx), s1).
     bind_r (revoke_key now i (tc_organization_id ctx) s1) (\<lambda>(_, s2). Inr s2))"

definition api_switch_org ::
  "env \<Rightarrow> datetime \<Rightarrow> uuid \<Rightarrow> string \<Rightarrow> request \<Rightarrow> 'a access_db_scheme \<Rightarrow> error + (token_pair \<times> 'a access_db_scheme)" where
  "api_switch_org en now org fresh rq s =
     bind_r (get_current_user en now rq (s\<lparr>ctx_tenant := None, ctx_user := None\<rparr>)) (\<lambda>(u, s1).
     bind_r (get_active org (us_id u) s1) (\<lambda>m.
     bind_r (guard_r (m \<noteq> None) (Domain TenantNotResolvedError [])) (\<lambda>_.
       issue_tokens (en_crypto en) (en_identity en) now u (Some org) None None fresh s1)))"

definition api_accept_invite ::
  "env \<Rightarrow> datetime \<Rightarrow> string \<Rightarrow> request \<Rightarrow> 'a access_db_scheme \<Rightarrow> error + (membership \<times> 'a access_db_scheme)" where
  "api_accept_invite en now token rq s =
     bind_r (get_current_user en now rq (s\<lparr>ctx_tenant := None, ctx_user := None\<rparr>)) (\<lambda>(u, s1).
       accept_invite_by_token (en_settings en) (en_authz en) (sha256 (en_crypto en)) now token u s1)"

section \<open>Lookups of one organization\<close>

lemma get_scoped_member_row:
  "get_scoped_member i org s = scoped_row (Domain NotAMemberError []) mb_id (\<lambda>m. Some (mb_organization_id m)) i org (memberships s)"
  by (auto simp: get_scoped_member_def scoped_row_def split: option.split)

interpretation member_lookup: tenant_scoped_get get_scoped_member "memberships :: 'a auth_db_scheme \<Rightarrow> _" mb_id
  "\<lambda>m. Some (mb_organization_id m)" "\<lambda>_. Domain NotAMemberError []"
  by unfold_locales (use scoped_row_laws [where owner = "\<lambda>m. Some (mb_organization_id m)" and ident = mb_id]
      in \<open>simp_all add: get_scoped_member_row\<close>)

lemma get_scoped_key_row:
  "get_scoped_key i org s = scoped_row (Domain ApiKeyNotFoundError []) ak_id (\<lambda>k. Some (ak_organization_id k)) i org (api_keys s)"
  by (auto simp: get_scoped_key_def scoped_row_def split: option.split)

interpretation key_lookup: tenant_scoped_get get_scoped_key "api_keys :: 'a access_db_scheme \<Rightarrow> _" ak_id
  "\<lambda>k. Some (ak_organization_id k)" "\<lambda>_. Domain ApiKeyNotFoundError []"
  by unfold_locales (use scoped_row_laws [where owner = "\<lambda>k. Some (ak_organization_id k)" and ident = ak_id]
      in \<open>simp_all add: get_scoped_key_row\<close>)

section \<open>The permission cache\<close>

text \<open>What the tables say an active member may do.\<close>

definition current_keys :: "uuid \<Rightarrow> uuid \<Rightarrow> 'a auth_db_scheme \<Rightarrow> string set" where
  "current_keys user_id org s = (\<Union>m\<in>set (rows_where (\<lambda>m. mb_organization_id m = org
     \<and> mb_user_id m = Some user_id \<and> mb_status m = Mb_Active) (memberships s)). set (mb_permission_keys m))"

definition cached_perms :: "datetime \<Rightarrow> uuid \<Rightarrow> uuid \<Rightarrow> 'a core_db_scheme \<Rightarrow> json option" where
  "cached_perms now user_id org s =
     fst (fst (get_versioned (ttl_backend now) perm_cache (cache_store s) (perm_key user_id org)))"

text \<open>No member's cached permissions are out of date.\<close>

definition perms_fresh :: "datetime \<Rightarrow> 'a auth_db_scheme \<Rightarrow> bool" where
  "perms_fresh now s \<longleftrightarrow> (\<forall>u org t. cached_perms now u org s = Some (JStr t) \<longrightarrow> t \<noteq> []
     \<longrightarrow> set (split_commas t) = current_keys u org s)"

lemma one_member:
  assumes "unique_memberships (memberships s)" and "m \<in> set (memberships s)"
    and "mb_organization_id m = org" "mb_user_id m = Some u" "mb_status m = Mb_Active"
  shows "filter (\<lambda>m. mb_organization_id m = org \<and> mb_user_id m = Some u \<and> mb_status m = Mb_Active) (memberships s) = [m]"
proof -
  let ?key = "\<lambda>m. (mb_organization_id m, mb_user_id m)" and ?rows = "filter (\<lambda>m. mb_user_id m \<noteq> None) (memberships s)"
  have d: "distinct (map ?key ?rows)" and m: "m \<in> set ?rows" "?key m = (org, Some u)"
    using assms by (simp_all add: unique_memberships_def)
  have "filter (\<lambda>x. mb_organization_id x = org \<and> mb_user_id x = Some u \<and> mb_status x = Mb_Active) (memberships s)
      = filter (\<lambda>x. mb_status x = Mb_Active) (filter (\<lambda>x. ?key x = (org, Some u)) ?rows)"
    by (auto intro!: filter_cong)
  also have "\<dots> = [m]" using distinct_key_filter [OF d m] assms(5) by (simp del: filter_filter)
  finally show ?thesis .
qed

lemma active_member_lookup:
  assumes "unique_memberships (memberships s)"
  shows "\<exists>found. one_or_none MultipleResultsFound
      (\<lambda>m. mb_organization_id m = org \<and> mb_user_id m = Some u \<and> mb_status m = Mb_Active) (memberships s) = Inr found
    \<and> current_keys u org s = (case found of None \<Rightarrow> {} | Some m \<Rightarrow> set (mb_permission_keys m))"
proof (cases "\<exists>m\<in>set (memberships s). mb_organization_id m = org \<and> mb_user_id m = Some u \<and> mb_status m = Mb_Active")
  case True
  then obtain m where m: "m \<in> set (memberships s)" "mb_organization_id m = org" "mb_user_id m = Some u"
    "mb_status m = Mb_Active" by blast
  note one = one_member [OF assms m]
  show ?thesis using one by (simp add: one_or_none_def current_keys_def rows_where_def)
next
  case False
  then show ?thesis
    by (intro exI [of _ None]) (auto simp: one_or_none_None current_keys_def rows_where_def)
qed

lemma permission_keys_miss:
  assumes "get_versioned (ttl_backend now) perm_cache (cache_store s) (perm_key u org) = ((cached, version), st)"
    and "\<nexists>t. cached = Some (JStr t) \<and> t \<noteq> []"
  shows "permission_keys_for now u org s = bind_r (one_or_none MultipleResultsFound
      (\<lambda>m. mb_organization_id m = org \<and> mb_user_id m = Some u \<and> mb_status m = Mb_Active) (memberships s)) (\<lambda>found.
        let keys = (case found of None \<Rightarrow> [] | Some m \<Rightarrow> mb_permission_keys m)
        in Inr (set keys, s\<lparr>cache_store := cache_set (ttl_backend now) perm_cache st (perm_key u org)
             (JStr (join_comma (sorted_set keys))) (Some version)\<rparr>))"
proof (cases cached)
  case None
  then show ?thesis by (simp add: permission_keys_for_def assms(1) Let_def)
next
  case (Some v)
  with assms(2) show ?thesis by (cases v) (simp_all add: permission_keys_for_def assms(1) Let_def)
qed

text \<open>A read is served from the cache or filled from the table.\<close>

lemma permission_keys_current:
  assumes "unique_memberships (memberships s)"
    and "\<And>t. cached_perms now u org s = Some (JStr t) \<Longrightarrow> t \<noteq> [] \<Longrightarrow> set (split_commas t) = current_keys u org s"
  shows "\<exists>st. permission_keys_for now u org s = Inr (current_keys u org s, s\<lparr>cache_store := st\<rparr>)"
proof -
  obtain cached version st where g: "get_versioned (ttl_backend now) perm_cache (cache_store s) (perm_key u org)
      = ((cached, version), st)" by (metis surj_pair)
  then have c: "cached_perms now u org s = cached" by (simp add: cached_perms_def)
  from active_member_lookup [OF assms(1), of org u] obtain found where
    f: "one_or_none MultipleResultsFound
      (\<lambda>m. mb_organization_id m = org \<and> mb_user_id m = Some u \<and> mb_status m = Mb_Active) (memberships s) = Inr found"
    "current_keys u org s = (case found of None \<Rightarrow> {} | Some m \<Rightarrow> set (mb_permission_keys m))" by blast
  then have k: "set (case found of None \<Rightarrow> [] | Some m \<Rightarrow> mb_permission_keys m) = current_keys u org s"
    by (simp split: option.split)
  show ?thesis
  proof (cases "\<exists>t. cached = Some (JStr t) \<and> t \<noteq> []")
    case True
    then show ?thesis using assms(2) c by (auto simp: permission_keys_for_def g)
  next
    case False
    have "permission_keys_for now u org s = Inr (set (case found of None \<Rightarrow> [] | Some m \<Rightarrow> mb_permission_keys m),
        s\<lparr>cache_store := cache_set (ttl_backend now) perm_cache st (perm_key u org)
          (JStr (join_comma (sorted_set (case found of None \<Rightarrow> [] | Some m \<Rightarrow> mb_permission_keys m)))) (Some version)\<rparr>)"
      unfolding permission_keys_miss [OF g False] f(1) bind_r_simps Let_def ..
    then show ?thesis unfolding k by blast
  qed
qed

text \<open>Other caches live under other names.\<close>

definition perm_name :: "string \<Rightarrow> bool" where
  "perm_name k \<longleftrightarrow> take 4 k = ''perm''"

lemma perm_names [simp]:
  "perm_name (version_key perm_cache k)" "perm_name (body_key perm_cache k v)"
  "\<not> perm_name (version_key entitlements_cache k)" "\<not> perm_name (body_key entitlements_cache k v)"
  "\<not> perm_name (version_key fga_cache k)"
  by (simp_all add: perm_name_def version_key_def body_key_def perm_cache_def entitlements_cache_def fga_cache_def)

definition same_perms_view :: "datetime \<Rightarrow> ttl_store \<Rightarrow> ttl_store \<Rightarrow> bool" where
  "same_perms_view now st st' \<longleftrightarrow> (\<forall>t\<ge>now. \<forall>k. perm_name k \<longrightarrow> ttl_view t st' k = ttl_view t st k)"

lemma same_perms_view_trans: "same_perms_view now a b \<Longrightarrow> same_perms_view now b c \<Longrightarrow> same_perms_view now a c"
  by (simp add: same_perms_view_def)

lemma same_perms_view_refl [simp]: "same_perms_view now st st"
  by (simp add: same_perms_view_def)

lemma cached_perms_view:
  assumes "same_perms_view now (cache_store s) (cache_store s')" and "now \<le> t"
  shows "cached_perms t u org s' = cached_perms t u org s"
  using assms by (simp add: cached_perms_def ttl.get_versioned_value same_perms_view_def)

lemma effective_keeps_perms_view:
  assumes "effective_for_org cfg now org s = Inr (e, s')"
  shows "same_perms_view now (cache_store s) (cache_store s')"
proof -
  obtain cached version st where g: "get_versioned (ttl_backend now) entitlements_cache (cache_store s) (nat_str org)
      = ((cached, version), st)" by (metis surj_pair)
  have st: "ttl_view t st k = ttl_view t (cache_store s) k" if "now \<le> t" for t k
    using ttl.get_versioned_frame [of now t entitlements_cache "cache_store s" "nat_str org"] that by (simp add: g)
  show ?thesis
  proof (cases "Option.bind cached deserialize")
    case (Some x)
    with assms g have "cache_store s' = st" by (auto simp: effective_for_org_def)
    with st show ?thesis by (simp add: same_perms_view_def)
  next
    case None
    with assms g have "cache_store s' = cache_set (ttl_backend now) entitlements_cache st (nat_str org) (serialize e) (Some version)"
      by (auto simp: effective_for_org_def bind_r_eq_Inr)
    then show ?thesis using st by (auto simp: same_perms_view_def cache_set_def ttl_backend_def ttl_set_def ttl_view_def)
  qed
qed

text \<open>Keys are written into the cache separated by commas, so they must not contain any.\<close>

definition plain_keys :: "'a auth_db_scheme \<Rightarrow> bool" where
  "plain_keys s \<longleftrightarrow> (\<forall>m\<in>set (memberships s). \<forall>k\<in>set (mb_permission_keys m). CHR '','' \<notin> set k)"

lemma filled_perms_current:
  assumes "permission_keys_for now u org s = Inr (ks, s')" and "plain_keys s" and "ks = current_keys u org s"
    and "\<And>t. cached_perms now u org s = Some (JStr t) \<Longrightarrow> t \<noteq> [] \<Longrightarrow> set (split_commas t) = current_keys u org s"
    and "cached_perms now u org s' = Some (JStr t)" and "t \<noteq> []"
  shows "set (split_commas t) = current_keys u org s"
proof -
  obtain cached version st where g: "get_versioned (ttl_backend now) perm_cache (cache_store s) (perm_key u org)
      = ((cached, version), st)" by (metis surj_pair)
  then have c: "cached_perms now u org s = cached" by (simp add: cached_perms_def)
  have view: "ttl_view now st k = ttl_view now (cache_store s) k" for k
    using ttl.get_versioned_frame [of now now perm_cache "cache_store s" "perm_key u org"] by (simp add: g)
  have version: "version = nat (json_int (ttl_view now (cache_store s) (version_key perm_cache (perm_key u org))))"
    using ttl.get_versioned_value [of now perm_cache "cache_store s" "perm_key u org"] by (simp add: g)
  show ?thesis
  proof (cases "\<exists>t. cached = Some (JStr t) \<and> t \<noteq> []")
    case True
    with assms(1) have "s' = s\<lparr>cache_store := st\<rparr>" by (auto simp: permission_keys_for_def g Let_def)
    then have "cached_perms now u org s' = cached_perms now u org s"
      by (simp add: cached_perms_def ttl.get_versioned_value view)
    with assms(4-6) show ?thesis by simp
  next
    case False
    from assms(1) False obtain found where
      f: "one_or_none MultipleResultsFound
        (\<lambda>m. mb_organization_id m = org \<and> mb_user_id m = Some u \<and> mb_status m = Mb_Active) (memberships s) = Inr found"
      and ks: "ks = set (case found of None \<Rightarrow> [] | Some m \<Rightarrow> mb_permission_keys m)"
      and s': "cache_store s' = cache_set (ttl_backend now) perm_cache st (perm_key u org)
        (JStr (join_comma (sorted_set (case found of None \<Rightarrow> [] | Some m \<Rightarrow> mb_permission_keys m)))) (Some version)"
      by (auto simp: permission_keys_miss [OF g False] bind_r_eq_Inr Let_def simp del: Int_Collect)
    define keys where "keys = (case found of None \<Rightarrow> [] | Some m \<Rightarrow> mb_permission_keys m)"
    have "ttl_view now (cache_store s') k = (if k = body_key perm_cache (perm_key u org) version
        then Some (JStr (join_comma (sorted_set keys))) else ttl_view now (cache_store s) k)" for k
      using ttl.set_live [of now now "vc_ttl perm_cache"] ttl.set_frame [of now now] view
      by (simp add: s' cache_set_def keys_def perm_cache_def seconds_def)
    then have "cached_perms now u org s' = Some (JStr (join_comma (sorted_set keys)))"
      by (simp add: cached_perms_def ttl.get_versioned_value version)
    with assms(5) have t: "t = join_comma (sorted_set keys)" by simp
    have "\<forall>k\<in>set keys. CHR '','' \<notin> set k"
      using assms(2) f by (auto simp: keys_def plain_keys_def dest!: one_or_none_SomeD split: option.splits)
    moreover have "sorted_set keys \<noteq> []" using t assms(6) by (cases "sorted_set keys") auto
    ultimately have "split_commas t = sorted_set keys" unfolding t by (intro split_join_commas) (simp_all add: sorted_set_def)
    then show ?thesis using assms(3) ks by (simp add: keys_def sorted_set_def)
  qed
qed

section \<open>What the dependencies leave alone\<close>

text \<open>The tables an access decision reads, the subscriptions, the grants, and every table of a later component.\<close>

definition access_tables_kept :: "'a access_db_scheme \<Rightarrow> 'a access_db_scheme \<Rightarrow> bool" where
  "access_tables_kept s s' \<longleftrightarrow> users s' = users s \<and> organizations s' = organizations s \<and> memberships s' = memberships s
     \<and> roles s' = roles s \<and> role_permissions s' = role_permissions s \<and> permission_rows s' = permission_rows s
     \<and> subscription_rows s' = subscription_rows s \<and> entitlement_rows s' = entitlement_rows s
     \<and> access_db.more s' = access_db.more s"

lemma access_tables_kept_refl [simp]: "access_tables_kept s s"
  by (simp add: access_tables_kept_def)

lemma access_tables_kept_trans: "access_tables_kept s t \<Longrightarrow> access_tables_kept t u \<Longrightarrow> access_tables_kept s u"
  by (simp add: access_tables_kept_def)

lemma current_keys_cong: "access_tables_kept s s' \<Longrightarrow> current_keys u org s' = current_keys u org s"
  by (simp add: access_tables_kept_def current_keys_def)

lemma append_outbox_access [simp]:
  fixes s :: "'a access_db_scheme"
  shows "access_tables_kept s0 (append_outbox ev ty i p org s) = access_tables_kept s0 s"
    and "api_keys (append_outbox ev ty i p org s) = api_keys s"
    and "access_db.more (append_outbox ev ty i p org s) = access_db.more s"
    and "entitlement_rows (append_outbox ev ty i p org s) = entitlement_rows s"
  by (simp_all add: access_tables_kept_def append_outbox_def)

lemma usage_writes_keep_access:
  fixes s :: "'a access_db_scheme"
  shows "upsert_counter org m p q f at s = (x, s') \<Longrightarrow> access_tables_kept s s' \<and> cache_store s' = cache_store s \<and> ctx_user s' = ctx_user s \<and> ctx_tenant s' = ctx_tenant s"
    and "effective_for_org cfg now org s = Inr (e, s') \<Longrightarrow> access_tables_kept s s' \<and> ctx_user s' = ctx_user s \<and> ctx_tenant s' = ctx_tenant s"
    and "mark_soft_limit org m p s = (b, s') \<Longrightarrow> access_tables_kept s s' \<and> cache_store s' = cache_store s \<and> ctx_user s' = ctx_user s \<and> ctx_tenant s' = ctx_tenant s"
  by (auto simp: access_tables_kept_def mark_soft_limit_def Let_def dest!: upsert_counter_frame effective_for_org_frame)

lemma soft_limit_keeps_access:
  assumes "maybe_emit_soft_limit cfg now org m t s = Inr s'"
  shows "access_tables_kept s s' \<and> ctx_user s' = ctx_user s \<and> ctx_tenant s' = ctx_tenant s
    \<and> same_perms_view now (cache_store s) (cache_store s')"
proof -
  from assms obtain e s1 where e: "effective_for_org cfg now org s = Inr (e, s1)"
    and rest: "(case soft_limit_due e m t of None \<Rightarrow> Inr s1 | Some (threshold, limit) \<Rightarrow>
           (let (marked, s2) = mark_soft_limit org m (month_bucket now) s1
            in bind_r marked (\<lambda>b. Inr
              (if b then append_outbox USAGE_SOFT_LIMIT_REACHED ''usage'' (next_uuid s2)
                 [(''organization_id'', JUuid org), (''metric'', JStr m),
                  (''threshold'', JInt threshold), (''total'', JInt t), (''limit'', JInt limit)]
                 (Some org) (s2\<lparr>next_uuid := Suc (next_uuid s2)\<rparr>)
               else s2)))) = Inr s'"
    by (auto simp: maybe_emit_soft_limit_def bind_r_eq_Inr)
  obtain b s2 where mk: "mark_soft_limit org m (month_bucket now) s1 = (b, s2)" by (metis surj_pair)
  have "access_tables_kept s1 s' \<and> ctx_user s' = ctx_user s1 \<and> ctx_tenant s' = ctx_tenant s1 \<and> cache_store s' = cache_store s1"
    using rest usage_writes_keep_access(3) [OF mk]
    by (auto simp: mk bind_r_eq_Inr access_tables_kept_def split: option.splits if_splits)
  with usage_writes_keep_access(2) [OF e] effective_keeps_perms_view [OF e] show ?thesis
    by (auto intro: access_tables_kept_trans)
qed

lemma record_usage_keeps_access:
  assumes "record_usage cfg now org m q None None None s = Inr (r, s')"
  shows "access_tables_kept s s' \<and> ctx_user s' = ctx_user s \<and> ctx_tenant s' = ctx_tenant s
    \<and> same_perms_view now (cache_store s) (cache_store s')"
proof -
  let ?s2 = "snd (insert_event org m q now None None s)"
  obtain tot s3 where up: "increment_counter org m q now ?s2 = (tot, s3)" by (metis surj_pair)
  from assms up have emit: "maybe_emit_soft_limit cfg now org m tot s3 = Inr s'"
    by (auto simp: record_usage_def reserve_opt_def settle_opt_def insert_event_def bind_r_eq_Inr Let_def)
  have "access_tables_kept s ?s2 \<and> cache_store ?s2 = cache_store s \<and> ctx_user ?s2 = ctx_user s \<and> ctx_tenant ?s2 = ctx_tenant s"
    by (simp add: insert_event_def access_tables_kept_def)
  with usage_writes_keep_access(1) [OF up [unfolded increment_counter_def]] soft_limit_keeps_access [OF emit] show ?thesis
    by (auto intro: access_tables_kept_trans)
qed

lemma metering_keeps_access:
  "access_tables_kept s (meter_api_key_request cfg now org s) \<and> ctx_user (meter_api_key_request cfg now org s) = ctx_user s
   \<and> ctx_tenant (meter_api_key_request cfg now org s) = ctx_tenant s
   \<and> same_perms_view now (cache_store s) (cache_store (meter_api_key_request cfg now org s))"
proof (cases "record_usage cfg now org ''api_requests'' 1 None None None s")
  case (Inl e)
  then show ?thesis by (simp add: meter_api_key_request_def)
next
  case (Inr x)
  then obtain r s' where x: "record_usage cfg now org ''api_requests'' 1 None None None s = Inr (r, s')" by (cases x) simp
  from record_usage_keeps_access [OF x] show ?thesis by (simp add: meter_api_key_request_def x)
qed

lemma permission_keys_keep_access:
  assumes "permission_keys_for now u org s = Inr (ks, s')"
  shows "\<exists>st. s' = s\<lparr>cache_store := st\<rparr>"
proof -
  obtain cached version st where g: "get_versioned (ttl_backend now) perm_cache (cache_store s) (perm_key u org)
      = ((cached, version), st)" by (metis surj_pair)
  show ?thesis
  proof (cases "\<exists>t. cached = Some (JStr t) \<and> t \<noteq> []")
    case True
    with assms show ?thesis by (auto simp: permission_keys_for_def g Let_def)
  next
    case False
    with assms show ?thesis by (auto simp: permission_keys_miss [OF g False] Let_def bind_r_eq_Inr)
  qed
qed

section \<open>API keys act within their creator's authority\<close>

lemma verify_keyD:
  assumes "verify_key c now token s = Inr (Some k, s')"
  shows "\<exists>k0\<in>set (api_keys s). ak_key_hash k0 = sha256 c token \<and> ak_is_active now k0
    \<and> k = k0\<lparr>ak_last_used_at := Some now\<rparr>"
    and "access_tables_kept s s'" "ctx_tenant s' = ctx_tenant s" "cache_store s' = cache_store s"
  using assms by (auto simp: verify_key_def bind_r_eq_Inr Let_def save_key_def access_tables_kept_def
      dest!: one_or_none_SomeD split: if_splits option.splits)

lemma key_ownerD:
  assumes "key_owner found s = Inr (k, org)"
  shows "found = Some k \<and> org \<in> set (organizations s) \<and> org_id org = ak_organization_id k
    \<and> org_deleted_at org = None \<and> org_status org = Org_Active"
  using assms by (auto simp: key_owner_def dest!: first_row_SomeD split: option.splits if_splits)

lemma key_login:
  assumes "get_current_user en now rq s = Inr (u, s')" and "bearer rq = Some token" and "starts_with KEY_PREFIX token"
  obtains k org where "k \<in> set (api_keys s)" "ak_key_hash k = sha256 (en_crypto en) token" "ak_is_active now k"
    and "org \<in> set (organizations s)" "org_id org = ak_organization_id k" "org_deleted_at org = None" "org_status org = Org_Active"
    and "ctx_tenant s' = Some \<lparr>tc_organization_id = ak_organization_id k, tc_slug = org_slug org, tc_is_platform = False\<rparr>"
    and "\<exists>i e. ctx_user s' = Some \<lparr>uc_user_id = i, uc_email = e, uc_is_platform_admin = False,
          uc_permission_keys = set (ak_scopes k), uc_api_key_id = Some (ak_id k),
          uc_api_key_scopes = Some (set (ak_scopes k)), uc_api_key_creator_id = ak_created_by_user_id k\<rparr>"
    and "access_tables_kept s s'" "same_perms_view now (cache_store s) (cache_store s')"
proof -
  from assms obtain found s1 k org where v: "verify_key (en_crypto en) now token s = Inr (found, s1)"
      and ow: "key_owner found s1 = Inr (k, org)"
      and s': "s' = (meter_api_key_request (en_settings en) now (ak_organization_id k) (bind_api_key_context k org s1))
        \<lparr>next_uuid := Suc (next_uuid (meter_api_key_request (en_settings en) now (ak_organization_id k) (bind_api_key_context k org s1)))\<rparr>"
    by (auto simp: get_current_user_def bind_r_eq_Inr Let_def)
  note o = key_ownerD [OF ow]
  with v have v': "verify_key (en_crypto en) now token s = Inr (Some k, s1)" by simp
  note vk = verify_keyD [OF v']
  from vk(1) obtain k0 where k0: "k0 \<in> set (api_keys s)" "ak_key_hash k0 = sha256 (en_crypto en) token"
    "ak_is_active now k0" "k = k0\<lparr>ak_last_used_at := Some now\<rparr>" by blast
  let ?b = "bind_api_key_context k org s1"
  note m = metering_keeps_access [of ?b "en_settings en" now "ak_organization_id k"]
  have b: "access_tables_kept s1 ?b" "cache_store ?b = cache_store s1"
    by (simp_all add: bind_api_key_context_def access_tables_kept_def)
  have "access_tables_kept s s'"
    using access_tables_kept_trans [OF access_tables_kept_trans [OF vk(2) b(1)] conjunct1 [OF m]]
    by (simp add: s' access_tables_kept_def)
  moreover have "same_perms_view now (cache_store s) (cache_store s')" using m b(2) vk(4) by (simp add: s')
  moreover have "org \<in> set (organizations s)" using o vk(2) by (simp add: access_tables_kept_def)
  ultimately show thesis using that [of k0 org] k0 o m
    by (auto simp: s' bind_api_key_context_def)
qed

abbreviation fresh_request :: "'a access_db_scheme \<Rightarrow> 'a access_db_scheme" where
  "fresh_request s \<equiv> s\<lparr>ctx_tenant := None, ctx_user := None\<rparr>"

lemma fresh_request_keeps [simp]:
  "access_tables_kept (fresh_request s) s' = access_tables_kept s s'"
  "current_keys u org (fresh_request s) = current_keys u org s"
  by (simp_all add: access_tables_kept_def current_keys_def)

lemma gateD:
  assumes "gate en now perm rq s = Inr ((u, ctx), s')"
  obtains s1 s2 where "get_current_user en now rq (fresh_request s) = Inr (u, s1)"
    and "resolve_tenant en now rq u s1 = Inr (ctx, s2)" and "require_permission en now perm u ctx s2 = Inr s'"
  using assms by (auto simp: gate_def enter_def bind_r_eq_Inr)

text \<open>Passing the gate leaves the tables of an access decision, and those of every later component, alone.\<close>

lemma login_keeps:
  assumes "get_current_user en now rq s = Inr (u, s')"
  shows "access_tables_kept s s'"
proof (cases "\<exists>token. bearer rq = Some token \<and> starts_with KEY_PREFIX token")
  case True
  then obtain token where "bearer rq = Some token" "starts_with KEY_PREFIX token" by blast
  then show ?thesis by (rule key_login [OF assms])
next
  case False
  with assms show ?thesis
    by (auto simp: get_current_user_def bind_r_eq_Inr access_tables_kept_def split: option.splits if_splits)
qed

lemma resolve_tenant_keeps:
  fixes s :: "'a access_db_scheme"
  shows "resolve_tenant en now rq u s = Inr (ctx, s') \<Longrightarrow> access_tables_kept s s'"
  by (auto simp: resolve_tenant_def enter_org_def Let_def bind_r_eq_Inr access_tables_kept_def
      split: if_splits option.splits)

lemma user_can_keeps:
  fixes s :: "'a access_db_scheme"
  assumes "user_can cfg check now u org perm s = Inr (b, s')"
  shows "access_tables_kept s s'"
proof -
  have cache: "access_tables_kept t (t\<lparr>cache_store := st\<rparr>)" for t :: "'a access_db_scheme" and st
    by (simp add: access_tables_kept_def)
  have keys: "access_tables_kept t t'" if "permission_keys_for now i j t = Inr (ks, t')" for i j ks and t t' :: "'a access_db_scheme"
    using permission_keys_keep_access [OF that] cache by auto
  show ?thesis
  proof (cases "az_backend cfg = Openfga")
    case True
    with assms show ?thesis
      by (auto simp: user_can_def fga_allowed_def Let_def bind_r_eq_Inr cache split: prod.splits if_splits option.splits sum.splits
          dest!: keys intro: access_tables_kept_trans [OF cache])
  next
    case False
    with assms show ?thesis by (auto simp: user_can_def bind_r_eq_Inr dest: keys)
  qed
qed

lemma require_permission_keeps:
  fixes s :: "'a access_db_scheme"
  assumes "require_permission en now perm u ctx s = Inr s'"
  shows "access_tables_kept s s'"
proof -
  have keys: "access_tables_kept s t" if "permission_keys_for now i org s = Inr (ks, t)" for i org ks t
    using permission_keys_keep_access [OF that] by (auto simp: access_tables_kept_def)
  have done_kept: "access_tables_kept t (t\<lparr>ctx_user := c\<rparr>)" for t :: "'a access_db_scheme" and c
    by (simp add: access_tables_kept_def)
  show ?thesis
  proof (cases "current_user s = None \<or> uc_api_key_scopes (the (current_user s)) = None")
    case True
    with assms show ?thesis
      by (auto simp: require_permission_def Let_def bind_r_eq_Inr done_kept split: if_splits option.splits
          dest!: keys user_can_keeps intro: access_tables_kept_trans)
  next
    case False
    with assms show ?thesis
      by (auto simp: require_permission_def require_key_permission_def Let_def bind_r_eq_Inr
          split: if_splits option.splits dest: keys)
  qed
qed

lemma gate_keeps:
  assumes "gate en now perm rq s = Inr ((u, ctx), s')"
  shows "access_tables_kept s s'"
proof -
  from gateD [OF assms] obtain s1 s2 where "get_current_user en now rq (fresh_request s) = Inr (u, s1)"
    "resolve_tenant en now rq u s1 = Inr (ctx, s2)" "require_permission en now perm u ctx s2 = Inr s'" by blast
  with login_keeps [of en now rq "fresh_request s" u s1] show ?thesis
    by (auto dest!: resolve_tenant_keeps require_permission_keeps intro: access_tables_kept_trans)
qed

lemma fresh_keys_read:
  assumes "unique_memberships (memberships s)" and "perms_fresh now s"
    and "access_tables_kept s s'" "same_perms_view now (cache_store s) (cache_store s')"
  shows "\<exists>st. permission_keys_for now u org s' = Inr (current_keys u org s, s'\<lparr>cache_store := st\<rparr>)"
proof -
  have "unique_memberships (memberships s')" using assms(1,3) by (simp add: access_tables_kept_def)
  moreover have "set (split_commas t) = current_keys u org s'" if "cached_perms now u org s' = Some (JStr t)" "t \<noteq> []" for t
    using that assms(2) current_keys_cong [OF assms(3)] cached_perms_view [OF assms(4)]
    by (simp add: perms_fresh_def)
  ultimately show ?thesis using permission_keys_current [of s' now u org] current_keys_cong [OF assms(3)] by simp
qed

text \<open>The gate reads the keys twice, the second time through the entry the first may have written.\<close>

lemma keys_read_twice:
  assumes "unique_memberships (memberships s)" "perms_fresh now s" "plain_keys s"
    and kept: "access_tables_kept s s2" "same_perms_view now (cache_store s) (cache_store s2)"
  shows "\<exists>s3 s4. permission_keys_for now u org s2 = Inr (current_keys u org s, s3)
    \<and> permission_keys_for now u org s3 = Inr (current_keys u org s, s4)"
proof -
  from fresh_keys_read [OF assms(1,2) kept] obtain st where
    one: "permission_keys_for now u org s2 = Inr (current_keys u org s, s2\<lparr>cache_store := st\<rparr>)" by blast
  let ?s3 = "s2\<lparr>cache_store := st\<rparr>"
  have same: "current_keys u org s2 = current_keys u org s" "current_keys u org ?s3 = current_keys u org s"
    using kept(1) by (simp_all add: current_keys_def access_tables_kept_def)
  have "set (split_commas t) = current_keys u org ?s3" if "cached_perms now u org ?s3 = Some (JStr t)" "t \<noteq> []" for t
  proof -
    have "plain_keys s2" using assms(3) kept(1) by (simp add: plain_keys_def access_tables_kept_def)
    moreover have "cached_perms now u org s2 = Some (JStr t') \<Longrightarrow> t' \<noteq> [] \<Longrightarrow> set (split_commas t') = current_keys u org s2" for t'
      using assms(2) by (simp add: same perms_fresh_def cached_perms_view [OF kept(2)])
    ultimately show ?thesis using filled_perms_current [OF one _ same(1) [symmetric] _ that] same by simp
  qed
  moreover have "unique_memberships (memberships ?s3)" using assms(1) kept(1) by (simp add: access_tables_kept_def)
  ultimately show ?thesis using permission_keys_current [of ?s3 now u org] one same by auto
qed

lemma user_of_token_cong: "users s' = users s \<Longrightarrow> user_of_token en now token s' = user_of_token en now token s"
  unfolding user_of_token_def get_user_def by (cases "decode_access_token (en_crypto en) (en_identity en) now token") (simp_all cong: option.case_cong sum.case_cong)


lemma user_of_tokenD:
  "user_of_token en now token s = Inr u \<Longrightarrow> u \<in> set (users s) \<and> us_is_active u"
proof -
  assume a: "user_of_token en now token s = Inr u"
  then obtain payload where p: "decode_access_token (en_crypto en) (en_identity en) now token = Inr payload"
    by (auto simp: user_of_token_def bind_r_eq_Inr)
  from a obtain v where v: "map_of payload ''sub'' = Some v" by (cases "map_of payload ''sub''") (simp_all add: user_of_token_def p)
  from a obtain i where i: "claim_uuid (en_repr en) v = Inr i"
    by (cases "claim_uuid (en_repr en) v") (simp_all add: user_of_token_def p v)
  from a have "get_user i s = Some u \<and> us_is_active u"
    by (cases "get_user i s") (simp_all add: user_of_token_def p v i split: if_splits)
  then show ?thesis by (auto simp: get_user_def dest: first_row_SomeD)
qed


text \<open>
  Conversely, an active member of an active organization whose roles grant the permission passes the
  gate, in that organization.
\<close>

lemma gate_admits_every_entitled_member:
  assumes "bearer rq = Some token" "\<not> starts_with KEY_PREFIX token" and "user_of_token en now token s = Inr u"
    and "resolve_org_reference en now rq = Inr (Some ref)" "find_org ref s = Inr (Some org)"
    and "org_deleted_at org = None" "org_status org = Org_Active"
    and "m \<in> set (memberships s)" "mb_organization_id m = org_id org" "mb_user_id m = Some (us_id u)" "mb_status m = Mb_Active"
    and "perm \<in> current_keys (us_id u) (org_id org) s" and "unique_memberships (memberships s)"
    and "perms_fresh now s" "plain_keys s" "az_backend (en_authz en) = Rbac"
  shows "\<exists>ctx s'. gate en now perm rq s = Inr ((u, ctx), s') \<and> tc_organization_id ctx = org_id org"
proof -
  let ?org = "org_id org" and ?u = "us_id u"
  define s1 where "s1 = (fresh_request s)\<lparr>ctx_user := Some (user_ctx u {})\<rparr>"
  define ctx where "ctx = \<lparr>tc_organization_id = ?org, tc_slug = org_slug org, tc_is_platform = False\<rparr>"
  define s2 where "s2 = s1\<lparr>ctx_tenant := Some ctx\<rparr>"
  have one: "get_current_user en now rq (fresh_request s) = Inr (u, s1)"
    using assms(1-3) by (simp add: get_current_user_def user_ctx_def s1_def user_of_token_cong [of "fresh_request s" s])
  have "get_active ?org ?u s1 = Inr (Some m)"
    using one_member [OF assms(13,8-11)] by (simp add: get_active_def s1_def one_or_none_def)
  moreover have "find_org ref s1 = Inr (Some org)" using assms(5) by (simp add: find_org_def get_by_slug_def s1_def split: org_reference.splits)
  moreover have "ctx_tenant s1 = None" by (simp add: s1_def)
  ultimately have two: "resolve_tenant en now rq u s1 = Inr (ctx, s2)"
    using assms(4,6,7) by (simp add: resolve_tenant_def enter_org_def s2_def ctx_def Let_def)
  have kept: "access_tables_kept s s2" "same_perms_view now (cache_store s) (cache_store s2)"
    by (simp_all add: s2_def s1_def access_tables_kept_def)
  have "\<exists>s'. require_permission en now perm u ctx s2 = Inr s'"
    using keys_read_twice [OF assms(13-15) kept, of ?u ?org] assms(12,16)
    by (auto simp: require_permission_def ctx_def s2_def s1_def current_user_def user_ctx_def user_can_def Let_def)
  then show ?thesis using one two by (auto simp: gate_def enter_def ctx_def)
qed
text \<open>
  To somebody who is not an active member and does not operate the platform, an organization
  that exists, one that was deleted and one that never was give the same answer.
\<close>

theorem foreign_org_looks_missing:
  assumes "ctx_tenant s = None" and "resolve_org_reference en now rq = Inr (Some ref)" and "find_org ref s = Inr found"
    and "\<not> us_is_platform_admin u"
    and "\<forall>m\<in>set (memberships s). \<not> (mb_user_id m = Some (us_id u) \<and> mb_status m = Mb_Active
      \<and> found \<noteq> None \<and> mb_organization_id m = org_id (the found))"
  shows "resolve_tenant en now rq u s = raise_error TenantNotResolvedError"
proof (cases found)
  case None
  then show ?thesis using assms(1-3) by (simp add: resolve_tenant_def)
next
  case (Some org)
  then have "get_active (org_id org) (us_id u) s = Inr None" using assms(5) by (auto simp: get_active_def one_or_none_None)
  then show ?thesis using assms(1-4) Some by (simp add: resolve_tenant_def enter_org_def)
qed

section \<open>A role change is visible at once\<close>

lemma attach_roles_keys:
  "attach_roles m ks s = Inr (m', s') \<Longrightarrow> cache_store s' = cache_store s \<and> mb_organization_id m' = mb_organization_id m
    \<and> set (mb_permission_keys m') = set (mb_permission_keys m)
      \<union> {x. \<exists>k\<in>set ks. \<exists>r. find_role (mb_organization_id m) k s = Inr r \<and> x \<in> set (role_permission_keys (ro_id r) s)}"
proof (induction m ks s rule: attach_roles.induct)
  case (2 m k ks s)
  then obtain m1 s1 where one: "attach_role m k s = Inr (m1, s1)" and rest: "attach_roles m1 ks s1 = Inr (m', s')"
    by (auto simp: bind_r_eq_Inr)
  from attach_roleD [OF one] obtain r where r: "find_role (mb_organization_id m) k s = Inr r"
    "m1 = m\<lparr>mb_permission_keys := sorted_set (mb_permission_keys m @ role_permission_keys (ro_id r) s)\<rparr>"
    "s1 = save_membership m1 (s\<lparr>membership_roles := membership_roles s @ [(mb_id m, ro_id r)]\<rparr>)" by blast
  have same: "find_role o' k' s1 = find_role o' k' s" "role_permission_keys i s1 = role_permission_keys i s" for o' k' i
    by (simp_all add: r(3) find_role_def role_permission_keys_def)
  have "cache_store s1 = cache_store s" by (simp add: r(3) save_membership_def)
  moreover have "mb_organization_id m1 = mb_organization_id m" by (simp add: r(2))
  moreover have "set (mb_permission_keys m1) = set (mb_permission_keys m) \<union> set (role_permission_keys (ro_id r) s)"
    by (simp add: r(2) sorted_set_def)
  ultimately show ?case using 2(1) [OF rest] r(1) same by auto
qed simp

lemma invalidated_perms_miss:
  assumes "clean_ahead_of now perm_cache (perm_key u org) (cache_store s)" and "now \<le> t" "t \<le> now + seconds VERSION_TTL_SECONDS"
    and "cache_store s' = cache_store (invalidate_user_perms acfg now u org s)"
  shows "cached_perms t u org s' = None"
proof -
  let ?st = "snd (bump (ttl_backend now) perm_cache (cache_store s) (perm_key u org))"
  have st: "cache_store s' = snd (bump (ttl_backend now) fga_cache ?st (fga_scope u (org_object org)))"
    by (simp add: assms(4) invalidate_user_perms_def queue_tuple_sync_def bump_and_defer_def split: option.split)
  have neq: "version_key perm_cache k \<noteq> version_key fga_cache k'" "body_key perm_cache k v \<noteq> version_key fga_cache k'" for k k' v
    by (metis perm_names(1,2,5))+
  have "cached_perms t u org s' = fst (fst (get_versioned (ttl_backend t) perm_cache ?st (perm_key u org)))"
    unfolding cached_perms_def st ttl.get_versioned_value by (simp add: ttl.bump_frame [OF assms(2)] neq)
  then show ?thesis using ttl_miss_after_bump [OF assms(1-3)] by simp
qed


section \<open>Tokens and keys\<close>

text \<open>PyJWT gives back what it encoded, for the same key and issuer, from the time of issue until the expiry.\<close>

definition jwt_reads :: "crypto \<Rightarrow> json_object \<Rightarrow> string \<Rightarrow> bool" where
  "jwt_reads c payload key \<longleftrightarrow> (\<forall>iss req t e. map_of payload ''iss'' = Some (JStr iss) \<longrightarrow> set req \<subseteq> fst ` set payload
     \<longrightarrow> map_of payload ''exp'' = Some (JInt e) \<longrightarrow> epoch_seconds t < e
     \<longrightarrow> (\<forall>i. map_of payload ''iat'' = Some (JInt i) \<longrightarrow> i \<le> epoch_seconds t)
     \<longrightarrow> jwt_decode c (jwt_encode c payload key) key iss req t = Some payload)"

lemma epoch_seconds_mono: "a \<le> b \<Longrightarrow> epoch_seconds a \<le> epoch_seconds b"
  by (simp add: epoch_seconds_def zdiv_mono1)

text \<open>
  An access token, until it expires, authenticates the user it was made for as long as that
  user is active, and names the organization it was scoped to when no header does.
\<close>

theorem access_token_reads_back:
  assumes "jwt_reads (en_crypto en) (access_payload (en_identity en) now (us_id u) (us_email u) (Some org) a) (secret_key (en_identity en))"
    and "accounts_ok s" and "u \<in> set (users s)"
    and "now \<le> t" and "epoch_seconds t < epoch_seconds (now + seconds (access_token_ttl_seconds (en_identity en)))"
    and "token = create_access_token (en_crypto en) (en_identity en) now (us_id u) (us_email u) (Some org) a"
  shows "user_of_token en t token s = (if us_is_active u then Inr u else raise_error AuthenticationError)
    \<and> resolve_org_reference en t \<lparr>rq_authorization = Some (''Bearer '' @ token), rq_org_id = None, rq_org_slug = None, rq_host = []\<rparr>
      = Inr (Some (Ref_id org))"
proof -
  let ?p = "access_payload (en_identity en) now (us_id u) (us_email u) (Some org) a"
  have "jwt_decode (en_crypto en) token (secret_key (en_identity en)) ISSUER [''exp'', ''iat'', ''sub'', ''type''] t = Some ?p"
    using assms(1,5) epoch_seconds_mono [OF assms(4)]
    unfolding jwt_reads_def assms(6) create_access_token_def by (simp add: access_payload_def)
  then have dec: "decode_access_token (en_crypto en) (en_identity en) t token = Inr ?p"
    by (simp add: decode_access_token_def access_payload_def)
  have "distinct (map us_id (users s))" using assms(2) by (simp add: accounts_ok_def)
  from distinct_key_find [OF this assms(3)] have "get_user (us_id u) s = Some u" by (simp add: get_user_def)
  then show ?thesis using dec
    by (simp add: user_of_token_def claim_uuid_def access_payload_def resolve_org_reference_def bearer_def starts_with_def
        before_char_def Let_def)
qed

definition keys_ok :: "'a access_db_scheme \<Rightarrow> bool" where
  "keys_ok s \<longleftrightarrow> distinct (map ak_id (api_keys s)) \<and> distinct (map ak_key_hash (api_keys s))
     \<and> (\<forall>k\<in>set (api_keys s). ak_id k < next_uuid s)"

lemma key_scopesD:
  "key_scopes scopes (Some ks) = Inr granted \<Longrightarrow> set granted \<subseteq> ks \<and> (scopes \<noteq> [] \<longrightarrow> granted = scopes)"
  by (auto simp: key_scopes_def bind_r_eq_Inr Let_def filter_empty_conv split: if_splits)

lemma verify_key_found:
  assumes "distinct (map ak_key_hash (api_keys s))" and "k \<in> set (api_keys s)" and "ak_key_hash k = sha256 c token"
    and "starts_with KEY_PREFIX token"
  shows "verify_key c now token s = (if ak_is_active now k
    then Inr (Some (k\<lparr>ak_last_used_at := Some now\<rparr>), save_key (k\<lparr>ak_last_used_at := Some now\<rparr>) s) else Inr (None, s))"
proof -
  from distinct_key_filter [OF assms(1-3)] assms(4) show ?thesis
    by (simp add: verify_key_def one_or_none_def Let_def)
qed

lemma key_writes_keep [simp]:
  fixes s :: "'a access_db_scheme"
  shows "api_keys (org_audit ev org t d s) = api_keys s"
    and "next_uuid s \<le> next_uuid (append_outbox ev ty i p o' (org_audit ev' org t d s))"
  by (simp_all add: org_audit_def audit_log_as_def Let_def split: prod.split)

lemma revoked_key_refused:
  assumes "keys_ok s" and mem: "k \<in> set (api_keys s)" and "ak_organization_id k = org"
    and "ak_key_hash k = sha256 c plain" and "starts_with KEY_PREFIX plain"
    and "revoke_key at (ak_id k) org s = Inr (k', s')"
  shows "verify_key c later plain s' = Inr (None, s')"
proof -
  have ids: "distinct (map ak_id (api_keys s))" using assms(1) by (simp add: keys_ok_def)
  let ?k = "k\<lparr>ak_revoked_at := Some at\<rparr>"
  have "get_scoped_key (ak_id k) org s = Inr k" using key_lookup.get_iff [OF ids] mem assms(3) by simp
  with assms(6) have s': "api_keys s' = api_keys (save_key ?k s)" by (auto simp: revoke_key_def Let_def)
  have only: "x = k" if "x \<in> set (api_keys s)" "ak_id x = ak_id k" for x
    using distinct_key_unique [OF ids that(1) mem] that(2) by simp
  have m: "api_keys s' = map (\<lambda>x. if x = k then ?k else x) (api_keys s)"
    using only by (auto simp: s' save_key_def update_where_def)
  have "map ak_key_hash (api_keys s') = map ak_key_hash (api_keys s)" by (simp add: m if_distrib cong: if_cong)
  then have "distinct (map ak_key_hash (api_keys s'))" using assms(1) by (simp add: keys_ok_def)
  moreover have "?k \<in> set (api_keys s')" using mem by (auto simp: m)
  ultimately show ?thesis using verify_key_found [of s' ?k c plain later] assms(4,5) by (simp add: ak_is_active_def)
qed

text \<open>
  A new key gets no scope its creator lacks: the requested ones or, when none are named, the
  creator's own. Its plaintext is accepted while the key is active, and never again after it is
  revoked; another organization cannot revoke it, and is told it does not exist.
\<close>

theorem key_lifecycle:
  assumes "keys_ok s" and "create_key c now org name scopes expires creator (Some ks) fresh s = Inr ((k, plain), s')"
  shows "set (ak_scopes k) \<subseteq> ks \<and> (scopes \<noteq> [] \<longrightarrow> ak_scopes k = scopes) \<and> ak_organization_id k = org
    \<and> (ak_is_active later k \<longrightarrow> (\<exists>s2. verify_key c later plain s' = Inr (Some (k\<lparr>ak_last_used_at := Some later\<rparr>), s2)))
    \<and> (revoke_key at (ak_id k) org s' = Inr (k', s3) \<longrightarrow> verify_key c later plain s3 = Inr (None, s3))
    \<and> (other \<noteq> org \<longrightarrow> revoke_key at (ak_id k) other s' = raise_error ApiKeyNotFoundError)"
proof -
  from assms(2) obtain granted shown where g: "key_scopes scopes (Some ks) = Inr granted" and plain: "plain = KEY_PREFIX @ fresh"
      and k: "ak_scopes k = granted" "ak_organization_id k = org" "ak_key_hash k = sha256 c plain" "ak_id k = next_uuid s"
      and uniq: "\<forall>x\<in>set (api_keys s). ak_key_hash x \<noteq> ak_key_hash k"
      and s': "s' = append_outbox API_KEY_CREATED ''api_key'' (ak_id k) shown (Some org)
        (org_audit API_KEY_CREATED org (Some (''api_key'', ak_id k)) (Some shown)
          (s\<lparr>next_uuid := Suc (next_uuid s), api_keys := api_keys s @ [k]\<rparr>))"
    by (auto simp: create_key_def bind_r_eq_Inr Let_def)
  have rows: "api_keys s' = api_keys s @ [k]" by (simp add: s')
  have "next_uuid s < next_uuid s'"
    using key_writes_keep(2) [of "s\<lparr>next_uuid := Suc (next_uuid s), api_keys := api_keys s @ [k]\<rparr>"]
    unfolding s' by (rule less_le_trans [rotated]) simp
  then have ok: "keys_ok s'"
    using assms(1) uniq by (auto simp: keys_ok_def rows k(4) image_iff dest: less_trans)
  then have hashes: "distinct (map ak_key_hash (api_keys s'))" by (simp add: keys_ok_def)
  have mem: "k \<in> set (api_keys s')" by (simp add: rows)
  have pre: "starts_with KEY_PREFIX plain" by (simp add: plain starts_with_def)
  have "verify_key c later plain s3 = Inr (None, s3)" if "revoke_key at (ak_id k) org s' = Inr (k', s3)"
    by (rule revoked_key_refused [OF ok mem k(2,3) pre that])
  moreover have "revoke_key at (ak_id k) other s' = raise_error ApiKeyNotFoundError" if "other \<noteq> org"
  proof -
    have ids: "distinct (map ak_id (api_keys s'))" using ok by (simp add: keys_ok_def)
    have "get_scoped_key (ak_id k) other s' = raise_error ApiKeyNotFoundError"
      using that k(2) distinct_key_unique [OF ids _ mem] by (intro key_lookup.foreign [OF ids]) auto
    then show ?thesis by (simp add: revoke_key_def)
  qed
  ultimately show ?thesis using key_scopesD [OF g] verify_key_found [OF hashes mem k(3) pre, of later] k(1,2) by auto
qed

section \<open>A concrete organization with a member and a key\<close>

definition demo_member :: membership where
  "demo_member = \<lparr>mb_id = 15, mb_organization_id = 7, mb_user_id = Some 5, mb_invited_email = None,
     mb_invite_token_hash = None, mb_status = Mb_Active, mb_joined_at = Some 0, mb_permission_keys = [''org:read''],
     mb_created_at = 0\<rparr>"

definition demo_org :: organization where
  "demo_org = \<lparr>org_id = 7, org_slug = ''acme'', org_name = ''Acme'', org_status = Org_Active,
     org_owner_user_id = None, org_settings = [], org_deleted_at = None\<rparr>"

definition demo_key :: api_key where
  "demo_key = \<lparr>ak_id = 16, ak_organization_id = 7, ak_name = ''ci'', ak_prefix = ''sk_abcde'', ak_key_hash = ''sk_abcdefg'',
     ak_scopes = [''org:read'', ''org:update''], ak_expires_at = None, ak_last_used_at = None, ak_revoked_at = None,
     ak_created_by_user_id = Some 5, ak_created_at = 0\<rparr>"

definition demo_access :: access_db where
  "demo_access = ident_db.extend (demo_ident\<lparr>organizations := [demo_org], memberships := [demo_member],
     membership_roles := [(15, 2)], usage_counters := [\<lparr>ct_organization_id = 7, ct_metric = ''users'',
       ct_period_start = GAUGE_PERIOD, ct_quantity_total = 1, ct_soft_limit_notified_at = None, ct_last_event_at = None\<rparr>]\<rparr>)
     \<lparr>api_keys = [demo_key]\<rparr>"

definition demo_payload :: json_object where
  "demo_payload = access_payload demo_identity 0 5 ''ann@x.io'' (Some 7) False"

definition demo_env :: env where
  "demo_env = \<lparr>en_settings = demo_settings, en_identity = demo_identity, en_authz = demo_rbac,
     en_crypto = demo_crypto\<lparr>jwt_decode := (\<lambda>_ _ _ _ t. if epoch_seconds t < 900 then Some demo_payload else None)\<rparr>,
     en_repr = (\<lambda>_. []), en_check = (\<lambda>_ _ _. Inl ()), en_is_ip_literal = (\<lambda>_. False)\<rparr>"

definition demo_request :: "string \<Rightarrow> request" where
  "demo_request token = \<lparr>rq_authorization = Some (''Bearer '' @ token), rq_org_id = None, rq_org_slug = None, rq_host = []\<rparr>"

lemma demo_access_fields [simp]:
  "users demo_access = [demo_user]" "organizations demo_access = [demo_org]" "memberships demo_access = [demo_member]"
  "api_keys demo_access = [demo_key]" "cache_store demo_access = Map.empty" "next_uuid demo_access = 20"
  "roles demo_access = [demo_role]" "permission_rows demo_access = [\<lparr>pr_id = 3, pr_key = ''org:read''\<rparr>]"
  "role_permissions demo_access = [(2, 3)]" "membership_roles demo_access = [(15, 2)]" "usage_counters demo_access = [\<lparr>ct_organization_id = 7, ct_metric = ''users'',
       ct_period_start = GAUGE_PERIOD, ct_quantity_total = 1, ct_soft_limit_notified_at = None, ct_last_event_at = None\<rparr>]"
  "ctx_tenant demo_access = None"
  "metric_rows demo_access = [\<lparr>mt_key = ''users'', mt_name = ''Seats'', mt_kind = Gauge,
          mt_unit = None, mt_overage_unit = None, mt_overage_price_cents = None\<rparr>]"
  by (simp_all add: demo_access_def demo_ident_def demo_auth_def demo_usage_def demo_ents_def demo_sub_simps sub_db.defs
      ent_db.defs usage_db.defs acct_db.defs auth_db.defs ident_db.defs)

lemma empty_cache_misses: "cache_store s = Map.empty \<Longrightarrow> cached_perms now u org s = None"
  by (simp add: cached_perms_def ttl.get_versioned_value ttl_view_def)

lemma demo_access_ok [simp]:
  "unique_memberships (memberships demo_access)" "perms_fresh now demo_access" "plain_keys demo_access"
  "accounts_ok demo_access" "keys_ok demo_access"
  by (simp_all add: unique_memberships_def demo_member_def perms_fresh_def empty_cache_misses plain_keys_def
      accounts_ok_def demo_user_def keys_ok_def demo_key_def)

lemma demo_key_login:
  "\<exists>u s1. get_current_user demo_env 0 (demo_request ''sk_abcdefg'') (fresh_request demo_access) = Inr (u, s1)"
  by (simp add: get_current_user_def bearer_def demo_request_def starts_with_def KEY_PREFIX_def verify_key_def
      one_or_none_def demo_env_def demo_crypto_def demo_key_def ak_is_active_def key_owner_def first_row_def demo_org_def
      save_key_def update_where_def Let_def)

lemma demo_keys [simp]: "current_keys 5 7 demo_access = {''org:read''}"
  by (simp add: current_keys_def rows_where_def demo_member_def)

lemma demo_key_gate:
  "\<exists>u ctx s'. gate demo_env 0 ''org:read'' (demo_request ''sk_abcdefg'') demo_access = Inr ((u, ctx), s')"
proof -
  from demo_key_login obtain u s1 where run:
    "get_current_user demo_env 0 (demo_request ''sk_abcdefg'') (fresh_request demo_access) = Inr (u, s1)" by blast
  have b: "bearer (demo_request ''sk_abcdefg'') = Some ''sk_abcdefg''" "starts_with KEY_PREFIX ''sk_abcdefg''"
    by (simp_all add: bearer_def demo_request_def starts_with_def KEY_PREFIX_def)
  show ?thesis
  proof (rule key_login [OF run b])
    fix k org
    assume k: "k \<in> set (api_keys (fresh_request demo_access))"
      and ten: "ctx_tenant s1 = Some \<lparr>tc_organization_id = ak_organization_id k, tc_slug = org_slug org, tc_is_platform = False\<rparr>"
      and usr: "\<exists>i e. ctx_user s1 = Some \<lparr>uc_user_id = i, uc_email = e, uc_is_platform_admin = False,
          uc_permission_keys = set (ak_scopes k), uc_api_key_id = Some (ak_id k),
          uc_api_key_scopes = Some (set (ak_scopes k)), uc_api_key_creator_id = ak_created_by_user_id k\<rparr>"
      and kept: "access_tables_kept (fresh_request demo_access) s1"
        "same_perms_view 0 (cache_store (fresh_request demo_access)) (cache_store s1)"
    have key: "k = demo_key" using k by simp
    have "access_tables_kept demo_access s1" "same_perms_view 0 (cache_store demo_access) (cache_store s1)" using kept by simp_all
    from fresh_keys_read [OF demo_access_ok(1,2) this, of 5 7] obtain st where
      "permission_keys_for 0 5 7 s1 = Inr ({''org:read''}, s1\<lparr>cache_store := st\<rparr>)" by auto
    moreover have "get_user 5 s1 = Some demo_user"
      using kept(1) by (simp add: get_user_def first_row_def access_tables_kept_def demo_user_def)
    ultimately show ?thesis
      using run ten usr unfolding key
      by (auto simp: gate_def enter_def resolve_tenant_def require_permission_def require_key_permission_def
          current_user_def demo_key_def demo_user_def)
  qed
qed


lemma demo_token_user: "user_of_token demo_env 0 ''jwt'' (fresh_request demo_access) = Inr demo_user"
  by (simp add: user_of_token_def decode_access_token_def demo_env_def demo_payload_def access_payload_def epoch_seconds_def
      claim_uuid_def get_user_def first_row_def demo_user_def)

lemma demo_reference: "resolve_org_reference demo_env 0 (demo_request ''jwt'') = Inr (Some (Ref_id 7))"
  by (simp add: resolve_org_reference_def demo_request_def before_char_def bearer_def starts_with_def Let_def
      decode_access_token_def demo_env_def demo_payload_def access_payload_def epoch_seconds_def)

lemma demo_user_gate:
  "\<exists>ctx s'. gate demo_env 0 ''org:read'' (demo_request ''jwt'') demo_access = Inr ((demo_user, ctx), s')
     \<and> tc_organization_id ctx = 7"
proof -
  have "bearer (demo_request ''jwt'') = Some ''jwt''" "\<not> starts_with KEY_PREFIX ''jwt''" "az_backend (en_authz demo_env) = Rbac"
    by (simp_all add: bearer_def demo_request_def starts_with_def KEY_PREFIX_def demo_env_def demo_rbac_def)
  moreover have "find_org (Ref_id 7) demo_access = Inr (Some demo_org)" by (simp add: find_org_def first_row_def demo_org_def)
  moreover have "user_of_token demo_env 0 ''jwt'' demo_access = Inr demo_user" 
    using demo_token_user user_of_token_cong [of "fresh_request demo_access" demo_access demo_env 0 "''jwt''"] by simp
  ultimately show ?thesis
    using gate_admits_every_entitled_member [OF _ _ _ demo_reference, of "''jwt''" demo_access demo_user demo_org demo_member "''org:read''"]
      demo_access_ok(1-3) demo_keys by (simp add: demo_org_def demo_member_def demo_user_def)
qed


theorem foreign_org_looks_missing_witness:
  "resolve_tenant demo_env 0 ((demo_request ''jwt'')\<lparr>rq_org_slug := Some ''acme''\<rparr>) (demo_user\<lparr>us_id := 6\<rparr>) demo_access
     = raise_error TenantNotResolvedError"
proof -
  have "resolve_org_reference demo_env 0 ((demo_request ''jwt'')\<lparr>rq_org_slug := Some ''acme''\<rparr>) = Inr (Some (Ref_slug ''acme''))"
    by (simp add: resolve_org_reference_def demo_request_def Let_def)
  moreover have "find_org (Ref_slug ''acme'') demo_access = Inr (Some demo_org)"
    by (simp add: find_org_def get_by_slug_def one_or_none_def demo_org_def)
  ultimately show ?thesis
    using foreign_org_looks_missing [of demo_access demo_env 0 _ "Ref_slug ''acme''" "Some demo_org" "demo_user\<lparr>us_id := 6\<rparr>"]
    by (simp add: demo_user_def demo_member_def)
qed

lemma demo_access_inv: "tenancy_inv demo_access"
  by (auto simp: inv_but_def auth_ids_ok_def used_ids_def perms_current_def unique_memberships_def granted_keys_def
      seat_gauge_def seats_def counter_total_def is_counter_def counter_key_def count_active_members_def
      count_pending_invites_def rows_where_def role_permission_keys_def sorted_set_def demo_role_def demo_member_def)


theorem access_token_reads_back_witness:
  "user_of_token demo_env (seconds 60) (create_access_token (en_crypto demo_env) demo_identity 0 5 ''ann@x.io'' (Some 7) False) demo_access
     = Inr demo_user"
proof -
  have "jwt_reads (en_crypto demo_env) (access_payload (en_identity demo_env) 0 (us_id demo_user) (us_email demo_user) (Some 7) False)
      (secret_key (en_identity demo_env))"
    by (simp add: jwt_reads_def demo_env_def demo_payload_def demo_user_def access_payload_def demo_identity_def
        epoch_seconds_def seconds_def)
  from access_token_reads_back [OF this demo_access_ok(4), of "seconds 60" _]
  show ?thesis by (simp add: demo_user_def demo_env_def demo_identity_def epoch_seconds_def seconds_def)
qed

theorem key_lifecycle_witness:
  "\<exists>k plain s' s2. create_key demo_crypto 0 7 ''bot'' [] None (Some 5) (Some {''org:read''}) ''second'' demo_access = Inr ((k, plain), s')
     \<and> ak_scopes k = [''org:read''] \<and> verify_key demo_crypto 1 plain s' = Inr (Some (k\<lparr>ak_last_used_at := Some 1\<rparr>), s2)"
proof -
  obtain k plain s' where run:
    "create_key demo_crypto 0 7 ''bot'' [] None (Some 5) (Some {''org:read''}) ''second'' demo_access = Inr ((k, plain), s')"
    "ak_is_active 1 k" "ak_scopes k = [''org:read'']"
    by (simp add: create_key_def key_scopes_def unknown_permissions_def demo_key_def demo_crypto_def KEY_PREFIX_def
        PREFIX_DISPLAY_LENGTH_def ak_is_active_def Let_def)
  from key_lifecycle [OF demo_access_ok(5) run(1), of 1] run show ?thesis by blast
qed

end
