(* ===== verification/Invoicing.thy ===== *)
theory Invoicing
  imports Access
begin

text \<open>
  \<open>billing/invoicing.py\<close> over the invoices and customers of \<open>billing/models.py\<close>: drafting an
  invoice from the plan snapshot, the usage counters and the queued adjustments, numbering,
  payment and voiding. The description texts of the lines are not represented.
\<close>

section \<open>State\<close>

datatype line_kind = Plan_Line | Overage_Line | Credit_Line | Custom_Line

record line_data =
  ld_kind :: line_kind
  ld_quantity :: int
  ld_unit_amount_cents :: int
  ld_amount_cents :: int
  ld_metric :: "string option"
  ld_properties :: json_object

record invoice_line =
  il_id :: uuid
  il_invoice_id :: uuid
  il_organization_id :: uuid
  il_data :: line_data

record invoice =
  inv_id :: uuid
  inv_organization_id :: uuid
  inv_billing_customer_id :: "uuid option"
  inv_provider :: "string option"
  inv_provider_invoice_id :: "string option"
  inv_number :: "string option"
  inv_currency :: string
  inv_subtotal_cents :: int
  inv_tax_cents :: int
  inv_total_cents :: int
  inv_status :: invoice_status
  inv_period_start :: "datetime option"
  inv_period_end :: "datetime option"
  inv_hosted_url :: "string option"
  inv_pdf_url :: "string option"
  inv_issued_at :: "datetime option"
  inv_paid_at :: "datetime option"
  inv_created_at :: datetime

record billing_customer =
  bc_id :: uuid
  bc_organization_id :: uuid
  bc_provider :: string
  bc_provider_customer_id :: "string option"
  bc_email :: "string option"
  bc_name :: "string option"
  bc_currency :: "string option"

record provider_webhook_event =
  pw_id :: uuid
  pw_provider :: string
  pw_provider_event_id :: string
  pw_event_type :: string
  pw_processed_at :: "datetime option"
  pw_rejected :: "nat option"  \<comment> \<open>how many events the row's \<open>error\<close> text lists\<close>

record bill_db = access_db +
  billing_customers :: "billing_customer list"
  invoices :: "invoice list"
  invoice_lines :: "invoice_line list"
  provider_webhook_events :: "provider_webhook_event list"

text \<open>\<open>uq_invoices_org_number\<close> and \<open>uq_invoices_provider_ref\<close>.\<close>

definition unique_invoices :: "invoice list \<Rightarrow> bool" where
  "unique_invoices rows =
     (distinct (map (\<lambda>r. (inv_organization_id r, inv_number r)) (filter (\<lambda>r. inv_number r \<noteq> None) rows))
      \<and> distinct (map (\<lambda>r. (inv_provider r, inv_provider_invoice_id r))
          (filter (\<lambda>r. inv_provider r \<noteq> None \<and> inv_provider_invoice_id r \<noteq> None) rows)))"

definition flush_invoices :: "'a bill_db_scheme \<Rightarrow> error + 'a bill_db_scheme" where
  "flush_invoices s = (if unique_invoices (invoices s) then Inr s else Inl IntegrityError)"

definition save_invoice :: "invoice \<Rightarrow> 'a bill_db_scheme \<Rightarrow> 'a bill_db_scheme" where
  "save_invoice r s = s\<lparr>invoices := update_where (\<lambda>x. inv_id x = inv_id r) (\<lambda>_. r) (invoices s)\<rparr>"

section \<open>Lines\<close>

definition json_int_or_zero :: "json option \<Rightarrow> int" where
  "json_int_or_zero v = (case v of Some (JInt n) \<Rightarrow> n | _ \<Rightarrow> 0)"

definition snapshot_price :: "json_object \<Rightarrow> int" where
  "snapshot_price snap = json_int_or_zero (map_of snap ''price_cents'')"

definition snapshot_currency :: "json_object \<Rightarrow> string" where
  "snapshot_currency snap = (case map_of snap ''currency'' of None \<Rightarrow> ''PHP'' | v \<Rightarrow> json_str v)"

definition plan_lines :: "json_object \<Rightarrow> line_data list" where
  "plan_lines snap =
     (let cents = snapshot_price snap
      in if cents > 0
         then [\<lparr>ld_kind = Plan_Line, ld_quantity = 1, ld_unit_amount_cents = cents,
                ld_amount_cents = cents, ld_metric = None, ld_properties = []\<rparr>]
         else [])"

definition overage_line :: "uuid \<Rightarrow> date \<Rightarrow> 'a bill_db_scheme \<Rightarrow> string \<times> limit \<Rightarrow> line_data option" where
  "overage_line org period s = (\<lambda>(metric, l).
     (case (lim_value l, lim_overage l) of
        (Some included, Some ov) \<Rightarrow>
          (let units_over = counter_total org metric period s - included
           in if units_over \<le> 0 then None
              else (let (quantity, cents) = bill ov units_over
                    in Some \<lparr>ld_kind = Overage_Line, ld_quantity = quantity,
                         ld_unit_amount_cents = ov_price_cents ov, ld_amount_cents = cents,
                         ld_metric = Some metric,
                         ld_properties = [(''units_over'', JInt units_over), (''included'', JInt included),
                           (''overage_unit'', JInt (ov_unit ov))]\<rparr>))
      | _ \<Rightarrow> None))"

definition overage_lines :: "uuid \<Rightarrow> date \<Rightarrow> effective_entitlements \<Rightarrow> 'a bill_db_scheme \<Rightarrow> line_data list" where
  "overage_lines org period e s = List.map_filter (overage_line org period s) (sort_key fst (ef_limits e))"

definition adjustment_line :: "json_object \<Rightarrow> line_data option" where
  "adjustment_line adj =
     (let amount = json_int_or_zero (map_of adj ''amount_cents'')
      in if amount = 0 then None
         else Some \<lparr>ld_kind = (if amount < 0 then Credit_Line else Custom_Line), ld_quantity = 1,
           ld_unit_amount_cents = amount, ld_amount_cents = amount, ld_metric = None,
           ld_properties = filter (\<lambda>(k, _). k \<notin> {''description'', ''amount_cents''}) adj\<rparr>)"

definition adjustment_lines :: "json_object list \<Rightarrow> line_data list" where
  "adjustment_lines adjs = List.map_filter adjustment_line adjs"

definition carryover :: "datetime \<Rightarrow> int \<Rightarrow> json_object" where
  "carryover now amount =
     [(''kind'', JStr ''credit_carryover''), (''amount_cents'', JInt amount),
      (''description'', JStr ''Credit carried forward from the previous invoice''),
      (''created_at'', JTime now)]"

section \<open>Numbers\<close>

definition zpad :: "nat \<Rightarrow> string \<Rightarrow> string" where
  "zpad n t = (if length t < n then replicate (n - length t) (CHR ''0'') @ t else t)"

definition month_stamp :: "datetime \<Rightarrow> string" where
  "month_stamp now = (let d = date_of now
     in zpad 4 (nat_str (nat (d_year d))) @ zpad 2 (nat_str (nat (d_month d))))"

definition numbered :: "uuid \<Rightarrow> invoice \<Rightarrow> bool" where
  "numbered org r \<longleftrightarrow> inv_organization_id r = org \<and> inv_number r \<noteq> None"

definition invoice_number :: "string \<Rightarrow> nat \<Rightarrow> string" where
  "invoice_number stamp n = ''INV-'' @ stamp @ ''-'' @ zpad 4 (nat_str n)"

definition next_number :: "datetime \<Rightarrow> uuid \<Rightarrow> 'a bill_db_scheme \<Rightarrow> string" where
  "next_number now org s =
     invoice_number (month_stamp now) (length (rows_where (numbered org) (invoices s)) + 1)"

section \<open>Operations\<close>

definition get_scoped_invoice :: "uuid \<Rightarrow> uuid \<Rightarrow> 'a bill_db_scheme \<Rightarrow> error + invoice" where
  "get_scoped_invoice i org s =
     (case first_row (\<lambda>r. inv_id r = i) (invoices s) of
        None \<Rightarrow> raise_error InvoiceNotFoundError
      | Some r \<Rightarrow> if inv_organization_id r \<noteq> org then raise_error InvoiceNotFoundError else Inr r)"

lemma get_scoped_row:
  "get_scoped_invoice i org s = scoped_row (Domain InvoiceNotFoundError []) inv_id (\<lambda>r. Some (inv_organization_id r)) i org (invoices s)"
  by (auto simp: get_scoped_invoice_def scoped_row_def split: option.split)

interpretation scoped_invoices: tenant_scoped_get get_scoped_invoice invoices inv_id "\<lambda>r. Some (inv_organization_id r)"
  "\<lambda>_. Domain InvoiceNotFoundError []"
  by unfold_locales (use scoped_row_laws [where owner = "\<lambda>r. Some (inv_organization_id r)" and ident = inv_id]
      in \<open>simp_all add: get_scoped_row\<close>)

definition find_draft :: "uuid \<Rightarrow> date \<Rightarrow> 'a bill_db_scheme \<Rightarrow> error + invoice option" where
  "find_draft org period s =
     one_or_none MultipleResultsFound
       (\<lambda>r. inv_organization_id r = org \<and> inv_status r = Draft
            \<and> map_option date_of (inv_period_start r) = Some period) (invoices s)"

definition active_subscription :: "uuid \<Rightarrow> 'a sub_db_scheme \<Rightarrow> error + subscription" where
  "active_subscription org s =
     (case current_for_org org s of Some r \<Rightarrow> Inr r | None \<Rightarrow> raise_error ValidationFailedError)"

definition month_end :: "date \<Rightarrow> datetime" where
  "month_end period = midnight (first_of_month (date_add_days period 32)) - days 1 + seconds 86399"

fun add_lines :: "uuid \<Rightarrow> uuid \<Rightarrow> line_data list \<Rightarrow> 'a bill_db_scheme \<Rightarrow> 'a bill_db_scheme" where
  "add_lines i org [] s = s"
| "add_lines i org (l # ls) s =
     add_lines i org ls
       (s\<lparr>next_uuid := Suc (next_uuid s),
          invoice_lines := invoice_lines s @ [\<lparr>il_id = next_uuid s, il_invoice_id = i, il_organization_id = org, il_data = l\<rparr>]\<rparr>)"

definition draft_for_org ::
  "settings \<Rightarrow> datetime \<Rightarrow> uuid \<Rightarrow> date option \<Rightarrow> 'a bill_db_scheme \<Rightarrow> error + (invoice \<times> 'a bill_db_scheme)" where
  "draft_for_org cfg now org period s =
     (let period_start = (case period of Some p \<Rightarrow> p | None \<Rightarrow> month_bucket now)
      in bind_r (find_draft org period_start s) (\<lambda>existing.
           case existing of Some r \<Rightarrow> Inr (r, s)
           | None \<Rightarrow>
             bind_r (active_subscription org s) (\<lambda>sub.
             bind_r (effective_for_org cfg now org s) (\<lambda>(e, s1).
               let lines = plan_lines (sub_plan_snapshot sub) @ overage_lines org period_start e s1
                     @ adjustment_lines (sub_pending_adjustments sub);
                   amount = sum_list (map ld_amount_cents lines);
                   sub' = sub\<lparr>sub_pending_adjustments := (if amount < 0 then [carryover now amount] else [])\<rparr>;
                   subtotal = (if amount < 0 then 0 else amount);
                   r = \<lparr>inv_id = next_uuid s1, inv_organization_id = org, inv_billing_customer_id = None,
                        inv_provider = Some ''synapse'', inv_provider_invoice_id = None, inv_number = None,
                        inv_currency = snapshot_currency (sub_plan_snapshot sub), inv_subtotal_cents = subtotal,
                        inv_tax_cents = 0, inv_total_cents = subtotal, inv_status = Draft,
                        inv_period_start = Some (midnight period_start), inv_period_end = Some (month_end period_start),
                        inv_hosted_url = None, inv_pdf_url = None, inv_issued_at = None, inv_paid_at = None,
                        inv_created_at = tx_now s1\<rparr>;
                   s2 = save_subscription sub' s1;
                   s3 = s2\<lparr>next_uuid := Suc (next_uuid s2), invoices := invoices s2 @ [r]\<rparr>
               in bind_r (flush_invoices s3) (\<lambda>s4.
                    Inr (r, audit_log_default INVOICE_CREATED (Some org) ''invoice'' (inv_id r)
                      (Some [(''period'', JDate (d_year period_start) (d_month period_start) (d_day period_start)),
                             (''lines'', JInt (int (length lines))), (''subtotal_cents'', JInt subtotal)])
                      (add_lines (inv_id r) org lines s4)))))))"

definition invoice_email :: "invoice \<Rightarrow> uuid \<Rightarrow> string \<Rightarrow> 'a bill_db_scheme \<Rightarrow> 'a bill_db_scheme" where
  "invoice_email r org reason s =
     append_outbox (EVENT ''invoice.email'') ''invoice'' (inv_id r)
       [(''invoice_id'', JUuid (inv_id r)), (''reason'', JStr reason)] (Some org) s"

definition finalize_invoice ::
  "datetime \<Rightarrow> uuid \<Rightarrow> uuid \<Rightarrow> 'a bill_db_scheme \<Rightarrow> error + (invoice \<times> 'a bill_db_scheme)" where
  "finalize_invoice now i org s =
     bind_r (get_scoped_invoice i org s) (\<lambda>r.
       if inv_status r = Open then Inr (r, s)
       else bind_r (assert_invoice_transition (inv_status r) Open) (\<lambda>_.
         let r' = r\<lparr>inv_status := Open, inv_number := Some (next_number now org s), inv_issued_at := Some now\<rparr>
         in bind_r (flush_invoices (save_invoice r' s)) (\<lambda>s1.
              Inr (r', audit_log_default (EVENT ''invoice.finalized'') (Some org) ''invoice'' (inv_id r')
                (Some [(''number'', opt_json JStr (inv_number r'))])
                (invoice_email r' org ''finalized''
                  (append_outbox INVOICE_CREATED ''invoice'' (inv_id r')
                    [(''number'', opt_json JStr (inv_number r')), (''total_cents'', JInt (inv_total_cents r')),
                     (''status'', JStr ''open'')] (Some org) s1))))))"

definition record_payment ::
  "datetime \<Rightarrow> uuid \<Rightarrow> uuid \<Rightarrow> int \<Rightarrow> string option \<Rightarrow> 'a bill_db_scheme
    \<Rightarrow> error + (invoice \<times> 'a bill_db_scheme)" where
  "record_payment now i org amount_cents reference s =
     bind_r (get_scoped_invoice i org s) (\<lambda>r.
     bind_r (assert_invoice_transition (inv_status r) Paid) (\<lambda>_.
     bind_r (guard_r (inv_total_cents r \<le> amount_cents)
               (Domain ValidationFailedError
                  [(''expected'', JInt (inv_total_cents r)), (''received'', JInt amount_cents)])) (\<lambda>_.
       let r' = r\<lparr>inv_status := Paid, inv_paid_at := Some now\<rparr>
       in bind_r (flush_invoices (save_invoice r' s)) (\<lambda>s1.
            Inr (r', audit_log_default (EVENT ''invoice.payment_recorded'') (Some org) ''invoice'' (inv_id r')
              (Some [(''amount_cents'', JInt amount_cents), (''reference'', opt_json JStr reference)])
              (invoice_email r' org ''paid''
                (append_outbox INVOICE_PAID ''invoice'' (inv_id r')
                  [(''total_cents'', JInt (inv_total_cents r')), (''currency'', JStr (inv_currency r')),
                   (''reference'', opt_json JStr reference)] (Some org) s1)))))))"

definition void_invoice ::
  "uuid \<Rightarrow> uuid \<Rightarrow> 'a bill_db_scheme \<Rightarrow> error + (invoice \<times> 'a bill_db_scheme)" where
  "void_invoice i org s =
     bind_r (get_scoped_invoice i org s) (\<lambda>r.
     bind_r (assert_invoice_transition (inv_status r) Void) (\<lambda>_.
       let r' = r\<lparr>inv_status := Void\<rparr>
       in bind_r (flush_invoices (save_invoice r' s)) (\<lambda>s1.
            Inr (r', audit_log_default (EVENT ''invoice.voided'') (Some org) ''invoice'' (inv_id r') None s1))))"

definition lines_for :: "uuid \<Rightarrow> uuid \<Rightarrow> 'a bill_db_scheme \<Rightarrow> error + invoice_line list" where
  "lines_for i org s =
     bind_r (get_scoped_invoice i org s) (\<lambda>r. Inr (rows_where (\<lambda>l. il_invoice_id l = inv_id r) (invoice_lines s)))"

section \<open>Renewal of locally billed subscriptions (\<open>worker/jobs.py\<close>)\<close>

text \<open>\<open>_renew_locally_billed\<close>; the subscription row is the one the job has just loaded.\<close>

definition renew_locally_billed ::
  "settings \<Rightarrow> datetime \<Rightarrow> subscription \<Rightarrow> 'a bill_db_scheme \<Rightarrow> error + 'a bill_db_scheme" where
  "renew_locally_billed cfg now sub s =
     (let org = sub_organization_id sub
      in bind_r (if snapshot_price (sub_plan_snapshot sub) > 0 \<or> sub_pending_adjustments sub \<noteq> []
                 then bind_r (draft_for_org cfg now org
                         (Some (first_of_month (date_of (sub_current_period_start sub)))) s) (\<lambda>(r, s1).
                        if inv_status r = Draft
                        then bind_r (finalize_invoice now (inv_id r) org s1) (\<lambda>(_, s2). Inr s2)
                        else Inr s1)
                 else Inr s) (\<lambda>s3.
           let interval = (if map_of (sub_plan_snapshot sub) ''interval'' = Some (JStr ''year'') then days 365 else days 30);
               new_start = sub_current_period_end sub
           in flush_subscriptions
                (s3\<lparr>subscription_rows := update_where (\<lambda>x. sub_id x = sub_id sub)
                   (\<lambda>x. x\<lparr>sub_current_period_start := new_start, sub_current_period_end := new_start + interval\<rparr>)
                   (subscription_rows s3)\<rparr>)))"

text \<open>
  \<open>advance_recurring_billing\<close>: at most \<open>RENEWAL_BATCH\<close> due subscriptions, in the order of their
  period's end; each in its own savepoint, so one that raises leaves no trace.
\<close>

definition RENEWAL_BATCH :: nat where "RENEWAL_BATCH = 100"

definition due_for_renewal :: "string list \<Rightarrow> 'a sub_db_scheme \<Rightarrow> subscription \<Rightarrow> bool" where
  "due_for_renewal local_providers s r \<longleftrightarrow>
     sub_status r = Active \<and> sub_current_period_end r \<le> tx_now s \<and> \<not> sub_cancel_at_period_end r
     \<and> (case sub_provider r of None \<Rightarrow> True | Some p \<Rightarrow> p \<in> set local_providers)"

fun renew_each :: "settings \<Rightarrow> datetime \<Rightarrow> uuid list \<Rightarrow> 'a bill_db_scheme \<Rightarrow> nat \<times> 'a bill_db_scheme" where
  "renew_each cfg now [] s = (0, s)"
| "renew_each cfg now (i # is) s =
     (case first_row (\<lambda>r. sub_id r = i) (subscription_rows s) of
        None \<Rightarrow> renew_each cfg now is s
      | Some r \<Rightarrow>
          (case renew_locally_billed cfg now r s of
             Inl _ \<Rightarrow> renew_each cfg now is s
           | Inr s1 \<Rightarrow> (let (n, s2) = renew_each cfg now is s1 in (Suc n, s2))))"

definition advance_recurring_billing ::
  "settings \<Rightarrow> string list \<Rightarrow> datetime \<Rightarrow> 'a bill_db_scheme \<Rightarrow> nat \<times> 'a bill_db_scheme" where
  "advance_recurring_billing cfg local_providers now s =
     renew_each cfg now
       (map sub_id (take RENEWAL_BATCH (sort_key sub_current_period_end
          (rows_where (due_for_renewal local_providers s) (subscription_rows s))))) s"

section \<open>Money is conserved by drafting\<close>

definition adjustment_amount :: "json_object \<Rightarrow> int" where
  "adjustment_amount adj = json_int_or_zero (map_of adj ''amount_cents'')"

definition line_amount :: "line_data list \<Rightarrow> int" where
  "line_amount ls = sum_list (map ld_amount_cents ls)"

definition reconciles :: "line_data \<Rightarrow> bool" where
  "reconciles l \<longleftrightarrow> ld_amount_cents l = ld_quantity l * ld_unit_amount_cents l"

lemma adjustment_lines_amount: "line_amount (adjustment_lines adjs) = sum_list (map adjustment_amount adjs)"
  by (induction adjs)
    (auto simp: line_amount_def adjustment_lines_def List.map_filter_simps adjustment_line_def
      adjustment_amount_def Let_def)

lemma adjustment_lines_reconcile: "l \<in> set (adjustment_lines adjs) \<Longrightarrow> reconciles l"
  by (induction adjs)
    (auto simp: adjustment_lines_def List.map_filter_simps adjustment_line_def reconciles_def Let_def
      split: if_splits)

lemma overage_line_reconciles: "overage_line org p s x = Some l \<Longrightarrow> reconciles l"
  by (cases x) (auto simp: overage_line_def bill_def Let_def reconciles_def split: option.splits if_splits prod.splits)

lemma map_filter_Some: "l \<in> set (List.map_filter f xs) \<Longrightarrow> \<exists>x\<in>set xs. f x = Some l"
  by (induction xs) (auto simp: List.map_filter_simps split: option.splits)

lemma overage_lines_reconcile: "l \<in> set (overage_lines org p e s) \<Longrightarrow> reconciles l"
  using overage_line_reconciles by (auto simp: overage_lines_def dest!: map_filter_Some)

lemma plan_lines_reconcile: "l \<in> set (plan_lines snap) \<Longrightarrow> reconciles l"
  by (auto simp: plan_lines_def reconciles_def Let_def split: if_splits)

lemma plan_lines_amount: "line_amount (plan_lines snap) = max 0 (snapshot_price snap)"
  by (simp add: plan_lines_def line_amount_def Let_def)

lemma add_lines_fields [simp]:
  "invoices (add_lines i org ls s) = invoices s"
  "subscription_rows (add_lines i org ls s) = subscription_rows s"
  "organizations (add_lines i org ls s) = organizations s"
  "usage_counters (add_lines i org ls s) = usage_counters s"
  "billing_customers (add_lines i org ls s) = billing_customers s"
  "outbox_events (add_lines i org ls s) = outbox_events s"
  "tx_now (add_lines i org ls s) = tx_now s"
  by (induction i org ls s rule: add_lines.induct) simp_all

lemma add_lines_rows:
  "\<exists>new. invoice_lines (add_lines i org ls s) = invoice_lines s @ new
     \<and> map il_data new = ls \<and> (\<forall>l\<in>set new. il_invoice_id l = i \<and> il_organization_id l = org)"
proof (induction i org ls s rule: add_lines.induct)
  case (1 i org s)
  then show ?case by simp
next
  case (2 i org l ls s)
  let ?l = "\<lparr>il_id = next_uuid s, il_invoice_id = i, il_organization_id = org, il_data = l\<rparr>"
  from 2 obtain new where "invoice_lines (add_lines i org (l # ls) s) = (invoice_lines s @ [?l]) @ new"
    "map il_data new = ls" "\<forall>l\<in>set new. il_invoice_id l = i \<and> il_organization_id l = org" by auto
  then show ?case by (intro exI [of _ "?l # new"]) simp
qed

lemma audit_keeps_billing [simp]:
  "invoices (audit_log_as ev org a aty tt ti d s) = invoices s"
  "invoice_lines (audit_log_as ev org a aty tt ti d s) = invoice_lines s"
  "usage_counters (audit_log_as ev org a aty tt ti d s) = usage_counters s"
  "invoices (append_outbox ev ty i p o' s) = invoices s"
  "invoice_lines (append_outbox ev ty i p o' s) = invoice_lines s"
  "invoices (invoice_email r o'' reason s) = invoices s"
  "invoice_lines (invoice_email r o'' reason s) = invoice_lines s"
  "subscription_rows (invoice_email r o'' reason s) = subscription_rows s"
  by (simp_all add: audit_log_as_def append_outbox_def invoice_email_def split: prod.split)

lemma flush_invoices_Inr [simp]: "flush_invoices s = Inr s' \<longleftrightarrow> unique_invoices (invoices s) \<and> s' = s"
  by (auto simp: flush_invoices_def)

lemma save_invoice_fields [simp]:
  "invoices (save_invoice r s) = update_where (\<lambda>x. inv_id x = inv_id r) (\<lambda>_. r) (invoices s)"
  "invoice_lines (save_invoice r s) = invoice_lines s"
  "subscription_rows (save_invoice r s) = subscription_rows s"
  by (simp_all add: save_invoice_def)

lemma save_subscription_billing [simp]:
  "invoices (save_subscription r s) = invoices s"
  "invoice_lines (save_subscription r s) = invoice_lines s"
  "usage_counters (save_subscription r s) = usage_counters s"
  by (simp_all add: save_subscription_def)

text \<open>The lines a draft of the period gets.\<close>

definition draft_lines :: "uuid \<Rightarrow> date \<Rightarrow> subscription \<Rightarrow> effective_entitlements \<Rightarrow> 'a bill_db_scheme \<Rightarrow> line_data list" where
  "draft_lines org p sub e s = plan_lines (sub_plan_snapshot sub) @ overage_lines org p e s
     @ adjustment_lines (sub_pending_adjustments sub)"

lemma draft_for_org_new:
  assumes "draft_for_org cfg now org (Some p) s = Inr (r, s')" and "find_draft org p s = Inr None"
  obtains sub e s1 where "current_for_org org s = Some sub" and "effective_for_org cfg now org s = Inr (e, s1)"
    and "inv_id r = next_uuid s" and "inv_organization_id r = org" and "inv_status r = Draft"
    and "inv_number r = None" and "inv_provider_invoice_id r = None"
    and "inv_period_start r = Some (midnight p)"
    and "inv_total_cents r = max 0 (line_amount (draft_lines org p sub e s1))"
    and "invoices s' = invoices s @ [r]" and "unique_invoices (invoices s @ [r])"
    and "\<exists>new. invoice_lines s' = invoice_lines s @ new \<and> map il_data new = draft_lines org p sub e s1
      \<and> (\<forall>l\<in>set new. il_invoice_id l = inv_id r)"
    and "subscription_rows s' = update_where (\<lambda>x. sub_id x = sub_id sub)
      (\<lambda>_. sub\<lparr>sub_pending_adjustments := (if line_amount (draft_lines org p sub e s1) < 0
         then [carryover now (line_amount (draft_lines org p sub e s1))] else [])\<rparr>) (subscription_rows s)"
proof -
  from assms obtain sub where sub: "current_for_org org s = Some sub"
    by (auto simp: draft_for_org_def active_subscription_def bind_r_eq_Inr split: option.splits)
  from assms sub obtain e s1 where eff: "effective_for_org cfg now org s = Inr (e, s1)"
    by (auto simp: draft_for_org_def active_subscription_def bind_r_eq_Inr Let_def)
  from effective_for_org_frame [OF eff] obtain st where s1: "s1 = s\<lparr>cache_store := st\<rparr>" by blast
  let ?ls = "draft_lines org p sub e s1"
  let ?amount = "line_amount ?ls"
  let ?sub = "sub\<lparr>sub_pending_adjustments := (if ?amount < 0 then [carryover now ?amount] else [])\<rparr>"
  let ?t = "if ?amount < 0 then 0 else ?amount"
  let ?r = "\<lparr>inv_id = next_uuid s1, inv_organization_id = org, inv_billing_customer_id = None,
        inv_provider = Some ''synapse'', inv_provider_invoice_id = None, inv_number = None,
        inv_currency = snapshot_currency (sub_plan_snapshot sub), inv_subtotal_cents = ?t,
        inv_tax_cents = 0, inv_total_cents = ?t, inv_status = Draft,
        inv_period_start = Some (midnight p), inv_period_end = Some (month_end p),
        inv_hosted_url = None, inv_pdf_url = None, inv_issued_at = None, inv_paid_at = None,
        inv_created_at = tx_now s1\<rparr>"
  let ?s2 = "save_subscription ?sub s1"
  let ?s3 = "?s2\<lparr>next_uuid := Suc (next_uuid ?s2), invoices := invoices ?s2 @ [?r]\<rparr>"
  from assms sub eff have u: "unique_invoices (invoices ?s3)" and r: "r = ?r"
    and s': "\<exists>d. s' = audit_log_default INVOICE_CREATED (Some org) ''invoice'' (inv_id ?r) d
      (add_lines (inv_id ?r) org ?ls ?s3)"
    unfolding draft_lines_def line_amount_def
    by (auto simp: draft_for_org_def active_subscription_def bind_r_eq_Inr Let_def)
  from s' obtain d where s': "s' = audit_log_default INVOICE_CREATED (Some org) ''invoice'' (inv_id ?r) d
      (add_lines (inv_id ?r) org ?ls ?s3)" by blast
  show thesis
  proof (rule that [OF sub eff])
    show "inv_id r = next_uuid s" "inv_organization_id r = org" "inv_status r = Draft"
      "inv_number r = None" "inv_provider_invoice_id r = None" "inv_period_start r = Some (midnight p)"
      "inv_total_cents r = max 0 ?amount"
      by (simp_all add: r s1)
    show "invoices s' = invoices s @ [r]" by (simp add: s' r) (simp add: s1)
    show "unique_invoices (invoices s @ [r])" using u unfolding r by (simp add: s1)
    show "\<exists>new. invoice_lines s' = invoice_lines s @ new \<and> map il_data new = ?ls
      \<and> (\<forall>l\<in>set new. il_invoice_id l = inv_id r)"
      using add_lines_rows [of "inv_id ?r" org ?ls ?s3] by (auto simp: s' r) (auto simp: s1)
    show "subscription_rows s' = update_where (\<lambda>x. sub_id x = sub_id sub) (\<lambda>_. ?sub) (subscription_rows s)"
      by (simp add: s') (simp add: s1)
  qed
qed

text \<open>Drafting is refused for want of a subscription or entitlements only.\<close>

lemma draft_returns:
  assumes "find_draft org p s = Inr None" and "current_for_org org s = Some sub"
    and "effective_for_org cfg now org s = Inr (e, s1)" and "unique_invoices (invoices s)"
  shows "\<exists>r s'. draft_for_org cfg now org (Some p) s = Inr (r, s')"
proof -
  from effective_for_org_frame [OF assms(3)] obtain st where s1: "s1 = s\<lparr>cache_store := st\<rparr>" by blast
  have plain: "unique_invoices (invoices s1 @ [r])" if "inv_number r = None" "inv_provider_invoice_id r = None" for r
    using assms(4) that by (simp add: unique_invoices_def s1)
  show ?thesis
    using assms(1-3) by (simp add: draft_for_org_def active_subscription_def Let_def bind_r_eq_Inr plain)
qed

definition queued :: "subscription \<Rightarrow> int" where
  "queued sub = sum_list (map adjustment_amount (sub_pending_adjustments sub))"

text \<open>
  C20. Drafting conserves money. The new draft's lines each reconcile (quantity times unit price is
  the amount); together they are the plan's price, the overage and the queued adjustments; the
  invoice's total is never negative, and what it does not collect, a credit larger than the
  charges, is queued again on the subscription: total plus new queue equals the lines' sum.
\<close>

theorem draft_conserves_money:
  assumes "sub_inv s" and "\<And>l. l \<in> set (invoice_lines s) \<Longrightarrow> il_invoice_id l < next_uuid s"
    and "find_draft org p s = Inr None" and "draft_for_org cfg now org (Some p) s = Inr (r, s')"
    and "current_for_org org s = Some sub"
  shows "\<exists>sub' e s1 ls. current_for_org org s' = Some sub' \<and> effective_for_org cfg now org s = Inr (e, s1)
    \<and> map il_data (rows_where (\<lambda>l. il_invoice_id l = inv_id r) (invoice_lines s')) = ls
    \<and> list_all reconciles ls
    \<and> line_amount ls = max 0 (snapshot_price (sub_plan_snapshot sub)) + line_amount (overage_lines org p e s1) + queued sub
    \<and> 0 \<le> inv_total_cents r \<and> inv_total_cents r + queued sub' = line_amount ls"
proof -
  from assms(4,3) obtain sub0 e s1 where sub0: "current_for_org org s = Some sub0"
    and eff: "effective_for_org cfg now org s = Inr (e, s1)" and rid: "inv_id r = next_uuid s"
    and tot: "inv_total_cents r = max 0 (line_amount (draft_lines org p sub0 e s1))"
    and lines: "\<exists>new. invoice_lines s' = invoice_lines s @ new \<and> map il_data new = draft_lines org p sub0 e s1
      \<and> (\<forall>l\<in>set new. il_invoice_id l = inv_id r)"
    and rows: "subscription_rows s' = update_where (\<lambda>x. sub_id x = sub_id sub0)
      (\<lambda>_. sub0\<lparr>sub_pending_adjustments := (if line_amount (draft_lines org p sub0 e s1) < 0
         then [carryover now (line_amount (draft_lines org p sub0 e s1))] else [])\<rparr>) (subscription_rows s)"
    by (rule draft_for_org_new)
  have [simp]: "sub0 = sub" using sub0 assms(5) by simp
  let ?ls = "draft_lines org p sub e s1"
  let ?sub = "sub\<lparr>sub_pending_adjustments := (if line_amount ?ls < 0 then [carryover now (line_amount ?ls)] else [])\<rparr>"
  have "\<forall>l\<in>set (invoice_lines s). il_invoice_id l \<noteq> inv_id r" using assms(2) rid by force
  with lines have "map il_data (rows_where (\<lambda>l. il_invoice_id l = inv_id r) (invoice_lines s')) = ?ls"
    by (auto simp: rows_where_def filter_empty_conv filter_True)
  moreover have "list_all reconciles ?ls"
    using plan_lines_reconcile overage_lines_reconcile adjustment_lines_reconcile
    by (auto simp: list_all_iff draft_lines_def)
  moreover have "line_amount ?ls = max 0 (snapshot_price (sub_plan_snapshot sub)) + line_amount (overage_lines org p e s1) + queued sub"
    using plan_lines_amount [of "sub_plan_snapshot sub"] adjustment_lines_amount [of "sub_pending_adjustments sub"]
    by (simp add: draft_lines_def line_amount_def queued_def)
  moreover have "inv_total_cents r + queued ?sub = line_amount ?ls"
    by (simp add: tot queued_def adjustment_amount_def carryover_def json_int_or_zero_def)
  moreover have "current_for_org org s' = Some ?sub"
  proof -
    from current_for_orgD [OF assms(5)] have sub: "sub \<in> set (subscription_rows s)"
      "sub_organization_id sub = org" "occupying sub" by auto
    have rows': "subscription_rows s' = subscription_rows (save_subscription ?sub s)"
      using rows by simp
    have "unique_subscriptions (subscription_rows (save_subscription ?sub s))"
      unfolding save_subscription_fields using assms(1) sub
      by (intro unique_subscriptions_update [where e = sub]) (simp_all add: sub_inv_def)
    from saved_row(4) [OF assms(1,5) _ _ this] sub have "current_for_org org (save_subscription ?sub s) = Some ?sub"
      by (simp add: occupying_def)
    then show ?thesis using current_for_org_cong [OF rows', of org] by simp
  qed
  ultimately show ?thesis using eff tot by auto
qed

section \<open>Invoice numbers\<close>

lemma str_nat_zeros: "str_nat (replicate n (CHR ''0'') @ t) = str_nat t"
  by (induction n) (simp_all add: str_nat_def digit_val_def)

lemma str_nat_zpad [simp]: "str_nat (zpad n (nat_str k)) = k"
  by (simp add: zpad_def str_nat_zeros)

lemma invoice_number_inject:
  assumes "invoice_number st k = invoice_number st' k'" and "CHR ''-'' \<notin> set st" "CHR ''-'' \<notin> set st'"
  shows "k = k'"
proof -
  have "st @ CHR ''-'' # zpad 4 (nat_str k) = st' @ CHR ''-'' # zpad 4 (nat_str k')"
    using assms(1) by (simp add: invoice_number_def)
  with digits_prefix_eq assms(2,3) have "zpad 4 (nat_str k) = zpad 4 (nat_str k')" by metis
  then show ?thesis by (metis str_nat_zpad)
qed

lemma zpad_digits: "c \<in> set (zpad n (nat_str k)) \<Longrightarrow> c \<in> set ''0123456789''"
  using nat_str_digits [of c k] by (auto simp: zpad_def split: if_splits)

lemma month_stamp_no_dash: "CHR ''-'' \<notin> set (month_stamp now)"
proof
  assume "CHR ''-'' \<in> set (month_stamp now)"
  then have "CHR ''-'' \<in> set ''0123456789''"
    using zpad_digits by (fastforce simp: month_stamp_def Let_def)
  then show False by simp
qed

text \<open>
  The invariant: identifiers and the unique indexes hold, drafts have no number, and an
  organization's numbers count no further than the organization has numbered invoices.
\<close>

definition numbering_ok :: "'a bill_db_scheme \<Rightarrow> bool" where
  "numbering_ok s \<longleftrightarrow> unique_invoices (invoices s) \<and> distinct (map inv_id (invoices s))
     \<and> (\<forall>r\<in>set (invoices s). inv_status r = Draft \<longrightarrow> inv_number r = None)
     \<and> (\<forall>r\<in>set (invoices s). \<forall>n. inv_number r = Some n \<longrightarrow>
          (\<exists>st k. n = invoice_number st k \<and> CHR ''-'' \<notin> set st
             \<and> k \<le> length (filter (numbered (inv_organization_id r)) (invoices s))))"

lemma next_number_fresh:
  assumes "numbering_ok s" and "r \<in> set (invoices s)" and "inv_organization_id r = org"
  shows "inv_number r \<noteq> Some (next_number now org s)"
proof
  assume num: "inv_number r = Some (next_number now org s)"
  with assms obtain st k where "next_number now org s = invoice_number st k" "CHR ''-'' \<notin> set st"
    "k \<le> length (filter (numbered org) (invoices s))" unfolding numbering_ok_def by blast
  with invoice_number_inject month_stamp_no_dash show False
    unfolding next_number_def rows_where_def by fastforce
qed

lemma distinct_key_replace:
  assumes "distinct (map k (filter P (a @ r # b)))"
    and "\<And>x. x \<in> set a \<union> set b \<Longrightarrow> P q \<Longrightarrow> P x \<Longrightarrow> k x \<noteq> k q"
  shows "distinct (map k (filter P (a @ q # b)))"
proof -
  have "distinct (map k (filter P a) @ map k (filter P b))" using assms(1) by (auto split: if_splits)
  moreover have "k q \<notin> set (map k (filter P a) @ map k (filter P b))" if "P q"
    using assms(2) [OF _ that] by (fastforce simp: image_iff)
  ultimately show ?thesis by auto
qed

lemma key_list_same:
  "P q = P r \<Longrightarrow> k q = k r \<Longrightarrow> map k (filter P (a @ q # b)) = map k (filter P (a @ r # b))"
  by simp

lemma unique_invoices_replace:
  assumes "unique_invoices (a @ r # b)" and "inv_organization_id q = inv_organization_id r"
    and "inv_provider q = inv_provider r" "inv_provider_invoice_id q = inv_provider_invoice_id r"
    and "\<And>x. x \<in> set a \<union> set b \<Longrightarrow> inv_organization_id x = inv_organization_id r \<Longrightarrow> inv_number q \<noteq> None
      \<Longrightarrow> inv_number x \<noteq> inv_number q"
  shows "unique_invoices (a @ q # b)"
proof -
  have nums: "distinct (map (\<lambda>r. (inv_organization_id r, inv_number r)) (filter (\<lambda>r. inv_number r \<noteq> None) (a @ r # b)))"
    and refs: "distinct (map (\<lambda>r. (inv_provider r, inv_provider_invoice_id r))
      (filter (\<lambda>r. inv_provider r \<noteq> None \<and> inv_provider_invoice_id r \<noteq> None) (a @ r # b)))"
    using assms(1) unfolding unique_invoices_def by blast+
  have "distinct (map (\<lambda>r. (inv_organization_id r, inv_number r)) (filter (\<lambda>r. inv_number r \<noteq> None) (a @ q # b)))"
    by (rule distinct_key_replace [OF nums]) (use assms(2,5) in force)
  moreover have same: "map (\<lambda>r. (inv_provider r, inv_provider_invoice_id r))
      (filter (\<lambda>r. inv_provider r \<noteq> None \<and> inv_provider_invoice_id r \<noteq> None) (a @ q # b))
    = map (\<lambda>r. (inv_provider r, inv_provider_invoice_id r))
      (filter (\<lambda>r. inv_provider r \<noteq> None \<and> inv_provider_invoice_id r \<noteq> None) (a @ r # b))"
    by (rule key_list_same) (simp_all only: assms(3,4))
  moreover note refs [folded same]
  ultimately show ?thesis unfolding unique_invoices_def by blast
qed

lemma unique_invoices_same:
  assumes "unique_invoices (a @ r # b)" and "inv_organization_id q = inv_organization_id r"
    and "inv_provider q = inv_provider r" "inv_provider_invoice_id q = inv_provider_invoice_id r"
    and "inv_number q = inv_number r"
  shows "unique_invoices (a @ q # b)"
proof -
  have nums: "map (\<lambda>r. (inv_organization_id r, inv_number r)) (filter (\<lambda>r. inv_number r \<noteq> None) (a @ q # b))
      = map (\<lambda>r. (inv_organization_id r, inv_number r)) (filter (\<lambda>r. inv_number r \<noteq> None) (a @ r # b))"
    by (rule key_list_same) (simp_all only: assms)
  have refs: "map (\<lambda>r. (inv_provider r, inv_provider_invoice_id r))
      (filter (\<lambda>r. inv_provider r \<noteq> None \<and> inv_provider_invoice_id r \<noteq> None) (a @ q # b))
    = map (\<lambda>r. (inv_provider r, inv_provider_invoice_id r))
      (filter (\<lambda>r. inv_provider r \<noteq> None \<and> inv_provider_invoice_id r \<noteq> None) (a @ r # b))"
    by (rule key_list_same) (simp_all only: assms)
  show ?thesis using assms(1) unfolding unique_invoices_def nums refs .
qed

text \<open>
  C36. Finalizing never clashes. Over tables where numbers were handed out this way, finalizing a
  draft of the organization succeeds: the invoice is open with the next number, which no other
  invoice of the organization has, every other invoice is unchanged, and the tables stay so.
\<close>

theorem finalize_numbers_never_clash:
  assumes "numbering_ok s" and "get_scoped_invoice i org s = Inr r" and "inv_status r = Draft"
  shows "\<exists>r' s'. finalize_invoice now i org s = Inr (r', s') \<and> inv_status r' = Open
    \<and> inv_number r' = Some (next_number now org s) \<and> inv_total_cents r' = inv_total_cents r
    \<and> (\<forall>x\<in>set (invoices s). inv_organization_id x = org \<longrightarrow> inv_number x \<noteq> inv_number r')
    \<and> set (invoices s') = insert r' (set (invoices s) - {r}) \<and> numbering_ok s'"
proof -
  let ?n = "next_number now org s"
  let ?r = "r\<lparr>inv_status := Open, inv_number := Some ?n, inv_issued_at := Some now\<rparr>"
  have r: "r \<in> set (invoices s)" "inv_organization_id r = org"
    using scoped_invoices.found [OF assms(2)] by auto
  have ids: "distinct (map inv_id (invoices s))" and uniq: "unique_invoices (invoices s)"
    and num: "inv_number r = None" using assms(1,3) r(1) by (auto simp: numbering_ok_def)
  obtain a b where rows: "invoices s = a @ r # b"
    and upd: "update_where (\<lambda>x. inv_id x = inv_id ?r) (\<lambda>_. ?r) (invoices s) = a @ ?r # b"
    using replace_row_split [OF ids r(1), of ?r] by auto
  have fresh: "\<forall>x\<in>set (invoices s). inv_organization_id x = org \<longrightarrow> inv_number x \<noteq> Some ?n"
    using next_number_fresh [OF assms(1)] by blast
  have uniq': "unique_invoices (a @ ?r # b)"
    by (rule unique_invoices_replace [OF uniq [unfolded rows]]) (use r(2) fresh rows in auto)
  have fl: "flush_invoices (save_invoice ?r s) = Inr (save_invoice ?r s)" using uniq' upd by simp
  have run: "\<exists>s'. finalize_invoice now i org s = Inr (?r, s') \<and> invoices s' = a @ ?r # b"
    using assms(2,3) upd by (simp add: finalize_invoice_def assert_invoice_transition_def Let_def fl)
  then obtain s' where s': "finalize_invoice now i org s = Inr (?r, s')" "invoices s' = a @ ?r # b" by blast
  have count: "length (filter (numbered o') (a @ ?r # b))
      = length (filter (numbered o') (invoices s)) + (if o' = org then 1 else 0)" for o'
    using r(2) num unfolding rows by (simp add: numbered_def)
  have "numbering_ok s'"
  proof -
    have "\<exists>st k. n = invoice_number st k \<and> CHR ''-'' \<notin> set st
        \<and> k \<le> length (filter (numbered (inv_organization_id x)) (a @ ?r # b))"
      if x: "x \<in> set (a @ ?r # b)" "inv_number x = Some n" for x n
    proof (cases "x = ?r")
      case True
      have "n = invoice_number (month_stamp now) (length (filter (numbered org) (invoices s)) + 1)"
        using True x(2) by (simp add: next_number_def rows_where_def)
      then show ?thesis using month_stamp_no_dash True r(2) unfolding count by auto
    next
      case False
      with x(1) have "x \<in> set (invoices s)" by (auto simp: rows)
      with assms(1) x(2) obtain st k where "n = invoice_number st k" "CHR ''-'' \<notin> set st"
        "k \<le> length (filter (numbered (inv_organization_id x)) (invoices s))" unfolding numbering_ok_def by blast
      then show ?thesis unfolding count by fastforce
    qed
    moreover have "distinct (map inv_id (a @ ?r # b))" using ids unfolding rows by simp
    moreover have "inv_number x = None" if "x \<in> set (a @ ?r # b)" "inv_status x = Draft" for x
      using that assms(1) unfolding numbering_ok_def rows by auto
    ultimately show ?thesis using uniq' unfolding numbering_ok_def s'(2) by blast
  qed
  moreover have "set (a @ ?r # b) = insert ?r (set (invoices s) - {r})"
    using ids unfolding rows by auto
  ultimately show ?thesis using s' fresh by (intro exI [of _ ?r] exI [of _ s']) simp
qed

section \<open>Renewal\<close>

lemma finalize_invoice_rows:
  assumes "finalize_invoice now i org s = Inr (r, s')"
  shows "subscription_rows s' = subscription_rows s"
  using assms by (auto simp: finalize_invoice_def bind_r_eq_Inr Let_def split: if_splits)

lemma draft_for_org_subscriptions:
  assumes "draft_for_org cfg now org (Some p) s = Inr (r, s')"
  shows "\<exists>f. subscription_rows s' = map f (subscription_rows s) \<and>
    (\<forall>x. sub_id (f x) = sub_id x \<or> (\<exists>y. current_for_org org s = Some y \<and> sub_id x = sub_id y \<and> sub_id (f x) = sub_id x))"
proof (cases "find_draft org p s")
  case (Inl e)
  with assms show ?thesis by (simp add: draft_for_org_def)
next
  case (Inr d)
  show ?thesis
  proof (cases d)
    case None
    with assms Inr obtain sub x where "subscription_rows s' = update_where (\<lambda>x. sub_id x = sub_id sub)
      (\<lambda>_. sub\<lparr>sub_pending_adjustments := x\<rparr>) (subscription_rows s)"
      by (elim draft_for_org_new) auto
    then show ?thesis
      by (intro exI [of _ "\<lambda>x'. if sub_id x' = sub_id sub then sub\<lparr>sub_pending_adjustments := x\<rparr> else x'"])
        (simp add: update_where_def)
  next
    case (Some y)
    with assms Inr show ?thesis by (intro exI [of _ id]) (auto simp: draft_for_org_def)
  qed
qed

text \<open>
  Renewal rolls the period forward without a gap: after a renewal that goes through, the
  subscription's new period starts where the old one ended and lasts 365 days for a yearly
  snapshot and 30 days otherwise.
\<close>

theorem renewal_rolls_without_gap:
  assumes "renew_locally_billed cfg now sub s = Inr s'" and "sub \<in> set (subscription_rows s)"
  shows "\<exists>x\<in>set (subscription_rows s'). sub_id x = sub_id sub
    \<and> sub_current_period_start x = sub_current_period_end sub
    \<and> sub_current_period_end x = sub_current_period_end sub +
        (if map_of (sub_plan_snapshot sub) ''interval'' = Some (JStr ''year'') then days 365 else days 30)"
proof -
  let ?bill = "if snapshot_price (sub_plan_snapshot sub) > 0 \<or> sub_pending_adjustments sub \<noteq> []
    then bind_r (draft_for_org cfg now (sub_organization_id sub)
            (Some (first_of_month (date_of (sub_current_period_start sub)))) s) (\<lambda>(r, s1).
           if inv_status r = Draft
           then bind_r (finalize_invoice now (inv_id r) (sub_organization_id sub) s1) (\<lambda>(_, s2). Inr s2)
           else Inr s1)
    else Inr s"
  let ?len = "if map_of (sub_plan_snapshot sub) ''interval'' = Some (JStr ''year'') then days 365 else days 30"
  let ?roll = "\<lambda>x. x\<lparr>sub_current_period_start := sub_current_period_end sub,
      sub_current_period_end := sub_current_period_end sub + ?len\<rparr>"
  from assms(1) obtain s3 where bill: "?bill = Inr s3"
    and rows: "subscription_rows s' = update_where (\<lambda>x. sub_id x = sub_id sub) ?roll (subscription_rows s3)"
    by (auto simp: renew_locally_billed_def bind_r_eq_Inr Let_def)
  have "\<exists>x\<in>set (subscription_rows s3). sub_id x = sub_id sub"
  proof (cases "snapshot_price (sub_plan_snapshot sub) > 0 \<or> sub_pending_adjustments sub \<noteq> []")
    case False
    with bill assms(2) show ?thesis by auto
  next
    case True
    with bill obtain r s1 where draft: "draft_for_org cfg now (sub_organization_id sub)
        (Some (first_of_month (date_of (sub_current_period_start sub)))) s = Inr (r, s1)"
      and "subscription_rows s3 = subscription_rows s1"
      by (auto simp: bind_r_eq_Inr finalize_invoice_rows split: if_splits)
    with draft_for_org_subscriptions [OF draft] assms(2) show ?thesis by force
  qed
  then obtain x where x: "x \<in> set (subscription_rows s3)" "sub_id x = sub_id sub" by blast
  then have "?roll x \<in> set (subscription_rows s')" unfolding rows update_where_def by force
  then show ?thesis using x(2) by (intro bexI [of _ "?roll x"]) simp_all
qed

text \<open>
  The month a renewal bills is not the period it renews. A renewal drafts the invoice of the
  calendar month the ended period started in, and periods last 30 days: with a cycle that starts
  on 2026-01-01 the first two renewals both bill January and the third bills March, so that
  January's overage is charged twice and February's never.
\<close>

theorem renewals_repeat_and_skip_months:
  "map month_bucket [midnight (Date 2026 1 1), midnight (Date 2026 1 1) + MONTH, midnight (Date 2026 1 1) + 2 * MONTH]
     = [Date 2026 1 1, Date 2026 1 1, Date 2026 3 1]"
  by (simp add: month_bucket_def date_of_def from_ordinal_def midnight_def MONTH_def days_def seconds_def
      to_ordinal_def days_before_year_def days_before_month_def is_leap_def month_of_day_def
      first_of_month_def Let_def)

section \<open>A concrete database\<close>

definition demo_bill :: bill_db where
  "demo_bill = access_db.extend (ident_db.extend (auth_db.extend (acct_db.extend
       (usage_db.extend demo_usage \<lparr>organizations = [], users = []\<rparr>)
       \<lparr>roles = [], permission_rows = [], role_permissions = [], memberships = [], membership_roles = []\<rparr>)
       \<lparr>refresh_tokens = [], password_reset_tokens = []\<rparr>) \<lparr>api_keys = []\<rparr>)
     \<lparr>billing_customers = [], invoices = [], invoice_lines = [], provider_webhook_events = []\<rparr>"

lemma demo_bill_fields [simp]:
  "invoices demo_bill = []" "invoice_lines demo_bill = []" "billing_customers demo_bill = []"
  "subscription_rows demo_bill = [demo_subscription 5 1 demo_free Active]" "next_uuid demo_bill = 9"
  "demo_tables demo_bill" "usage_counters demo_bill = []" "tx_now demo_bill = 0"
  "plan_rows demo_bill = [demo_free, demo_pro]"
proof -
  have all: "subscription_rows demo_bill = subscription_rows demo_usage"
    "plan_rows demo_bill = plan_rows demo_usage" "entitlement_rows demo_bill = entitlement_rows demo_usage"
    "metric_rows demo_bill = metric_rows demo_usage" "cache_store demo_bill = cache_store demo_usage"
    "next_uuid demo_bill = next_uuid demo_usage" "usage_counters demo_bill = usage_counters demo_usage"
    "tx_now demo_bill = tx_now demo_usage"
    by (simp_all add: demo_bill_def access_db.defs ident_db.defs auth_db.defs acct_db.defs usage_db.defs)
  show "demo_tables demo_bill" unfolding demo_tables_def all by simp
  show "invoices demo_bill = []" "invoice_lines demo_bill = []" "billing_customers demo_bill = []"
    by (simp_all add: demo_bill_def access_db.defs ident_db.defs auth_db.defs acct_db.defs)
  show "subscription_rows demo_bill = [demo_subscription 5 1 demo_free Active]" "next_uuid demo_bill = 9"
    "usage_counters demo_bill = []" "tx_now demo_bill = 0" "plan_rows demo_bill = [demo_free, demo_pro]"
    unfolding all by simp_all
qed

lemma demo_bill_current: "current_for_org 1 demo_bill = Some (demo_subscription 5 1 demo_free Active)" "sub_inv demo_bill"
  by (rule demo_tables_computes(2)) (simp_all add: sub_inv_def unique_subscriptions_def demo_subscription_def)

lemma demo_bill_drafts: "\<exists>r s'. draft_for_org demo_settings 0 1 (Some (Date 1970 1 1)) demo_bill = Inr (r, s')"
proof -
  obtain s0 where eff: "effective_for_org demo_settings 0 1 demo_bill = Inr (demo_entitlements, s0)"
    using demo_tables_effective [of demo_bill] by auto
  show ?thesis
    by (rule draft_returns [OF _ demo_bill_current(1) eff])
      (simp_all add: find_draft_def one_or_none_def unique_invoices_def)
qed

theorem draft_conserves_money_witness:
  "\<exists>r s' sub'. draft_for_org demo_settings 0 1 (Some (Date 1970 1 1)) demo_bill = Inr (r, s')
     \<and> current_for_org 1 s' = Some sub' \<and> 0 \<le> inv_total_cents r"
proof -
  from demo_bill_drafts obtain r s' where run:
    "draft_for_org demo_settings 0 1 (Some (Date 1970 1 1)) demo_bill = Inr (r, s')" by blast
  have "find_draft 1 (Date 1970 1 1) demo_bill = Inr None" by (simp add: find_draft_def one_or_none_def)
  from draft_conserves_money [OF demo_bill_current(2) _ this run demo_bill_current(1)] run show ?thesis by auto
qed

definition demo_invoice :: "uuid \<Rightarrow> uuid \<Rightarrow> invoice_status \<Rightarrow> invoice" where
  "demo_invoice i org st = \<lparr>inv_id = i, inv_organization_id = org, inv_billing_customer_id = None,
     inv_provider = Some ''synapse'', inv_provider_invoice_id = None, inv_number = None, inv_currency = ''PHP'',
     inv_subtotal_cents = 9900, inv_tax_cents = 0, inv_total_cents = 9900, inv_status = st,
     inv_period_start = Some 0, inv_period_end = None, inv_hosted_url = None, inv_pdf_url = None,
     inv_issued_at = None, inv_paid_at = None, inv_created_at = 0\<rparr>"

theorem finalize_numbers_never_clash_witness:
  "\<exists>r' s'. finalize_invoice 0 3 1 (demo_bill\<lparr>invoices := [demo_invoice 3 1 Draft]\<rparr>) = Inr (r', s')
     \<and> inv_number r' = Some ''INV-197001-0001''"
proof -
  let ?s = "demo_bill\<lparr>invoices := [demo_invoice 3 1 Draft]\<rparr>"
  have "numbering_ok ?s" by (simp add: numbering_ok_def unique_invoices_def demo_invoice_def)
  moreover have "get_scoped_invoice 3 1 ?s = Inr (demo_invoice 3 1 Draft)"
    by (simp add: get_scoped_invoice_def first_row_def demo_invoice_def)
  ultimately obtain r' s' where run: "finalize_invoice 0 3 1 ?s = Inr (r', s')"
    and num: "inv_number r' = Some (next_number 0 1 ?s)"
    using finalize_numbers_never_clash [of ?s 3 1 "demo_invoice 3 1 Draft" 0]
    by (auto simp: demo_invoice_def)
  have digits: "nat_str 1970 = ''1970''" "nat_str (Suc 0) = ''1''"
    by (simp_all add: nat_str.simps [of 1970] nat_str.simps [of 197] nat_str.simps [of 19] nat_str.simps [of "Suc 0"]
        digit_char_def)
  have "replicate 3 (CHR ''0'') = ''000''" by (simp add: numeral_eq_Suc)
  then have pads: "zpad 4 ''1970'' = ''1970''" "zpad 2 ''1'' = ''01''" "zpad 4 ''1'' = ''0001''"
    by (simp_all add: zpad_def)
  have "date_of 0 = Date 1970 1 1"
    by (simp add: date_of_def from_ordinal_def Let_def days_before_year_def days_before_month_def
        is_leap_def month_of_day_def)
  then have stamp: "month_stamp 0 = ''197001''" by (simp add: month_stamp_def digits pads)
  have "rows_where (numbered 1) (invoices ?s) = []" by (simp add: rows_where_def numbered_def demo_invoice_def)
  then have "next_number 0 1 ?s = invoice_number ''197001'' (Suc 0)" by (simp only: next_number_def stamp) simp
  also have "\<dots> = ''INV-197001-0001''" by (simp add: invoice_number_def digits pads)
  finally have "next_number 0 1 ?s = ''INV-197001-0001''" .
  with run num show ?thesis by auto
qed

theorem renewal_rolls_without_gap_witness:
  "\<exists>s'. renew_locally_billed demo_settings 0 (demo_subscription 5 1 demo_free Active) demo_bill = Inr s'
     \<and> (\<exists>x\<in>set (subscription_rows s'). sub_current_period_start x = days 14)"
proof -
  have price: "snapshot_price (sub_plan_snapshot (demo_subscription 5 1 demo_free Active)) = 0"
    "sub_pending_adjustments (demo_subscription 5 1 demo_free Active) = []"
    by (simp_all add: demo_subscription_def snapshot_price_def plan_snapshot_def json_int_or_zero_def
        demo_free_def demo_plan_def opt_json_def)
  obtain s' where run: "renew_locally_billed demo_settings 0 (demo_subscription 5 1 demo_free Active) demo_bill = Inr s'"
    using price by (simp add: renew_locally_billed_def update_where_def unique_subscriptions_def Let_def
        demo_subscription_def)
  from renewal_rolls_without_gap [OF run] run show ?thesis by (auto simp: demo_subscription_def)
qed

end
