(* ===== verification/Billing.thy ===== *)
theory Billing
  imports Invoicing
begin

text \<open>
  \<open>billing/service.py\<close> and \<open>billing/webhooks.py\<close> over \<open>billing/protocol.py\<close>: customers,
  checkout, plan changes through the active provider, and the ingest of provider webhooks. A
  provider is an HTTP client of a third party: a record of functions that is a parameter of the
  operations; \<open>manual_provider\<close> is the one implemented in the repository without HTTP.
\<close>

section \<open>The provider protocol\<close>

datatype billing_capability = HOSTED_CHECKOUT | BILLING_PORTAL | RECURRING_HOSTED | PLAN_SYNC | WEBHOOK_SIGNED | CLIENT_CONFIRM

record webhook_request =
  wr_headers :: "(string \<times> string) list"
  wr_body :: string  \<comment> \<open>the exact bytes\<close>

record verified_webhook =
  vw_provider_event_id :: string
  vw_event_type :: string
  vw_parsed :: json_object
  vw_received_at :: datetime

datatype billing_event_type =
    BE_CUSTOMER_CREATED | BE_SUBSCRIPTION_CREATED | BE_SUBSCRIPTION_ACTIVATED | BE_SUBSCRIPTION_UPDATED
  | BE_SUBSCRIPTION_CANCELED | BE_SUBSCRIPTION_PAST_DUE | BE_SUBSCRIPTION_TRIAL_ENDED | BE_INVOICE_CREATED
  | BE_INVOICE_PAID | BE_INVOICE_FAILED | BE_CHECKOUT_COMPLETED | BE_PAYMENT_FAILED | BE_OTHER string

primrec billing_event_name :: "billing_event_type \<Rightarrow> string" where
  "billing_event_name BE_CUSTOMER_CREATED = ''customer.created''"
| "billing_event_name BE_SUBSCRIPTION_CREATED = ''subscription.created''"
| "billing_event_name BE_SUBSCRIPTION_ACTIVATED = ''subscription.activated''"
| "billing_event_name BE_SUBSCRIPTION_UPDATED = ''subscription.updated''"
| "billing_event_name BE_SUBSCRIPTION_CANCELED = ''subscription.canceled''"
| "billing_event_name BE_SUBSCRIPTION_PAST_DUE = ''subscription.past_due''"
| "billing_event_name BE_SUBSCRIPTION_TRIAL_ENDED = ''subscription.trial_ended''"
| "billing_event_name BE_INVOICE_CREATED = ''invoice.created''"
| "billing_event_name BE_INVOICE_PAID = ''invoice.paid''"
| "billing_event_name BE_INVOICE_FAILED = ''invoice.failed''"
| "billing_event_name BE_CHECKOUT_COMPLETED = ''checkout.completed''"
| "billing_event_name BE_PAYMENT_FAILED = ''payment.failed''"
| "billing_event_name (BE_OTHER t) = t"

record billing_event =
  be_event_type :: billing_event_type
  be_provider_event_id :: string
  be_occurred_at :: datetime
  be_provider_customer_id :: "string option"
  be_provider_subscription_id :: "string option"
  be_provider_invoice_id :: "string option"
  be_plan_key :: "string option"
  be_status :: "string option"
  be_current_period_end :: "datetime option"
  be_amount_cents :: "int option"
  be_currency :: "string option"
  be_hosted_url :: "string option"

record customer_ref =
  cr_provider_customer_id :: string
  cr_email :: "string option"
  cr_name :: "string option"

record checkout_result =
  co_url :: "string option"
  co_provider :: string
  co_provider_checkout_id :: "string option"

record subscription_ref =
  sr_provider_subscription_id :: string
  sr_status :: string
  sr_current_period_end :: "datetime option"

record create_customer_request =
  cq_email :: string
  cq_name :: "string option"
  cq_organization_id :: "uuid option"
  cq_currency :: string

record create_checkout_request =
  kq_plan_key :: string
  kq_plan_name :: string
  kq_price_cents :: int
  kq_currency :: string
  kq_interval :: string
  kq_provider_customer_id :: "string option"
  kq_success_url :: "string option"
  kq_cancel_url :: "string option"
  kq_organization_id :: "uuid option"

record change_plan_request =
  pq_plan_key :: string
  pq_price_cents :: int
  pq_currency :: string
  pq_interval :: string

text \<open>Each call answers or raises; \<open>translate\<close> answers \<open>None\<close> when it raises anything.\<close>

record billing_provider =
  pv_name :: string
  pv_supports :: "billing_capability set"
  pv_create_customer :: "create_customer_request \<Rightarrow> error + customer_ref"
  pv_create_checkout :: "create_checkout_request \<Rightarrow> error + checkout_result"
  pv_billing_portal_url :: "string \<Rightarrow> string \<Rightarrow> error + string"
  pv_change_plan :: "string \<Rightarrow> change_plan_request \<Rightarrow> error + subscription_ref"
  pv_verify_webhook :: "webhook_request \<Rightarrow> error + verified_webhook"
  pv_translate_webhook :: "verified_webhook \<Rightarrow> billing_event list option"

text \<open>The settings the service reads.\<close>

record billing_settings = settings +
  billing_currency :: string
  manual_webhook_token :: string

section \<open>The manual provider\<close>

definition int_str :: "int \<Rightarrow> string" where
  "int_str n = (if n < 0 then ''-'' @ nat_str (nat (- n)) else nat_str (nat n))"

text \<open>
  \<open>tok\<close> is what \<open>secrets.token_hex(8)\<close> gives, \<open>now\<close> the clock; \<open>loads\<close> is the JSON reader, \<open>None\<close> when it
  raises.
\<close>

definition manual_verify ::
  "billing_settings \<Rightarrow> (string \<Rightarrow> json option) \<Rightarrow> string \<Rightarrow> datetime \<Rightarrow> webhook_request \<Rightarrow> error + verified_webhook" where
  "manual_verify cfg loads tok now raw =
     (let token = (case map_of (wr_headers raw) ''x-manual-token'' of Some t \<Rightarrow> t | None \<Rightarrow> '''')
      in if manual_webhook_token cfg = '''' \<or> token \<noteq> manual_webhook_token cfg
         then raise_error WebhookSignatureInvalidError
         else case loads (wr_body raw) of
                Some (JObj d) \<Rightarrow>
                  Inr \<lparr>vw_provider_event_id =
                         (case map_of d ''id'' of
                            Some (JStr i) \<Rightarrow> if i = '''' then ''manual_'' @ tok else i
                          | Some (JInt n) \<Rightarrow> if n = 0 then ''manual_'' @ tok else int_str n
                          | _ \<Rightarrow> ''manual_'' @ tok),
                       vw_event_type = (case map_of d ''type'' of None \<Rightarrow> ''manual.event'' | v \<Rightarrow> json_str v),
                       vw_parsed = d, vw_received_at = now\<rparr>
              | _ \<Rightarrow> raise_error WebhookSignatureInvalidError)"

definition opt_str :: "json_object \<Rightarrow> string \<Rightarrow> string option" where
  "opt_str d k = (case map_of d k of Some (JStr t) \<Rightarrow> Some t | _ \<Rightarrow> None)"

definition manual_translate :: "verified_webhook \<Rightarrow> billing_event list option" where
  "manual_translate v =
     (let ty = (case map_of (vw_parsed v) ''type'' of None \<Rightarrow> '''' | w \<Rightarrow> json_str w);
          canonical =
            (if ty = ''manual.subscription.activated'' then Some BE_SUBSCRIPTION_ACTIVATED
             else if ty = ''manual.subscription.canceled'' then Some BE_SUBSCRIPTION_CANCELED
             else if ty = ''manual.invoice.paid'' then Some BE_INVOICE_PAID else None)
      in case canonical of None \<Rightarrow> Some []
         | Some c \<Rightarrow>
             (let read = (\<lambda>data. Some [\<lparr>be_event_type = c, be_provider_event_id = vw_provider_event_id v,
                    be_occurred_at = vw_received_at v,
                    be_provider_customer_id = opt_str data ''customer_id'',
                    be_provider_subscription_id = opt_str data ''subscription_id'',
                    be_provider_invoice_id = None, be_plan_key = opt_str data ''plan_key'',
                    be_status = opt_str data ''status'', be_current_period_end = None,
                    be_amount_cents = (case map_of data ''amount_cents'' of Some (JInt n) \<Rightarrow> Some n | _ \<Rightarrow> None),
                    be_currency = opt_str data ''currency'', be_hosted_url = None\<rparr>])
              in case map_of (vw_parsed v) ''data'' of
                   None \<Rightarrow> read [] | Some (JObj d) \<Rightarrow> read d | Some _ \<Rightarrow> None))"

definition manual_provider :: "billing_settings \<Rightarrow> (string \<Rightarrow> json option) \<Rightarrow> string \<Rightarrow> datetime \<Rightarrow> billing_provider" where
  "manual_provider cfg loads tok now =
     \<lparr>pv_name = ''manual'', pv_supports = {HOSTED_CHECKOUT, CLIENT_CONFIRM},
      pv_create_customer = (\<lambda>req. Inr \<lparr>cr_provider_customer_id = ''manual_'' @ tok,
         cr_email = Some (cq_email req), cr_name = cq_name req\<rparr>),
      pv_create_checkout = (\<lambda>req. Inr \<lparr>co_url = None, co_provider = ''manual'',
         co_provider_checkout_id = Some (''manualco_'' @ tok)\<rparr>),
      pv_billing_portal_url = (\<lambda>_ _. Inl NotImplementedError),
      pv_change_plan = (\<lambda>i req. Inr \<lparr>sr_provider_subscription_id = i, sr_status = ''active'',
         sr_current_period_end = Some (now + days 30)\<rparr>),
      pv_verify_webhook = manual_verify cfg loads tok now,
      pv_translate_webhook = manual_translate\<rparr>"

text \<open>The provider classes with their \<open>name\<close> and \<open>supports\<close>.\<close>

definition provider_classes :: "(string \<times> billing_capability list) list" where
  "provider_classes =
     [(''manual'', [HOSTED_CHECKOUT, CLIENT_CONFIRM]),
      (''stripe'', [HOSTED_CHECKOUT, BILLING_PORTAL, RECURRING_HOSTED, PLAN_SYNC, WEBHOOK_SIGNED]),
      (''paddle'', [HOSTED_CHECKOUT, WEBHOOK_SIGNED]),
      (''xendit'', [HOSTED_CHECKOUT, WEBHOOK_SIGNED]),
      (''paymongo'', [HOSTED_CHECKOUT, WEBHOOK_SIGNED])]"

definition locally_billed_provider_names :: "string list" where
  "locally_billed_provider_names = map fst (filter (\<lambda>(_, supports). RECURRING_HOSTED \<notin> set supports) provider_classes)"

text \<open>The settings the registry reads. \<open>client\<close> is the HTTP client class of a hosted provider.\<close>

record provider_settings = billing_settings +
  configured_provider :: string
  stripe_secret_key :: string
  xendit_secret_key :: string
  paymongo_secret_key :: string
  paddle_secret_key :: string

definition hosted_client :: "string \<Rightarrow> (string \<Rightarrow> string \<Rightarrow> billing_provider) \<Rightarrow> string \<Rightarrow> error + billing_provider" where
  "hosted_client secret client name =
     (if secret = '''' then raise_error BillingProviderNotConfiguredError else Inr (client name secret))"

definition build_provider ::
  "provider_settings \<Rightarrow> (string \<Rightarrow> json option) \<Rightarrow> (string \<Rightarrow> string \<Rightarrow> billing_provider) \<Rightarrow> string \<Rightarrow> datetime \<Rightarrow> string option
    \<Rightarrow> error + billing_provider" where
  "build_provider cfg loads client tok now name =
     (let n = (case name of Some v \<Rightarrow> if v = '''' then configured_provider cfg else v | None \<Rightarrow> configured_provider cfg)
      in if n = ''manual'' then Inr (manual_provider (billing_settings.truncate cfg) loads tok now)
         else if n = ''stripe'' then hosted_client (stripe_secret_key cfg) client n
         else if n = ''xendit'' then hosted_client (xendit_secret_key cfg) client n
         else if n = ''paymongo'' then hosted_client (paymongo_secret_key cfg) client n
         else if n = ''paddle'' then hosted_client (paddle_secret_key cfg) client n
         else raise_error BillingProviderNotConfiguredError)"

lemma build_provider_manual [simp]:
  "build_provider cfg loads client tok now (Some ''manual'') = Inr (manual_provider (billing_settings.truncate cfg) loads tok now)"
  by (simp add: build_provider_def)

section \<open>Customers and checkout\<close>

definition customer_for_org :: "uuid \<Rightarrow> 'a bill_db_scheme \<Rightarrow> error + billing_customer option" where
  "customer_for_org org s = one_or_none MultipleResultsFound (\<lambda>c. bc_organization_id c = org) (billing_customers s)"

text \<open>The unique keys of \<open>billing_customers\<close>.\<close>

definition unique_customers :: "billing_customer list \<Rightarrow> bool" where
  "unique_customers rows \<longleftrightarrow> distinct (map bc_organization_id rows)
     \<and> distinct (map (\<lambda>c. (bc_provider c, bc_provider_customer_id c))
          (filter (\<lambda>c. bc_provider_customer_id c \<noteq> None) rows))"

definition ensure_customer ::
  "billing_settings \<Rightarrow> billing_provider \<Rightarrow> organization \<Rightarrow> user option \<Rightarrow> 'a bill_db_scheme
    \<Rightarrow> error + (billing_customer \<times> 'a bill_db_scheme)" where
  "ensure_customer cfg pv org contact_user s =
     bind_r (customer_for_org (org_id org) s) (\<lambda>existing.
       case existing of Some c \<Rightarrow> Inr (c, s)
       | None \<Rightarrow>
           (let contact = (case contact_user of Some u \<Rightarrow> Some u
                           | None \<Rightarrow> Option.bind (org_owner_user_id org) (\<lambda>i. get_user i s))
            in bind_r (pv_create_customer pv
                  \<lparr>cq_email = (case contact of Some u \<Rightarrow> us_email u | None \<Rightarrow> org_slug org @ ''@example.com''),
                   cq_name = Some (case contact of Some u \<Rightarrow> us_display_name u | None \<Rightarrow> org_name org),
                   cq_organization_id = Some (org_id org), cq_currency = billing_currency cfg\<rparr>) (\<lambda>ref.
               let c = \<lparr>bc_id = next_uuid s, bc_organization_id = org_id org, bc_provider = pv_name pv,
                        bc_provider_customer_id = Some (cr_provider_customer_id ref),
                        bc_email = cr_email ref, bc_name = cr_name ref, bc_currency = Some (billing_currency cfg)\<rparr>;
                   rows = billing_customers s @ [c]
               in bind_r (guard_r (unique_customers rows) IntegrityError) (\<lambda>_.
                    Inr (c, s\<lparr>next_uuid := Suc (next_uuid s), billing_customers := rows\<rparr>)))))"

definition interval_text :: "plan \<Rightarrow> string" where
  "interval_text p = (case plan_interval (plan_vals p) of Some i \<Rightarrow> interval_name i | None \<Rightarrow> ''month'')"

definition price_or_zero :: "plan \<Rightarrow> int" where
  "price_or_zero p = (case plan_price_cents (plan_vals p) of Some c \<Rightarrow> c | None \<Rightarrow> 0)"

definition start_checkout ::
  "billing_settings \<Rightarrow> billing_provider \<Rightarrow> organization \<Rightarrow> plan \<Rightarrow> string option \<Rightarrow> string option
    \<Rightarrow> user option \<Rightarrow> 'a bill_db_scheme \<Rightarrow> error + ((billing_customer \<times> checkout_result) \<times> 'a bill_db_scheme)" where
  "start_checkout cfg pv org p success_url cancel_url contact s =
     bind_r (ensure_customer cfg pv org contact s) (\<lambda>(c, s1).
     bind_r (pv_create_checkout pv
        \<lparr>kq_plan_key = plan_key p, kq_plan_name = plan_name (plan_vals p), kq_price_cents = price_or_zero p,
         kq_currency = plan_currency (plan_vals p), kq_interval = interval_text p,
         kq_provider_customer_id = bc_provider_customer_id c, kq_success_url = success_url,
         kq_cancel_url = cancel_url, kq_organization_id = Some (org_id org)\<rparr>) (\<lambda>r.
       Inr ((c, r), s1)))"

definition record_invoice ::
  "billing_provider \<Rightarrow> billing_customer \<Rightarrow> plan \<Rightarrow> 'a bill_db_scheme \<Rightarrow> error + 'a bill_db_scheme" where
  "record_invoice pv c p s =
     (if price_or_zero p = 0 then Inr s
      else
        let r = \<lparr>inv_id = next_uuid s, inv_organization_id = bc_organization_id c,
                 inv_billing_customer_id = Some (bc_id c), inv_provider = Some (pv_name pv),
                 inv_provider_invoice_id = None, inv_number = None, inv_currency = plan_currency (plan_vals p),
                 inv_subtotal_cents = price_or_zero p, inv_tax_cents = 0, inv_total_cents = price_or_zero p,
                 inv_status = Open, inv_period_start = None, inv_period_end = None, inv_hosted_url = None,
                 inv_pdf_url = None, inv_issued_at = None, inv_paid_at = None, inv_created_at = tx_now s\<rparr>
        in bind_r (flush_invoices (s\<lparr>next_uuid := Suc (next_uuid s), invoices := invoices s @ [r]\<rparr>)) (\<lambda>s1.
             Inr (append_outbox INVOICE_CREATED ''invoice'' (inv_id r)
               [(''total_cents'', JInt (price_or_zero p)), (''currency'', JStr (plan_currency (plan_vals p))),
                (''plan_key'', JStr (plan_key p))] (Some (bc_organization_id c)) s1)))"

datatype checkout_source = From_Webhook | Client_Confirm

definition complete_checkout ::
  "billing_settings \<Rightarrow> billing_provider \<Rightarrow> datetime \<Rightarrow> organization \<Rightarrow> plan \<Rightarrow> string option \<Rightarrow> user option
    \<Rightarrow> checkout_source \<Rightarrow> 'a bill_db_scheme \<Rightarrow> error + (subscription \<times> 'a bill_db_scheme)" where
  "complete_checkout cfg pv now org p provider_subscription_id contact source s =
     bind_r (guard_r (\<not> (source = Client_Confirm \<and> CLIENT_CONFIRM \<notin> pv_supports pv))
               (Domain CheckoutConfirmNotAllowedError [(''provider'', JStr (pv_name pv))])) (\<lambda>_.
     bind_r (ensure_customer cfg pv org contact s) (\<lambda>(c, s1).
     bind_r (change_plan now (org_id org) (plan_key p) (Some (pv_name pv)) provider_subscription_id False s1) (\<lambda>(r, s2).
     bind_r (record_invoice pv c p s2) (\<lambda>s3.
       Inr (r, s3)))))"

definition billing_portal_url ::
  "billing_settings \<Rightarrow> billing_provider \<Rightarrow> organization \<Rightarrow> string \<Rightarrow> 'a bill_db_scheme
    \<Rightarrow> error + (string option \<times> 'a bill_db_scheme)" where
  "billing_portal_url cfg pv org return_url s =
     (if BILLING_PORTAL \<notin> pv_supports pv then Inr (None, s)
      else bind_r (ensure_customer cfg pv org None s) (\<lambda>(c, s1).
             case bc_provider_customer_id c of
               None \<Rightarrow> Inr (None, s1)
             | Some i \<Rightarrow> bind_r (pv_billing_portal_url pv i return_url) (\<lambda>u. Inr (Some u, s1))))"

definition invoices_for_org :: "uuid \<Rightarrow> 'a bill_db_scheme \<Rightarrow> invoice list" where
  "invoices_for_org org s =
     take 50 (rev (sort_key inv_created_at (rows_where (\<lambda>r. inv_organization_id r = org) (invoices s))))"

section \<open>Plan changes\<close>

record period_snapshot =
  ps_plan_key :: string
  ps_price_cents :: int
  ps_period_start :: datetime
  ps_period_end :: datetime

definition snapshot_period :: "subscription option \<Rightarrow> period_snapshot option" where
  "snapshot_period sub =
     (case sub of None \<Rightarrow> None
      | Some r \<Rightarrow>
          if sub_status r \<noteq> Active then None
          else Some \<lparr>ps_plan_key = (case map_of (sub_plan_snapshot r) ''key'' of None \<Rightarrow> '''' | v \<Rightarrow> json_str v),
                     ps_price_cents = snapshot_price (sub_plan_snapshot r),
                     ps_period_start = sub_current_period_start r, ps_period_end = sub_current_period_end r\<rparr>)"

text \<open>The queued entry, without its description text.\<close>

definition proration_adjustment ::
  "datetime \<Rightarrow> period_snapshot option \<Rightarrow> subscription \<Rightarrow> plan \<Rightarrow> json_object option" where
  "proration_adjustment now previous r p =
     (case previous of None \<Rightarrow> None
      | Some prev \<Rightarrow>
          if sub_current_period_end r \<noteq> ps_period_end prev then None
          else
            let amount = arrears_adjustment_cents (ps_price_cents prev) (price_or_zero p)
                  (ps_period_start prev) (ps_period_end prev) now
            in if amount = 0 then None
               else Some [(''kind'', JStr ''proration''), (''amount_cents'', JInt amount),
                 (''from_plan'', JStr (ps_plan_key prev)), (''to_plan'', JStr (plan_key p)),
                 (''from_price_cents'', JInt (ps_price_cents prev)), (''to_price_cents'', JInt (price_or_zero p)),
                 (''created_at'', JTime now)])"

definition billing_change_plan ::
  "billing_provider \<Rightarrow> datetime \<Rightarrow> uuid \<Rightarrow> string \<Rightarrow> 'a bill_db_scheme
    \<Rightarrow> error + (subscription \<times> 'a bill_db_scheme)" where
  "billing_change_plan pv now org key s =
     bind_r (plan_by_key key False s) (\<lambda>p.
       let current = current_for_org org s
       in if RECURRING_HOSTED \<in> pv_supports pv
          then
            (case Option.bind current sub_provider_subscription_id of
               None \<Rightarrow> Inl (Domain CheckoutRequiredError
                 [(''plan_key'', JStr key), (''checkout_url'', JStr ''/v1/billing/checkout'')])
             | Some i \<Rightarrow>
                 if i = '''' then Inl (Domain CheckoutRequiredError
                   [(''plan_key'', JStr key), (''checkout_url'', JStr ''/v1/billing/checkout'')])
                 else bind_r (pv_change_plan pv i
                        \<lparr>pq_plan_key = plan_key p, pq_price_cents = price_or_zero p,
                         pq_currency = plan_currency (plan_vals p), pq_interval = interval_text p\<rparr>) (\<lambda>ref.
                      change_plan now org (plan_key p) (Some (pv_name pv))
                        (Some (sr_provider_subscription_id ref)) True s))
          else
            (let previous = snapshot_period current;
                 keep = (case previous of None \<Rightarrow> False | Some prev \<Rightarrow> ps_price_cents prev > 0)
             in bind_r (change_plan now org (plan_key p) (Some (pv_name pv)) None keep s) (\<lambda>(r, s1).
                  case (if keep then proration_adjustment now previous r p else None) of
                    None \<Rightarrow> Inr (r, s1)
                  | Some adj \<Rightarrow>
                      (let r' = r\<lparr>sub_pending_adjustments := sub_pending_adjustments r @ [adj]\<rparr>
                       in bind_r (flush_subscriptions (save_subscription r' s1)) (\<lambda>s2. Inr (r', s2))))))"

section \<open>Webhooks\<close>

datatype webhook_status = Wh_Duplicate | Wh_Unprocessable | Wh_Processed

record webhook_outcome =
  wo_status :: webhook_status
  wo_events_applied :: nat
  wo_events_rejected :: "nat option"

text \<open>The migration's \<open>synapse_org_for_provider_ref\<close>: a customer reference wins.\<close>

definition org_for_provider_ref :: "string option \<Rightarrow> string option \<Rightarrow> 'a bill_db_scheme \<Rightarrow> uuid option" where
  "org_for_provider_ref customer_id subscription_id s =
     (case (if customer_id = None then None
            else first_row (\<lambda>c. bc_provider_customer_id c = customer_id) (billing_customers s)) of
        Some c \<Rightarrow> Some (bc_organization_id c)
      | None \<Rightarrow>
          map_option sub_organization_id
            (if subscription_id = None then None
             else first_row (\<lambda>r. sub_provider_subscription_id r = subscription_id) (subscription_rows s)))"

text \<open>The status a provider names; one the table does not know is refused by the state machine.\<close>

definition provider_status :: "subscription \<Rightarrow> string \<Rightarrow> error + sub_status" where
  "provider_status r t =
     (case status_of_name t of
        Some st \<Rightarrow> Inr st
      | None \<Rightarrow> Inl (Domain SubscriptionStateError
          [(''from'', JStr (status_name (sub_status r))), (''to'', JStr t),
           (''allowed'', status_list status_name (ALLOWED_TRANSITIONS (sub_status r)))]))"

definition apply_status ::
  "datetime \<Rightarrow> uuid \<Rightarrow> billing_event \<Rightarrow> string \<Rightarrow> 'a bill_db_scheme \<Rightarrow> error + 'a bill_db_scheme" where
  "apply_status now org ev target s =
     (case current_for_org org s of
        None \<Rightarrow> Inr s
      | Some r \<Rightarrow>
          bind_r (provider_status r target) (\<lambda>st.
          bind_r (apply_provider_transition now r st (be_current_period_end ev) s) (\<lambda>(r', s1).
            Inr (append_outbox SUBSCRIPTION_UPDATED ''subscription'' (sub_id r')
              [(''status'', JStr target), (''provider_event'', JStr (billing_event_name (be_event_type ev)))]
              (Some org) s1))))"

definition apply_checkout_completed ::
  "billing_settings \<Rightarrow> (error + billing_provider) \<Rightarrow> datetime \<Rightarrow> uuid \<Rightarrow> billing_event \<Rightarrow> 'a bill_db_scheme
    \<Rightarrow> error + 'a bill_db_scheme" where
  "apply_checkout_completed cfg configured now org ev s =
     (case be_plan_key ev of
        None \<Rightarrow> Inr s
      | Some key \<Rightarrow>
          if key = '''' then Inr s
          else bind_r configured (\<lambda>pv.
               bind_r (plan_by_key key False s) (\<lambda>p.
               bind_r (case filter (\<lambda>o'. org_id o' = org) (organizations s) of
                         [] \<Rightarrow> Inl NoResultFound | [o'] \<Rightarrow> Inr o' | _ \<Rightarrow> Inl MultipleResultsFound) (\<lambda>o'.
               bind_r (complete_checkout cfg pv now o' p (be_provider_subscription_id ev) None From_Webhook s)
                 (\<lambda>(_, s1). Inr s1)))))"

definition upsert_invoice ::
  "string \<Rightarrow> uuid \<Rightarrow> billing_event \<Rightarrow> invoice_status \<Rightarrow> 'a bill_db_scheme \<Rightarrow> error + 'a bill_db_scheme" where
  "upsert_invoice provider_name org ev status s =
     (case be_provider_invoice_id ev of
        None \<Rightarrow> Inr s
      | Some ref \<Rightarrow>
          if ref = '''' then Inr s
          else
            bind_r (customer_for_org org s) (\<lambda>customer.
            bind_r (one_or_none MultipleResultsFound
                      (\<lambda>r. inv_provider r = Some provider_name \<and> inv_provider_invoice_id r = Some ref) (invoices s)) (\<lambda>found.
              let (base, s1) =
                    (case found of Some r \<Rightarrow> (r, s)
                     | None \<Rightarrow>
                         (let r = \<lparr>inv_id = next_uuid s, inv_organization_id = org, inv_billing_customer_id = None,
                              inv_provider = None, inv_provider_invoice_id = None, inv_number = None,
                              inv_currency = ''PHP'', inv_subtotal_cents = 0, inv_tax_cents = 0, inv_total_cents = 0,
                              inv_status = Draft, inv_period_start = None, inv_period_end = None,
                              inv_hosted_url = None, inv_pdf_url = None, inv_issued_at = None, inv_paid_at = None,
                              inv_created_at = tx_now s\<rparr>
                          in (r, s\<lparr>next_uuid := Suc (next_uuid s), invoices := invoices s @ [r]\<rparr>)));
                  r' = base\<lparr>inv_provider := Some provider_name, inv_provider_invoice_id := Some ref,
                     inv_billing_customer_id := map_option bc_id customer,
                     inv_currency := (case be_currency ev of Some c \<Rightarrow> if c = '''' then ''PHP'' else c | None \<Rightarrow> ''PHP''),
                     inv_total_cents := (case be_amount_cents ev of Some c \<Rightarrow> c | None \<Rightarrow> 0),
                     inv_status := status, inv_hosted_url := be_hosted_url ev,
                     inv_paid_at := (if status = Paid then Some (be_occurred_at ev) else inv_paid_at base)\<rparr>
              in bind_r (flush_invoices (save_invoice r' s1)) (\<lambda>s2.
                   Inr (if status = Paid
                        then append_outbox INVOICE_PAID ''invoice'' (inv_id r')
                          [(''total_cents'', JInt (inv_total_cents r')), (''currency'', JStr (inv_currency r'))]
                          (Some org) s2
                        else s2)))))"

definition apply_event ::
  "billing_settings \<Rightarrow> (error + billing_provider) \<Rightarrow> datetime \<Rightarrow> string \<Rightarrow> billing_event \<Rightarrow> 'a bill_db_scheme
    \<Rightarrow> error + 'a bill_db_scheme" where
  "apply_event cfg configured now provider_name ev s =
     (case org_for_provider_ref (be_provider_customer_id ev) (be_provider_subscription_id ev) s of
        None \<Rightarrow> Inr s
      | Some org \<Rightarrow>
          (case be_event_type ev of
             BE_SUBSCRIPTION_ACTIVATED \<Rightarrow> apply_status now org ev ''active'' s
           | BE_SUBSCRIPTION_CREATED \<Rightarrow> apply_status now org ev ''active'' s
           | BE_SUBSCRIPTION_TRIAL_ENDED \<Rightarrow> apply_status now org ev ''active'' s
           | BE_SUBSCRIPTION_UPDATED \<Rightarrow>
               apply_status now org ev
                 (case be_status ev of Some t \<Rightarrow> if t = '''' then ''active'' else t | None \<Rightarrow> ''active'') s
           | BE_SUBSCRIPTION_CANCELED \<Rightarrow> apply_status now org ev ''canceled'' s
           | BE_SUBSCRIPTION_PAST_DUE \<Rightarrow> apply_status now org ev ''past_due'' s
           | BE_INVOICE_PAID \<Rightarrow> upsert_invoice provider_name org ev Paid s
           | BE_INVOICE_CREATED \<Rightarrow> upsert_invoice provider_name org ev Open s
           | BE_INVOICE_FAILED \<Rightarrow> upsert_invoice provider_name org ev Uncollectible s
           | BE_CHECKOUT_COMPLETED \<Rightarrow> apply_checkout_completed cfg configured now org ev s
           | _ \<Rightarrow> Inr s))"

text \<open>
  The events of one webhook, each in a savepoint: a domain error rolls its event back and is
  counted, anything else ends the request.
\<close>

fun apply_events ::
  "billing_settings \<Rightarrow> (error + billing_provider) \<Rightarrow> datetime \<Rightarrow> string \<Rightarrow> billing_event list \<Rightarrow> nat \<Rightarrow> nat
    \<Rightarrow> 'a bill_db_scheme \<Rightarrow> error + ((nat \<times> nat) \<times> 'a bill_db_scheme)" where
  "apply_events cfg configured now provider_name [] applied rejected s = Inr ((applied, rejected), s)"
| "apply_events cfg configured now provider_name (ev # evs) applied rejected s =
     (case apply_event cfg configured now provider_name ev s of
        Inr s1 \<Rightarrow> apply_events cfg configured now provider_name evs (Suc applied) rejected s1
      | Inl (Domain k x) \<Rightarrow> apply_events cfg configured now provider_name evs applied (Suc rejected) s
      | Inl e \<Rightarrow> Inl e)"

definition settle_webhook ::
  "datetime \<Rightarrow> uuid \<Rightarrow> nat option \<Rightarrow> 'a bill_db_scheme \<Rightarrow> 'a bill_db_scheme" where
  "settle_webhook now i rejected s =
     s\<lparr>provider_webhook_events := update_where (\<lambda>w. pw_id w = i)
        (\<lambda>w. w\<lparr>pw_processed_at := Some now, pw_rejected := rejected\<rparr>) (provider_webhook_events s)\<rparr>"

definition handle_webhook ::
  "billing_settings \<Rightarrow> (error + billing_provider) \<Rightarrow> billing_provider \<Rightarrow> datetime \<Rightarrow> string \<Rightarrow> webhook_request
    \<Rightarrow> 'a bill_db_scheme \<Rightarrow> error + (webhook_outcome \<times> 'a bill_db_scheme)" where
  "handle_webhook cfg configured pv now provider_name raw s =
     bind_r (pv_verify_webhook pv raw) (\<lambda>v.
       if \<exists>w\<in>set (provider_webhook_events s).
            pw_provider w = provider_name \<and> pw_provider_event_id w = vw_provider_event_id v
       then Inr (\<lparr>wo_status = Wh_Duplicate, wo_events_applied = 0, wo_events_rejected = None\<rparr>, s)
       else
         let i = next_uuid s;
             s1 = s\<lparr>next_uuid := Suc i, provider_webhook_events := provider_webhook_events s @
               [\<lparr>pw_id = i, pw_provider = provider_name, pw_provider_event_id = vw_provider_event_id v,
                 pw_event_type = vw_event_type v, pw_processed_at = None, pw_rejected = None\<rparr>]\<rparr>
         in case pv_translate_webhook pv v of
              None \<Rightarrow> Inr (\<lparr>wo_status = Wh_Unprocessable, wo_events_applied = 0, wo_events_rejected = Some 1\<rparr>,
                          settle_webhook now i (Some 1) s1)
            | Some evs \<Rightarrow>
                bind_r (apply_events cfg configured now provider_name evs 0 0 s1) (\<lambda>((applied, rejected), s2).
                  Inr (\<lparr>wo_status = Wh_Processed, wo_events_applied = applied, wo_events_rejected = Some rejected\<rparr>,
                       settle_webhook now i (if rejected = 0 then None else Some rejected) s2)))"

section \<open>What the ingest promises\<close>

lemma apply_events_no_domain_error:
  "apply_events cfg c now pn evs a b s = Inl e \<Longrightarrow> \<not> is_domain_error e"
  by (induction cfg c now pn evs a b s rule: apply_events.induct) (auto split: sum.splits error.splits)

text \<open>Nothing the ingest does to the other tables touches the ledger.\<close>

definition ledger_kept :: "'a bill_db_scheme \<Rightarrow> 'a bill_db_scheme \<Rightarrow> bool" where
  "ledger_kept s s' \<longleftrightarrow> provider_webhook_events s' = provider_webhook_events s"

lemma ledger_kept_refl [simp]: "ledger_kept s s"
  by (simp add: ledger_kept_def)

lemma ledger_kept_trans: "ledger_kept s t \<Longrightarrow> ledger_kept t u \<Longrightarrow> ledger_kept s u"
  by (simp add: ledger_kept_def)

lemma writers_keep_ledger [simp]:
  "provider_webhook_events (append_outbox ev ty i p o' s) = provider_webhook_events s"
  "provider_webhook_events (audit_log_as ev org a aty tt ti d s) = provider_webhook_events s"
  "provider_webhook_events (save_subscription r s) = provider_webhook_events s"
  "provider_webhook_events (save_invoice q s) = provider_webhook_events s"
  "provider_webhook_events (bump_subscription_cache now org' s) = provider_webhook_events s"
  "provider_webhook_events (emit_subscription ev r pl x s) = provider_webhook_events s"
  "provider_webhook_events (audit_subscription ev org' ti' d' s) = provider_webhook_events s"
  by (simp_all add: append_outbox_def audit_log_as_def save_subscription_def save_invoice_def
      bump_subscription_cache_def bump_and_defer_def defer_bump_s_def emit_subscription_def
      audit_subscription_def split: prod.split)

lemma apply_provider_transition_ledger:
  "apply_provider_transition now r st pe s = Inr (r', s') \<Longrightarrow> ledger_kept s s'"
  by (auto simp: apply_provider_transition_def bind_r_eq_Inr Let_def ledger_kept_def)

lemma create_subscription_ledger:
  "create_subscription now org p st a b c d e f s = Inr (r, s') \<Longrightarrow> ledger_kept s s'"
  by (auto simp: create_subscription_def bind_r_eq_Inr Let_def ledger_kept_def)

lemma change_plan_ledger:
  assumes "change_plan now org k pv ref keep s = Inr (r, s')"
  shows "ledger_kept s s'"
proof -
  from assms obtain p where p: "plan_by_key k False s = Inr p" by (auto simp: change_plan_def bind_r_eq_Inr)
  show ?thesis
  proof (cases "current_for_org org s")
    case None
    with assms p show ?thesis by (auto simp: change_plan_def intro: create_subscription_ledger)
  next
    case (Some e)
    with assms p show ?thesis by (auto simp: change_plan_def bind_r_eq_Inr Let_def ledger_kept_def)
  qed
qed

lemma ensure_customer_ledger: "ensure_customer cfg pv org contact s = Inr (c, s') \<Longrightarrow> ledger_kept s s'"
  by (auto simp: ensure_customer_def bind_r_eq_Inr Let_def ledger_kept_def split: option.splits)

lemma record_invoice_ledger: "record_invoice pv c p s = Inr s' \<Longrightarrow> ledger_kept s s'"
  by (auto simp: record_invoice_def bind_r_eq_Inr Let_def ledger_kept_def split: if_splits)

lemma upsert_invoice_ledger: "upsert_invoice pn org ev st s = Inr s' \<Longrightarrow> ledger_kept s s'"
  by (auto simp: upsert_invoice_def bind_r_eq_Inr Let_def ledger_kept_def split: option.splits if_splits prod.splits)

lemma apply_status_ledger: "apply_status now org ev t s = Inr s' \<Longrightarrow> ledger_kept s s'"
  by (auto simp: apply_status_def bind_r_eq_Inr ledger_kept_def split: option.splits
      dest!: apply_provider_transition_ledger)

lemma complete_checkout_ledger:
  "complete_checkout cfg pv now org p i u src s = Inr (r, s') \<Longrightarrow> ledger_kept s s'"
  by (auto simp: complete_checkout_def bind_r_eq_Inr dest!: ensure_customer_ledger change_plan_ledger
      record_invoice_ledger intro: ledger_kept_trans)

lemma apply_checkout_completed_ledger: "apply_checkout_completed cfg pv now org ev s = Inr s' \<Longrightarrow> ledger_kept s s'"
  by (auto simp: apply_checkout_completed_def bind_r_eq_Inr dest: complete_checkout_ledger
      split: option.splits if_splits)

lemma apply_event_ledger: "apply_event cfg c now pn ev s = Inr s' \<Longrightarrow> ledger_kept s s'"
  by (auto simp: apply_event_def split: option.splits billing_event_type.splits
      intro: apply_status_ledger upsert_invoice_ledger apply_checkout_completed_ledger)

lemma apply_events_ledger: "apply_events cfg c now pn evs a b s = Inr (r, s') \<Longrightarrow> ledger_kept s s'"
proof (induction cfg c now pn evs a b s rule: apply_events.induct)
  case (1 cfg c now pn a b s)
  then show ?case by simp
next
  case (2 cfg c now pn ev evs a b s)
  show ?case
  proof (cases "apply_event cfg c now pn ev s")
    case (Inl e)
    with 2 show ?thesis by (cases e) auto
  next
    case (Inr s1)
    with 2 have "ledger_kept s1 s'" by simp
    with apply_event_ledger [OF Inr] show ?thesis by (rule ledger_kept_trans)
  qed
qed

text \<open>
  C23. A provider's retry changes nothing: once a webhook has been answered, the same provider
  event delivered again, whatever the provider says in it, is answered as a duplicate and leaves
  the database exactly as it is.
\<close>

theorem redelivered_webhook_ignored:
  assumes "handle_webhook cfg c pv now pn raw s = Inr (out, s')"
    and "pv_verify_webhook pv raw = Inr v" and "pv_verify_webhook pv' raw' = Inr v'"
    and "vw_provider_event_id v' = vw_provider_event_id v"
  shows "handle_webhook cfg' c' pv' now' pn raw' s'
    = Inr (\<lparr>wo_status = Wh_Duplicate, wo_events_applied = 0, wo_events_rejected = None\<rparr>, s')"
proof -
  let ?in = "\<lambda>w. pw_provider w = pn \<and> pw_provider_event_id w = vw_provider_event_id v"
  let ?row = "\<lparr>pw_id = next_uuid s, pw_provider = pn, pw_provider_event_id = vw_provider_event_id v,
      pw_event_type = vw_event_type v, pw_processed_at = None, pw_rejected = None\<rparr>"
  have settled: "\<exists>w\<in>set (provider_webhook_events (settle_webhook now i b t)). ?in w"
    if "?row \<in> set (provider_webhook_events t)" for i b t
  proof -
    let ?f = "\<lambda>w. if pw_id w = i then w\<lparr>pw_processed_at := Some now, pw_rejected := b\<rparr> else w"
    have rows: "provider_webhook_events (settle_webhook now i b t) = map ?f (provider_webhook_events t)"
      by (simp add: settle_webhook_def update_where_def)
    have "?f ?row \<in> set (provider_webhook_events (settle_webhook now i b t))"
      unfolding rows set_map using that by (rule imageI)
    then show ?thesis by (rule bexI [rotated]) simp
  qed
  have "\<exists>w\<in>set (provider_webhook_events s'). ?in w"
  proof (cases "\<exists>w\<in>set (provider_webhook_events s). ?in w")
    case True
    with assms(1,2) show ?thesis by (simp add: handle_webhook_def)
  next
    case False
    let ?s1 = "s\<lparr>next_uuid := Suc (next_uuid s), provider_webhook_events := provider_webhook_events s @ [?row]\<rparr>"
    have row1: "?row \<in> set (provider_webhook_events ?s1)" by simp
    show ?thesis
    proof (cases "pv_translate_webhook pv v")
      case None
      with assms(1,2) False have "s' = settle_webhook now (next_uuid s) (Some 1) ?s1"
        by (simp add: handle_webhook_def Let_def)
      with settled [OF row1] show ?thesis by simp
    next
      case (Some evs)
      with assms(1,2) False obtain a b s2 where
        run: "apply_events cfg c now pn evs 0 0 ?s1 = Inr ((a, b), s2)"
        and s': "s' = settle_webhook now (next_uuid s) (if b = 0 then None else Some b) s2"
        by (auto simp: handle_webhook_def Let_def bind_r_eq_Inr)
      have "?row \<in> set (provider_webhook_events s2)"
        using apply_events_ledger [OF run] row1 by (simp add: ledger_kept_def)
      from settled [OF this] s' show ?thesis by simp
    qed
  qed
  with assms(3,4) show ?thesis by (auto simp: handle_webhook_def)
qed


section \<open>Late events\<close>

text \<open>
  Webhooks bypass the invoice's transition table: an \<open>invoice.created\<close> event that arrives
  after the invoice was paid (under an event id of its own, as providers send them) puts the paid
  invoice back to open, although the table does not let a paid invoice move.
\<close>

theorem late_created_event_reopens_paid_invoice:
  assumes "r \<in> set (invoices s)" and "inv_provider r = Some pn" and "inv_provider_invoice_id r = Some ref" "ref \<noteq> ''''"
    and "distinct (map inv_id (invoices s))" and "unique_invoices (invoices s)" and "inv_status r = Paid"
    and "inv_organization_id r = org" and "customer_for_org org s = Inr c"
    and "be_event_type ev = BE_INVOICE_CREATED" and "be_provider_invoice_id ev = Some ref"
    and "org_for_provider_ref (be_provider_customer_id ev) (be_provider_subscription_id ev) s = Some org"
  shows "assert_invoice_transition (inv_status r) Open \<noteq> Inr ()
    \<and> (\<exists>s' r'. apply_event cfg configured now pn ev s = Inr s' \<and> r' \<in> set (invoices s')
        \<and> inv_id r' = inv_id r \<and> inv_status r' = Open \<and> inv_paid_at r' = inv_paid_at r)"
proof
  show "assert_invoice_transition (inv_status r) Open \<noteq> Inr ()"
    using assms(7) by (simp add: assert_invoice_transition_def)
  let ?P = "\<lambda>r. inv_provider r = Some pn \<and> inv_provider_invoice_id r = Some ref"
  let ?q = "\<lambda>r. inv_provider r \<noteq> None \<and> inv_provider_invoice_id r \<noteq> None"
  let ?l = "\<lambda>r. (inv_provider r, inv_provider_invoice_id r)"
  have "filter (\<lambda>x. ?l x = (Some pn, Some ref)) (filter ?q (invoices s)) = [r]"
    by (rule distinct_key_filter) (use assms(1,2,3,6) in \<open>simp_all add: unique_invoices_def\<close>)
  moreover have "filter ?P (invoices s) = filter (\<lambda>x. ?l x = (Some pn, Some ref)) (filter ?q (invoices s))"
    unfolding filter_filter by (rule filter_cong) auto
  ultimately have "filter ?P (invoices s) = [r]" by (simp only:)
  then have found: "one_or_none MultipleResultsFound ?P (invoices s) = Inr (Some r)"
    by (simp add: one_or_none_def)
  define r' where "r' = r\<lparr>inv_provider := Some pn, inv_provider_invoice_id := Some ref,
    inv_billing_customer_id := map_option bc_id c,
    inv_currency := (case be_currency ev of Some c \<Rightarrow> if c = '''' then ''PHP'' else c | None \<Rightarrow> ''PHP''),
    inv_total_cents := (case be_amount_cents ev of Some c \<Rightarrow> c | None \<Rightarrow> 0),
    inv_status := Open, inv_hosted_url := be_hosted_url ev, inv_paid_at := inv_paid_at r\<rparr>"
  have r': "inv_id r' = inv_id r" "inv_status r' = Open" "inv_paid_at r' = inv_paid_at r"
    "inv_organization_id r' = inv_organization_id r" "inv_provider r' = inv_provider r"
    "inv_provider_invoice_id r' = inv_provider_invoice_id r" "inv_number r' = inv_number r"
    using assms(2,3) by (simp_all add: r'_def)
  have run: "upsert_invoice pn org ev Open s = bind_r (flush_invoices (save_invoice r' s)) Inr"
    using assms(4,9,11) found by (simp add: upsert_invoice_def Let_def r'_def)
  obtain a b where rows: "invoices s = a @ r # b"
    and upd: "update_where (\<lambda>x. inv_id x = inv_id r') (\<lambda>_. r') (invoices s) = a @ r' # b"
    using replace_row_split [OF assms(5,1) r'(1)] by blast
  have "unique_invoices (a @ r' # b)"
    by (rule unique_invoices_same [OF assms(6) [unfolded rows] r'(4-7)])
  then have fl: "flush_invoices (save_invoice r' s) = Inr (save_invoice r' s)" by (simp add: upd)
  have "apply_event cfg configured now pn ev s = Inr (save_invoice r' s)"
    unfolding apply_event_def assms(12) option.case assms(10) billing_event_type.case run by (simp only: fl bind_r_simps)
  moreover have "r' \<in> set (invoices (save_invoice r' s))" by (simp add: upd)
  ultimately show "\<exists>s' r'. apply_event cfg configured now pn ev s = Inr s' \<and> r' \<in> set (invoices s')
        \<and> inv_id r' = inv_id r \<and> inv_status r' = Open \<and> inv_paid_at r' = inv_paid_at r"
    using r' by blast
qed

section \<open>A plan change within the period\<close>

lemma snapshot_price_plan [simp]: "snapshot_price (plan_snapshot p) = price_or_zero p"
  by (simp add: snapshot_price_def plan_snapshot_def price_or_zero_def json_int_or_zero_def opt_json_def
      split: option.split)

lemma billing_change_plan_local:
  assumes "sub_inv s" and "current_for_org org s = Some e" and "sub_status e = Active"
    and "0 < snapshot_price (sub_plan_snapshot e)" and "now < sub_current_period_end e"
    and "RECURRING_HOSTED \<notin> pv_supports pv" and "plan_by_key key False s = Inr p" and "plan_key p = key"
    and "billing_change_plan pv now org key s = Inr (r, s')"
  shows "current_for_org org s' = Some r \<and> sub_inv s' \<and> sub_plan_snapshot r = plan_snapshot p
    \<and> sub_current_period_start r = sub_current_period_start e \<and> sub_current_period_end r = sub_current_period_end e
    \<and> queued r = queued e + arrears_adjustment_cents (snapshot_price (sub_plan_snapshot e)) (price_or_zero p)
        (sub_current_period_start e) (sub_current_period_end e) now"
proof -
  let ?old = "snapshot_price (sub_plan_snapshot e)"
  let ?adj = "arrears_adjustment_cents ?old (price_or_zero p) (sub_current_period_start e) (sub_current_period_end e) now"
  have prev: "snapshot_period (current_for_org org s) = Some \<lparr>ps_plan_key =
      (case map_of (sub_plan_snapshot e) ''key'' of None \<Rightarrow> '''' | v \<Rightarrow> json_str v),
      ps_price_cents = ?old, ps_period_start = sub_current_period_start e, ps_period_end = sub_current_period_end e\<rparr>"
    (is "_ = Some ?prev") using assms(2,3) by (simp add: snapshot_period_def)
  from assms(4,6-9) prev obtain r1 s1 where cp: "change_plan now org key (Some (pv_name pv)) None True s = Inr (r1, s1)"
    and rest: "(case proration_adjustment now (Some ?prev) r1 p of None \<Rightarrow> Inr (r1, s1)
       | Some adj \<Rightarrow> (let r' = r1\<lparr>sub_pending_adjustments := sub_pending_adjustments r1 @ [adj]\<rparr>
           in bind_r (flush_subscriptions (save_subscription r' s1)) (\<lambda>s2. Inr (r', s2)))) = Inr (r, s')"
    by (auto simp: billing_change_plan_def bind_r_eq_Inr Let_def)
  note eff = change_plan_result [OF assms(1) cp]
  from cp assms(2,7) have r1: "r1 = replan now p (Some (pv_name pv)) None True e"
    by (auto simp: change_plan_def bind_r_eq_Inr Let_def)
  have fields: "sub_current_period_start r1 = sub_current_period_start e"
    "sub_current_period_end r1 = sub_current_period_end e" "sub_plan_snapshot r1 = plan_snapshot p"
    "sub_pending_adjustments r1 = sub_pending_adjustments e"
    using assms(3,5) by (simp_all add: r1 replan_def Let_def)
  show ?thesis
  proof (cases "?adj = 0")
    case True
    then have "proration_adjustment now (Some ?prev) r1 p = None"
      using fields(2) by (simp add: proration_adjustment_def)
    with rest have "r = r1" "s' = s1" by auto
    with eff fields True show ?thesis by (simp add: queued_def)
  next
    case False
    then obtain adj where adj: "proration_adjustment now (Some ?prev) r1 p = Some adj" "adjustment_amount adj = ?adj"
      using fields(2) by (simp add: proration_adjustment_def Let_def adjustment_amount_def json_int_or_zero_def)
    let ?r = "r1\<lparr>sub_pending_adjustments := sub_pending_adjustments r1 @ [adj]\<rparr>"
    from rest adj(1) have u: "unique_subscriptions (subscription_rows (save_subscription ?r s1))"
      and r: "r = ?r" and s': "s' = save_subscription ?r s1"
      by (auto simp: Let_def bind_r_eq_Inr)
    from eff have inv1: "sub_inv s1" and cur1: "current_for_org org s1 = Some r1" by blast+
    have "sub_organization_id r1 = org" "occupying r1" using current_for_orgD [OF cur1] by auto
    then have "current_for_org org s' = Some ?r" "sub_inv s'"
      using saved_row(1,4) [OF inv1 cur1 _ _ u] unfolding s' by (simp_all add: occupying_def)
    with fields adj(2) show ?thesis unfolding r by (simp add: queued_def)
  qed
qed

text \<open>
  C24. A mid-period plan change is billed in arrears on one invoice: after an organization on a
  locally billed, paid plan switches, the next drafted invoice charges the new price, the overage,
  what was queued before and the correction for the part of the period at the old price, and
  nothing below zero is collected.
\<close>

theorem plan_change_billed_in_arrears:
  assumes "sub_inv s" and "current_for_org org s = Some e" and "sub_status e = Active"
    and "0 < snapshot_price (sub_plan_snapshot e)" and "now < sub_current_period_end e"
    and "RECURRING_HOSTED \<notin> pv_supports pv" and "plan_by_key key False s = Inr p" and "plan_key p = key"
    and "billing_change_plan pv now org key s = Inr (r, s')"
    and "find_draft org m s' = Inr None" and "draft_for_org cfg later org (Some m) s' = Inr (i, s'')"
  shows "\<exists>ent s1. effective_for_org cfg later org s' = Inr (ent, s1)
    \<and> inv_total_cents i = max 0 (max 0 (price_or_zero p) + line_amount (overage_lines org m ent s1) + queued e
        + arrears_adjustment_cents (snapshot_price (sub_plan_snapshot e)) (price_or_zero p)
            (sub_current_period_start e) (sub_current_period_end e) now)"
proof -
  from billing_change_plan_local [OF assms(1-9)] have cur: "current_for_org org s' = Some r"
    and snap: "sub_plan_snapshot r = plan_snapshot p"
    and q: "queued r = queued e + arrears_adjustment_cents (snapshot_price (sub_plan_snapshot e)) (price_or_zero p)
        (sub_current_period_start e) (sub_current_period_end e) now" by blast+
  from assms(11,10) obtain sub ent s1 where sub: "current_for_org org s' = Some sub"
    and eff: "effective_for_org cfg later org s' = Inr (ent, s1)"
    and total: "inv_total_cents i = max 0 (line_amount (draft_lines org m sub ent s1))"
    by (rule draft_for_org_new)
  have "line_amount (draft_lines org m sub ent s1)
      = max 0 (price_or_zero p) + line_amount (overage_lines org m ent s1) + queued r"
    using plan_lines_amount [of "plan_snapshot p"] adjustment_lines_amount [of "sub_pending_adjustments r"]
      sub cur snap by (simp add: draft_lines_def line_amount_def queued_def)
  with total eff q show ?thesis by auto
qed

section \<open>Concrete webhooks and plan changes\<close>

definition demo_billing_settings :: billing_settings where
  "demo_billing_settings = settings.extend demo_settings \<lparr>billing_currency = ''PHP'', manual_webhook_token = ''secret''\<rparr>"

definition demo_loads :: "string \<Rightarrow> json option" where
  "demo_loads text =
     (if text = ''cancel'' then Some (JObj [(''id'', JStr ''evt_1''), (''type'', JStr ''manual.subscription.canceled''),
       (''data'', JObj [(''customer_id'', JStr ''cus_9'')])]) else None)"

definition demo_manual :: billing_provider where
  "demo_manual = manual_provider demo_billing_settings demo_loads ''0a'' 0"

definition demo_hook_request :: webhook_request where
  "demo_hook_request = \<lparr>wr_headers = [(''x-manual-token'', ''secret'')],
     wr_body = ''cancel''\<rparr>"

lemma demo_hook_verifies:
  "\<exists>v. pv_verify_webhook demo_manual demo_hook_request = Inr v \<and> vw_provider_event_id v = ''evt_1''"
  by (simp add: demo_manual_def manual_provider_def manual_verify_def demo_hook_request_def demo_loads_def demo_billing_settings_def
      settings.defs Let_def)

lemma demo_event_without_org:
  "org_for_provider_ref (Some c) None (s\<lparr>provider_webhook_events := ws, next_uuid := n\<rparr>)
     = (case first_row (\<lambda>r. bc_provider_customer_id r = Some c) (billing_customers s) of
          Some r \<Rightarrow> Some (bc_organization_id r) | None \<Rightarrow> None)"
  by (simp add: org_for_provider_ref_def split: option.split)

theorem redelivered_webhook_ignored_witness:
  "\<exists>out s'. handle_webhook demo_billing_settings (Inr demo_manual) demo_manual 0 ''manual'' demo_hook_request demo_bill = Inr (out, s')
     \<and> handle_webhook demo_billing_settings (Inr demo_manual) demo_manual 9 ''manual'' demo_hook_request s'
         = Inr (\<lparr>wo_status = Wh_Duplicate, wo_events_applied = 0, wo_events_rejected = None\<rparr>, s')"
proof -
  obtain v where v: "pv_verify_webhook demo_manual demo_hook_request = Inr v" using demo_hook_verifies by blast
  have rows: "provider_webhook_events demo_bill = []" by (simp add: demo_bill_def access_db.defs ident_db.defs auth_db.defs acct_db.defs)
  obtain evs where evs: "pv_translate_webhook demo_manual v = Some evs"
    and ev: "\<forall>ev\<in>set evs. be_provider_customer_id ev = Some ''cus_9'' \<and> be_provider_subscription_id ev = None"
    using v by (auto simp: demo_manual_def manual_provider_def manual_verify_def manual_translate_def demo_hook_request_def demo_loads_def
        demo_billing_settings_def settings.defs json_str_def opt_str_def Let_def)
  have run: "apply_events c p now pn evs a b s = Inr ((a + length evs, b), s)"
    if "billing_customers s = []" for c p now pn a b and s :: bill_db
    using ev
  proof (induction evs arbitrary: a)
    case Nil
    then show ?case by simp
  next
    case (Cons e evs)
    then show ?case using that by (simp add: apply_event_def org_for_provider_ref_def first_row_def)
  qed
  have "\<exists>out s'. handle_webhook demo_billing_settings (Inr demo_manual) demo_manual 0 ''manual'' demo_hook_request demo_bill = Inr (out, s')"
    by (simp add: handle_webhook_def v evs run rows Let_def)
  then obtain out s' where h: "handle_webhook demo_billing_settings (Inr demo_manual) demo_manual 0 ''manual'' demo_hook_request demo_bill
      = Inr (out, s')" by blast
  from redelivered_webhook_ignored [OF h v v refl] h show ?thesis by blast
qed

definition demo_customer :: billing_customer where
  "demo_customer = \<lparr>bc_id = 4, bc_organization_id = 1, bc_provider = ''stripe'', bc_provider_customer_id = Some ''cus_1'',
     bc_email = None, bc_name = None, bc_currency = None\<rparr>"

definition demo_billing_event :: "billing_event_type \<Rightarrow> billing_event" where
  "demo_billing_event ty = \<lparr>be_event_type = ty, be_provider_event_id = ''evt_1'', be_occurred_at = 0,
     be_provider_customer_id = Some ''cus_1'', be_provider_subscription_id = None,
     be_provider_invoice_id = Some ''in_1'', be_plan_key = Some ''pro'', be_status = None,
     be_current_period_end = None, be_amount_cents = Some 9900, be_currency = None, be_hosted_url = None\<rparr>"


theorem late_created_event_reopens_paid_invoice_witness:
  "\<exists>s' r'. apply_event demo_billing_settings (Inr demo_manual) 9 ''stripe'' (demo_billing_event BE_INVOICE_CREATED)
        (demo_bill\<lparr>billing_customers := [demo_customer],
           invoices := [(demo_invoice 3 1 Paid)\<lparr>inv_provider := Some ''stripe'', inv_provider_invoice_id := Some ''in_1''\<rparr>]\<rparr>)
      = Inr s' \<and> r' \<in> set (invoices s') \<and> inv_status r' = Open"
proof -
  let ?r = "(demo_invoice 3 1 Paid)\<lparr>inv_provider := Some ''stripe'', inv_provider_invoice_id := Some ''in_1''\<rparr>"
  let ?s = "demo_bill\<lparr>billing_customers := [demo_customer], invoices := [?r]\<rparr>"
  have c: "customer_for_org 1 ?s = Inr (Some demo_customer)"
    by (simp add: customer_for_org_def one_or_none_def demo_customer_def)
  have o': "org_for_provider_ref (be_provider_customer_id (demo_billing_event BE_INVOICE_CREATED))
      (be_provider_subscription_id (demo_billing_event BE_INVOICE_CREATED)) ?s = Some 1"
    by (simp add: org_for_provider_ref_def demo_billing_event_def first_row_def demo_customer_def)
  have r: "?r \<in> set (invoices ?s)" "unique_invoices (invoices ?s)" by (simp_all add: unique_invoices_def)
  from late_created_event_reopens_paid_invoice [OF r(1) _ _ _ _ r(2) _ _ c _ _ o',
      where pn = "''stripe''" and ref = "''in_1''" and now = 9 and cfg = demo_billing_settings
        and configured = "Inr demo_manual"]
  show ?thesis by (auto simp: demo_invoice_def demo_billing_event_def)
qed

lemma sub_writers_billing [simp]:
  "invoices (emit_subscription ev r p x s) = invoices s"
  "invoices (audit_subscription ev org i d s) = invoices s"
  "invoices (bump_subscription_cache now org s) = invoices s"
  by (simp_all add: emit_subscription_def audit_subscription_def bump_subscription_cache_def
      bump_and_defer_def defer_bump_s_def)

theorem plan_change_billed_in_arrears_witness:
  "\<exists>r s' i s'' x. billing_change_plan demo_manual (days 7) 7 ''free''
        (demo_bill\<lparr>subscription_rows := [demo_subscription 5 7 demo_pro Active]\<rparr>) = Inr (r, s')
     \<and> draft_for_org demo_settings (days 14) 7 (Some (Date 1970 1 1)) s' = Inr (i, s'')
     \<and> inv_total_cents i = max 0 (x + 4950)"
proof -
  let ?e = "demo_subscription 5 7 demo_pro Active"
  let ?s = "demo_bill\<lparr>subscription_rows := [?e]\<rparr>"
  let ?r1 = "replan (days 7) demo_free (Some (pv_name demo_manual)) None True ?e"
  have cur: "current_for_org 7 ?s = Some ?e" and inv: "sub_inv ?s"
    by (simp_all add: current_for_org_def rows_where_def occupying_def demo_subscription_def OCCUPYING_STATUSES_def
        sub_inv_def unique_subscriptions_def)
  have plan: "plan_by_key ''free'' False ?s = Inr demo_free" "plan_key demo_free = ''free''"
    by (simp_all add: plan_by_key_def one_or_none_def demo_free_def demo_pro_def demo_plan_def)
  have price: "snapshot_price (sub_plan_snapshot ?e) = 9900" "price_or_zero demo_free = 0"
    "sub_current_period_start ?e = 0" "sub_current_period_end ?e = days 14" "sub_status ?e = Active" "queued ?e = 0"
    by (simp_all add: demo_subscription_def price_or_zero_def demo_free_def demo_pro_def demo_plan_def queued_def)
  have paid: "0 < snapshot_price (sub_plan_snapshot ?e)" and live: "days 7 < sub_current_period_end ?e"
    by (simp_all only: price) (simp_all add: days_def seconds_def)
  have adj: "arrears_adjustment_cents 9900 0 0 (days 14) (days 7) = 4950"
    by (simp add: arrears_adjustment_cents_def elapsed_fraction_def prorate_def whole_def days_def seconds_def
        half_even_div_def cents_def half_up_div_def Let_def)
  have pv: "RECURRING_HOSTED \<notin> pv_supports demo_manual" by (simp add: demo_manual_def manual_provider_def)
  have fl: "flush_subscriptions (save_subscription ?r1 ?s) = Inr (save_subscription ?r1 ?s)"
    by (simp add: update_where_def unique_subscriptions_def)
  obtain s1 where cp: "change_plan (days 7) 7 ''free'' (Some (pv_name demo_manual)) None True ?s = Inr (?r1, s1)"
    and s1: "subscription_rows s1 = [?r1]" "plan_rows s1 = [demo_free, demo_pro]" "invoices s1 = []"
    unfolding change_plan_def plan(1) bind_r_simps cur option.case Let_def fl
    by (simp add: update_where_def)
  have r1: "sub_current_period_end ?r1 = days 14" "sub_plan_id ?r1 = plan_id demo_free"
    using live by (simp_all add: price)
  obtain prev where prev: "snapshot_period (current_for_org 7 ?s) = Some prev" "ps_price_cents prev = 9900"
    "ps_period_start prev = 0" "ps_period_end prev = days 14"
    unfolding cur snapshot_period_def option.case by (simp add: price)
  obtain a where a: "proration_adjustment (days 7) (Some prev) ?r1 demo_free = Some a"
    using prev(2-4) r1(1) by (simp add: proration_adjustment_def price adj Let_def)
  let ?r2 = "?r1\<lparr>sub_pending_adjustments := sub_pending_adjustments ?r1 @ [a]\<rparr>"
  have fl2: "flush_subscriptions (save_subscription ?r2 s1) = Inr (save_subscription ?r2 s1)"
    using s1(1) by (simp add: update_where_def unique_subscriptions_def)
  have "billing_change_plan demo_manual (days 7) 7 ''free'' ?s = Inr (?r2, save_subscription ?r2 s1)"
    using pv prev(1,2) a
    unfolding billing_change_plan_def plan(1) bind_r_simps Let_def cp[folded plan(2)]
    by (simp only: if_False prev(1) option.case prev(2) cp plan(2) a bind_r_simps prod.case fl2 if_True
        zero_less_numeral)
  then obtain r s' where run: "billing_change_plan demo_manual (days 7) 7 ''free'' ?s = Inr (r, s')"
    and rows: "plan_rows s' = [demo_free, demo_pro]" "invoices s' = []" "sub_plan_id r = plan_id demo_free"
    using s1 r1(2) by simp
  note changed = billing_change_plan_local [OF inv cur price(5) paid live pv plan run]
  have find: "find_draft 7 (Date 1970 1 1) s' = Inr None" using rows by (simp add: find_draft_def one_or_none_def)
  have "plan_of r s' = Inr demo_free"
    using rows by (simp add: plan_of_def first_row_def)
  with changed obtain ent where "compute demo_settings (days 14) 7 s' = Inr ent"
    by (simp only: compute_def Let_def plan_for_def option.case bind_r_simps)
  from effective_returns [OF this] obtain ent' s2 where
    eff: "effective_for_org demo_settings (days 14) 7 s' = Inr (ent', s2)" by blast
  have "unique_invoices (invoices s')" using rows(2) by (simp add: unique_invoices_def)
  with draft_returns [OF find _ eff] changed obtain i s'' where
    draft: "draft_for_org demo_settings (days 14) 7 (Some (Date 1970 1 1)) s' = Inr (i, s'')" by blast
  from plan_change_billed_in_arrears [OF inv cur price(5) paid live pv plan run find draft]
  have "\<exists>x. inv_total_cents i = max 0 (x + 4950)" unfolding price adj by blast
  with run draft show ?thesis by blast
qed

end
