(* ===== verification/Deliveries.thy ===== *)
theory Deliveries
  imports Billing
begin

text \<open>
  \<open>webhooks/models.py\<close> and \<open>webhooks/service.py\<close> with the two worker jobs that feed them
  (\<open>worker/jobs.py\<close>): the outbox is drained into one delivery per subscribed endpoint, and due
  deliveries are posted, both with retries. What the code relies on outside the repository is a
  parameter: encryption, HMAC, JSON text and the HTTP client (\<open>hook_client\<close>), and the failures
  of the database inside a savepoint (\<open>fails\<close>).
\<close>

section \<open>Rows with a retry budget\<close>

text \<open>
  Outbox events and deliveries share one contract: a row is open until it is settled, an attempt
  either settles it or uses up one of its remaining tries and sets the time of the next one at
  most \<open>max_delay\<close> ahead, and a worker tick attempts at least one due row if there is one. Then
  every row is settled after boundedly many ticks.
\<close>

lemma list_all2_right: "list_all2 P xs ys \<Longrightarrow> y \<in> set ys \<Longrightarrow> \<exists>x\<in>set xs. P x y"
  by (induction rule: list_all2_induct) auto

locale backoff_retry =
  fixes is_open :: "'r \<Rightarrow> bool" and tries_left :: "'r \<Rightarrow> nat" and due_at :: "'r \<Rightarrow> datetime"
    and attempted :: "datetime \<Rightarrow> 'r \<Rightarrow> 'r \<Rightarrow> bool" and max_delay :: int
  assumes settles_or_waits: "attempted now r r' \<Longrightarrow> is_open r \<Longrightarrow> is_open r'
      \<Longrightarrow> tries_left r' < tries_left r \<and> due_at r' \<le> now + max_delay"
    and settled_for_good: "attempted now r r' \<Longrightarrow> \<not> is_open r \<Longrightarrow> \<not> is_open r'"
    and max_delay_nonneg: "0 \<le> max_delay"
begin

definition budget :: "'r \<Rightarrow> nat" where
  "budget r = (if is_open r then Suc (tries_left r) else 0)"

definition is_due :: "datetime \<Rightarrow> 'r \<Rightarrow> bool" where
  "is_due now r \<longleftrightarrow> is_open r \<and> due_at r \<le> now"

definition tick :: "datetime \<Rightarrow> 'r list \<Rightarrow> 'r list \<Rightarrow> bool" where
  "tick now rows rows' \<longleftrightarrow> list_all2 (\<lambda>r r'. r' = r \<or> attempted now r r') rows rows'
     \<and> ((\<exists>r\<in>set rows. is_due now r) \<longrightarrow>
          (\<exists>(r, r')\<in>set (zip rows rows'). is_open r \<and> attempted now r r'))"

lemma budget_attempted: "attempted now r r' \<Longrightarrow> budget r' \<le> budget r"
  using settles_or_waits settled_for_good by (fastforce simp: budget_def)

lemma budget_used: "attempted now r r' \<Longrightarrow> is_open r \<Longrightarrow> budget r' < budget r"
  using settles_or_waits by (fastforce simp: budget_def)

lemma sum_budget_le:
  "list_all2 (\<lambda>r r'. r' = r \<or> attempted now r r') rows rows'
     \<Longrightarrow> sum_list (map budget rows') \<le> sum_list (map budget rows)"
  by (induction rule: list_all2_induct) (auto dest!: budget_attempted intro: add_mono)

lemma sum_budget_less:
  "list_all2 (\<lambda>r r'. r' = r \<or> attempted now r r') rows rows'
     \<Longrightarrow> \<exists>(r, r')\<in>set (zip rows rows'). is_open r \<and> attempted now r r'
     \<Longrightarrow> sum_list (map budget rows') < sum_list (map budget rows)"
proof (induction rule: list_all2_induct)
  case Nil
  then show ?case by simp
next
  case (Cons r rs r' rs')
  have le: "budget r' \<le> budget r" using Cons(1) budget_attempted by auto
  show ?case
  proof (cases "is_open r \<and> attempted now r r'")
    case True
    then have "budget r' < budget r" using budget_used by blast
    with sum_budget_le [OF Cons(2)] show ?thesis by simp
  next
    case False
    with Cons.prems have "\<exists>(r, r')\<in>set (zip rs rs'). is_open r \<and> attempted now r r'" by auto
    from Cons.IH [OF this] le show ?thesis by simp
  qed
qed

lemma tick_member:
  assumes "tick now rows rows'" and "r' \<in> set rows'"
  obtains r where "r \<in> set rows" and "r' = r \<or> attempted now r r'"
proof -
  from assms(1) have "list_all2 (\<lambda>r r'. r' = r \<or> attempted now r r') rows rows'" by (simp add: tick_def)
  from list_all2_right [OF this assms(2)] that show thesis by blast
qed

lemma tick_due:
  assumes "tick now rows rows'" and "\<forall>r\<in>set rows. is_open r \<longrightarrow> due_at r \<le> later"
    and "now + max_delay \<le> later"
  shows "\<forall>r\<in>set rows'. is_open r \<longrightarrow> due_at r \<le> later"
proof
  fix r' assume "r' \<in> set rows'"
  with assms(1) obtain r where r: "r \<in> set rows" "r' = r \<or> attempted now r r'"
    by (rule tick_member)
  from r(2) show "is_open r' \<longrightarrow> due_at r' \<le> later"
  proof
    assume "attempted now r r'"
    with settles_or_waits [OF this] settled_for_good [OF this] assms(3) show ?thesis by force
  qed (use r(1) assms(2) in blast)
qed

lemma tick_progress:
  assumes "tick now rows rows'" and "\<forall>r\<in>set rows. is_open r \<longrightarrow> due_at r \<le> now"
  shows "sum_list (map budget rows') < sum_list (map budget rows) \<or> (\<forall>r\<in>set rows. \<not> is_open r)"
proof (cases "\<forall>r\<in>set rows. \<not> is_open r")
  case False
  then have "\<exists>r\<in>set rows. is_due now r" using assms(2) by (auto simp: is_due_def)
  with assms(1) have "list_all2 (\<lambda>r r'. r' = r \<or> attempted now r r') rows rows'"
      "\<exists>(r, r')\<in>set (zip rows rows'). is_open r \<and> attempted now r r'" unfolding tick_def by blast+
  from sum_budget_less [OF this] show ?thesis ..
qed simp

text \<open>Ticks at the times \<open>nows\<close>, each at least \<open>max_delay\<close> after the one before.\<close>

fun ticks :: "datetime list \<Rightarrow> 'r list \<Rightarrow> 'r list \<Rightarrow> bool" where
  "ticks [] rows rows' \<longleftrightarrow> rows' = rows"
| "ticks (now # nows) rows rows' \<longleftrightarrow> (\<exists>mid. tick now rows mid \<and> ticks nows mid rows')"

lemma tick_settled: "tick now rows rows' \<Longrightarrow> \<forall>r\<in>set rows. \<not> is_open r \<Longrightarrow> \<forall>r\<in>set rows'. \<not> is_open r"
proof
  fix r' assume rows: "tick now rows rows'" "\<forall>r\<in>set rows. \<not> is_open r" "r' \<in> set rows'"
  from rows(1,3) obtain r where r: "r \<in> set rows" "r' = r \<or> attempted now r r'" by (rule tick_member)
  with rows(2) show "\<not> is_open r'" using settled_for_good by auto
qed

lemma ticks_settled: "ticks nows rows rows' \<Longrightarrow> \<forall>r\<in>set rows. \<not> is_open r \<Longrightarrow> \<forall>r\<in>set rows'. \<not> is_open r"
  by (induction nows arbitrary: rows) (auto dest: tick_settled)

lemma all_settled:
  "ticks nows rows rows' \<Longrightarrow> successively (\<lambda>a b. a + max_delay \<le> b) nows
     \<Longrightarrow> sum_list (map budget rows) \<le> length nows
     \<Longrightarrow> nows \<noteq> [] \<longrightarrow> (\<forall>r\<in>set rows. is_open r \<longrightarrow> due_at r \<le> hd nows)
     \<Longrightarrow> \<forall>r\<in>set rows'. \<not> is_open r"
proof (induction nows arbitrary: rows)
  case Nil
  then show ?case by (auto simp: budget_def)
next
  case (Cons now nows)
  from Cons.prems(1) obtain mid where mid: "tick now rows mid" "ticks nows mid rows'" by auto
  have due: "\<forall>r\<in>set rows. is_open r \<longrightarrow> due_at r \<le> now" using Cons.prems(4) by simp
  from tick_progress [OF mid(1) due] show ?case
  proof
    assume less: "sum_list (map budget mid) < sum_list (map budget rows)"
    have next_due: "nows \<noteq> [] \<longrightarrow> (\<forall>r\<in>set mid. is_open r \<longrightarrow> due_at r \<le> hd nows)"
    proof
      assume "nows \<noteq> []"
      then have gap: "now + max_delay \<le> hd nows" using Cons.prems(2) by (cases nows) auto
      have "\<forall>r\<in>set rows. is_open r \<longrightarrow> due_at r \<le> hd nows"
      proof (intro ballI impI)
        fix r assume "r \<in> set rows" "is_open r"
        with due have "due_at r \<le> now" by blast
        with gap max_delay_nonneg show "due_at r \<le> hd nows" by linarith
      qed
      then show "\<forall>r\<in>set mid. is_open r \<longrightarrow> due_at r \<le> hd nows" by (rule tick_due [OF mid(1) _ gap])
    qed
    have gaps: "successively (\<lambda>a b. a + max_delay \<le> b) nows" using Cons.prems(2) by (cases nows) simp_all
    have enough: "sum_list (map budget mid) \<le> length nows" using Cons.prems(3) less by simp
    show ?thesis by (rule Cons.IH [OF mid(2) gaps enough next_due])
  next
    assume "\<forall>r\<in>set rows. \<not> is_open r"
    from ticks_settled [OF mid(2) tick_settled [OF mid(1) this]] show ?thesis .
  qed
qed

end

section \<open>Tables\<close>

definition DELIVERY_BACKOFF_SECONDS :: "int list" where
  "DELIVERY_BACKOFF_SECONDS = [60, 300, 1800, 7200, 21600]"

definition MAX_DELIVERY_ATTEMPTS :: nat where
  "MAX_DELIVERY_ATTEMPTS = length DELIVERY_BACKOFF_SECONDS + 1"

record webhook_endpoint =
  ep_id :: uuid
  ep_organization_id :: uuid
  ep_url :: string
  ep_secret_encrypted :: string
  ep_description :: "string option"
  ep_events :: "string list"
  ep_is_active :: bool
  ep_created_at :: datetime

datatype delivery_status = Dl_Pending | Dl_Delivered | Dl_Failed | Dl_Exhausted

record webhook_delivery =
  wd_id :: uuid
  wd_endpoint_id :: uuid
  wd_organization_id :: uuid
  wd_outbox_event_id :: "uuid option"
  wd_event_type :: event_type
  wd_payload :: json_object
  wd_status :: delivery_status
  wd_attempts :: nat
  wd_max_attempts :: nat
  wd_next_attempt_at :: datetime
  wd_last_response_code :: "int option"
  wd_last_error :: "string option"
  wd_response_excerpt :: "string option"
  wd_delivered_at :: "datetime option"
  wd_created_at :: datetime

record hook_db = bill_db +
  webhook_endpoints :: "webhook_endpoint list"
  webhook_deliveries :: "webhook_delivery list"

text \<open>
  What the service calls outside the repository. \<open>hc_encrypt\<close> and \<open>hc_decrypt\<close> are the Fernet
  of the deployment's key, \<open>hc_hmac secret text\<close> the hexadecimal HMAC-SHA256, \<open>hc_dumps\<close> the JSON
  text of a value, and \<open>hc_post url body headers\<close> one POST; \<open>Post_Error\<close> is an \<open>httpx.HTTPError\<close>,
  \<open>Post_Raises\<close> any other exception.
\<close>

datatype post_result = Post_Response int string | Post_Error string | Post_Raises error

record hook_client =
  hc_encrypt :: "string \<Rightarrow> string"
  hc_decrypt :: "string \<Rightarrow> error + string"
  hc_hmac :: "string \<Rightarrow> string \<Rightarrow> string"
  hc_dumps :: "json \<Rightarrow> string"
  hc_post :: "string \<Rightarrow> string \<Rightarrow> (string \<times> string) list \<Rightarrow> post_result"

section \<open>Endpoints\<close>

definition SIGNATURE_HEADER :: string where "SIGNATURE_HEADER = ''X-Synapse-Signature''"

definition record_endpoint_event :: "event_type \<Rightarrow> webhook_endpoint \<Rightarrow> 'a hook_db_scheme \<Rightarrow> 'a hook_db_scheme" where
  "record_endpoint_event ev e s =
     (let payload = [(''endpoint_id'', JUuid (ep_id e)), (''url'', JStr (ep_url e)),
                     (''events'', JList (map JStr (ep_events e)))]
      in audit_log_default ev (Some (ep_organization_id e)) ''webhook_endpoint'' (ep_id e) (Some payload)
           (append_outbox ev ''webhook_endpoint'' (ep_id e) payload (Some (ep_organization_id e)) s))"

text \<open>\<open>tok\<close> is what \<open>secrets.token_urlsafe(24)\<close> gives.\<close>

definition create_endpoint ::
  "hook_client \<Rightarrow> string \<Rightarrow> uuid \<Rightarrow> string \<Rightarrow> string list \<Rightarrow> string option \<Rightarrow> 'a hook_db_scheme
    \<Rightarrow> (webhook_endpoint \<times> string) \<times> 'a hook_db_scheme" where
  "create_endpoint hc tok org url events_filter description s =
     (let secret = ''whsec_'' @ tok;
          e = \<lparr>ep_id = next_uuid s, ep_organization_id = org, ep_url = url,
               ep_secret_encrypted = hc_encrypt hc secret, ep_description = description,
               ep_events = events_filter, ep_is_active = True, ep_created_at = tx_now s\<rparr>
      in ((e, secret),
          record_endpoint_event WEBHOOK_ENDPOINT_CREATED e
            (s\<lparr>next_uuid := Suc (next_uuid s), webhook_endpoints := webhook_endpoints s @ [e]\<rparr>)))"

definition list_endpoints :: "uuid \<Rightarrow> 'a hook_db_scheme \<Rightarrow> webhook_endpoint list" where
  "list_endpoints org s =
     sort_key (\<lambda>e. - ep_created_at e)
       (sort_key ep_id (rows_where (\<lambda>e. ep_organization_id e = org) (webhook_endpoints s)))"

definition get_endpoint :: "uuid \<Rightarrow> uuid \<Rightarrow> 'a hook_db_scheme \<Rightarrow> error + webhook_endpoint" where
  "get_endpoint i org s =
     (case first_row (\<lambda>e. ep_id e = i) (webhook_endpoints s) of
        None \<Rightarrow> raise_error WebhookEndpointNotFoundError
      | Some e \<Rightarrow> if ep_organization_id e \<noteq> org then raise_error WebhookEndpointNotFoundError else Inr e)"

text \<open>The foreign key deletes the deliveries of the endpoint with it.\<close>

definition delete_endpoint :: "uuid \<Rightarrow> uuid \<Rightarrow> 'a hook_db_scheme \<Rightarrow> error + 'a hook_db_scheme" where
  "delete_endpoint i org s =
     bind_r (get_endpoint i org s) (\<lambda>e.
       let s1 = record_endpoint_event WEBHOOK_ENDPOINT_DELETED e s
       in Inr (s1\<lparr>webhook_endpoints := delete_where (\<lambda>x. ep_id x = ep_id e) (webhook_endpoints s1),
                  webhook_deliveries := delete_where (\<lambda>d. wd_endpoint_id d = ep_id e) (webhook_deliveries s1)\<rparr>))"

section \<open>Draining the outbox\<close>

definition OUTBOX_BATCH :: nat where "OUTBOX_BATCH = 20"

definition OUTBOX_MAX_ATTEMPTS :: nat where "OUTBOX_MAX_ATTEMPTS = 8"

definition OUTBOX_BACKOFF_SECONDS :: "int list" where
  "OUTBOX_BACKOFF_SECONDS = [5, 30, 120, 600, 1800, 3600, 3600, 3600]"

definition save_event :: "outbox_event \<Rightarrow> 'a core_db_scheme \<Rightarrow> 'a core_db_scheme" where
  "save_event e s = s\<lparr>outbox_events := update_where (\<lambda>x. oe_id x = oe_id e) (\<lambda>_. e) (outbox_events s)\<rparr>"

text \<open>The endpoints an event is fanned out to.\<close>

definition endpoints_for :: "outbox_event \<Rightarrow> 'a hook_db_scheme \<Rightarrow> webhook_endpoint list" where
  "endpoints_for e s =
     (case oe_organization_id e of
        None \<Rightarrow> []
      | Some org \<Rightarrow>
          if oe_audience e = AUDIENCE_PUBLIC
          then rows_where (\<lambda>p. ep_organization_id p = org \<and> ep_is_active p
                 \<and> (ep_events p = [] \<or> event_name (oe_event_type e) \<in> set (ep_events p))) (webhook_endpoints s)
          else [])"

fun add_deliveries :: "outbox_event \<Rightarrow> uuid \<Rightarrow> webhook_endpoint list \<Rightarrow> 'a hook_db_scheme \<Rightarrow> 'a hook_db_scheme" where
  "add_deliveries e org [] s = s"
| "add_deliveries e org (p # ps) s =
     add_deliveries e org ps
       (s\<lparr>next_uuid := Suc (next_uuid s),
          webhook_deliveries := webhook_deliveries s @
            [\<lparr>wd_id = next_uuid s, wd_endpoint_id = ep_id p, wd_organization_id = org,
              wd_outbox_event_id = Some (oe_id e), wd_event_type = oe_event_type e, wd_payload = oe_payload e,
              wd_status = Dl_Pending, wd_attempts = 0, wd_max_attempts = MAX_DELIVERY_ATTEMPTS,
              wd_next_attempt_at = tx_now s, wd_last_response_code = None, wd_last_error = None,
              wd_response_excerpt = None, wd_delivered_at = None, wd_created_at = tx_now s\<rparr>]\<rparr>)"

definition publish :: "datetime \<Rightarrow> outbox_event \<Rightarrow> 'a hook_db_scheme \<Rightarrow> 'a hook_db_scheme" where
  "publish now e s =
     save_event (e\<lparr>oe_published_at := Some now\<rparr>)
       (case oe_organization_id e of None \<Rightarrow> s | Some org \<Rightarrow> add_deliveries e org (endpoints_for e s) s)"

definition outbox_failure :: "datetime \<Rightarrow> string \<Rightarrow> outbox_event \<Rightarrow> outbox_event" where
  "outbox_failure now err e =
     (let e1 = e\<lparr>oe_attempts := oe_attempts e + 1, oe_last_error := Some (take 1000 err)\<rparr>
      in if OUTBOX_MAX_ATTEMPTS \<le> oe_attempts e1 then e1\<lparr>oe_dead_at := Some now\<rparr>
         else e1\<lparr>oe_next_attempt_at := now + seconds
                (OUTBOX_BACKOFF_SECONDS ! min (oe_attempts e1 - 1) (length OUTBOX_BACKOFF_SECONDS - 1))\<rparr>)"

text \<open>
  \<open>fails e\<close> is the exception raised inside the savepoint of \<open>e\<close>, if any: it is rolled back and only
  the bookkeeping of the failure stays. The events that were published are handed to the
  in-process consumers after the commit.
\<close>

fun dispatch_each ::
  "(outbox_event \<Rightarrow> string option) \<Rightarrow> datetime \<Rightarrow> uuid list \<Rightarrow> 'a hook_db_scheme
    \<Rightarrow> (event_type \<times> json_object) list \<times> 'a hook_db_scheme" where
  "dispatch_each fails now [] s = ([], s)"
| "dispatch_each fails now (i # is) s =
     (case first_row (\<lambda>e. oe_id e = i) (outbox_events s) of
        None \<Rightarrow> dispatch_each fails now is s
      | Some e \<Rightarrow>
          (case fails e of
             Some err \<Rightarrow> dispatch_each fails now is (save_event (outbox_failure now err e) s)
           | None \<Rightarrow>
               (let (out, s') = dispatch_each fails now is (publish now e s)
                in ((oe_event_type e, oe_payload e) # out, s'))))"

definition outbox_pending :: "outbox_event \<Rightarrow> bool" where
  "outbox_pending e \<longleftrightarrow> oe_published_at e = None \<and> oe_dead_at e = None"

definition due_events :: "'a core_db_scheme \<Rightarrow> uuid list" where
  "due_events s =
     map oe_id (take OUTBOX_BATCH (sort_key oe_id
       (rows_where (\<lambda>e. outbox_pending e \<and> oe_next_attempt_at e \<le> tx_now s) (outbox_events s))))"

definition dispatch_outbox ::
  "(outbox_event \<Rightarrow> string option) \<Rightarrow> datetime \<Rightarrow> 'a hook_db_scheme
    \<Rightarrow> nat \<times> (event_type \<times> json_object) list \<times> 'a hook_db_scheme" where
  "dispatch_outbox fails now s =
     (let (out, s') = dispatch_each fails now (due_events s) s in (length out, out, s'))"

section \<open>Delivering\<close>

definition save_delivery :: "webhook_delivery \<Rightarrow> 'a hook_db_scheme \<Rightarrow> 'a hook_db_scheme" where
  "save_delivery d s = s\<lparr>webhook_deliveries := update_where (\<lambda>x. wd_id x = wd_id d) (\<lambda>_. d) (webhook_deliveries s)\<rparr>"

definition list_deliveries :: "uuid \<Rightarrow> uuid option \<Rightarrow> nat \<Rightarrow> 'a hook_db_scheme \<Rightarrow> webhook_delivery list" where
  "list_deliveries org endpoint n s =
     take n (rev (sort_key wd_created_at
       (rows_where (\<lambda>d. wd_organization_id d = org \<and> (endpoint = None \<or> endpoint = Some (wd_endpoint_id d)))
          (webhook_deliveries s))))"

definition retry_delivery ::
  "datetime \<Rightarrow> uuid \<Rightarrow> uuid \<Rightarrow> 'a hook_db_scheme \<Rightarrow> error + (webhook_delivery \<times> 'a hook_db_scheme)" where
  "retry_delivery now i org s =
     (case first_row (\<lambda>d. wd_id d = i) (webhook_deliveries s) of
        None \<Rightarrow> raise_error WebhookDeliveryNotFoundError
      | Some d \<Rightarrow>
          if wd_organization_id d \<noteq> org then raise_error WebhookDeliveryNotFoundError
          else let d' = d\<lparr>wd_status := Dl_Pending, wd_attempts := 0, wd_next_attempt_at := now\<rparr>
               in Inr (d', save_delivery d' s))"

definition build_envelope :: "datetime \<Rightarrow> webhook_delivery \<Rightarrow> json_object" where
  "build_envelope now d =
     [(''id'', JUuid (wd_id d)), (''event_type'', JStr (event_name (wd_event_type d))),
      (''organization_id'', JUuid (wd_organization_id d)), (''created_at'', JTime now),
      (''data'', JObj (wd_payload d))]"

definition sign_payload :: "hook_client \<Rightarrow> string \<Rightarrow> string \<Rightarrow> int \<Rightarrow> string" where
  "sign_payload hc payload secret timestamp = hc_hmac hc secret (int_str timestamp @ ''.'' @ payload)"

definition mark_failure :: "datetime \<Rightarrow> int option \<Rightarrow> string \<Rightarrow> webhook_delivery \<Rightarrow> webhook_delivery" where
  "mark_failure now code err d =
     (let d1 = d\<lparr>wd_attempts := wd_attempts d + 1, wd_last_response_code := code, wd_last_error := Some (take 500 err)\<rparr>
      in if min (wd_max_attempts d1) MAX_DELIVERY_ATTEMPTS \<le> wd_attempts d1 then d1\<lparr>wd_status := Dl_Exhausted\<rparr>
         else d1\<lparr>wd_next_attempt_at := now + seconds
                (DELIVERY_BACKOFF_SECONDS ! min (wd_attempts d1 - 1) (length DELIVERY_BACKOFF_SECONDS - 1))\<rparr>)"

definition live_endpoint :: "uuid \<Rightarrow> 'a hook_db_scheme \<Rightarrow> webhook_endpoint option" where
  "live_endpoint i s =
     (case first_row (\<lambda>e. ep_id e = i) (webhook_endpoints s) of
        None \<Rightarrow> None | Some e \<Rightarrow> if \<not> ep_is_active e then None else Some e)"

definition deliver :: "hook_client \<Rightarrow> datetime \<Rightarrow> uuid \<Rightarrow> 'a hook_db_scheme \<Rightarrow> error + (bool \<times> 'a hook_db_scheme)" where
  "deliver hc now i s =
     (case first_row (\<lambda>d. wd_id d = i) (webhook_deliveries s) of
        None \<Rightarrow> Inr (False, s)
      | Some d \<Rightarrow>
          (case live_endpoint (wd_endpoint_id d) s of
             None \<Rightarrow> Inr (False, save_delivery (d\<lparr>wd_status := Dl_Failed,
                        wd_last_error := Some ''endpoint removed or inactive''\<rparr>) s)
           | Some e \<Rightarrow>
               bind_r (hc_decrypt hc (ep_secret_encrypted e)) (\<lambda>secret.
                 let body = hc_dumps hc (JObj (build_envelope now d));
                     timestamp = now div seconds 1;
                     headers = [(''Content-Type'', ''application/json''),
                       (SIGNATURE_HEADER, ''t='' @ int_str timestamp @ '',v1='' @ sign_payload hc body secret timestamp)]
                 in case hc_post hc (ep_url e) body headers of
                      Post_Raises x \<Rightarrow> Inl x
                    | Post_Error text \<Rightarrow> Inr (False, save_delivery (mark_failure now None text d) s)
                    | Post_Response code text \<Rightarrow>
                        if 200 \<le> code \<and> code < 300
                        then Inr (True, save_delivery (d\<lparr>wd_status := Dl_Delivered, wd_delivered_at := Some now,
                               wd_last_response_code := Some code, wd_response_excerpt := Some (take 500 text)\<rparr>) s)
                        else Inr (False, save_delivery (mark_failure now (Some code) (take 500 text) d) s))))"

definition DELIVERY_BATCH :: nat where "DELIVERY_BATCH = 20"

definition due_deliveries :: "'a hook_db_scheme \<Rightarrow> uuid list" where
  "due_deliveries s =
     map wd_id (take DELIVERY_BATCH (sort_key wd_created_at
       (rows_where (\<lambda>d. wd_status d = Dl_Pending \<and> wd_next_attempt_at d \<le> tx_now s) (webhook_deliveries s))))"

fun deliver_each :: "hook_client \<Rightarrow> datetime \<Rightarrow> uuid list \<Rightarrow> nat \<Rightarrow> 'a hook_db_scheme \<Rightarrow> error + (nat \<times> 'a hook_db_scheme)" where
  "deliver_each hc now [] n s = Inr (n, s)"
| "deliver_each hc now (i # is) n s =
     bind_r (deliver hc now i s) (\<lambda>(ok, s1). deliver_each hc now is (if ok then n + 1 else n) s1)"

text \<open>One exception ends the job: nothing of the batch is committed.\<close>

definition deliver_webhooks :: "hook_client \<Rightarrow> datetime \<Rightarrow> 'a hook_db_scheme \<Rightarrow> error + (nat \<times> 'a hook_db_scheme)" where
  "deliver_webhooks hc now s = deliver_each hc now (due_deliveries s) 0 s"

section \<open>What a dispatch does to the outbox\<close>

text \<open>One event's row after the dispatcher has looked at it.\<close>

definition dispatched_row :: "(outbox_event \<Rightarrow> string option) \<Rightarrow> datetime \<Rightarrow> outbox_event \<Rightarrow> outbox_event" where
  "dispatched_row fails now e =
     (case fails e of Some err \<Rightarrow> outbox_failure now err e | None \<Rightarrow> e\<lparr>oe_published_at := Some now\<rparr>)"

lemma add_deliveries_fields [simp]:
  "outbox_events (add_deliveries e org ps s) = outbox_events s"
  "webhook_endpoints (add_deliveries e org ps s) = webhook_endpoints s"
  "tx_now (add_deliveries e org ps s) = tx_now s"
  by (induction ps arbitrary: s) simp_all

lemma save_event_fields [simp]:
  "outbox_events (save_event e s) = update_where (\<lambda>x. oe_id x = oe_id e) (\<lambda>_. e) (outbox_events s)"
  "tx_now (save_event e s) = tx_now s"
  by (simp_all add: save_event_def)

lemma save_event_hooks [simp]:
  "webhook_endpoints (save_event e s) = webhook_endpoints s"
  "webhook_deliveries (save_event e s) = webhook_deliveries s"
  by (simp_all add: save_event_def)

lemma publish_fields [simp]:
  "outbox_events (publish now e s) =
     update_where (\<lambda>x. oe_id x = oe_id e) (\<lambda>_. e\<lparr>oe_published_at := Some now\<rparr>) (outbox_events s)"
  "webhook_endpoints (publish now e s) = webhook_endpoints s"
  "tx_now (publish now e s) = tx_now s"
  by (simp_all add: publish_def split: option.split)

lemma dispatched_row_id [simp]: "oe_id (dispatched_row fails now e) = oe_id e"
  by (simp add: dispatched_row_def outbox_failure_def Let_def split: option.split)

lemma update_one_row:
  "distinct (map key rows) \<Longrightarrow> r \<in> set rows \<Longrightarrow>
     update_where (\<lambda>x. key x = key r) (\<lambda>_. f r) rows = map (\<lambda>x. if key x = key r then f x else x) rows"
  by (auto simp: update_where_def dest: distinct_key_unique)

lemma dispatch_each_rows:
  "distinct (map oe_id (outbox_events s)) \<Longrightarrow> distinct is \<Longrightarrow>
     outbox_events (snd (dispatch_each fails now is s))
       = map (\<lambda>e. if oe_id e \<in> set is then dispatched_row fails now e else e) (outbox_events s)"
proof (induction fails now "is" s rule: dispatch_each.induct)
  case (1 fails now s)
  then show ?case by simp
next
  case (2 fails now i "is" s)
  show ?case
  proof (cases "first_row (\<lambda>e. oe_id e = i) (outbox_events s)")
    case None
    then have "\<forall>e\<in>set (outbox_events s). oe_id e \<noteq> i" by (simp add: first_row_None)
    with None 2 show ?thesis by (auto intro!: map_cong)
  next
    case (Some e)
    then have e: "e \<in> set (outbox_events s)" "oe_id e = i" using first_row_SomeD by fastforce+
    let ?s = "save_event (dispatched_row fails now e) s"
    have rows: "outbox_events ?s = map (\<lambda>x. if oe_id x = i then dispatched_row fails now x else x) (outbox_events s)"
      using update_one_row [OF 2(4) e(1), of "dispatched_row fails now"] e(2) by simp
    have ids: "map oe_id (outbox_events ?s) = map oe_id (outbox_events s)"
      unfolding rows by (simp add: comp_def if_distrib cong: if_cong)
    obtain s1 where s1: "snd (dispatch_each fails now (i # is) s) = snd (dispatch_each fails now is s1)"
      and ev: "outbox_events s1 = outbox_events ?s"
      and IH: "distinct (map oe_id (outbox_events s1)) \<Longrightarrow> distinct is \<Longrightarrow>
        outbox_events (snd (dispatch_each fails now is s1))
          = map (\<lambda>e. if oe_id e \<in> set is then dispatched_row fails now e else e) (outbox_events s1)"
    proof (cases "fails e")
      case None
      show thesis
        by (rule that [of "publish now e s"])
          (use None Some e 2(2) [OF Some None] in \<open>simp_all add: dispatched_row_def split: prod.split\<close>)
    next
      case (Some err)
      show thesis
        by (rule that [of ?s])
          (use Some \<open>first_row _ _ = Some e\<close> 2(3) [OF \<open>first_row _ _ = Some e\<close> Some] in
            \<open>simp_all add: dispatched_row_def\<close>)
    qed
    have "outbox_events (snd (dispatch_each fails now is s1))
        = map (\<lambda>e. if oe_id e \<in> set is then dispatched_row fails now e else e) (outbox_events ?s)"
      using IH 2(4,5) unfolding ev ids by simp
    then show ?thesis unfolding s1 rows using 2(5) by (auto intro!: map_cong)
  qed
qed

section \<open>Every event is settled\<close>

lemma outbox_backoff_le: "OUTBOX_BACKOFF_SECONDS ! min n (length OUTBOX_BACKOFF_SECONDS - 1) \<le> 3600"
proof -
  have "OUTBOX_BACKOFF_SECONDS ! min n (length OUTBOX_BACKOFF_SECONDS - 1) \<in> set OUTBOX_BACKOFF_SECONDS"
    by (rule nth_mem) (simp add: OUTBOX_BACKOFF_SECONDS_def)
  then show ?thesis by (auto simp: OUTBOX_BACKOFF_SECONDS_def)
qed

definition event_attempted :: "datetime \<Rightarrow> outbox_event \<Rightarrow> outbox_event \<Rightarrow> bool" where
  "event_attempted now e e' \<longleftrightarrow> (\<exists>fails. e' = dispatched_row fails now e)"

definition event_tries_left :: "outbox_event \<Rightarrow> nat" where
  "event_tries_left e = OUTBOX_MAX_ATTEMPTS - 1 - oe_attempts e"

interpretation outbox: backoff_retry outbox_pending event_tries_left oe_next_attempt_at event_attempted "seconds 3600"
proof
  fix now e e'
  assume a: "event_attempted now e e'"
  then obtain fails where e': "e' = dispatched_row fails now e" by (auto simp: event_attempted_def)
  show "event_tries_left e' < event_tries_left e \<and> oe_next_attempt_at e' \<le> now + seconds 3600"
    if "outbox_pending e" "outbox_pending e'"
  proof -
    from that(2) obtain err where err: "fails e = Some err" "e' = outbox_failure now err e"
      unfolding e' by (cases "fails e") (simp_all add: dispatched_row_def outbox_pending_def)
    with that have less: "oe_attempts e + 1 < OUTBOX_MAX_ATTEMPTS"
      by (auto simp: outbox_failure_def Let_def outbox_pending_def not_le split: if_splits)
    then have "oe_next_attempt_at e' = now + seconds
        (OUTBOX_BACKOFF_SECONDS ! min (oe_attempts e) (length OUTBOX_BACKOFF_SECONDS - 1))"
      and "oe_attempts e' = oe_attempts e + 1" by (simp_all add: err(2) outbox_failure_def Let_def)
    with less outbox_backoff_le [of "oe_attempts e"] show ?thesis
      by (simp add: event_tries_left_def seconds_def)
  qed
  show "\<not> outbox_pending e'" if "\<not> outbox_pending e"
    using that by (auto simp: e' dispatched_row_def outbox_failure_def outbox_pending_def Let_def split: option.split)
qed (simp add: seconds_def)

text \<open>
  Ticks of the dispatcher at the times \<open>nows\<close>. Between two ticks requests may append events,
  whose ids are later than \<open>k\<close> (\<open>uuid_v7\<close> grows with time), and change anything else.
\<close>

inductive outbox_run :: "uuid \<Rightarrow> datetime list \<Rightarrow> 'a hook_db_scheme \<Rightarrow> 'a hook_db_scheme \<Rightarrow> bool" for k where
  outbox_stop: "outbox_run k [] s s"
| outbox_tick: "dispatch_outbox fails now (s\<lparr>tx_now := now\<rparr>) = (n, out, s1)
    \<Longrightarrow> outbox_events s' = outbox_events s1 @ news \<Longrightarrow> \<forall>e\<in>set news. k < oe_id e
    \<Longrightarrow> distinct (map oe_id (outbox_events s')) \<Longrightarrow> outbox_run k nows s' s''
    \<Longrightarrow> outbox_run k (now # nows) s s''"

definition watched :: "uuid \<Rightarrow> 'a core_db_scheme \<Rightarrow> outbox_event list" where
  "watched k s = filter (\<lambda>e. oe_id e \<le> k) (outbox_events s)"

lemma due_events_due:
  "i \<in> set (due_events s) \<Longrightarrow> \<exists>e\<in>set (outbox_events s). oe_id e = i \<and> outbox.is_due (tx_now s) e"
  by (auto simp: due_events_def rows_where_def outbox.is_due_def dest!: in_set_takeD)

lemma due_events_distinct: "distinct (map oe_id (outbox_events s)) \<Longrightarrow> distinct (due_events s)"
  by (simp add: due_events_def take_map [symmetric] distinct_map rows_where_def inj_on_def)

lemma due_events_oldest:
  assumes "e \<in> set (outbox_events s)" and "outbox.is_due (tx_now s) e"
  shows "\<exists>i\<in>set (due_events s). i \<le> oe_id e"
proof -
  let ?q = "sort_key oe_id (rows_where (\<lambda>e. outbox_pending e \<and> oe_next_attempt_at e \<le> tx_now s) (outbox_events s))"
  have e: "e \<in> set ?q" using assms by (simp add: rows_where_def outbox.is_due_def)
  then obtain q qs where q: "?q = q # qs" by (cases ?q) auto
  have "sorted (map oe_id ?q)" by (rule sorted_sort_key)
  then have "oe_id q \<le> oe_id e" using e unfolding q by auto
  moreover have "oe_id q \<in> set (due_events s)" by (simp add: due_events_def OUTBOX_BATCH_def q)
  ultimately show ?thesis by blast
qed

lemma zip_map_self: "zip xs (map f xs) = map (\<lambda>x. (x, f x)) xs"
  by (induction xs) simp_all

lemma watched_tick:
  assumes d: "distinct (map oe_id (outbox_events s))"
    and run: "dispatch_outbox fails now (s\<lparr>tx_now := now\<rparr>) = (n, out, s1)"
    and s': "outbox_events s' = outbox_events s1 @ news" "\<forall>e\<in>set news. k < oe_id e"
  shows "outbox.tick now (watched k s) (watched k s')"
proof -
  let ?s = "s\<lparr>tx_now := now\<rparr>"
  let ?f = "\<lambda>e. if oe_id e \<in> set (due_events ?s) then dispatched_row fails now e else e"
  have "s1 = snd (dispatch_each fails now (due_events ?s) ?s)"
    using run by (auto simp: dispatch_outbox_def split: prod.splits)
  then have "outbox_events s1 = map ?f (outbox_events s)"
    using dispatch_each_rows [of ?s "due_events ?s"] due_events_distinct [of ?s] d by simp
  then have rows: "watched k s' = map ?f (watched k s)"
    using s' by (auto simp: watched_def filter_map comp_def if_distrib if_distribR filter_empty_conv not_le
        cong: if_cong)
  show ?thesis unfolding outbox.tick_def rows
  proof
    show "list_all2 (\<lambda>r r'. r' = r \<or> event_attempted now r r') (watched k s) (map ?f (watched k s))"
      by (auto simp: list.rel_map event_attempted_def intro!: list.rel_refl_strong)
    show "(\<exists>r\<in>set (watched k s). outbox.is_due now r) \<longrightarrow>
        (\<exists>(r, r')\<in>set (zip (watched k s) (map ?f (watched k s))). outbox_pending r \<and> event_attempted now r r')"
    proof
      assume "\<exists>r\<in>set (watched k s). outbox.is_due now r"
      then obtain e where e: "e \<in> set (outbox_events s)" "oe_id e \<le> k" "outbox.is_due now e"
        by (auto simp: watched_def)
      from due_events_oldest [of e ?s] e obtain i where i: "i \<in> set (due_events ?s)" "i \<le> k"
        using order_trans by fastforce
      from due_events_due [OF i(1)] obtain r where r: "r \<in> set (outbox_events s)" "oe_id r = i" "outbox_pending r"
        by (auto simp: outbox.is_due_def)
      have "(r, ?f r) \<in> set (zip (watched k s) (map ?f (watched k s)))"
        unfolding zip_map_self using r(1,2) i(2) by (auto simp: watched_def intro!: image_eqI)
      with r i show "\<exists>(r, r')\<in>set (zip (watched k s) (map ?f (watched k s))). outbox_pending r \<and> event_attempted now r r'"
        by (intro bexI [of _ "(r, ?f r)"]) (auto simp: event_attempted_def)
    qed
  qed
qed

lemma outbox_run_ticks:
  "outbox_run k nows s s' \<Longrightarrow> distinct (map oe_id (outbox_events s)) \<Longrightarrow> outbox.ticks nows (watched k s) (watched k s')"
proof (induction rule: outbox_run.induct)
  case (outbox_stop s)
  then show ?case by simp
next
  case (outbox_tick fails now s n out s1 s' news nows s'')
  from watched_tick [OF outbox_tick.prems outbox_tick.hyps(1-3)] outbox_tick.IH [OF outbox_tick.hyps(4)]
  show ?case by auto
qed

lemma tick_keeps_ids: "outbox.tick now rows rows' \<Longrightarrow> map oe_id rows' = map oe_id rows"
proof -
  assume "outbox.tick now rows rows'"
  then have "list_all2 (\<lambda>r r'. r' = r \<or> event_attempted now r r') rows rows'" by (simp add: outbox.tick_def)
  then show ?thesis by (induction rule: list_all2_induct) (auto simp: event_attempted_def)
qed

lemma ticks_keep_ids: "outbox.ticks nows rows rows' \<Longrightarrow> map oe_id rows' = map oe_id rows"
  by (induction nows arbitrary: rows) (auto dest: tick_keeps_ids)

lemma outbox_budget_le: "sum_list (map outbox.budget rows) \<le> OUTBOX_MAX_ATTEMPTS * length (filter outbox_pending rows)"
proof (induction rows)
  case (Cons r rows)
  have "outbox.budget r \<le> (if outbox_pending r then OUTBOX_MAX_ATTEMPTS else 0)"
    unfolding outbox.budget_def event_tries_left_def by (simp add: OUTBOX_MAX_ATTEMPTS_def)
  with Cons show ?case by (cases "outbox_pending r") simp_all
qed simp

text \<open>
  C30. Nothing that reaches the outbox stays pending forever. Whatever fails, and whatever newer
  events arrive meanwhile, after eight ticks for each event that is pending and not newer than
  \<open>e\<close>, an hour apart, \<open>e\<close> has been published or dead-lettered: a poisoned event delays the others
  but cannot block them.
\<close>

theorem every_event_is_settled:
  assumes "e \<in> set (outbox_events s)" and "distinct (map oe_id (outbox_events s))"
    and "outbox_run (oe_id e) nows s s'" and "successively (\<lambda>a b. a + seconds 3600 \<le> b) nows"
    and "OUTBOX_MAX_ATTEMPTS * length (filter outbox_pending (watched (oe_id e) s)) \<le> length nows"
    and "\<forall>x\<in>set (watched (oe_id e) s). outbox_pending x \<longrightarrow> oe_next_attempt_at x \<le> hd nows"
  shows "\<exists>e'\<in>set (outbox_events s'). oe_id e' = oe_id e \<and> (oe_published_at e' \<noteq> None \<or> oe_dead_at e' \<noteq> None)"
proof -
  let ?k = "oe_id e"
  from assms(3,2) have t: "outbox.ticks nows (watched ?k s) (watched ?k s')" by (rule outbox_run_ticks)
  have "\<forall>r\<in>set (watched ?k s'). \<not> outbox_pending r"
    by (rule outbox.all_settled [OF t assms(4)]) (use assms(5,6) outbox_budget_le [of "watched ?k s"] in auto)
  moreover have "e \<in> set (watched ?k s)" using assms(1) by (simp add: watched_def)
  then have "?k \<in> set (map oe_id (watched ?k s'))" unfolding ticks_keep_ids [OF t] by simp
  ultimately show ?thesis by (fastforce simp: watched_def outbox_pending_def)
qed

section \<open>Each event reaches an endpoint at most once\<close>

definition delivery_key :: "webhook_delivery \<Rightarrow> uuid option \<times> uuid" where
  "delivery_key d = (wd_outbox_event_id d, wd_endpoint_id d)"

definition delivery_ok :: "outbox_event list \<Rightarrow> nat \<Rightarrow> webhook_delivery \<Rightarrow> bool" where
  "delivery_ok es n d \<longleftrightarrow> wd_id d < n \<and> audience_for (wd_event_type d) = AUDIENCE_PUBLIC
     \<and> (\<exists>i<n. wd_outbox_event_id d = Some i \<and> (\<forall>e\<in>set es. oe_id e = i \<longrightarrow> oe_published_at e \<noteq> None))"

definition event_ok :: "nat \<Rightarrow> outbox_event \<Rightarrow> bool" where
  "event_ok n e \<longleftrightarrow> oe_id e < n \<and> oe_audience e = audience_for (oe_event_type e)"

definition fanout_inv :: "'a hook_db_scheme \<Rightarrow> bool" where
  "fanout_inv s \<longleftrightarrow>
     distinct (map oe_id (outbox_events s)) \<and> list_all (event_ok (next_uuid s)) (outbox_events s)
   \<and> distinct (map ep_id (webhook_endpoints s)) \<and> list_all (\<lambda>p. ep_id p < next_uuid s) (webhook_endpoints s)
   \<and> distinct (map wd_id (webhook_deliveries s)) \<and> distinct (map delivery_key (webhook_deliveries s))
   \<and> list_all (delivery_ok (outbox_events s) (next_uuid s)) (webhook_deliveries s)"

lemma delivery_id: "delivery_ok es n d \<Longrightarrow> wd_id d < n"
  by (simp add: delivery_ok_def)

lemma delivery_ok_mono:
  "delivery_ok es n d \<Longrightarrow> n \<le> m \<Longrightarrow> \<forall>e\<in>set es'. n \<le> oe_id e \<or> (\<exists>e0\<in>set es. oe_id e0 = oe_id e
      \<and> (oe_published_at e0 \<noteq> None \<longrightarrow> oe_published_at e \<noteq> None)) \<Longrightarrow> delivery_ok es' m d"
  unfolding delivery_ok_def by (metis leD less_le_trans)

text \<open>Steps that touch only the outbox rows, moving no published row back.\<close>

lemma fanout_inv_events:
  assumes "fanout_inv s" and "webhook_endpoints s' = webhook_endpoints s"
    and "webhook_deliveries s' = webhook_deliveries s" and "next_uuid s \<le> next_uuid s'"
    and "distinct (map oe_id (outbox_events s'))" and "list_all (event_ok (next_uuid s')) (outbox_events s')"
    and "\<forall>e\<in>set (outbox_events s'). next_uuid s \<le> oe_id e \<or> (\<exists>e0\<in>set (outbox_events s). oe_id e0 = oe_id e
      \<and> (oe_published_at e0 \<noteq> None \<longrightarrow> oe_published_at e \<noteq> None))"
  shows "fanout_inv s'"
proof -
  have "list_all (delivery_ok (outbox_events s') (next_uuid s')) (webhook_deliveries s)"
    using assms(1) delivery_ok_mono [OF _ assms(4,7)] by (auto simp: fanout_inv_def list_all_iff)
  with assms(1-6) show ?thesis by (auto simp: fanout_inv_def list_all_iff)
qed

lemma fanout_inv_append_outbox: "fanout_inv s \<Longrightarrow> fanout_inv (append_outbox ev ty i p org s)"
proof (rule fanout_inv_events [where s = s])
  assume inv: "fanout_inv s"
  show "webhook_endpoints (append_outbox ev ty i p org s) = webhook_endpoints s"
    "webhook_deliveries (append_outbox ev ty i p org s) = webhook_deliveries s"
    by (simp_all add: append_outbox_def)
  show "distinct (map oe_id (outbox_events (append_outbox ev ty i p org s)))"
    "list_all (event_ok (next_uuid (append_outbox ev ty i p org s))) (outbox_events (append_outbox ev ty i p org s))"
    using inv by (auto simp: fanout_inv_def list_all_iff event_ok_def)
qed auto

lemma fanout_inv_same:
  assumes "fanout_inv s" and "webhook_endpoints s' = webhook_endpoints s"
    and "webhook_deliveries s' = webhook_deliveries s" and "outbox_events s' = outbox_events s"
    and "next_uuid s \<le> next_uuid s'"
  shows "fanout_inv s'"
proof (rule fanout_inv_events [OF assms(1-3,5)])
  show "distinct (map oe_id (outbox_events s'))" "list_all (event_ok (next_uuid s')) (outbox_events s')"
    using assms by (auto simp: fanout_inv_def list_all_iff event_ok_def)
qed (use assms(4) in auto)

lemma fanout_inv_save_event:
  assumes inv: "fanout_inv s" and e: "e \<in> set (outbox_events s)"
    and same: "oe_id e' = oe_id e" "oe_audience e' = oe_audience e" "oe_event_type e' = oe_event_type e"
    and pub: "oe_published_at e \<noteq> None \<longrightarrow> oe_published_at e' \<noteq> None"
  shows "fanout_inv (save_event e' s)"
proof (rule fanout_inv_events [OF inv])
  have d: "distinct (map oe_id (outbox_events s))" using inv by (simp add: fanout_inv_def)
  have rows: "set (outbox_events (save_event e' s)) = insert e' (set (outbox_events s) - {e})"
    using replace_row_set [OF d e] by (simp add: same(1))
  show "distinct (map oe_id (outbox_events (save_event e' s)))"
    using replace_row_map [of oe_id _ e oe_id e', OF d e] d by (simp add: same(1))
  show "list_all (event_ok (next_uuid (save_event e' s))) (outbox_events (save_event e' s))"
    unfolding list_all_iff rows using inv e
    by (auto simp: fanout_inv_def list_all_iff event_ok_def same save_event_def)
  show "\<forall>x\<in>set (outbox_events (save_event e' s)). next_uuid s \<le> oe_id x \<or>
      (\<exists>e0\<in>set (outbox_events s). oe_id e0 = oe_id x \<and> (oe_published_at e0 \<noteq> None \<longrightarrow> oe_published_at x \<noteq> None))"
    unfolding rows using e pub by (auto simp: same)
qed (simp_all add: save_event_def)

lemma add_deliveries_save_event:
  "save_event e' (add_deliveries e org ps s) = add_deliveries e org ps (save_event e' s)"
proof (induction ps arbitrary: s)
  case (Cons p ps)
  show ?case unfolding add_deliveries.simps Cons by (cases s) (simp add: save_event_def)
qed simp

text \<open>Deliveries of a published event to endpoints it has not been sent to.\<close>

lemma fanout_inv_add_deliveries:
  "fanout_inv s \<Longrightarrow> oe_id e < next_uuid s \<Longrightarrow> audience_for (oe_event_type e) = AUDIENCE_PUBLIC
     \<Longrightarrow> \<forall>x\<in>set (outbox_events s). oe_id x = oe_id e \<longrightarrow> oe_published_at x \<noteq> None
     \<Longrightarrow> distinct (map ep_id ps)
     \<Longrightarrow> \<forall>p\<in>set ps. (Some (oe_id e), ep_id p) \<notin> delivery_key ` set (webhook_deliveries s)
     \<Longrightarrow> fanout_inv (add_deliveries e org ps s)"
proof (induction ps arbitrary: s)
  case (Cons p ps)
  let ?d = "\<lparr>wd_id = next_uuid s, wd_endpoint_id = ep_id p, wd_organization_id = org,
      wd_outbox_event_id = Some (oe_id e), wd_event_type = oe_event_type e, wd_payload = oe_payload e,
      wd_status = Dl_Pending, wd_attempts = 0, wd_max_attempts = MAX_DELIVERY_ATTEMPTS,
      wd_next_attempt_at = tx_now s, wd_last_response_code = None, wd_last_error = None,
      wd_response_excerpt = None, wd_delivered_at = None, wd_created_at = tx_now s\<rparr>"
  let ?s = "s\<lparr>next_uuid := Suc (next_uuid s), webhook_deliveries := webhook_deliveries s @ [?d]\<rparr>"
  have key: "delivery_key ?d = (Some (oe_id e), ep_id p)" by (simp add: delivery_key_def)
  have ok: "delivery_ok (outbox_events s) (Suc (next_uuid s)) ?d"
    using Cons.prems(2-4) by (auto simp: delivery_ok_def)
  have old: "list_all (delivery_ok (outbox_events s) (Suc (next_uuid s))) (webhook_deliveries s)"
    using Cons.prems(1) delivery_ok_mono [of "outbox_events s" "next_uuid s" _ "Suc (next_uuid s)" "outbox_events s"]
    by (auto simp: fanout_inv_def list_all_iff)
  have fresh: "next_uuid s \<notin> wd_id ` set (webhook_deliveries s)"
    using Cons.prems(1) delivery_id by (fastforce simp: fanout_inv_def list_all_iff)
  have "fanout_inv ?s"
    using Cons.prems(1,6) ok old fresh by (auto simp: fanout_inv_def list_all_iff event_ok_def key less_Suc_eq)
  moreover have "\<forall>q\<in>set ps. (Some (oe_id e), ep_id q) \<notin> delivery_key ` set (webhook_deliveries ?s)"
    using Cons.prems(5,6) 
    by (auto simp: key) (metis image_eqI)
  ultimately have "fanout_inv (add_deliveries e org ps ?s)"
    by (intro Cons.IH) (use Cons.prems in auto)
  then show ?case by simp
qed simp

lemma fanout_inv_publish:
  assumes inv: "fanout_inv s" and e: "e \<in> set (outbox_events s)" and pending: "oe_published_at e = None"
  shows "fanout_inv (publish now e s)"
proof -
  let ?e = "e\<lparr>oe_published_at := Some now\<rparr>"
  have saved: "fanout_inv (save_event ?e s)" by (rule fanout_inv_save_event [OF inv e]) simp_all
  have ok: "event_ok (next_uuid s) e" using inv e by (auto simp: fanout_inv_def list_all_iff)
  show ?thesis
  proof (cases "endpoints_for e s")
    case Nil
    then show ?thesis using saved by (simp add: publish_def split: option.split)
  next
    case (Cons p ps)
    then obtain org where org: "oe_organization_id e = Some org" and pub: "oe_audience e = AUDIENCE_PUBLIC"
      by (auto simp: endpoints_for_def split: option.splits if_splits)
    have "fanout_inv (add_deliveries e org (endpoints_for e s) (save_event ?e s))"
    proof (rule fanout_inv_add_deliveries [OF saved])
      show "oe_id e < next_uuid (save_event ?e s)" using ok by (simp add: event_ok_def save_event_def)
      show "audience_for (oe_event_type e) = AUDIENCE_PUBLIC" using ok pub by (simp add: event_ok_def)
      show "\<forall>x\<in>set (outbox_events (save_event ?e s)). oe_id x = oe_id e \<longrightarrow> oe_published_at x \<noteq> None"
        by (auto simp: update_where_def)
      show "distinct (map ep_id (endpoints_for e s))"
        using inv by (auto simp: fanout_inv_def endpoints_for_def rows_where_def distinct_map inj_on_def split: option.split)
      show "\<forall>p\<in>set (endpoints_for e s). (Some (oe_id e), ep_id p) \<notin> delivery_key ` set (webhook_deliveries (save_event ?e s))"
        using inv e pending by (fastforce simp: fanout_inv_def list_all_iff delivery_ok_def delivery_key_def)
    qed
    then show ?thesis by (simp add: publish_def org add_deliveries_save_event)
  qed
qed

lemma fanout_inv_dispatch_each:
  "fanout_inv s \<Longrightarrow> distinct is \<Longrightarrow> \<forall>e\<in>set (outbox_events s). oe_id e \<in> set is \<longrightarrow> oe_published_at e = None
     \<Longrightarrow> fanout_inv (snd (dispatch_each fails now is s))"
proof (induction fails now "is" s rule: dispatch_each.induct)
  case (2 fails now i "is" s)
  show ?case
  proof (cases "first_row (\<lambda>e. oe_id e = i) (outbox_events s)")
    case None
    then show ?thesis using 2 by auto
  next
    case (Some e)
    then have e: "e \<in> set (outbox_events s)" "oe_id e = i" using first_row_SomeD by fastforce+
    then have pending: "oe_published_at e = None" using 2(6) by auto
    have rest: "\<forall>x\<in>set (update_where (\<lambda>x. oe_id x = oe_id e) (\<lambda>_. e') (outbox_events s)).
        oe_id x \<in> set is \<longrightarrow> oe_published_at x = None" if "oe_id e' = oe_id e" for e'
      using 2(5,6) e(2) that by (auto simp: update_where_def)
    show ?thesis
    proof (cases "fails e")
      case None
      have "fanout_inv (snd (dispatch_each fails now is (publish now e s)))"
        by (rule 2(2) [OF Some None fanout_inv_publish [OF 2(4) e(1) pending]])
          (use 2(5) rest [of "e\<lparr>oe_published_at := Some now\<rparr>"] in simp_all)
      with Some None show ?thesis by (simp add: split_beta)
    next
      case err: (Some err)
      have same: "oe_id (outbox_failure now err e) = oe_id e" by (simp add: outbox_failure_def Let_def)
      have "fanout_inv (snd (dispatch_each fails now is (save_event (outbox_failure now err e) s)))"
        by (rule 2(3) [OF Some err fanout_inv_save_event [OF 2(4) e(1)]])
          (use 2(5) rest [of "outbox_failure now err e"] in \<open>simp_all add: outbox_failure_def Let_def\<close>)
      with Some err show ?thesis by simp
    qed
  qed
qed simp

lemma fanout_inv_save_delivery:
  assumes inv: "fanout_inv s" and d: "d \<in> set (webhook_deliveries s)"
    and same: "wd_id d' = wd_id d" "delivery_key d' = delivery_key d" "wd_event_type d' = wd_event_type d"
  shows "fanout_inv (save_delivery d' s)"
proof -
  have ids: "distinct (map wd_id (webhook_deliveries s))" using inv by (simp add: fanout_inv_def)
  let ?D = "update_where (\<lambda>x. wd_id x = wd_id d) (\<lambda>_. d') (webhook_deliveries s)"
  have maps: "map wd_id ?D = map wd_id (webhook_deliveries s)" "map delivery_key ?D = map delivery_key (webhook_deliveries s)"
    using replace_row_map [of wd_id _ d wd_id d', OF ids d same(1)]
      replace_row_map [of wd_id _ d delivery_key d', OF ids d same(2)] by auto
  have "delivery_ok (outbox_events s) (next_uuid s) d" using inv d by (simp add: fanout_inv_def list_all_iff)
  then have "delivery_ok (outbox_events s) (next_uuid s) d'"
    using same by (simp add: delivery_ok_def delivery_key_def)
  then have "list_all (delivery_ok (outbox_events s) (next_uuid s)) ?D"
    unfolding list_all_iff replace_row_set [OF ids d] using inv by (auto simp: fanout_inv_def list_all_iff)
  with inv maps show ?thesis by (simp add: fanout_inv_def save_delivery_def same(1))
qed

lemma mark_failure_same:
  "wd_id (mark_failure now c err d) = wd_id d" "delivery_key (mark_failure now c err d) = delivery_key d"
  "wd_event_type (mark_failure now c err d) = wd_event_type d"
  by (simp_all add: mark_failure_def delivery_key_def Let_def)

text \<open>What one delivery does to its row.\<close>

definition delivery_attempted :: "datetime \<Rightarrow> webhook_delivery \<Rightarrow> webhook_delivery \<Rightarrow> bool" where
  "delivery_attempted now d d' \<longleftrightarrow> (\<exists>code err. d' = mark_failure now code err d)
     \<or> (\<exists>err. d' = d\<lparr>wd_status := Dl_Failed, wd_last_error := err\<rparr>)
     \<or> (\<exists>code text. d' = d\<lparr>wd_status := Dl_Delivered, wd_delivered_at := Some now,
           wd_last_response_code := Some code, wd_response_excerpt := text\<rparr>)"

lemma delivery_attemptedI:
  "delivery_attempted now d (mark_failure now code err d)"
  "delivery_attempted now d (d\<lparr>wd_status := Dl_Failed, wd_last_error := why\<rparr>)"
  "delivery_attempted now d (d\<lparr>wd_status := Dl_Delivered, wd_delivered_at := Some now,
     wd_last_response_code := Some n, wd_response_excerpt := text\<rparr>)"
  unfolding delivery_attempted_def by blast+

lemma delivery_attempted_same:
  "delivery_attempted now d d' \<Longrightarrow>
     wd_id d' = wd_id d \<and> delivery_key d' = delivery_key d \<and> wd_event_type d' = wd_event_type d"
  unfolding delivery_attempted_def delivery_key_def by (auto simp: mark_failure_def Let_def)

lemma deliver_cases:
  assumes "deliver hc now i s = Inr (ok, s')"
  shows "s' = s \<and> (\<forall>d\<in>set (webhook_deliveries s). wd_id d \<noteq> i)
    \<or> (\<exists>d d'. d \<in> set (webhook_deliveries s) \<and> wd_id d = i \<and> delivery_attempted now d d' \<and> s' = save_delivery d' s)"
proof (cases "first_row (\<lambda>d. wd_id d = i) (webhook_deliveries s)")
  case None
  with assms show ?thesis by (simp add: deliver_def first_row_None)
next
  case (Some d)
  then have d: "d \<in> set (webhook_deliveries s)" "wd_id d = i" using first_row_SomeD by fastforce+
  have "\<exists>d'. delivery_attempted now d d' \<and> s' = save_delivery d' s"
  proof (cases "live_endpoint (wd_endpoint_id d) s")
    case None
    with assms Some show ?thesis unfolding deliver_def by (auto intro: delivery_attemptedI)
  next
    case ep: (Some e)
    from assms Some ep obtain secret url body headers where
      "(case hc_post hc url body headers of
          Post_Raises x \<Rightarrow> Inl x
        | Post_Error text \<Rightarrow> Inr (False, save_delivery (mark_failure now None text d) s)
        | Post_Response code text \<Rightarrow>
            if 200 \<le> code \<and> code < 300
            then Inr (True, save_delivery (d\<lparr>wd_status := Dl_Delivered, wd_delivered_at := Some now,
                   wd_last_response_code := Some code, wd_response_excerpt := Some (take 500 text)\<rparr>) s)
            else Inr (False, save_delivery (mark_failure now (Some code) (take 500 text) d) s)) = Inr (ok, s')"
      unfolding deliver_def Let_def by (auto simp: bind_r_eq_Inr)
    then show ?thesis
      by (cases "hc_post hc url body headers") (auto split: if_splits; blast intro: delivery_attemptedI)+
  qed
  with d show ?thesis by blast
qed

lemma fanout_inv_deliver: "fanout_inv s \<Longrightarrow> deliver hc now i s = Inr (ok, s') \<Longrightarrow> fanout_inv s'"
  using deliver_cases [of hc now i s ok s'] delivery_attempted_same fanout_inv_save_delivery by metis

lemma fanout_inv_deliver_each: "fanout_inv s \<Longrightarrow> deliver_each hc now is n s = Inr (m, s') \<Longrightarrow> fanout_inv s'"
proof (induction hc now "is" n s rule: deliver_each.induct)
  case (2 hc now i "is" n s)
  from 2(3) obtain ok s1 where s1: "deliver hc now i s = Inr (ok, s1)"
    and rest: "deliver_each hc now is (if ok then n + 1 else n) s1 = Inr (m, s')"
    by (auto simp: bind_r_eq_Inr)
  with 2(1) fanout_inv_deliver [OF 2(2) s1] show ?case by auto
qed simp

text \<open>Everything that touches the outbox, the endpoints or the deliveries, and anything else.\<close>

inductive hook_step :: "'a hook_db_scheme \<Rightarrow> 'a hook_db_scheme \<Rightarrow> bool" where
  hs_emit: "hook_step s (append_outbox ev ty i p org s)"
| hs_dispatch: "dispatch_outbox fails now s = (n, out, s') \<Longrightarrow> hook_step s s'"
| hs_create: "create_endpoint hc tok org url evs description s = (r, s') \<Longrightarrow> hook_step s s'"
| hs_delete: "delete_endpoint i org s = Inr s' \<Longrightarrow> hook_step s s'"
| hs_retry: "retry_delivery now i org s = Inr (d, s') \<Longrightarrow> hook_step s s'"
| hs_deliver: "deliver_webhooks hc now s = Inr (n, s') \<Longrightarrow> hook_step s s'"
| hs_other: "webhook_endpoints s' = webhook_endpoints s \<Longrightarrow> webhook_deliveries s' = webhook_deliveries s
    \<Longrightarrow> outbox_events s' = outbox_events s \<Longrightarrow> next_uuid s \<le> next_uuid s' \<Longrightarrow> hook_step s s'"

lemma fanout_inv_endpoints:
  assumes "fanout_inv s" and "outbox_events s' = outbox_events s" and "next_uuid s \<le> next_uuid s'"
    and "distinct (map ep_id (webhook_endpoints s'))" and "list_all (\<lambda>p. ep_id p < next_uuid s') (webhook_endpoints s')"
    and "\<exists>P. webhook_deliveries s' = filter P (webhook_deliveries s)"
  shows "fanout_inv s'"
proof -
  from assms(6) obtain P where P: "webhook_deliveries s' = filter P (webhook_deliveries s)" ..
  have "list_all (delivery_ok (outbox_events s) (next_uuid s')) (webhook_deliveries s')"
    using assms(1,3) delivery_ok_mono [of "outbox_events s" "next_uuid s" _ "next_uuid s'" "outbox_events s"]
    by (auto simp: fanout_inv_def list_all_iff P)
  with assms show ?thesis
    by (auto simp: fanout_inv_def P list_all_iff event_ok_def distinct_map_filter)
qed

lemma fanout_inv_record_endpoint_event:
  "fanout_inv s \<Longrightarrow> fanout_inv (record_endpoint_event ev e s)"
  by (rule fanout_inv_same [OF fanout_inv_append_outbox [of s ev "''webhook_endpoint''" "ep_id e"
        "[(''endpoint_id'', JUuid (ep_id e)), (''url'', JStr (ep_url e)), (''events'', JList (map JStr (ep_events e)))]"
        "Some (ep_organization_id e)"]])
    (simp_all add: record_endpoint_event_def audit_log_as_def Let_def split: prod.split)

lemma record_endpoint_event_fields [simp]:
  "webhook_endpoints (record_endpoint_event ev e s) = webhook_endpoints s"
  "webhook_deliveries (record_endpoint_event ev e s) = webhook_deliveries s"
  by (simp_all add: record_endpoint_event_def audit_log_as_def append_outbox_def Let_def split: prod.split)

lemma hook_step_inv: "hook_step s s' \<Longrightarrow> fanout_inv s \<Longrightarrow> fanout_inv s'"
proof (induction rule: hook_step.induct)
  case (hs_emit s ev ty i p org)
  then show ?case by (rule fanout_inv_append_outbox)
next
  case (hs_dispatch fails now s n out s')
  then have s': "s' = snd (dispatch_each fails now (due_events s) s)"
    by (auto simp: dispatch_outbox_def split: prod.splits)
  have d: "distinct (map oe_id (outbox_events s))" using hs_dispatch.prems by (simp add: fanout_inv_def)
  have "oe_published_at e = None" if e: "e \<in> set (outbox_events s)" "oe_id e \<in> set (due_events s)" for e
  proof -
    from due_events_due [OF e(2)] obtain x where x: "x \<in> set (outbox_events s)" "oe_id x = oe_id e" "outbox_pending x"
      by (auto simp: outbox.is_due_def)
    from distinct_key_unique [OF d x(1) e(1) x(2)] x(3) show ?thesis by (simp add: outbox_pending_def)
  qed
  then show ?case unfolding s' by (intro fanout_inv_dispatch_each hs_dispatch.prems due_events_distinct d) blast
next
  case (hs_create hc tok org url events description s r s')
  let ?e = "\<lparr>ep_id = next_uuid s, ep_organization_id = org, ep_url = url,
      ep_secret_encrypted = hc_encrypt hc (''whsec_'' @ tok), ep_description = description,
      ep_events = events, ep_is_active = True, ep_created_at = tx_now s\<rparr>"
  let ?s = "s\<lparr>next_uuid := Suc (next_uuid s), webhook_endpoints := webhook_endpoints s @ [?e]\<rparr>"
  have "fanout_inv ?s"
    by (rule fanout_inv_endpoints [OF hs_create.prems])
      (use hs_create.prems in \<open>auto simp: fanout_inv_def list_all_iff less_Suc_eq intro!: exI [of _ "\<lambda>_. True"]\<close>)
  then show ?case using hs_create.hyps fanout_inv_record_endpoint_event
    by (auto simp: create_endpoint_def Let_def)
next
  case (hs_delete i org s s')
  then obtain e where s': "s' = (let s1 = record_endpoint_event WEBHOOK_ENDPOINT_DELETED e s in
      s1\<lparr>webhook_endpoints := delete_where (\<lambda>x. ep_id x = ep_id e) (webhook_endpoints s1),
         webhook_deliveries := delete_where (\<lambda>d. wd_endpoint_id d = ep_id e) (webhook_deliveries s1)\<rparr>)"
    by (auto simp: delete_endpoint_def bind_r_eq_Inr Let_def)
  have inv: "fanout_inv (record_endpoint_event WEBHOOK_ENDPOINT_DELETED e s)"
    by (rule fanout_inv_record_endpoint_event [OF hs_delete.prems])
  let ?s = "record_endpoint_event WEBHOOK_ENDPOINT_DELETED e s"
  show ?case
  proof (rule fanout_inv_endpoints [OF inv])
    show "outbox_events s' = outbox_events ?s" "next_uuid ?s \<le> next_uuid s'" by (simp_all add: s' Let_def)
    have eps: "webhook_endpoints s' = filter (\<lambda>x. ep_id x \<noteq> ep_id e) (webhook_endpoints ?s)"
      by (simp add: s' Let_def delete_where_def)
    show "distinct (map ep_id (webhook_endpoints s'))"
      unfolding eps using inv by (simp add: fanout_inv_def distinct_map_filter del: record_endpoint_event_fields)
    show "list_all (\<lambda>p. ep_id p < next_uuid s') (webhook_endpoints s')"
      unfolding eps using inv by (simp add: s' fanout_inv_def list_all_iff Let_def)
    show "\<exists>P. webhook_deliveries s' = filter P (webhook_deliveries ?s)"
      by (auto simp: s' delete_where_def Let_def)
  qed
next
  case (hs_retry now i org s d s')
  then obtain d0 where d0: "d0 \<in> set (webhook_deliveries s)"
    and s': "s' = save_delivery (d0\<lparr>wd_status := Dl_Pending, wd_attempts := 0, wd_next_attempt_at := now\<rparr>) s"
    by (auto simp: retry_delivery_def Let_def split: option.splits if_splits dest!: first_row_SomeD)
  show ?case unfolding s' by (rule fanout_inv_save_delivery [OF hs_retry.prems d0]) (simp_all add: delivery_key_def)
next
  case (hs_deliver hc now s n s')
  from fanout_inv_deliver_each [OF hs_deliver.prems hs_deliver.hyps [unfolded deliver_webhooks_def]] show ?case .
next
  case (hs_other s' s)
  show ?case by (rule fanout_inv_same [OF hs_other.prems hs_other.hyps])
qed

text \<open>
  C32. Tenants' webhooks never carry an internal event (invite tokens, password reset links), and
  an event is sent to an endpoint at most once: however events, dispatches, deliveries, retries
  and changes of endpoints interleave, there is at most one delivery per event and endpoint, and
  every delivery is of a public event that has been published.
\<close>

theorem endpoints_get_public_events_once:
  assumes "hook_step\<^sup>*\<^sup>* s s'" and "fanout_inv s"
  shows "distinct (map (\<lambda>d. (wd_outbox_event_id d, wd_endpoint_id d)) (webhook_deliveries s'))
    \<and> (\<forall>d \<in> set (webhook_deliveries s'). event_name (wd_event_type d) \<notin> event_name ` set INTERNAL_EVENTS
         \<and> (\<forall>e \<in> set (outbox_events s'). wd_outbox_event_id d = Some (oe_id e) \<longrightarrow> oe_published_at e \<noteq> None))"
proof -
  have "fanout_inv s'" using assms by (induction rule: rtranclp_induct) (auto intro: hook_step_inv)
  then have "distinct (map delivery_key (webhook_deliveries s'))"
    and ok: "\<forall>d\<in>set (webhook_deliveries s'). delivery_ok (outbox_events s') (next_uuid s') d"
    by (simp_all add: fanout_inv_def list_all_iff)
  then have "distinct (map (\<lambda>d. (wd_outbox_event_id d, wd_endpoint_id d)) (webhook_deliveries s'))"
    by (simp add: delivery_key_def [abs_def])
  moreover have "event_name (wd_event_type d) \<notin> event_name ` set INTERNAL_EVENTS"
    and "\<forall>e \<in> set (outbox_events s'). wd_outbox_event_id d = Some (oe_id e) \<longrightarrow> oe_published_at e \<noteq> None"
    if "d \<in> set (webhook_deliveries s')" for d
    using bspec [OF ok that] unfolding delivery_ok_def audience_for_def by (metis audience.distinct(1), auto)
  ultimately show ?thesis by blast
qed

section \<open>Deliveries keep the same contract, but share one transaction\<close>

lemma delivery_backoff_le: "DELIVERY_BACKOFF_SECONDS ! min n (length DELIVERY_BACKOFF_SECONDS - 1) \<le> 21600"
proof -
  have "DELIVERY_BACKOFF_SECONDS ! min n (length DELIVERY_BACKOFF_SECONDS - 1) \<in> set DELIVERY_BACKOFF_SECONDS"
    by (rule nth_mem) (simp add: DELIVERY_BACKOFF_SECONDS_def)
  then show ?thesis by (auto simp: DELIVERY_BACKOFF_SECONDS_def)
qed

interpretation delivery: backoff_retry "\<lambda>d. wd_status d = Dl_Pending" "\<lambda>d. MAX_DELIVERY_ATTEMPTS - 1 - wd_attempts d"
  wd_next_attempt_at delivery_attempted "seconds 21600"
proof
  fix now d d'
  assume a: "delivery_attempted now d d'"
  show "MAX_DELIVERY_ATTEMPTS - 1 - wd_attempts d' < MAX_DELIVERY_ATTEMPTS - 1 - wd_attempts d
      \<and> wd_next_attempt_at d' \<le> now + seconds 21600"
    if open_d: "wd_status d = Dl_Pending" "wd_status d' = Dl_Pending"
  proof -
    from a open_d obtain code err where d': "d' = mark_failure now code err d"
      unfolding delivery_attempted_def by auto
    have "\<not> min (wd_max_attempts d) MAX_DELIVERY_ATTEMPTS \<le> wd_attempts d + 1"
    proof
      assume "min (wd_max_attempts d) MAX_DELIVERY_ATTEMPTS \<le> wd_attempts d + 1"
      then have "wd_status d' = Dl_Exhausted" unfolding d' by (simp add: mark_failure_def Let_def)
      with open_d(2) show False by simp
    qed
    then have "wd_attempts d + 1 < MAX_DELIVERY_ATTEMPTS"
      and "wd_next_attempt_at d' = now + seconds
        (DELIVERY_BACKOFF_SECONDS ! min (wd_attempts d) (length DELIVERY_BACKOFF_SECONDS - 1))"
      and "wd_attempts d' = wd_attempts d + 1"
      unfolding d' by (simp_all add: mark_failure_def Let_def)
    with delivery_backoff_le [of "wd_attempts d"] show ?thesis by (simp add: seconds_def)
  qed
  show "wd_status d' \<noteq> Dl_Pending" if "wd_status d \<noteq> Dl_Pending"
    using a that unfolding delivery_attempted_def by (auto simp: mark_failure_def Let_def split: if_splits)
qed (simp add: seconds_def)

text \<open>
  A delivery that is attempted six times, each attempt at least six hours after the one before,
  is no longer pending.
\<close>

lemma delivery_settles:
  assumes "delivery.ticks nows [d] rows" and "successively (\<lambda>a b. a + seconds 21600 \<le> b) nows"
    and "MAX_DELIVERY_ATTEMPTS \<le> length nows" and "wd_next_attempt_at d \<le> hd nows"
  shows "\<forall>d'\<in>set rows. wd_status d' \<noteq> Dl_Pending"
proof -
  have "delivery.budget d \<le> MAX_DELIVERY_ATTEMPTS"
    unfolding delivery.budget_def by (simp add: MAX_DELIVERY_ATTEMPTS_def)
  then have "sum_list (map delivery.budget [d]) \<le> length nows" using assms(3) by simp
  from delivery.all_settled [OF assms(1,2) this] assms(4) show ?thesis by simp
qed

lemma sort_key_strict_min:
  assumes "x \<in> set xs" and "\<forall>y\<in>set xs. y \<noteq> x \<longrightarrow> key x < key y"
  obtains ys where "sort_key key xs = x # ys"
proof (cases "sort_key key xs")
  case Nil
  with assms(1) have False by (metis empty_iff set_empty set_sort)
  then show thesis ..
next
  case (Cons y ys)
  have "sorted (map key (y # ys))" unfolding Cons [symmetric] by (rule sorted_sort_key)
  moreover have x: "x \<in> set (y # ys)" unfolding Cons [symmetric] using assms(1) by simp
  ultimately have "key y \<le> key x" by auto
  moreover have "y \<in> set xs" using Cons by (metis list.set_intros(1) set_sort)
  ultimately have "y = x" using assms(2) by force
  with Cons that show thesis by blast
qed

text \<open>
  The deliveries of a tick share one transaction and, unlike outbox events, no savepoint of
  their own: an exception that is not an \<open>httpx.HTTPError\<close> ends the job. When the secret of the
  oldest pending delivery's endpoint cannot be decrypted (the deployment's key was rotated), the
  job raises at every tick from then on, before any other tenant's delivery is attempted.
\<close>

theorem undecryptable_secret_blocks_all_deliveries:
  assumes "d \<in> set (webhook_deliveries s)" and "wd_status d = Dl_Pending" and "wd_next_attempt_at d \<le> tx_now s"
    and "distinct (map wd_id (webhook_deliveries s))"
    and "\<forall>d'\<in>set (webhook_deliveries s). d' \<noteq> d \<longrightarrow> wd_created_at d < wd_created_at d'"
    and "live_endpoint (wd_endpoint_id d) s = Some e" and "hc_decrypt hc (ep_secret_encrypted e) = Inl x"
    and "tx_now s \<le> later"
  shows "deliver_webhooks hc now (s\<lparr>tx_now := later\<rparr>) = Inl x"
proof -
  let ?s = "s\<lparr>tx_now := later\<rparr>"
  let ?due = "rows_where (\<lambda>d. wd_status d = Dl_Pending \<and> wd_next_attempt_at d \<le> tx_now ?s) (webhook_deliveries ?s)"
  have d: "d \<in> set ?due" using assms(1-3,8) by (simp add: rows_where_def)
  obtain ds where "sort_key wd_created_at ?due = d # ds"
    by (rule sort_key_strict_min [OF d]) (use assms(5) in \<open>auto simp: rows_where_def\<close>)
  then obtain js where due: "due_deliveries ?s = wd_id d # js"
    by (simp add: due_deliveries_def DELIVERY_BATCH_def)
  have "first_row (\<lambda>x. wd_id x = wd_id d) (webhook_deliveries s) = Some d"
    by (rule distinct_key_find [OF assms(4,1)]) simp
  then have "deliver hc now (wd_id d) ?s = Inl x"
    using assms(6,7) by (simp add: deliver_def live_endpoint_def)
  then show ?thesis by (simp add: deliver_webhooks_def due)
qed

section \<open>Concrete outboxes and deliveries\<close>

definition demo_hooks :: "outbox_event list \<Rightarrow> webhook_delivery list \<Rightarrow> hook_db" where
  "demo_hooks es ds =
     (bill_db.extend demo_bill
        \<lparr>webhook_endpoints = [\<lparr>ep_id = 2, ep_organization_id = 7, ep_url = ''https://a'', ep_secret_encrypted = ''c'',
           ep_description = None, ep_events = [], ep_is_active = True, ep_created_at = 0\<rparr>],
         webhook_deliveries = ds\<rparr>)\<lparr>outbox_events := es\<rparr>"

lemma demo_hooks_fields [simp]:
  "outbox_events (demo_hooks es ds) = es" "webhook_deliveries (demo_hooks es ds) = ds"
  "next_uuid (demo_hooks es ds) = 9" "tx_now (demo_hooks es ds) = 0"
  "webhook_endpoints (demo_hooks es ds) = [\<lparr>ep_id = 2, ep_organization_id = 7, ep_url = ''https://a'',
     ep_secret_encrypted = ''c'', ep_description = None, ep_events = [], ep_is_active = True, ep_created_at = 0\<rparr>]"
proof -
  have "next_uuid (demo_hooks es ds) = next_uuid demo_bill" "tx_now (demo_hooks es ds) = tx_now demo_bill"
    by (simp_all add: demo_hooks_def bill_db.defs)
  then show "next_uuid (demo_hooks es ds) = 9" "tx_now (demo_hooks es ds) = 0" by simp_all
qed (simp_all add: demo_hooks_def bill_db.defs)

definition demo_event :: outbox_event where
  "demo_event = \<lparr>oe_id = 4, oe_aggregate_type = ''organization'', oe_aggregate_id = 7, oe_organization_id = Some 7,
     oe_event_type = ORG_UPDATED, oe_payload = [], oe_created_at = 0, oe_published_at = None,
     oe_audience = audience_for ORG_UPDATED, oe_dead_at = None, oe_attempts = 3, oe_next_attempt_at = 0,
     oe_last_error = None\<rparr>"

text \<open>Ticks can always be run: the dispatcher is total.\<close>

lemma outbox_run_exists:
  "distinct (map oe_id (outbox_events s)) \<Longrightarrow> \<exists>s'. outbox_run k nows s s'"
proof (induction nows arbitrary: s)
  case Nil
  show ?case by (blast intro: outbox_stop)
next
  case (Cons now nows)
  obtain n out s1 where run: "dispatch_outbox (\<lambda>_. Some ''down'') now (s\<lparr>tx_now := now\<rparr>) = (n, out, s1)"
    by (cases "dispatch_outbox (\<lambda>_. Some ''down'') now (s\<lparr>tx_now := now\<rparr>)")
  then have "s1 = snd (dispatch_each (\<lambda>_. Some ''down'') now (due_events (s\<lparr>tx_now := now\<rparr>)) (s\<lparr>tx_now := now\<rparr>))"
    by (auto simp: dispatch_outbox_def split: prod.splits)
  then have d: "distinct (map oe_id (outbox_events s1))"
    using dispatch_each_rows [of "s\<lparr>tx_now := now\<rparr>"] due_events_distinct [of "s\<lparr>tx_now := now\<rparr>"] Cons.prems
    by (simp add: comp_def if_distrib cong: if_cong)
  from Cons.IH [OF d] obtain s' where "outbox_run k nows s1 s'" by blast
  with outbox_tick [OF run, of s1 "[]"] d show ?case by auto
qed

theorem every_event_is_settled_witness:
  "\<exists>s'. outbox_run 4 (map (\<lambda>i. int i * seconds 3600) [0..<8]) (demo_hooks [demo_event] []) s'
     \<and> (\<exists>e'\<in>set (outbox_events s'). oe_id e' = 4 \<and> (oe_published_at e' \<noteq> None \<or> oe_dead_at e' \<noteq> None))"
proof -
  let ?nows = "map (\<lambda>i. int i * seconds 3600) [0..<8]"
  have e: "demo_event \<in> set (outbox_events (demo_hooks [demo_event] []))" "oe_id demo_event = 4"
    and d: "distinct (map oe_id (outbox_events (demo_hooks [demo_event] [])))"
    by (simp_all add: demo_event_def)
  from outbox_run_exists [OF d] obtain s' where run: "outbox_run (oe_id demo_event) ?nows (demo_hooks [demo_event] []) s'"
    by blast
  have gaps: "successively (\<lambda>a b. a + seconds 3600 \<le> b) ?nows" by (simp add: seconds_def upt_rec)
  from every_event_is_settled [OF e(1) d run gaps] run show ?thesis
    by (auto simp: watched_def e(2) outbox_pending_def OUTBOX_MAX_ATTEMPTS_def upt_rec demo_event_def)
qed

theorem endpoints_get_public_events_once_witness:
  "\<exists>s'. hook_step\<^sup>*\<^sup>* (demo_hooks [] []) s' \<and> length (webhook_deliveries s') = 1
     \<and> (\<forall>d \<in> set (webhook_deliveries s'). event_name (wd_event_type d) \<notin> event_name ` set INTERNAL_EVENTS)"
proof -
  let ?s1 = "append_outbox ORG_UPDATED ''organization'' 7 [] (Some 7) (demo_hooks [] [])"
  obtain n out s2 where run: "dispatch_outbox (\<lambda>_. None) 0 ?s1 = (n, out, s2)"
    by (cases "dispatch_outbox (\<lambda>_. None) 0 ?s1")
  have steps: "hook_step\<^sup>*\<^sup>* (demo_hooks [] []) s2"
    using hs_emit hs_dispatch [OF run] by (meson rtranclp.simps)
  have ids: "due_events ?s1 = [9]"
    by (simp add: due_events_def rows_where_def outbox_pending_def OUTBOX_BATCH_def)
  have pub: "audience_for ORG_UPDATED = AUDIENCE_PUBLIC" by (simp add: audience_for_def INTERNAL_EVENTS_def)
  have eps: "webhook_endpoints ?s1 = webhook_endpoints (demo_hooks [] [])"
    "webhook_deliveries ?s1 = []" by (simp_all add: append_outbox_def)
  have "length (webhook_deliveries s2) = 1"
    using run unfolding dispatch_outbox_def ids
    by (auto simp: first_row_def publish_def endpoints_for_def rows_where_def pub eps Let_def)
  moreover have "fanout_inv (demo_hooks [] [])" by (simp add: fanout_inv_def)
  ultimately show ?thesis using steps endpoints_get_public_events_once [OF steps] by blast
qed

definition demo_delivery :: webhook_delivery where
  "demo_delivery = \<lparr>wd_id = 5, wd_endpoint_id = 2, wd_organization_id = 7, wd_outbox_event_id = Some 4,
     wd_event_type = ORG_UPDATED, wd_payload = [], wd_status = Dl_Pending, wd_attempts = 0,
     wd_max_attempts = MAX_DELIVERY_ATTEMPTS, wd_next_attempt_at = 0, wd_last_response_code = None,
     wd_last_error = None, wd_response_excerpt = None, wd_delivered_at = None, wd_created_at = 0\<rparr>"

definition demo_hook_client :: hook_client where
  "demo_hook_client = \<lparr>hc_encrypt = (\<lambda>t. t), hc_decrypt = (\<lambda>_. Inl (OtherException ''InvalidToken'')),
     hc_hmac = (\<lambda>k t. k @ t), hc_dumps = (\<lambda>_. ''{}''), hc_post = (\<lambda>_ _ _. Post_Response 200 '''')\<rparr>"

theorem undecryptable_secret_blocks_all_deliveries_witness:
  "deliver_webhooks demo_hook_client 60
     ((demo_hooks [] [demo_delivery, demo_delivery\<lparr>wd_id := 6, wd_created_at := 3\<rparr>])\<lparr>tx_now := 60\<rparr>)
   = Inl (OtherException ''InvalidToken'')"
  by (rule undecryptable_secret_blocks_all_deliveries [where d = demo_delivery and e = "hd (webhook_endpoints (demo_hooks [] []))"])
    (simp_all add: demo_delivery_def demo_hook_client_def live_endpoint_def first_row_def)

end
