(* ===== verification/Profile.thy ===== *)
theory Profile
  imports Access
begin

text \<open>
  The caller's own profile (\<open>identity/router.py\<close>, \<open>identity/service.py\<close>): what \<open>GET\<close> and \<open>PATCH /v1/auth/me\<close>
  answer, and the preferences the latter writes.
\<close>

section \<open>Operations\<close>

record org_summary =
  os_id :: uuid
  os_slug :: string
  os_name :: string
  os_role_keys :: "string list"
  os_permission_keys :: "string list"

definition roles_of :: "uuid \<Rightarrow> 'a auth_db_scheme \<Rightarrow> role list" where
  "roles_of membership_id s = rows_where (\<lambda>r. (membership_id, ro_id r) \<in> set (membership_roles s)) (roles s)"

definition org_summary_of :: "membership \<Rightarrow> organization \<Rightarrow> 'a auth_db_scheme \<Rightarrow> org_summary" where
  "org_summary_of m org s =
     \<lparr>os_id = mb_organization_id m, os_slug = org_slug org, os_name = org_name org,
      os_role_keys = sort (map ro_key (roles_of (mb_id m) s)), os_permission_keys = sort (mb_permission_keys m)\<rparr>"

text \<open>The foreign key of a membership row keeps its organization's row in the table.\<close>

definition me_response :: "user \<Rightarrow> 'a auth_db_scheme \<Rightarrow> user \<times> org_summary list" where
  "me_response u s = (u, List.map_filter (\<lambda>m.
     map_option (\<lambda>org. org_summary_of m org s) (first_row (\<lambda>r. org_id r = mb_organization_id m) (organizations s)))
       (for_user (us_id u) s))"

definition api_me ::
  "env \<Rightarrow> datetime \<Rightarrow> request \<Rightarrow> 'a access_db_scheme \<Rightarrow> error + ((user \<times> org_summary list) \<times> 'a access_db_scheme)" where
  "api_me en now rq s =
     bind_r (get_principal en now rq (s\<lparr>ctx_tenant := None, ctx_user := None\<rparr>)) (\<lambda>(p, s1).
       case p of Of_key _ \<Rightarrow> raise_error PermissionDeniedError | Of_user u \<Rightarrow> Inr (me_response u s1, s1))"

definition update_preferences ::
  "(int \<Rightarrow> string) \<Rightarrow> (int \<Rightarrow> int \<Rightarrow> string) \<Rightarrow> user \<Rightarrow> pobject \<Rightarrow> 'a acct_db_scheme
    \<Rightarrow> error + (user \<times> 'a acct_db_scheme)" where
  "update_preferences it ft u patch s =
     (case get_user (us_id u) s of
        None \<Rightarrow> Inl NoResultFound
      | Some locked \<Rightarrow>
          let merged = merge_preferences (us_preferences locked) patch
          in bind_r (check_stored_preferences it ft merged) (\<lambda>_.
               let u' = locked\<lparr>us_preferences := merged\<rparr> in Inr (u', save_user u' s)))"

text \<open>
  The body is validated after the principal is known and before the handler runs; \<open>body\<close> is the
  \<open>preferences\<close> member, absent or \<open>null\<close> as \<open>None\<close>.
\<close>

definition api_update_me ::
  "env \<Rightarrow> (int \<Rightarrow> string) \<Rightarrow> (int \<Rightarrow> int \<Rightarrow> string) \<Rightarrow> datetime \<Rightarrow> pval option \<Rightarrow> request \<Rightarrow> 'a access_db_scheme
    \<Rightarrow> error + ((user \<times> org_summary list) \<times> 'a access_db_scheme)" where
  "api_update_me en it ft now body rq s =
     bind_r (get_principal en now rq (s\<lparr>ctx_tenant := None, ctx_user := None\<rparr>)) (\<lambda>(p, s1).
     bind_r (case body of None \<Rightarrow> Inr None | Some v \<Rightarrow> bind_r (validate_preferences_patch it ft v) (\<lambda>d. Inr (Some d))) (\<lambda>patch.
       case p of
         Of_key _ \<Rightarrow> raise_error PermissionDeniedError
       | Of_user u \<Rightarrow>
           (case patch of
              None \<Rightarrow> Inr (me_response u s1, s1)
            | Some d \<Rightarrow> bind_r (update_preferences it ft u d s1) (\<lambda>(u', s2). Inr (me_response u' s2, s2)))))"

section \<open>Who may write what\<close>

definition prefs_ok :: "(int \<Rightarrow> string) \<Rightarrow> (int \<Rightarrow> int \<Rightarrow> string) \<Rightarrow> 'a acct_db_scheme \<Rightarrow> bool" where
  "prefs_ok it ft s \<longleftrightarrow> (\<forall>u\<in>set (users s). prefs_wellformed it ft (us_preferences u))"

lemma token_user:
  assumes "user_of_token en now token s = Inr u"
  shows "get_user (us_id u) s = Some u \<and> us_is_active u"
proof -
  obtain payload where p: "decode_access_token (en_crypto en) (en_identity en) now token = Inr payload"
    using assms by (auto simp: user_of_token_def bind_r_eq_Inr)
  obtain v where v: "map_of payload ''sub'' = Some v"
    using assms p by (cases "map_of payload ''sub''") (auto simp: user_of_token_def)
  obtain i where i: "claim_uuid (en_repr en) v = Inr i"
    using assms p v by (cases "claim_uuid (en_repr en) v") (auto simp: user_of_token_def)
  have "get_user i s = Some u \<and> us_is_active u"
    using assms p v i by (auto simp: user_of_token_def split: option.splits if_splits)
  moreover from this have "us_id u = i" by (auto simp: get_user_def dest: first_row_SomeD)
  ultimately show ?thesis by simp
qed

lemma me_principal:
  assumes "get_principal en now rq s = Inr (Of_user u, s1)"
  shows "get_user (us_id u) s = Some u \<and> us_is_active u \<and> users s1 = users s"
proof -
  have "\<exists>token. bearer rq = Some token \<and> user_of_token en now token s = Inr u \<and> users s1 = users s"
    using assms by (auto simp: get_principal_def get_current_user_def bind_r_eq_Inr Let_def split: option.splits if_splits)
  then show ?thesis using token_user by blast
qed

text \<open>A save through the primary key replaces exactly one row.\<close>

lemma update_preferences_Inr:
  assumes "update_preferences it ft u patch s = Inr (u', s')" and "get_user (us_id u) s = Some u"
  shows "u' = u\<lparr>us_preferences := merge_preferences (us_preferences u) patch\<rparr> \<and> s' = save_user u' s
    \<and> check_stored_preferences it ft (us_preferences u') = Inr ()"
  using assms by (auto simp: update_preferences_def bind_r_eq_Inr Let_def)

lemma update_me_cases:
  assumes "api_update_me en it ft now body rq s = Inr (r, s')"
  obtains u s1 patch where "get_principal en now rq (fresh_request s) = Inr (Of_user u, s1)"
    and "(case body of None \<Rightarrow> Inr None | Some v \<Rightarrow> bind_r (validate_preferences_patch it ft v) (\<lambda>d. Inr (Some d))) = Inr patch"
    and "(case patch of None \<Rightarrow> Inr (me_response u s1, s1)
            | Some d \<Rightarrow> bind_r (update_preferences it ft u d s1) (\<lambda>(u', s2). Inr (me_response u' s2, s2))) = Inr (r, s')"
proof -
  let ?val = "case body of None \<Rightarrow> Inr None | Some v \<Rightarrow> bind_r (validate_preferences_patch it ft v) (\<lambda>d. Inr (Some d))"
  obtain p s1 where pr: "get_principal en now rq (fresh_request s) = Inr (p, s1)"
    using assms by (cases "get_principal en now rq (fresh_request s)") (auto simp: api_update_me_def)
  obtain patch where val: "?val = Inr patch"
    using assms pr by (cases ?val) (auto simp: api_update_me_def)
  have run: "(case p of Of_key _ \<Rightarrow> raise_error PermissionDeniedError | Of_user u \<Rightarrow> (case patch of None \<Rightarrow> Inr (me_response u s1, s1)
            | Some d \<Rightarrow> bind_r (update_preferences it ft u d s1) (\<lambda>(u', s2). Inr (me_response u' s2, s2)))) = Inr (r, s')"
    using assms pr val by (simp add: api_update_me_def)
  from run obtain u where "p = Of_user u" by (cases p) simp_all
  with pr val run that show thesis by simp
qed

text \<open>
  C31. \<open>PATCH /v1/auth/me\<close> is for users only and writes one thing: the preferences of the caller become the old
  ones with the keys of the patch replaced, no other user and no other column changes, and the stored
  preferences of every user stay within the caps on keys, bytes and nesting and free of NUL.
\<close>

theorem profile_update_writes_own_preferences:
  assumes "prefs_ok it ft s" and "accounts_ok s"
    and "api_update_me en it ft now body rq s = Inr ((u', orgs), s')"
  shows "prefs_ok it ft s' \<and> (\<exists>u p. u \<in> set (users s) \<and> us_is_active u \<and> u' = u\<lparr>us_preferences := p\<rparr>
    \<and> users s' = map (\<lambda>x. if us_id x = us_id u then u' else x) (users s)
    \<and> map_of p = map_of (us_preferences u) ++ (case body of Some (PObj d) \<Rightarrow> map_of (rev d) | _ \<Rightarrow> Map.empty))"
proof -
  obtain u s1 patch where pr: "get_principal en now rq (fresh_request s) = Inr (Of_user u, s1)"
    and val: "(case body of None \<Rightarrow> Inr None | Some v \<Rightarrow> bind_r (validate_preferences_patch it ft v) (\<lambda>d. Inr (Some d))) = Inr patch"
    and run: "(case patch of None \<Rightarrow> Inr (me_response u s1, s1)
            | Some d \<Rightarrow> bind_r (update_preferences it ft u d s1) (\<lambda>(u', s2). Inr (me_response u' s2, s2))) = Inr ((u', orgs), s')"
    by (rule update_me_cases [OF assms(3)])
  from me_principal [OF pr] have u: "get_user (us_id u) s = Some u" "us_is_active u" and us: "users s1 = users s"
    by (simp_all add: get_user_def)
  then have mem: "u \<in> set (users s)" by (auto simp: get_user_def first_row_def find_Some_iff)
  have only: "x = u" if "x \<in> set (users s)" "us_id x = us_id u" for x
    using assms(2) that mem by (auto simp: accounts_ok_def dest: inj_on_eq_iff [OF distinct_map [THEN iffD1, THEN conjunct2]])
  show ?thesis
  proof (cases patch)
    case None
    with val have "body = None" by (auto simp: bind_r_eq_Inr split: option.splits)
    moreover have "u' = u" "users s' = users s" using run None us by (auto simp: me_response_def)
    moreover have "map (\<lambda>x. if us_id x = us_id u then u else x) (users s) = users s" using only by (intro map_idI) metis
    ultimately show ?thesis using assms(1) mem u(2) by (intro conjI exI [of _ u] exI [of _ "us_preferences u"]) (auto simp: prefs_ok_def)
  next
    case (Some d)
    with val obtain v where v: "body = Some v" "validate_preferences_patch it ft v = Inr d"
      by (auto simp: bind_r_eq_Inr split: option.splits)
    from run Some have saved: "update_preferences it ft u d s1 = Inr (u', s')"
      by (auto simp: bind_r_eq_Inr me_response_def)
    have "get_user (us_id u) s1 = Some u" using u(1) us by (simp add: get_user_def)
    then have up: "u' = u\<lparr>us_preferences := merge_preferences (us_preferences u) d\<rparr>" "s' = save_user u' s1"
        "check_stored_preferences it ft (us_preferences u') = Inr ()"
      using update_preferences_Inr [OF saved] by blast+
    have "prefs_wellformed it ft (us_preferences u)" using assms(1) mem by (auto simp: prefs_ok_def)
    from merge_wellformed [OF this v(2)] up have wf: "prefs_wellformed it ft (us_preferences u')" by simp
    have tab: "users s' = map (\<lambda>x. if us_id x = us_id u then u' else x) (users s)"
      using up(1,2) us by (simp add: save_user_def update_where_def)
    have "v = PObj d" using validate_patch_Inr [OF v(2)] by simp
    then show ?thesis using tab wf assms(1) mem u(2) up(1) v(1)
      by (intro conjI exI [of _ u] exI [of _ "us_preferences u'"]) (auto simp: prefs_ok_def merge_facts(3))
  qed
qed

section \<open>A concrete patch\<close>

lemma demo_prefs_ok [simp]: "prefs_ok it ft demo_access"
  by (simp add: prefs_ok_def demo_user_def)

lemma demo_principal:
  "get_principal demo_env 0 (demo_request ''jwt'') (fresh_request demo_access)
     = Inr (Of_user demo_user, (fresh_request demo_access)\<lparr>ctx_user := Some (user_ctx demo_user {})\<rparr>)"
  using demo_token_user
  by (simp add: get_principal_def get_current_user_def bearer_def demo_request_def starts_with_def KEY_PREFIX_def user_ctx_def)

theorem profile_update_writes_own_preferences_witness:
  "\<exists>u' orgs s'. api_update_me demo_env (\<lambda>_. ''1'') (\<lambda>_ _. []) 0 (Some (PObj [(''tours'', PInt 1)])) (demo_request ''jwt'') demo_access
       = Inr ((u', orgs), s') \<and> us_preferences u' = [(''tours'', PInt 1)] \<and> prefs_ok (\<lambda>_. ''1'') (\<lambda>_ _. []) s'"
proof -
  let ?it = "\<lambda>_::int. ''1''" and ?ft = "\<lambda>_ _::int. []::string" and ?v = "PObj [(''tours'', PInt 1)]"
  have shape: "check_shape (PObj [(''tours'', PInt 1)]) MAX_DEPTH = Inr ()"
    by (simp add: MAX_DEPTH_def NUL_def)
  have val: "validate_preferences_patch ?it ?ft ?v = Inr [(''tours'', PInt 1)]"
    unfolding validate_preferences_patch_def shape by (simp add: preference_key_def key_start_def key_rest_def guard_r_def bind_r_def
        MAX_PATCH_KEYS_def MAX_PATCH_BYTES_def MAX_DEPTH_def NUL_def preferences_size_def json_string_def escape_char_def
        commas_def utf8_len_def Let_def)
  have "\<exists>orgs s'. api_update_me demo_env ?it ?ft 0 (Some ?v) (demo_request ''jwt'') demo_access
      = Inr ((demo_user\<lparr>us_preferences := [(''tours'', PInt 1)]\<rparr>, orgs), s')"
    by (simp add: api_update_me_def demo_principal val update_preferences_def get_user_def first_row_def demo_user_def
        merge_preferences_def check_stored_preferences_def preferences_size_def json_string_def escape_char_def guard_r_def
        bind_r_def commas_def utf8_len_def MAX_STORED_KEYS_def MAX_STORED_BYTES_def me_response_def Let_def)
  then obtain orgs s' where run: "api_update_me demo_env ?it ?ft 0 (Some ?v) (demo_request ''jwt'') demo_access
      = Inr ((demo_user\<lparr>us_preferences := [(''tours'', PInt 1)]\<rparr>, orgs), s')" by blast
  from profile_update_writes_own_preferences [OF demo_prefs_ok demo_access_ok(4) run] run show ?thesis by auto
qed

end
