(* ===== verification/Flags.thy ===== *)
theory Flags
  imports Access
begin

text \<open>
  Feature flags (\<open>feature_flags/\<close>): definitions with an optional percentage rollout, overrides for an
  organization or a user, and the evaluation behind a cache that three scopes can invalidate.
\<close>

section \<open>Tables\<close>

record feature_flag =
  ff_id :: uuid
  ff_key :: string
  ff_name :: string
  ff_description :: "string option"
  ff_enabled :: bool
  ff_rollout_percentage :: "int option"
  ff_archived_at :: "datetime option"

record flag_override =
  fo_id :: uuid
  fo_flag_key :: string
  fo_organization_id :: "uuid option"
  fo_user_id :: "uuid option"
  fo_enabled :: bool
  fo_note :: "string option"
  fo_created_at :: datetime

record flags_db = access_db +
  feature_flags :: "feature_flag list"
  flag_overrides :: "flag_override list"

definition ROLLOUT_PERCENT_MIN :: int where "ROLLOUT_PERCENT_MIN = 0"
definition ROLLOUT_PERCENT_MAX :: int where "ROLLOUT_PERCENT_MAX = 100"

section \<open>Bucketing\<close>

definition BUCKETS :: int where "BUCKETS = 10000"

text \<open>\<open>digest\<close> gives the bytes of SHA-256; \<open>int.from_bytes(_, "big")\<close> of the first four.\<close>

definition big_endian :: "string \<Rightarrow> int" where
  "big_endian bs = foldl (\<lambda>n b. n * 256 + int (of_char b)) 0 bs"

definition bucket_of :: "(string \<Rightarrow> string) \<Rightarrow> string \<Rightarrow> string \<Rightarrow> int" where
  "bucket_of digest flag_key identifier =
     big_endian (take 4 (digest (flag_key @ '':'' @ identifier))) mod BUCKETS"

definition in_rollout :: "(string \<Rightarrow> string) \<Rightarrow> string \<Rightarrow> string \<Rightarrow> int \<Rightarrow> bool" where
  "in_rollout digest flag_key identifier percentage \<longleftrightarrow>
     bucket_of digest flag_key identifier < (BUCKETS * percentage) div 100"

section \<open>Resolution\<close>

definition fflags_cache :: versioned_cache where
  "fflags_cache = \<lparr>vc_object = ''fflags'', vc_namespace = ''fflags'', vc_ttl = 30\<rparr>"

definition find_flag :: "string \<Rightarrow> 'a flags_db_scheme \<Rightarrow> error + feature_flag option" where
  "find_flag key s = one_or_none MultipleResultsFound (\<lambda>f. ff_key f = key \<and> ff_archived_at f = None) (feature_flags s)"

definition find_override ::
  "string \<Rightarrow> uuid option \<Rightarrow> uuid option \<Rightarrow> 'a flags_db_scheme \<Rightarrow> error + flag_override option" where
  "find_override key org user s =
     (if user \<noteq> None then
        one_or_none MultipleResultsFound (\<lambda>r. fo_flag_key r = key \<and> fo_user_id r = user) (flag_overrides s)
      else if org \<noteq> None then
        one_or_none MultipleResultsFound
          (\<lambda>r. fo_flag_key r = key \<and> fo_organization_id r = org \<and> fo_user_id r = None) (flag_overrides s)
      else Inr None)"

text \<open>\<open>str(user_id or organization_id or "anonymous")\<close>; a UUID is never false.\<close>

definition rollout_identifier :: "uuid option \<Rightarrow> uuid option \<Rightarrow> string" where
  "rollout_identifier org user =
     (case user of Some u \<Rightarrow> nat_str u | None \<Rightarrow> (case org of Some i \<Rightarrow> nat_str i | None \<Rightarrow> ''anonymous''))"

definition flag_default :: "(string \<Rightarrow> string) \<Rightarrow> feature_flag \<Rightarrow> uuid option \<Rightarrow> uuid option \<Rightarrow> bool" where
  "flag_default digest f org user =
     (case ff_rollout_percentage f of
        Some p \<Rightarrow> in_rollout digest (ff_key f) (rollout_identifier org user) p
      | None \<Rightarrow> ff_enabled f)"

definition evaluate ::
  "(string \<Rightarrow> string) \<Rightarrow> string \<Rightarrow> uuid option \<Rightarrow> uuid option \<Rightarrow> 'a flags_db_scheme \<Rightarrow> error + bool" where
  "evaluate digest key org user s =
     bind_r (find_flag key s) (\<lambda>flag.
       case flag of
         None \<Rightarrow> Inr False
       | Some f \<Rightarrow>
           bind_r (if user \<noteq> None then find_override key None user s else Inr None) (\<lambda>by_user.
             case by_user of
               Some r \<Rightarrow> Inr (fo_enabled r)
             | None \<Rightarrow>
                 bind_r (if org \<noteq> None then find_override key org None s else Inr None) (\<lambda>by_org.
                   case by_org of
                     Some r \<Rightarrow> Inr (fo_enabled r)
                   | None \<Rightarrow> Inr (flag_default digest f org user))))"

definition opt_text :: "uuid option \<Rightarrow> string" where
  "opt_text i = (case i of None \<Rightarrow> ''None'' | Some n \<Rightarrow> nat_str n)"

definition flag_scopes :: "uuid option \<Rightarrow> uuid option \<Rightarrow> string list" where
  "flag_scopes org user = [''all'', ''org:'' @ opt_text org, ''user:'' @ opt_text user]"

definition flag_cache_key :: "string \<Rightarrow> uuid option \<Rightarrow> uuid option \<Rightarrow> string" where
  "flag_cache_key key org user = key @ ''|'' @ opt_text org @ ''|'' @ opt_text user"

definition is_enabled ::
  "(string \<Rightarrow> string) \<Rightarrow> datetime \<Rightarrow> string \<Rightarrow> uuid option \<Rightarrow> uuid option \<Rightarrow> 'a flags_db_scheme
    \<Rightarrow> error + (bool \<times> 'a flags_db_scheme)" where
  "is_enabled digest now key org user s =
     (let ((cached, token), st) = get_scoped (ttl_backend now) fflags_cache (cache_store s)
            (flag_cache_key key org user) (flag_scopes org user);
          s1 = s\<lparr>cache_store := st\<rparr>
      in case cached of
           Some v \<Rightarrow> Inr (v = JStr ''1'', s1)
         | None \<Rightarrow>
             bind_r (evaluate digest key org user s1) (\<lambda>enabled.
               Inr (enabled, s1\<lparr>cache_store := set_scoped (ttl_backend now) fflags_cache (cache_store s1)
                 (flag_cache_key key org user) (JStr (if enabled then ''1'' else ''0'')) token\<rparr>)))"

section \<open>Management\<close>

definition flags_invalidate :: "datetime \<Rightarrow> string \<Rightarrow> 'a flags_db_scheme \<Rightarrow> 'a flags_db_scheme" where
  "flags_invalidate now scope s = bump_and_defer now fflags_cache scope s"

definition bump_scope :: "datetime \<Rightarrow> uuid option \<Rightarrow> uuid option \<Rightarrow> 'a flags_db_scheme \<Rightarrow> 'a flags_db_scheme" where
  "bump_scope now org user s =
     (let s1 = (if org \<noteq> None then flags_invalidate now (''org:'' @ opt_text org) s else s)
      in if user \<noteq> None then flags_invalidate now (''user:'' @ opt_text user) s1 else s1)"

text \<open>The table's constraints: the key is unique, archived rows included, and the percentage is one.\<close>

definition rollout_in_range :: "int option \<Rightarrow> bool" where
  "rollout_in_range p = (case p of None \<Rightarrow> True | Some n \<Rightarrow> ROLLOUT_PERCENT_MIN \<le> n \<and> n \<le> ROLLOUT_PERCENT_MAX)"

definition flush_flag :: "feature_flag \<Rightarrow> 'a flags_db_scheme \<Rightarrow> error + 'a flags_db_scheme" where
  "flush_flag f s =
     bind_r (guard_r (rollout_in_range (ff_rollout_percentage f)
       \<and> (\<forall>x\<in>set (feature_flags s). ff_key x = ff_key f \<longrightarrow> ff_id x = ff_id f)) IntegrityError) (\<lambda>_.
       Inr (s\<lparr>feature_flags := (if \<exists>x\<in>set (feature_flags s). ff_id x = ff_id f
              then update_where (\<lambda>x. ff_id x = ff_id f) (\<lambda>_. f) (feature_flags s)
              else feature_flags s @ [f])\<rparr>))"

definition create_flag ::
  "datetime \<Rightarrow> string \<Rightarrow> string \<Rightarrow> string option \<Rightarrow> bool \<Rightarrow> int option \<Rightarrow> 'a flags_db_scheme
    \<Rightarrow> error + (feature_flag \<times> 'a flags_db_scheme)" where
  "create_flag now key name description enabled rollout s =
     bind_r (find_flag key s) (\<lambda>existing.
     bind_r (guard_r (existing = None) (Domain ConflictError [(''key'', JStr key)])) (\<lambda>_.
       let f = \<lparr>ff_id = next_uuid s, ff_key = key, ff_name = name, ff_description = description,
                ff_enabled = enabled, ff_rollout_percentage = rollout, ff_archived_at = None\<rparr>
       in bind_r (flush_flag f (s\<lparr>next_uuid := Suc (next_uuid s)\<rparr>)) (\<lambda>s1.
            Inr (f, flags_invalidate now ''all'' s1))))"

definition live_flag :: "string \<Rightarrow> 'a flags_db_scheme \<Rightarrow> error + feature_flag" where
  "live_flag key s =
     bind_r (find_flag key s) (\<lambda>found.
       case found of
         None \<Rightarrow> raise_error FeatureFlagNotFoundError
       | Some f \<Rightarrow> bind_r (guard_r (ff_archived_at f = None) (Domain FeatureFlagNotFoundError [])) (\<lambda>_. Inr f))"

definition update_flag ::
  "datetime \<Rightarrow> string \<Rightarrow> bool option \<Rightarrow> int option \<Rightarrow> 'a flags_db_scheme
    \<Rightarrow> error + (feature_flag \<times> 'a flags_db_scheme)" where
  "update_flag now key enabled rollout s =
     bind_r (live_flag key s) (\<lambda>f0.
       let f1 = (case enabled of Some b \<Rightarrow> f0\<lparr>ff_enabled := b\<rparr> | None \<Rightarrow> f0);
           f2 = (case rollout of Some p \<Rightarrow> f1\<lparr>ff_rollout_percentage := Some p\<rparr> | None \<Rightarrow> f1)
       in bind_r (flush_flag f2 s) (\<lambda>s1. Inr (f2, flags_invalidate now ''all'' s1)))"

text \<open>The foreign keys of an override.\<close>

definition override_keys_exist :: "uuid option \<Rightarrow> uuid option \<Rightarrow> 'a flags_db_scheme \<Rightarrow> bool" where
  "override_keys_exist org user s \<longleftrightarrow>
     (\<forall>i. org = Some i \<longrightarrow> (\<exists>r\<in>set (organizations s). org_id r = i))
     \<and> (\<forall>i. user = Some i \<longrightarrow> (\<exists>r\<in>set (users s). us_id r = i))"

definition set_override ::
  "datetime \<Rightarrow> string \<Rightarrow> uuid option \<Rightarrow> uuid option \<Rightarrow> bool \<Rightarrow> string option \<Rightarrow> 'a flags_db_scheme
    \<Rightarrow> error + (flag_override \<times> 'a flags_db_scheme)" where
  "set_override now key org user enabled note s =
     bind_r (live_flag key s) (\<lambda>_.
     bind_r (guard_r ((org = None) \<noteq> (user = None)) (Domain ValidationFailedError [])) (\<lambda>_.
     bind_r (find_override key org user s) (\<lambda>existing.
       case existing of
         Some r0 \<Rightarrow>
           let r = r0\<lparr>fo_enabled := enabled, fo_note := note\<rparr>
           in Inr (r, bump_scope now org user
                (s\<lparr>flag_overrides := update_where (\<lambda>x. fo_id x = fo_id r0) (\<lambda>_. r) (flag_overrides s)\<rparr>))
       | None \<Rightarrow>
           let r = \<lparr>fo_id = next_uuid s, fo_flag_key = key, fo_organization_id = org, fo_user_id = user,
                    fo_enabled = enabled, fo_note = note, fo_created_at = tx_now s\<rparr>
           in bind_r (guard_r (override_keys_exist org user s) IntegrityError) (\<lambda>_.
                Inr (r, bump_scope now org user
                  (s\<lparr>next_uuid := Suc (next_uuid s), flag_overrides := flag_overrides s @ [r]\<rparr>))))))"

definition delete_override :: "datetime \<Rightarrow> uuid \<Rightarrow> 'a flags_db_scheme \<Rightarrow> error + 'a flags_db_scheme" where
  "delete_override now i s =
     (case first_row (\<lambda>r. fo_id r = i) (flag_overrides s) of
        None \<Rightarrow> raise_error FeatureFlagNotFoundError
      | Some r \<Rightarrow> Inr (bump_scope now (fo_organization_id r) (fo_user_id r)
          (s\<lparr>flag_overrides := delete_where (\<lambda>x. fo_id x = i) (flag_overrides s)\<rparr>)))"

definition list_flags :: "'a flags_db_scheme \<Rightarrow> feature_flag list" where
  "list_flags s = sort_key ff_key (rows_where (\<lambda>f. ff_archived_at f = None) (feature_flags s))"

definition list_overrides :: "string \<Rightarrow> 'a flags_db_scheme \<Rightarrow> flag_override list" where
  "list_overrides key s = sort_key (\<lambda>r. - fo_created_at r) (rows_where (\<lambda>r. fo_flag_key r = key) (flag_overrides s))"

section \<open>Handlers\<close>

definition platform_gate ::
  "env \<Rightarrow> datetime \<Rightarrow> request \<Rightarrow> 'a access_db_scheme \<Rightarrow> error + 'a access_db_scheme" where
  "platform_gate en now rq s =
     bind_r (get_current_user en now rq (s\<lparr>ctx_tenant := None, ctx_user := None\<rparr>)) (\<lambda>(u, s1).
     bind_r (require_platform_admin u) (\<lambda>_. Inr s1))"

definition api_list_flags ::
  "env \<Rightarrow> datetime \<Rightarrow> page_params \<Rightarrow> request \<Rightarrow> 'a flags_db_scheme
    \<Rightarrow> error + ((nat \<times> feature_flag list) \<times> 'a flags_db_scheme)" where
  "api_list_flags en now page rq s =
     bind_r (platform_gate en now rq s) (\<lambda>s1. Inr (paginate_in_memory (list_flags s1) page, s1))"

definition api_create_flag ::
  "env \<Rightarrow> datetime \<Rightarrow> string \<Rightarrow> string \<Rightarrow> string option \<Rightarrow> bool \<Rightarrow> int option \<Rightarrow> request \<Rightarrow> 'a flags_db_scheme
    \<Rightarrow> error + (feature_flag \<times> 'a flags_db_scheme)" where
  "api_create_flag en now key name description enabled rollout rq s =
     bind_r (platform_gate en now rq s) (\<lambda>s1. create_flag now key name description enabled rollout s1)"

definition api_update_flag ::
  "env \<Rightarrow> datetime \<Rightarrow> string \<Rightarrow> bool option \<Rightarrow> int option \<Rightarrow> request \<Rightarrow> 'a flags_db_scheme
    \<Rightarrow> error + (feature_flag \<times> 'a flags_db_scheme)" where
  "api_update_flag en now key enabled rollout rq s =
     bind_r (platform_gate en now rq s) (\<lambda>s1. update_flag now key enabled rollout s1)"

definition api_list_overrides ::
  "env \<Rightarrow> datetime \<Rightarrow> string \<Rightarrow> page_params \<Rightarrow> request \<Rightarrow> 'a flags_db_scheme
    \<Rightarrow> error + ((nat \<times> flag_override list) \<times> 'a flags_db_scheme)" where
  "api_list_overrides en now key page rq s =
     bind_r (platform_gate en now rq s) (\<lambda>s1. Inr (paginate_in_memory (list_overrides key s1) page, s1))"

definition api_set_override ::
  "env \<Rightarrow> datetime \<Rightarrow> string \<Rightarrow> uuid option \<Rightarrow> uuid option \<Rightarrow> bool \<Rightarrow> string option \<Rightarrow> request \<Rightarrow> 'a flags_db_scheme
    \<Rightarrow> error + (flag_override \<times> 'a flags_db_scheme)" where
  "api_set_override en now key org user enabled note rq s =
     bind_r (platform_gate en now rq s) (\<lambda>s1. set_override now key org user enabled note s1)"

definition api_delete_override ::
  "env \<Rightarrow> datetime \<Rightarrow> uuid \<Rightarrow> request \<Rightarrow> 'a flags_db_scheme \<Rightarrow> error + 'a flags_db_scheme" where
  "api_delete_override en now i rq s = bind_r (platform_gate en now rq s) (\<lambda>s1. delete_override now i s1)"

definition api_check_flag ::
  "env \<Rightarrow> (string \<Rightarrow> string) \<Rightarrow> datetime \<Rightarrow> string \<Rightarrow> request \<Rightarrow> 'a flags_db_scheme
    \<Rightarrow> error + (bool \<times> 'a flags_db_scheme)" where
  "api_check_flag en digest now key rq s =
     bind_r (enter en now rq s) (\<lambda>((u, ctx), s1).
       is_enabled digest now key (Some (tc_organization_id ctx)) (Some (us_id u)) s1)"

definition require_flag ::
  "env \<Rightarrow> (string \<Rightarrow> string) \<Rightarrow> datetime \<Rightarrow> string \<Rightarrow> request \<Rightarrow> 'a flags_db_scheme
    \<Rightarrow> error + (user_context \<times> 'a flags_db_scheme)" where
  "require_flag en digest now key rq s =
     bind_r (enter en now rq s) (\<lambda>((u, ctx), s1).
     bind_r (is_enabled digest now key (Some (tc_organization_id ctx)) (Some (us_id u)) s1) (\<lambda>(enabled, s2).
     bind_r (guard_r enabled (Domain PermissionDeniedError
        [(''flag'', JStr key), (''reason'', JStr ''feature_flag_disabled'')])) (\<lambda>_.
     bind_r (require_user s2) (\<lambda>p. Inr (p, s2)))))"

section \<open>Cached answers\<close>

context cache_backend_laws
begin

lemma get_scoped_value:
  "fst (get_scoped (B t) c st key scopes)
     = (view t st (scoped_key c key (join_comma (scope_texts scopes (scope_versions t c st scopes)))),
        join_comma (scope_texts scopes (scope_versions t c st scopes)))"
  using scope_parts_value [of t c st scopes] get_value [of t "snd (scope_parts (B t) c st scopes)"]
  by (auto simp: get_scoped_def Let_def split: prod.splits) (metis fst_conv order_refl)

lemma get_scoped_frame:
  "t \<le> t' \<Longrightarrow> view t' (snd (get_scoped (B t) c st key scopes)) k = view t' st k"
  using scope_parts_value [of t c st scopes] get_frame [of t t' "snd (scope_parts (B t) c st scopes)"]
  by (auto simp: get_scoped_def Let_def split: prod.splits) (metis snd_conv)

end

text \<open>The keys of two entries differ when the flag, a scope or a version does.\<close>

lemma opt_text_inject [simp]: "opt_text a = opt_text b \<longleftrightarrow> a = b"
proof -
  have "nat_str n \<noteq> ''None''" for n using nat_str_digits [of "CHR ''N''" n] by auto
  then show ?thesis by (auto simp: opt_text_def split: option.splits) metis
qed

lemma opt_text_chars: "c \<in> set (opt_text a) \<Longrightarrow> c \<in> set ''None0123456789''"
  using nat_str_digits by (fastforce simp: opt_text_def split: option.splits)

lemma digits_suffix_eq:
  assumes "xs @ c # ys = xs' @ c # ys'" "c \<notin> set ys" "c \<notin> set ys'"
  shows "xs = xs' \<and> ys = ys'"
proof -
  from assms(1) have "rev (xs @ c # ys) = rev (xs' @ c # ys')" by simp
  then have "rev ys @ c # rev xs = rev ys' @ c # rev xs'" by simp
  from digits_prefix_eq [OF this] assms(2,3) show ?thesis by simp
qed

lemma flag_cache_key_inject [simp]:
  "flag_cache_key k o1 u1 = flag_cache_key k' o2 u2 \<longleftrightarrow> k = k' \<and> o1 = o2 \<and> u1 = u2"
proof
  assume eq: "flag_cache_key k o1 u1 = flag_cache_key k' o2 u2"
  have bar: "CHR ''|'' \<notin> set (opt_text a)" for a using opt_text_chars [of "CHR ''|''" a] by auto
  have "(k @ ''|'' @ opt_text o1) @ CHR ''|'' # opt_text u1 = (k' @ ''|'' @ opt_text o2) @ CHR ''|'' # opt_text u2"
    using eq by (simp add: flag_cache_key_def)
  from digits_suffix_eq [OF this bar bar]
  have "k @ CHR ''|'' # opt_text o1 = k' @ CHR ''|'' # opt_text o2" "u1 = u2" by simp_all
  with digits_suffix_eq [OF this(1) bar bar] show "k = k' \<and> o1 = o2 \<and> u1 = u2" by simp
qed simp

definition flag_token :: "uuid option \<Rightarrow> uuid option \<Rightarrow> nat list \<Rightarrow> string" where
  "flag_token org user vs = join_comma (scope_texts (flag_scopes org user) vs)"

lemma length_three: "length vs = 3 \<Longrightarrow> \<exists>a b c. vs = [a, b, c]"
  by (auto simp: numeral_3_eq_3 length_Suc_conv)

lemma token_no_bracket: "length vs = 3 \<Longrightarrow> CHR '']'' \<notin> set (flag_token org user vs)"
  using opt_text_chars [of "CHR '']''"] nat_str_digits [of "CHR '']''"]
  by (auto simp: flag_token_def scope_texts_def flag_scopes_def dest!: length_three)

definition flag_entry :: "string \<Rightarrow> uuid option \<Rightarrow> uuid option \<Rightarrow> nat list \<Rightarrow> string" where
  "flag_entry key org user vs = scoped_key fflags_cache (flag_cache_key key org user) (flag_token org user vs)"

lemma flag_entry_inject:
  assumes "length vs = 3" "length ws = 3"
  shows "flag_entry k o1 u1 vs = flag_entry k' o2 u2 ws \<longleftrightarrow> k = k' \<and> o1 = o2 \<and> u1 = u2 \<and> vs = ws"
proof
  assume eq: "flag_entry k o1 u1 vs = flag_entry k' o2 u2 ws"
  have "flag_token o1 u1 vs @ CHR '']'' # '':'' @ flag_cache_key k o1 u1
      = flag_token o2 u2 ws @ CHR '']'' # '':'' @ flag_cache_key k' o2 u2"
    using eq by (simp add: flag_entry_def scoped_key_def)
  note parts = digits_prefix_eq [OF this token_no_bracket [OF assms(1)] token_no_bracket [OF assms(2)]]
  have t: "flag_token o1 u1 vs = flag_token o2 u2 ws" by (rule parts [THEN conjunct1])
  have k: "k = k' \<and> o1 = o2 \<and> u1 = u2" using parts [THEN conjunct2] by simp
  have "length (flag_scopes o1 u1) = 3" by (simp add: flag_scopes_def)
  with join_comma_scopes_inject [of vs "flag_scopes o1 u1" ws] assms t k have "vs = ws"
    by (simp add: flag_token_def)
  with k show "k = k' \<and> o1 = o2 \<and> u1 = u2 \<and> vs = ws" by simp
qed simp

section \<open>The invariant of the cache\<close>

definition flag_version :: "datetime \<Rightarrow> ttl_store \<Rightarrow> string \<Rightarrow> int" where
  "flag_version t st scope = json_int (ttl_view t st (version_key fflags_cache scope))"

definition flag_versions :: "datetime \<Rightarrow> ttl_store \<Rightarrow> uuid option \<Rightarrow> uuid option \<Rightarrow> nat list" where
  "flag_versions t st org user = map (\<lambda>scope. nat (flag_version t st scope)) (flag_scopes org user)"

text \<open>
  Until \<open>D\<close> the counters stand, no entry is stored ahead of them, and an entry stored under the
  present counters is what the tables give.
\<close>

definition flag_inv :: "(string \<Rightarrow> string) \<Rightarrow> datetime \<Rightarrow> datetime \<Rightarrow> 'a flags_db_scheme \<Rightarrow> bool" where
  "flag_inv digest D t s \<longleftrightarrow>
     (\<forall>t' scope. t \<le> t' \<longrightarrow> t' \<le> D \<longrightarrow> 0 \<le> flag_version t (cache_store s) scope
        \<and> flag_version t' (cache_store s) scope = flag_version t (cache_store s) scope)
     \<and> (\<forall>t' key org user vs v. t \<le> t' \<longrightarrow> t' \<le> D \<longrightarrow> length vs = 3
        \<longrightarrow> ttl_view t' (cache_store s) (flag_entry key org user vs) = Some v
        \<longrightarrow> list_all2 (\<le>) vs (flag_versions t (cache_store s) org user)
          \<and> (vs = flag_versions t (cache_store s) org user \<longrightarrow> evaluate digest key org user s = Inr (v = JStr ''1'')))"

lemma flag_versions_cong:
  "(\<And>scope. flag_version t st scope = flag_version t st' scope) \<Longrightarrow> flag_versions t st org user = flag_versions t st' org user"
  by (simp add: flag_versions_def)

lemma flag_scoped_read:
  "fst (get_scoped (ttl_backend t) fflags_cache st (flag_cache_key key org user) (flag_scopes org user))
     = (ttl_view t st (flag_entry key org user (flag_versions t st org user)),
        flag_token org user (flag_versions t st org user))"
  by (simp add: ttl.get_scoped_value flag_entry_def flag_token_def flag_versions_def flag_version_def
      ttl.scope_versions_def)

lemma length_versions [simp]: "length (flag_versions t st org user) = 3"
  by (simp add: flag_versions_def flag_scopes_def)

lemma evaluate_cache [simp]: "evaluate digest key org user (s\<lparr>cache_store := st\<rparr>) = evaluate digest key org user s"
  by (simp add: evaluate_def find_flag_def find_override_def)

lemma flag_invD:
  assumes "flag_inv digest D t s" and "t \<le> t'" "t' \<le> D"
  shows "0 \<le> flag_version t (cache_store s) scope"
    and "flag_version t' (cache_store s) scope = flag_version t (cache_store s) scope"
    and "length vs = 3 \<Longrightarrow> ttl_view t' (cache_store s) (flag_entry key org user vs) = Some v \<Longrightarrow>
      list_all2 (\<le>) vs (flag_versions t (cache_store s) org user)
      \<and> (vs = flag_versions t (cache_store s) org user \<longrightarrow> evaluate digest key org user s = Inr (v = JStr ''1''))"
  using assms unfolding flag_inv_def by blast+

lemma flag_invI:
  assumes "\<And>t' scope. t \<le> t' \<Longrightarrow> t' \<le> D \<Longrightarrow> 0 \<le> flag_version t (cache_store s) scope
        \<and> flag_version t' (cache_store s) scope = flag_version t (cache_store s) scope"
    and "\<And>t' key org user vs v. t \<le> t' \<Longrightarrow> t' \<le> D \<Longrightarrow> length vs = 3
        \<Longrightarrow> ttl_view t' (cache_store s) (flag_entry key org user vs) = Some v
        \<Longrightarrow> list_all2 (\<le>) vs (flag_versions t (cache_store s) org user)
          \<and> (vs = flag_versions t (cache_store s) org user \<longrightarrow> evaluate digest key org user s = Inr (v = JStr ''1''))"
  shows "flag_inv digest D t s"
  using assms unfolding flag_inv_def by blast

text \<open>What another name holds does not matter, and neither does the time that passes.\<close>

lemma flag_inv_same_view:
  assumes inv: "flag_inv digest D t s" and tu: "t \<le> u"
    and view: "\<And>t' k. u \<le> t' \<Longrightarrow> t' \<le> D \<Longrightarrow> ttl_view t' (cache_store s') k = ttl_view t' (cache_store s) k"
    and ev: "\<And>key org user. evaluate digest key org user s' = evaluate digest key org user s"
  shows "flag_inv digest D u s'"
proof (rule flag_invI)
  fix t' scope
  assume "u \<le> t'" "t' \<le> D"
  then show "0 \<le> flag_version u (cache_store s') scope
      \<and> flag_version t' (cache_store s') scope = flag_version u (cache_store s') scope"
    using flag_invD(1,2) [OF inv, of u] flag_invD(2) [OF inv, of t'] tu by (simp add: flag_version_def view)
next
  fix t' key org user vs v
  assume t': "u \<le> t'" "t' \<le> D" and len: "length vs = 3"
    and e: "ttl_view t' (cache_store s') (flag_entry key org user vs) = Some v"
  have "flag_versions u (cache_store s') org user = flag_versions t (cache_store s) org user"
    using flag_invD(2) [OF inv, of u] tu t' by (simp add: flag_versions_def flag_version_def view)
  then show "list_all2 (\<le>) vs (flag_versions u (cache_store s') org user)
      \<and> (vs = flag_versions u (cache_store s') org user \<longrightarrow> evaluate digest key org user s' = Inr (v = JStr ''1''))"
    using flag_invD(3) [OF inv _ t'(2) len, of key org user v] tu t' e by (simp add: view ev)
qed

text \<open>A fill stores what the tables give under the present counters.\<close>

lemma set_scoped_view:
  "now \<le> t \<Longrightarrow> k \<noteq> scoped_key c key token \<Longrightarrow>
     ttl_view t (set_scoped (ttl_backend now) c st key v token) k = ttl_view t st k"
  "now \<le> t \<Longrightarrow> ttl_view t (set_scoped (ttl_backend now) c st key v token) (scoped_key c key token) \<in> {None, Some v}"
  unfolding set_scoped_def by (rule ttl.set_frame, assumption+) (rule ttl.set_late)

lemma version_key_neq_entry [simp]: "version_key fflags_cache scope \<noteq> flag_entry key org user vs"
  by (simp add: flag_entry_def)

lemma flag_inv_fill:
  assumes inv: "flag_inv digest D t s" and ev: "evaluate digest key org user s = Inr b"
  shows "flag_inv digest D t (s\<lparr>cache_store := set_scoped (ttl_backend t) fflags_cache (cache_store s)
     (flag_cache_key key org user) (JStr (if b then ''1'' else ''0'')) (flag_token org user (flag_versions t (cache_store s) org user))\<rparr>)"
    (is "flag_inv digest D t (s\<lparr>cache_store := ?st\<rparr>)")
proof -
  let ?e = "flag_entry key org user (flag_versions t (cache_store s) org user)"
  have other: "ttl_view t' ?st k = ttl_view t' (cache_store s) k" if "t \<le> t'" "k \<noteq> ?e" for t' k
    using set_scoped_view(1) that by (simp add: flag_entry_def)
  have filled: "ttl_view t' ?st ?e \<in> {None, Some (JStr (if b then ''1'' else ''0''))}" if "t \<le> t'" for t'
    unfolding flag_entry_def by (rule set_scoped_view(2) [OF that])
  have ver: "flag_version t' ?st = flag_version t' (cache_store s)" if "t \<le> t'" for t'
    using that by (simp add: flag_version_def fun_eq_iff other)
  have vs: "flag_versions t ?st = flag_versions t (cache_store s)"
    by (intro ext flag_versions_cong) (simp add: ver)
  let ?s = "s\<lparr>cache_store := ?st\<rparr>"
  have cs: "cache_store ?s = ?st" by simp
  show ?thesis
  proof (rule flag_invI)
    fix t' scope
    assume "t \<le> t'" "t' \<le> D"
    then show "0 \<le> flag_version t (cache_store ?s) scope
        \<and> flag_version t' (cache_store ?s) scope = flag_version t (cache_store ?s) scope"
      unfolding cs using flag_invD(1,2) [OF inv, of t'] by (simp add: ver)
  next
    fix t' k o2 u2 ws v
    assume t': "t \<le> t'" "t' \<le> D" and len: "length ws = 3" and "ttl_view t' (cache_store ?s) (flag_entry k o2 u2 ws) = Some v"
    then have e: "ttl_view t' ?st (flag_entry k o2 u2 ws) = Some v" unfolding cs by simp
    show "list_all2 (\<le>) ws (flag_versions t (cache_store ?s) o2 u2)
      \<and> (ws = flag_versions t (cache_store ?s) o2 u2 \<longrightarrow> evaluate digest k o2 u2 ?s = Inr (v = JStr ''1''))"
    proof (cases "flag_entry k o2 u2 ws = ?e")
      case True
      then have "k = key" "o2 = org" "u2 = user" "ws = flag_versions t (cache_store s) org user"
        using flag_entry_inject [OF len length_versions] by simp_all
      moreover have "v = JStr (if b then ''1'' else ''0'')" using e filled [OF t'(1)] True by auto
      ultimately show ?thesis unfolding cs vs evaluate_cache using ev by (simp add: list_all2_refl)
    next
      case False
      then have "ttl_view t' (cache_store s) (flag_entry k o2 u2 ws) = Some v" using e other [OF t'(1)] by simp
      then show ?thesis unfolding cs vs evaluate_cache by (rule flag_invD(3) [OF inv t' len])
    qed
  qed
qed

text \<open>An invalidation hides every entry of its scope; for the others the tables must not have changed.\<close>

lemma bumped_version:
  assumes "t \<le> t'" "t' \<le> t + seconds VERSION_TTL_SECONDS"
  shows "flag_version t' (snd (bump (ttl_backend t) fflags_cache st scope)) sc
    = (if sc = scope then flag_version t st sc + 1 else flag_version t' st sc)"
  using ttl.bump_live [OF assms] ttl.bump_frame [OF assms(1), of "version_key fflags_cache sc" fflags_cache scope st]
  by (simp add: flag_version_def json_int_def)

lemma flag_inv_bump:
  assumes inv: "flag_inv digest D t s" and D: "D \<le> t + seconds VERSION_TTL_SECONDS"
    and cs: "cache_store s' = snd (bump (ttl_backend t) fflags_cache (cache_store s) scope)"
    and ev: "\<And>key org user. scope \<notin> set (flag_scopes org user)
      \<Longrightarrow> evaluate digest key org user s' = evaluate digest key org user s"
  shows "flag_inv digest D t s'"
proof (rule flag_invI)
  fix t' sc
  assume t': "t \<le> t'" "t' \<le> D"
  then show "0 \<le> flag_version t (cache_store s') sc \<and> flag_version t' (cache_store s') sc = flag_version t (cache_store s') sc"
    unfolding cs using flag_invD(1,2) [OF inv t'] D by (simp add: bumped_version)
next
  fix t' key org user vs v
  assume t': "t \<le> t'" "t' \<le> D" and len: "length vs = 3"
    and e: "ttl_view t' (cache_store s') (flag_entry key org user vs) = Some v"
  let ?old = "flag_versions t (cache_store s) org user" and ?new = "flag_versions t (cache_store s') org user"
  have old: "ttl_view t' (cache_store s) (flag_entry key org user vs) = Some v"
    using e ttl.bump_frame [OF t'(1)] version_key_neq_entry unfolding cs by metis
  note was = flag_invD(3) [OF inv t' len old]
  have bumped: "flag_version t (cache_store s') sc = (if sc = scope then flag_version t (cache_store s) sc + 1
      else flag_version t (cache_store s) sc)" for sc
    unfolding cs using t' D by (simp add: bumped_version seconds_def VERSION_TTL_SECONDS_def)
  have le: "list_all2 (\<le>) ?old ?new"
    by (auto simp: flag_versions_def bumped list_all2_conv_all_nth intro!: nat_mono)
  then have "list_all2 (\<le>) vs ?new" using was list_all2_trans [of "(\<le>)" "(\<le>)" "(\<le>)" vs ?old ?new] by fastforce
  moreover have "evaluate digest key org user s' = Inr (v = JStr ''1'')" if eq: "vs = ?new"
  proof -
    have "list_all2 (\<le>) ?new ?old" using was eq by simp
    from list_all2_antisym [OF _ le this] have "?old = ?new" by simp
    then have "scope \<notin> set (flag_scopes org user)"
      using flag_invD(1) [OF inv order_refl, of scope] t' by (auto simp: flag_versions_def bumped map_eq_conv)
    then show ?thesis using was eq ev \<open>?old = ?new\<close> by simp
  qed
  ultimately show "list_all2 (\<le>) vs ?new \<and> (vs = ?new \<longrightarrow> evaluate digest key org user s' = Inr (v = JStr ''1''))" by blast
qed

text \<open>A read leaves the answer of the tables and the invariant.\<close>

lemma is_enabled_current:
  assumes inv: "flag_inv digest D t s" and "t \<le> D" and run: "is_enabled digest t key org user s = Inr (b, s')"
  shows "evaluate digest key org user s = Inr b \<and> flag_inv digest D t s'"
proof -
  let ?r = "get_scoped (ttl_backend t) fflags_cache (cache_store s) (flag_cache_key key org user) (flag_scopes org user)"
  let ?vs = "flag_versions t (cache_store s) org user" and ?st = "snd ?r"
  obtain cached token st where r: "?r = ((cached, token), st)" by (metis surj_pair)
  have c: "cached = ttl_view t (cache_store s) (flag_entry key org user ?vs)" and tok: "token = flag_token org user ?vs"
    using flag_scoped_read [of t "cache_store s" key org user] r by simp_all
  have same: "ttl_view t' st k = ttl_view t' (cache_store s) k" if "t \<le> t'" for t' k
    using ttl.get_scoped_frame [OF that, of fflags_cache "cache_store s" "flag_cache_key key org user" "flag_scopes org user"] r
    by simp
  have inv1: "flag_inv digest D t (s\<lparr>cache_store := st\<rparr>)"
    by (rule flag_inv_same_view [OF inv order_refl]) (simp_all add: same)
  show ?thesis
  proof (cases cached)
    case (Some v)
    then have "b = (v = JStr ''1'')" "s' = s\<lparr>cache_store := st\<rparr>" using run r by (auto simp: is_enabled_def)
    then show ?thesis using inv1 flag_invD(3) [OF inv order_refl assms(2) length_versions, where key = key and org = org and user = user and v = v] c Some by simp
  next
    case None
    then have ev: "evaluate digest key org user s = Inr b"
      and s': "s' = s\<lparr>cache_store := set_scoped (ttl_backend t) fflags_cache st (flag_cache_key key org user)
          (JStr (if b then ''1'' else ''0'')) token\<rparr>"
      using run r by (auto simp: is_enabled_def bind_r_eq_Inr)
    have "?vs = flag_versions t st org user" by (rule flag_versions_cong) (simp add: flag_version_def same)
    then show ?thesis using ev flag_inv_fill [OF inv1, of key org user b] s' tok by simp
  qed
qed

section \<open>The operations keep the invariant\<close>

text \<open>The overrides a resolution looks at.\<close>

definition override_in :: "uuid option \<Rightarrow> uuid option \<Rightarrow> flag_override \<Rightarrow> bool" where
  "override_in org user r \<longleftrightarrow>
     (user \<noteq> None \<and> fo_user_id r = user) \<or> (org \<noteq> None \<and> fo_organization_id r = org \<and> fo_user_id r = None)"

lemma one_or_none_filter:
  "(\<And>r. P r \<Longrightarrow> Q r) \<Longrightarrow> filter Q xs = filter Q ys \<Longrightarrow> one_or_none e P xs = one_or_none e P ys"
proof -
  assume imp: "\<And>r. P r \<Longrightarrow> Q r" and eq: "filter Q xs = filter Q ys"
  have "filter P zs = filter P (filter Q zs)" for zs using imp by (auto intro!: filter_cong)
  then have "filter P xs = filter P ys" using eq by metis
  then show ?thesis by (simp add: one_or_none_def)
qed

lemma evaluate_other_rows:
  assumes "feature_flags s' = feature_flags s"
    and "filter (override_in org user) (flag_overrides s') = filter (override_in org user) (flag_overrides s)"
  shows "evaluate digest key org user s' = evaluate digest key org user s"
proof -
  have o1: "find_override key None user s' = find_override key None user s"
    using one_or_none_filter [OF _ assms(2), where P = "\<lambda>r. fo_flag_key r = key \<and> fo_user_id r = user"]
    by (cases user) (simp_all add: find_override_def override_in_def)
  have o2: "find_override key org None s' = find_override key org None s"
    using one_or_none_filter [OF _ assms(2),
        where P = "\<lambda>r. fo_flag_key r = key \<and> fo_organization_id r = org \<and> fo_user_id r = None"]
    by (cases org) (simp_all add: find_override_def override_in_def)
  show ?thesis unfolding evaluate_def find_flag_def assms(1) o1 o2 ..
qed

lemma flags_invalidate_fields [simp]:
  "cache_store (flags_invalidate now scope s) = snd (bump (ttl_backend now) fflags_cache (cache_store s) scope)"
  "feature_flags (flags_invalidate now scope s) = feature_flags s"
  "flag_overrides (flags_invalidate now scope s) = flag_overrides s"
  "next_uuid (flags_invalidate now scope s) = next_uuid s"
  by (simp_all add: flags_invalidate_def bump_and_defer_def defer_bump_s_def)

lemma evaluate_invalidate [simp]:
  "evaluate digest key org user (flags_invalidate now scope s) = evaluate digest key org user s"
  by (rule evaluate_other_rows) simp_all

lemma bump_scope_inv:
  assumes inv: "flag_inv digest D t s" and D: "D \<le> t + seconds VERSION_TTL_SECONDS"
    and tab: "feature_flags s1 = feature_flags s" "cache_store s1 = cache_store s"
    and rows: "\<And>o' u'. \<not> (if user \<noteq> None then u' = user else org \<noteq> None \<and> o' = org)
      \<Longrightarrow> filter (override_in o' u') (flag_overrides s1) = filter (override_in o' u') (flag_overrides s)"
  shows "flag_inv digest D t (bump_scope t org user s1)"
proof -
  have ev: "evaluate digest key o' u' s1 = evaluate digest key o' u' s"
    if "\<not> (if user \<noteq> None then u' = user else org \<noteq> None \<and> o' = org)" for key o' u'
    using evaluate_other_rows [OF tab(1) rows [OF that]] .
  let ?org = "''org:'' @ opt_text org" and ?user = "''user:'' @ opt_text user"
  consider "org = None" "user = None" | "org \<noteq> None" "user = None" | "org = None" "user \<noteq> None" | "org \<noteq> None" "user \<noteq> None" by blast
  then show ?thesis
  proof cases
    case 1
    then show ?thesis using flag_inv_same_view [OF inv order_refl, of s1] ev tab(2) by (simp add: bump_scope_def)
  next
    case 2
    then show ?thesis using flag_inv_bump [OF inv D, of "bump_scope t org user s1" ?org] ev tab(2)
      by (simp add: bump_scope_def flag_scopes_def)
  next
    case 3
    then show ?thesis using flag_inv_bump [OF inv D, of "bump_scope t org user s1" ?user] ev tab(2)
      by (simp add: bump_scope_def flag_scopes_def)
  next
    case 4
    have "flag_inv digest D t (flags_invalidate t ?org s)" by (rule flag_inv_bump [OF inv D]) simp_all
    from flag_inv_bump [OF this D, of "bump_scope t org user s1" ?user] 4 ev tab(2) show ?thesis
      by (simp add: bump_scope_def flag_scopes_def)
  qed
qed

definition flags_ok :: "'a flags_db_scheme \<Rightarrow> bool" where
  "flags_ok s \<longleftrightarrow> distinct (map fo_id (flag_overrides s)) \<and> (\<forall>r\<in>set (flag_overrides s). fo_id r < next_uuid s)
     \<and> list_all (\<lambda>(c, _). c = fflags_cache) (deferred_bumps s)"

lemma deferred_flags [simp]:
  "list_all (\<lambda>(c, _). c = fflags_cache) (deferred_bumps (flags_invalidate now scope s))
     \<longleftrightarrow> list_all (\<lambda>(c, _). c = fflags_cache) (deferred_bumps s)"
  by (auto simp: list_all_iff flags_invalidate_def bump_and_defer_def defer_bump_s_def defer_bump_def)

lemma bump_scope_fields [simp]:
  "flag_overrides (bump_scope now org user s) = flag_overrides s"
  "feature_flags (bump_scope now org user s) = feature_flags s"
  "next_uuid (bump_scope now org user s) = next_uuid s"
  "list_all (\<lambda>(c, _). c = fflags_cache) (deferred_bumps (bump_scope now org user s))
     \<longleftrightarrow> list_all (\<lambda>(c, _). c = fflags_cache) (deferred_bumps s)"
  by (simp_all add: bump_scope_def Let_def)

lemma flush_flag_fields:
  "flush_flag f s = Inr s' \<Longrightarrow> cache_store s' = cache_store s \<and> flag_overrides s' = flag_overrides s \<and> next_uuid s' = next_uuid s
     \<and> deferred_bumps s' = deferred_bumps s"
  by (auto simp: flush_flag_def bind_r_eq_Inr)

lemma flag_change_inv:
  assumes inv: "flag_inv digest D t s" and D: "D \<le> t + seconds VERSION_TTL_SECONDS" and ids: "flags_ok s"
  shows "create_flag t key name descr enabled rollout s = Inr (f, s') \<Longrightarrow> flag_inv digest D t s' \<and> flags_ok s'"
    and "update_flag t key on rollout s = Inr (f, s') \<Longrightarrow> flag_inv digest D t s' \<and> flags_ok s'"
proof -
  have all: "flag_inv digest D t (flags_invalidate t ''all'' s1)" if "cache_store s1 = cache_store s" for s1
    by (rule flag_inv_bump [OF inv D, of _ "''all''"]) (simp_all add: that flag_scopes_def)
  show "create_flag t key name descr enabled rollout s = Inr (f, s') \<Longrightarrow> flag_inv digest D t s' \<and> flags_ok s'"
    using ids by (auto simp: create_flag_def bind_r_eq_Inr Let_def flags_ok_def less_Suc_eq dest!: flush_flag_fields intro!: all)
  show "update_flag t key on rollout s = Inr (f, s') \<Longrightarrow> flag_inv digest D t s' \<and> flags_ok s'"
    using ids by (auto simp: update_flag_def bind_r_eq_Inr Let_def flags_ok_def dest!: flush_flag_fields intro!: all)
qed

lemma filter_update_row:
  assumes "\<And>x. x \<in> set rows \<Longrightarrow> P x \<Longrightarrow> \<not> Q x \<and> \<not> Q (f x)"
  shows "filter Q (update_where P f rows) = filter Q rows"
  using assms by (induction rows) (auto simp: update_where_def)

lemma override_change_inv:
  assumes inv: "flag_inv digest D t s" and D: "D \<le> t + seconds VERSION_TTL_SECONDS" and ids: "flags_ok s"
  shows "set_override t key org user on note s = Inr (r, s') \<Longrightarrow> flag_inv digest D t s' \<and> flags_ok s'"
    and "delete_override t i s = Inr s' \<Longrightarrow> flag_inv digest D t s' \<and> flags_ok s'"
proof -
  have same: "x = y" if "x \<in> set (flag_overrides s)" "y \<in> set (flag_overrides s)" "fo_id x = fo_id y" for x y
    using ids that by (auto simp: flags_ok_def distinct_map dest: inj_onD)
  assume "set_override t key org user on note s = Inr (r, s')"
  then obtain existing where one: "(org = None) \<noteq> (user = None)" and ex: "find_override key org user s = Inr existing"
    and run: "(case existing of
         Some r0 \<Rightarrow>
           let r = r0\<lparr>fo_enabled := on, fo_note := note\<rparr>
           in Inr (r, bump_scope t org user
                (s\<lparr>flag_overrides := update_where (\<lambda>x. fo_id x = fo_id r0) (\<lambda>_. r) (flag_overrides s)\<rparr>))
       | None \<Rightarrow>
           let r = \<lparr>fo_id = next_uuid s, fo_flag_key = key, fo_organization_id = org, fo_user_id = user,
                    fo_enabled = on, fo_note = note, fo_created_at = tx_now s\<rparr>
           in bind_r (guard_r (override_keys_exist org user s) IntegrityError) (\<lambda>_.
                Inr (r, bump_scope t org user
                  (s\<lparr>next_uuid := Suc (next_uuid s), flag_overrides := flag_overrides s @ [r]\<rparr>)))) = Inr (r, s')"
    by (auto simp: set_override_def bind_r_eq_Inr)
  show "flag_inv digest D t s' \<and> flags_ok s'"
  proof (cases existing)
    case None
    then have r: "r = \<lparr>fo_id = next_uuid s, fo_flag_key = key, fo_organization_id = org, fo_user_id = user,
                    fo_enabled = on, fo_note = note, fo_created_at = tx_now s\<rparr>"
      and s': "s' = bump_scope t org user (s\<lparr>next_uuid := Suc (next_uuid s), flag_overrides := flag_overrides s @ [r]\<rparr>)"
      using run by (auto simp: bind_r_eq_Inr Let_def)
    have "flag_inv digest D t s'" unfolding s'
      by (rule bump_scope_inv [OF inv D]) (use one in \<open>auto simp: override_in_def r\<close>)
    moreover have "flags_ok s'" using ids unfolding s' by (auto simp: flags_ok_def r)
    ultimately show ?thesis ..
  next
    case (Some r0)
    then have r: "r = r0\<lparr>fo_enabled := on, fo_note := note\<rparr>"
      and s': "s' = bump_scope t org user
                (s\<lparr>flag_overrides := update_where (\<lambda>x. fo_id x = fo_id r0) (\<lambda>_. r) (flag_overrides s)\<rparr>)"
      using run by (auto simp: Let_def)
    have mem: "r0 \<in> set (flag_overrides s)"
      and at: "if user \<noteq> None then fo_user_id r0 = user else fo_organization_id r0 = org \<and> fo_user_id r0 = None"
      using ex one Some by (auto simp: find_override_def dest!: one_or_none_SomeD split: if_splits)
    have rows: "filter (override_in o' u') (update_where (\<lambda>x. fo_id x = fo_id r0) (\<lambda>_. r) (flag_overrides s))
        = filter (override_in o' u') (flag_overrides s)"
      if "\<not> (if user \<noteq> None then u' = user else org \<noteq> None \<and> o' = org)" for o' u'
    proof (intro filter_update_row)
      fix x assume "x \<in> set (flag_overrides s)" "fo_id x = fo_id r0"
      then have "x = r0" by (rule same [OF _ mem])
      then show "\<not> override_in o' u' x \<and> \<not> override_in o' u' r"
        using that at one by (auto simp: override_in_def r split: if_splits)
    qed
    have inv': "flag_inv digest D t s'" unfolding s' by (rule bump_scope_inv [OF inv D]) (simp_all add: rows)
    have "map fo_id (update_where (\<lambda>x. fo_id x = fo_id r0) (\<lambda>_. r) (flag_overrides s)) = map fo_id (flag_overrides s)"
      by (simp add: update_where_def r)
    moreover have "\<forall>x\<in>set (update_where (\<lambda>x. fo_id x = fo_id r0) (\<lambda>_. r) (flag_overrides s)). fo_id x < next_uuid s"
      using ids mem by (auto simp: flags_ok_def update_where_def r)
    ultimately have "flags_ok s'" using ids unfolding s' by (simp add: flags_ok_def)
    with inv' show ?thesis ..
  qed
next
  assume "delete_override t i s = Inr s'"
  then obtain r where r: "first_row (\<lambda>r. fo_id r = i) (flag_overrides s) = Some r"
    and s': "s' = bump_scope t (fo_organization_id r) (fo_user_id r)
          (s\<lparr>flag_overrides := delete_where (\<lambda>x. fo_id x = i) (flag_overrides s)\<rparr>)"
    by (auto simp: delete_override_def split: option.splits)
  have mem: "r \<in> set (flag_overrides s)" "fo_id r = i" using first_row_SomeD [OF r] by simp_all
  have same: "x = r" if "x \<in> set (flag_overrides s)" "fo_id x = i" for x
    using ids that mem by (auto simp: flags_ok_def distinct_map dest: inj_onD)
  have "flag_inv digest D t s'" unfolding s'
    by (rule bump_scope_inv [OF inv D])
      (use same in \<open>auto simp: delete_where_def override_in_def intro!: filter_cong split: if_splits\<close>)
  moreover have "flags_ok s'"
    using ids unfolding s' by (auto simp: flags_ok_def delete_where_def distinct_map inj_on_def)
  ultimately show "flag_inv digest D t s' \<and> flags_ok s'" ..
qed

text \<open>The invalidations that run after a commit.\<close>

lemma flush_bumps_inv:
  assumes "D \<le> t + seconds VERSION_TTL_SECONDS" and "list_all (\<lambda>(c, _). c = fflags_cache) pending"
  shows "flag_inv digest D t s \<Longrightarrow>
    flag_inv digest D t (s\<lparr>cache_store := snd (flush_deferred_bumps (ttl_backend t) pending (cache_store s)), deferred_bumps := []\<rparr>)"
  using assms(2)
proof (induction pending arbitrary: s)
  case Nil
  then show ?case using flag_inv_same_view [OF Nil(1) order_refl, of "s\<lparr>deferred_bumps := []\<rparr>"]
      evaluate_other_rows [of "s\<lparr>deferred_bumps := []\<rparr>" s] by simp
next
  case (Cons x pending)
  obtain k where x: "x = (fflags_cache, k)" using Cons.prems(2) by (cases x) auto
  let ?s = "s\<lparr>cache_store := snd (bump (ttl_backend t) fflags_cache (cache_store s) k)\<rparr>"
  have "flag_inv digest D t ?s" by (rule flag_inv_bump [OF Cons.prems(1) assms(1)]) simp_all
  from Cons.IH [OF this] Cons.prems(2) show ?case by (simp add: x Let_def case_prod_unfold)
qed

section \<open>Runs\<close>

text \<open>
  Requests on flags, each in its own transaction, as time passes; the \<open>commit\<close> step runs the
  invalidations a request left pending.
\<close>

inductive flag_step :: "(string \<Rightarrow> string) \<Rightarrow> datetime \<times> 'a flags_db_scheme \<Rightarrow> datetime \<times> 'a flags_db_scheme \<Rightarrow> bool"
  for digest where
  time_passes: "t \<le> u \<Longrightarrow> flag_step digest (t, s) (u, s)"
| checked: "is_enabled digest t key org user s = Inr (b, s') \<Longrightarrow> flag_step digest (t, s) (t, s')"
| created: "create_flag t key name descr enabled rollout s = Inr (f, s') \<Longrightarrow> flag_step digest (t, s) (t, s')"
| updated: "update_flag t key on rollout s = Inr (f, s') \<Longrightarrow> flag_step digest (t, s) (t, s')"
| overridden: "set_override t key org user enabled note s = Inr (r, s') \<Longrightarrow> flag_step digest (t, s) (t, s')"
| released: "delete_override t i s = Inr s' \<Longrightarrow> flag_step digest (t, s) (t, s')"
| commits: "flag_step digest (t, s) (t, s\<lparr>cache_store :=
      snd (flush_deferred_bumps (ttl_backend t) (deferred_bumps s) (cache_store s)), deferred_bumps := []\<rparr>)"

lemma is_enabled_fields:
  "is_enabled digest t key org user s = Inr (b, s') \<Longrightarrow> flag_overrides s' = flag_overrides s
     \<and> next_uuid s' = next_uuid s \<and> deferred_bumps s' = deferred_bumps s"
  by (auto simp: is_enabled_def bind_r_eq_Inr Let_def split: prod.splits option.splits)

lemma flag_step_clock: "flag_step digest (t, s) (u, s') \<Longrightarrow> t \<le> u"
  by (cases rule: flag_step.cases) auto

lemma flag_step_inv:
  assumes "flag_step digest (t, s) (u, s')" and "flag_inv digest D t s" and "flags_ok s"
    and "D \<le> t + seconds VERSION_TTL_SECONDS" and "u \<le> D"
  shows "flag_inv digest D u s' \<and> flags_ok s'"
  using assms(1)
proof cases
  case time_passes
  then show ?thesis using flag_inv_same_view [OF assms(2), of u s] assms(3) by simp
next
  case (checked key org user b)
  then show ?thesis using is_enabled_current [OF assms(2) _ checked(2)] is_enabled_fields [OF checked(2)] assms(3,5)
    by (simp add: flags_ok_def)
next
  case commits
  then show ?thesis using flush_bumps_inv [OF assms(4) _ assms(2), of "deferred_bumps s"] assms(3) by (simp add: flags_ok_def)
next
  case (created key name descr enabled rollout f)
  then show ?thesis using flag_change_inv(1) [OF assms(2,4,3)] by simp
next
  case (updated key on rollout f)
  then show ?thesis using flag_change_inv(2) [OF assms(2,4,3)] by simp
next
  case (overridden key org user enabled why r)
  then show ?thesis using override_change_inv(1) [OF assms(2,4,3)] by simp
next
  case (released i)
  then show ?thesis using override_change_inv(2) [OF assms(2,4,3)] by simp
qed

lemma flag_run_inv:
  assumes "(flag_step digest)\<^sup>*\<^sup>* (t0, s0) (t, s)" and "cache_store s0 = Map.empty" and "flags_ok s0"
    and "t \<le> D" and "D \<le> t0 + seconds VERSION_TTL_SECONDS"
  shows "t0 \<le> t \<and> flag_inv digest D t s \<and> flags_ok s"
  using assms(1,4)
proof (induction "(t, s)" arbitrary: t s rule: rtranclp_induct)
  case base
  then show ?case using assms(2,3) by (simp add: flag_inv_def flag_version_def ttl_view_def json_int_def)
next
  case (step y)
  obtain u r where y: "y = (u, r)" by (cases y)
  have "u \<le> t" using flag_step_clock step.hyps(2) unfolding y by blast
  then have "t0 \<le> u \<and> flag_inv digest D u r \<and> flags_ok r" using step.hyps(3) [OF y] step.prems by simp
  moreover from this have "D \<le> u + seconds VERSION_TTL_SECONDS" using assms(5) by simp
  ultimately show ?case using flag_step_inv step.hyps(2) step.prems \<open>u \<le> t\<close> unfolding y by (metis order_trans)
qed


text \<open>A stored override is the only one of its scope.\<close>

lemma set_override_row:
  assumes "set_override t key None (Some u) on why s = Inr (r, s')" and "flags_ok s"
  shows "find_override key None (Some u) s' = Inr (Some r) \<and> fo_enabled r = on \<and> feature_flags s' = feature_flags s
    \<and> (\<exists>f. find_flag key s = Inr (Some f))
    \<and> (\<forall>org user. user \<noteq> Some u \<longrightarrow>
        filter (override_in org user) (flag_overrides s') = filter (override_in org user) (flag_overrides s))"
proof -
  let ?P = "\<lambda>r. fo_flag_key r = key \<and> fo_user_id r = Some u"
  from assms(1) obtain existing where ex: "one_or_none MultipleResultsFound ?P (flag_overrides s) = Inr existing"
    and run: "(case existing of
         Some r0 \<Rightarrow> r = r0\<lparr>fo_enabled := on, fo_note := why\<rparr> \<and> s' = bump_scope t None (Some u)
                (s\<lparr>flag_overrides := update_where (\<lambda>x. fo_id x = fo_id r0) (\<lambda>_. r) (flag_overrides s)\<rparr>)
       | None \<Rightarrow> r = \<lparr>fo_id = next_uuid s, fo_flag_key = key, fo_organization_id = None, fo_user_id = Some u,
                    fo_enabled = on, fo_note = why, fo_created_at = tx_now s\<rparr>
           \<and> s' = bump_scope t None (Some u) (s\<lparr>next_uuid := Suc (next_uuid s), flag_overrides := flag_overrides s @ [r]\<rparr>))"
    by (auto simp: set_override_def find_override_def bind_r_eq_Inr Let_def split: option.splits)
  have live: "\<exists>f. find_flag key s = Inr (Some f)"
    using assms(1) by (auto simp: set_override_def live_flag_def bind_r_eq_Inr split: option.splits)
  show ?thesis
  proof (cases existing)
    case None
    then show ?thesis using ex run live by (auto simp: find_override_def one_or_none_def override_in_def split: list.splits)
  next
    case (Some r0)
    then have r: "r = r0\<lparr>fo_enabled := on, fo_note := why\<rparr>"
      and s': "s' = bump_scope t None (Some u)
                (s\<lparr>flag_overrides := update_where (\<lambda>x. fo_id x = fo_id r0) (\<lambda>_. r) (flag_overrides s)\<rparr>)"
      using run by simp_all
    have r0: "r0 \<in> set (flag_overrides s)" "?P r0" and only: "filter ?P (flag_overrides s) = [r0]"
      using ex Some one_or_none_SomeD [OF ex [unfolded Some]] by (auto simp: one_or_none_def split: list.splits)
    have d: "distinct (map fo_id (flag_overrides s))" using assms(2) by (simp add: flags_ok_def)
    from replace_row_split [OF d r0(1), of r] obtain a b where ab: "flag_overrides s = a @ r0 # b"
      "update_where (\<lambda>x. fo_id x = fo_id r) (\<lambda>_. r) (flag_overrides s) = a @ r # b" by (auto simp: r)
    have "filter ?P a = [] \<and> filter ?P b = []" using only r0(2) unfolding ab(1)
      by (auto simp: filter_empty_conv append_eq_Cons_conv split: if_splits)
    moreover have "?P r" using r0(2) by (simp add: r)
    moreover have "fo_id r = fo_id r0" by (simp add: r)
    ultimately have "filter ?P (update_where (\<lambda>x. fo_id x = fo_id r0) (\<lambda>_. r) (flag_overrides s)) = [r]"
      using ab(2) by simp
    moreover have "fo_user_id r = Some u" "fo_user_id r0 = Some u" using r0(2) by (simp_all add: r)
    ultimately show ?thesis using live ab \<open>fo_id r = fo_id r0\<close> unfolding s'
      by (simp add: find_override_def one_or_none_def override_in_def) (simp add: r)
  qed
qed

text \<open>
  An override for a user decides the flag for that user in every organization, whatever the
  rollout, the default and the organization's override say; nobody else's answer changes.
\<close>

theorem user_override_decides:
  assumes "set_override t key None (Some u) on why s = Inr (r, s')" and "flags_ok s"
  shows "evaluate digest key org (Some u) s' = Inr on
    \<and> (user \<noteq> Some u \<longrightarrow> evaluate digest k org user s' = evaluate digest k org user s)"
proof -
  note row = set_override_row [OF assms]
  then obtain f where "find_flag key s' = Inr (Some f)" by (auto simp: find_flag_def)
  then have "evaluate digest key org (Some u) s' = Inr on" using row by (simp add: evaluate_def)
  moreover have "evaluate digest k org user s' = evaluate digest k org user s" if "user \<noteq> Some u"
    using row that by (intro evaluate_other_rows) blast+
  ultimately show ?thesis by blast
qed

text \<open>
  A rollout is a fixed order of admission: every identifier has one bucket, nobody is in at zero and
  everybody at a hundred percent, and raising the percentage never takes the flag away from anyone.
\<close>

theorem rollout_only_grows:
  assumes "p \<le> q"
  shows "0 \<le> bucket_of digest key i \<and> bucket_of digest key i < BUCKETS
    \<and> (in_rollout digest key i p \<longrightarrow> in_rollout digest key i q)
    \<and> \<not> in_rollout digest key i ROLLOUT_PERCENT_MIN \<and> in_rollout digest key i ROLLOUT_PERCENT_MAX"
proof -
  have b: "0 \<le> bucket_of digest key i" "bucket_of digest key i < BUCKETS" by (simp_all add: bucket_of_def BUCKETS_def)
  moreover have "BUCKETS * p div 100 \<le> BUCKETS * q div 100"
    using assms by (intro zdiv_mono1) (simp_all add: BUCKETS_def)
  ultimately show ?thesis
    by (auto simp: in_rollout_def ROLLOUT_PERCENT_MIN_def ROLLOUT_PERCENT_MAX_def)
qed

text \<open>
  A flag with a rollout percentage is not switched off by setting \<open>enabled\<close> to false, nor can the
  percentage be removed: the update leaves every evaluation as it was.
\<close>

theorem rollout_ignores_switch:
  assumes "update_flag t key (Some on) None s = Inr (f, s')" and "find_flag key s = Inr (Some f0)"
    and "ff_rollout_percentage f0 = Some p" and "distinct (map ff_id (feature_flags s))"
  shows "evaluate digest key org user s' = evaluate digest key org user s"
proof -
  let ?P = "\<lambda>f. ff_key f = key \<and> ff_archived_at f = None" and ?f = "f0\<lparr>ff_enabled := on\<rparr>"
  have f0: "f0 \<in> set (feature_flags s)" "?P f0" and only: "filter ?P (feature_flags s) = [f0]"
    using assms(2) one_or_none_SomeD [OF assms(2) [unfolded find_flag_def]]
    by (auto simp: find_flag_def one_or_none_def split: list.splits)
  have run: "\<exists>s1. flush_flag ?f s = Inr s1 \<and> s' = flags_invalidate t ''all'' s1"
  proof -
    have "bind_r (flush_flag ?f s) (\<lambda>s1. Inr (?f, flags_invalidate t ''all'' s1)) = Inr (f, s')"
      using assms(1,2) f0(2) by (simp add: update_flag_def live_flag_def Let_def)
    then show ?thesis by (cases "flush_flag ?f s") simp_all
  qed
  then obtain s1 where s1: "flush_flag ?f s = Inr s1" "s' = flags_invalidate t ''all'' s1" by blast
  have "\<exists>x\<in>set (feature_flags s). ff_id x = ff_id ?f" using f0(1) by auto
  with s1(1) have "s1 = s\<lparr>feature_flags := update_where (\<lambda>x. ff_id x = ff_id ?f) (\<lambda>_. ?f) (feature_flags s)\<rparr>"
    unfolding flush_flag_def bind_r_eq_Inr by (simp split: if_splits)
  then have tab: "feature_flags s' = update_where (\<lambda>x. ff_id x = ff_id ?f) (\<lambda>_. ?f) (feature_flags s)"
    and ov: "flag_overrides s' = flag_overrides s"
    by (simp_all add: s1(2))
  from replace_row_split [OF assms(4) f0(1), of ?f] obtain a b where ab: "feature_flags s = a @ f0 # b"
    "feature_flags s' = a @ ?f # b" using tab by auto
  have "filter ?P a = [] \<and> filter ?P b = []" using only f0(2) unfolding ab(1)
    by (auto simp: filter_empty_conv append_eq_Cons_conv split: if_splits)
  then have new: "find_flag key s' = Inr (Some ?f)" using f0(2) ab(2) by (simp add: find_flag_def one_or_none_def)
  have "find_override k o' u' s' = find_override k o' u' s" for k o' u' by (simp add: find_override_def ov)
  moreover have "flag_default digest ?f org user = flag_default digest f0 org user"
    using assms(3) by (simp add: flag_default_def)
  ultimately show ?thesis using new assms(2) unfolding evaluate_def by simp
qed

section \<open>A concrete flag\<close>

definition demo_flag :: feature_flag where
  "demo_flag = \<lparr>ff_id = 17, ff_key = ''beta'', ff_name = ''Beta'', ff_description = None, ff_enabled = True,
     ff_rollout_percentage = Some 50, ff_archived_at = None\<rparr>"

definition demo_flags :: flags_db where
  "demo_flags = access_db.extend demo_access \<lparr>feature_flags = [demo_flag], flag_overrides = []\<rparr>"

lemma demo_flags_fields [simp]:
  "feature_flags demo_flags = [demo_flag]" "flag_overrides demo_flags = []" "users demo_flags = [demo_user]"
  "cache_store demo_flags = Map.empty" "next_uuid demo_flags = 20" "deferred_bumps demo_flags = []"
  by (simp_all add: demo_flags_def demo_access_def demo_ident_def demo_auth_def demo_usage_def demo_ents_def demo_sub_simps
      sub_db.defs ent_db.defs usage_db.defs acct_db.defs auth_db.defs ident_db.defs access_db.defs)

lemma demo_flags_ok [simp]: "flags_ok demo_flags"
  by (simp add: flags_ok_def)

lemma demo_override: "\<exists>r s'. set_override 0 ''beta'' None (Some 5) True None demo_flags = Inr (r, s')"
  by (simp add: set_override_def live_flag_def find_flag_def find_override_def one_or_none_def demo_flag_def
      override_keys_exist_def demo_user_def Let_def)

lemma is_enabled_returns:
  "evaluate digest key org user s = Inr b \<Longrightarrow> \<exists>b s'. is_enabled digest t key org user s = Inr (b, s')"
  by (auto simp: is_enabled_def Let_def split: prod.split option.split)


theorem user_override_decides_witness:
  "\<exists>r s'. set_override 0 ''beta'' None (Some 5) True None demo_flags = Inr (r, s')
     \<and> evaluate (\<lambda>_. []) ''beta'' (Some 7) (Some 5) s' = Inr True"
proof -
  obtain r s' where run: "set_override 0 ''beta'' None (Some 5) True None demo_flags = Inr (r, s')"
    using demo_override by blast
  from user_override_decides [OF run demo_flags_ok] run show ?thesis by blast
qed

theorem rollout_only_grows_witness:
  "in_rollout (\<lambda>_. [CHR ''A'']) ''beta'' ''5'' 10 \<and> in_rollout (\<lambda>_. [CHR ''A'']) ''beta'' ''5'' 30"
proof -
  have "in_rollout (\<lambda>_. [CHR ''A'']) ''beta'' ''5'' 10"
    by (simp add: in_rollout_def bucket_of_def big_endian_def BUCKETS_def)
  with rollout_only_grows [of 10 30 "\<lambda>_. [CHR ''A'']" "''beta''" "''5''"] show ?thesis by simp
qed

theorem rollout_ignores_switch_witness:
  "\<exists>f s'. update_flag 0 ''beta'' (Some False) None demo_flags = Inr (f, s') \<and> \<not> ff_enabled f
     \<and> evaluate (\<lambda>_. []) ''beta'' None None s' = Inr True"
proof -
  have f: "find_flag ''beta'' demo_flags = Inr (Some demo_flag)"
    by (simp add: find_flag_def one_or_none_def demo_flag_def)
  have "\<exists>s'. update_flag 0 ''beta'' (Some False) None demo_flags = Inr (demo_flag\<lparr>ff_enabled := False\<rparr>, s')"
    by (simp add: update_flag_def live_flag_def f flush_flag_def rollout_in_range_def demo_flag_def
        ROLLOUT_PERCENT_MIN_def ROLLOUT_PERCENT_MAX_def guard_r_def Let_def)
  then obtain s' where run: "update_flag 0 ''beta'' (Some False) None demo_flags = Inr (demo_flag\<lparr>ff_enabled := False\<rparr>, s')"
    by blast
  have "evaluate (\<lambda>_. []) ''beta'' None None demo_flags = Inr True"
    by (simp add: evaluate_def f demo_flag_def flag_default_def in_rollout_def bucket_of_def big_endian_def BUCKETS_def)
  with rollout_ignores_switch [OF run f, of 50 "\<lambda>_. []" None None] run show ?thesis by (simp add: demo_flag_def)
qed

end
