(* ===== verification/Blobs.thy ===== *)
theory Blobs
  imports Errors Cache
begin

text \<open>
  Object storage (\<open>storage/backend.py\<close>): the tenant's prefix in a key, the backend on the local disk and
  the one on an S3 service. File contents are lists of bytes, kept as characters.
\<close>

section \<open>Keys\<close>

definition key_first :: "char \<Rightarrow> bool" where
  "key_first c \<longleftrightarrow> (let n = of_char c :: nat in 97 \<le> n \<and> n \<le> 122 \<or> 65 \<le> n \<and> n \<le> 90 \<or> 48 \<le> n \<and> n \<le> 57)"

definition object_key_char :: "char \<Rightarrow> bool" where
  "object_key_char c \<longleftrightarrow> key_first c \<or> c \<in> set ''._/-''"

text \<open>\<open>_KEY_RE.match\<close>; the \<open>$\<close> of the pattern also matches before a final newline.\<close>

definition key_core :: "string \<Rightarrow> bool" where
  "key_core k = (case k of [] \<Rightarrow> False | c # cs \<Rightarrow> key_first c \<and> list_all object_key_char cs \<and> length cs \<le> 500)"

definition key_matches :: "string \<Rightarrow> bool" where
  "key_matches k \<longleftrightarrow> key_core k \<or> (k \<noteq> [] \<and> last k = CHR 0x0A \<and> key_core (butlast k))"

definition has_prefix :: "string \<Rightarrow> string \<Rightarrow> bool" where
  "has_prefix p t \<longleftrightarrow> take (length p) t = p"

definition validate_key :: "string \<Rightarrow> uuid option \<Rightarrow> error + unit" where
  "validate_key key org =
     bind_r (guard_r (key_matches key) (Domain StorageError [])) (\<lambda>_.
       case org of
         None \<Rightarrow> Inr ()
       | Some i \<Rightarrow> guard_r (has_prefix (nat_str i @ ''/'') key) (Domain TenantViolationError []))"

text \<open>\<open>str.split(sep)\<close> for one character.\<close>

fun split_at_char :: "char \<Rightarrow> string \<Rightarrow> string list" where
  "split_at_char c [] = [[]]"
| "split_at_char c (x # xs) =
     (if x = c then [] # split_at_char c xs
      else case split_at_char c xs of p # ps \<Rightarrow> (x # p) # ps | [] \<Rightarrow> [[x]])"

definition storage_key :: "uuid \<Rightarrow> string \<Rightarrow> error + string" where
  "storage_key org name =
     (let safe = dropWhile (\<lambda>c. c = CHR ''/'') name
      in bind_r (guard_r (\<not> (CHR ''/'' \<in> set safe \<and> ''..'' \<in> set (split_at_char (CHR ''/'') safe))) (Domain StorageError [])) (\<lambda>_.
           let key = nat_str org @ ''/'' @ safe
           in bind_r (validate_key key (Some org)) (\<lambda>_. Inr key)))"

section \<open>The interface\<close>

record 'b storage_backend =
  sb_put :: "string \<Rightarrow> string \<Rightarrow> string \<Rightarrow> 'b \<Rightarrow> error + 'b"  \<comment> \<open>key, data, content type\<close>
  sb_get :: "string \<Rightarrow> 'b \<Rightarrow> error + string"
  sb_delete :: "string \<Rightarrow> 'b \<Rightarrow> error + 'b"
  sb_presign_get :: "string \<Rightarrow> 'b \<Rightarrow> error + string"
  sb_presign_put :: "string \<Rightarrow> string \<Rightarrow> 'b \<Rightarrow> error + string"
  sb_head :: "string \<Rightarrow> 'b \<Rightarrow> error + int option"
  sb_supports_presigned_upload :: bool

section \<open>The local disk\<close>

text \<open>A directory tree without symbolic links; a path is the list of its components from the root.\<close>

type_synonym path = "string list"

record disk =
  fs_files :: "path \<rightharpoonup> string"
  fs_dirs :: "path set"

text \<open>\<open>(root / key).resolve()\<close>.\<close>

definition resolve_path :: "path \<Rightarrow> string \<Rightarrow> path" where
  "resolve_path root key = foldl (\<lambda>p c. if c = ''..'' then butlast p else if c = [] \<or> c = ''.'' then p else p @ [c])
     root (split_at_char (CHR ''/'') key)"

definition path_text :: "path \<Rightarrow> string" where
  "path_text p = (if p = [] then ''/'' else concat (map (\<lambda>c. ''/'' @ c) p))"

definition key_path :: "path \<Rightarrow> string \<Rightarrow> error + path" where
  "key_path root key =
     bind_r (validate_key key None) (\<lambda>_.
       let p = resolve_path root key
       in bind_r (guard_r (has_prefix (path_text root) (path_text p)) (Domain StorageError [])) (\<lambda>_. Inr p))"

text \<open>\<open>mkdir(parents=True, exist_ok=True)\<close>.\<close>

definition prefixes_of :: "path \<Rightarrow> path set" where
  "prefixes_of p = (\<lambda>n. take n p) ` {0..length p}"

definition make_dirs :: "path \<Rightarrow> disk \<Rightarrow> error + disk" where
  "make_dirs p d =
     (if \<exists>q\<in>prefixes_of p. fs_files d q \<noteq> None then Inl (OtherException ''OSError'')
      else Inr (d\<lparr>fs_dirs := fs_dirs d \<union> prefixes_of p\<rparr>))"

definition write_bytes :: "path \<Rightarrow> string \<Rightarrow> disk \<Rightarrow> error + disk" where
  "write_bytes p data d =
     (if p \<in> fs_dirs d then Inl (OtherException ''OSError'') else Inr (d\<lparr>fs_files := (fs_files d)(p \<mapsto> data)\<rparr>))"

definition unlink_path :: "path \<Rightarrow> disk \<Rightarrow> error + disk" where
  "unlink_path p d =
     (if p \<in> fs_dirs d then Inl (OtherException ''OSError'')
      else if fs_files d p = None \<and> (\<exists>q\<in>prefixes_of p. fs_files d q \<noteq> None) then Inl (OtherException ''OSError'')
      else Inr (d\<lparr>fs_files := (fs_files d)(p := None)\<rparr>))"

definition local_put :: "path \<Rightarrow> string \<Rightarrow> string \<Rightarrow> string \<Rightarrow> disk \<Rightarrow> error + disk" where
  "local_put root key data content_type d =
     bind_r (key_path root key) (\<lambda>p. bind_r (make_dirs (butlast p) d) (\<lambda>d1. write_bytes p data d1))"

definition local_get :: "path \<Rightarrow> string \<Rightarrow> disk \<Rightarrow> error + string" where
  "local_get root key d =
     bind_r (key_path root key) (\<lambda>p. case fs_files d p of None \<Rightarrow> raise_error NotFoundError | Some data \<Rightarrow> Inr data)"

definition local_delete :: "path \<Rightarrow> string \<Rightarrow> disk \<Rightarrow> error + disk" where
  "local_delete root key d = bind_r (key_path root key) (\<lambda>p. unlink_path p d)"

definition local_head :: "path \<Rightarrow> string \<Rightarrow> disk \<Rightarrow> error + int option" where
  "local_head root key d =
     bind_r (key_path root key) (\<lambda>p. Inr (map_option (\<lambda>data. int (length data)) (fs_files d p)))"

definition local_presign :: "path \<Rightarrow> string \<Rightarrow> error + string" where
  "local_presign root key = bind_r (key_path root key) (\<lambda>_. raise_error StorageError)"

definition local_disk :: "path \<Rightarrow> disk storage_backend" where
  "local_disk root = \<lparr>sb_put = local_put root, sb_get = local_get root, sb_delete = local_delete root,
     sb_presign_get = (\<lambda>key _. local_presign root key), sb_presign_put = (\<lambda>key _ _. local_presign root key),
     sb_head = local_head root, sb_supports_presigned_upload = False\<rparr>"

section \<open>An S3 service\<close>

text \<open>The client's calls, a library's; an exception is given with the text it prints.\<close>

record 'b s3_client =
  put_object :: "string \<Rightarrow> string \<Rightarrow> string \<Rightarrow> 'b \<Rightarrow> string + 'b"
  get_object :: "string \<Rightarrow> 'b \<Rightarrow> string + string"
  delete_object :: "string \<Rightarrow> 'b \<Rightarrow> string + 'b"
  presigned_get_url :: "string \<Rightarrow> 'b \<Rightarrow> string + string"
  presigned_put_url :: "string \<Rightarrow> string \<Rightarrow> 'b \<Rightarrow> string + string"
  head_object :: "string \<Rightarrow> 'b \<Rightarrow> string + int option"  \<comment> \<open>the \<open>ContentLength\<close> member\<close>

fun mentions :: "string \<Rightarrow> string \<Rightarrow> bool" where
  "mentions w [] = (w = [])"
| "mentions w (c # cs) = (has_prefix w (c # cs) \<or> mentions w cs)"

definition passed_on :: "string + 'a \<Rightarrow> error + 'a" where
  "passed_on r = (case r of Inl t \<Rightarrow> Inl (OtherException t) | Inr x \<Rightarrow> Inr x)"

definition s3_get :: "'b s3_client \<Rightarrow> string \<Rightarrow> 'b \<Rightarrow> error + string" where
  "s3_get c key b =
     bind_r (validate_key key None) (\<lambda>_.
       case get_object c key b of
         Inr body \<Rightarrow> Inr body
       | Inl t \<Rightarrow> if mentions ''NoSuchKey'' t \<or> mentions ''404'' t then raise_error NotFoundError else raise_error StorageError)"

definition s3_head :: "'b s3_client \<Rightarrow> string \<Rightarrow> 'b \<Rightarrow> error + int option" where
  "s3_head c key b =
     bind_r (validate_key key None) (\<lambda>_.
       case head_object c key b of
         Inr n \<Rightarrow> Inr (Some (case n of Some k \<Rightarrow> k | None \<Rightarrow> 0))
       | Inl t \<Rightarrow> if mentions ''404'' t \<or> mentions ''Not Found'' t \<or> mentions ''NoSuchKey'' t then Inr None
                  else raise_error StorageError)"

definition s3_storage :: "'b s3_client \<Rightarrow> 'b storage_backend" where
  "s3_storage c =
     \<lparr>sb_put = (\<lambda>key data content_type b. bind_r (validate_key key None) (\<lambda>_. passed_on (put_object c key data content_type b))),
      sb_get = s3_get c,
      sb_delete = (\<lambda>key b. bind_r (validate_key key None) (\<lambda>_. passed_on (delete_object c key b))),
      sb_presign_get = (\<lambda>key b. bind_r (validate_key key None) (\<lambda>_. passed_on (presigned_get_url c key b))),
      sb_presign_put = (\<lambda>key content_type b. bind_r (validate_key key None) (\<lambda>_. passed_on (presigned_put_url c key content_type b))),
      sb_head = s3_head c, sb_supports_presigned_upload = True\<rparr>"

section \<open>What a client relies on\<close>

text \<open>
  \<open>held b k\<close> is what the store holds under the key, \<open>apart k k'\<close> that the keys name different objects.
\<close>

locale object_store =
  fixes B :: "'b storage_backend" and held :: "'b \<Rightarrow> string \<Rightarrow> string option" and apart :: "string \<Rightarrow> string \<Rightarrow> bool"
  assumes put_held: "sb_put B k data ct b = Inr b' \<Longrightarrow> held b' k = Some data"
    and put_apart: "sb_put B k data ct b = Inr b' \<Longrightarrow> apart k k' \<Longrightarrow> held b' k' = held b k'"
    and delete_held: "sb_delete B k b = Inr b' \<Longrightarrow> held b' k = None"
    and delete_apart: "sb_delete B k b = Inr b' \<Longrightarrow> apart k k' \<Longrightarrow> held b' k' = held b k'"
    and get_held: "sb_get B k b = Inr data \<Longrightarrow> held b k = Some data"
    and head_held: "sb_head B k b = Inr n \<Longrightarrow> n = map_option (\<lambda>data. int (length data)) (held b k)"
begin

text \<open>Bytes come back as they were written, until the same object is written or removed.\<close>

lemma put_get: "sb_put B k data ct b = Inr b' \<Longrightarrow> sb_get B k b' = Inr x \<Longrightarrow> x = data"
  using put_held get_held by fastforce

lemma put_other_get:
  "sb_put B k data ct b = Inr b' \<Longrightarrow> apart k k' \<Longrightarrow> sb_get B k' b = Inr x \<Longrightarrow> sb_get B k' b' = Inr y \<Longrightarrow> y = x"
  using put_apart get_held by fastforce

lemma delete_other_get:
  "sb_delete B k b = Inr b' \<Longrightarrow> apart k k' \<Longrightarrow> sb_get B k' b = Inr x \<Longrightarrow> sb_get B k' b' = Inr y \<Longrightarrow> y = x"
  using delete_apart get_held by fastforce

lemma deleted_get: "sb_delete B k b = Inr b' \<Longrightarrow> sb_get B k b' \<noteq> Inr x"
  using delete_held get_held by fastforce

lemma put_head: "sb_put B k data ct b = Inr b' \<Longrightarrow> sb_head B k b' = Inr n \<Longrightarrow> n = Some (int (length data))"
  using put_held head_held by fastforce

end

definition disk_held :: "path \<Rightarrow> disk \<Rightarrow> string \<Rightarrow> string option" where
  "disk_held root d k = fs_files d (resolve_path root k)"

definition disk_apart :: "path \<Rightarrow> string \<Rightarrow> string \<Rightarrow> bool" where
  "disk_apart root k k' \<longleftrightarrow> resolve_path root k \<noteq> resolve_path root k'"

lemma key_path_Inr: "key_path root key = Inr p \<Longrightarrow> p = resolve_path root key"
  by (auto simp: key_path_def bind_r_eq_Inr Let_def)

interpretation disk: object_store "local_disk root" "disk_held root" "disk_apart root"
  by unfold_locales
    (auto simp: local_disk_def local_put_def local_get_def local_delete_def local_head_def make_dirs_def write_bytes_def
      unlink_path_def disk_held_def disk_apart_def bind_r_eq_Inr dest!: key_path_Inr split: if_splits option.splits)

section \<open>Keys of different organizations\<close>

lemma split_at_char_append: "c \<notin> set a \<Longrightarrow> split_at_char c (a @ c # b) = a # split_at_char c b"
  by (induction a) (auto split: list.split)

lemma split_at_char_plain: "c \<notin> set a \<Longrightarrow> split_at_char c a = [a]"
  by (induction a) (auto split: list.split)

lemma resolve_inside:
  "''..'' \<notin> set cs \<Longrightarrow> \<exists>rest. foldl (\<lambda>p c. if c = ''..'' then butlast p else if c = [] \<or> c = ''.'' then p else p @ [c]) base cs
     = base @ rest"
proof (induction cs arbitrary: base)
  case (Cons c cs)
  then show ?case using Cons.IH [of base] Cons.IH [of "base @ [c]"] by auto
qed simp

lemma storage_key_Inr:
  assumes "storage_key org name = Inr k"
  obtains safe where "k = nat_str org @ CHR ''/'' # safe" "safe = ''..'' \<or> ''..'' \<notin> set (split_at_char (CHR ''/'') safe)"
    and "key_matches k"
proof -
  let ?safe = "dropWhile (\<lambda>c. c = CHR ''/'') name"
  have k: "k = nat_str org @ CHR ''/'' # ?safe" "key_matches k"
    and n: "\<not> (CHR ''/'' \<in> set ?safe \<and> ''..'' \<in> set (split_at_char (CHR ''/'') ?safe))"
    using assms by (auto simp: storage_key_def validate_key_def bind_r_eq_Inr guard_r_def Let_def split: if_splits)
  have "?safe = ''..'' \<or> ''..'' \<notin> set (split_at_char (CHR ''/'') ?safe)"
    using n split_at_char_plain [of "CHR ''/''" ?safe] by (cases "CHR ''/'' \<in> set ?safe") auto
  with k show thesis using that by blast
qed

text \<open>A tenant's key names something in the tenant's directory; only the name \<open>..\<close> gives the storage root.\<close>

lemma tenant_path:
  assumes "storage_key org name = Inr k"
  shows "resolve_path root k = root \<or> (\<exists>rest. resolve_path root k = root @ nat_str org # rest)"
proof (rule storage_key_Inr [OF assms])
  fix safe
  assume k: "k = nat_str org @ CHR ''/'' # safe" and safe: "safe = ''..'' \<or> ''..'' \<notin> set (split_at_char (CHR ''/'') safe)"
  have dots: "nat_str org \<noteq> ''..''" "nat_str org \<noteq> ''.''" "CHR ''/'' \<notin> set (nat_str org)"
    using nat_str_digits [of "CHR ''.''" org] nat_str_digits [of "CHR ''/''" org] by auto
  have split: "split_at_char (CHR ''/'') k = nat_str org # split_at_char (CHR ''/'') safe"
    unfolding k using dots(3) by (rule split_at_char_append)
  show ?thesis
  proof (cases "safe = ''..''")
    case True
    then have "split_at_char (CHR ''/'') safe = [''..'']" by simp
    then show ?thesis using dots by (simp add: resolve_path_def split)
  next
    case False
    with safe resolve_inside [of "split_at_char (CHR ''/'') safe" "root @ [nat_str org]"] show ?thesis
      using dots by (auto simp: resolve_path_def split)
  qed
qed

lemma put_not_dir: "local_put root k data ct d = Inr d' \<Longrightarrow> resolve_path root k \<notin> fs_dirs d"
  by (auto simp: local_put_def make_dirs_def write_bytes_def bind_r_eq_Inr dest!: key_path_Inr split: if_splits)

lemma delete_not_dir: "local_delete root k d = Inr d' \<Longrightarrow> resolve_path root k \<notin> fs_dirs d"
  by (auto simp: local_delete_def unlink_path_def bind_r_eq_Inr dest!: key_path_Inr split: if_splits)

lemma tenants_apart:
  assumes "storage_key a n = Inr k" and "storage_key b m = Inr k'" and "a \<noteq> b" and "resolve_path root k \<noteq> root"
  shows "disk_apart root k k'"
  using tenant_path [OF assms(1), of root] tenant_path [OF assms(2), of root] assms(3,4)
  by (auto simp: disk_apart_def)

text \<open>
  C18. On the local disk a write or a removal under a key of one organization, whatever name the caller
  gave, happens inside that organization's directory and leaves the bytes under every key of every other
  organization as they are.
\<close>

theorem tenant_objects_isolated:
  assumes "storage_key a n = Inr k" and "storage_key b m = Inr k'" and "a \<noteq> b" and "root \<in> fs_dirs d"
    and "sb_put (local_disk root) k data ct d = Inr d' \<or> sb_delete (local_disk root) k d = Inr d'"
  shows "disk_held root d' k' = disk_held root d k' \<and> (\<exists>rest. resolve_path root k = root @ nat_str a # rest)"
proof -
  have "resolve_path root k \<notin> fs_dirs d"
    using assms(5) put_not_dir delete_not_dir unfolding local_disk_def by auto
  then have "resolve_path root k \<noteq> root" using assms(4) by metis
  moreover from this have "disk_apart root k k'" by (rule tenants_apart [OF assms(1-3)])
  ultimately show ?thesis
    using tenant_path [OF assms(1), of root] disk.put_apart disk.delete_apart assms(5) by blast
qed

section \<open>Concrete keys\<close>

definition demo_disk :: disk where
  "demo_disk = \<lparr>fs_files = Map.empty, fs_dirs = {[], [''data'']}\<rparr>"

lemma str7 [simp]: "nat_str 7 = ''7''" "nat_str 9 = ''9''"
  by (simp_all add: nat_str.simps digit_char_def)

lemma demo_storage_keys [simp]: "storage_key 7 ''a.txt'' = Inr ''7/a.txt''" "storage_key 9 ''a.txt'' = Inr ''9/a.txt''"
  by (simp_all add: storage_key_def validate_key_def key_matches_def key_core_def key_first_def object_key_char_def has_prefix_def
      guard_r_def Let_def)

lemma demo_put: "local_put [''data''] ''7/a.txt'' ''hi'' [] demo_disk
  = Inr \<lparr>fs_files = [[''data'', ''7'', ''a.txt''] \<mapsto> ''hi''], fs_dirs = fs_dirs demo_disk \<union> prefixes_of [''data'', ''7'']\<rparr>"
proof -
  have "key_path [''data''] ''7/a.txt'' = Inr [''data'', ''7'', ''a.txt'']"
    by (simp add: key_path_def validate_key_def key_matches_def key_core_def key_first_def object_key_char_def guard_r_def Let_def
        resolve_path_def path_text_def has_prefix_def)
  moreover have "prefixes_of [''data'', ''7''] = {[], [''data''], [''data'', ''7'']}"
    by (auto simp: prefixes_of_def take_Cons' numeral_2_eq_2 atLeastAtMostSuc_conv)
  ultimately show ?thesis by (auto simp: local_put_def make_dirs_def write_bytes_def demo_disk_def)
qed

theorem tenant_objects_isolated_witness:
  "\<exists>d'. sb_put (local_disk [''data'']) ''7/a.txt'' ''hi'' [] demo_disk = Inr d' \<and> disk_held [''data''] d' ''9/a.txt'' = None"
proof -
  obtain d' where put: "sb_put (local_disk [''data'']) ''7/a.txt'' ''hi'' [] demo_disk = Inr d'"
    using demo_put by (simp add: local_disk_def)
  have "disk_held [''data''] d' ''9/a.txt'' = disk_held [''data''] demo_disk ''9/a.txt''"
    using tenant_objects_isolated [OF demo_storage_keys _ _ disjI1, OF _ _ put] by (simp add: demo_disk_def)
  with put show ?thesis by (simp add: disk_held_def demo_disk_def)
qed

end
