(* ===== verification/Files.thy ===== *)
theory Files
  imports Access Blobs
begin

text \<open>
  Stored files (\<open>storage/router.py\<close>, \<open>storage/models.py\<close>): the index of an organization's files, the
  gauge of its stored bytes and the objects in the backend, moved together by every route.
\<close>

section \<open>The index\<close>

datatype file_status = File_Pending | File_Ready

record stored_file =
  sf_id :: uuid
  sf_organization_id :: uuid
  sf_key :: string
  sf_name :: string
  sf_content_type :: string
  sf_size_bytes :: int
  sf_status :: file_status
  sf_deleted_at :: "datetime option"
  sf_created_by_user_id :: "uuid option"
  sf_created_at :: datetime

record 'b files_db = access_db +
  stored_files :: "stored_file list"
  blobs :: 'b

definition MAX_DIRECT_UPLOAD_BYTES :: int where "MAX_DIRECT_UPLOAD_BYTES = 10 * 1024 * 1024"

text \<open>The columns' widths and the foreign key to the uploader.\<close>

definition flush_file :: "stored_file \<Rightarrow> ('b, 'a) files_db_scheme \<Rightarrow> error + ('b, 'a) files_db_scheme" where
  "flush_file f s =
     bind_r (guard_r (length (sf_key f) \<le> 512 \<and> length (sf_name f) \<le> 255 \<and> length (sf_content_type f) \<le> 128)
       (OtherException ''DataError'')) (\<lambda>_.
     bind_r (guard_r (\<forall>i. sf_created_by_user_id f = Some i \<longrightarrow> (\<exists>u\<in>set (users s). us_id u = i)) IntegrityError) (\<lambda>_.
       Inr (s\<lparr>stored_files := stored_files s @ [f]\<rparr>)))"

definition save_file :: "stored_file \<Rightarrow> ('b, 'a) files_db_scheme \<Rightarrow> ('b, 'a) files_db_scheme" where
  "save_file f s = s\<lparr>stored_files := update_where (\<lambda>x. sf_id x = sf_id f) (\<lambda>_. f) (stored_files s)\<rparr>"

definition record_file_event :: "event_type \<Rightarrow> stored_file \<Rightarrow> ('b, 'a) files_db_scheme \<Rightarrow> ('b, 'a) files_db_scheme" where
  "record_file_event ev f s =
     (let payload = [(''file_id'', JUuid (sf_id f)), (''name'', JStr (sf_name f)),
                     (''content_type'', JStr (sf_content_type f)), (''size_bytes'', JInt (sf_size_bytes f))];
          s1 = append_outbox ev ''file'' (sf_id f) payload (Some (sf_organization_id f)) s
      in audit_log_default ev (Some (sf_organization_id f)) ''file'' (sf_id f) (Some payload) s1)"

definition get_scoped_file ::
  "uuid \<Rightarrow> uuid \<Rightarrow> file_status list \<Rightarrow> ('b, 'a) files_db_scheme \<Rightarrow> error + stored_file" where
  "get_scoped_file i org statuses s =
     bind_r (one_or_none MultipleResultsFound (\<lambda>f. sf_id f = i \<and> sf_organization_id f = org \<and> sf_deleted_at f = None
       \<and> sf_status f \<in> set statuses) (stored_files s)) (\<lambda>found.
       case found of None \<Rightarrow> raise_error NotFoundError | Some f \<Rightarrow> Inr f)"

section \<open>What the routes do\<close>

record upload_part =
  up_filename :: "string option"
  up_content_type :: "string option"
  up_data :: string

definition or_text :: "string option \<Rightarrow> string \<Rightarrow> string" where
  "or_text t d = (case t of Some x \<Rightarrow> if x = [] then d else x | None \<Rightarrow> d)"

definition store_upload ::
  "env \<Rightarrow> 'b storage_backend \<Rightarrow> datetime \<Rightarrow> uuid \<Rightarrow> uuid \<Rightarrow> upload_part \<Rightarrow> ('b, 'a) files_db_scheme
    \<Rightarrow> error + (stored_file \<times> ('b, 'a) files_db_scheme)" where
  "store_upload en be now org user_id part s =
     bind_r (adjust_gauge (en_settings en) now org ''storage_bytes'' (int (length (up_data part))) True s) (\<lambda>(_, s1).
     bind_r (storage_key org (or_text (up_filename part) ''unnamed'')) (\<lambda>key.
       let ct = or_text (up_content_type part) ''application/octet-stream''
       in bind_r (sb_put be key (up_data part) ct (blobs s1)) (\<lambda>b.
            let f = \<lparr>sf_id = next_uuid s1, sf_organization_id = org, sf_key = key,
                     sf_name = or_text (up_filename part) ''unnamed'', sf_content_type = ct,
                     sf_size_bytes = int (length (up_data part)), sf_status = File_Ready, sf_deleted_at = None,
                     sf_created_by_user_id = Some user_id, sf_created_at = tx_now s1\<rparr>
            in bind_r (flush_file f (s1\<lparr>blobs := b, next_uuid := Suc (next_uuid s1)\<rparr>)) (\<lambda>s2.
                 Inr (f, record_file_event FILE_UPLOADED f s2)))))"

definition reserve_upload ::
  "env \<Rightarrow> 'b storage_backend \<Rightarrow> datetime \<Rightarrow> uuid \<Rightarrow> uuid \<Rightarrow> string \<Rightarrow> string \<Rightarrow> int \<Rightarrow> ('b, 'a) files_db_scheme
    \<Rightarrow> error + ((stored_file \<times> string) \<times> ('b, 'a) files_db_scheme)" where
  "reserve_upload en be now org user_id name content_type sz s =
     bind_r (guard_r (sb_supports_presigned_upload be)
       (Domain PresignUnsupportedError [(''direct_upload_limit_bytes'', JInt MAX_DIRECT_UPLOAD_BYTES)])) (\<lambda>_.
     bind_r (adjust_gauge (en_settings en) now org ''storage_bytes'' sz True s) (\<lambda>(_, s1).
     bind_r (storage_key org name) (\<lambda>key.
     bind_r (sb_presign_put be key content_type (blobs s1)) (\<lambda>url.
       let f = \<lparr>sf_id = next_uuid s1, sf_organization_id = org, sf_key = key, sf_name = name,
                sf_content_type = content_type, sf_size_bytes = sz, sf_status = File_Pending, sf_deleted_at = None,
                sf_created_by_user_id = Some user_id, sf_created_at = tx_now s1\<rparr>
       in bind_r (flush_file f (s1\<lparr>next_uuid := Suc (next_uuid s1)\<rparr>)) (\<lambda>s2. Inr ((f, url), s2))))))"

text \<open>A mismatch commits the release of the reservation and then answers with an error.\<close>

datatype completion = Completed stored_file | Incomplete error

definition complete_stored ::
  "env \<Rightarrow> 'b storage_backend \<Rightarrow> datetime \<Rightarrow> uuid \<Rightarrow> uuid \<Rightarrow> ('b, 'a) files_db_scheme
    \<Rightarrow> error + (completion \<times> ('b, 'a) files_db_scheme)" where
  "complete_stored en be now org i s =
     bind_r (get_scoped_file i org [File_Pending, File_Ready] s) (\<lambda>f.
       if sf_status f = File_Ready then Inr (Completed f, s)
       else bind_r (sb_head be (sf_key f) (blobs s)) (\<lambda>actual.
         if actual \<noteq> Some (sf_size_bytes f) then
           bind_r (adjust_gauge (en_settings en) now org ''storage_bytes'' (- sf_size_bytes f) True s) (\<lambda>(_, s1).
             Inr (Incomplete (Domain UploadIncompleteError [(''expected_bytes'', JInt (sf_size_bytes f)),
                    (''actual_bytes'', opt_json JInt actual)]),
                  save_file (f\<lparr>sf_deleted_at := Some now\<rparr>) s1))
         else let f' = f\<lparr>sf_status := File_Ready\<rparr>
              in Inr (Completed f', record_file_event FILE_UPLOADED f' (save_file f' s))))"

definition fetch_file ::
  "'b storage_backend \<Rightarrow> uuid \<Rightarrow> uuid \<Rightarrow> ('b, 'a) files_db_scheme \<Rightarrow> error + (string \<times> stored_file)" where
  "fetch_file be org i s =
     bind_r (get_scoped_file i org [File_Ready] s) (\<lambda>f.
     bind_r (sb_get be (sf_key f) (blobs s)) (\<lambda>data. Inr (data, f)))"

definition delete_stored ::
  "env \<Rightarrow> 'b storage_backend \<Rightarrow> datetime \<Rightarrow> uuid \<Rightarrow> uuid \<Rightarrow> ('b, 'a) files_db_scheme
    \<Rightarrow> error + ('b, 'a) files_db_scheme" where
  "delete_stored en be now org i s =
     bind_r (get_scoped_file i org [File_Pending, File_Ready] s) (\<lambda>f.
       let f' = f\<lparr>sf_deleted_at := Some now\<rparr>; s1 = save_file f' s
       in bind_r (sb_delete be (sf_key f) (blobs s1)) (\<lambda>b.
          bind_r (adjust_gauge (en_settings en) now org ''storage_bytes'' (- sf_size_bytes f) True (s1\<lparr>blobs := b\<rparr>))
            (\<lambda>(_, s2). Inr (record_file_event FILE_DELETED f' s2))))"

text \<open>
  The retention job's part: reservations never completed are given up and their bytes returned, all in
  one transaction whose time is \<open>tx_now\<close>.
\<close>

definition stale_upload :: "int \<Rightarrow> ('b, 'a) files_db_scheme \<Rightarrow> stored_file \<Rightarrow> bool" where
  "stale_upload ttl s f \<longleftrightarrow> sf_status f = File_Pending \<and> sf_deleted_at f = None \<and> sf_created_at f < tx_now s - seconds ttl"

fun give_back :: "settings \<Rightarrow> datetime \<Rightarrow> (uuid \<times> int) list \<Rightarrow> ('b, 'a) files_db_scheme \<Rightarrow> error + ('b, 'a) files_db_scheme" where
  "give_back cfg now [] s = Inr s"
| "give_back cfg now ((org, sz) # rest) s =
     bind_r (adjust_gauge cfg now org ''storage_bytes'' (- sz) False s) (\<lambda>(_, s1). give_back cfg now rest s1)"

definition release_stale_uploads ::
  "settings \<Rightarrow> int \<Rightarrow> datetime \<Rightarrow> ('b, 'a) files_db_scheme \<Rightarrow> error + ('b, 'a) files_db_scheme" where
  "release_stale_uploads cfg ttl now s =
     (let stale = map (\<lambda>f. (sf_organization_id f, sf_size_bytes f)) (rows_where (stale_upload ttl s) (stored_files s))
      in give_back cfg now stale
           (s\<lparr>stored_files := update_where (stale_upload ttl s) (\<lambda>f. f\<lparr>sf_deleted_at := Some (tx_now s)\<rparr>) (stored_files s)\<rparr>))"

section \<open>Handlers\<close>

definition api_list_files ::
  "env \<Rightarrow> datetime \<Rightarrow> page_params \<Rightarrow> request \<Rightarrow> ('b, 'a) files_db_scheme
    \<Rightarrow> error + ((nat \<times> stored_file list) \<times> ('b, 'a) files_db_scheme)" where
  "api_list_files en now page rq s =
     bind_r (gate en now ''file:read'' rq s) (\<lambda>((u, ctx), s1).
       Inr (paginate (sort_key (\<lambda>f. - sf_created_at f) (rows_where (\<lambda>f. sf_organization_id f = tc_organization_id ctx
         \<and> sf_deleted_at f = None \<and> sf_status f = File_Ready) (stored_files s1))) page, s1))"

text \<open>\<open>part\<close> is the form's \<open>file\<close> member, if it is an upload.\<close>

definition api_upload_file ::
  "env \<Rightarrow> 'b storage_backend \<Rightarrow> datetime \<Rightarrow> string \<Rightarrow> upload_part option \<Rightarrow> request \<Rightarrow> ('b, 'a) files_db_scheme
    \<Rightarrow> error + (stored_file \<times> ('b, 'a) files_db_scheme)" where
  "api_upload_file en be now content_type part rq s =
     bind_r (gate en now ''file:write'' rq s) (\<lambda>((u, ctx), s1).
     bind_r (require_feature (en_settings en) now (tc_organization_id ctx) ''api_access'' s1) (\<lambda>(_, s2).
     bind_r (guard_r (has_prefix ''multipart/form-data'' content_type) (Domain StorageError [])) (\<lambda>_.
       case part of
         None \<Rightarrow> raise_error StorageError
       | Some p \<Rightarrow>
           bind_r (guard_r (int (length (up_data p)) \<le> MAX_DIRECT_UPLOAD_BYTES) (Domain StorageError [])) (\<lambda>_.
             store_upload en be now (tc_organization_id ctx) (us_id u) p s2))))"

text \<open>The body is validated after the dependencies and before the handler asks for the permission.\<close>

definition api_presign_upload ::
  "env \<Rightarrow> 'b storage_backend \<Rightarrow> datetime \<Rightarrow> string \<Rightarrow> string \<Rightarrow> int \<Rightarrow> request \<Rightarrow> ('b, 'a) files_db_scheme
    \<Rightarrow> error + ((stored_file \<times> string) \<times> ('b, 'a) files_db_scheme)" where
  "api_presign_upload en be now name content_type sz rq s =
     bind_r (enter en now rq s) (\<lambda>((u, ctx), s0).
     bind_r (guard_r (0 < sz \<and> sz \<le> 5 * 1024 * 1024 * 1024 \<and> 1 \<le> length name \<and> length name \<le> 255
       \<and> length content_type \<le> 128) ValueError) (\<lambda>_.
     bind_r (require_permission en now ''file:write'' u ctx s0) (\<lambda>s1.
     bind_r (require_feature (en_settings en) now (tc_organization_id ctx) ''api_access'' s1) (\<lambda>(_, s2).
       reserve_upload en be now (tc_organization_id ctx) (us_id u) name content_type sz s2))))"

definition api_complete_upload ::
  "env \<Rightarrow> 'b storage_backend \<Rightarrow> datetime \<Rightarrow> uuid \<Rightarrow> request \<Rightarrow> ('b, 'a) files_db_scheme
    \<Rightarrow> error + (completion \<times> ('b, 'a) files_db_scheme)" where
  "api_complete_upload en be now i rq s =
     bind_r (gate en now ''file:write'' rq s) (\<lambda>((u, ctx), s1). complete_stored en be now (tc_organization_id ctx) i s1)"

definition api_download_file ::
  "env \<Rightarrow> 'b storage_backend \<Rightarrow> datetime \<Rightarrow> uuid \<Rightarrow> request \<Rightarrow> ('b, 'a) files_db_scheme
    \<Rightarrow> error + ((string \<times> stored_file) \<times> ('b, 'a) files_db_scheme)" where
  "api_download_file en be now i rq s =
     bind_r (gate en now ''file:read'' rq s) (\<lambda>((u, ctx), s1).
     bind_r (fetch_file be (tc_organization_id ctx) i s1) (\<lambda>r. Inr (r, s1)))"

definition api_presign_download ::
  "env \<Rightarrow> 'b storage_backend \<Rightarrow> datetime \<Rightarrow> uuid \<Rightarrow> request \<Rightarrow> ('b, 'a) files_db_scheme
    \<Rightarrow> error + ((string \<times> string) \<times> ('b, 'a) files_db_scheme)" where
  "api_presign_download en be now i rq s =
     bind_r (gate en now ''file:read'' rq s) (\<lambda>((u, ctx), s1).
     bind_r (guard_r (sb_supports_presigned_upload be) (Domain PresignUnsupportedError [])) (\<lambda>_.
     bind_r (get_scoped_file i (tc_organization_id ctx) [File_Ready] s1) (\<lambda>f.
     bind_r (sb_presign_get be (sf_key f) (blobs s1)) (\<lambda>url. Inr ((url, sf_key f), s1)))))"

definition api_delete_file ::
  "env \<Rightarrow> 'b storage_backend \<Rightarrow> datetime \<Rightarrow> uuid \<Rightarrow> request \<Rightarrow> ('b, 'a) files_db_scheme
    \<Rightarrow> error + ('b, 'a) files_db_scheme" where
  "api_delete_file en be now i rq s =
     bind_r (gate en now ''file:write'' rq s) (\<lambda>((u, ctx), s1). delete_stored en be now (tc_organization_id ctx) i s1)"

section \<open>The gauge of stored bytes\<close>

definition live_bytes :: "uuid \<Rightarrow> stored_file list \<Rightarrow> int" where
  "live_bytes org fs = sum_list (map sf_size_bytes (filter (\<lambda>f. sf_organization_id f = org \<and> sf_deleted_at f = None) fs))"

definition storage_gauge :: "uuid \<Rightarrow> 'a usage_db_scheme \<Rightarrow> int" where
  "storage_gauge org s = counter_total org ''storage_bytes'' GAUGE_PERIOD s"

text \<open>\<open>owed\<close> says by how much a gauge is ahead of the index in the middle of an operation.\<close>

definition files_inv_but :: "(uuid \<Rightarrow> int) \<Rightarrow> ('b, 'a) files_db_scheme \<Rightarrow> bool" where
  "files_inv_but owed s \<longleftrightarrow> distinct (map counter_key (usage_counters s)) \<and> distinct (map sf_id (stored_files s))
     \<and> (\<forall>f\<in>set (stored_files s). sf_id f < next_uuid s \<and> 0 \<le> sf_size_bytes f)
     \<and> (\<forall>org. 0 \<le> owed org \<and> storage_gauge org s = live_bytes org (stored_files s) + owed org)"

abbreviation files_inv :: "('b, 'a) files_db_scheme \<Rightarrow> bool" where
  "files_inv \<equiv> files_inv_but (\<lambda>_. 0)"

lemma live_bytes_nonneg: "\<forall>f\<in>set fs. 0 \<le> sf_size_bytes f \<Longrightarrow> 0 \<le> live_bytes org fs"
  by (auto simp: live_bytes_def intro!: sum_list_nonneg)

lemma live_bytes_append [simp]: "live_bytes org (fs @ gs) = live_bytes org fs + live_bytes org gs"
  by (simp add: live_bytes_def)

lemma live_bytes_cong:
  "map (\<lambda>f. (sf_organization_id f, sf_deleted_at f = None, sf_size_bytes f)) fs
     = map (\<lambda>f. (sf_organization_id f, sf_deleted_at f = None, sf_size_bytes f)) gs \<Longrightarrow> live_bytes org fs = live_bytes org gs"
proof (induction fs arbitrary: gs)
  case (Cons f fs)
  then obtain g gs' where "gs = g # gs'" by (cases gs) auto
  with Cons show ?case by (auto simp: live_bytes_def)
qed (simp add: live_bytes_def)

text \<open>Moving the gauge.\<close>

lemma adjust_gauge_effect:
  assumes "adjust_gauge cfg now org m d enforce s = Inr (r, s')" and "distinct (map counter_key (usage_counters s))"
    and "0 \<le> counter_total org m GAUGE_PERIOD s + d" "0 \<le> counter_total org m GAUGE_PERIOD s"
  shows "\<exists>cs st. s' = s\<lparr>usage_counters := cs, cache_store := st\<rparr>" and "distinct (map counter_key (usage_counters s'))"
    and "counter_total o' m' p' s' = counter_total o' m' p' s + (if (o', m', p') = (org, m, GAUGE_PERIOD) then d else 0)"
    and "enforce \<Longrightarrow> 0 < d \<Longrightarrow> effective_for_org cfg now org s = Inr (e, s0) \<Longrightarrow> limit_value e m = Some v
      \<Longrightarrow> counter_total org m GAUGE_PERIOD s + d \<le> v"
proof -
  from assms(1) obtain s0' t s1 where g: "assert_gauge_metric m s = Inr ()"
    and cap: "enforce \<and> 0 < d \<longrightarrow> (\<exists>c. current_total now org m None s = Inr c
      \<and> ensure_gauge_capacity cfg now org m c d s = Inr s0')"
    and s0': "\<exists>st. s0' = s\<lparr>cache_store := st\<rparr>"
    and up: "upsert_counter org m GAUGE_PERIOD (max d 0) (\<lambda>t. max (t + max d 0 - max d 0 + d) 0) (tx_now s0') s0' = (t, s1)"
    and r: "gauge_result cfg now org m t s1 = Inr (r, s')"
    by (rule adjust_gauge_Inr)
  have d0: "distinct (map counter_key (usage_counters s0'))" and l0: "\<And>a b c. counter_total a b c s0' = counter_total a b c s"
    using s0' assms(2) by (auto simp: counter_total_def)
  note eff = upsert_counter_effect [OF d0 up]
  have t: "t = counter_total org m GAUGE_PERIOD s + d"
    using eff(3) eff(4) l0 assms(3,4) by (auto split: if_splits)
  from gauge_result_frame [OF r] obtain st where s': "s' = s1\<lparr>cache_store := st\<rparr>" by blast
  from upsert_counter_frame [OF up] obtain cs where s1: "s1 = s0'\<lparr>usage_counters := cs\<rparr>" by blast
  have "s' = s\<lparr>usage_counters := cs, cache_store := st\<rparr>" using s0' by (auto simp: s' s1)
  then show "\<exists>cs st. s' = s\<lparr>usage_counters := cs, cache_store := st\<rparr>" by blast
  show "distinct (map counter_key (usage_counters s'))" using eff(1) by (simp add: s')
  have tot: "counter_total a b c s' = counter_total a b c s1" for a b c by (simp add: counter_total_def s')
  show "counter_total o' m' p' s' = counter_total o' m' p' s + (if (o', m', p') = (org, m, GAUGE_PERIOD) then d else 0)"
    using eff(2) eff(5) [of o' m' p'] l0 t by (auto simp: tot)
  assume "enforce" "0 < d" and e: "effective_for_org cfg now org s = Inr (e, s0)" and v: "limit_value e m = Some v"
  then obtain c where c: "current_total now org m None s = Inr c" and ens: "ensure_gauge_capacity cfg now org m c d s = Inr s0'"
    using cap by blast
  have "c = counter_total org m GAUGE_PERIOD s"
    using c g by (auto simp: current_total_def period_for_def assert_gauge_metric_def bind_r_eq_Inr)
  then show "counter_total org m GAUGE_PERIOD s + d \<le> v"
    using ens e v by (auto simp: ensure_gauge_capacity_def bind_r_eq_Inr)
qed

lemma storage_adjusted:
  assumes "adjust_gauge cfg now org ''storage_bytes'' d enforce s = Inr (r, s')" and inv: "files_inv_but owed s"
    and d: "0 \<le> owed org + d \<or> 0 \<le> d"
  shows "files_inv_but (owed(org := owed org + d)) s'" and "stored_files s' = stored_files s" "blobs s' = blobs s"
    "users s' = users s" "next_uuid s' = next_uuid s" "tx_now s' = tx_now s"
proof -
  have g: "storage_gauge org s = live_bytes org (stored_files s) + owed org" "0 \<le> owed org"
      "0 \<le> live_bytes org (stored_files s)"
    using inv live_bytes_nonneg [of "stored_files s" org] by (auto simp: files_inv_but_def)
  have dist: "distinct (map counter_key (usage_counters s))" using inv by (simp add: files_inv_but_def)
  have nn: "0 \<le> counter_total org ''storage_bytes'' GAUGE_PERIOD s + d" "0 \<le> counter_total org ''storage_bytes'' GAUGE_PERIOD s"
    using g d by (auto simp: storage_gauge_def)
  note eff = adjust_gauge_effect [OF assms(1) dist nn]
  from eff(1) show tab: "stored_files s' = stored_files s" "blobs s' = blobs s" "users s' = users s"
    "next_uuid s' = next_uuid s" "tx_now s' = tx_now s" by auto
  have "storage_gauge o' s' = storage_gauge o' s + (if o' = org then d else 0)" for o'
    using eff(3) [of o' "''storage_bytes''" GAUGE_PERIOD] by (simp add: storage_gauge_def)
  moreover have "0 \<le> owed org + d" using d g(2) by auto
  ultimately show "files_inv_but (owed(org := owed org + d)) s'"
    using inv eff(2) by (auto simp: files_inv_but_def tab)
qed

lemma files_inv_frame:
  assumes "files_inv_but owed s" and "usage_counters s' = usage_counters s" "stored_files s' = stored_files s"
    and "next_uuid s \<le> next_uuid s'"
  shows "files_inv_but owed s'"
  using assms by (fastforce simp: files_inv_but_def storage_gauge_def counter_total_def)

lemma file_event_keeps [simp]:
  "usage_counters (record_file_event ev f s) = usage_counters s" "stored_files (record_file_event ev f s) = stored_files s"
  "blobs (record_file_event ev f s) = blobs s" "next_uuid s \<le> next_uuid (record_file_event ev f s)"
  by (simp_all add: record_file_event_def append_outbox_def audit_log_as_def Let_def split: prod.split)

text \<open>The index takes a new row: what was owed is in the index.\<close>

lemma file_added:
  assumes "files_inv_but ((\<lambda>_. 0)(org := sz)) s" and "flush_file f (s\<lparr>next_uuid := Suc (next_uuid s)\<rparr>) = Inr s'"
    and "sf_id f = next_uuid s" "sf_organization_id f = org" "sf_deleted_at f = None" "sf_size_bytes f = sz"
  shows "files_inv s'" and "stored_files s' = stored_files s @ [f]" "usage_counters s' = usage_counters s"
proof -
  have s': "s' = s\<lparr>next_uuid := Suc (next_uuid s), stored_files := stored_files s @ [f]\<rparr>"
    using assms(2) by (auto simp: flush_file_def bind_r_eq_Inr)
  have g: "storage_gauge o' s' = storage_gauge o' s" for o' by (simp add: storage_gauge_def counter_total_def s')
  have "0 \<le> sz" using assms(1) by (auto simp: files_inv_but_def split: if_splits)
  moreover have new: "stored_files s' = stored_files s @ [f]" "usage_counters s' = usage_counters s"
      "next_uuid s' = Suc (next_uuid s)" by (simp_all add: s')
  moreover have "live_bytes o' [f] = (if o' = org then sz else 0)" for o' using assms(4-6) by (simp add: live_bytes_def)
  ultimately show "files_inv s'"
    using assms(1,3,6) unfolding files_inv_but_def new g by (auto simp: less_Suc_eq)
  show "stored_files s' = stored_files s @ [f]" "usage_counters s' = usage_counters s" by (rule new)+
qed

text \<open>A row leaves the index: its bytes are owed.\<close>

lemma file_marked:
  assumes "distinct (map sf_id fs)" and "f \<in> set fs" and "sf_deleted_at f = None"
  shows "live_bytes org (update_where (\<lambda>x. sf_id x = sf_id f) (\<lambda>_. f\<lparr>sf_deleted_at := Some t\<rparr>) fs)
    = live_bytes org fs - (if org = sf_organization_id f then sf_size_bytes f else 0)"
proof -
  from replace_row_split [OF assms(1,2), of "f\<lparr>sf_deleted_at := Some t\<rparr>"] obtain a b where
    "fs = a @ f # b" "update_where (\<lambda>x. sf_id x = sf_id f) (\<lambda>_. f\<lparr>sf_deleted_at := Some t\<rparr>) fs
      = a @ f\<lparr>sf_deleted_at := Some t\<rparr> # b" by auto
  then show ?thesis using assms(3) by (simp add: live_bytes_def)
qed

lemma scoped_file:
  "get_scoped_file i org sts s = Inr f \<Longrightarrow> f \<in> set (stored_files s) \<and> sf_id f = i \<and> sf_organization_id f = org
     \<and> sf_deleted_at f = None \<and> sf_status f \<in> set sts"
  by (auto simp: get_scoped_file_def bind_r_eq_Inr dest!: one_or_none_SomeD split: option.splits)

lemma store_upload_Inr:
  assumes "store_upload en be now org uid part s = Inr (f, s')"
  obtains r s1 b s2 where "adjust_gauge (en_settings en) now org ''storage_bytes'' (int (length (up_data part))) True s = Inr (r, s1)"
    and "storage_key org (or_text (up_filename part) ''unnamed'') = Inr (sf_key f)"
    and "sb_put be (sf_key f) (up_data part) (sf_content_type f) (blobs s1) = Inr b"
    and "flush_file f (s1\<lparr>blobs := b, next_uuid := Suc (next_uuid s1)\<rparr>) = Inr s2" "s' = record_file_event FILE_UPLOADED f s2"
    and "sf_id f = next_uuid s1" "sf_organization_id f = org" "sf_deleted_at f = None" "sf_status f = File_Ready"
      "sf_size_bytes f = int (length (up_data part))" "sf_created_by_user_id f = Some uid"
  using assms by (auto simp: store_upload_def bind_r_eq_Inr Let_def)

lemma store_upload_inv:
  assumes "store_upload en be now org uid part s = Inr (f, s')" and "files_inv s"
  shows "files_inv s'"
proof (rule store_upload_Inr [OF assms(1)])
  fix r s1 b s2
  assume adj: "adjust_gauge (en_settings en) now org ''storage_bytes'' (int (length (up_data part))) True s = Inr (r, s1)"
    and fl: "flush_file f (s1\<lparr>blobs := b, next_uuid := Suc (next_uuid s1)\<rparr>) = Inr s2" "s' = record_file_event FILE_UPLOADED f s2"
    and f: "sf_id f = next_uuid s1" "sf_organization_id f = org" "sf_deleted_at f = None"
      "sf_size_bytes f = int (length (up_data part))"
  have "files_inv_but ((\<lambda>_. 0)(org := int (length (up_data part)))) s1"
    using storage_adjusted(1) [OF adj assms(2)] by simp
  then have "files_inv_but ((\<lambda>_. 0)(org := int (length (up_data part)))) (s1\<lparr>blobs := b\<rparr>)"
    by (rule files_inv_frame) simp_all
  from file_added(1) [OF this _ _ f(2-4)] fl(1) f(1) have "files_inv s2" by simp
  then show "files_inv s'" unfolding fl(2) by (rule files_inv_frame) simp_all
qed

lemma reserve_upload_inv:
  assumes "reserve_upload en be now org uid name ct sz s = Inr ((f, url), s')" and "files_inv s" and "0 \<le> sz"
  shows "files_inv s'"
proof -
  from assms(1) obtain r s1 s2 where adj: "adjust_gauge (en_settings en) now org ''storage_bytes'' sz True s = Inr (r, s1)"
    and fl: "flush_file f (s1\<lparr>next_uuid := Suc (next_uuid s1)\<rparr>) = Inr s'"
    and f: "sf_id f = next_uuid s1" "sf_organization_id f = org" "sf_deleted_at f = None" "sf_size_bytes f = sz"
    by (auto simp: reserve_upload_def bind_r_eq_Inr Let_def)
  have "files_inv_but ((\<lambda>_. 0)(org := sz)) s1" using storage_adjusted(1) [OF adj assms(2)] assms(3) by simp
  from file_added(1) [OF this fl f] show ?thesis .
qed

lemma saved_status_inv:
  assumes "files_inv s" and "f \<in> set (stored_files s)"
  shows "files_inv (save_file (f\<lparr>sf_status := st\<rparr>) s)"
proof -
  have d: "distinct (map sf_id (stored_files s))" using assms(1) by (simp add: files_inv_but_def)
  from replace_row_split [OF d assms(2), of "f\<lparr>sf_status := st\<rparr>"] obtain a b where
    ab: "stored_files s = a @ f # b" "stored_files (save_file (f\<lparr>sf_status := st\<rparr>) s) = a @ f\<lparr>sf_status := st\<rparr> # b"
    by (auto simp: save_file_def)
  have "live_bytes org (stored_files (save_file (f\<lparr>sf_status := st\<rparr>) s)) = live_bytes org (stored_files s)" for org
    unfolding ab by (simp add: live_bytes_def)
  moreover have "storage_gauge org (save_file (f\<lparr>sf_status := st\<rparr>) s) = storage_gauge org s" for org
    by (simp add: storage_gauge_def counter_total_def save_file_def)
  ultimately show ?thesis using assms(1) unfolding files_inv_but_def ab by (auto simp: save_file_def)
qed

text \<open>Releasing a row's bytes and marking it, in either order.\<close>

lemma released_inv:
  assumes inv: "files_inv s" and f: "f \<in> set (stored_files s)" "sf_deleted_at f = None" "sf_organization_id f = org"
    and adj: "adjust_gauge cfg now org ''storage_bytes'' (- sf_size_bytes f) enforce s1 = Inr (r, s2)"
    and s1: "usage_counters s1 = usage_counters s" "next_uuid s \<le> next_uuid s1"
    and fs: "stored_files s1 = update_where (\<lambda>x. sf_id x = sf_id f) (\<lambda>_. f\<lparr>sf_deleted_at := Some t\<rparr>) (stored_files s)"
  shows "files_inv s2"
proof -
  have d: "distinct (map sf_id (stored_files s))" using inv by (simp add: files_inv_but_def)
  let ?fs = "update_where (\<lambda>x. sf_id x = sf_id f) (\<lambda>_. f\<lparr>sf_deleted_at := Some t\<rparr>) (stored_files s)"
  have ids: "map sf_id ?fs = map sf_id (stored_files s)" by (rule map_update_where) simp
  have rows: "\<forall>x\<in>set ?fs. sf_id x < next_uuid s1 \<and> 0 \<le> sf_size_bytes x"
    using inv f(1) s1(2) by (fastforce simp: files_inv_but_def update_where_def)
  have "0 \<le> sf_size_bytes f" using inv f by (auto simp: files_inv_but_def)
  then have "files_inv_but ((\<lambda>_. 0)(org := sf_size_bytes f)) s1"
    using inv f s1 ids rows unfolding files_inv_but_def fs file_marked [OF d f(1,2)]
    by (auto simp: storage_gauge_def counter_total_def)
  from storage_adjusted(1) [OF adj this] show ?thesis by (simp add: fun_upd_def cong: if_cong)
qed

lemma mark_after_release:
  assumes inv: "files_inv s" and f: "f \<in> set (stored_files s)" "sf_deleted_at f = None" "sf_organization_id f = org"
    and adj: "adjust_gauge cfg now org ''storage_bytes'' (- sf_size_bytes f) enforce s = Inr (r, s1)"
  shows "files_inv (save_file (f\<lparr>sf_deleted_at := Some t\<rparr>) s1)"
proof -
  let ?fs = "update_where (\<lambda>x. sf_id x = sf_id f) (\<lambda>_. f\<lparr>sf_deleted_at := Some t\<rparr>) (stored_files s)"
  have d: "distinct (map sf_id (stored_files s))" "distinct (map counter_key (usage_counters s))"
    and gauge: "storage_gauge o' s = live_bytes o' (stored_files s)" for o' using inv by (simp_all add: files_inv_but_def)
  have ids: "map sf_id ?fs = map sf_id (stored_files s)" by (rule map_update_where) simp
  have rows: "\<forall>x\<in>set ?fs. sf_id x < next_uuid s \<and> 0 \<le> sf_size_bytes x"
    using inv f(1) by (fastforce simp: files_inv_but_def update_where_def)
  have marked: "live_bytes o' ?fs = live_bytes o' (stored_files s) - (if o' = org then sf_size_bytes f else 0)" for o'
    using file_marked [OF d(1) f(1,2)] f(3) by simp
  have "0 \<le> live_bytes org ?fs" "0 \<le> live_bytes org (stored_files s)"
    using rows inv by (auto intro: live_bytes_nonneg simp: files_inv_but_def)
  then have nn: "0 \<le> counter_total org ''storage_bytes'' GAUGE_PERIOD s + - sf_size_bytes f"
      "0 \<le> counter_total org ''storage_bytes'' GAUGE_PERIOD s"
    using gauge [of org] marked [of org] by (simp_all add: storage_gauge_def)
  note eff = adjust_gauge_effect [OF adj d(2) nn]
  obtain cs st where s1: "s1 = s\<lparr>usage_counters := cs, cache_store := st\<rparr>" using eff(1) by blast
  let ?s = "save_file (f\<lparr>sf_deleted_at := Some t\<rparr>) s1"
  have new: "stored_files ?s = ?fs" "usage_counters ?s = usage_counters s1" "next_uuid ?s = next_uuid s"
    by (simp_all add: save_file_def s1)
  have "storage_gauge o' ?s = storage_gauge o' s1" for o' by (simp add: storage_gauge_def counter_total_def new)
  moreover have "storage_gauge o' s1 = live_bytes o' ?fs" for o'
    using eff(3) [of o' "''storage_bytes''" GAUGE_PERIOD] gauge [of o'] marked [of o'] by (simp add: storage_gauge_def)
  ultimately show ?thesis unfolding files_inv_but_def new ids using d(1) eff(2) rows by simp
qed

lemma complete_stored_inv:
  assumes "complete_stored en be now org i s = Inr (c, s')" and inv: "files_inv s"
  shows "files_inv s'"
proof -
  from assms(1) obtain f where f: "get_scoped_file i org [File_Pending, File_Ready] s = Inr f"
    by (auto simp: complete_stored_def bind_r_eq_Inr)
  note row = scoped_file [OF f]
  show ?thesis
  proof (cases "sf_status f = File_Ready")
    case True
    then show ?thesis using assms f by (simp add: complete_stored_def)
  next
    case False
    then obtain actual where run: "(if actual \<noteq> Some (sf_size_bytes f) then
           bind_r (adjust_gauge (en_settings en) now org ''storage_bytes'' (- sf_size_bytes f) True s) (\<lambda>(_, s1).
             Inr (Incomplete (Domain UploadIncompleteError [(''expected_bytes'', JInt (sf_size_bytes f)),
                    (''actual_bytes'', opt_json JInt actual)]),
                  save_file (f\<lparr>sf_deleted_at := Some now\<rparr>) s1))
         else let f' = f\<lparr>sf_status := File_Ready\<rparr>
              in Inr (Completed f', record_file_event FILE_UPLOADED f' (save_file f' s))) = Inr (c, s')"
      using assms(1) f by (auto simp: complete_stored_def bind_r_eq_Inr)
    show ?thesis
    proof (cases "actual = Some (sf_size_bytes f)")
      case True
      then have s': "s' = record_file_event FILE_UPLOADED (f\<lparr>sf_status := File_Ready\<rparr>) (save_file (f\<lparr>sf_status := File_Ready\<rparr>) s)"
        using run by (auto simp: Let_def)
      have "files_inv (save_file (f\<lparr>sf_status := File_Ready\<rparr>) s)" using saved_status_inv [OF inv] row by blast
      then show ?thesis unfolding s' by (rule files_inv_frame) simp_all
    next
      case False
      then obtain r s1 where adj: "adjust_gauge (en_settings en) now org ''storage_bytes'' (- sf_size_bytes f) True s = Inr (r, s1)"
        and s': "s' = save_file (f\<lparr>sf_deleted_at := Some now\<rparr>) s1"
        using run by (auto simp: bind_r_eq_Inr)
      from mark_after_release [OF inv _ _ _ adj] row show ?thesis unfolding s' by blast
    qed
  qed
qed

lemma delete_stored_inv:
  assumes "delete_stored en be now org i s = Inr s'" and inv: "files_inv s"
  shows "files_inv s'"
proof -
  from assms(1) obtain f b r s2 where f: "get_scoped_file i org [File_Pending, File_Ready] s = Inr f"
    and adj: "adjust_gauge (en_settings en) now org ''storage_bytes'' (- sf_size_bytes f) True
        ((save_file (f\<lparr>sf_deleted_at := Some now\<rparr>) s)\<lparr>blobs := b\<rparr>) = Inr (r, s2)"
    and s': "s' = record_file_event FILE_DELETED (f\<lparr>sf_deleted_at := Some now\<rparr>) s2"
    by (auto simp: delete_stored_def bind_r_eq_Inr Let_def)
  note row = scoped_file [OF f]
  have "files_inv s2"
    by (rule released_inv [OF inv, where f = f and t = now, OF _ _ _ adj]) (use row in \<open>simp_all add: save_file_def\<close>)
  then show ?thesis unfolding s' by (rule files_inv_frame) simp_all
qed

text \<open>The retention job.\<close>

definition owed_for :: "(uuid \<times> int) list \<Rightarrow> uuid \<Rightarrow> int" where
  "owed_for xs org = sum_list (map snd (filter (\<lambda>(i, _). i = org) xs))"

lemma owed_for_Cons [simp]:
  "owed_for [] = (\<lambda>_. 0)" "owed_for ((i, z) # xs) = (owed_for xs)(i := owed_for xs i + z)"
  by (auto simp: owed_for_def)

lemma owed_for_nonneg: "\<forall>x\<in>set xs. 0 \<le> snd x \<Longrightarrow> 0 \<le> owed_for xs org"
  by (force simp: owed_for_def intro!: sum_list_nonneg)

lemma give_back_inv:
  "files_inv_but (owed_for xs) s \<Longrightarrow> \<forall>x\<in>set xs. 0 \<le> snd x \<Longrightarrow> give_back cfg now xs s = Inr s' \<Longrightarrow> files_inv s'"
proof (induction xs arbitrary: s)
  case (Cons x xs)
  obtain org z where x: "x = (org, z)" by (cases x)
  from Cons.prems(3) obtain r s1 where adj: "adjust_gauge cfg now org ''storage_bytes'' (- z) False s = Inr (r, s1)"
    and rest: "give_back cfg now xs s1 = Inr s'" by (auto simp: x bind_r_eq_Inr)
  have "0 \<le> owed_for xs org" using Cons.prems(2) by (intro owed_for_nonneg) simp
  then have "files_inv_but (owed_for xs) s1"
    using storage_adjusted(1) [OF adj Cons.prems(1)] unfolding x owed_for_Cons fun_upd_upd by simp
  from Cons.IH [OF this _ rest] Cons.prems(2) show ?case by simp
qed simp

lemma live_bytes_stale:
  assumes "\<And>f. f \<in> set fs \<Longrightarrow> P f \<Longrightarrow> sf_deleted_at f = None"
  shows "live_bytes org fs = live_bytes org (update_where P (\<lambda>f. f\<lparr>sf_deleted_at := Some t\<rparr>) fs)
    + owed_for (map (\<lambda>f. (sf_organization_id f, sf_size_bytes f)) (filter P fs)) org"
  using assms by (induction fs) (auto simp: live_bytes_def update_where_def)

lemma release_stale_inv:
  assumes "release_stale_uploads cfg ttl now s = Inr s'" and inv: "files_inv s"
  shows "files_inv s'"
proof -
  let ?P = "stale_upload ttl s" and ?t = "tx_now s"
  let ?stale = "map (\<lambda>f. (sf_organization_id f, sf_size_bytes f)) (filter ?P (stored_files s))"
  let ?fs = "update_where ?P (\<lambda>f. f\<lparr>sf_deleted_at := Some ?t\<rparr>) (stored_files s)"
  have pos: "\<forall>x\<in>set ?stale. 0 \<le> snd x" using inv by (auto simp: files_inv_but_def)
  have ids: "map sf_id ?fs = map sf_id (stored_files s)" by (rule map_update_where) simp
  have rows: "\<forall>x\<in>set ?fs. sf_id x < next_uuid s \<and> 0 \<le> sf_size_bytes x"
    using inv by (auto simp: files_inv_but_def update_where_def)
  have live: "live_bytes org (stored_files s) = live_bytes org ?fs + owed_for ?stale org" for org
    by (rule live_bytes_stale) (simp add: stale_upload_def)
  have owed: "0 \<le> owed_for ?stale org" for org using pos by (rule owed_for_nonneg)
  have "storage_gauge org (s\<lparr>stored_files := ?fs\<rparr>) = live_bytes org ?fs + owed_for ?stale org" for org
    using inv live [of org] by (simp add: files_inv_but_def storage_gauge_def counter_total_def)
  then have "files_inv_but (owed_for ?stale) (s\<lparr>stored_files := ?fs\<rparr>)"
    using inv ids rows owed unfolding files_inv_but_def by simp
  from give_back_inv [OF this pos] assms(1) show ?thesis
    unfolding release_stale_uploads_def rows_where_def Let_def by blast
qed

section \<open>Properties\<close>

text \<open>
  The requests and the job, in any order; every other operation of the program leaves the index and the
  gauge of stored bytes alone.
\<close>

inductive file_step :: "env \<Rightarrow> 'b storage_backend \<Rightarrow> ('b, 'a) files_db_scheme \<Rightarrow> ('b, 'a) files_db_scheme \<Rightarrow> bool"
  for en be where
  uploaded: "store_upload en be now org uid part s = Inr (f, s') \<Longrightarrow> file_step en be s s'"
| reserved: "0 < sz \<Longrightarrow> reserve_upload en be now org uid name ct sz s = Inr ((f, url), s') \<Longrightarrow> file_step en be s s'"
| completed: "complete_stored en be now org i s = Inr (c, s') \<Longrightarrow> file_step en be s s'"
| removed: "delete_stored en be now org i s = Inr s' \<Longrightarrow> file_step en be s s'"
| expired: "release_stale_uploads cfg ttl now s = Inr s' \<Longrightarrow> file_step en be s s'"
| otherwise: "stored_files s' = stored_files s \<Longrightarrow> next_uuid s \<le> next_uuid s'
    \<Longrightarrow> (distinct (map counter_key (usage_counters s)) \<longrightarrow> distinct (map counter_key (usage_counters s')))
    \<Longrightarrow> (\<And>org. storage_gauge org s' = storage_gauge org s) \<Longrightarrow> file_step en be s s'"

lemma file_step_inv:
  assumes "file_step en be s s'" and "files_inv s"
  shows "files_inv s'"
  using assms(1)
proof cases
  case otherwise
  then show ?thesis using assms(2) by (fastforce simp: files_inv_but_def)
next
  case (uploaded now org uid part f)
  then show ?thesis using store_upload_inv assms(2) by blast
next
  case (reserved sz now org uid name ct f url)
  then show ?thesis using reserve_upload_inv [OF reserved(2) assms(2)] by simp
next
  case (completed now org i c)
  then show ?thesis using complete_stored_inv assms(2) by blast
next
  case (removed now org i)
  then show ?thesis using delete_stored_inv assms(2) by blast
next
  case (expired cfg ttl now)
  then show ?thesis using release_stale_inv assms(2) by blast
qed

lemma file_run_inv: "(file_step en be)\<^sup>*\<^sup>* s s' \<Longrightarrow> files_inv s \<Longrightarrow> files_inv s'"
  by (induction rule: rtranclp_induct) (auto intro: file_step_inv)


lemma upload_capacity:
  assumes inv: "files_inv s" and "0 < sz"
    and adj: "adjust_gauge cfg now org ''storage_bytes'' sz True s = Inr (r, s1)"
    and e: "effective_for_org cfg now org s = Inr (e, s0)" "limit_value e ''storage_bytes'' = Some v"
  shows "live_bytes org (stored_files s) + sz \<le> v"
proof -
  have g: "counter_total org ''storage_bytes'' GAUGE_PERIOD s = live_bytes org (stored_files s)"
    "0 \<le> live_bytes org (stored_files s)" "distinct (map counter_key (usage_counters s))"
    using inv live_bytes_nonneg [of "stored_files s" org] by (auto simp: files_inv_but_def storage_gauge_def)
  have "counter_total org ''storage_bytes'' GAUGE_PERIOD s + sz \<le> v"
    by (rule adjust_gauge_effect(4) [OF adj g(3) _ _ _ _ e]) (use g assms(2) in simp_all)
  with g show ?thesis by simp
qed


text \<open>On the local disk, what was put is there.\<close>

lemma local_put_get: "local_put root k data ct d = Inr d' \<Longrightarrow> local_get root k d' = Inr data"
  by (auto simp: local_put_def local_get_def make_dirs_def write_bytes_def bind_r_eq_Inr split: if_splits)

lemma local_get_held: "local_put root k data ct d = Inr d' \<Longrightarrow> disk_held root d2 k = Some x \<Longrightarrow> local_get root k d2 = Inr x"
proof -
  assume "local_put root k data ct d = Inr d'" and x: "disk_held root d2 k = Some x"
  then obtain p where p: "key_path root k = Inr p" by (auto simp: local_put_def bind_r_eq_Inr)
  from key_path_Inr [OF p] p x show ?thesis by (simp add: local_get_def disk_held_def)
qed

lemma put_keeps_dirs: "local_put root k data ct d = Inr d' \<Longrightarrow> fs_dirs d \<subseteq> fs_dirs d'"
  by (auto simp: local_put_def make_dirs_def write_bytes_def bind_r_eq_Inr split: if_splits)

text \<open>A row just added is found by its id, in its organization only.\<close>

lemma new_file_found:
  assumes "files_inv s" and "stored_files s' = stored_files s @ [f]" and "next_uuid s \<le> sf_id f" "sf_deleted_at f = None"
    and "sf_status f = File_Ready"
  shows "get_scoped_file (sf_id f) org [File_Ready] s' = (if org = sf_organization_id f then Inr f else raise_error NotFoundError)"
proof -
  have "filter (\<lambda>x. sf_id x = sf_id f \<and> sf_organization_id x = org \<and> sf_deleted_at x = None \<and> sf_status x = File_Ready)
      (stored_files s) = []"
    using assms(1,3) by (fastforce simp: files_inv_but_def filter_empty_conv)
  then show ?thesis using assms(2,4,5) by (simp add: get_scoped_file_def one_or_none_def)
qed

lemma store_upload_disk:
  assumes "store_upload en (local_disk root) now org uid part s = Inr (f, s')" and "files_inv s"
  obtains d where "local_put root (sf_key f) (up_data part) (sf_content_type f) d = Inr (blobs s')" "d = blobs s"
    and "storage_key org (or_text (up_filename part) ''unnamed'') = Inr (sf_key f)"
    and "stored_files s' = stored_files s @ [f]" "sf_id f = next_uuid s" "next_uuid s < next_uuid s'"
    and "sf_organization_id f = org" "sf_deleted_at f = None" "sf_status f = File_Ready"
proof (rule store_upload_Inr [OF assms(1)])
  fix r s1 b s2
  assume adj: "adjust_gauge (en_settings en) now org ''storage_bytes'' (int (length (up_data part))) True s = Inr (r, s1)"
    and key: "storage_key org (or_text (up_filename part) ''unnamed'') = Inr (sf_key f)"
    and put: "sb_put (local_disk root) (sf_key f) (up_data part) (sf_content_type f) (blobs s1) = Inr b"
    and fl: "flush_file f (s1\<lparr>blobs := b, next_uuid := Suc (next_uuid s1)\<rparr>) = Inr s2" "s' = record_file_event FILE_UPLOADED f s2"
    and f: "sf_id f = next_uuid s1" "sf_organization_id f = org" "sf_deleted_at f = None" "sf_status f = File_Ready"
  note same = storage_adjusted(2,3,5) [OF adj assms(2)]
  have s2: "stored_files s2 = stored_files s1 @ [f]" "blobs s2 = b" "next_uuid s2 = Suc (next_uuid s1)"
    using fl(1) by (auto simp: flush_file_def bind_r_eq_Inr)
  have "next_uuid s < next_uuid s'" using file_event_keeps(4) [of s2 FILE_UPLOADED f] s2(3) same(3) unfolding fl(2) by simp
  then show thesis
    using that [of "blobs s"] put key f same s2 unfolding fl(2) by (simp add: local_disk_def)
qed


text \<open>
  Two uploads of one organization under the same name are two files in the index, both counted by the
  gauge, on one object: downloading the first gives the bytes of the second.
\<close>

theorem same_name_shares_object:
  assumes "store_upload en (local_disk root) now org uid part s = Inr (f, s1)" and "files_inv s"
    and "store_upload en (local_disk root) t org uid' part' s1 = Inr (g, s2)" and "up_filename part' = up_filename part"
  shows "fetch_file (local_disk root) org (sf_id f) s2 = Inr (up_data part', f)
    \<and> live_bytes org (stored_files s2) = live_bytes org (stored_files s) + sf_size_bytes f + sf_size_bytes g"
proof -
  obtain d where key: "storage_key org (or_text (up_filename part) ''unnamed'') = Inr (sf_key f)"
    and row: "stored_files s1 = stored_files s @ [f]" "sf_id f = next_uuid s" "next_uuid s < next_uuid s1"
    and f: "sf_organization_id f = org" "sf_deleted_at f = None" "sf_status f = File_Ready"
    by (rule store_upload_disk [OF assms(1,2)])
  have inv1: "files_inv s1" by (rule store_upload_inv [OF assms(1,2)])
  obtain e where put2: "local_put root (sf_key g) (up_data part') (sf_content_type g) e = Inr (blobs s2)"
    and key2: "storage_key org (or_text (up_filename part') ''unnamed'') = Inr (sf_key g)"
    and row2: "stored_files s2 = stored_files s1 @ [g]" "sf_id g = next_uuid s1"
    and g: "sf_organization_id g = org" "sf_deleted_at g = None"
    by (rule store_upload_disk [OF assms(3) inv1])
  have "sf_key g = sf_key f" using key key2 assms(4) by simp
  moreover have "get_scoped_file (sf_id f) org [File_Ready] s2 = Inr f"
    using new_file_found [OF assms(2) row(1) _ f(2,3), of org] row(2,3) row2(2) f(1)
    by (simp add: get_scoped_file_def one_or_none_def row2(1))
  ultimately have "fetch_file (local_disk root) org (sf_id f) s2 = Inr (up_data part', f)"
    using local_put_get [OF put2] by (simp add: fetch_file_def local_disk_def)
  moreover have "live_bytes org (stored_files s2) = live_bytes org (stored_files s) + sf_size_bytes f + sf_size_bytes g"
    using f(1,2) g by (simp add: row2(1) row(1) live_bytes_def)
  ultimately show ?thesis ..
qed

text \<open>
  An uploader that is no row of the users table, as the stand-in user of an API key, never gets a
  file into the index: the foreign key rejects the row.
\<close>

theorem upload_needs_a_stored_user:
  assumes "\<forall>u\<in>set (users s). us_id u \<noteq> uid" and "files_inv s"
  shows "store_upload en be now org uid part s \<noteq> Inr r"
proof
  assume "store_upload en be now org uid part s = Inr r"
  then obtain f s' where up: "store_upload en be now org uid part s = Inr (f, s')" by (cases r) simp
  show False
  proof (rule store_upload_Inr [OF up])
    fix q s1 b s2
    assume adj: "adjust_gauge (en_settings en) now org ''storage_bytes'' (int (length (up_data part))) True s = Inr (q, s1)"
      and fl: "flush_file f (s1\<lparr>blobs := b, next_uuid := Suc (next_uuid s1)\<rparr>) = Inr s2"
      and f: "sf_created_by_user_id f = Some uid"
    have "users s1 = users s" by (rule storage_adjusted(4) [OF adj assms(2)]) simp
    with fl f assms(1) show False by (auto simp: flush_file_def bind_r_eq_Inr)
  qed
qed

section \<open>A concrete organization with a quota\<close>

text \<open>Organization 7 has subscribed to a hundred bytes, organization 9 to nothing.\<close>

definition demo_box :: plan where
  "demo_box = demo_plan 1 ''free'' 0 0 [] [\<lparr>pl_metric = ''storage_bytes'', pl_limit_value = Some 100,
     pl_soft_limit_ratio = None, pl_overage_unit = None, pl_overage_price_cents = None\<rparr>]"

definition demo_files :: "disk files_db" where
  "demo_files = access_db.extend (demo_access\<lparr>plan_rows := [demo_box], subscription_rows := [demo_subscription 5 7 demo_box Active], usage_counters := [],
      metric_rows := [\<lparr>mt_key = ''storage_bytes'', mt_name = ''Storage'', mt_kind = Gauge,
          mt_unit = None, mt_overage_unit = None, mt_overage_price_cents = None\<rparr>]\<rparr>)
     \<lparr>stored_files = [], blobs = demo_disk\<rparr>"

lemma demo_files_fields [simp]:
  "stored_files demo_files = []" "blobs demo_files = demo_disk" "usage_counters demo_files = []"
  "users demo_files = [demo_user]" "next_uuid demo_files = 20" "cache_store demo_files = Map.empty"
  "metric_rows demo_files = [\<lparr>mt_key = ''storage_bytes'', mt_name = ''Storage'', mt_kind = Gauge,
          mt_unit = None, mt_overage_unit = None, mt_overage_price_cents = None\<rparr>]"
  "subscription_rows demo_files = [demo_subscription 5 7 demo_box Active]" "plan_rows demo_files = [demo_box]"
  "entitlement_rows demo_files = []"
  by (simp_all add: demo_files_def demo_access_def demo_ident_def demo_auth_def demo_usage_def demo_ents_def demo_sub_simps
      sub_db.defs ent_db.defs usage_db.defs acct_db.defs auth_db.defs ident_db.defs access_db.defs)

lemma demo_files_inv [simp]: "files_inv demo_files"
  by (simp add: files_inv_but_def storage_gauge_def counter_total_def live_bytes_def rows_where_def)

lemma demo_box_limits:
  "\<exists>e s0. effective_for_org demo_settings 0 7 demo_files = Inr (e, s0) \<and> limit_value e ''storage_bytes'' = Some 100"
  "\<exists>e s0. effective_for_org demo_settings 0 9 demo_files = Inr (e, s0) \<and> limit_value e ''storage_bytes'' = None"
proof -
  have miss: "fst (fst (get_versioned (ttl_backend 0) entitlements_cache (cache_store demo_files) (nat_str org))) = None" for org
    by (simp add: get_versioned_def current_version_def ttl_backend_def ttl_get_def)
  have "current_for_org 7 demo_files = Some (demo_subscription 5 7 demo_box Active)"
    by (simp add: current_for_org_def rows_where_def occupying_def demo_subscription_def OCCUPYING_STATUSES_def)
  moreover have "plan_of (demo_subscription 5 7 demo_box Active) demo_files = Inr demo_box"
    by (simp add: plan_of_def first_row_def demo_box_def demo_plan_def demo_subscription_def)
  ultimately have "\<exists>e. compute demo_settings 0 7 demo_files = Inr e \<and> limit_value e ''storage_bytes'' = Some 100"
    by (simp add: compute_def plan_for_def limit_value_def limit_of_def resolve_effective_def inputs_for_def Let_def
        demo_box_def demo_plan_def demo_subscription_def limit_of_row_def plan_active_def rows_where_def)
  with recomputed [OF miss [of 7]] show "\<exists>e s0. effective_for_org demo_settings 0 7 demo_files = Inr (e, s0)
      \<and> limit_value e ''storage_bytes'' = Some 100" by blast
  have "current_for_org 9 demo_files = None"
    by (simp add: current_for_org_def latest_def rows_where_def demo_subscription_def)
  moreover have "plan_by_key ''free'' False demo_files = Inr demo_box"
    by (simp add: plan_by_key_def one_or_none_def demo_box_def demo_plan_def)
  ultimately have "\<exists>e. compute demo_settings 0 9 demo_files = Inr e \<and> limit_value e ''storage_bytes'' = None"
    by (simp add: compute_def plan_for_def demo_settings_def limit_value_def limit_of_def resolve_effective_def inputs_for_def Let_def
        demo_box_def demo_plan_def limit_of_row_def plan_active_def rows_where_def)
  with recomputed [OF miss [of 9]] show "\<exists>e s0. effective_for_org demo_settings 0 9 demo_files = Inr (e, s0)
      \<and> limit_value e ''storage_bytes'' = None" by blast
qed

lemma adjust_returns:
  assumes e: "effective_for_org cfg now org s = Inr (e, s0)" and g: "assert_gauge_metric m s = Inr ()" and "0 < d"
    and "\<forall>v. limit_value e m = Some v \<longrightarrow> counter_total org m GAUGE_PERIOD s + d \<le> v"
  shows "\<exists>r s1. adjust_gauge cfg now org m d True s = Inr (r, s1) \<and> cache_store s1 = cache_store s0"
proof -
  have "current_total now org m None s = Inr (counter_total org m GAUGE_PERIOD s)"
    using g by (auto simp: current_total_def period_for_def assert_gauge_metric_def bind_r_eq_Inr split: option.splits metric_kind.splits)
  moreover have "ensure_gauge_capacity cfg now org m (counter_total org m GAUGE_PERIOD s) d s = Inr s0"
    using e g assms(4) by (auto simp: ensure_gauge_capacity_def split: option.split)
  moreover obtain t s2 where up: "upsert_counter org m GAUGE_PERIOD (max d 0) (\<lambda>t. max (t + max d 0 - max d 0 + d) 0) (tx_now s0) s0 = (t, s2)"
    by (metis surj_pair)
  moreover have "cache_store s2 = cache_store s0" using upsert_counter_frame [OF up] by auto
  moreover from this have "effective_for_org cfg now org s2 = Inr (e, s2)" by (rule effective_again [OF e])
  ultimately show ?thesis using g assms(3) by (simp add: adjust_gauge_def gauge_result_def)
qed

lemma entitlements_cached_apart:
  assumes "effective_for_org cfg now org s = Inr (e, s')" and "other \<noteq> org"
  shows "fst (get_versioned (ttl_backend now) entitlements_cache (cache_store s') (nat_str other))
    = fst (get_versioned (ttl_backend now) entitlements_cache (cache_store s) (nat_str other))"
proof -
  let ?k = "nat_str org"
  obtain cached version st where g: "get_versioned (ttl_backend now) entitlements_cache (cache_store s) ?k
      = ((cached, version), st)" by (metis surj_pair)
  have st: "ttl_view now st k = ttl_view now (cache_store s) k" for k
    using ttl.get_versioned_frame [of now now entitlements_cache "cache_store s" ?k] by (simp add: g)
  have "cache_store s' = st \<or> cache_store s' = cache_set (ttl_backend now) entitlements_cache st ?k (serialize e) (Some version)"
    using assms(1) g by (cases "Option.bind cached deserialize") (auto simp: effective_for_org_def bind_r_eq_Inr)
  then have "ttl_view now (cache_store s') k = ttl_view now (cache_store s) k" if "\<forall>v. k \<noteq> body_key entitlements_cache ?k v" for k
    using st that ttl.set_frame [of now now k] by (auto simp: cache_set_def)
  then show ?thesis unfolding ttl.get_versioned_value using assms(2) by simp
qed

definition demo_part :: upload_part where
  "demo_part = \<lparr>up_filename = Some ''a.txt'', up_content_type = None, up_data = ''hi''\<rparr>"

lemma demo_store:
  fixes s s1 :: "(disk, 'a) files_db_scheme"
  assumes "adjust_gauge demo_settings 0 org ''storage_bytes'' 2 True s = Inr (r, s1)" and "files_inv s" and "users s = [demo_user]"
    and "storage_key org ''a.txt'' = Inr k" and "\<And>ct. local_put [''data''] k ''hi'' ct (blobs s) = Inr d"
    and "length k \<le> 512"
  shows "\<exists>f s'. store_upload demo_env (local_disk [''data'']) 0 org 5 demo_part s = Inr (f, s') \<and> blobs s' = d
    \<and> stored_files s' = stored_files s @ [f] \<and> cache_store s' = cache_store s1 \<and> users s' = [demo_user]
    \<and> resolution_tables_kept s1 s' \<and> usage_counters s' = usage_counters s1"
proof -
  have same: "users s1 = users s" "blobs s1 = blobs s" "stored_files s1 = stored_files s"
    using storage_adjusted(2-4) [OF assms(1,2)] by simp_all
  show ?thesis
    using assms same
    by (simp add: store_upload_def demo_env_def demo_part_def or_text_def local_disk_def flush_file_def demo_user_def Let_def
        resolution_tables_kept_def record_file_event_def append_outbox_def audit_log_as_def split: prod.split)
qed

lemma demo_first_upload:
  "\<exists>f s1. store_upload demo_env (local_disk [''data'']) 0 7 5 demo_part demo_files = Inr (f, s1)
     \<and> local_put [''data''] ''7/a.txt'' ''hi'' [] demo_disk = Inr (blobs s1) \<and> users s1 = [demo_user]
     \<and> resolution_tables_kept demo_files s1
     \<and> fst (get_versioned (ttl_backend 0) entitlements_cache (cache_store s1) (nat_str 9))
         = fst (get_versioned (ttl_backend 0) entitlements_cache (cache_store demo_files) (nat_str 9))"
proof -
  from demo_box_limits(1) obtain e s0 where e: "effective_for_org demo_settings 0 7 demo_files = Inr (e, s0)"
    "limit_value e ''storage_bytes'' = Some 100" by blast
  have g: "assert_gauge_metric ''storage_bytes'' demo_files = Inr ()"
    by (simp add: assert_gauge_metric_def metric_of_def one_or_none_def)
  have "counter_total 7 ''storage_bytes'' GAUGE_PERIOD demo_files = 0" by (simp add: counter_total_def rows_where_def)
  with adjust_returns [OF e(1) g, of 2] e(2) obtain r s1 where
    adj: "adjust_gauge demo_settings 0 7 ''storage_bytes'' 2 True demo_files = Inr (r, s1)" "cache_store s1 = cache_store s0" by auto
  have tab: "resolution_tables_kept demo_files s1"
    using adjust_gauge_effect(1) [OF adj(1)] by (auto simp: resolution_tables_kept_def counter_total_def rows_where_def)
  obtain d where put: "\<And>ct. local_put [''data''] ''7/a.txt'' ''hi'' ct demo_disk = Inr d"
    using demo_put by (auto simp: local_put_def)
  have "\<exists>f s'. store_upload demo_env (local_disk [''data'']) 0 7 5 demo_part demo_files = Inr (f, s') \<and> blobs s' = d
    \<and> stored_files s' = stored_files demo_files @ [f] \<and> cache_store s' = cache_store s1 \<and> users s' = [demo_user]
    \<and> resolution_tables_kept s1 s' \<and> usage_counters s' = usage_counters s1"
    by (rule demo_store [OF adj(1), of "''7/a.txt''"]) (simp_all add: put)
  then obtain f s' where up: "store_upload demo_env (local_disk [''data'']) 0 7 5 demo_part demo_files = Inr (f, s')"
    and s': "blobs s' = d" "cache_store s' = cache_store s0" "users s' = [demo_user]" "resolution_tables_kept s1 s'"
    using adj(2) by auto
  have "fst (get_versioned (ttl_backend 0) entitlements_cache (cache_store s') (nat_str 9))
      = fst (get_versioned (ttl_backend 0) entitlements_cache (cache_store demo_files) (nat_str 9))"
    using entitlements_cached_apart [OF e(1), of 9] s'(2) by simp
  with up s' put resolution_kept_trans [OF tab s'(4)] show ?thesis by blast
qed

lemma demo_first_disk:
  assumes "local_put [''data''] ''7/a.txt'' ''hi'' [] demo_disk = Inr d"
  shows "\<exists>d'. \<forall>ct. local_put [''data''] ''9/a.txt'' ''hi'' ct d = Inr d'"
    and "\<exists>d'. \<forall>ct. local_put [''data''] ''7/a.txt'' ''hi'' ct d = Inr d'"
proof -
  have d: "d = \<lparr>fs_files = [[''data'', ''7'', ''a.txt''] \<mapsto> ''hi''], fs_dirs = fs_dirs demo_disk \<union> prefixes_of [''data'', ''7'']\<rparr>"
    using assms demo_put by simp
  have pre: "prefixes_of [''data'', x] = {[], [''data''], [''data'', x]}" for x
    by (auto simp: prefixes_of_def take_Cons' numeral_2_eq_2 atLeastAtMostSuc_conv)
  have p: "key_path [''data''] ''9/a.txt'' = Inr [''data'', ''9'', ''a.txt'']"
      "key_path [''data''] ''7/a.txt'' = Inr [''data'', ''7'', ''a.txt'']"
    by (simp_all add: key_path_def validate_key_def key_matches_def key_core_def key_first_def object_key_char_def guard_r_def Let_def
        resolve_path_def path_text_def has_prefix_def)
  show "\<exists>d'. \<forall>ct. local_put [''data''] ''9/a.txt'' ''hi'' ct d = Inr d'"
    "\<exists>d'. \<forall>ct. local_put [''data''] ''7/a.txt'' ''hi'' ct d = Inr d'"
    by (simp_all add: local_put_def p make_dirs_def write_bytes_def d pre demo_disk_def)
qed

text \<open>A second upload, of organization 9.\<close>

lemma demo_second_upload:
  assumes "store_upload demo_env (local_disk [''data'']) 0 7 5 demo_part demo_files = Inr (f, s1)"
    and "local_put [''data''] ''7/a.txt'' ''hi'' [] demo_disk = Inr (blobs s1)" and "users s1 = [demo_user]"
    and "resolution_tables_kept demo_files s1"
    and miss: "fst (get_versioned (ttl_backend 0) entitlements_cache (cache_store s1) (nat_str 9))
         = fst (get_versioned (ttl_backend 0) entitlements_cache (cache_store demo_files) (nat_str 9))"
  shows "\<exists>g s2. store_upload demo_env (local_disk [''data'']) 0 9 5 demo_part s1 = Inr (g, s2)"
proof -
  have inv: "files_inv s1" by (rule store_upload_inv [OF assms(1) demo_files_inv])
  have "fst (fst (get_versioned (ttl_backend 0) entitlements_cache (cache_store s1) (nat_str 9))) = None"
    unfolding miss by (simp add: get_versioned_def current_version_def ttl_backend_def ttl_get_def)
  moreover obtain e where e: "compute demo_settings 0 9 demo_files = Inr e" "limit_value e ''storage_bytes'' = None"
  proof -
    have "current_for_org 9 demo_files = None"
      by (simp add: current_for_org_def latest_def rows_where_def demo_subscription_def)
    moreover have "plan_by_key ''free'' False demo_files = Inr demo_box"
      by (simp add: plan_by_key_def one_or_none_def demo_box_def demo_plan_def)
    ultimately have "\<exists>e. compute demo_settings 0 9 demo_files = Inr e \<and> limit_value e ''storage_bytes'' = None"
      by (simp add: compute_def plan_for_def demo_settings_def limit_value_def limit_of_def resolve_effective_def inputs_for_def
          Let_def demo_box_def demo_plan_def limit_of_row_def plan_active_def rows_where_def)
    then show thesis using that by blast
  qed
  moreover have "compute demo_settings 0 9 s1 = Inr e" using compute_tables [OF assms(4)] e(1) by simp
  ultimately obtain s0 where eff: "effective_for_org demo_settings 0 9 s1 = Inr (e, s0)" using recomputed by blast
  have "metric_rows s1 = metric_rows demo_files" using assms(4) by (simp add: resolution_tables_kept_def)
  then have g: "assert_gauge_metric ''storage_bytes'' s1 = Inr ()"
    by (simp add: assert_gauge_metric_def metric_of_def one_or_none_def)
  from adjust_returns [OF eff g, of 2] e(2) obtain r s2 where
    adj: "adjust_gauge demo_settings 0 9 ''storage_bytes'' 2 True s1 = Inr (r, s2)" by auto
  from demo_first_disk(1) [OF assms(2)] obtain d where "\<And>ct. local_put [''data''] ''9/a.txt'' ''hi'' ct (blobs s1) = Inr d" by blast
  from demo_store [OF adj inv assms(3) demo_storage_keys(2) this] show ?thesis by auto
qed




theorem upload_needs_a_stored_user_witness:
  "\<not> (\<exists>r. store_upload demo_env (local_disk [''data'']) 0 7 21 demo_part demo_files = Inr r)"
proof -
  have "\<forall>u\<in>set (users demo_files). us_id u \<noteq> 21" by (simp add: demo_user_def)
  from upload_needs_a_stored_user [OF this demo_files_inv] show ?thesis by blast
qed

lemma demo_cached_limit:
  assumes "store_upload demo_env (local_disk [''data'']) 0 7 5 demo_part demo_files = Inr (f, s1)"
  shows "\<exists>e. effective_for_org demo_settings 0 7 s1 = Inr (e, s1) \<and> limit_value e ''storage_bytes'' = Some 100"
    and "assert_gauge_metric ''storage_bytes'' s1 = Inr ()" and "counter_total 7 ''storage_bytes'' GAUGE_PERIOD s1 = 2"
proof -
  from demo_box_limits(1) obtain e s0 where e: "effective_for_org demo_settings 0 7 demo_files = Inr (e, s0)"
    "limit_value e ''storage_bytes'' = Some 100" by blast
  have g: "assert_gauge_metric ''storage_bytes'' demo_files = Inr ()"
    by (simp add: assert_gauge_metric_def metric_of_def one_or_none_def)
  have total: "counter_total 7 ''storage_bytes'' GAUGE_PERIOD demo_files = 0" by (simp add: counter_total_def rows_where_def)
  with adjust_returns [OF e(1) g, of 2] e(2) obtain q s2 where
    adj: "adjust_gauge demo_settings 0 7 ''storage_bytes'' 2 True demo_files = Inr (q, s2)" "cache_store s2 = cache_store s0" by auto
  obtain d where put: "\<And>ct. local_put [''data''] ''7/a.txt'' ''hi'' ct demo_disk = Inr d"
    using demo_put by (auto simp: local_put_def)
  have "\<exists>f s'. store_upload demo_env (local_disk [''data'']) 0 7 5 demo_part demo_files = Inr (f, s') \<and> blobs s' = d
    \<and> stored_files s' = stored_files demo_files @ [f] \<and> cache_store s' = cache_store s2 \<and> users s' = [demo_user]
    \<and> resolution_tables_kept s2 s' \<and> usage_counters s' = usage_counters s2"
    by (rule demo_store [OF adj(1), of "''7/a.txt''"]) (simp_all add: put)
  then have s1: "cache_store s1 = cache_store s2" "resolution_tables_kept s2 s1" "usage_counters s1 = usage_counters s2"
    using assms by auto
  have s2: "metric_rows s2 = metric_rows demo_files" using adjust_gauge_effect(1) [OF adj(1)] total by auto
  have "effective_for_org demo_settings 0 7 s1 = Inr (e, s1)" by (rule effective_again [OF e(1)]) (simp add: s1(1) adj(2))
  with e(2) show "\<exists>e. effective_for_org demo_settings 0 7 s1 = Inr (e, s1) \<and> limit_value e ''storage_bytes'' = Some 100" by blast
  show "assert_gauge_metric ''storage_bytes'' s1 = Inr ()"
    using s1(2) s2 by (simp add: resolution_tables_kept_def assert_gauge_metric_def metric_of_def one_or_none_def)
  show "counter_total 7 ''storage_bytes'' GAUGE_PERIOD s1 = 2"
    using adjust_gauge_effect(3) [OF adj(1), of 7 "''storage_bytes''" GAUGE_PERIOD] total s1(3) by (simp add: counter_total_def)
qed

theorem same_name_shares_object_witness:
  "\<exists>f s1 g s2. store_upload demo_env (local_disk [''data'']) 0 7 5 demo_part demo_files = Inr (f, s1)
     \<and> store_upload demo_env (local_disk [''data'']) 0 7 5 demo_part s1 = Inr (g, s2) \<and> live_bytes 7 (stored_files s2) = 4"
proof -
  from demo_first_upload obtain f s1 where one: "store_upload demo_env (local_disk [''data'']) 0 7 5 demo_part demo_files = Inr (f, s1)"
    and rest: "local_put [''data''] ''7/a.txt'' ''hi'' [] demo_disk = Inr (blobs s1)" "users s1 = [demo_user]" by blast
  have inv: "files_inv s1" by (rule store_upload_inv [OF one demo_files_inv])
  obtain e where e: "effective_for_org demo_settings 0 7 s1 = Inr (e, s1)" "limit_value e ''storage_bytes'' = Some 100"
    using demo_cached_limit(1) [OF one] by blast
  from adjust_returns [OF e(1) demo_cached_limit(2) [OF one], of 2] e(2) demo_cached_limit(3) [OF one] obtain q s' where
    adj: "adjust_gauge demo_settings 0 7 ''storage_bytes'' 2 True s1 = Inr (q, s')" by auto
  from demo_first_disk(2) [OF rest(1)] obtain d where "\<And>ct. local_put [''data''] ''7/a.txt'' ''hi'' ct (blobs s1) = Inr d" by blast
  from demo_store [OF adj inv rest(2) demo_storage_keys(1) this] obtain g s2 where
    two: "store_upload demo_env (local_disk [''data'']) 0 7 5 demo_part s1 = Inr (g, s2)" by auto
  have two_bytes: "sf_size_bytes h = 2" if "store_upload demo_env (local_disk [''data'']) 0 7 5 demo_part s = Inr (h, t)"
    for h and s t :: "disk files_db"
    by (rule store_upload_Inr [OF that]) (simp add: demo_part_def)
  from same_name_shares_object [OF one demo_files_inv two] one two two_bytes [OF one] two_bytes [OF two]
  show ?thesis by (auto simp: live_bytes_def)
qed

end
