(* ===== verification/Agents.thy ===== *)
theory Agents
  imports Access
begin

text \<open>
  The agent registry (\<open>agents/service.py\<close>, \<open>agents/models.py\<close>, \<open>agents/router.py\<close>): an organization's
  registered agents, their life cycle and the events it emits. \<open>updated_at\<close> is not kept.
\<close>

section \<open>The registry\<close>

datatype agent_status = Agent_Active | Agent_Disabled

primrec agent_status_name :: "agent_status \<Rightarrow> string" where
  "agent_status_name Agent_Active = ''active''"
| "agent_status_name Agent_Disabled = ''disabled''"

record agent =
  ag_id :: uuid
  ag_organization_id :: uuid
  ag_slug :: string
  ag_name :: string
  ag_description :: "string option"
  ag_status :: agent_status
  ag_config :: json_object
  ag_deleted_at :: "datetime option"
  ag_created_at :: datetime

definition ag_is_active :: "agent \<Rightarrow> bool" where
  "ag_is_active a \<longleftrightarrow> ag_status a = Agent_Active \<and> ag_deleted_at a = None"

record agents_db = access_db +
  agents :: "agent list"

text \<open>Python's \<open>==\<close> on JSON values: numbers and booleans by value, objects without order.\<close>

fun json_number :: "json \<Rightarrow> (int \<times> nat) option" where
  "json_number (JBool b) = Some (of_bool b, 0)"
| "json_number (JInt n) = Some (n, 0)"
| "json_number (JFloat m k) = Some (m, k)"
| "json_number _ = None"

fun py_equal :: "json \<Rightarrow> json \<Rightarrow> bool" where
  "py_equal (JList xs) (JList ys) = list_all2 py_equal xs ys"
| "py_equal (JObj xs) (JObj ys) =
     (length xs = length ys
      \<and> (\<forall>(k, v)\<in>set xs. case map_of ys k of None \<Rightarrow> False | Some w \<Rightarrow> py_equal v w))"
| "py_equal a b =
     (case (json_number a, json_number b) of
        (Some (m, i), Some (n, j)) \<Rightarrow> m * 2 ^ j = n * 2 ^ i
      | (None, None) \<Rightarrow> a = b
      | _ \<Rightarrow> False)"

section \<open>Lookups\<close>

definition agents_for_org :: "uuid \<Rightarrow> bool \<Rightarrow> 'a agents_db_scheme \<Rightarrow> agent list" where
  "agents_for_org org include_deleted s =
     sort_key ag_created_at (rows_where (\<lambda>a. ag_organization_id a = org \<and> (include_deleted \<or> ag_deleted_at a = None)) (agents s))"

definition get_scoped_agent :: "uuid \<Rightarrow> uuid \<Rightarrow> 'a agents_db_scheme \<Rightarrow> error + agent" where
  "get_scoped_agent i org s =
     bind_r (one_or_none MultipleResultsFound (\<lambda>a. ag_id a = i \<and> ag_organization_id a = org \<and> ag_deleted_at a = None) (agents s))
       (\<lambda>found. case found of
          None \<Rightarrow> Inl (Domain NotFoundError [(''agent_id'', JUuid i)])
        | Some a \<Rightarrow> Inr a)"

definition agent_by_slug :: "uuid \<Rightarrow> string \<Rightarrow> bool \<Rightarrow> 'a agents_db_scheme \<Rightarrow> error + agent option" where
  "agent_by_slug org slug include_deleted s =
     one_or_none MultipleResultsFound
       (\<lambda>a. ag_organization_id a = org \<and> ag_slug a = slug \<and> (include_deleted \<or> ag_deleted_at a = None)) (agents s)"

section \<open>Life cycle\<close>

text \<open>The columns' widths, the foreign key and \<open>uq_agents_org_slug\<close>.\<close>

definition flush_agent :: "agent \<Rightarrow> 'a agents_db_scheme \<Rightarrow> error + 'a agents_db_scheme" where
  "flush_agent a s =
     bind_r (guard_r (length (ag_slug a) \<le> 100 \<and> length (ag_name a) \<le> 200) (OtherException ''DataError'')) (\<lambda>_.
     bind_r (guard_r ((\<exists>r\<in>set (organizations s). org_id r = ag_organization_id a)
         \<and> (\<forall>x\<in>set (agents s). (ag_organization_id x, ag_slug x) \<noteq> (ag_organization_id a, ag_slug a))) IntegrityError) (\<lambda>_.
       Inr (s\<lparr>agents := agents s @ [a]\<rparr>)))"

definition save_agent :: "agent \<Rightarrow> 'a agents_db_scheme \<Rightarrow> 'a agents_db_scheme" where
  "save_agent a s = s\<lparr>agents := update_where (\<lambda>x. ag_id x = ag_id a) (\<lambda>_. a) (agents s)\<rparr>"

text \<open>An event and an audit row, in the transaction of the change.\<close>

definition agent_event ::
  "event_type \<Rightarrow> json_object \<Rightarrow> event_type \<Rightarrow> json_object \<Rightarrow> agent \<Rightarrow> 'a agents_db_scheme \<Rightarrow> 'a agents_db_scheme" where
  "agent_event ev payload audit_ev diff a s =
     audit_log_default audit_ev (Some (ag_organization_id a)) ''agent'' (ag_id a) (Some diff)
       (append_outbox ev ''agent'' (ag_id a) payload (Some (ag_organization_id a)) s)"

definition create_agent ::
  "uuid \<Rightarrow> string \<Rightarrow> string \<Rightarrow> string option \<Rightarrow> json_object option \<Rightarrow> 'a agents_db_scheme
    \<Rightarrow> error + (agent \<times> 'a agents_db_scheme)" where
  "create_agent org slug name description config s =
     bind_r (agent_by_slug org slug True s) (\<lambda>existing.
     bind_r (guard_r (existing = None) (Domain ConflictError [(''slug'', JStr slug)])) (\<lambda>_.
       let a = \<lparr>ag_id = next_uuid s, ag_organization_id = org, ag_slug = slug, ag_name = name,
                ag_description = description, ag_status = Agent_Active,
                ag_config = (case config of None \<Rightarrow> [] | Some c \<Rightarrow> c), ag_deleted_at = None, ag_created_at = tx_now s\<rparr>;
           shown = [(''slug'', JStr slug), (''name'', JStr name)]
       in bind_r (flush_agent a (s\<lparr>next_uuid := Suc (next_uuid s)\<rparr>)) (\<lambda>s1.
            Inr (a, agent_event AGENT_REGISTERED shown AGENT_REGISTERED shown a s1))))"

text \<open>What an update changes: the new row and the diff, in the code's order.\<close>

definition agent_changes ::
  "string option \<Rightarrow> string option \<Rightarrow> json_object option \<Rightarrow> agent \<Rightarrow> agent \<times> json_object" where
  "agent_changes name description config a =
     (let (a1, d1) = (case name of
            Some n \<Rightarrow> if n \<noteq> ag_name a
              then (a\<lparr>ag_name := n\<rparr>, [(''name'', JObj [(''from'', JStr (ag_name a)), (''to'', JStr n)])]) else (a, [])
          | None \<Rightarrow> (a, []));
          (a2, d2) = (case description of
            Some t \<Rightarrow> if Some t \<noteq> ag_description a1
              then (a1\<lparr>ag_description := Some t\<rparr>,
                    [(''description'', JObj [(''from'', opt_json JStr (ag_description a1)), (''to'', JStr t)])]) else (a1, [])
          | None \<Rightarrow> (a1, []));
          (a3, d3) = (case config of
            Some c \<Rightarrow> if \<not> py_equal (JObj c) (JObj (ag_config a2))
              then (a2\<lparr>ag_config := c\<rparr>, [(''config'', JStr ''updated'')]) else (a2, [])
          | None \<Rightarrow> (a2, []))
      in (a3, d1 @ d2 @ d3))"

definition update_agent ::
  "uuid \<Rightarrow> uuid \<Rightarrow> string option \<Rightarrow> string option \<Rightarrow> json_object option \<Rightarrow> 'a agents_db_scheme
    \<Rightarrow> error + (agent \<times> 'a agents_db_scheme)" where
  "update_agent i org name description config s =
     bind_r (get_scoped_agent i org s) (\<lambda>a.
       let (a', diff) = agent_changes name description config a
       in if diff = [] then Inr (a, s)
          else bind_r (guard_r (length (ag_name a') \<le> 200) (OtherException ''DataError'')) (\<lambda>_.
                 Inr (a', agent_event AGENT_UPDATED
                   [(''slug'', JStr (ag_slug a')), (''changed'', JList (map JStr (sort (map fst diff))))]
                   AGENT_UPDATED diff a' (save_agent a' s))))"

definition agent_status_of :: "string \<Rightarrow> agent_status option" where
  "agent_status_of t = (if t = ''active'' then Some Agent_Active else if t = ''disabled'' then Some Agent_Disabled else None)"

definition set_agent_status ::
  "uuid \<Rightarrow> uuid \<Rightarrow> string \<Rightarrow> 'a agents_db_scheme \<Rightarrow> error + (agent \<times> 'a agents_db_scheme)" where
  "set_agent_status i org status s =
     (case agent_status_of status of
        None \<Rightarrow> raise_error NotFoundError
      | Some st \<Rightarrow>
          bind_r (get_scoped_agent i org s) (\<lambda>a.
            if ag_status a = st then Inr (a, s)
            else let a' = a\<lparr>ag_status := st\<rparr>;
                     ev = (if st = Agent_Disabled then AGENT_DISABLED else AGENT_UPDATED)
                 in Inr (a', agent_event ev [(''slug'', JStr (ag_slug a')), (''status'', JStr status)]
                      (EVENT (''agent.'' @ status)) [(''status'', JStr status)] a' (save_agent a' s))))"

definition delete_agent :: "datetime \<Rightarrow> uuid \<Rightarrow> uuid \<Rightarrow> 'a agents_db_scheme \<Rightarrow> error + 'a agents_db_scheme" where
  "delete_agent now i org s =
     bind_r (get_scoped_agent i org s) (\<lambda>a.
       let a' = a\<lparr>ag_deleted_at := Some now, ag_status := Agent_Disabled\<rparr>
       in Inr (agent_event AGENT_DISABLED [(''slug'', JStr (ag_slug a')), (''deleted'', JBool True)]
            (EVENT ''agent.deleted'') [] a' (save_agent a' s)))"

section \<open>Handlers\<close>

text \<open>Every route is behind the \<open>agents\<close> feature; the body is validated after the dependencies.\<close>

definition agents_gate ::
  "env \<Rightarrow> datetime \<Rightarrow> string \<Rightarrow> bool \<Rightarrow> request \<Rightarrow> 'a agents_db_scheme
    \<Rightarrow> error + (tenant_context \<times> 'a agents_db_scheme)" where
  "agents_gate en now permission body_ok rq s =
     bind_r (enter en now rq s) (\<lambda>((u, ctx), s1).
     bind_r (require_feature (en_settings en) now (tc_organization_id ctx) ''agents'' s1) (\<lambda>(_, s2).
     bind_r (guard_r body_ok ValueError) (\<lambda>_.
     bind_r (require_permission en now permission u ctx s2) (\<lambda>s3. Inr (ctx, s3)))))"

definition valid_agent_slug :: "string \<Rightarrow> bool" where
  "valid_agent_slug t \<longleftrightarrow> 2 \<le> length t \<and> length t \<le> 100 \<and> slug_char (hd t)
     \<and> list_all (\<lambda>ch. slug_char ch \<or> ch = CHR ''-'') (tl t)"

definition valid_agent_name :: "string \<Rightarrow> bool" where
  "valid_agent_name t \<longleftrightarrow> 2 \<le> length t \<and> length t \<le> 200"

definition api_list_agents ::
  "env \<Rightarrow> datetime \<Rightarrow> page_params \<Rightarrow> request \<Rightarrow> 'a agents_db_scheme
    \<Rightarrow> error + ((nat \<times> agent list) \<times> 'a agents_db_scheme)" where
  "api_list_agents en now page rq s =
     bind_r (agents_gate en now ''agents:read'' True rq s) (\<lambda>(ctx, s1).
       Inr (paginate (agents_for_org (tc_organization_id ctx) False s1) page, s1))"

definition api_create_agent ::
  "env \<Rightarrow> datetime \<Rightarrow> string \<Rightarrow> string \<Rightarrow> string option \<Rightarrow> json_object \<Rightarrow> request \<Rightarrow> 'a agents_db_scheme
    \<Rightarrow> error + (agent \<times> 'a agents_db_scheme)" where
  "api_create_agent en now slug name description config rq s =
     bind_r (agents_gate en now ''agents:manage'' (valid_agent_slug slug \<and> valid_agent_name name) rq s) (\<lambda>(ctx, s1).
       create_agent (tc_organization_id ctx) slug name description (Some config) s1)"

definition api_get_agent ::
  "env \<Rightarrow> datetime \<Rightarrow> uuid \<Rightarrow> request \<Rightarrow> 'a agents_db_scheme \<Rightarrow> error + (agent \<times> 'a agents_db_scheme)" where
  "api_get_agent en now i rq s =
     bind_r (agents_gate en now ''agents:read'' True rq s) (\<lambda>(ctx, s1).
     bind_r (get_scoped_agent i (tc_organization_id ctx) s1) (\<lambda>a. Inr (a, s1)))"

definition api_update_agent ::
  "env \<Rightarrow> datetime \<Rightarrow> uuid \<Rightarrow> string option \<Rightarrow> string option \<Rightarrow> json_object option \<Rightarrow> request \<Rightarrow> 'a agents_db_scheme
    \<Rightarrow> error + (agent \<times> 'a agents_db_scheme)" where
  "api_update_agent en now i name description config rq s =
     bind_r (agents_gate en now ''agents:manage'' (\<forall>n\<in>set_option name. valid_agent_name n) rq s) (\<lambda>(ctx, s1).
       update_agent i (tc_organization_id ctx) name description config s1)"

definition api_set_agent_status ::
  "env \<Rightarrow> datetime \<Rightarrow> string \<Rightarrow> uuid \<Rightarrow> request \<Rightarrow> 'a agents_db_scheme \<Rightarrow> error + (agent \<times> 'a agents_db_scheme)" where
  "api_set_agent_status en now status i rq s =
     bind_r (agents_gate en now ''agents:manage'' True rq s) (\<lambda>(ctx, s1).
       set_agent_status i (tc_organization_id ctx) status s1)"

definition api_disable_agent ::
  "env \<Rightarrow> datetime \<Rightarrow> uuid \<Rightarrow> request \<Rightarrow> 'a agents_db_scheme \<Rightarrow> error + (agent \<times> 'a agents_db_scheme)" where
  "api_disable_agent en now = api_set_agent_status en now ''disabled''"

definition api_enable_agent ::
  "env \<Rightarrow> datetime \<Rightarrow> uuid \<Rightarrow> request \<Rightarrow> 'a agents_db_scheme \<Rightarrow> error + (agent \<times> 'a agents_db_scheme)" where
  "api_enable_agent en now = api_set_agent_status en now ''active''"

definition api_delete_agent ::
  "env \<Rightarrow> datetime \<Rightarrow> uuid \<Rightarrow> request \<Rightarrow> 'a agents_db_scheme \<Rightarrow> error + 'a agents_db_scheme" where
  "api_delete_agent en now i rq s =
     bind_r (agents_gate en now ''agents:manage'' True rq s) (\<lambda>(ctx, s1).
       delete_agent now i (tc_organization_id ctx) s1)"

section \<open>Lookups serve one tenant\<close>

abbreviation agent_missing :: "uuid \<Rightarrow> error" where
  "agent_missing i \<equiv> Domain NotFoundError [(''agent_id'', JUuid i)]"

definition live_agents :: "'a agents_db_scheme \<Rightarrow> agent list" where
  "live_agents s = filter (\<lambda>a. ag_deleted_at a = None) (agents s)"

lemma scoped_agentD:
  "get_scoped_agent i org s = Inr a
     \<Longrightarrow> a \<in> set (agents s) \<and> ag_id a = i \<and> ag_organization_id a = org \<and> ag_deleted_at a = None"
  by (auto simp: get_scoped_agent_def bind_r_eq_Inr dest!: one_or_none_SomeD split: option.splits)

lemma scoped_agent_filter:
  assumes "distinct (map ag_id (live_agents s))" and "a \<in> set (live_agents s)" and "ag_id a = i"
  shows "get_scoped_agent i org s = (if ag_organization_id a = org then Inr a else Inl (agent_missing i))"
proof -
  have "filter (\<lambda>a. ag_id a = i \<and> ag_organization_id a = org \<and> ag_deleted_at a = None) (agents s)
      = filter (\<lambda>a. ag_organization_id a = org) (filter (\<lambda>a. ag_id a = i) (live_agents s))"
    by (simp add: live_agents_def conj_commute conj_left_commute)
  then show ?thesis
    by (simp add: get_scoped_agent_def one_or_none_def distinct_key_filter [OF assms])
qed

lemma scoped_agent_none:
  "\<forall>a\<in>set (live_agents s). ag_id a \<noteq> i \<Longrightarrow> get_scoped_agent i org s = Inl (agent_missing i)"
proof -
  assume "\<forall>a\<in>set (live_agents s). ag_id a \<noteq> i"
  then have "filter (\<lambda>a. ag_id a = i \<and> ag_organization_id a = org \<and> ag_deleted_at a = None) (agents s) = []"
    by (auto simp: live_agents_def filter_empty_conv)
  then show ?thesis by (simp add: get_scoped_agent_def one_or_none_def)
qed

interpretation agent_lookup: tenant_scoped_get get_scoped_agent "live_agents :: 'a agents_db_scheme \<Rightarrow> _" ag_id
  "\<lambda>a. Some (ag_organization_id a)" agent_missing
proof
  fix i org r e and s :: "'a agents_db_scheme"
  show "r \<in> set (live_agents s) \<and> ag_id r = i \<and> Some (ag_organization_id r) = Some org"
    if "get_scoped_agent i org s = Inr r"
    using scoped_agentD [OF that] by (simp add: live_agents_def)
  show "e = agent_missing i" if "distinct (map ag_id (live_agents s))" "get_scoped_agent i org s = Inl e"
  proof (cases "\<exists>a\<in>set (live_agents s). ag_id a = i")
    case True
    then obtain a where "a \<in> set (live_agents s)" "ag_id a = i" by blast
    from scoped_agent_filter [OF that(1) this, of org] that(2) show ?thesis by (simp split: if_splits)
  next
    case False
    then show ?thesis using that(2) scoped_agent_none [of s i org] by simp
  qed
  show "get_scoped_agent (ag_id r) org s = Inr r" if "distinct (map ag_id (live_agents s))"
    "r \<in> set (live_agents s)" "Some (ag_organization_id r) = Some org"
    using scoped_agent_filter [OF that(1,2) refl, of org] that(3) by simp
qed

section \<open>The registry's history\<close>

definition agents_inv :: "'a agents_db_scheme \<Rightarrow> bool" where
  "agents_inv s \<longleftrightarrow> distinct (map ag_id (agents s)) \<and> distinct (map (\<lambda>a. (ag_organization_id a, ag_slug a)) (agents s))
     \<and> (\<forall>a\<in>set (agents s). ag_id a < next_uuid s \<and> (ag_deleted_at a \<noteq> None \<longrightarrow> \<not> ag_is_active a))"

lemma agents_inv_distinct: "agents_inv s \<Longrightarrow> distinct (map ag_id (live_agents s))"
  by (simp add: agents_inv_def live_agents_def distinct_map_filter)

text \<open>What a registered agent keeps; once removed, it keeps everything.\<close>

definition same_agent :: "agent \<Rightarrow> agent \<Rightarrow> bool" where
  "same_agent a b \<longleftrightarrow> ag_id b = ag_id a \<and> ag_organization_id b = ag_organization_id a \<and> ag_slug b = ag_slug a
     \<and> ag_created_at b = ag_created_at a \<and> (ag_deleted_at a \<noteq> None \<longrightarrow> b = a)"

lemma same_agent_refl [simp]: "same_agent a a"
  by (simp add: same_agent_def)

lemma same_agent_trans: "same_agent a b \<Longrightarrow> same_agent b c \<Longrightarrow> same_agent a c"
  by (auto simp: same_agent_def)

lemma agent_event_keeps [simp]:
  "agents (agent_event ev p aev d a s) = agents s"
  "outbox_events (agent_event ev p aev d a s) = outbox_events s @
     [\<lparr>oe_id = next_uuid s, oe_aggregate_type = ''agent'', oe_aggregate_id = ag_id a,
       oe_organization_id = Some (ag_organization_id a), oe_event_type = ev, oe_payload = p, oe_created_at = tx_now s,
       oe_published_at = None, oe_audience = audience_for ev, oe_dead_at = None, oe_attempts = 0,
       oe_next_attempt_at = tx_now s, oe_last_error = None\<rparr>]"
  "next_uuid (agent_event ev p aev d a s) = Suc (Suc (next_uuid s))"
  by (simp_all add: agent_event_def append_outbox_def audit_log_as_def Let_def split: prod.split)

lemma agent_event_audit:
  "\<exists>row. audit_logs (agent_event ev p aev d a s) = audit_logs s @ [row] \<and> al_event_type row = aev
     \<and> al_organization_id row = Some (ag_organization_id a) \<and> al_target_id row = Some (ag_id a)"
  by (simp add: agent_event_def append_outbox_def audit_log_as_def Let_def split: prod.split)

lemma save_agent_fields [simp]:
  "agents (save_agent a s) = update_where (\<lambda>x. ag_id x = ag_id a) (\<lambda>_. a) (agents s)"
  "outbox_events (save_agent a s) = outbox_events s" "audit_logs (save_agent a s) = audit_logs s"
  "next_uuid (save_agent a s) = next_uuid s"
  by (simp_all add: save_agent_def)

text \<open>
  The two shapes of a change: a row is added, or a live row is replaced by one of the same identity; either
  is followed by its event.
\<close>

inductive agent_change :: "agent \<Rightarrow> 'a agents_db_scheme \<Rightarrow> 'a agents_db_scheme \<Rightarrow> bool" where
  added: "flush_agent a (s\<lparr>next_uuid := Suc (next_uuid s)\<rparr>) = Inr s1 \<Longrightarrow> ag_id a = next_uuid s \<Longrightarrow> ag_deleted_at a = None
    \<Longrightarrow> agent_change a s (agent_event ev p aev d a s1)"
| replaced: "a \<in> set (agents s) \<Longrightarrow> ag_deleted_at a = None \<Longrightarrow> same_agent a b \<Longrightarrow> (ag_deleted_at b \<noteq> None \<longrightarrow> \<not> ag_is_active b)
    \<Longrightarrow> agent_change b s (agent_event ev p aev d b (save_agent b s))"

lemma agent_changes_same:
  "agent_changes name description config a = (a', diff) \<Longrightarrow> ag_deleted_at a = None \<Longrightarrow> same_agent a a' \<and> ag_deleted_at a' = None"
  by (auto simp: agent_changes_def same_agent_def split: option.splits if_splits)

text \<open>The operations on the registry, with the row each one answers with.\<close>

inductive agent_op :: "agent \<Rightarrow> 'a agents_db_scheme \<Rightarrow> 'a agents_db_scheme \<Rightarrow> bool" where
  "create_agent org slug name description config s = Inr (a, s') \<Longrightarrow> agent_op a s s'"
| "update_agent i org name description config s = Inr (a, s') \<Longrightarrow> agent_op a s s'"
| "set_agent_status i org status s = Inr (a, s') \<Longrightarrow> agent_op a s s'"
| "get_scoped_agent i org s = Inr a \<Longrightarrow> delete_agent now i org s = Inr s'
    \<Longrightarrow> agent_op (a\<lparr>ag_deleted_at := Some now, ag_status := Agent_Disabled\<rparr>) s s'"

lemma agent_op_cases: "agent_op a s s' \<Longrightarrow> s' = s \<or> agent_change a s s'"
proof (induction rule: agent_op.induct)
  case (1 org slug name description config s a s')
  then show ?case by (auto simp: create_agent_def bind_r_eq_Inr Let_def intro!: added)
next
  case (2 i org name description config s a s')
  from 2 obtain b where b: "get_scoped_agent i org s = Inr b" by (auto simp: update_agent_def bind_r_eq_Inr)
  obtain a' diff where ch: "agent_changes name description config b = (a', diff)" by fastforce
  show ?case
    using 2 scoped_agentD [OF b] agent_changes_same [OF ch]
    by (auto simp: update_agent_def b ch bind_r_eq_Inr split: if_splits intro!: replaced)
next
  case (3 i org status s a s')
  from 3 obtain st b where b: "agent_status_of status = Some st" "get_scoped_agent i org s = Inr b"
    by (auto simp: set_agent_status_def bind_r_eq_Inr split: option.splits)
  show ?case
    using 3 scoped_agentD [OF b(2)]
    by (auto simp: set_agent_status_def b Let_def same_agent_def split: if_splits intro!: replaced)
next
  case (4 i org s a now s')
  then show ?case
    using scoped_agentD [OF 4(1)]
    by (auto simp: delete_agent_def bind_r_eq_Inr Let_def same_agent_def ag_is_active_def intro!: replaced)
qed

lemma agent_change_kept:
  assumes "agent_change a s s'" and inv: "agents_inv s"
  shows "agents_inv s'" and "\<forall>x\<in>set (agents s). \<exists>y\<in>set (agents s'). same_agent x y"
    and "\<forall>x\<in>set (agents s). ag_id x \<noteq> ag_id a \<longrightarrow> x \<in> set (agents s')" and "a \<in> set (agents s')"
proof -
  have "agents_inv s' \<and> (\<forall>x\<in>set (agents s). \<exists>y\<in>set (agents s'). same_agent x y)
    \<and> (\<forall>x\<in>set (agents s). ag_id x \<noteq> ag_id a \<longrightarrow> x \<in> set (agents s')) \<and> a \<in> set (agents s')"
    using assms(1)
  proof cases
    case (added s1 ev p aev d)
    then have s1: "s1 = s\<lparr>next_uuid := Suc (next_uuid s), agents := agents s @ [a]\<rparr>"
      and uniq: "\<forall>x\<in>set (agents s). (ag_organization_id x, ag_slug x) \<noteq> (ag_organization_id a, ag_slug a)"
      by (auto simp: flush_agent_def bind_r_eq_Inr)
    have rows: "agents s' = agents s @ [a]" "next_uuid s' = Suc (Suc (Suc (next_uuid s)))" using added(1) by (simp_all add: s1)
    have "ag_id a \<notin> ag_id ` set (agents s)" using inv added(3) by (auto simp: agents_inv_def)
    moreover have "(ag_organization_id a, ag_slug a) \<notin> (\<lambda>x. (ag_organization_id x, ag_slug x)) ` set (agents s)"
      using uniq by (metis (no_types, lifting) imageE)
    ultimately have "agents_inv s'"
      using inv added(3,4) unfolding agents_inv_def rows by (auto simp: less_Suc_eq)
    moreover have "\<forall>x\<in>set (agents s). \<exists>y\<in>set (agents s'). same_agent x y"
      unfolding rows by (auto intro: same_agent_refl)
    ultimately show ?thesis by (simp add: rows)
  next
    case (replaced b ev p aev d)
    have ids: "distinct (map ag_id (agents s))" using inv by (simp add: agents_inv_def)
    have key: "ag_id a = ag_id b" using replaced(4) by (simp add: same_agent_def)
    have rows: "agents s' = update_where (\<lambda>x. ag_id x = ag_id b) (\<lambda>_. a) (agents s)"
      "next_uuid s' = Suc (Suc (next_uuid s))" using replaced(1) by (simp_all add: key)
    have set': "set (agents s') = insert a (set (agents s) - {b})"
      unfolding rows by (rule replace_row_set [OF ids replaced(2)])
    have "map ag_id (agents s') = map ag_id (agents s)" "map (\<lambda>a. (ag_organization_id a, ag_slug a)) (agents s')
      = map (\<lambda>a. (ag_organization_id a, ag_slug a)) (agents s)"
      unfolding rows by (rule replace_row_map [OF ids replaced(2)], use replaced(4) in \<open>simp add: same_agent_def\<close>)+
    then have "agents_inv s'"
      using inv replaced(2,4,5) key unfolding agents_inv_def set' rows(2)
      by (auto simp: less_Suc_eq dest!: bspec)
    moreover have "\<forall>x\<in>set (agents s). \<exists>y\<in>set (agents s'). same_agent x y"
      unfolding set' using replaced(4) by (auto intro: same_agent_refl)
    ultimately show ?thesis using key unfolding set' by auto
  qed
  then show "agents_inv s'" "\<forall>x\<in>set (agents s). \<exists>y\<in>set (agents s'). same_agent x y"
    "\<forall>x\<in>set (agents s). ag_id x \<noteq> ag_id a \<longrightarrow> x \<in> set (agents s')" "a \<in> set (agents s')" by blast+
qed

section \<open>Properties\<close>

inductive agent_step :: "'a agents_db_scheme \<Rightarrow> 'a agents_db_scheme \<Rightarrow> bool" where
  registry: "agent_op a s s' \<Longrightarrow> agent_step s s'"
| elsewhere: "agents s' = agents s \<Longrightarrow> next_uuid s \<le> next_uuid s' \<Longrightarrow> agent_step s s'"

lemma agent_step_kept:
  assumes "agent_step s s'" and "agents_inv s"
  shows "agents_inv s' \<and> (\<forall>x\<in>set (agents s). \<exists>y\<in>set (agents s'). same_agent x y)"
  using assms(1)
proof cases
  case (registry a)
  then show ?thesis
    using agent_op_cases [OF registry] agent_change_kept(1,2) [OF _ assms(2)] assms(2) same_agent_refl by metis
next
  case elsewhere
  then show ?thesis using assms(2) same_agent_refl by (fastforce simp: agents_inv_def)
qed

lemma agent_run_kept:
  "agent_step\<^sup>*\<^sup>* s s' \<Longrightarrow> agents_inv s \<Longrightarrow> agents_inv s' \<and> (\<forall>x\<in>set (agents s). \<exists>y\<in>set (agents s'). same_agent x y)"
proof (induction rule: rtranclp_induct)
  case base
  then show ?case using same_agent_refl by blast
next
  case (step t u)
  then show ?case using agent_step_kept [OF step(2)] same_agent_trans by (meson)
qed

text \<open>
  C35. The registry is a history: through any sequence of operations no registered agent's row ever disappears
  or changes its id, organization, slug or time of registration, a removed agent never changes again, and no
  two agents of an organization, removed ones included, share a slug.
\<close>

theorem registry_keeps_history:
  assumes "agent_step\<^sup>*\<^sup>* s s'" and "agents_inv s"
  shows "(\<forall>a\<in>set (agents s). \<exists>b\<in>set (agents s'). same_agent a b)
    \<and> distinct (map (\<lambda>a. (ag_organization_id a, ag_slug a)) (agents s'))"
  using agent_run_kept [OF assms] by (simp add: agents_inv_def)

text \<open>
  An operation on the registry either writes nothing at all, or writes the one agent it answers with,
  leaves every other agent as it was, and reports the change once: one outbox event and one audit row,
  both about this agent and its organization.
\<close>

theorem registry_changes_are_reported:
  assumes "agent_op a s s'" and "agents_inv s"
  shows "s' = s \<or> a \<in> set (agents s') \<and> (\<forall>x\<in>set (agents s). ag_id x \<noteq> ag_id a \<longrightarrow> x \<in> set (agents s'))
    \<and> (\<exists>e. outbox_events s' = outbox_events s @ [e] \<and> oe_aggregate_id e = ag_id a
        \<and> oe_organization_id e = Some (ag_organization_id a))
    \<and> (\<exists>r. audit_logs s' = audit_logs s @ [r] \<and> al_target_id r = Some (ag_id a)
        \<and> al_organization_id r = Some (ag_organization_id a))"
proof -
  have "(\<exists>e. outbox_events s' = outbox_events s @ [e] \<and> oe_aggregate_id e = ag_id a
        \<and> oe_organization_id e = Some (ag_organization_id a))
    \<and> (\<exists>r. audit_logs s' = audit_logs s @ [r] \<and> al_target_id r = Some (ag_id a)
        \<and> al_organization_id r = Some (ag_organization_id a))" if "agent_change a s s'"
    using that
  proof cases
    case (added s1 ev p aev d)
    then have "s1 = s\<lparr>next_uuid := Suc (next_uuid s), agents := agents s @ [a]\<rparr>"
      by (auto simp: flush_agent_def bind_r_eq_Inr)
    then show ?thesis using agent_event_audit [of ev p aev d a s1] unfolding added(1) by auto
  next
    case (replaced b ev p aev d)
    then show ?thesis using agent_event_audit [of ev p aev d a "save_agent a s"] by auto
  qed
  then show ?thesis using agent_op_cases [OF assms(1)] agent_change_kept(3,4) [OF _ assms(2)] by blast
qed

text \<open>
  To an organization, an agent of another organization is exactly an agent that does not exist: reading,
  updating, enabling or disabling and removing it answer with the same error.
\<close>

theorem foreign_agents_look_missing:
  assumes "agents_inv s" and "\<And>a. a \<in> set (agents s) \<Longrightarrow> ag_id a = i \<Longrightarrow> ag_organization_id a \<noteq> org"
    and "agent_status_of status \<noteq> None"
  shows "get_scoped_agent i org s = Inl (agent_missing i)
    \<and> update_agent i org name description config s = Inl (agent_missing i)
    \<and> set_agent_status i org status s = Inl (agent_missing i) \<and> delete_agent now i org s = Inl (agent_missing i)"
proof -
  have "get_scoped_agent i org s = Inl (agent_missing i)"
    by (rule agent_lookup.foreign [OF agents_inv_distinct [OF assms(1)]]) (use assms(2) in \<open>auto simp: live_agents_def\<close>)
  then show ?thesis using assms(3) by (auto simp: update_agent_def set_agent_status_def delete_agent_def)
qed

section \<open>A registry with two agents\<close>

definition demo_agent :: "uuid \<Rightarrow> uuid \<Rightarrow> string \<Rightarrow> agent" where
  "demo_agent i org slug = \<lparr>ag_id = i, ag_organization_id = org, ag_slug = slug, ag_name = ''Helper'', ag_description = None,
     ag_status = Agent_Active, ag_config = [(''model'', JStr ''m'')], ag_deleted_at = None, ag_created_at = 0\<rparr>"

definition demo_agents :: agents_db where
  "demo_agents = access_db.extend demo_access \<lparr>agents = [demo_agent 1 7 ''helper'', demo_agent 2 8 ''helper'']\<rparr>"

lemma demo_agents_fields [simp]:
  "agents demo_agents = [demo_agent 1 7 ''helper'', demo_agent 2 8 ''helper'']" "next_uuid demo_agents = 20"
  by (simp_all add: demo_agents_def access_db.defs demo_access_def ident_db.defs demo_ident_def demo_auth_def demo_usage_def
      demo_ents_def demo_sub_simps sub_db.defs ent_db.defs usage_db.defs acct_db.defs auth_db.defs)

lemma demo_agents_inv: "agents_inv demo_agents"
  by (simp add: agents_inv_def demo_agent_def)

lemma demo_disable: "\<exists>s'. set_agent_status 1 7 ''disabled'' demo_agents = Inr ((demo_agent 1 7 ''helper'')\<lparr>ag_status := Agent_Disabled\<rparr>, s')"
  by (simp add: set_agent_status_def agent_status_of_def get_scoped_agent_def one_or_none_def demo_agent_def Let_def)

lemma registry_keeps_history_witness:
  "\<exists>s'. set_agent_status 1 7 ''disabled'' demo_agents = Inr ((demo_agent 1 7 ''helper'')\<lparr>ag_status := Agent_Disabled\<rparr>, s')
    \<and> (\<exists>b\<in>set (agents s'). same_agent (demo_agent 1 7 ''helper'') b)"
proof -
  from demo_disable obtain s' where
    run: "set_agent_status 1 7 ''disabled'' demo_agents = Inr ((demo_agent 1 7 ''helper'')\<lparr>ag_status := Agent_Disabled\<rparr>, s')" by blast
  then have "agent_step\<^sup>*\<^sup>* demo_agents s'" by (intro r_into_rtranclp registry agent_op.intros(3))
  from registry_keeps_history [OF this demo_agents_inv] run show ?thesis by auto
qed

lemma registry_changes_are_reported_witness:
  "\<exists>s' e. set_agent_status 1 7 ''disabled'' demo_agents = Inr ((demo_agent 1 7 ''helper'')\<lparr>ag_status := Agent_Disabled\<rparr>, s')
    \<and> (s' = demo_agents \<or> outbox_events s' = outbox_events demo_agents @ [e])"
proof -
  from demo_disable obtain s' where
    run: "set_agent_status 1 7 ''disabled'' demo_agents = Inr ((demo_agent 1 7 ''helper'')\<lparr>ag_status := Agent_Disabled\<rparr>, s')" by blast
  from registry_changes_are_reported [OF agent_op.intros(3) [OF run] demo_agents_inv] run show ?thesis by blast
qed

lemma foreign_agents_look_missing_witness: "delete_agent 0 2 7 demo_agents = Inl (agent_missing 2)"
proof -
  have "ag_organization_id a \<noteq> 7" if "a \<in> set (agents demo_agents)" "ag_id a = 2" for a
    using that by (auto simp: demo_agent_def)
  from foreign_agents_look_missing [OF demo_agents_inv this, of 2 "''active''" None None None 0]
  show ?thesis by (simp add: agent_status_of_def)
qed

end
