(* ===== verification/Providers.thy ===== *)
theory Providers
  imports Deliveries Blobs
begin

text \<open>
  The hosted billing providers (\<open>billing/providers/\<close>): what each sends to the provider's API, how it
  authenticates an incoming webhook and how it reads its events. A field of an answer or event that has
  another JSON type than the provider documents is read as absent, or is an error where it is an id.
\<close>

section \<open>What the providers call\<close>

datatype http_auth = Basic string string | Bearer string

datatype http_body = Form "(string \<times> string) list" | Json_body json | No_body

text \<open>\<open>hr_json\<close> is \<open>None\<close> when \<open>response.json()\<close> raises.\<close>

record http_response =
  hr_status :: int
  hr_json :: "json option"
  hr_text :: string

text \<open>
  The HTTP client, the HMAC of the deliveries' client, the JSON reader, \<open>str\<close> of the JSON values whose
  text is not written out below, the text \<open>secrets.token_hex\<close> gives, and the clock.
\<close>

record outside =
  ow_http :: "string \<Rightarrow> string \<Rightarrow> http_auth \<Rightarrow> http_body \<Rightarrow> error + http_response"
  ow_hooks :: hook_client
  ow_loads :: "string \<Rightarrow> json option"
  ow_repr :: "json \<Rightarrow> string"
  ow_token :: string
  ow_now :: datetime

record hosted_config =
  hc_secret_key :: string
  hc_webhook_secret :: string
  hc_api_base :: string
  hc_currency :: string

definition decoded :: "http_response \<Rightarrow> error + json" where
  "decoded r = (case hr_json r of None \<Rightarrow> Inl (OtherException ''JSONDecodeError'') | Some j \<Rightarrow> Inr j)"

section \<open>Reading Python values\<close>

definition py_str :: "outside \<Rightarrow> json \<Rightarrow> string" where
  "py_str w j =
     (case j of JStr t \<Rightarrow> t | JInt n \<Rightarrow> int_str n | JBool b \<Rightarrow> if b then ''True'' else ''False''
      | JNull \<Rightarrow> ''None'' | _ \<Rightarrow> ow_repr w j)"

text \<open>\<open>str(d.get(key, default))\<close>, \<open>d[key]\<close> and \<open>d.get(key, {})\<close>.\<close>

definition get_text :: "outside \<Rightarrow> string \<Rightarrow> string \<Rightarrow> json_object \<Rightarrow> string" where
  "get_text w key fallback d = (case map_of d key of None \<Rightarrow> fallback | Some j \<Rightarrow> py_str w j)"

definition py_item :: "string \<Rightarrow> json \<Rightarrow> error + json" where
  "py_item key j =
     (case j of JObj d \<Rightarrow> (case map_of d key of None \<Rightarrow> Inl (OtherException ''KeyError'') | Some v \<Rightarrow> Inr v)
      | _ \<Rightarrow> Inl (OtherException ''TypeError''))"

definition py_first :: "json \<Rightarrow> error + json" where
  "py_first j =
     (case j of JList (x # _) \<Rightarrow> Inr x | JList [] \<Rightarrow> Inl (OtherException ''IndexError'')
      | _ \<Rightarrow> Inl (OtherException ''TypeError''))"

definition id_item :: "string \<Rightarrow> json \<Rightarrow> error + string" where
  "id_item key j = bind_r (py_item key j) (\<lambda>v. case v of JStr t \<Rightarrow> Inr t | _ \<Rightarrow> Inl (OtherException ''TypeError''))"

text \<open>\<open>None\<close> is an \<open>AttributeError\<close>.\<close>

definition sub_dict :: "string \<Rightarrow> json_object \<Rightarrow> json_object option" where
  "sub_dict key d = (case map_of d key of None \<Rightarrow> Some [] | Some (JObj e) \<Rightarrow> Some e | Some _ \<Rightarrow> None)"

definition as_dict :: "json \<Rightarrow> error + json_object" where
  "as_dict j = (case j of JObj d \<Rightarrow> Inr d | _ \<Rightarrow> Inl (OtherException ''AttributeError''))"

definition is_true :: "json option \<Rightarrow> bool" where
  "is_true v = (case v of None \<Rightarrow> False | Some j \<Rightarrow> truthy_text (\<lambda>_. ''x'') j \<noteq> None)"

text \<open>\<open>d.get(key) or {}\<close>, and \<open>(d.get(key) or "").upper() or None\<close> on ASCII letters.\<close>

definition or_dict :: "string \<Rightarrow> json_object \<Rightarrow> json_object option" where
  "or_dict key d =
     (case map_of d key of Some (JObj e) \<Rightarrow> Some e | v \<Rightarrow> if is_true v then None else Some [])"

definition upper_char :: "char \<Rightarrow> char" where
  "upper_char c = (let n = of_char c :: nat in if 97 \<le> n \<and> n \<le> 122 then char_of (n - 32) else c)"

definition upper_text :: "string \<Rightarrow> json_object \<Rightarrow> string option option" where
  "upper_text key d =
     (case map_of d key of
        Some (JStr t) \<Rightarrow> Some (if t = [] then None else Some (map upper_char t))
      | v \<Rightarrow> if is_true v then None else Some None)"

definition opt_int :: "json_object \<Rightarrow> string \<Rightarrow> int option" where
  "opt_int d key = (case map_of d key of Some (JInt n) \<Rightarrow> Some n | _ \<Rightarrow> None)"

text \<open>\<open>isinstance(v, int)\<close> holds of booleans too; \<open>datetime.fromtimestamp\<close> knows the years 1 to 9999.\<close>

definition as_int :: "json option \<Rightarrow> int option" where
  "as_int v = (case v of Some (JInt n) \<Rightarrow> Some n | Some (JBool b) \<Rightarrow> Some (of_bool b) | _ \<Rightarrow> None)"

definition from_timestamp :: "json \<Rightarrow> datetime option" where
  "from_timestamp j =
     (let t = (case j of JFloat m k \<Rightarrow> Some (half_even_div (m * 1000000) (2 ^ k)) | _ \<Rightarrow> map_option seconds (as_int (Some j)))
      in case t of None \<Rightarrow> None
         | Some x \<Rightarrow> if - seconds 62135596800 \<le> x \<and> x < seconds 253402300800 then Some x else None)"

text \<open>\<open>int(text)\<close>: blanks around, a sign, single underscores between digits.\<close>

definition is_digit :: "char \<Rightarrow> bool" where
  "is_digit c \<longleftrightarrow> c \<in> set ''0123456789''"

fun int_digits :: "string \<Rightarrow> nat \<Rightarrow> nat option" where
  "int_digits [] acc = Some acc"
| "int_digits (c # cs) acc =
     (if is_digit c then int_digits cs (10 * acc + digit_val c)
      else if c = CHR ''_'' \<and> cs \<noteq> [] \<and> is_digit (hd cs) then int_digits cs acc else None)"

definition nat_text :: "string \<Rightarrow> nat option" where
  "nat_text t = (if t \<noteq> [] \<and> is_digit (hd t) then int_digits t 0 else None)"

definition py_int :: "string \<Rightarrow> int option" where
  "py_int text =
     (case strip text of
        [] \<Rightarrow> None
      | c # r \<Rightarrow>
          if c = CHR ''-'' then map_option (\<lambda>n. - int n) (nat_text r)
          else if c = CHR ''+'' then map_option int (nat_text r) else map_option int (nat_text (c # r)))"

text \<open>\<open>text.partition("=")\<close> without the separator.\<close>

definition at_equals :: "string \<Rightarrow> string \<times> string" where
  "at_equals t = (takeWhile (\<lambda>c. c \<noteq> CHR ''='') t, drop 1 (dropWhile (\<lambda>c. c \<noteq> CHR ''='') t))"

definition header_of :: "webhook_request \<Rightarrow> string \<Rightarrow> string" where
  "header_of raw name = (case map_of (wr_headers raw) name of Some h \<Rightarrow> h | None \<Rightarrow> [])"

definition WEBHOOK_TOLERANCE_SECONDS :: int where "WEBHOOK_TOLERANCE_SECONDS = 300"

definition in_tolerance :: "datetime \<Rightarrow> int \<Rightarrow> bool" where
  "in_tolerance now timestamp \<longleftrightarrow> \<not> seconds WEBHOOK_TOLERANCE_SECONDS < \<bar>now - seconds timestamp\<bar>"

text \<open>\<open>core/security.py\<close>.\<close>

definition verify_signature :: "hook_client \<Rightarrow> string \<Rightarrow> string \<Rightarrow> int \<Rightarrow> string \<Rightarrow> bool" where
  "verify_signature hc payload secret timestamp signature = (sign_payload hc payload secret timestamp = signature)"

text \<open>The parsed body of a request whose signature was good; \<open>None\<close> is a \<open>JSONDecodeError\<close>.\<close>

definition load_body :: "outside \<Rightarrow> webhook_request \<Rightarrow> error + json" where
  "load_body w raw =
     (case ow_loads w (wr_body raw) of None \<Rightarrow> raise_error WebhookSignatureInvalidError | Some j \<Rightarrow> Inr j)"

record invoice_ref =
  ir_provider_invoice_id :: string
  ir_number :: "string option"
  ir_status :: string
  ir_total_cents :: int
  ir_currency :: string
  ir_hosted_url :: "string option"
  ir_pdf_url :: "string option"
  ir_issued_at :: "datetime option"
  ir_paid_at :: "datetime option"

record create_subscription_request =
  uq_plan_key :: string
  uq_price_cents :: int
  uq_currency :: string
  uq_interval :: string
  uq_provider_customer_id :: string
  uq_trial_days :: int

definition org_text :: "uuid option \<Rightarrow> string" where
  "org_text org = (case org of Some i \<Rightarrow> nat_str i | None \<Rightarrow> [])"

section \<open>Stripe\<close>

text \<open>Form encoding: nested keys in brackets, booleans in lower case, \<open>None\<close> left out.\<close>

fun stripe_flatten :: "outside \<Rightarrow> string \<Rightarrow> json_object \<Rightarrow> (string \<times> string) list \<Rightarrow> (string \<times> string) list" where
  "stripe_flatten w prefix [] flat = flat"
| "stripe_flatten w prefix ((key, value) # rest) flat =
     (let full = (if prefix \<noteq> [] then prefix @ ''['' @ key @ '']'' else key)
      in stripe_flatten w prefix rest
           (case value of
              JObj d \<Rightarrow> foldl (\<lambda>acc (k, v). dict_set k v acc) flat (stripe_flatten w full d [])
            | JBool b \<Rightarrow> dict_set full (if b then ''true'' else ''false'') flat
            | JNull \<Rightarrow> flat
            | _ \<Rightarrow> dict_set full (py_str w value) flat))"

definition stripe_request :: "outside \<Rightarrow> hosted_config \<Rightarrow> string \<Rightarrow> string \<Rightarrow> json_object \<Rightarrow> error + json" where
  "stripe_request w cfg verb path data =
     bind_r (ow_http w verb (hc_api_base cfg @ path) (Basic (hc_secret_key cfg) []) (Form (stripe_flatten w [] data []))) (\<lambda>r.
       if 400 \<le> hr_status r then
         bind_r (decoded r) (\<lambda>j. bind_r (as_dict j) (\<lambda>d.
           case sub_dict ''error'' d of
             None \<Rightarrow> Inl (OtherException ''AttributeError'') | Some _ \<Rightarrow> raise_error BillingProviderError))
       else decoded r)"

definition stripe_create_customer :: "outside \<Rightarrow> hosted_config \<Rightarrow> create_customer_request \<Rightarrow> error + customer_ref" where
  "stripe_create_customer w cfg q =
     bind_r (stripe_request w cfg ''POST'' ''/customers''
       [(''email'', JStr (cq_email q)), (''name'', opt_json JStr (cq_name q)),
        (''metadata[org]'', JStr (org_text (cq_organization_id q)))]) (\<lambda>j.
     bind_r (id_item ''id'' j) (\<lambda>i.
       Inr \<lparr>cr_provider_customer_id = i, cr_email = Some (cq_email q), cr_name = cq_name q\<rparr>))"

definition present :: "string \<Rightarrow> string option \<Rightarrow> json_object" where
  "present key t = (case t of Some x \<Rightarrow> if x = [] then [] else [(key, JStr x)] | None \<Rightarrow> [])"

definition stripe_checkout_data :: "create_checkout_request \<Rightarrow> json_object" where
  "stripe_checkout_data q =
     [(''mode'', JStr ''subscription''), (''line_items[0][quantity]'', JInt 1),
      (''line_items[0][price_data][currency]'', JStr (map lower_char (kq_currency q))),
      (''line_items[0][price_data][unit_amount]'', JInt (kq_price_cents q)),
      (''line_items[0][price_data][recurring][interval]'', JStr (kq_interval q)),
      (''line_items[0][price_data][product_data][name]'', JStr (kq_plan_name q)),
      (''metadata[plan_key]'', JStr (kq_plan_key q)),
      (''metadata[org_id]'', JStr (org_text (kq_organization_id q)))]
     @ present ''customer'' (kq_provider_customer_id q) @ present ''success_url'' (kq_success_url q)
     @ present ''cancel_url'' (kq_cancel_url q)"

definition stripe_create_checkout :: "outside \<Rightarrow> hosted_config \<Rightarrow> create_checkout_request \<Rightarrow> error + checkout_result" where
  "stripe_create_checkout w cfg q =
     bind_r (stripe_request w cfg ''POST'' ''/checkout/sessions'' (stripe_checkout_data q)) (\<lambda>j.
     bind_r (as_dict j) (\<lambda>d.
     bind_r (id_item ''id'' j) (\<lambda>i.
       Inr \<lparr>co_url = opt_str d ''url'', co_provider = ''stripe'', co_provider_checkout_id = Some i\<rparr>)))"

definition stripe_portal_url :: "outside \<Rightarrow> hosted_config \<Rightarrow> string \<Rightarrow> string \<Rightarrow> error + string" where
  "stripe_portal_url w cfg customer return_url =
     bind_r (stripe_request w cfg ''POST'' ''/billing_portal/sessions''
       [(''customer'', JStr customer), (''return_url'', JStr return_url)]) (\<lambda>j.
     bind_r (py_item ''url'' j) (\<lambda>u. Inr (py_str w u)))"

definition time_of :: "json_object \<Rightarrow> string \<Rightarrow> error + datetime option" where
  "time_of d key =
     (case as_int (map_of d key) of
        None \<Rightarrow> Inr None
      | Some n \<Rightarrow> (case from_timestamp (JInt n) of None \<Rightarrow> Inl ValueError | Some t \<Rightarrow> Inr (Some t)))"

definition stripe_subscription_ref :: "json \<Rightarrow> error + subscription_ref" where
  "stripe_subscription_ref j =
     bind_r (as_dict j) (\<lambda>d.
     bind_r (time_of d ''current_period_end'') (\<lambda>period_end.
     bind_r (id_item ''id'' j) (\<lambda>i.
       Inr \<lparr>sr_provider_subscription_id = i,
            sr_status = (case opt_str d ''status'' of None \<Rightarrow> ''active'' | Some t \<Rightarrow> t),
            sr_current_period_end = period_end\<rparr>)))"

definition stripe_create_subscription ::
  "outside \<Rightarrow> hosted_config \<Rightarrow> create_subscription_request \<Rightarrow> error + subscription_ref" where
  "stripe_create_subscription w cfg q =
     bind_r (stripe_request w cfg ''POST'' ''/subscriptions''
       ([(''customer'', JStr (uq_provider_customer_id q)),
         (''items[0][price_data][currency]'', JStr (map lower_char (uq_currency q))),
         (''items[0][price_data][unit_amount]'', JInt (uq_price_cents q)),
         (''items[0][price_data][recurring][interval]'', JStr (uq_interval q)),
         (''items[0][price_data][product_data][name]'', JStr (uq_plan_key q)),
         (''metadata[plan_key]'', JStr (uq_plan_key q))]
        @ (if uq_trial_days q \<noteq> 0 then [(''trial_period_days'', JInt (uq_trial_days q))] else []))) stripe_subscription_ref"

definition stripe_change_plan :: "outside \<Rightarrow> hosted_config \<Rightarrow> string \<Rightarrow> change_plan_request \<Rightarrow> error + subscription_ref" where
  "stripe_change_plan w cfg i q =
     bind_r (stripe_request w cfg ''GET'' (''/subscriptions/'' @ i) []) (\<lambda>current.
     bind_r (py_item ''items'' current) (\<lambda>items.
     bind_r (py_item ''data'' items) (\<lambda>data.
     bind_r (py_first data) (\<lambda>first_item.
     bind_r (py_item ''id'' first_item) (\<lambda>item_id.
     bind_r (stripe_request w cfg ''POST'' (''/subscriptions/'' @ i)
       [(''items[0][id]'', item_id),
        (''items[0][price_data][currency]'', JStr (map lower_char (pq_currency q))),
        (''items[0][price_data][unit_amount]'', JInt (pq_price_cents q)),
        (''items[0][price_data][recurring][interval]'', JStr (pq_interval q)),
        (''metadata[plan_key]'', JStr (pq_plan_key q))]) stripe_subscription_ref)))))"

definition stripe_cancel_subscription :: "outside \<Rightarrow> hosted_config \<Rightarrow> string \<Rightarrow> bool \<Rightarrow> error + subscription_ref" where
  "stripe_cancel_subscription w cfg i at_period_end =
     bind_r (if at_period_end
             then stripe_request w cfg ''POST'' (''/subscriptions/'' @ i) [(''cancel_at_period_end'', JBool True)]
             else stripe_request w cfg ''DELETE'' (''/subscriptions/'' @ i) []) stripe_subscription_ref"

definition stripe_get_subscription :: "outside \<Rightarrow> hosted_config \<Rightarrow> string \<Rightarrow> error + subscription_ref" where
  "stripe_get_subscription w cfg i =
     bind_r (stripe_request w cfg ''GET'' (''/subscriptions/'' @ i) []) stripe_subscription_ref"

text \<open>\<open>x if x else None\<close> of a time that may be missing or zero.\<close>

definition time_if_set :: "json option \<Rightarrow> error + datetime option" where
  "time_if_set v =
     (if \<not> is_true v then Inr None
      else case from_timestamp (the v) of None \<Rightarrow> Inl (OtherException ''TypeError'') | Some t \<Rightarrow> Inr (Some t))"

definition stripe_invoice_ref :: "json \<Rightarrow> error + invoice_ref" where
  "stripe_invoice_ref j =
     bind_r (as_dict j) (\<lambda>d.
     bind_r (id_item ''id'' j) (\<lambda>i.
     bind_r (case upper_text ''currency'' d of None \<Rightarrow> Inl (OtherException ''AttributeError'') | Some c \<Rightarrow> Inr c) (\<lambda>currency.
     bind_r (time_if_set (map_of d ''created'')) (\<lambda>issued.
     bind_r (case sub_dict ''status_transitions'' d of None \<Rightarrow> Inl (OtherException ''AttributeError'')
             | Some st \<Rightarrow> time_if_set (map_of st ''paid_at'')) (\<lambda>paid.
       Inr \<lparr>ir_provider_invoice_id = i, ir_number = opt_str d ''number'',
            ir_status = (case opt_str d ''status'' of None \<Rightarrow> ''open'' | Some t \<Rightarrow> t),
            ir_total_cents = (case opt_int d ''total'' of None \<Rightarrow> 0 | Some n \<Rightarrow> n),
            ir_currency = (case currency of None \<Rightarrow> ''PHP'' | Some c \<Rightarrow> c),
            ir_hosted_url = opt_str d ''hosted_invoice_url'', ir_pdf_url = opt_str d ''invoice_pdf'',
            ir_issued_at = issued, ir_paid_at = paid\<rparr>)))))"

fun collect_r :: "('a \<Rightarrow> error + 'b) \<Rightarrow> 'a list \<Rightarrow> error + 'b list" where
  "collect_r f [] = Inr []"
| "collect_r f (x # xs) = bind_r (f x) (\<lambda>y. bind_r (collect_r f xs) (\<lambda>ys. Inr (y # ys)))"

definition listed :: "(json \<Rightarrow> error + invoice_ref) \<Rightarrow> json \<Rightarrow> error + invoice_ref list" where
  "listed f j =
     bind_r (as_dict j) (\<lambda>d.
       case map_of d ''data'' of
         None \<Rightarrow> Inr [] | Some (JList xs) \<Rightarrow> collect_r f xs | Some _ \<Rightarrow> Inl (OtherException ''TypeError''))"

definition stripe_list_invoices :: "outside \<Rightarrow> hosted_config \<Rightarrow> string \<Rightarrow> int \<Rightarrow> error + invoice_ref list" where
  "stripe_list_invoices w cfg customer limit =
     bind_r (stripe_request w cfg ''GET'' (''/invoices?customer='' @ customer @ ''&limit='' @ int_str limit) [])
       (listed stripe_invoice_ref)"

definition stripe_upsert_product_and_price ::
  "outside \<Rightarrow> hosted_config \<Rightarrow> string \<Rightarrow> string \<Rightarrow> int \<Rightarrow> string \<Rightarrow> string \<Rightarrow> error + (json \<times> json)" where
  "stripe_upsert_product_and_price w cfg pkey name unit_price currency every =
     bind_r (stripe_request w cfg ''POST'' ''/products'' [(''name'', JStr name), (''metadata[plan_key]'', JStr pkey)]) (\<lambda>product.
     bind_r (py_item ''id'' product) (\<lambda>product_id.
     bind_r (stripe_request w cfg ''POST'' ''/prices''
       [(''product'', product_id), (''currency'', JStr (map lower_char currency)), (''unit_amount'', JInt unit_price),
        (''recurring[interval]'', JStr every)]) (\<lambda>price.
     bind_r (py_item ''id'' price) (\<lambda>price_id. Inr (product_id, price_id)))))"

text \<open>The parts of a signature header; the first signature is the one compared.\<close>

definition signature_parts :: "string \<Rightarrow> (string \<times> string) list" where
  "signature_parts header = map (\<lambda>p. at_equals (strip p)) (split_commas header)"

fun stripe_scan :: "(string \<times> string) list \<Rightarrow> int option \<Rightarrow> string list \<Rightarrow> (int \<times> string) option" where
  "stripe_scan [] timestamp signatures =
     (case (timestamp, signatures) of (Some t, v # _) \<Rightarrow> Some (t, v) | _ \<Rightarrow> None)"
| "stripe_scan ((key, value) # rest) timestamp signatures =
     (if key = ''t'' then
        (case py_int value of None \<Rightarrow> None | Some t \<Rightarrow> stripe_scan rest (Some t) signatures)
      else if key = ''v1'' \<and> value \<noteq> [] then stripe_scan rest timestamp (signatures @ [value])
      else stripe_scan rest timestamp signatures)"

definition parse_stripe_signature :: "string \<Rightarrow> (int \<times> string) option" where
  "parse_stripe_signature header = stripe_scan (signature_parts header) None []"

text \<open>Both providers with the scheme check it the same way.\<close>

definition timed_signature ::
  "outside \<Rightarrow> hosted_config \<Rightarrow> webhook_request \<Rightarrow> (int \<times> string) option \<Rightarrow> error + json" where
  "timed_signature w cfg raw parsed_header =
     (case parsed_header of
        None \<Rightarrow> raise_error WebhookSignatureInvalidError
      | Some (timestamp, signature) \<Rightarrow>
          bind_r (guard_r (in_tolerance (ow_now w) timestamp) (Domain WebhookSignatureInvalidError [])) (\<lambda>_.
          bind_r (guard_r (verify_signature (ow_hooks w) (wr_body raw) (hc_webhook_secret cfg) timestamp signature)
                    (Domain WebhookSignatureInvalidError [])) (\<lambda>_. load_body w raw)))"

definition stripe_verify :: "outside \<Rightarrow> hosted_config \<Rightarrow> webhook_request \<Rightarrow> error + verified_webhook" where
  "stripe_verify w cfg raw =
     bind_r (timed_signature w cfg raw (parse_stripe_signature (header_of raw ''stripe-signature''))) (\<lambda>j.
     bind_r (as_dict j) (\<lambda>d.
       Inr \<lparr>vw_provider_event_id = get_text w ''id'' [] d, vw_event_type = get_text w ''type'' [] d,
            vw_parsed = d, vw_received_at = ow_now w\<rparr>))"

definition stripe_types :: "(string \<times> billing_event_type) list" where
  "stripe_types =
     [(''customer.subscription.created'', BE_SUBSCRIPTION_CREATED),
      (''customer.subscription.updated'', BE_SUBSCRIPTION_UPDATED),
      (''customer.subscription.deleted'', BE_SUBSCRIPTION_CANCELED),
      (''invoice.paid'', BE_INVOICE_PAID), (''invoice.payment_failed'', BE_INVOICE_FAILED),
      (''checkout.session.completed'', BE_CHECKOUT_COMPLETED)]"

definition stripe_statuses :: "string list" where
  "stripe_statuses = [''trialing'', ''active'', ''past_due'', ''canceled'', ''unpaid'', ''incomplete'']"

text \<open>\<open>status_map.get(data.get("status", ""))\<close>; a list or an object is not hashable.\<close>

definition known_status :: "json_object \<Rightarrow> string option option" where
  "known_status d =
     (case map_of d ''status'' of
        Some (JStr t) \<Rightarrow> Some (if t \<in> set stripe_statuses then Some t else None)
      | Some (JList _) \<Rightarrow> None | Some (JObj _) \<Rightarrow> None | _ \<Rightarrow> Some None)"

definition ok_option :: "error + 'a \<Rightarrow> 'a option" where
  "ok_option r = (case r of Inl _ \<Rightarrow> None | Inr x \<Rightarrow> Some x)"

text \<open>\<open>None\<close> when anything raises; the caller stores that as unprocessable.\<close>

definition stripe_translate :: "outside \<Rightarrow> verified_webhook \<Rightarrow> billing_event list option" where
  "stripe_translate w v =
     Option.bind (sub_dict ''data'' (vw_parsed v)) (\<lambda>outer.
     Option.bind (case map_of (vw_parsed v) ''created'' of
                    None \<Rightarrow> from_timestamp (JInt (ow_now w div 1000000)) | Some j \<Rightarrow> from_timestamp j) (\<lambda>occurred_at.
       case map_of stripe_types (vw_event_type v) of
         None \<Rightarrow> Some []
       | Some canonical \<Rightarrow>
           Option.bind (sub_dict ''object'' outer) (\<lambda>d.
           Option.bind (ok_option (time_of d ''current_period_end'')) (\<lambda>period_end.
           Option.bind (or_dict ''metadata'' d) (\<lambda>metadata.
           Option.bind (known_status d) (\<lambda>status.
           Option.bind (upper_text ''currency'' d) (\<lambda>currency.
             Some [\<lparr>be_event_type = canonical, be_provider_event_id = vw_provider_event_id v,
               be_occurred_at = occurred_at, be_provider_customer_id = opt_str d ''customer'',
               be_provider_subscription_id =
                 (if mentions ''subscription'' (vw_event_type v) then opt_str d ''id'' else opt_str d ''subscription''),
               be_provider_invoice_id = (if mentions ''invoice'' (vw_event_type v) then opt_str d ''id'' else None),
               be_plan_key = opt_str metadata ''plan_key'', be_status = status, be_current_period_end = period_end,
               be_amount_cents = (if is_true (map_of d ''amount_paid'') then opt_int d ''amount_paid'' else opt_int d ''amount_due''),
               be_currency = currency, be_hosted_url = opt_str d ''hosted_invoice_url''\<rparr>]))))))) "

definition stripe_provider :: "outside \<Rightarrow> hosted_config \<Rightarrow> billing_provider" where
  "stripe_provider w cfg =
     \<lparr>pv_name = ''stripe'', pv_supports = {HOSTED_CHECKOUT, BILLING_PORTAL, RECURRING_HOSTED, PLAN_SYNC, WEBHOOK_SIGNED},
      pv_create_customer = stripe_create_customer w cfg, pv_create_checkout = stripe_create_checkout w cfg,
      pv_billing_portal_url = stripe_portal_url w cfg, pv_change_plan = stripe_change_plan w cfg,
      pv_verify_webhook = stripe_verify w cfg, pv_translate_webhook = stripe_translate w\<rparr>"

section \<open>PayMongo\<close>

definition basic_request :: "outside \<Rightarrow> hosted_config \<Rightarrow> string \<Rightarrow> string \<Rightarrow> json option \<Rightarrow> error + json" where
  "basic_request w cfg verb path body =
     bind_r (ow_http w verb (hc_api_base cfg @ path) (Basic (hc_secret_key cfg) [])
               (case body of None \<Rightarrow> No_body | Some j \<Rightarrow> Json_body j)) (\<lambda>r.
       if 400 \<le> hr_status r then raise_error BillingProviderError else decoded r)"

definition paymongo_create_customer :: "outside \<Rightarrow> create_customer_request \<Rightarrow> error + customer_ref" where
  "paymongo_create_customer w q =
     Inr \<lparr>cr_provider_customer_id = ''paymongo_'' @ ow_token w, cr_email = Some (cq_email q), cr_name = cq_name q\<rparr>"

definition paymongo_checkout_body :: "create_checkout_request \<Rightarrow> json" where
  "paymongo_checkout_body q =
     JObj [(''data'', JObj [(''attributes'', JObj
       [(''line_items'', JList [JObj [(''name'', JStr (kq_plan_name q)), (''amount'', JInt (kq_price_cents q)),
           (''currency'', JStr (kq_currency q)), (''quantity'', JInt 1)]]),
        (''metadata'', JObj [(''plan_key'', JStr (kq_plan_key q)), (''org_id'', JStr (org_text (kq_organization_id q)))])])])]"

definition paymongo_create_checkout :: "outside \<Rightarrow> hosted_config \<Rightarrow> create_checkout_request \<Rightarrow> error + checkout_result" where
  "paymongo_create_checkout w cfg q =
     bind_r (basic_request w cfg ''POST'' ''/checkout_sessions'' (Some (paymongo_checkout_body q))) (\<lambda>j.
     bind_r (py_item ''data'' j) (\<lambda>data.
     bind_r (py_item ''attributes'' data) (\<lambda>a.
     bind_r (as_dict a) (\<lambda>attributes.
     bind_r (id_item ''id'' data) (\<lambda>i.
       Inr \<lparr>co_url = opt_str attributes ''checkout_url'', co_provider = ''paymongo'',
            co_provider_checkout_id = Some i\<rparr>)))))"

text \<open>
  PayMongo, Xendit and Paddle keep no subscription: the program bills it, and these answers are made up
  locally. \<open>prefix\<close> is the provider's word in a new reference.
\<close>

definition local_create_subscription ::
  "string \<Rightarrow> outside \<Rightarrow> create_subscription_request \<Rightarrow> error + subscription_ref" where
  "local_create_subscription prefix w q =
     Inr \<lparr>sr_provider_subscription_id = prefix @ ''sub_'' @ ow_token w, sr_status = ''active'',
          sr_current_period_end = Some (ow_now w + days 30)\<rparr>"

definition local_change_plan :: "outside \<Rightarrow> string \<Rightarrow> change_plan_request \<Rightarrow> error + subscription_ref" where
  "local_change_plan w i q =
     Inr \<lparr>sr_provider_subscription_id = i, sr_status = ''active'', sr_current_period_end = Some (ow_now w + days 30)\<rparr>"

definition local_cancel_subscription :: "string \<Rightarrow> bool \<Rightarrow> error + subscription_ref" where
  "local_cancel_subscription i at_period_end =
     Inr \<lparr>sr_provider_subscription_id = i, sr_status = ''canceled'', sr_current_period_end = None\<rparr>"

definition local_get_subscription :: "outside \<Rightarrow> string \<Rightarrow> error + subscription_ref" where
  "local_get_subscription w i =
     Inr \<lparr>sr_provider_subscription_id = i, sr_status = ''active'', sr_current_period_end = Some (ow_now w + days 30)\<rparr>"

definition no_invoices :: "string \<Rightarrow> int \<Rightarrow> error + invoice_ref list" where
  "no_invoices customer limit = Inr []"

text \<open>The last time and the last signature of the header count.\<close>

fun paymongo_scan :: "(string \<times> string) list \<Rightarrow> int option \<Rightarrow> string option \<Rightarrow> (int \<times> string) option" where
  "paymongo_scan [] timestamp signature =
     (case (timestamp, signature) of (Some t, Some v) \<Rightarrow> Some (t, v) | _ \<Rightarrow> None)"
| "paymongo_scan ((key, value) # rest) timestamp signature =
     (if key = ''t'' then paymongo_scan rest (py_int value) signature
      else if key = ''v1'' \<and> value \<noteq> [] then paymongo_scan rest timestamp (Some value)
      else paymongo_scan rest timestamp signature)"

definition parse_paymongo_signature :: "string \<Rightarrow> (int \<times> string) option" where
  "parse_paymongo_signature header = paymongo_scan (signature_parts header) None None"

text \<open>\<open>str(d.get(key) or f"{word}_{token}")\<close>.\<close>

definition event_id :: "outside \<Rightarrow> string \<Rightarrow> string \<Rightarrow> json_object \<Rightarrow> string" where
  "event_id w key word d =
     (if is_true (map_of d key) then py_str w (the (map_of d key)) else word @ ''_'' @ ow_token w)"

definition paymongo_verify :: "outside \<Rightarrow> hosted_config \<Rightarrow> webhook_request \<Rightarrow> error + verified_webhook" where
  "paymongo_verify w cfg raw =
     bind_r (timed_signature w cfg raw (parse_paymongo_signature (header_of raw ''paymongo-signature''))) (\<lambda>j.
     bind_r (as_dict j) (\<lambda>d.
       case Option.bind (sub_dict ''data'' d) (sub_dict ''attributes'') of
         None \<Rightarrow> Inl (OtherException ''AttributeError'')
       | Some attributes \<Rightarrow>
           Inr \<lparr>vw_provider_event_id = event_id w ''id'' ''paymongo'' d,
                vw_event_type = (case map_of d ''type'' of Some v \<Rightarrow> py_str w v | None \<Rightarrow> get_text w ''type'' [] attributes),
                vw_parsed = d, vw_received_at = ow_now w\<rparr>))"

definition paymongo_types :: "(string \<times> billing_event_type) list" where
  "paymongo_types =
     [(''checkout_session.completed'', BE_CHECKOUT_COMPLETED), (''payment.paid'', BE_INVOICE_PAID),
      (''payment.failed'', BE_PAYMENT_FAILED)]"

text \<open>The first line item with an amount; \<open>None\<close> outside when an item is not an object.\<close>

fun first_amount :: "json list \<Rightarrow> json option option" where
  "first_amount [] = Some None"
| "first_amount (JObj d # rest) = (if is_true (map_of d ''amount'') then Some (map_of d ''amount'') else first_amount rest)"
| "first_amount (_ # rest) = None"

definition or_list :: "string \<Rightarrow> json_object \<Rightarrow> json list option" where
  "or_list key d = (case map_of d key of Some (JList xs) \<Rightarrow> Some xs | v \<Rightarrow> if is_true v then None else Some [])"

definition paymongo_translate :: "outside \<Rightarrow> hosted_config \<Rightarrow> verified_webhook \<Rightarrow> billing_event list option" where
  "paymongo_translate w cfg v =
     Option.bind (sub_dict ''data'' (vw_parsed v)) (\<lambda>data.
     Option.bind (sub_dict ''attributes'' data) (\<lambda>attributes.
       case map_of paymongo_types (vw_event_type v) of
         None \<Rightarrow> Some []
       | Some canonical \<Rightarrow>
           Option.bind (or_list ''line_items'' attributes) (\<lambda>items.
           Option.bind (first_amount items) (\<lambda>item_amount.
           Option.bind (or_dict ''metadata'' attributes) (\<lambda>metadata.
             Some [\<lparr>be_event_type = canonical, be_provider_event_id = vw_provider_event_id v,
               be_occurred_at = vw_received_at v, be_provider_customer_id = None, be_provider_subscription_id = None,
               be_provider_invoice_id = None, be_plan_key = opt_str metadata ''plan_key'', be_status = None,
               be_current_period_end = None,
               be_amount_cents =
                 (case item_amount of Some a \<Rightarrow> (case a of JInt n \<Rightarrow> Some n | _ \<Rightarrow> None)
                  | None \<Rightarrow> if is_true (map_of attributes ''amount'') then opt_int attributes ''amount'' else None),
               be_currency = (case map_of metadata ''currency'' of None \<Rightarrow> Some (hc_currency cfg) | Some _ \<Rightarrow> opt_str metadata ''currency''),
               be_hosted_url = None\<rparr>])))))"

definition paymongo_provider :: "outside \<Rightarrow> hosted_config \<Rightarrow> billing_provider" where
  "paymongo_provider w cfg =
     \<lparr>pv_name = ''paymongo'', pv_supports = {HOSTED_CHECKOUT, WEBHOOK_SIGNED},
      pv_create_customer = paymongo_create_customer w, pv_create_checkout = paymongo_create_checkout w cfg,
      pv_billing_portal_url = (\<lambda>_ _. Inl NotImplementedError), pv_change_plan = local_change_plan w,
      pv_verify_webhook = paymongo_verify w cfg, pv_translate_webhook = paymongo_translate w cfg\<rparr>"

section \<open>Xendit\<close>

text \<open>\<open>Decimal(text)\<close>: a coefficient and a power of ten, or a special value.\<close>

datatype decimal = Finite int int | Special

definition unsigned_decimal :: "string \<Rightarrow> (nat \<times> int) option" where
  "unsigned_decimal t =
     (let whole = takeWhile is_digit t; r1 = dropWhile is_digit t;
          (frac, r2) = (case r1 of c # q \<Rightarrow> if c = CHR ''.'' then (takeWhile is_digit q, dropWhile is_digit q) else ([], r1)
                        | [] \<Rightarrow> ([], r1));
          exponent = (case r2 of
              [] \<Rightarrow> Some 0
            | c # q \<Rightarrow>
                if lower_char c \<noteq> CHR ''e'' then None
                else (let ds = (if q \<noteq> [] \<and> hd q \<in> {CHR ''+'', CHR ''-''} then tl q else q)
                      in if ds = [] \<or> \<not> list_all is_digit ds then None
                         else Some (if hd q = CHR ''-'' then - int (str_nat ds) else int (str_nat ds))))
      in if whole @ frac = [] then None
         else map_option (\<lambda>e. (str_nat (whole @ frac), e - int (length frac))) exponent)"

definition is_special :: "string \<Rightarrow> bool" where
  "is_special t =
     (let u = map lower_char t
      in u \<in> {''inf'', ''infinity''} \<or> starts_with ''nan'' u \<and> list_all is_digit (drop 3 u)
         \<or> starts_with ''snan'' u \<and> list_all is_digit (drop 4 u))"

definition read_decimal :: "string \<Rightarrow> decimal option" where
  "read_decimal text =
     (let t = filter (\<lambda>c. c \<noteq> CHR ''_'') (strip text);
          u = (if t \<noteq> [] \<and> hd t \<in> {CHR ''+'', CHR ''-''} then tl t else t);
          s = (if t \<noteq> [] \<and> hd t = CHR ''-'' then -1 else 1)
      in if is_special u then Some Special else map_option (\<lambda>(c, e). Finite (s * int c) e) (unsigned_decimal u))"

text \<open>A product rounded to the 28 digits of the default context, half to even.\<close>

definition digit_count :: "int \<Rightarrow> nat" where
  "digit_count n = length (nat_str (nat \<bar>n\<bar>))"

definition in_context :: "int \<times> int \<Rightarrow> int \<times> int" where
  "in_context x =
     (if digit_count (fst x) \<le> 28 then x
      else (half_even_div (fst x) (10 ^ (digit_count (fst x) - 28)), snd x + int (digit_count (fst x) - 28)))"

text \<open>\<open>quantize(Decimal(1), ROUND_HALF_UP)\<close>; \<open>None\<close> is \<open>InvalidOperation\<close>.\<close>

definition quantize_half_up :: "int \<times> int \<Rightarrow> int option" where
  "quantize_half_up x =
     (let c = fst x; e = snd x;
          n = (if 0 \<le> e then c * 10 ^ nat e
               else sgn c * ((\<bar>c\<bar> + 10 ^ nat (- e) div 2) div 10 ^ nat (- e)))
      in if digit_count n \<le> 28 then Some n else None)"

definition minor_units :: "outside \<Rightarrow> json \<Rightarrow> error + int" where
  "minor_units w amount =
     (case read_decimal (py_str w amount) of
        None \<Rightarrow> raise_error BillingProviderError
      | Some Special \<Rightarrow> Inl (OtherException ''InvalidOperation'')
      | Some (Finite c e) \<Rightarrow>
          (case quantize_half_up (in_context (c * 100, e)) of
             None \<Rightarrow> Inl (OtherException ''InvalidOperation'') | Some n \<Rightarrow> Inr n))"

text \<open>\<open>cents / 100\<close>: the double nearest to the quotient.\<close>

definition float_hundredths :: "int \<Rightarrow> json" where
  "float_hundredths n =
     (if n = 0 then JFloat 0 0
      else let b = bit_length (nat ((\<bar>n\<bar> * 128) div 100));
               q = (if b \<le> 60 then half_even_div (\<bar>n\<bar> * 2 ^ (60 - b)) 100
                    else half_even_div \<bar>n\<bar> (100 * 2 ^ (b - 60)) * 2 ^ (b - 60))
           in JFloat (sgn n * q) (60 - b))"

definition xendit_create_customer :: "outside \<Rightarrow> hosted_config \<Rightarrow> create_customer_request \<Rightarrow> error + customer_ref" where
  "xendit_create_customer w cfg q =
     bind_r (basic_request w cfg ''POST'' ''/customers'' (Some (JObj
       [(''reference_id'', JStr (case cq_organization_id q of Some i \<Rightarrow> nat_str i | None \<Rightarrow> ow_token w)),
        (''email'', JStr (cq_email q)), (''given_names'', opt_json JStr (cq_name q))]))) (\<lambda>j.
     bind_r (id_item ''id'' j) (\<lambda>i.
       Inr \<lparr>cr_provider_customer_id = i, cr_email = Some (cq_email q), cr_name = cq_name q\<rparr>))"

definition xendit_create_checkout :: "outside \<Rightarrow> hosted_config \<Rightarrow> create_checkout_request \<Rightarrow> error + checkout_result" where
  "xendit_create_checkout w cfg q =
     bind_r (basic_request w cfg ''POST'' ''/invoices'' (Some (JObj
       [(''external_id'', JStr (''synapse_'' @ kq_plan_key q @ ''_'' @ ow_token w)),
        (''amount'', float_hundredths (kq_price_cents q)), (''currency'', JStr (kq_currency q)),
        (''description'', JStr (kq_plan_name q @ '' ('' @ kq_interval q @ ''ly)'')), (''payer_email'', JNull),
        (''success_redirect_url'', opt_json JStr (kq_success_url q)),
        (''failure_redirect_url'', opt_json JStr (kq_cancel_url q))]))) (\<lambda>j.
     bind_r (as_dict j) (\<lambda>d.
       Inr \<lparr>co_url = opt_str d ''invoice_url'', co_provider = ''xendit'', co_provider_checkout_id = opt_str d ''id''\<rparr>))"

definition xendit_invoice_ref :: "outside \<Rightarrow> hosted_config \<Rightarrow> json \<Rightarrow> error + invoice_ref" where
  "xendit_invoice_ref w cfg j =
     bind_r (as_dict j) (\<lambda>d.
     bind_r (minor_units w (case map_of d ''amount'' of None \<Rightarrow> JInt 0 | Some a \<Rightarrow> a)) (\<lambda>total.
       Inr \<lparr>ir_provider_invoice_id = (case opt_str d ''id'' of None \<Rightarrow> [] | Some t \<Rightarrow> t), ir_number = opt_str d ''external_id'',
            ir_status = (if opt_str d ''status'' = Some ''PAID'' then ''paid'' else ''open''), ir_total_cents = total,
            ir_currency = (case opt_str d ''currency'' of None \<Rightarrow> hc_currency cfg | Some t \<Rightarrow> t),
            ir_hosted_url = opt_str d ''invoice_url'', ir_pdf_url = None, ir_issued_at = None, ir_paid_at = None\<rparr>))"

definition xendit_list_invoices :: "outside \<Rightarrow> hosted_config \<Rightarrow> string \<Rightarrow> int \<Rightarrow> error + invoice_ref list" where
  "xendit_list_invoices w cfg customer limit =
     bind_r (basic_request w cfg ''GET'' (''/v2/invoices?limit='' @ int_str limit) None) (listed (xendit_invoice_ref w cfg))"

definition xendit_verify :: "outside \<Rightarrow> hosted_config \<Rightarrow> webhook_request \<Rightarrow> error + verified_webhook" where
  "xendit_verify w cfg raw =
     (if hc_webhook_secret cfg = [] \<or> header_of raw ''x-callback-token'' \<noteq> hc_webhook_secret cfg
      then raise_error WebhookSignatureInvalidError
      else bind_r (load_body w raw) (\<lambda>j. bind_r (as_dict j) (\<lambda>d.
             Inr \<lparr>vw_provider_event_id = event_id w ''id'' ''xendit'' d, vw_event_type = get_text w ''status'' [] d,
                  vw_parsed = d, vw_received_at = ow_now w\<rparr>)))"

definition xendit_types :: "(string \<times> billing_event_type) list" where
  "xendit_types = [(''PAID'', BE_INVOICE_PAID), (''EXPIRED'', BE_INVOICE_FAILED)]"

text \<open>\<open>str.isdigit\<close>, which also holds of superscript digits that \<open>int\<close> refuses.\<close>

definition isdigit_char :: "char \<Rightarrow> bool" where
  "isdigit_char c \<longleftrightarrow> is_digit c \<or> (of_char c :: nat) \<in> {178, 179, 185}"

definition xendit_occurred :: "outside \<Rightarrow> json_object \<Rightarrow> datetime option" where
  "xendit_occurred w d =
     (if \<not> is_true (map_of d ''created'') then Some (ow_now w)
      else let t = py_str w (the (map_of d ''created'')); u = filter (\<lambda>c. c \<noteq> CHR ''-'') t
           in if u \<noteq> [] \<and> list_all isdigit_char u
              then Option.bind (py_int (take 10 t)) (\<lambda>n. from_timestamp (JInt n)) else Some (ow_now w))"

definition xendit_translate :: "outside \<Rightarrow> hosted_config \<Rightarrow> verified_webhook \<Rightarrow> billing_event list option" where
  "xendit_translate w cfg v =
     (let d = vw_parsed v
      in case map_of xendit_types (vw_event_type v) of
           None \<Rightarrow> Some []
         | Some canonical \<Rightarrow>
             Option.bind (case map_of d ''amount'' of
                 None \<Rightarrow> Some None | Some JNull \<Rightarrow> Some None
               | Some a \<Rightarrow> map_option Some (ok_option (minor_units w a))) (\<lambda>amount.
             Option.bind (xendit_occurred w d) (\<lambda>occurred.
               Some [\<lparr>be_event_type = canonical, be_provider_event_id = vw_provider_event_id v,
                 be_occurred_at = occurred, be_provider_customer_id = opt_str d ''customer_id'',
                 be_provider_subscription_id = None, be_provider_invoice_id = opt_str d ''id'', be_plan_key = None,
                 be_status = None, be_current_period_end = None, be_amount_cents = amount,
                 be_currency = (case map_of d ''currency'' of None \<Rightarrow> Some (hc_currency cfg) | Some _ \<Rightarrow> opt_str d ''currency''),
                 be_hosted_url = opt_str d ''invoice_url''\<rparr>])))"

definition xendit_provider :: "outside \<Rightarrow> hosted_config \<Rightarrow> billing_provider" where
  "xendit_provider w cfg =
     \<lparr>pv_name = ''xendit'', pv_supports = {HOSTED_CHECKOUT, WEBHOOK_SIGNED},
      pv_create_customer = xendit_create_customer w cfg, pv_create_checkout = xendit_create_checkout w cfg,
      pv_billing_portal_url = (\<lambda>_ _. Inl NotImplementedError), pv_change_plan = local_change_plan w,
      pv_verify_webhook = xendit_verify w cfg, pv_translate_webhook = xendit_translate w cfg\<rparr>"

section \<open>Paddle\<close>

definition paddle_request :: "outside \<Rightarrow> hosted_config \<Rightarrow> string \<Rightarrow> string \<Rightarrow> json option \<Rightarrow> error + json" where
  "paddle_request w cfg verb path body =
     bind_r (ow_http w verb (hc_api_base cfg @ path) (Bearer (hc_secret_key cfg))
               (case body of None \<Rightarrow> No_body | Some j \<Rightarrow> Json_body j)) (\<lambda>r.
       if 400 \<le> hr_status r then raise_error BillingProviderError else decoded r)"

text \<open>\<open>result.get("data", result)\<close> as a dictionary.\<close>

definition paddle_data :: "json \<Rightarrow> error + json_object" where
  "paddle_data j = bind_r (as_dict j) (\<lambda>d. case map_of d ''data'' of None \<Rightarrow> Inr d | Some e \<Rightarrow> as_dict e)"

definition paddle_create_customer :: "outside \<Rightarrow> hosted_config \<Rightarrow> create_customer_request \<Rightarrow> error + customer_ref" where
  "paddle_create_customer w cfg q =
     bind_r (paddle_request w cfg ''POST'' ''/customers''
       (Some (JObj [(''email'', JStr (cq_email q)), (''name'', opt_json JStr (cq_name q))]))) (\<lambda>j.
     bind_r (paddle_data j) (\<lambda>d.
       Inr \<lparr>cr_provider_customer_id = get_text w ''id'' [] d, cr_email = Some (cq_email q), cr_name = cq_name q\<rparr>))"

definition paddle_checkout_body :: "create_checkout_request \<Rightarrow> json" where
  "paddle_checkout_body q =
     JObj [(''items'', JList [JObj [(''price'', JObj [(''unit_amount'', JInt (kq_price_cents q)),
              (''currency_code'', JStr (map lower_char (kq_currency q))),
              (''product'', JObj [(''name'', JStr (kq_plan_name q))])]), (''quantity'', JInt 1)]]),
           (''custom_data'', JObj [(''plan_key'', JStr (kq_plan_key q)), (''org_id'', JStr (org_text (kq_organization_id q)))])]"

definition paddle_create_checkout :: "outside \<Rightarrow> hosted_config \<Rightarrow> create_checkout_request \<Rightarrow> error + checkout_result" where
  "paddle_create_checkout w cfg q =
     bind_r (paddle_request w cfg ''POST'' ''/transactions'' (Some (paddle_checkout_body q))) (\<lambda>j.
     bind_r (paddle_data j) (\<lambda>d.
       Inr \<lparr>co_url = (case map_of d ''checkout'' of Some (JObj c) \<Rightarrow> opt_str c ''url'' | _ \<Rightarrow> None),
            co_provider = ''paddle'', co_provider_checkout_id = Some (get_text w ''id'' [] d)\<rparr>))"

text \<open>\<open>dict\<close> of the parts with an equals sign: a later part replaces an earlier one.\<close>

definition paddle_parts :: "string \<Rightarrow> (string \<times> string) list" where
  "paddle_parts header =
     foldl (\<lambda>acc (k, v). dict_set k v acc) []
       (map (\<lambda>p. at_equals (strip p))
         (filter (\<lambda>p. CHR ''='' \<in> set p) (concat (map (split_at_char (CHR '';'')) (split_commas header)))))"

definition paddle_signature_matches :: "hook_client \<Rightarrow> string \<Rightarrow> string \<Rightarrow> int \<Rightarrow> string \<Rightarrow> bool" where
  "paddle_signature_matches hc body secret timestamp signature =
     (hc_hmac hc secret (int_str timestamp @ '':'' @ body) = signature)"

text \<open>\<open>Inr True\<close> when the header carries a fresh and matching signature.\<close>

definition paddle_signed :: "outside \<Rightarrow> hosted_config \<Rightarrow> webhook_request \<Rightarrow> error + bool" where
  "paddle_signed w cfg raw =
     (let parts = paddle_parts (header_of raw ''paddle-signature'')
      in case (map_of parts ''ts'', map_of parts ''h1'') of
           (Some ts, Some h1) \<Rightarrow>
             if ts = [] \<or> h1 = [] \<or> hc_webhook_secret cfg = [] then Inr False
             else (case py_int ts of
                     None \<Rightarrow> raise_error WebhookSignatureInvalidError
                   | Some n \<Rightarrow>
                       bind_r (guard_r (in_tolerance (ow_now w) n) (Domain WebhookSignatureInvalidError [])) (\<lambda>_.
                         Inr (paddle_signature_matches (ow_hooks w) (wr_body raw) (hc_webhook_secret cfg) n h1)))
         | _ \<Rightarrow> Inr False)"

definition paddle_verify :: "outside \<Rightarrow> hosted_config \<Rightarrow> webhook_request \<Rightarrow> error + verified_webhook" where
  "paddle_verify w cfg raw =
     bind_r (load_body w raw) (\<lambda>j.
     bind_r (paddle_signed w cfg raw) (\<lambda>ok.
       if ok then
         bind_r (as_dict j) (\<lambda>d.
           Inr \<lparr>vw_provider_event_id = event_id w ''event_id'' ''paddle'' d, vw_event_type = get_text w ''event_type'' [] d,
                vw_parsed = d, vw_received_at = ow_now w\<rparr>)
       else raise_error WebhookSignatureInvalidError))"

definition paddle_types :: "(string \<times> billing_event_type) list" where
  "paddle_types =
     [(''transaction.completed'', BE_CHECKOUT_COMPLETED), (''subscription.activated'', BE_SUBSCRIPTION_ACTIVATED),
      (''subscription.updated'', BE_SUBSCRIPTION_UPDATED), (''subscription.canceled'', BE_SUBSCRIPTION_CANCELED),
      (''subscription.past_due'', BE_SUBSCRIPTION_PAST_DUE)]"

definition paddle_translate :: "verified_webhook \<Rightarrow> billing_event list option" where
  "paddle_translate v =
     (case map_of paddle_types (vw_event_type v) of
        None \<Rightarrow> Some []
      | Some canonical \<Rightarrow>
          Option.bind (sub_dict ''data'' (vw_parsed v)) (\<lambda>d.
          Option.bind (or_dict ''custom_data'' d) (\<lambda>custom.
          Option.bind (upper_text ''currency_code'' d) (\<lambda>currency.
            Some [\<lparr>be_event_type = canonical, be_provider_event_id = vw_provider_event_id v,
              be_occurred_at = vw_received_at v, be_provider_customer_id = opt_str d ''customer_id'',
              be_provider_subscription_id =
                (if mentions ''subscription'' (vw_event_type v) then opt_str d ''id'' else opt_str d ''subscription_id''),
              be_provider_invoice_id = None, be_plan_key = opt_str custom ''plan_key'', be_status = opt_str d ''status'',
              be_current_period_end = None,
              be_amount_cents = (case map_of d ''totals'' of Some (JObj t) \<Rightarrow> opt_int t ''total'' | _ \<Rightarrow> None),
              be_currency = currency, be_hosted_url = None\<rparr>]))))"

definition paddle_provider :: "outside \<Rightarrow> hosted_config \<Rightarrow> billing_provider" where
  "paddle_provider w cfg =
     \<lparr>pv_name = ''paddle'', pv_supports = {HOSTED_CHECKOUT, WEBHOOK_SIGNED},
      pv_create_customer = paddle_create_customer w cfg, pv_create_checkout = paddle_create_checkout w cfg,
      pv_billing_portal_url = (\<lambda>_ _. Inl NotImplementedError), pv_change_plan = local_change_plan w,
      pv_verify_webhook = paddle_verify w cfg, pv_translate_webhook = paddle_translate\<rparr>"

section \<open>The registry and the webhook route\<close>

text \<open>Each class has its own default for the API's address; the settings give the rest.\<close>

definition STRIPE_API_BASE :: string where "STRIPE_API_BASE = ''https://api.stripe.com/v1''"
definition XENDIT_API_BASE :: string where "XENDIT_API_BASE = ''https://api.xendit.co''"
definition PAYMONGO_API_BASE :: string where "PAYMONGO_API_BASE = ''https://api.paymongo.com/v1''"
definition PADDLE_API_BASE :: string where "PADDLE_API_BASE = ''https://api.paddle.com''"

record hosted_settings = provider_settings +
  stripe_webhook_secret :: string
  xendit_webhook_token :: string
  paymongo_webhook_secret :: string
  paddle_webhook_secret :: string

definition hosted_provider :: "hosted_settings \<Rightarrow> outside \<Rightarrow> string \<Rightarrow> string \<Rightarrow> billing_provider" where
  "hosted_provider cfg w name secret =
     (let made = (\<lambda>webhook_secret base. \<lparr>hc_secret_key = secret, hc_webhook_secret = webhook_secret, hc_api_base = base,
                    hc_currency = billing_currency cfg\<rparr>)
      in if name = ''stripe'' then stripe_provider w (made (stripe_webhook_secret cfg) STRIPE_API_BASE)
         else if name = ''xendit'' then xendit_provider w (made (xendit_webhook_token cfg) XENDIT_API_BASE)
         else if name = ''paymongo'' then paymongo_provider w (made (paymongo_webhook_secret cfg) PAYMONGO_API_BASE)
         else paddle_provider w (made (paddle_webhook_secret cfg) PADDLE_API_BASE))"

definition provider_of :: "hosted_settings \<Rightarrow> outside \<Rightarrow> string option \<Rightarrow> error + billing_provider" where
  "provider_of cfg w name =
     build_provider (provider_settings.truncate cfg) (ow_loads w) (hosted_provider cfg w) (ow_token w) (ow_now w) name"

definition billing_cfg :: "hosted_settings \<Rightarrow> billing_settings" where
  "billing_cfg cfg = billing_settings.truncate cfg"

definition PROVIDERS :: "string set" where
  "PROVIDERS = {''stripe'', ''xendit'', ''paymongo'', ''paddle'', ''manual''}"

definition billing_webhook ::
  "hosted_settings \<Rightarrow> outside \<Rightarrow> string \<Rightarrow> webhook_request \<Rightarrow> 'a bill_db_scheme
    \<Rightarrow> error + (webhook_outcome \<times> 'a bill_db_scheme)" where
  "billing_webhook cfg w name raw s =
     bind_r (guard_r (name \<in> PROVIDERS) (Domain NotFoundError [])) (\<lambda>_.
     bind_r (provider_of cfg w (Some name)) (\<lambda>pv.
       handle_webhook (billing_cfg cfg) (provider_of cfg w None) pv (ow_now w) name raw s))"

section \<open>What authenticates a webhook\<close>

text \<open>
  The contract of the five providers, independent of how headers are scanned: a secret of the deployment
  is in the header, or the header carries a fresh time and the keyed digest of exactly this body under it.
\<close>

definition fresh :: "outside \<Rightarrow> int \<Rightarrow> bool" where
  "fresh w t \<longleftrightarrow> \<bar>ow_now w - seconds t\<bar> \<le> seconds 300"

definition carries_digest :: "outside \<Rightarrow> string \<Rightarrow> webhook_request \<Rightarrow> string \<Rightarrow> bool" where
  "carries_digest w secret raw header \<longleftrightarrow>
     (\<exists>t. fresh w t \<and> (''v1'', hc_hmac (ow_hooks w) secret (int_str t @ ''.'' @ wr_body raw)) \<in> set (signature_parts header))"

definition authentic :: "hosted_settings \<Rightarrow> outside \<Rightarrow> string \<Rightarrow> webhook_request \<Rightarrow> bool" where
  "authentic cfg w name raw \<longleftrightarrow>
     name = ''manual'' \<and> manual_webhook_token cfg \<noteq> [] \<and> header_of raw ''x-manual-token'' = manual_webhook_token cfg
     \<or> name = ''xendit'' \<and> xendit_webhook_token cfg \<noteq> [] \<and> header_of raw ''x-callback-token'' = xendit_webhook_token cfg
     \<or> name = ''stripe'' \<and> carries_digest w (stripe_webhook_secret cfg) raw (header_of raw ''stripe-signature'')
     \<or> name = ''paymongo'' \<and> carries_digest w (paymongo_webhook_secret cfg) raw (header_of raw ''paymongo-signature'')
     \<or> name = ''paddle'' \<and> paddle_webhook_secret cfg \<noteq> []
        \<and> (\<exists>t. fresh w t \<and> map_of (paddle_parts (header_of raw ''paddle-signature'')) ''h1''
              = Some (hc_hmac (ow_hooks w) (paddle_webhook_secret cfg) (int_str t @ '':'' @ wr_body raw)))"

lemma in_tolerance_fresh: "in_tolerance (ow_now w) t \<longleftrightarrow> fresh w t"
  by (simp add: in_tolerance_def fresh_def WEBHOOK_TOLERANCE_SECONDS_def not_less)

lemma stripe_scan_part:
  "stripe_scan ps t sigs = Some (n, v) \<Longrightarrow> (''v1'', v) \<in> set ps \<or> (sigs \<noteq> [] \<and> v = hd sigs)"
proof (induction ps t sigs rule: stripe_scan.induct)
  case (1 t sigs)
  then show ?case by (auto split: option.splits list.splits)
next
  case (2 key val rest t sigs)
  then show ?case by (auto simp: hd_append split: option.splits if_splits)
qed

lemma paymongo_scan_part:
  "paymongo_scan ps t sig = Some (n, v) \<Longrightarrow> (''v1'', v) \<in> set ps \<or> sig = Some v"
  by (induction ps t sig rule: paymongo_scan.induct) (force split: option.splits if_splits)+

lemma timed_signature_digest:
  assumes "timed_signature w hc raw (Some (t, v)) = Inr j" and "(''v1'', v) \<in> set (signature_parts header)"
  shows "carries_digest w (hc_webhook_secret hc) raw header"
  using assms unfolding carries_digest_def
  by (auto simp: timed_signature_def bind_r_eq_Inr in_tolerance_fresh verify_signature_def sign_payload_def)

lemma stripe_verify_digest:
  "stripe_verify w hc raw = Inr v \<Longrightarrow> carries_digest w (hc_webhook_secret hc) raw (header_of raw ''stripe-signature'')"
proof -
  assume "stripe_verify w hc raw = Inr v"
  then obtain j where j: "timed_signature w hc raw (parse_stripe_signature (header_of raw ''stripe-signature'')) = Inr j"
    by (auto simp: stripe_verify_def bind_r_eq_Inr)
  then obtain t sig where p: "parse_stripe_signature (header_of raw ''stripe-signature'') = Some (t, sig)"
    by (auto simp: timed_signature_def split: option.splits)
  then have "(''v1'', sig) \<in> set (signature_parts (header_of raw ''stripe-signature''))"
    using stripe_scan_part by (fastforce simp: parse_stripe_signature_def)
  then show ?thesis using j unfolding p by (rule timed_signature_digest [rotated])
qed

lemma paymongo_verify_digest:
  "paymongo_verify w hc raw = Inr v \<Longrightarrow> carries_digest w (hc_webhook_secret hc) raw (header_of raw ''paymongo-signature'')"
proof -
  assume "paymongo_verify w hc raw = Inr v"
  then obtain j where j: "timed_signature w hc raw (parse_paymongo_signature (header_of raw ''paymongo-signature'')) = Inr j"
    by (auto simp: paymongo_verify_def bind_r_eq_Inr)
  then obtain t sig where p: "parse_paymongo_signature (header_of raw ''paymongo-signature'') = Some (t, sig)"
    by (auto simp: timed_signature_def split: option.splits)
  then have "(''v1'', sig) \<in> set (signature_parts (header_of raw ''paymongo-signature''))"
    using paymongo_scan_part by (fastforce simp: parse_paymongo_signature_def)
  then show ?thesis using j unfolding p by (rule timed_signature_digest [rotated])
qed

lemma paddle_verify_digest:
  "paddle_verify w hc raw = Inr v \<Longrightarrow> hc_webhook_secret hc \<noteq> []
     \<and> (\<exists>t. fresh w t \<and> map_of (paddle_parts (header_of raw ''paddle-signature'')) ''h1''
          = Some (hc_hmac (ow_hooks w) (hc_webhook_secret hc) (int_str t @ '':'' @ wr_body raw)))"
  by (auto simp: paddle_verify_def paddle_signed_def bind_r_eq_Inr Let_def in_tolerance_fresh paddle_signature_matches_def
      split: option.splits if_splits)

lemma manual_verify_token:
  "manual_verify c loads tok now raw = Inr v
     \<Longrightarrow> manual_webhook_token c \<noteq> [] \<and> header_of raw ''x-manual-token'' = manual_webhook_token c"
  by (auto simp: manual_verify_def header_of_def Let_def split: if_splits)

lemma xendit_verify_token:
  "xendit_verify w hc raw = Inr v \<Longrightarrow> hc_webhook_secret hc \<noteq> [] \<and> header_of raw ''x-callback-token'' = hc_webhook_secret hc"
  by (auto simp: xendit_verify_def split: if_splits)

lemma provider_of_cases:
  assumes "provider_of cfg w (Some name) = Inr pv" and "name \<in> PROVIDERS"
  shows "pv = (if name = ''manual'' then manual_provider (billing_cfg cfg) (ow_loads w) (ow_token w) (ow_now w)
     else hosted_provider cfg w name (if name = ''stripe'' then stripe_secret_key cfg
       else if name = ''xendit'' then xendit_secret_key cfg
       else if name = ''paymongo'' then paymongo_secret_key cfg else paddle_secret_key cfg))"
  using assms
  by (auto simp: PROVIDERS_def provider_of_def build_provider_def hosted_client_def billing_cfg_def Let_def
      provider_settings.defs billing_settings.defs split: if_splits)

lemma verified_authentic:
  assumes "provider_of cfg w (Some name) = Inr pv" and "name \<in> PROVIDERS"
    and "pv_verify_webhook pv raw = Inr v"
  shows "authentic cfg w name raw"
  using assms(2,3) unfolding provider_of_cases [OF assms(1,2)] authentic_def
  by (auto simp: PROVIDERS_def hosted_provider_def stripe_provider_def paymongo_provider_def paddle_provider_def
      xendit_provider_def manual_provider_def billing_cfg_def billing_settings.defs Let_def
      dest!: stripe_verify_digest paymongo_verify_digest paddle_verify_digest manual_verify_token xendit_verify_token
      split: if_splits)

lemma billing_webhookD:
  assumes "billing_webhook cfg w name raw s = Inr r"
  shows "name \<in> PROVIDERS"
    and "\<exists>pv v. provider_of cfg w (Some name) = Inr pv \<and> pv_verify_webhook pv raw = Inr v
      \<and> handle_webhook (billing_cfg cfg) (provider_of cfg w None) pv (ow_now w) name raw s = Inr r"
proof -
  let ?known = "name \<in> PROVIDERS"
  from assms obtain pv where known: ?known and pv: "provider_of cfg w (Some name) = Inr pv"
    and run: "handle_webhook (billing_cfg cfg) (provider_of cfg w None) pv (ow_now w) name raw s = Inr r"
    unfolding billing_webhook_def by (auto simp only: bind_r_eq_Inr guard_r_eq_Inr)
  show ?known by (rule known)
  from run obtain v where v: "pv_verify_webhook pv raw = Inr v"
    unfolding handle_webhook_def by (auto simp only: bind_r_eq_Inr)
  show "\<exists>pv v. provider_of cfg w (Some name) = Inr pv \<and> pv_verify_webhook pv raw = Inr v
      \<and> handle_webhook (billing_cfg cfg) (provider_of cfg w None) pv (ow_now w) name raw s = Inr r"
    by (rule exI [of _ pv], rule exI [of _ v]) (intro conjI pv v run)
qed

text \<open>
  C10. A provider webhook has an effect, or any answer but an error, only if it is authentic: it carries the
  deployment's non-empty token (manual, Xendit), or a time at most five minutes away together with the keyed
  digest of that time and of exactly the bytes of its body under the deployment's secret (Stripe, PayMongo,
  Paddle).
\<close>

theorem webhook_needs_authentication:
  assumes "billing_webhook cfg w name raw s = Inr (outcome, s')"
  shows "authentic cfg w name raw"
  using billing_webhookD [OF assms] verified_authentic by metis

section \<open>Signatures of this program's own scheme are accepted\<close>

lemma strip_plain: "\<forall>c\<in>set t. \<not> is_space c \<Longrightarrow> strip t = t"
proof -
  assume "\<forall>c\<in>set t. \<not> is_space c"
  then have "dropWhile is_space t = t" "dropWhile is_space (rev t) = rev t" by (auto simp: dropWhile_eq_self_iff hd_rev)
  then show ?thesis by (simp add: strip_def)
qed

lemma digits_not_space: "is_digit c \<Longrightarrow> \<not> is_space c"
  by (auto simp: is_digit_def is_space_def)

lemma nat_str_is_digit: "c \<in> set (nat_str n) \<Longrightarrow> is_digit c"
  using nat_str_digits by (simp add: is_digit_def)

lemma int_digits_all: "list_all is_digit t \<Longrightarrow> int_digits t acc = Some (foldl (\<lambda>a c. 10 * a + digit_val c) acc t)"
  by (induction t arbitrary: acc) auto

lemma nat_text_nat_str: "nat_text (nat_str n) = Some n"
proof -
  have "list_all is_digit (nat_str n)" using nat_str_is_digit by (simp add: list_all_iff)
  then have "int_digits (nat_str n) 0 = Some (str_nat (nat_str n))" by (simp add: int_digits_all str_nat_def)
  moreover have "is_digit (hd (nat_str n))" using nat_str_is_digit [of "hd (nat_str n)" n] by simp
  ultimately show ?thesis by (simp add: nat_text_def)
qed

lemma int_str_chars: "c \<in> set (int_str n) \<Longrightarrow> is_digit c \<or> c = CHR ''-''"
  using nat_str_is_digit by (auto simp: int_str_def split: if_splits)

lemma int_str_not_space: "c \<in> set (int_str n) \<Longrightarrow> \<not> is_space c"
  using int_str_chars digits_not_space by (fastforce simp: is_space_def)

lemma py_int_int_str: "py_int (int_str n) = Some n"
proof -
  have strip: "strip (int_str n) = int_str n" using int_str_not_space by (simp add: strip_plain)
  have hd: "\<exists>c r. nat_str k = c # r \<and> c \<noteq> CHR ''-'' \<and> c \<noteq> CHR ''+''" for k
    using nat_str_is_digit [of _ k] by (cases "nat_str k") (auto simp: is_digit_def)
  show ?thesis
  proof (cases "n < 0")
    case True
    then show ?thesis unfolding py_int_def strip by (simp add: int_str_def nat_text_nat_str)
  next
    case False
    obtain c r where "nat_str (nat n) = c # r" "c \<noteq> CHR ''-''" "c \<noteq> CHR ''+''" using hd by blast
    then show ?thesis
      using False nat_text_nat_str [of "nat n"] unfolding py_int_def strip by (simp add: int_str_def)
  qed
qed

text \<open>What \<open>hexdigest()\<close> documents.\<close>

definition hex_hmac :: "hook_client \<Rightarrow> bool" where
  "hex_hmac hc \<longleftrightarrow> (\<forall>key text. hc_hmac hc key text \<noteq> [] \<and> set (hc_hmac hc key text) \<subseteq> set ''0123456789abcdef'')"

lemma hex_plain: "set t \<subseteq> set ''0123456789abcdef'' \<Longrightarrow> CHR '','' \<notin> set t \<and> (\<forall>c\<in>set t. \<not> is_space c)"
  by (auto simp: is_space_def)

lemma at_equals_plain: "CHR ''='' \<notin> set k \<Longrightarrow> at_equals (k @ CHR ''='' # v) = (k, v)"
  by (induction k) (auto simp: at_equals_def)

lemma own_header_parts:
  assumes "set sig \<subseteq> set ''0123456789abcdef''"
  shows "signature_parts (''t='' @ int_str t @ '',v1='' @ sig) = [(''t'', int_str t), (''v1'', sig)]"
proof -
  have "CHR '','' \<notin> set (int_str t)" using int_str_chars [of "CHR '',''" t] by (auto simp: is_digit_def)
  then have "split_commas (''t='' @ int_str t @ '',v1='' @ sig) = [''t='' @ int_str t, ''v1='' @ sig]"
    using split_commas_append [of "''t='' @ int_str t" "''v1='' @ sig"] hex_plain [OF assms] by (simp add: split_commas_plain)
  moreover have "strip (''t='' @ int_str t) = ''t='' @ int_str t" "strip (''v1='' @ sig) = ''v1='' @ sig"
    using int_str_not_space hex_plain [OF assms] by (auto intro!: strip_plain simp: is_space_def)
  moreover have "at_equals (''t='' @ int_str t) = (''t'', int_str t)" "at_equals (''v1='' @ sig) = (''v1'', sig)"
    using at_equals_plain [of "''t''"] at_equals_plain [of "''v1''"] by simp_all
  ultimately show ?thesis by (simp add: signature_parts_def)
qed

lemma own_signature_accepted:
  assumes "hex_hmac (ow_hooks w)" and "fresh w t" and "ow_loads w (wr_body raw) = Some j"
    and "header = ''t='' @ int_str t @ '',v1='' @ sign_payload (ow_hooks w) (wr_body raw) (hc_webhook_secret hc) t"
  shows "timed_signature w hc raw (parse_stripe_signature header) = Inr j"
    and "timed_signature w hc raw (parse_paymongo_signature header) = Inr j"
proof -
  let ?sig = "sign_payload (ow_hooks w) (wr_body raw) (hc_webhook_secret hc) t"
  have hex: "set ?sig \<subseteq> set ''0123456789abcdef''" "?sig \<noteq> []" using assms(1) by (auto simp: hex_hmac_def sign_payload_def)
  have parts: "signature_parts header = [(''t'', int_str t), (''v1'', ?sig)]"
    unfolding assms(4) by (rule own_header_parts [OF hex(1)])
  have "parse_stripe_signature header = Some (t, ?sig)" "parse_paymongo_signature header = Some (t, ?sig)"
    using hex(2) by (simp_all add: parse_stripe_signature_def parse_paymongo_signature_def parts py_int_int_str)
  then show "timed_signature w hc raw (parse_stripe_signature header) = Inr j"
    "timed_signature w hc raw (parse_paymongo_signature header) = Inr j"
    using assms(2,3) by (simp_all add: timed_signature_def verify_signature_def in_tolerance_fresh load_body_def)
qed

text \<open>
  C27. What \<open>sign_payload\<close> signs, \<open>verify_webhook\<close> accepts: a header built from a time at most five minutes away
  and the signature of the body under the shared secret, in the form this program gives its own deliveries,
  passes the Stripe check, and the event handed on is the JSON object the body contains.
\<close>

theorem signed_webhooks_are_accepted:
  assumes "hex_hmac (ow_hooks w)" and "fresh w t" and "ow_loads w (wr_body raw) = Some (JObj d)"
    and "header_of raw ''stripe-signature''
      = ''t='' @ int_str t @ '',v1='' @ sign_payload (ow_hooks w) (wr_body raw) (hc_webhook_secret hc) t"
  shows "\<exists>v. stripe_verify w hc raw = Inr v \<and> vw_parsed v = d \<and> vw_received_at v = ow_now w"
  unfolding stripe_verify_def own_signature_accepted(1) [OF assms] by (simp add: as_dict_def)

text \<open>
  C19. With no webhook secret configured, the manual, Xendit and Paddle routes refuse every request, but the
  Stripe route takes the empty text for the key: whoever sends an event signed under the empty key, which
  needs no knowledge of the deployment, has it accepted.
\<close>

theorem unset_stripe_secret_accepts_forgeries:
  assumes "stripe_secret_key cfg \<noteq> []" and "stripe_webhook_secret cfg = []" and "xendit_webhook_token cfg = []"
    and "manual_webhook_token cfg = []" and "paddle_webhook_secret cfg = []"
    and "hex_hmac (ow_hooks w)" and "fresh w t" and "ow_loads w (wr_body raw) = Some (JObj d)"
    and "header_of raw ''stripe-signature'' = ''t='' @ int_str t @ '',v1='' @ hc_hmac (ow_hooks w) [] (int_str t @ ''.'' @ wr_body raw)"
  shows "(\<exists>pv v. provider_of cfg w (Some ''stripe'') = Inr pv \<and> pv_verify_webhook pv raw = Inr v \<and> vw_parsed v = d)
    \<and> (\<forall>name\<in>{''manual'', ''xendit'', ''paddle''}. \<forall>r. billing_webhook cfg w name raw s \<noteq> Inr r)"
proof -
  let ?hc = "\<lparr>hc_secret_key = stripe_secret_key cfg, hc_webhook_secret = [], hc_api_base = STRIPE_API_BASE,
                    hc_currency = billing_currency cfg\<rparr>"
  have pv: "provider_of cfg w (Some ''stripe'') = Inr (stripe_provider w ?hc)"
    using assms(1,2) by (simp add: provider_of_def build_provider_def hosted_client_def hosted_provider_def provider_settings.defs)
  have "\<exists>v. stripe_verify w ?hc raw = Inr v \<and> vw_parsed v = d"
    unfolding stripe_verify_def using own_signature_accepted(1) [OF assms(6-8), of _ ?hc] assms(9)
    by (simp add: sign_payload_def as_dict_def)
  moreover have "billing_webhook cfg w name raw s \<noteq> Inr r" if "name \<in> {''manual'', ''xendit'', ''paddle''}" for name r
  proof
    assume run: "billing_webhook cfg w name raw s = Inr r"
    have "authentic cfg w name raw" using billing_webhookD [OF run] verified_authentic by metis
    with that assms(3-5) show False by (auto simp: authentic_def)
  qed
  ultimately show ?thesis by (simp add: pv stripe_provider_def)
qed

section \<open>What PayMongo's events can do\<close>

lemma paymongo_events_name_nobody:
  "paymongo_translate w hc v = Some evs \<Longrightarrow> e \<in> set evs
     \<Longrightarrow> be_provider_customer_id e = None \<and> be_provider_subscription_id e = None"
  by (auto simp: paymongo_translate_def split: bind_splits option.splits)

lemma nameless_events_ignored:
  "\<forall>e\<in>set evs. be_provider_customer_id e = None \<and> be_provider_subscription_id e = None
     \<Longrightarrow> apply_events cfg c now pn evs a b s = Inr ((a + length evs, b), s)"
  by (induction evs arbitrary: a) (auto simp: apply_event_def org_for_provider_ref_def)

text \<open>
  Whatever PayMongo reports, paid checkouts included, changes nothing but the ledger of received webhooks:
  its events carry neither the customer nor the subscription by which an organization is found.
\<close>

theorem paymongo_webhooks_change_nothing:
  assumes "billing_webhook cfg w ''paymongo'' raw s = Inr (outcome, s')"
  shows "s' = s\<lparr>provider_webhook_events := provider_webhook_events s', next_uuid := next_uuid s'\<rparr>"
proof -
  obtain pv where pv: "provider_of cfg w (Some ''paymongo'') = Inr pv"
    and run: "handle_webhook (billing_cfg cfg) (provider_of cfg w None) pv (ow_now w) ''paymongo'' raw s = Inr (outcome, s')"
    using billing_webhookD(2) [OF assms] by blast
  obtain hc where hc: "pv = paymongo_provider w hc"
    using provider_of_cases [OF pv] by (simp add: PROVIDERS_def hosted_provider_def Let_def)
  have tr: "pv_translate_webhook pv = paymongo_translate w hc" by (simp add: hc paymongo_provider_def)
  have none: "apply_events (billing_cfg cfg) (provider_of cfg w None) (ow_now w) ''paymongo'' evs 0 0 t = Inr ((length evs, 0), t)"
    if "paymongo_translate w hc v = Some evs" for evs v t
    using nameless_events_ignored [of evs "billing_cfg cfg" "provider_of cfg w None" "ow_now w" "''paymongo''" 0 0 t]
      paymongo_events_name_nobody [OF that] by simp
  obtain v where v: "pv_verify_webhook pv raw = Inr v"
    using run by (auto simp: handle_webhook_def bind_r_eq_Inr)
  show ?thesis
  proof (cases "paymongo_translate w hc v")
    case None
    with run v show ?thesis by (auto simp: handle_webhook_def tr settle_webhook_def Let_def split: if_splits)
  next
    case (Some evs)
    with run v show ?thesis
      by (auto simp: handle_webhook_def tr none [OF Some] settle_webhook_def Let_def split: if_splits)
  qed
qed

section \<open>Amounts in major units\<close>

lemma length_nat_str: "n < 10 ^ Suc d \<Longrightarrow> length (nat_str n) \<le> Suc d"
proof (induction d arbitrary: n)
  case 0
  then show ?case by (subst nat_str.simps) simp
next
  case (Suc d)
  show ?case
  proof (cases "n < 10")
    case True
    then show ?thesis by (subst nat_str.simps) simp
  next
    case False
    have "n div 10 < 10 ^ Suc d" using Suc.prems by (simp add: div_less_iff_less_mult mult.commute)
    from Suc.IH [OF this] False show ?thesis by (subst nat_str.simps) simp
  qed
qed

lemma str_nat_append_digits: "a < 10 \<Longrightarrow> b < 10 \<Longrightarrow> str_nat (t @ [digit_char a, digit_char b]) = 100 * str_nat t + 10 * a + b"
  by (simp add: str_nat_def digit_val_char)

lemma digit_char_is_digit: "is_digit (digit_char d)"
  by (simp add: is_digit_def digit_char_def)

text \<open>Two decimal places.\<close>

definition major_text :: "nat \<Rightarrow> string" where
  "major_text n = nat_str (n div 100) @ ''.'' @ [digit_char (n div 10 mod 10), digit_char (n mod 10)]"

lemma major_unsigned: "unsigned_decimal (major_text n) = Some (n, -2)"
proof -
  have digits: "\<forall>c\<in>set (nat_str (n div 100)). is_digit c" using nat_str_is_digit by blast
  have whole: "takeWhile is_digit (major_text n) = nat_str (n div 100)"
    "dropWhile is_digit (major_text n) = CHR ''.'' # [digit_char (n div 10 mod 10), digit_char (n mod 10)]"
    using digits by (auto simp: major_text_def takeWhile_append dropWhile_append is_digit_def)
  have "str_nat (nat_str (n div 100) @ [digit_char (n div 10 mod 10), digit_char (n mod 10)])
      = 100 * (n div 100) + 10 * (n div 10 mod 10) + n mod 10"
    by (subst str_nat_append_digits) simp_all
  also have "\<dots> = n"
  proof -
    have "n div 100 * 10 + n div 10 mod 10 = n div 10"
      using div_mult_mod_eq [of "n div 10" 10] by (simp add: div_mult2_eq [symmetric])
    moreover have "n div 10 * 10 + n mod 10 = n" by simp
    ultimately show ?thesis by linarith
  qed
  finally show ?thesis
    unfolding unsigned_decimal_def whole Let_def by (simp add: digit_char_is_digit)
qed

lemma major_read: "read_decimal (major_text n) = Some (Finite (int n) (-2))"
proof -
  have chars: "is_digit c \<or> c = CHR ''.''" if "c \<in> set (major_text n)" for c
    using that nat_str_is_digit digit_char_is_digit by (auto simp: major_text_def)
  have no_space: "\<forall>c\<in>set (major_text n). \<not> is_space c"
    using chars digits_not_space by (fastforce simp: is_space_def)
  have strip: "strip (major_text n) = major_text n" by (rule strip_plain [OF no_space])
  have "c \<noteq> CHR ''_''" if "c \<in> set (major_text n)" for c
    using chars [OF that] by (auto simp: is_digit_def)
  then have plain: "filter (\<lambda>c. c \<noteq> CHR ''_'') (major_text n) = major_text n" by (simp add: filter_id_conv)
  obtain c r where cr: "major_text n = c # r" and c: "is_digit c"
    using nat_str_is_digit [of "hd (nat_str (n div 100))" "n div 100"]
    by (cases "nat_str (n div 100)") (auto simp: major_text_def)
  have "lower_char c = c" using c by (auto simp: lower_char_def is_digit_def)
  moreover have "c \<noteq> CHR ''i'' \<and> c \<noteq> CHR ''n'' \<and> c \<noteq> CHR ''s'' \<and> c \<noteq> CHR ''-'' \<and> c \<noteq> CHR ''+''" using c by (auto simp: is_digit_def)
  ultimately have "\<not> is_special (major_text n)" "hd (major_text n) \<noteq> CHR ''-''" "hd (major_text n) \<noteq> CHR ''+''"
    by (simp_all add: is_special_def cr starts_with_def Let_def)
  then show ?thesis unfolding read_decimal_def strip plain Let_def by (simp add: major_unsigned)
qed

text \<open>
  C39. An amount that Xendit writes in major units with two decimals is read as exactly its number of minor
  units, for every amount whose hundredfold has at most 28 digits (the precision of the decimal context).
\<close>

theorem minor_units_read_back:
  assumes "n < 10 ^ 26"
  shows "minor_units w (JStr (major_text n)) = Inr (int n)"
proof -
  have "length (nat_str (n * 100)) \<le> 28" "length (nat_str n) \<le> 28"
    using length_nat_str [of "n * 100" 27] length_nat_str [of n 27] assms by simp_all
  then have "in_context (int n * 100, -2) = (int n * 100, -2)" "digit_count (int n) \<le> 28"
    by (simp_all add: in_context_def digit_count_def nat_mult_distrib)
  moreover have "sgn (int n) * ((int n * 100 + 50) div 100) = int n" by (cases "n = 0") auto
  ultimately have "quantize_half_up (in_context (int n * 100, -2)) = Some (int n)"
    by (cases "n = 0") (simp_all add: quantize_half_up_def abs_mult sgn_mult)
  then show ?thesis by (simp add: minor_units_def py_str_def major_read)
qed

section \<open>Concrete webhooks\<close>

definition demo_outside :: outside where
  "demo_outside = \<lparr>ow_http = (\<lambda>_ _ _ _. Inl (OtherException ''ConnectError'')),
     ow_hooks = demo_hook_client\<lparr>hc_hmac := (\<lambda>_ _. ''ab'')\<rparr>, ow_loads = demo_loads, ow_repr = (\<lambda>_. []), ow_token = ''0a'',
     ow_now = seconds 5\<rparr>"

definition demo_hosted :: "string \<Rightarrow> hosted_settings" where
  "demo_hosted secret = provider_settings.extend (billing_settings.extend demo_billing_settings
     \<lparr>configured_provider = ''stripe'', stripe_secret_key = ''sk'', xendit_secret_key = [], paymongo_secret_key = ''sk'',
      paddle_secret_key = []\<rparr>)
     \<lparr>stripe_webhook_secret = secret, xendit_webhook_token = [], paymongo_webhook_secret = secret, paddle_webhook_secret = []\<rparr>"

definition demo_signed :: "string \<Rightarrow> webhook_request" where
  "demo_signed header = \<lparr>wr_headers = [(header, ''t=4,v1=ab'')], wr_body = ''cancel''\<rparr>"

lemma demo_outside_laws: "hex_hmac (ow_hooks demo_outside)" "fresh demo_outside 4"
  "ow_loads demo_outside (wr_body (demo_signed h)) = Some (JObj [(''id'', JStr ''evt_1''),
     (''type'', JStr ''manual.subscription.canceled''), (''data'', JObj [(''customer_id'', JStr ''cus_9'')])])"
  "header_of (demo_signed h) h = ''t='' @ int_str 4 @ '',v1='' @ sign_payload (ow_hooks demo_outside) (wr_body (demo_signed h)) k 4"
  by (simp_all add: hex_hmac_def fresh_def seconds_def demo_outside_def demo_signed_def demo_loads_def header_of_def
      sign_payload_def int_str_def nat_str.simps digit_char_def)

lemma signed_webhooks_are_accepted_witness:
  "\<exists>v. stripe_verify demo_outside \<lparr>hc_secret_key = ''sk'', hc_webhook_secret = ''whsec'', hc_api_base = [], hc_currency = ''PHP''\<rparr>
     (demo_signed ''stripe-signature'') = Inr v \<and> vw_received_at v = seconds 5"
  using signed_webhooks_are_accepted [OF demo_outside_laws(1-3), of "''stripe-signature''"
      "\<lparr>hc_secret_key = ''sk'', hc_webhook_secret = ''whsec'', hc_api_base = [], hc_currency = ''PHP''\<rparr>"] demo_outside_laws(4)
  by (fastforce simp: demo_outside_def)

lemma minor_units_read_back_witness: "minor_units demo_outside (JStr (major_text 29)) = Inr 29"
  using minor_units_read_back [of 29 demo_outside] by simp

lemma demo_ledger_empty: "provider_webhook_events demo_bill = []"
  by (simp add: demo_bill_def access_db.defs ident_db.defs auth_db.defs acct_db.defs)

lemma demo_provider_of:
  "provider_of (demo_hosted k) demo_outside (Some ''stripe'')
     = Inr (stripe_provider demo_outside \<lparr>hc_secret_key = ''sk'', hc_webhook_secret = k, hc_api_base = STRIPE_API_BASE, hc_currency = ''PHP''\<rparr>)"
  "provider_of (demo_hosted k) demo_outside (Some ''paymongo'')
     = Inr (paymongo_provider demo_outside \<lparr>hc_secret_key = ''sk'', hc_webhook_secret = k, hc_api_base = PAYMONGO_API_BASE, hc_currency = ''PHP''\<rparr>)"
  by (simp_all add: provider_of_def build_provider_def hosted_client_def hosted_provider_def demo_hosted_def
      demo_billing_settings_def provider_settings.defs billing_settings.defs settings.defs)

lemma demo_timed:
  "timed_signature demo_outside hc (demo_signed h) (parse_stripe_signature (header_of (demo_signed h) h))
     = Inr (JObj [(''id'', JStr ''evt_1''), (''type'', JStr ''manual.subscription.canceled''), (''data'', JObj [(''customer_id'', JStr ''cus_9'')])])"
  "timed_signature demo_outside hc (demo_signed h) (parse_paymongo_signature (header_of (demo_signed h) h))
     = Inr (JObj [(''id'', JStr ''evt_1''), (''type'', JStr ''manual.subscription.canceled''), (''data'', JObj [(''customer_id'', JStr ''cus_9'')])])"
  by (rule own_signature_accepted [OF demo_outside_laws]; rule demo_outside_laws(4))+

lemma demo_outside_now [simp]: "ow_now demo_outside = seconds 5" "ow_token demo_outside = ''0a''"
  by (simp_all add: demo_outside_def)

lemma demo_stripe_run:
  "\<exists>out s'. billing_webhook (demo_hosted ''whsec'') demo_outside ''stripe'' (demo_signed ''stripe-signature'') demo_bill = Inr (out, s')"
  by (simp add: billing_webhook_def PROVIDERS_def demo_provider_of handle_webhook_def stripe_provider_def stripe_verify_def demo_timed
      as_dict_def demo_ledger_empty stripe_translate_def sub_dict_def from_timestamp_def as_int_def seconds_def stripe_types_def
      get_text_def py_str_def Let_def)

lemma demo_paymongo_run:
  "\<exists>out s'. billing_webhook (demo_hosted ''whsec'') demo_outside ''paymongo'' (demo_signed ''paymongo-signature'') demo_bill = Inr (out, s')"
  by (simp add: billing_webhook_def PROVIDERS_def demo_provider_of handle_webhook_def paymongo_provider_def paymongo_verify_def demo_timed
      as_dict_def demo_ledger_empty paymongo_translate_def sub_dict_def paymongo_types_def get_text_def py_str_def event_id_def
      is_true_def truthy_text_def Let_def)

lemma webhook_needs_authentication_witness:
  "authentic (demo_hosted ''whsec'') demo_outside ''stripe'' (demo_signed ''stripe-signature'')"
  using demo_stripe_run webhook_needs_authentication by blast

lemma paymongo_webhooks_change_nothing_witness:
  "\<exists>out s'. billing_webhook (demo_hosted ''whsec'') demo_outside ''paymongo'' (demo_signed ''paymongo-signature'') demo_bill = Inr (out, s')
     \<and> subscription_rows s' = subscription_rows demo_bill"
proof -
  from demo_paymongo_run obtain out s' where run:
    "billing_webhook (demo_hosted ''whsec'') demo_outside ''paymongo'' (demo_signed ''paymongo-signature'') demo_bill = Inr (out, s')" by blast
  from arg_cong [OF paymongo_webhooks_change_nothing [OF run], of subscription_rows]
  have "subscription_rows s' = subscription_rows demo_bill" by simp
  with run show ?thesis by blast
qed

lemma demo_unset: "stripe_secret_key (demo_hosted k) \<noteq> []" "stripe_webhook_secret (demo_hosted k) = k"
  "xendit_webhook_token (demo_hosted k) = []" "paddle_webhook_secret (demo_hosted k) = []"
  by (simp_all add: demo_hosted_def provider_settings.defs billing_settings.defs)

lemma unset_stripe_secret_accepts_forgeries_witness:
  "\<exists>pv v. provider_of ((demo_hosted [])\<lparr>manual_webhook_token := []\<rparr>) demo_outside (Some ''stripe'') = Inr pv
     \<and> pv_verify_webhook pv (demo_signed ''stripe-signature'') = Inr v"
proof -
  let ?cfg = "(demo_hosted [])\<lparr>manual_webhook_token := []\<rparr>"
  have cfg: "stripe_secret_key ?cfg \<noteq> []" "stripe_webhook_secret ?cfg = []" "xendit_webhook_token ?cfg = []"
    "manual_webhook_token ?cfg = []" "paddle_webhook_secret ?cfg = []"
    using demo_unset [of "[]"] by simp_all
  have "header_of (demo_signed ''stripe-signature'') ''stripe-signature''
      = ''t='' @ int_str 4 @ '',v1='' @ hc_hmac (ow_hooks demo_outside) [] (int_str 4 @ ''.'' @ wr_body (demo_signed ''stripe-signature''))"
    using demo_outside_laws(4) [of "''stripe-signature''" "[]"] unfolding sign_payload_def .
  from unset_stripe_secret_accepts_forgeries [OF cfg demo_outside_laws(1-3) this, of demo_bill] show ?thesis by blast
qed

end
