(* ===== verification/Reporting.thy ===== *)
theory Reporting
  imports Billing
begin

text \<open>
  The read models of \<open>billing/reporting.py\<close>: the spending of one organization and the revenue of the
  platform, as SQL aggregates over the invoices and subscriptions. The session's time zone is UTC, and a
  grouped result is listed in the order of its \<open>ORDER BY\<close>, or of the statuses where there is none.
\<close>

section \<open>One organization\<close>

definition status_totals :: "uuid \<Rightarrow> 'a bill_db_scheme \<Rightarrow> (invoice_status \<times> int) list" where
  "status_totals org s =
     (let rows = rows_where (\<lambda>r. inv_organization_id r = org) (invoices s)
      in map (\<lambda>st. (st, sum_list (map inv_total_cents (filter (\<lambda>r. inv_status r = st) rows))))
           (filter (\<lambda>st. \<exists>r\<in>set rows. inv_status r = st) [Draft, Open, Paid, Void, Uncollectible]))"

definition get_or_zero :: "(invoice_status \<times> int) list \<Rightarrow> invoice_status \<Rightarrow> int" where
  "get_or_zero d st = (case map_of d st of Some v \<Rightarrow> v | None \<Rightarrow> 0)"

record spend_summary =
  sp_organization_id :: uuid
  sp_billed_cents :: int
  sp_paid_cents :: int
  sp_outstanding_cents :: int
  sp_void_cents :: int
  sp_by_status :: "(invoice_status \<times> int) list"
  sp_currency :: string

definition org_spend_summary :: "uuid \<Rightarrow> 'a bill_db_scheme \<Rightarrow> spend_summary" where
  "org_spend_summary org s =
     (let lifetime = status_totals org s
      in \<lparr>sp_organization_id = org, sp_billed_cents = sum_list (map snd lifetime),
          sp_paid_cents = get_or_zero lifetime Paid, sp_outstanding_cents = get_or_zero lifetime Open,
          sp_void_cents = get_or_zero lifetime Void, sp_by_status = lifetime, sp_currency = ''PHP''\<rparr>)"

text \<open>\<open>to_char(date_trunc('month', at), 'YYYY-MM')\<close>.\<close>

definition month_label :: "datetime \<Rightarrow> string" where
  "month_label t = (let d = date_of t
     in zpad 4 (nat_str (nat (d_year d))) @ ''-'' @ zpad 2 (nat_str (nat (d_month d))))"

record month_total =
  mo_month :: string
  mo_total_cents :: int
  mo_invoices :: nat

text \<open>One row per month, in the order of the first instant in it.\<close>

definition first_occurrences :: "'x list \<Rightarrow> 'x list" where
  "first_occurrences xs = rev (remdups (rev xs))"

definition by_month :: "(invoice \<Rightarrow> datetime) \<Rightarrow> invoice list \<Rightarrow> month_total list" where
  "by_month at rows =
     map (\<lambda>m. let of_month = filter (\<lambda>r. month_label (at r) = m) rows
              in \<lparr>mo_month = m, mo_total_cents = sum_list (map inv_total_cents of_month), mo_invoices = length of_month\<rparr>)
       (first_occurrences (map (month_label \<circ> at) (sort_key at rows)))"

text \<open>The parameter \<open>months\<close> is not used.\<close>

definition org_monthly_spend :: "uuid \<Rightarrow> nat \<Rightarrow> 'a bill_db_scheme \<Rightarrow> month_total list" where
  "org_monthly_spend org months s =
     by_month (the \<circ> inv_issued_at)
       (rows_where (\<lambda>r. inv_organization_id r = org \<and> inv_status r \<in> {Paid, Open} \<and> inv_issued_at r \<noteq> None) (invoices s))"

section \<open>The platform\<close>

text \<open>
  \<open>CAST(COALESCE(jsonb_extract_path_text(plan_snapshot, 'price_cents'), '0') AS BIGINT)\<close>, for the
  whole number or null that \<open>plan_snapshot\<close> writes there; what another value converts to is not followed.
\<close>

definition snapshot_bigint :: "json_object \<Rightarrow> error + int" where
  "snapshot_bigint snap =
     (case map_of snap ''price_cents'' of
        None \<Rightarrow> Inr 0
      | Some JNull \<Rightarrow> Inr 0
      | Some (JInt n) \<Rightarrow> if - (2 ^ 63) \<le> n \<and> n < 2 ^ 63 then Inr n else Inl (OtherException ''DBAPIError'')
      | Some _ \<Rightarrow> Inl (OtherException ''DBAPIError''))"

fun sum_prices :: "subscription list \<Rightarrow> error + int" where
  "sum_prices [] = Inr 0"
| "sum_prices (r # rs) =
     bind_r (snapshot_bigint (sub_plan_snapshot r)) (\<lambda>n. bind_r (sum_prices rs) (\<lambda>m. Inr (n + m)))"

definition total_with_status :: "invoice_status \<Rightarrow> 'a bill_db_scheme \<Rightarrow> int" where
  "total_with_status st s = sum_list (map inv_total_cents (rows_where (\<lambda>r. inv_status r = st) (invoices s)))"

record revenue =
  rv_mrr_proxy_cents :: int
  rv_collected_cents :: int
  rv_outstanding_cents :: int
  rv_paying_organizations :: nat
  rv_invoices_by_status :: "(invoice_status \<times> nat) list"
  rv_as_of :: datetime

definition status_counts :: "'a bill_db_scheme \<Rightarrow> (invoice_status \<times> nat) list" where
  "status_counts s =
     map (\<lambda>st. (st, length (rows_where (\<lambda>r. inv_status r = st) (invoices s))))
       (filter (\<lambda>st. \<exists>r\<in>set (invoices s). inv_status r = st) [Draft, Open, Paid, Void, Uncollectible])"

definition revenue_summary :: "datetime \<Rightarrow> 'a bill_db_scheme \<Rightarrow> error + revenue" where
  "revenue_summary now s =
     (let occupied = rows_where occupying (subscription_rows s)
      in bind_r (sum_prices occupied) (\<lambda>mrr.
           Inr \<lparr>rv_mrr_proxy_cents = mrr, rv_collected_cents = total_with_status Paid s,
             rv_outstanding_cents = total_with_status Open s,
             rv_paying_organizations = length (remdups (map sub_organization_id
               (filter (\<lambda>r. case snapshot_bigint (sub_plan_snapshot r) of Inr n \<Rightarrow> n > 0 | Inl _ \<Rightarrow> False) occupied))),
             rv_invoices_by_status = status_counts s, rv_as_of = now\<rparr>))"

definition monthly_revenue :: "nat \<Rightarrow> 'a bill_db_scheme \<Rightarrow> month_total list" where
  "monthly_revenue months s =
     by_month (the \<circ> inv_paid_at)
       (rows_where (\<lambda>r. inv_status r = Paid \<and> inv_paid_at r \<noteq> None) (invoices s))"

section \<open>The reports add up\<close>

definition cents_of :: "(invoice \<Rightarrow> bool) \<Rightarrow> 'a bill_db_scheme \<Rightarrow> int" where
  "cents_of P s = sum_list (map inv_total_cents (filter P (invoices s)))"

lemma sum_list_partition:
  fixes f :: "'x \<Rightarrow> int"
  assumes "distinct ks" and "\<And>x. x \<in> set xs \<Longrightarrow> g x \<in> set ks"
  shows "(\<Sum>k\<leftarrow>ks. sum_list (map f (filter (\<lambda>x. g x = k) xs))) = sum_list (map f xs)"
  using assms(2)
proof (induction xs)
  case (Cons x xs)
  have "(\<Sum>k\<leftarrow>ks. sum_list (map f (filter (\<lambda>y. g y = k) (x # xs))))
      = (\<Sum>k\<leftarrow>ks. (if k = g x then f x else 0) + sum_list (map f (filter (\<lambda>y. g y = k) xs)))"
    by (rule arg_cong [where f = sum_list], rule map_cong) auto
  also have "\<dots> = (\<Sum>k\<leftarrow>ks. if k = g x then f x else 0) + sum_list (map f xs)"
    using Cons by (simp add: sum_list_addf)
  also have "(\<Sum>k\<leftarrow>ks. if k = g x then f x else 0) = f x"
    using assms(1) Cons.prems [of x] by (simp add: sum_list_distinct_conv_sum_set)
  finally show ?case by simp
qed simp

lemma set_first_occurrences [simp]: "set (first_occurrences xs) = set xs"
  and distinct_first_occurrences [simp]: "distinct (first_occurrences xs)"
  by (simp_all add: first_occurrences_def)

lemma int_sum_list: "int (sum_list (map f xs)) = (\<Sum>x\<leftarrow>xs. int (f x))"
  by (induction xs) auto

lemma by_month_adds_up:
  "sum_list (map mo_total_cents (by_month at rows)) = sum_list (map inv_total_cents rows)"
  "sum_list (map mo_invoices (by_month at rows)) = length rows"
proof -
  let ?ks = "first_occurrences (map (month_label \<circ> at) (sort_key at rows))"
  have ks: "month_label (at r) \<in> set ?ks" if "r \<in> set rows" for r using that by auto
  show "sum_list (map mo_total_cents (by_month at rows)) = sum_list (map inv_total_cents rows)"
    using sum_list_partition [of ?ks rows "\<lambda>r. month_label (at r)" inv_total_cents] ks
    by (simp add: by_month_def Let_def comp_def)
  have "int (sum_list (map mo_invoices (by_month at rows))) = (\<Sum>k\<leftarrow>?ks. sum_list (map (\<lambda>_. 1) (filter (\<lambda>r. month_label (at r) = k) rows)))"
    by (simp add: by_month_def Let_def comp_def sum_list_triv int_sum_list)
  also have "\<dots> = int (length rows)"
    using sum_list_partition [of ?ks rows "\<lambda>r. month_label (at r)" "\<lambda>_. 1"] ks by (simp add: sum_list_triv)
  finally show "sum_list (map mo_invoices (by_month at rows)) = length rows" by simp
qed


lemma status_totals_total:
  "get_or_zero (status_totals org s) st = cents_of (\<lambda>r. inv_organization_id r = org \<and> inv_status r = st) s"
proof -
  let ?rows = "rows_where (\<lambda>r. inv_organization_id r = org) (invoices s)"
  let ?sum = "\<lambda>st. sum_list (map inv_total_cents (filter (\<lambda>r. inv_status r = st) ?rows))"
  have sum: "?sum st = cents_of (\<lambda>r. inv_organization_id r = org \<and> inv_status r = st) s"
    by (simp add: cents_of_def rows_where_def conj_commute)
  have none: "?sum st = 0" if "\<not> (\<exists>r\<in>set ?rows. inv_status r = st)"
  proof -
    have "filter (\<lambda>r. inv_status r = st) ?rows = []" using that by (simp add: filter_empty_conv)
    then show ?thesis by simp
  qed
  have "st \<in> set [Draft, Open, Paid, Void, Uncollectible]" by (cases st) simp_all
  then have "get_or_zero (status_totals org s) st = (if \<exists>r\<in>set ?rows. inv_status r = st then ?sum st else 0)"
    by (auto simp: get_or_zero_def status_totals_def Let_def map_of_map_restrict restrict_map_def)
  with sum none show ?thesis by auto
qed

lemma status_totals_all:
  "sum_list (map snd (status_totals org s)) = cents_of (\<lambda>r. inv_organization_id r = org) s"
proof -
  let ?rows = "rows_where (\<lambda>r. inv_organization_id r = org) (invoices s)"
  let ?ks = "filter (\<lambda>st. \<exists>r\<in>set ?rows. inv_status r = st) [Draft, Open, Paid, Void, Uncollectible]"
  have "distinct ?ks" by (rule distinct_filter) simp
  moreover have "inv_status r \<in> set ?ks" if "r \<in> set ?rows" for r
    using that by (cases "inv_status r") auto
  ultimately show ?thesis
    using sum_list_partition [of ?ks ?rows inv_status inv_total_cents]
    by (simp add: status_totals_def cents_of_def rows_where_def Let_def comp_def del: filter.simps)
qed

lemma sum_over_owners:
  "(\<Sum>org\<in>inv_organization_id ` set (invoices s). cents_of (\<lambda>r. inv_organization_id r = org \<and> P r) s) = cents_of P s"
proof -
  let ?ks = "remdups (map inv_organization_id (invoices s))"
  have "(\<Sum>org\<leftarrow>?ks. sum_list (map inv_total_cents (filter (\<lambda>r. inv_organization_id r = org) (filter P (invoices s))))) = cents_of P s"
    unfolding cents_of_def by (rule sum_list_partition) auto
  then show ?thesis
    by (simp add: cents_of_def sum_list_distinct_conv_sum_set conj_commute)
qed

lemma collected_by_month:
  "total_with_status Paid s = sum_list (map mo_total_cents (monthly_revenue n s))
     + cents_of (\<lambda>r. inv_status r = Paid \<and> inv_paid_at r = None) s"
proof -
  have "sum_list (map f (filter P xs)) = sum_list (map f (filter (\<lambda>x. P x \<and> Q x) xs)) + sum_list (map f (filter (\<lambda>x. P x \<and> \<not> Q x) xs))"
    for f :: "invoice \<Rightarrow> int" and P Q xs by (induction xs) auto
  from this [of inv_total_cents "\<lambda>r. inv_status r = Paid" "invoices s" "\<lambda>r. inv_paid_at r \<noteq> None"] show ?thesis
    by (simp add: total_with_status_def monthly_revenue_def by_month_adds_up cents_of_def rows_where_def)
qed

text \<open>
  C0. The reports reconcile: what the platform collected, and what is outstanding, is the sum of what the
  organizations' summaries show, and the collected amount is the sum of the monthly rows and of the paid
  invoices that carry no payment date.
\<close>

theorem reports_reconcile:
  assumes "revenue_summary now s = Inr rv"
  shows "rv_collected_cents rv = (\<Sum>org\<in>inv_organization_id ` set (invoices s). sp_paid_cents (org_spend_summary org s))
    \<and> rv_outstanding_cents rv = (\<Sum>org\<in>inv_organization_id ` set (invoices s). sp_outstanding_cents (org_spend_summary org s))
    \<and> rv_collected_cents rv = sum_list (map mo_total_cents (monthly_revenue n s))
        + cents_of (\<lambda>r. inv_status r = Paid \<and> inv_paid_at r = None) s"
proof -
  have "rv_collected_cents rv = total_with_status Paid s" "rv_outstanding_cents rv = total_with_status Open s"
    using assms by (auto simp: revenue_summary_def Let_def bind_r_eq_Inr)
  moreover have "total_with_status st s = cents_of (\<lambda>r. inv_status r = st) s" for st
    by (simp add: total_with_status_def cents_of_def rows_where_def)
  ultimately show ?thesis
    using sum_over_owners [where s = s and P = "\<lambda>r. inv_status r = Paid"]
      sum_over_owners [where s = s and P = "\<lambda>r. inv_status r = Open"] collected_by_month [of s n]
    by (simp add: org_spend_summary_def Let_def status_totals_total)
qed

section \<open>What the subscription and checkout operations leave alone\<close>

definition books_kept :: "'a bill_db_scheme \<Rightarrow> 'a bill_db_scheme \<Rightarrow> bool" where
  "books_kept s s' \<longleftrightarrow> invoices s' = invoices s \<and> entitlement_rows s' = entitlement_rows s \<and> users s' = users s"

lemma books_kept_refl [simp]: "books_kept s s"
  by (simp add: books_kept_def)

lemma books_kept_trans: "books_kept s t \<Longrightarrow> books_kept t u \<Longrightarrow> books_kept s u"
  by (simp add: books_kept_def)

lemma writers_keep_books [simp]:
  "books_kept s0 (append_outbox ev ty i p o' s) = books_kept s0 s"
  "books_kept s0 (audit_log_as ev org a aty tt ti d s) = books_kept s0 s"
  "books_kept s0 (save_subscription r s) = books_kept s0 s"
  "books_kept s0 (bump_subscription_cache now org' s) = books_kept s0 s"
  "books_kept s0 (emit_subscription ev r pl x s) = books_kept s0 s"
  "books_kept s0 (audit_subscription ev org' ti' d' s) = books_kept s0 s"
  by (simp_all add: books_kept_def append_outbox_def audit_log_as_def save_subscription_def
      bump_subscription_cache_def bump_and_defer_def defer_bump_s_def emit_subscription_def
      audit_subscription_def split: prod.split)

lemma table_updates_keep_books [simp]:
  "books_kept s0 (s\<lparr>next_uuid := n\<rparr>) = books_kept s0 s"
  "books_kept s0 (s\<lparr>subscription_rows := rs\<rparr>) = books_kept s0 s"
  "books_kept s0 (s\<lparr>billing_customers := cs\<rparr>) = books_kept s0 s"
  "books_kept s0 (s\<lparr>invoice_lines := ls\<rparr>) = books_kept s0 s"
  "books_kept s0 (s\<lparr>cache_store := st\<rparr>) = books_kept s0 s"
  by (simp_all add: books_kept_def)

lemma books_kept_after_save [simp]: "books_kept (save_subscription r s) s' = books_kept s s'"
  by (simp add: books_kept_def save_subscription_def)

lemma flush_subscriptions_same: "flush_subscriptions s = Inr s' \<Longrightarrow> s' = s"
  by (auto simp: flush_subscriptions_def split: if_splits)

lemma create_subscription_books:
  "create_subscription now org p st a b c d e f s = Inr (r, s') \<Longrightarrow> books_kept s s'"
  by (auto simp: create_subscription_def bind_r_eq_Inr Let_def dest!: flush_subscriptions_same)

lemma change_plan_books:
  assumes "change_plan now org k pv ref keep s = Inr (r, s')"
  shows "books_kept s s'"
proof -
  from assms obtain p where p: "plan_by_key k False s = Inr p" by (auto simp: change_plan_def bind_r_eq_Inr)
  show ?thesis
  proof (cases "current_for_org org s")
    case None
    with assms p show ?thesis by (auto simp: change_plan_def intro: create_subscription_books)
  next
    case (Some e)
    with assms p show ?thesis by (auto simp: change_plan_def bind_r_eq_Inr Let_def dest!: flush_subscriptions_same)
  qed
qed

lemma subscription_operations_keep_books:
  "start_trial now org k n s = Inr (r, s') \<Longrightarrow> books_kept s s'"
  "cancel now org b s = Inr (r, s') \<Longrightarrow> books_kept s s'"
  "resume now org s = Inr (r, s') \<Longrightarrow> books_kept s s'"
  by (auto simp: start_trial_def cancel_def resume_def require_current_def bind_r_eq_Inr Let_def
      split: option.splits if_splits dest!: create_subscription_books flush_subscriptions_same)

lemma ensure_customer_books: "ensure_customer cfg pv org contact s = Inr (c, s') \<Longrightarrow> books_kept s s'"
  by (auto simp: ensure_customer_def bind_r_eq_Inr Let_def books_kept_def simp del: table_updates_keep_books
      split: option.splits)

lemma billing_change_plan_books:
  assumes "billing_change_plan pv now org key s = Inr (r, s')"
  shows "books_kept s s'"
  using assms by (auto simp: billing_change_plan_def bind_r_eq_Inr Let_def split: option.splits if_splits
      dest!: change_plan_books flush_subscriptions_same)

lemma complete_checkout_books:
  assumes "complete_checkout cfg pv now org p i u src s = Inr (r, s')"
  shows "\<exists>c s1. bc_organization_id c = org_id org \<and> books_kept s s1 \<and> record_invoice pv c p s1 = Inr s'"
proof -
  from assms obtain c s0 s1 where "ensure_customer cfg pv org u s = Inr (c, s0)"
    and ch: "change_plan now (org_id org) (plan_key p) (Some (pv_name pv)) i False s0 = Inr (r, s1)"
    and "record_invoice pv c p s1 = Inr s'"
    by (auto simp: complete_checkout_def bind_r_eq_Inr)
  moreover from this have "bc_organization_id c = org_id org"
    by (auto simp: ensure_customer_def customer_for_org_def bind_r_eq_Inr Let_def dest!: one_or_none_SomeD split: option.splits)
  ultimately show ?thesis
    using ensure_customer_books change_plan_books [OF ch] by (blast intro: books_kept_trans)
qed

text \<open>
  C0. A checkout's invoice counts as outstanding at once, but carries no date of issue: the monthly report
  of the organization does not show it.
\<close>

theorem checkout_invoice_missing_from_monthly_spend:
  assumes "complete_checkout cfg pv now org p i u src s = Inr (r, s')" and "price_or_zero p \<noteq> 0"
  shows "sp_outstanding_cents (org_spend_summary (org_id org) s')
      = sp_outstanding_cents (org_spend_summary (org_id org) s) + price_or_zero p
    \<and> org_monthly_spend (org_id org) n s' = org_monthly_spend (org_id org) n s"
proof -
  from complete_checkout_books [OF assms(1)] obtain c s1 where "bc_organization_id c = org_id org"
    "invoices s1 = invoices s" "record_invoice pv c p s1 = Inr s'" by (auto simp: books_kept_def)
  with assms(2) obtain q where "invoices s' = invoices s @ [q]" "inv_organization_id q = org_id org"
    "inv_status q = Open" "inv_issued_at q = None" "inv_total_cents q = price_or_zero p"
    by (auto simp: record_invoice_def Let_def bind_r_eq_Inr flush_invoices_def split: if_splits)
  then show ?thesis
    by (simp add: org_spend_summary_def Let_def status_totals_total cents_of_def org_monthly_spend_def rows_where_def)
qed

section \<open>Concrete reports\<close>

definition demo_billed :: bill_db where
  "demo_billed = demo_bill\<lparr>invoices := [(demo_invoice 3 3 Paid)\<lparr>inv_total_cents := 500, inv_paid_at := Some 0\<rparr>,
     (demo_invoice 4 2 Paid)\<lparr>inv_total_cents := 70\<rparr>, (demo_invoice 5 3 Open)\<lparr>inv_total_cents := 9\<rparr>]\<rparr>"

theorem reports_reconcile_witness:
  "\<exists>rv. revenue_summary 0 demo_billed = Inr rv \<and> rv_collected_cents rv = 570 \<and> rv_outstanding_cents rv = 9
     \<and> rv_collected_cents rv = (\<Sum>org\<in>{3, 2}. sp_paid_cents (org_spend_summary org demo_billed))
     \<and> rv_collected_cents rv = sum_list (map mo_total_cents (monthly_revenue 12 demo_billed)) + 70"
proof -
  obtain rv where rv: "revenue_summary 0 demo_billed = Inr rv" "rv_collected_cents rv = 570" "rv_outstanding_cents rv = 9"
    by (simp add: revenue_summary_def demo_billed_def sum_prices.simps snapshot_bigint_def rows_where_def Let_def occupying_def
        OCCUPYING_STATUSES_def demo_subscription_def demo_free_def demo_plan_def plan_snapshot_def opt_json_def
        total_with_status_def demo_invoice_def)
  have orgs: "inv_organization_id ` set (invoices demo_billed) = {3, 2}"
    by (auto simp: demo_billed_def demo_invoice_def)
  have undated: "cents_of (\<lambda>r. inv_status r = Paid \<and> inv_paid_at r = None) demo_billed = 70"
    by (simp add: demo_billed_def demo_invoice_def cents_of_def)
  show ?thesis using reports_reconcile [OF rv(1), of 12, unfolded orgs undated] rv by blast
qed

theorem checkout_invoice_missing_from_monthly_spend_witness:
  "\<exists>r s'. complete_checkout demo_billing_settings demo_manual 0 demo_org demo_pro None None Client_Confirm demo_bill = Inr (r, s')
     \<and> sp_outstanding_cents (org_spend_summary 7 s') = sp_outstanding_cents (org_spend_summary 7 demo_bill) + 9900
     \<and> org_monthly_spend 7 12 s' = org_monthly_spend 7 12 demo_bill"
proof -
  have "\<exists>r s'. complete_checkout demo_billing_settings demo_manual 0 demo_org demo_pro None None Client_Confirm demo_bill = Inr (r, s')"
  proof -
    define c where "c = \<lparr>bc_id = 9, bc_organization_id = 7, bc_provider = ''manual'', bc_provider_customer_id = Some ''manual_0a'',
      bc_email = Some ''acme@example.com'', bc_name = Some ''Acme'', bc_currency = Some ''PHP''\<rparr>"
    define s1 where "s1 = demo_bill\<lparr>next_uuid := 10, billing_customers := [c]\<rparr>"
    have one: "ensure_customer demo_billing_settings demo_manual demo_org None demo_bill = Inr (c, s1)"
      by (simp add: ensure_customer_def customer_for_org_def one_or_none_def demo_manual_def manual_provider_def demo_org_def
          demo_billing_settings_def settings.defs unique_customers_def Let_def s1_def c_def)
    have "\<exists>r s2. change_plan 0 7 ''pro'' (Some ''manual'') None False s1 = Inr (r, s2)"
      by (simp add: change_plan_def plan_by_key_def one_or_none_def demo_free_def demo_pro_def demo_plan_def s1_def
          current_for_org_def latest_def rows_where_def demo_subscription_def create_subscription_def Let_def
          flush_subscriptions_def unique_subscriptions_def occupying_def OCCUPYING_STATUSES_def)
    then obtain r s2 where two: "change_plan 0 7 ''pro'' (Some ''manual'') None False s1 = Inr (r, s2)" by blast
    have "\<exists>s3. record_invoice demo_manual c demo_pro s2 = Inr s3"
      using change_plan_books [OF two]
      by (simp add: record_invoice_def flush_invoices_def unique_invoices_def Let_def books_kept_def s1_def)
    with one two show ?thesis
      by (auto simp: complete_checkout_def demo_org_def demo_manual_def manual_provider_def demo_pro_def demo_plan_def)
  qed
  then obtain r s' where h: "complete_checkout demo_billing_settings demo_manual 0 demo_org demo_pro None None Client_Confirm demo_bill
      = Inr (r, s')" by blast
  have "price_or_zero demo_pro = 9900" "org_id demo_org = 7"
    by (simp_all add: price_or_zero_def demo_pro_def demo_plan_def demo_org_def)
  with checkout_invoice_missing_from_monthly_spend [OF h, of 12] h show ?thesis by auto
qed

end
