(* ===== verification/Spec2Isabelle.thy ===== *)
theory Spec2Isabelle
  imports Prelude Errors Calendar Cache Core Money Status Plans Subscriptions Resolver Entitlements
    Usage Scoped Accounts Invoicing Billing Deliveries Ids RateLimit Repo
    Permissions Authorization Tenancy Identity Access Profile Flags Blobs Files Agents Providers Reporting
begin

text \<open>
  A model of the Python package \<open>synapse_saas\<close> (sources under \<open>src/src/synapse_saas/\<close>): a multi-tenant
  SaaS back end with accounts, organizations, roles, plans, subscriptions, entitlements, metered usage,
  billing, outgoing webhooks, API keys, feature flags, stored files and a registry of agents.

  \<^bold>\<open>How the program is put together.\<close> A request enters through a FastAPI route. Its dependencies find the
  principal (a bearer token of a user or an API key), the tenant (header, subdomain or token claim) and,
  per route, a permission or a feature of the tenant's plan; then a service reads and writes rows through
  one SQLAlchemy session. A service announces what it did by appending rows to the outbox and to the audit
  log in the same transaction, and asks for cache invalidations that run after the commit. A worker drains
  the outbox into signed webhook deliveries, renews subscriptions the program bills itself, and cleans up.

  \<^bold>\<open>How it is modelled.\<close> The database is a record of tables, each a list of rows in insertion order. Records
  are extended along the import graph, so each component's operations are polymorphic in the tables that
  later components add: \<open>core_db\<close> (outbox, audit log, cache, request context, clock and supply of fresh
  identifiers), \<open>sub_db\<close> (catalog, subscriptions), \<open>ent_db\<close> (grants), \<open>usage_db\<close> (metrics, events, counters,
  idempotency keys), \<open>acct_db\<close> (organizations, users), then on one branch \<open>bill_db\<close> and \<open>hook_db\<close>, on the
  other \<open>auth_db\<close> (roles, memberships), \<open>ident_db\<close> (identities, refresh tokens), \<open>access_db\<close> (API keys) and the
  states of flags, files and agents. An operation is a function from arguments and state to an error or a
  result with the new state; every raise, early return and database constraint the code meets is a branch.
  An \<open>Inl\<close> result stands for a rolled back transaction. Jobs and requests compose by sequencing these
  functions; the properties that speak of any history are proved by rule induction over a step relation
  whose steps are the operations.

  \<^bold>\<open>Theories, in the order of the import graph, and the code each models.\<close>
  \<^item> Prelude: types shared by all (identifiers, instants, JSON), results with \<open>bind_r\<close> and \<open>guard_r\<close>, the
    queries and updates of tables with their lemmas.
  \<^item> Errors: \<open>core/errors.py\<close>. Calendar: the dates of Python's \<open>datetime\<close>, with the month arithmetic of billing
    periods. Cache: \<open>core/cache.py\<close>; the locale \<open>cache_backend_laws\<close> is the backend's contract and the
    versioned read that cannot serve a value older than the last invalidation is proved from it; the
    in-process backend is an interpretation. Core: \<open>core/events.py\<close>, \<open>core/context.py\<close>, \<open>core/outbox.py\<close>,
    \<open>audit/service.py\<close> and the unit of work of \<open>core/db.py\<close>.
  \<^item> Money: \<open>subscriptions/proration.py\<close> and the overage arithmetic. Status: the two transition tables behind one
    locale \<open>status_machine\<close>. Plans: \<open>subscriptions/catalog.py\<close>, \<open>subscriptions/sync.py\<close>. Subscriptions:
    \<open>subscriptions/service.py\<close>. Resolver and Entitlements: \<open>entitlements/resolver.py\<close>, \<open>entitlements/service.py\<close>.
    Usage: \<open>usage/service.py\<close>, \<open>usage/router.py\<close>.
  \<^item> Scoped: the locale \<open>tenant_scoped_get\<close>, the contract of every lookup that serves one tenant, interpreted
    for invoices, memberships, API keys and agents. Repo: \<open>core/repository.py\<close>, refined to that contract.
  \<^item> Accounts: the tables of organizations and users. Ids: \<open>core/ids.py\<close> on machine words and strings.
    Permissions: \<open>authorization/permissions.py\<close>, \<open>authorization/fga_model.py\<close>. Authorization:
    \<open>authorization/service.py\<close>, \<open>authorization/sync.py\<close>. Tenancy: \<open>tenancy/service.py\<close>, \<open>tenancy/repository.py\<close>.
    RateLimit: \<open>core/rate_limit.py\<close>, \<open>identity/rate_limit.py\<close>.
  \<^item> Identity: \<open>identity/service.py\<close>, \<open>core/security.py\<close>, the identity provider of \<open>identity/provider.py\<close>. Access:
    \<open>api_keys/\<close>, the dependencies of \<open>identity/\<close>, \<open>tenancy/\<close> and \<open>authorization/\<close>, and the routes that
    rest on them. Preferences and Profile: \<open>identity/preferences.py\<close> and the caller's own profile.
  \<^item> Invoicing: \<open>billing/invoicing.py\<close> and the renewal job. Billing: \<open>billing/protocol.py\<close>, \<open>billing/service.py\<close>,
    \<open>billing/webhooks.py\<close>, \<open>billing/registry.py\<close>, the manual provider. Deliveries: \<open>webhooks/service.py\<close> and the two
    jobs of \<open>worker/jobs.py\<close> that feed and send deliveries, both instances of the locale \<open>backoff_retry\<close>.
  \<^item> Flags: \<open>feature_flags/\<close>. Blobs: \<open>storage/backend.py\<close>, with the locale \<open>object_store\<close> for what a backend
    promises, interpreted on the local disk. Files: \<open>storage/router.py\<close> and the retention of
    uploads. Agents: \<open>agents/\<close>.
  \<^item> Providers: the hosted providers of \<open>billing/providers/\<close> (Stripe, PayMongo, Xendit, Paddle), the registry and the
    route that receives their webhooks.
  \<^bold>\<open>What the lemmas show.\<close>
  \<^item> Entitlements and usage: the resolver picks the strongest decision and merges limits; a consumption never
    passes a hard limit, is counted once under its idempotency key, and the counters always equal the
    events; cached answers follow every change of plan or grant.
  \<^item> Money: proration and overage conserve and bound amounts; drafts add up; invoice numbers never clash;
    renewals leave no gap; a provider webhook is applied only if it is authentic, and once.
  \<^item> Tenancy and access: members, roles and seats stay consistent; a request passes the gate only with an
    active membership and the permission; an API key never exceeds its creator; a permission or role
    change takes effect at once; another tenant's rows look missing; invitations, refresh tokens and
    password resets work once.
  \<^item> Delivery: every outbox event is settled after finitely many rounds, and an endpoint receives public events
    only, each at most once per endpoint.
  \<^item> Files, flags, agents: the stored bytes a tenant is charged for are those of its files, objects of two
    tenants never meet, cached flag answers agree with the tables, the agent registry is a history.

  \<^bold>\<open>Bounds and fuel.\<close> There is no fuel: every function is total by structural or measured recursion. Loops over
  a queue (outbox, deliveries, renewals) are recursion over the batch; the shape check of preferences is a
  \<open>while\<close> loop whose termination is proved. Integers are unbounded as in Python; identifiers are words
  where their layout matters. The columns' widths appear as the checks that a flush makes.

  \<^bold>\<open>Parameters.\<close> Code outside the repository is an argument: the cryptography (password hashing, JWT, HMAC,
  AES, random tokens) is a record of functions, with laws as named hypotheses where a property needs
  them; the OpenFGA check, the S3 client, SHA-256, the HTTP clients, the JSON reader, the text \<open>repr\<close> gives
  and the IP parser are functions. A UUID is a natural number and its text is \<open>nat_str\<close>, injective as the
  real text is.

  \<^bold>\<open>Not modelled.\<close>
  \<^item> Concurrency inside the database: requests and jobs are steps executed one after the other, which is what
    row locks, \<open>SKIP LOCKED\<close> and unique constraints give the code; a request reads the clock once.
    Row-level security is not modelled: the tenant filters of the queries are, and they are what is proved.
    An in-process cache fill or a write to a storage backend before an exception is not represented.
  \<^item> Texts of error messages and problem details, response headers, log lines, metrics and traces.
  \<^item> Rendering: PDF invoices, e-mail bodies, branding themes, reports, the OpenAPI schema.
  \<^item> Deployment: settings and their start-up checks, the application factory, the CLI, seeds,
    migrations, test fixtures, scaffolding, the generated client SDK.
  \<^item> The range of \<open>bigint\<close> columns, and values of JSON types that a documented field never has.
\<close>

end
